(* ===== verification/Prelude.thy ===== *)
theory Prelude
  imports
    Complex_Main
    "HOL-Library.Word"
    "HOL-Library.Multiset"
    "HOL-Library.Char_ord"
    "HOL-Library.List_Lexorder"
    "HOL-Library.Signed_Division"
begin

text \<open>
  Shared vocabulary of the development: results with errors, the little-endian image of a
  machine integer, decimal conversion (\<open>std::to_string\<close> and the \<open>%d\<close> of
  \<open>sscanf\<close>), and the two ordered containers of the C++ library the program stores its
  data in, \<open>std::map\<close> (an association list with strictly increasing keys) and
  \<open>std::multimap\<close> (a list sorted by key in which equal keys keep their insertion order).
  A byte is a \<open>char\<close>; a \<open>std::string\<close> and the content of a file are \<open>string\<close>.
\<close>

named_theorems bag_simps "facts the component proofs rewrite with"

section \<open>Results\<close>

text \<open>
  Every way an operation of the program can stop without a value: a failed \<open>assert\<close>, a
  use of the library outside its contract (an iterator or an index past the end, a null
  pointer), the exceptions of the standard library, the program's own
  \<open>MsgbagException\<close>, the \<open>format_error\<close> of the fmt library, the \<open>spdlog_ex\<close> of the logging
  library, and \<open>exit\<close>.
\<close>

datatype error =
    AssertFailed
  | UndefinedBehaviour
  | LengthError
  | LogicError
  | MsgbagException string
  | FormatError string
  | SpdlogException string
  | ProgramExit int

type_synonym 'a res = "error + 'a"

definition bind_res :: "'a res \<Rightarrow> ('a \<Rightarrow> 'b res) \<Rightarrow> 'b res" where
  "bind_res m f = (case m of Inl e \<Rightarrow> Inl e | Inr a \<Rightarrow> f a)"

lemma bind_res_simps [simp]:
  "bind_res (Inl e) f = Inl e"
  "bind_res (Inr a) f = f a"
  by (simp_all add: bind_res_def)

lemma bind_res_cong [fundef_cong]:
  assumes "m = m'" and "\<And>a. m' = Inr a \<Longrightarrow> f a = g a"
  shows "bind_res m f = bind_res m' g"
  using assms by (cases m') auto

lemma bind_res_eq_Inr:
  "bind_res m f = Inr b \<longleftrightarrow> (\<exists>a. m = Inr a \<and> f a = Inr b)"
  by (cases m) auto

lemma bind_res_InrE:
  assumes "bind_res m f = Inr b"
  obtains a where "m = Inr a" and "f a = Inr b"
  using assms by (auto simp: bind_res_eq_Inr)

section \<open>Little-endian bytes\<close>

type_synonym byte = char

fun le_bytes :: "nat \<Rightarrow> nat \<Rightarrow> string" where
  "le_bytes 0 v = []"
| "le_bytes (Suc n) v = char_of (v mod 256) # le_bytes n (v div 256)"

fun le_val :: "string \<Rightarrow> nat" where
  "le_val [] = 0"
| "le_val (c # cs) = of_char c + 256 * le_val cs"

lemma length_le_bytes [simp]: "length (le_bytes n v) = n"
  by (induction n arbitrary: v) auto

lemma of_char_less_256: "(of_char c :: nat) < 256"
  by simp

lemma le_val_le_bytes: "le_val (le_bytes n v) = v mod 256 ^ n"
proof (induction n arbitrary: v)
  case 0
  then show ?case by simp
next
  case (Suc n)
  have "v mod 256 ^ Suc n = v mod 256 + 256 * (v div 256 mod 256 ^ n)"
    by (simp add: mod_mult2_eq)
  then show ?case by (simp add: Suc.IH)
qed

lemma le_val_bound: "le_val bs < 256 ^ length bs"
proof (induction bs)
  case Nil
  then show ?case by simp
next
  case (Cons c cs)
  have "of_char c + 256 * le_val cs < 256 + 256 * le_val cs"
    using of_char_less_256 [of c] by (simp only: add_less_cancel_right)
  also have "\<dots> \<le> 256 * 256 ^ length cs"
    using Cons.IH by simp
  finally show ?case by simp
qed

lemma le_bytes_le_val [simp]: "le_bytes (length bs) (le_val bs) = bs"
  by (induction bs) auto

definition le_word :: "nat \<Rightarrow> 'a::len word \<Rightarrow> string" where
  "le_word n w = le_bytes n (unat w)"

definition word_le :: "string \<Rightarrow> 'a::len word" where
  "word_le bs = word_of_nat (le_val bs)"

lemma length_le_word [simp]: "length (le_word n w) = n"
  by (simp add: le_word_def)

lemma word_le_le_word [simp]:
  fixes w :: "'a::len word"
  assumes "LENGTH('a) \<le> 8 * n"
  shows "word_le (le_word n w) = w"
proof -
  have "unat w < 2 ^ LENGTH('a)" by simp
  also have "\<dots> \<le> (2::nat) ^ (8 * n)" using assms by (intro power_increasing) auto
  also have "\<dots> = 256 ^ n" by (simp add: power_mult)
  finally show ?thesis by (simp add: word_le_def le_word_def le_val_le_bytes)
qed

lemma unat_word_of_nat_small:
  "n < 2 ^ LENGTH('a) \<Longrightarrow> unat (word_of_nat n :: 'a::len word) = n"
  by (simp add: unat_of_nat)

text \<open>Signed 64-bit values in range, and C++ division of non-negative numbers.\<close>

lemma sint_word_of_int_small:
  "- (2 ^ 63) \<le> i \<Longrightarrow> i < 2 ^ 63 \<Longrightarrow> sint (word_of_int i :: 64 word) = i"
  by (simp add: signed_of_int signed_take_bit_int_eq_self)

lemma sint_add_small:
  fixes a b :: "64 word"
  shows "- (2 ^ 63) \<le> sint a + sint b \<Longrightarrow> sint a + sint b < 2 ^ 63 \<Longrightarrow> sint (a + b) = sint a + sint b"
  by (simp add: sint_word_ariths signed_take_bit_int_eq_self)

lemma sint_diff_small:
  fixes a b :: "64 word"
  shows "- (2 ^ 63) \<le> sint a - sint b \<Longrightarrow> sint a - sint b < 2 ^ 63 \<Longrightarrow> sint (a - b) = sint a - sint b"
  by (simp add: sint_word_ariths signed_take_bit_int_eq_self)

lemma sint_range_64: "- (2 ^ 63) \<le> sint (w :: 64 word) \<and> sint w < 2 ^ 63"
  using sint_range_size [of w] by (simp add: word_size)

lemma sdiv_nonneg: "0 \<le> k \<Longrightarrow> 0 < l \<Longrightarrow> k sdiv l = (k div l :: int)"
  by (cases "k = 0") (simp_all add: signed_divide_int_def)

lemma smod_nonneg: "0 \<le> k \<Longrightarrow> 0 < l \<Longrightarrow> k smod l = (k mod l :: int)"
  by (cases "k = 0") (simp_all add: signed_modulo_int_def)

section \<open>Decimal numbers\<close>

definition digit :: "nat \<Rightarrow> char" where
  "digit d = char_of (48 + d)"

definition digit_val :: "char \<Rightarrow> nat" where
  "digit_val c = of_char c - 48"

definition is_digit :: "char \<Rightarrow> bool" where
  "is_digit c \<longleftrightarrow> 48 \<le> (of_char c :: nat) \<and> (of_char c :: nat) \<le> 57"

text \<open>\<open>std::to_string\<close> of an unsigned and of a signed integer.\<close>

fun show_nat :: "nat \<Rightarrow> string" where
  "show_nat n = (if n < 10 then [digit n] else show_nat (n div 10) @ [digit (n mod 10)])"

declare show_nat.simps [simp del]

definition show_int :: "int \<Rightarrow> string" where
  "show_int i = (if i < 0 then CHR ''-'' # show_nat (nat (- i)) else show_nat (nat i))"

definition nat_of_digits :: "string \<Rightarrow> nat" where
  "nat_of_digits = foldl (\<lambda>a c. 10 * a + digit_val c) 0"

text \<open>The characters \<open>isspace\<close> accepts in the C locale.\<close>

definition is_space :: "char \<Rightarrow> bool" where
  "is_space c \<longleftrightarrow> (of_char c :: nat) \<in> {9, 10, 11, 12, 13, 32}"

text \<open>
  One \<open>%d\<close> of \<open>sscanf\<close> (and \<open>operator>>\<close> into an integer): skip white space, an
  optional sign, at least one digit. The value is the mathematical one; the callers decide what
  a value outside the type does.
\<close>

definition scan_digits :: "string \<Rightarrow> (nat \<times> string) option" where
  "scan_digits s =
     (let ds = takeWhile is_digit s
      in if ds = [] then None else Some (nat_of_digits ds, dropWhile is_digit s))"

definition scan_int :: "string \<Rightarrow> (int \<times> string) option" where
  "scan_int s =
     (case dropWhile is_space s of
        [] \<Rightarrow> None
      | c # cs \<Rightarrow>
          if c = CHR ''-'' then map_option (\<lambda>(n, r). (- int n, r)) (scan_digits cs)
          else if c = CHR ''+'' then map_option (\<lambda>(n, r). (int n, r)) (scan_digits cs)
          else map_option (\<lambda>(n, r). (int n, r)) (scan_digits (c # cs)))"

lemma is_digit_digit [simp]: "d < 10 \<Longrightarrow> is_digit (digit d)"
  by (simp add: is_digit_def digit_def)

lemma digit_val_digit [simp]: "d < 10 \<Longrightarrow> digit_val (digit d) = d"
  by (simp add: digit_val_def digit_def)

lemma show_nat_digits: "c \<in> set (show_nat n) \<Longrightarrow> is_digit c"
proof (induction n rule: show_nat.induct)
  case (1 n)
  show ?case
  proof (cases "n < 10")
    case True
    with "1.prems" show ?thesis by (simp add: show_nat.simps [of n])
  next
    case False
    with "1" show ?thesis by (auto simp: show_nat.simps [of n])
  qed
qed

lemma show_nat_nonempty [simp]: "show_nat n \<noteq> []"
  by (subst show_nat.simps) simp

lemma nat_of_digits_snoc: "nat_of_digits (ds @ [c]) = 10 * nat_of_digits ds + digit_val c"
  by (simp add: nat_of_digits_def)

lemma nat_of_digits_show_nat [simp]: "nat_of_digits (show_nat n) = n"
proof (induction n rule: show_nat.induct)
  case (1 n)
  show ?case
  proof (cases "n < 10")
    case True
    then show ?thesis by (simp add: show_nat.simps [of n] nat_of_digits_def)
  next
    case False
    with "1" show ?thesis by (simp add: show_nat.simps [of n] nat_of_digits_snoc)
  qed
qed

lemma show_nat_inject [simp]: "show_nat m = show_nat n \<longleftrightarrow> m = n"
  by (metis nat_of_digits_show_nat)

lemma length_show_nat_le:
  assumes "n < 10 ^ k" and "0 < k"
  shows "length (show_nat n) \<le> k"
  using assms
proof (induction n arbitrary: k rule: show_nat.induct)
  case (1 n)
  show ?case
  proof (cases "n < 10")
    case True
    with "1.prems" show ?thesis by (simp add: show_nat.simps [of n])
  next
    case False
    obtain j where j: "k = Suc j" using "1.prems" by (cases k) auto
    with False "1.prems" have "0 < j" by (cases j) auto
    moreover have "n div 10 < 10 ^ j" using "1.prems" j by (simp add: less_mult_imp_div_less)
    ultimately have "length (show_nat (n div 10)) \<le> j" using "1.IH" False by blast
    with False j show ?thesis by (simp add: show_nat.simps [of n])
  qed
qed

lemma length_show_int_le:
  assumes "\<bar>i\<bar> < 10 ^ k" and "0 < k"
  shows "length (show_int i) \<le> Suc k"
proof -
  have "nat \<bar>i\<bar> < 10 ^ k" using assms(1) by (simp add: nat_less_iff)
  then have "length (show_nat (nat \<bar>i\<bar>)) \<le> k" using assms(2) by (rule length_show_nat_le)
  then show ?thesis by (simp add: show_int_def abs_if split: if_splits)
qed

lemma show_int_chars: "c \<in> set (show_int i) \<Longrightarrow> c = CHR ''-'' \<or> is_digit c"
  by (auto simp: show_int_def dest: show_nat_digits split: if_splits)

lemma show_int_no_sep:
  "CHR ''='' \<notin> set (show_int i)" "CHR 0x0A \<notin> set (show_int i)"
  by (auto dest!: show_int_chars simp: is_digit_def)

lemma scan_digits_show_nat:
  assumes "rest = [] \<or> \<not> is_digit (hd rest)"
  shows "scan_digits (show_nat n @ rest) = Some (n, rest)"
proof -
  have ds: "\<And>c. c \<in> set (show_nat n) \<Longrightarrow> is_digit c" by (rule show_nat_digits)
  have "takeWhile is_digit (show_nat n @ rest) = show_nat n"
    using ds assms by (cases rest) (auto simp: takeWhile_append)
  moreover have "dropWhile is_digit (show_nat n @ rest) = rest"
    using ds assms by (cases rest) (auto simp: dropWhile_append)
  ultimately show ?thesis by (simp add: scan_digits_def Let_def)
qed

end
