(* ===== verification/Buffer.thy ===== *)
theory Buffer
  imports Prelude
begin

text \<open>
  \<open>src/common/buffer.h\<close> and \<open>buffer.cpp\<close>: the byte buffer a header record is assembled in
  and parsed from. The vector, the reader index and the writer index are a record; a pointer
  into the vector is an index; an operation that ends in \<open>assert\<close> returns an error when the
  assertion fails. Sizes are \<open>size_t\<close>: sums and differences wrap at \<open>2^64\<close>. The invariant \<open>buf_ok\<close>, which every
  operation keeps unless it is asked for a length near \<open>2^64\<close>, says that the indices are in the vector;
  outside it the code leaves the vector, and what the definitions say of the bytes means nothing. A
  string longer than the largest one cannot be built. The host is
  little-endian, so the integers, which the code copies with no conversion, are stored low
  byte first.
\<close>

section \<open>State and accessors\<close>

record buffer =
  vec :: string
  readerIndex :: nat
  writerIndex :: nat

definition kCheapPrepend :: nat where "kCheapPrepend = 8"
definition kInitialSize :: nat where "kInitialSize = 1024"

definition max_vector :: nat where "max_vector = 2 ^ 63 - 1"

definition resize_vector :: "nat \<Rightarrow> string \<Rightarrow> string res" where
  "resize_vector n v =
     (if n \<le> max_vector then Inr (take n v @ replicate (n - length v) (CHR 0x00))
      else Inl LengthError)"

text \<open>Subtraction on \<open>size_t\<close>.\<close>

definition size_sub :: "nat \<Rightarrow> nat \<Rightarrow> nat" where
  "size_sub a b = (a + 2 ^ 64 - b) mod 2 ^ 64"

definition Buffer_new :: "nat \<Rightarrow> buffer res" where
  "Buffer_new initialSize =
     bind_res (resize_vector ((kCheapPrepend + initialSize) mod 2 ^ 64) [])
       (\<lambda>v. if size_sub kCheapPrepend kCheapPrepend = 0 \<and>
               size_sub (length v) kCheapPrepend = initialSize
            then Inr \<lparr>vec = v, readerIndex = kCheapPrepend, writerIndex = kCheapPrepend\<rparr>
            else Inl AssertFailed)"

definition swap_buffers :: "buffer \<times> buffer \<Rightarrow> buffer \<times> buffer" where
  "swap_buffers p = (snd p, fst p)"

definition readableBytes :: "buffer \<Rightarrow> nat" where
  "readableBytes b = size_sub (writerIndex b) (readerIndex b)"

definition writableBytes :: "buffer \<Rightarrow> nat" where
  "writableBytes b = size_sub (length (vec b)) (writerIndex b)"

definition prependableBytes :: "buffer \<Rightarrow> nat" where
  "prependableBytes b = readerIndex b"

text \<open>The bytes of the vector from index \<open>i\<close> up to index \<open>j\<close>.\<close>

definition slice :: "nat \<Rightarrow> nat \<Rightarrow> string \<Rightarrow> string" where
  "slice i j v = take (j - i) (drop i v)"

definition contents :: "buffer \<Rightarrow> string" where
  "contents b = slice (readerIndex b) (writerIndex b) (vec b)"

text \<open>\<open>std::copy\<close> of a string to index \<open>i\<close> of the vector.\<close>

definition copy_to :: "nat \<Rightarrow> string \<Rightarrow> string \<Rightarrow> string" where
  "copy_to i s v = take i v @ s @ drop (i + length s) v"

definition buf_ok :: "buffer \<Rightarrow> bool" where
  "buf_ok b \<longleftrightarrow> readerIndex b \<le> writerIndex b \<and> writerIndex b \<le> length (vec b) \<and>
     kCheapPrepend \<le> length (vec b) \<and> length (vec b) \<le> max_vector"

section \<open>Searching\<close>

fun crlf_index :: "string \<Rightarrow> nat option" where
  "crlf_index (c # d # cs) =
     (if c = CHR 0x0D \<and> d = CHR 0x0A then Some 0 else map_option Suc (crlf_index (d # cs)))"
| "crlf_index _ = None"

fun eol_index :: "string \<Rightarrow> nat option" where
  "eol_index [] = None"
| "eol_index (c # cs) = (if c = CHR 0x0A then Some 0 else map_option Suc (eol_index cs))"

definition findCRLF_from :: "nat \<Rightarrow> buffer \<Rightarrow> nat option res" where
  "findCRLF_from start b =
     (if readerIndex b \<le> start \<and> start \<le> writerIndex b
      then Inr (map_option (\<lambda>i. start + i) (crlf_index (slice start (writerIndex b) (vec b))))
      else Inl AssertFailed)"

definition findCRLF :: "buffer \<Rightarrow> nat option" where
  "findCRLF b = map_option (\<lambda>i. readerIndex b + i) (crlf_index (contents b))"

definition findEOL_from :: "nat \<Rightarrow> buffer \<Rightarrow> nat option res" where
  "findEOL_from start b =
     (if readerIndex b \<le> start \<and> start \<le> writerIndex b
      then Inr (map_option (\<lambda>i. start + i) (eol_index (slice start (writerIndex b) (vec b))))
      else Inl AssertFailed)"

definition findEOL :: "buffer \<Rightarrow> nat option" where
  "findEOL b = map_option (\<lambda>i. readerIndex b + i) (eol_index (contents b))"

section \<open>Consuming\<close>

definition retrieveAll :: "buffer \<Rightarrow> buffer" where
  "retrieveAll b = b\<lparr>readerIndex := kCheapPrepend, writerIndex := kCheapPrepend\<rparr>"

definition retrieve :: "nat \<Rightarrow> buffer \<Rightarrow> buffer res" where
  "retrieve len b =
     (if \<not> len \<le> readableBytes b then Inl AssertFailed
      else if len < readableBytes b then Inr (b\<lparr>readerIndex := readerIndex b + len\<rparr>)
      else Inr (retrieveAll b))"

definition retrieveUntil :: "nat \<Rightarrow> buffer \<Rightarrow> buffer res" where
  "retrieveUntil e b =
     (if readerIndex b \<le> e \<and> e \<le> writerIndex b then retrieve (e - readerIndex b) b
      else Inl AssertFailed)"

definition retrieveAsString :: "nat \<Rightarrow> buffer \<Rightarrow> (string \<times> buffer) res" where
  "retrieveAsString len b =
     (if \<not> len \<le> readableBytes b then Inl AssertFailed
      else bind_res (retrieve len b)
        (\<lambda>b'. Inr (slice (readerIndex b) (readerIndex b + len) (vec b), b')))"

definition retrieveAllAsString :: "buffer \<Rightarrow> (string \<times> buffer) res" where
  "retrieveAllAsString b = retrieveAsString (readableBytes b) b"

text \<open>The length goes through \<open>static_cast<int>\<close>; a negative one is out of range for the string.\<close>

definition toStringPiece :: "buffer \<Rightarrow> string res" where
  "toStringPiece b =
     (let n = sint (word_of_nat (readableBytes b) :: 32 word)
      in if n < 0 then Inl LengthError
         else Inr (slice (readerIndex b) (readerIndex b + nat n) (vec b)))"

section \<open>Producing\<close>

definition hasWritten :: "nat \<Rightarrow> buffer \<Rightarrow> buffer res" where
  "hasWritten len b =
     (if len \<le> writableBytes b then Inr (b\<lparr>writerIndex := writerIndex b + len\<rparr>)
      else Inl AssertFailed)"

definition unwrite :: "nat \<Rightarrow> buffer \<Rightarrow> buffer res" where
  "unwrite len b =
     (if len \<le> readableBytes b then Inr (b\<lparr>writerIndex := writerIndex b - len\<rparr>)
      else Inl AssertFailed)"

definition makeSpace :: "nat \<Rightarrow> buffer \<Rightarrow> buffer res" where
  "makeSpace len b =
     (if (writableBytes b + prependableBytes b) mod 2 ^ 64 < (len + kCheapPrepend) mod 2 ^ 64 then
        bind_res (resize_vector ((writerIndex b + len) mod 2 ^ 64) (vec b)) (\<lambda>v. Inr (b\<lparr>vec := v\<rparr>))
      else if \<not> kCheapPrepend < readerIndex b then Inl AssertFailed
      else
        (let readable = readableBytes b;
             b' = b\<lparr>vec := copy_to kCheapPrepend (contents b) (vec b),
                    readerIndex := kCheapPrepend,
                    writerIndex := kCheapPrepend + readable\<rparr>
         in if readable = readableBytes b' then Inr b' else Inl AssertFailed))"

definition ensureWritableBytes :: "nat \<Rightarrow> buffer \<Rightarrow> buffer res" where
  "ensureWritableBytes len b =
     bind_res (if writableBytes b < len then makeSpace len b else Inr b)
       (\<lambda>b'. if len \<le> writableBytes b' then Inr b' else Inl AssertFailed)"

text \<open>\<open>poke s\<close>: the bytes are stored at \<open>beginWrite()\<close> by somebody else (\<open>std::copy\<close>,
  \<open>fstream::read\<close>), before \<open>hasWritten\<close>.\<close>

definition poke :: "string \<Rightarrow> buffer \<Rightarrow> buffer" where
  "poke s b = b\<lparr>vec := copy_to (writerIndex b) s (vec b)\<rparr>"

definition append_bytes :: "string \<Rightarrow> buffer \<Rightarrow> buffer res" where
  "append_bytes s b =
     (if max_vector < length s then Inl LengthError
      else bind_res (ensureWritableBytes (length s) b) (\<lambda>b'. hasWritten (length s) (poke s b')))"

definition prepend :: "string \<Rightarrow> buffer \<Rightarrow> buffer res" where
  "prepend s b =
     (if length s \<le> prependableBytes b
      then Inr (b\<lparr>readerIndex := readerIndex b - length s,
                  vec := copy_to (readerIndex b - length s) s (vec b)\<rparr>)
      else Inl AssertFailed)"

definition shrink :: "nat \<Rightarrow> buffer \<Rightarrow> buffer res" where
  "shrink reserve b =
     bind_res (Buffer_new kInitialSize) (\<lambda>other.
     bind_res (ensureWritableBytes ((readableBytes b + reserve) mod 2 ^ 64) other) (\<lambda>other.
     bind_res (toStringPiece b) (\<lambda>s.
     bind_res (append_bytes s other) (\<lambda>other. Inr (fst (swap_buffers (b, other)))))))"

text \<open>
  \<open>readFd\<close>: what \<open>readv\<close> delivered is the argument, an error number or the bytes; at most
  the writable bytes and the 65536 of the stack buffer.
\<close>

definition readFd :: "int + string \<Rightarrow> buffer \<Rightarrow> (int \<times> int option \<times> buffer) res" where
  "readFd r b =
     (case r of
        Inl errno \<Rightarrow> Inr (-1, Some errno, b)
      | Inr s \<Rightarrow>
          (let writable = writableBytes b; n = length s
           in if n \<le> writable
              then Inr (int n, None, (poke s b)\<lparr>writerIndex := writerIndex b + n\<rparr>)
              else bind_res
                (append_bytes (drop writable s)
                  ((poke (take writable s) b)\<lparr>writerIndex := length (vec b)\<rparr>))
                (\<lambda>b'. Inr (int n, None, b'))))"

section \<open>Integers\<close>

definition appendInt64 :: "64 word \<Rightarrow> buffer \<Rightarrow> buffer res" where
  "appendInt64 x = append_bytes (le_word 8 x)"

definition retrieveInt64 :: "buffer \<Rightarrow> buffer res" where
  "retrieveInt64 = retrieve 8"

definition peekInt64 :: "buffer \<Rightarrow> 64 word res" where
  "peekInt64 b =
     (if 8 \<le> readableBytes b
      then Inr (word_le (slice (readerIndex b) (readerIndex b + 8) (vec b)))
      else Inl AssertFailed)"

definition readInt64 :: "buffer \<Rightarrow> (64 word \<times> buffer) res" where
  "readInt64 b =
     bind_res (peekInt64 b) (\<lambda>x. bind_res (retrieveInt64 b) (\<lambda>b'. Inr (x, b')))"

definition prependInt64 :: "64 word \<Rightarrow> buffer \<Rightarrow> buffer res" where
  "prependInt64 x = prepend (le_word 8 x)"

definition appendInt32 :: "32 word \<Rightarrow> buffer \<Rightarrow> buffer res" where
  "appendInt32 x = append_bytes (le_word 4 x)"

definition retrieveInt32 :: "buffer \<Rightarrow> buffer res" where
  "retrieveInt32 = retrieve 4"

definition peekInt32 :: "buffer \<Rightarrow> 32 word res" where
  "peekInt32 b =
     (if 4 \<le> readableBytes b
      then Inr (word_le (slice (readerIndex b) (readerIndex b + 4) (vec b)))
      else Inl AssertFailed)"

definition readInt32 :: "buffer \<Rightarrow> (32 word \<times> buffer) res" where
  "readInt32 b =
     bind_res (peekInt32 b) (\<lambda>x. bind_res (retrieveInt32 b) (\<lambda>b'. Inr (x, b')))"

definition prependInt32 :: "32 word \<Rightarrow> buffer \<Rightarrow> buffer res" where
  "prependInt32 x = prepend (le_word 4 x)"

definition appendInt16 :: "16 word \<Rightarrow> buffer \<Rightarrow> buffer res" where
  "appendInt16 x = append_bytes (le_word 2 x)"

definition retrieveInt16 :: "buffer \<Rightarrow> buffer res" where
  "retrieveInt16 = retrieve 2"

definition peekInt16 :: "buffer \<Rightarrow> 16 word res" where
  "peekInt16 b =
     (if 2 \<le> readableBytes b
      then Inr (word_le (slice (readerIndex b) (readerIndex b + 2) (vec b)))
      else Inl AssertFailed)"

definition readInt16 :: "buffer \<Rightarrow> (16 word \<times> buffer) res" where
  "readInt16 b =
     bind_res (peekInt16 b) (\<lambda>x. bind_res (retrieveInt16 b) (\<lambda>b'. Inr (x, b')))"

definition prependInt16 :: "16 word \<Rightarrow> buffer \<Rightarrow> buffer res" where
  "prependInt16 x = prepend (le_word 2 x)"

definition appendInt8 :: "8 word \<Rightarrow> buffer \<Rightarrow> buffer res" where
  "appendInt8 x = append_bytes (le_word 1 x)"

definition retrieveInt8 :: "buffer \<Rightarrow> buffer res" where
  "retrieveInt8 = retrieve 1"

definition peekInt8 :: "buffer \<Rightarrow> 8 word res" where
  "peekInt8 b =
     (if 1 \<le> readableBytes b
      then Inr (word_le (slice (readerIndex b) (readerIndex b + 1) (vec b)))
      else Inl AssertFailed)"

definition readInt8 :: "buffer \<Rightarrow> (8 word \<times> buffer) res" where
  "readInt8 b =
     bind_res (peekInt8 b) (\<lambda>x. bind_res (retrieveInt8 b) (\<lambda>b'. Inr (x, b')))"

definition prependInt8 :: "8 word \<Rightarrow> buffer \<Rightarrow> buffer res" where
  "prependInt8 x = prepend (le_word 1 x)"

section \<open>The invariant and the queue of bytes\<close>

lemma size_sub_nat: "b \<le> a \<Longrightarrow> a < 2 ^ 64 \<Longrightarrow> size_sub a b = a - b"
  by (simp add: size_sub_def mod_if)

lemma readableBytes_nat: "buf_ok b \<Longrightarrow> readableBytes b = writerIndex b - readerIndex b"
  by (simp add: readableBytes_def size_sub_nat buf_ok_def max_vector_def)

lemma writableBytes_nat: "buf_ok b \<Longrightarrow> writableBytes b = length (vec b) - writerIndex b"
  by (simp add: writableBytes_def size_sub_nat buf_ok_def max_vector_def)

text \<open>Consuming bytes leaves that many bytes less.\<close>

lemma size_sub_add:
  assumes "n \<le> size_sub a b"
  shows "size_sub a (b + n) = size_sub a b - n"
proof -
  let ?M = "2 ^ 64 :: nat" and ?x = "a + 2 ^ 64 - b"
  have "n \<le> ?x mod ?M" using assms by (simp add: size_sub_def)
  then have "?x - n = (?x mod ?M - n) + ?x div ?M * ?M" by (simp add: minus_div_mult_eq_mod [symmetric])
  moreover have "a + 2 ^ 64 - (b + n) = ?x - n" by simp
  ultimately have "size_sub a (b + n) = (?x mod ?M - n) mod ?M" unfolding size_sub_def by (metis mod_mult_self1)
  also have "\<dots> = ?x mod ?M - n" by (intro mod_less) (simp add: less_imp_diff_less)
  finally show ?thesis by (simp add: size_sub_def)
qed

lemma readableBytes_retrieve:
  assumes "retrieve n b = Inr b'"
  shows "readableBytes b' = readableBytes b - n" and "n \<le> readableBytes b"
  using assms
  by (auto simp: retrieve_def readableBytes_def size_sub_add retrieveAll_def split: if_splits) (simp add: size_sub_def)

lemma length_slice [simp]: "length (slice i j v) = min (j - i) (length v - i)"
  by (simp add: slice_def)

lemma slice_all: "slice 0 (length v) v = v"
  by (simp add: slice_def)

lemma length_contents:
  "buf_ok b \<Longrightarrow> length (contents b) = readableBytes b"
  by (auto simp: buf_ok_def contents_def readableBytes_nat)

lemma slice_prefix: "slice i (i + n) v = take n (drop i v)"
  by (simp add: slice_def)

lemma take_contents:
  "buf_ok b \<Longrightarrow> n \<le> readableBytes b \<Longrightarrow> take n (contents b) = slice (readerIndex b) (readerIndex b + n) (vec b)"
  by (simp add: contents_def slice_def readableBytes_nat min_def)

lemma length_copy_to:
  "i + length s \<le> length v \<Longrightarrow> length (copy_to i s v) = length v"
  by (simp add: copy_to_def)

lemma slice_copy_to_same:
  "i + length s \<le> length v \<Longrightarrow> slice i (i + length s) (copy_to i s v) = s"
  by (simp add: slice_def copy_to_def)

lemma slice_copy_to_before:
  "j \<le> i \<Longrightarrow> i \<le> length v \<Longrightarrow> slice k j (copy_to i s v) = slice k j v"
  by (simp add: slice_def copy_to_def drop_take)

lemma slice_split:
  assumes "i \<le> j" and "j \<le> k"
  shows "slice i k v = slice i j v @ slice j k v"
proof -
  have e: "k - i = (j - i) + (k - j)" using assms by simp
  have "take (k - i) (drop i v) = take (j - i) (drop i v) @ take (k - j) (drop (j - i + i) v)"
    unfolding e take_add drop_drop by (simp add: add.commute)
  then show ?thesis using assms by (simp add: slice_def)
qed

lemma Buffer_new_Inr:
  assumes "n + kCheapPrepend \<le> max_vector"
  shows "Buffer_new n = Inr \<lparr>vec = replicate (8 + n) (CHR 0x00), readerIndex = 8, writerIndex = 8\<rparr>"
proof -
  have "n + 8 < 2 ^ 64" using assms by (simp add: kCheapPrepend_def max_vector_def)
  then show ?thesis
    using assms
    by (simp add: Buffer_new_def resize_vector_def size_sub_def kCheapPrepend_def max_vector_def)
qed

lemma Buffer_new_ok:
  assumes "n + kCheapPrepend \<le> max_vector"
  obtains b where "Buffer_new n = Inr b" and "buf_ok b" and "contents b = []"
    and "length (vec b) = n + kCheapPrepend" and "writableBytes b = n" and "readerIndex b = kCheapPrepend"
  using assms that [OF Buffer_new_Inr [OF assms]]
  by (simp add: buf_ok_def contents_def slice_def writableBytes_nat kCheapPrepend_def add.commute)

text \<open>Within the invariant and below the largest vector the sums do not wrap.\<close>

lemma makeSpace_eq:
  assumes "buf_ok b" and "len \<le> max_vector"
  shows "makeSpace len b =
     (if writableBytes b + prependableBytes b < len + kCheapPrepend then
        bind_res (resize_vector (writerIndex b + len) (vec b)) (\<lambda>v. Inr (b\<lparr>vec := v\<rparr>))
      else if \<not> kCheapPrepend < readerIndex b then Inl AssertFailed
      else
        Inr (b\<lparr>vec := copy_to kCheapPrepend (contents b) (vec b), readerIndex := kCheapPrepend,
               writerIndex := kCheapPrepend + readableBytes b\<rparr>))"
proof -
  have r: "readerIndex b \<le> writerIndex b" "writerIndex b \<le> length (vec b)" "length (vec b) \<le> max_vector"
    using assms(1) by (simp_all add: buf_ok_def)
  have "writableBytes b + prependableBytes b < 2 ^ 64" "len + kCheapPrepend < 2 ^ 64" "writerIndex b + len < 2 ^ 64"
    using r assms by (simp_all add: writableBytes_nat prependableBytes_def kCheapPrepend_def max_vector_def)
  moreover have "readableBytes b + kCheapPrepend < 2 ^ 64"
    using r assms(1) by (simp add: readableBytes_nat kCheapPrepend_def max_vector_def)
  then have "size_sub (kCheapPrepend + readableBytes b) kCheapPrepend = readableBytes b" by (simp add: size_sub_nat)
  ultimately show ?thesis by (simp add: makeSpace_def readableBytes_def Let_def)
qed

text \<open>The assertion of \<open>makeSpace\<close> (\<open>kCheapPrepend < readerIndex_\<close>) never fails when it
  is called for lack of room, and the readable bytes are kept.\<close>

lemma makeSpace_cases:
  assumes ok: "buf_ok b" and few: "writableBytes b < len" and len: "len \<le> max_vector"
    and nolen: "makeSpace len b \<noteq> Inl LengthError"
  obtains b' where "makeSpace len b = Inr b'" and "buf_ok b'" and "contents b' = contents b"
    and "len \<le> writableBytes b'" and "length (vec b') \<le> length (vec b) + len"
    and "min kCheapPrepend (readerIndex b) \<le> readerIndex b'"
proof (cases "writableBytes b + prependableBytes b < len + kCheapPrepend")
  case True
  have fits: "writerIndex b + len \<le> max_vector"
    using nolen True by (simp add: makeSpace_eq [OF ok len] resize_vector_def split: if_splits)
  define v where "v = take (writerIndex b + len) (vec b) @
    replicate (writerIndex b + len - length (vec b)) (CHR 0x00)"
  have len_v: "length v = writerIndex b + len"
    using ok few by (simp add: v_def buf_ok_def writableBytes_nat)
  have "resize_vector (writerIndex b + len) (vec b) = Inr v"
    using ok fits by (simp add: resize_vector_def v_def buf_ok_def)
  then have ms: "makeSpace len b = Inr (b\<lparr>vec := v\<rparr>)"
    using True by (simp add: makeSpace_eq [OF ok len])
  have "slice (readerIndex b) (writerIndex b) v = slice (readerIndex b) (writerIndex b) (vec b)"
    using ok by (simp add: v_def slice_def buf_ok_def drop_take min_def)
  then have "contents (b\<lparr>vec := v\<rparr>) = contents b" by (simp add: contents_def)
  moreover have "buf_ok (b\<lparr>vec := v\<rparr>)"
    using ok fits few by (auto simp: buf_ok_def len_v writableBytes_nat)
  ultimately show ?thesis
    using that [OF ms] ok by (simp add: writableBytes_nat len_v buf_ok_def)
next
  case False
  then have r8: "kCheapPrepend < readerIndex b" using few by (simp add: prependableBytes_def)
  define b' where "b' = b\<lparr>vec := copy_to kCheapPrepend (contents b) (vec b),
    readerIndex := kCheapPrepend, writerIndex := kCheapPrepend + readableBytes b\<rparr>"
  have lc: "length (contents b) = readableBytes b" using ok by (rule length_contents)
  have room: "kCheapPrepend + length (contents b) \<le> length (vec b)"
    using ok r8 lc readableBytes_nat [OF ok] unfolding buf_ok_def by linarith
  have ms: "makeSpace len b = Inr b'"
    using False r8 by (simp add: makeSpace_eq [OF ok len] b'_def Let_def readableBytes_nat)
  have c: "contents b' = contents b"
    using slice_copy_to_same [OF room] lc by (simp add: contents_def b'_def)
  have lv: "length (vec b') = length (vec b)"
    using room by (simp add: b'_def length_copy_to)
  have ok': "buf_ok b'" using ok r8 room lv lc by (simp add: buf_ok_def b'_def)
  moreover have "writerIndex b' = kCheapPrepend + (writerIndex b - readerIndex b)" using ok by (simp add: b'_def readableBytes_nat)
  then have "len \<le> writableBytes b'"
    using False lv ok r8 writableBytes_nat [OF ok] writableBytes_nat [OF ok'] unfolding prependableBytes_def buf_ok_def by linarith
  ultimately show ?thesis using that [OF ms] c lv by (simp add: b'_def)
qed

lemma makeSpace_no_length_error:
  assumes "buf_ok b" and "length (vec b) + len \<le> max_vector"
  shows "makeSpace len b \<noteq> Inl LengthError"
  using assms by (auto simp: makeSpace_eq resize_vector_def buf_ok_def Let_def)

lemma ensureWritableBytes_cases:
  assumes ok: "buf_ok b" and len: "len \<le> max_vector" and nolen: "ensureWritableBytes len b \<noteq> Inl LengthError"
  obtains b' where "ensureWritableBytes len b = Inr b'" and "buf_ok b'" and "contents b' = contents b"
    and "len \<le> writableBytes b'" and "length (vec b') \<le> length (vec b) + len"
    and "min kCheapPrepend (readerIndex b) \<le> readerIndex b'"
proof (cases "writableBytes b < len")
  case True
  with nolen have "makeSpace len b \<noteq> Inl LengthError" by (auto simp: ensureWritableBytes_def)
  from makeSpace_cases [OF ok True len this] obtain b' where
    "makeSpace len b = Inr b'" "buf_ok b'" "contents b' = contents b" "len \<le> writableBytes b'"
    "length (vec b') \<le> length (vec b) + len" "min kCheapPrepend (readerIndex b) \<le> readerIndex b'" .
  with True that show ?thesis by (simp add: ensureWritableBytes_def)
next
  case False
  with ok that show ?thesis by (simp add: ensureWritableBytes_def)
qed

lemma ensureWritableBytes_no_length_error:
  assumes "buf_ok b" and "length (vec b) + len \<le> max_vector"
  shows "ensureWritableBytes len b \<noteq> Inl LengthError"
  using makeSpace_no_length_error [OF assms]
  by (cases "makeSpace len b") (auto simp: ensureWritableBytes_def)

lemma ensureWritableBytes_ok:
  assumes "buf_ok b" and "length (vec b) + len \<le> max_vector"
  obtains b' where "ensureWritableBytes len b = Inr b'" and "buf_ok b'" and "contents b' = contents b"
    and "len \<le> writableBytes b'" and "length (vec b') \<le> length (vec b) + len"
    and "min kCheapPrepend (readerIndex b) \<le> readerIndex b'"
  using ensureWritableBytes_cases [OF assms(1) _ ensureWritableBytes_no_length_error [OF assms]] assms(2)
  by (metis add_leD2)

lemma write_ok:
  assumes ok: "buf_ok b" and room: "length s \<le> writableBytes b"
  defines "b' \<equiv> (poke s b)\<lparr>writerIndex := writerIndex b + length s\<rparr>"
  shows "hasWritten (length s) (poke s b) = Inr b'" "buf_ok b'" "contents b' = contents b @ s"
    "length (vec b') = length (vec b)" "readerIndex b' = readerIndex b"
proof -
  have fit: "writerIndex b + length s \<le> length (vec b)"
    using ok room by (auto simp: buf_ok_def writableBytes_nat)
  then have lv: "length (vec (poke s b)) = length (vec b)" by (simp add: poke_def length_copy_to)
  have w: "writerIndex (poke s b) = writerIndex b" by (simp add: poke_def)
  show "hasWritten (length s) (poke s b) = Inr b'"
    using room lv w by (simp add: hasWritten_def writableBytes_def b'_def)
  show "buf_ok b'" using ok fit lv by (simp add: buf_ok_def b'_def poke_def)
  have "slice (readerIndex b) (writerIndex b + length s) (copy_to (writerIndex b) s (vec b)) =
      slice (readerIndex b) (writerIndex b) (vec b) @ s"
    using slice_split [of "readerIndex b" "writerIndex b" "writerIndex b + length s"
        "copy_to (writerIndex b) s (vec b)"] ok fit
    by (simp add: slice_copy_to_before slice_copy_to_same buf_ok_def)
  then show "contents b' = contents b @ s" by (simp add: contents_def b'_def poke_def)
  show "length (vec b') = length (vec b)" using lv by (simp add: b'_def)
  show "readerIndex b' = readerIndex b" by (simp add: b'_def poke_def)
qed

lemma append_bytes_cases:
  assumes ok: "buf_ok b" and nolen: "append_bytes s b \<noteq> Inl LengthError"
  obtains b' where "append_bytes s b = Inr b'" and "buf_ok b'" and "contents b' = contents b @ s"
    and "length (vec b') \<le> length (vec b) + length s"
    and "min kCheapPrepend (readerIndex b) \<le> readerIndex b'"
proof -
  from nolen have len: "length s \<le> max_vector" and "ensureWritableBytes (length s) b \<noteq> Inl LengthError"
    by (auto simp: append_bytes_def split: if_splits)
  from ensureWritableBytes_cases [OF ok this] obtain b1 where b1:
    "ensureWritableBytes (length s) b = Inr b1" "buf_ok b1" "contents b1 = contents b"
    "length s \<le> writableBytes b1" "length (vec b1) \<le> length (vec b) + length s"
    "min kCheapPrepend (readerIndex b) \<le> readerIndex b1" .
  note w = write_ok [OF b1(2) b1(4)]
  show ?thesis using that [OF _ w(2)] b1 w len by (simp add: append_bytes_def)
qed

lemma append_bytes_no_length_error:
  assumes "buf_ok b" and "length (vec b) + length s \<le> max_vector"
  shows "append_bytes s b \<noteq> Inl LengthError"
proof -
  from ensureWritableBytes_ok [OF assms] obtain b1 where
    "ensureWritableBytes (length s) b = Inr b1" "buf_ok b1" "length s \<le> writableBytes b1" .
  then show ?thesis using write_ok(1) assms(2) by (simp add: append_bytes_def)
qed

lemmas append_bytes_ok = append_bytes_cases [OF _ append_bytes_no_length_error]

lemma retrieve_ok:
  assumes ok: "buf_ok b" and n: "n \<le> readableBytes b"
  obtains b' where "retrieve n b = Inr b'" and "buf_ok b'" and "contents b' = drop n (contents b)"
    and "vec b' = vec b" and "min kCheapPrepend (readerIndex b) \<le> readerIndex b'"
proof (cases "n < readableBytes b")
  case True
  have "drop n (contents b) = slice (readerIndex b + n) (writerIndex b) (vec b)"
    by (simp add: contents_def slice_def drop_take add.commute diff_diff_left)
  with True ok n show ?thesis
    using that [of "b\<lparr>readerIndex := readerIndex b + n\<rparr>"]
    by (simp add: retrieve_def buf_ok_def contents_def readableBytes_nat)
next
  case False
  with n have e: "n = readableBytes b" by simp
  have "drop n (contents b) = []" using ok e by (simp add: length_contents)
  moreover have "contents (retrieveAll b) = []" by (simp add: retrieveAll_def contents_def slice_def)
  moreover have "retrieve n b = Inr (retrieveAll b)" using e by (simp add: retrieve_def)
  moreover have "buf_ok (retrieveAll b)" using ok by (simp add: buf_ok_def retrieveAll_def)
  ultimately show ?thesis using that [of "retrieveAll b"] by (simp add: retrieveAll_def)
qed

lemma retrieve_fails: "readableBytes b < n \<Longrightarrow> retrieve n b = Inl AssertFailed"
  by (simp add: retrieve_def)

lemma retrieveAsString_ok:
  assumes "buf_ok b" and "n \<le> readableBytes b"
  obtains b' where "retrieveAsString n b = Inr (take n (contents b), b')" and "buf_ok b'"
    and "contents b' = drop n (contents b)" and "vec b' = vec b"
    and "min kCheapPrepend (readerIndex b) \<le> readerIndex b'"
proof -
  obtain b' where b': "retrieve n b = Inr b'" "buf_ok b'" "contents b' = drop n (contents b)" "vec b' = vec b"
    "min kCheapPrepend (readerIndex b) \<le> readerIndex b'" using retrieve_ok [OF assms] by blast
  then show ?thesis using that [OF _ b'(2-5)] assms(2) take_contents [OF assms] by (simp add: retrieveAsString_def)
qed

lemma prepend_ok:
  assumes ok: "buf_ok b" and room: "length s \<le> readerIndex b"
  obtains b' where "prepend s b = Inr b'" and "buf_ok b'" and "contents b' = s @ contents b"
    and "length (vec b') = length (vec b)" and "readerIndex b' = readerIndex b - length s"
proof -
  let ?r = "readerIndex b - length s"
  let ?v = "copy_to ?r s (vec b)"
  have fit: "?r + length s \<le> length (vec b)" and r: "?r + length s = readerIndex b"
    using ok room by (auto simp: buf_ok_def)
  have lv: "length ?v = length (vec b)" using fit by (rule length_copy_to)
  have "slice (readerIndex b) (writerIndex b) ?v = slice (readerIndex b) (writerIndex b) (vec b)"
    using r fit by (simp add: slice_def copy_to_def)
  moreover have "slice ?r (writerIndex b) ?v = slice ?r (readerIndex b) ?v @ slice (readerIndex b) (writerIndex b) ?v"
    using ok room by (intro slice_split) (auto simp: buf_ok_def)
  moreover have "slice ?r (readerIndex b) ?v = s"
    using slice_copy_to_same [OF fit] r by simp
  ultimately show ?thesis
    using that [of "b\<lparr>readerIndex := ?r, vec := ?v\<rparr>"] ok room lv
    by (auto simp: prepend_def prependableBytes_def contents_def buf_ok_def)
qed

lemma unwrite_ok:
  assumes ok: "buf_ok b" and n: "n \<le> readableBytes b"
  obtains b' where "unwrite n b = Inr b'" and "buf_ok b'"
    and "contents b' = take (readableBytes b - n) (contents b)" and "vec b' = vec b"
    and "readerIndex b' = readerIndex b"
proof -
  have "slice (readerIndex b) (writerIndex b - n) (vec b) = take (readableBytes b - n) (contents b)"
    using n ok by (simp add: slice_def contents_def readableBytes_nat min_def add.commute)
  moreover have "readerIndex b \<le> writerIndex b - n"
    using ok n readableBytes_nat [OF ok] unfolding buf_ok_def by arith
  ultimately show ?thesis
    using that [of "b\<lparr>writerIndex := writerIndex b - n\<rparr>"] ok n
    by (auto simp: unwrite_def buf_ok_def contents_def readableBytes_nat)
qed

section \<open>Operations as one step, and what they do to the queue\<close>

text \<open>
  The public mutators as data, so that a whole run of calls can be quantified over. The abstract
  buffer is the string of readable bytes.
\<close>

datatype buffer_call =
    Append string | Prepend string | Retrieve nat | RetrieveUntil nat | RetrieveAll
  | Unwrite nat | EnsureWritable nat | Shrink nat

fun call_buffer :: "buffer_call \<Rightarrow> buffer \<Rightarrow> buffer res" where
  "call_buffer (Append s) b = append_bytes s b"
| "call_buffer (Prepend s) b = prepend s b"
| "call_buffer (Retrieve n) b = retrieve n b"
| "call_buffer (RetrieveUntil n) b = retrieveUntil (readerIndex b + n) b"
| "call_buffer RetrieveAll b = Inr (retrieveAll b)"
| "call_buffer (Unwrite n) b = unwrite n b"
| "call_buffer (EnsureWritable n) b = ensureWritableBytes n b"
| "call_buffer (Shrink n) b = shrink n b"

fun call_queue :: "buffer_call \<Rightarrow> string \<Rightarrow> string" where
  "call_queue (Append s) q = q @ s"
| "call_queue (Prepend s) q = s @ q"
| "call_queue (Retrieve n) q = drop n q"
| "call_queue (RetrieveUntil n) q = drop n q"
| "call_queue RetrieveAll q = []"
| "call_queue (Unwrite n) q = take (length q - n) q"
| "call_queue (EnsureWritable n) q = q"
| "call_queue (Shrink n) q = q"

fun run_buffer :: "buffer_call list \<Rightarrow> buffer \<Rightarrow> buffer res" where
  "run_buffer [] b = Inr b"
| "run_buffer (c # cs) b = bind_res (call_buffer c b) (run_buffer cs)"

lemma toStringPiece_ok:
  assumes "buf_ok b" and "readableBytes b < 2 ^ 31"
  shows "toStringPiece b = Inr (contents b)"
proof -
  have "sint (word_of_nat (readableBytes b) :: 32 word) = int (readableBytes b)"
    using assms(2) by (simp add: signed_of_nat signed_take_bit_int_eq_self)
  moreover have "take (readableBytes b) (contents b) = contents b"
    using assms(1) by (simp add: length_contents)
  ultimately show ?thesis by (simp add: toStringPiece_def Let_def flip: take_contents [OF assms(1)])
qed

lemma shrink_ok:
  assumes ok: "buf_ok b" and small: "readableBytes b < 2 ^ 31" and r: "n < 2 ^ 62"
  obtains b' where "shrink n b = Inr b'" and "buf_ok b'" and "contents b' = contents b"
    and "n \<le> writableBytes b'"
proof -
  have "kInitialSize + kCheapPrepend \<le> max_vector"
    by (simp add: kInitialSize_def kCheapPrepend_def max_vector_def)
  from Buffer_new_ok [OF this] obtain b0 where b0: "Buffer_new kInitialSize = Inr b0" "buf_ok b0"
    "contents b0 = []" "length (vec b0) = kInitialSize + kCheapPrepend" by metis
  have len: "(readableBytes b + n) mod 2 ^ 64 = readableBytes b + n" using small r by simp
  have "length (vec b0) + (readableBytes b + n) \<le> max_vector"
    using b0(4) small r by (simp add: kInitialSize_def kCheapPrepend_def max_vector_def)
  from ensureWritableBytes_ok [OF b0(2) this] obtain b1 where b1:
    "ensureWritableBytes ((readableBytes b + n) mod 2 ^ 64) b0 = Inr b1" "buf_ok b1" "contents b1 = []"
    "readableBytes b + n \<le> writableBytes b1" using b0(3) unfolding len by metis
  have lc: "length (contents b) = readableBytes b" using ok by (rule length_contents)
  have room: "length (contents b) \<le> writableBytes b1" using b1(4) lc by simp
  note w = write_ok [OF b1(2) room]
  have "append_bytes (contents b) b1 =
      Inr ((poke (contents b) b1)\<lparr>writerIndex := writerIndex b1 + length (contents b)\<rparr>)"
    using room w(1) lc small by (simp add: append_bytes_def ensureWritableBytes_def max_vector_def)
  moreover have "n \<le> writableBytes ((poke (contents b) b1)\<lparr>writerIndex := writerIndex b1 + length (contents b)\<rparr>)"
    using b1(4) lc w(4) writableBytes_nat [OF b1(2)] writableBytes_nat [OF w(2)] by (simp add: poke_def)
  ultimately show ?thesis
    using that [OF _ w(2)] b0 b1 w toStringPiece_ok [OF ok small]
    by (simp add: shrink_def swap_buffers_def)
qed

lemma retrieveUntil_eq:
  "buf_ok b \<Longrightarrow> retrieveUntil (readerIndex b + n) b = retrieve n b"
  by (auto simp: retrieveUntil_def retrieve_def readableBytes_nat buf_ok_def)

lemma retrieve_Inr_le: "retrieve n b = Inr b' \<Longrightarrow> n \<le> readableBytes b"
  by (auto simp: retrieve_def split: if_splits)

lemma call_buffer_refines:
  assumes ok: "buf_ok b" and c: "call_buffer c b = Inr b'"
    and small: "\<And>n. c = Shrink n \<Longrightarrow> readableBytes b < 2 ^ 31 \<and> n < 2 ^ 62"
    and len: "\<And>n. c = EnsureWritable n \<Longrightarrow> n \<le> max_vector"
  shows "buf_ok b' \<and> contents b' = call_queue c (contents b)"
proof (cases c)
  case (Append s)
  with append_bytes_cases [OF ok, of s] c show ?thesis by (metis Inr_inject call_buffer.simps(1)
      call_queue.simps(1) sum.distinct(1))
next
  case (Prepend s)
  with c have "length s \<le> readerIndex b"
    by (auto simp: prepend_def prependableBytes_def split: if_splits)
  from prepend_ok [OF ok this] c Prepend show ?thesis by auto
next
  case (Retrieve n)
  from retrieve_ok [OF ok retrieve_Inr_le] c Retrieve show ?thesis by (metis Inr_inject
      call_buffer.simps(3) call_queue.simps(3))
next
  case (RetrieveUntil n)
  with c ok have "retrieve n b = Inr b'" by (simp add: retrieveUntil_eq)
  with retrieve_ok [OF ok retrieve_Inr_le] RetrieveUntil show ?thesis
    by (metis Inr_inject call_queue.simps(4))
next
  case RetrieveAll
  with c ok show ?thesis by (auto simp: retrieveAll_def buf_ok_def contents_def slice_def)
next
  case (Unwrite n)
  with c have "n \<le> readableBytes b" by (auto simp: unwrite_def split: if_splits)
  from unwrite_ok [OF ok this] c Unwrite ok show ?thesis by (auto simp: length_contents)
next
  case (EnsureWritable n)
  with ensureWritableBytes_cases [OF ok len, of n] c show ?thesis by (metis Inr_inject
      call_buffer.simps(7) call_queue.simps(7) sum.distinct(1))
next
  case (Shrink n)
  with small have "readableBytes b < 2 ^ 31" "n < 2 ^ 62" by simp_all
  from shrink_ok [OF ok this] c Shrink show ?thesis by auto
qed

section \<open>The interface of the header codec\<close>

text \<open>
  What the header code needs of its buffer: a queue of bytes that grows at the back while it
  stays below the largest vector, hands out its first \<open>n\<close> bytes or fails an assertion, and
  takes a short prefix in front of everything as long as nobody used the reserved space.
\<close>

locale byte_queue =
  fixes inv :: "'b \<Rightarrow> bool"
    and queue :: "'b \<Rightarrow> string"
    and alloc :: "'b \<Rightarrow> nat"
    and limit :: nat
    and put :: "string \<Rightarrow> 'b \<Rightarrow> 'b res"
    and get :: "nat \<Rightarrow> 'b \<Rightarrow> (string \<times> 'b) res"
  assumes put_ok: "inv b \<Longrightarrow> alloc b + length s \<le> limit \<Longrightarrow>
      \<exists>b'. put s b = Inr b' \<and> inv b' \<and> queue b' = queue b @ s \<and> alloc b' \<le> alloc b + length s"
    and get_ok: "inv b \<Longrightarrow> n \<le> length (queue b) \<Longrightarrow>
      \<exists>b'. get n b = Inr (take n (queue b), b') \<and> inv b' \<and> queue b' = drop n (queue b)"
    and get_short: "inv b \<Longrightarrow> length (queue b) < n \<Longrightarrow> get n b = Inl AssertFailed"
begin

fun put_all :: "string list \<Rightarrow> 'b \<Rightarrow> 'b res" where
  "put_all [] b = Inr b"
| "put_all (s # ss) b = bind_res (put s b) (put_all ss)"

fun get_all :: "nat list \<Rightarrow> 'b \<Rightarrow> (string list \<times> 'b) res" where
  "get_all [] b = Inr ([], b)"
| "get_all (n # ns) b =
     bind_res (get n b) (\<lambda>(s, b'). bind_res (get_all ns b') (\<lambda>(ss, b''). Inr (s # ss, b'')))"

lemma put_all_ok:
  assumes "inv b" and "alloc b + length (concat ss) \<le> limit"
  shows "\<exists>b'. put_all ss b = Inr b' \<and> inv b' \<and> queue b' = queue b @ concat ss \<and>
    alloc b' \<le> alloc b + length (concat ss)"
  using assms
proof (induction ss arbitrary: b)
  case Nil
  then show ?case by simp
next
  case (Cons s ss)
  then obtain b1 where b1: "put s b = Inr b1" "inv b1" "queue b1 = queue b @ s"
    "alloc b1 \<le> alloc b + length s" using put_ok [of b s] by auto
  then have "alloc b1 + length (concat ss) \<le> limit" using Cons.prems(2) by simp
  from Cons.IH [OF b1(2) this] b1 show ?case by fastforce
qed

lemma get_all_ok:
  assumes "inv b" and "queue b = concat ss @ rest"
  shows "\<exists>b'. get_all (map length ss) b = Inr (ss, b') \<and> inv b' \<and> queue b' = rest"
  using assms
proof (induction ss arbitrary: b)
  case Nil
  then show ?case by simp
next
  case (Cons s ss)
  then obtain b1 where b1: "get (length s) b = Inr (s, b1)" "inv b1" "queue b1 = concat ss @ rest"
    using get_ok [of b "length s"] by auto
  from Cons.IH [OF b1(2,3)] b1(1) show ?case by auto
qed

text \<open>What is put into an empty queue in pieces comes out in the same pieces.\<close>

theorem put_get_all:
  assumes "inv b" and "queue b = []" and "alloc b + length (concat ss) \<le> limit"
  shows "\<exists>b1 b2. put_all ss b = Inr b1 \<and> get_all (map length ss) b1 = Inr (ss, b2) \<and>
    inv b2 \<and> queue b2 = []"
  using put_all_ok [OF assms(1,3)] get_all_ok [of _ ss "[]"] assms(2) by fastforce

end

locale framed_queue = byte_queue inv queue alloc limit put get
  for inv :: "'b \<Rightarrow> bool" and queue alloc limit put get +
  fixes headroom :: "'b \<Rightarrow> nat"
    and reserve :: nat
    and push_front :: "string \<Rightarrow> 'b \<Rightarrow> 'b res"
  assumes put_headroom: "inv b \<Longrightarrow> put s b = Inr b' \<Longrightarrow> min reserve (headroom b) \<le> headroom b'"
    and push_front_ok: "inv b \<Longrightarrow> length s \<le> headroom b \<Longrightarrow>
      \<exists>b'. push_front s b = Inr b' \<and> inv b' \<and> queue b' = s @ queue b \<and> alloc b' = alloc b"
begin

lemma put_all_headroom:
  assumes "inv b" and "alloc b + length (concat ss) \<le> limit" and "put_all ss b = Inr b'"
    and "reserve \<le> headroom b"
  shows "reserve \<le> headroom b'"
  using assms
proof (induction ss arbitrary: b)
  case Nil
  then show ?case by simp
next
  case (Cons s ss)
  then obtain b1 where b1: "put s b = Inr b1" "inv b1" "alloc b1 \<le> alloc b + length s"
    using put_ok [of b s] by auto
  then have "alloc b1 + length (concat ss) \<le> limit" using Cons.prems(2) by simp
  moreover have "reserve \<le> headroom b1"
    using put_headroom [OF Cons.prems(1) b1(1)] Cons.prems(4) by simp
  ultimately show ?case using Cons.IH [OF b1(2)] Cons.prems(3) b1(1) by simp
qed

text \<open>A body put in pieces and then framed by a prefix.\<close>

theorem frame_ok:
  assumes "inv b" and "alloc b + length (concat ss) \<le> limit" and "reserve \<le> headroom b"
    and "length p \<le> reserve"
  shows "\<exists>b1 b2. put_all ss b = Inr b1 \<and> push_front p b1 = Inr b2 \<and> inv b2 \<and>
    queue b2 = p @ queue b @ concat ss \<and> alloc b2 \<le> alloc b + length (concat ss)"
proof -
  from put_all_ok [OF assms(1,2)] obtain b1 where b1: "put_all ss b = Inr b1" "inv b1"
    "queue b1 = queue b @ concat ss" "alloc b1 \<le> alloc b + length (concat ss)" by blast
  from put_all_headroom [OF assms(1,2) b1(1) assms(3)] assms(4)
  have "length p \<le> headroom b1" by simp
  from push_front_ok [OF b1(2) this] b1 show ?thesis by auto
qed

end

interpretation bq: framed_queue buf_ok contents "\<lambda>b. length (vec b)" max_vector
    append_bytes retrieveAsString readerIndex kCheapPrepend prepend
proof unfold_locales
  show "\<exists>b'. append_bytes s b = Inr b' \<and> buf_ok b' \<and> contents b' = contents b @ s \<and>
      length (vec b') \<le> length (vec b) + length s"
    if "buf_ok b" and "length (vec b) + length s \<le> max_vector" for b s
    using append_bytes_ok [OF that(1) that] by metis
  show "\<exists>b'. retrieveAsString n b = Inr (take n (contents b), b') \<and> buf_ok b' \<and>
      contents b' = drop n (contents b)" if "buf_ok b" and "n \<le> length (contents b)" for b n
    using retrieveAsString_ok [OF that(1)] that length_contents by metis
  show "retrieveAsString n b = Inl AssertFailed" if "buf_ok b" and "length (contents b) < n" for b n
    using that by (simp add: retrieveAsString_def length_contents)
  show "min kCheapPrepend (readerIndex b) \<le> readerIndex b'"
    if "buf_ok b" and "append_bytes s b = Inr b'" for b s b'
    using append_bytes_cases [OF that(1), of s] that(2) by (metis Inr_inject sum.distinct(1))
  show "\<exists>b'. prepend s b = Inr b' \<and> buf_ok b' \<and> contents b' = s @ contents b \<and>
      length (vec b') = length (vec b)"
    if "buf_ok b" and "length s \<le> readerIndex b" for b s
    using prepend_ok [OF that] by metis
qed

lemma readInt32_get:
  "readInt32 b = bind_res (retrieveAsString 4 b) (\<lambda>(s, b'). Inr (word_le s, b'))"
  by (auto simp: readInt32_def peekInt32_def retrieveInt32_def retrieveAsString_def retrieve_def)

lemma readInt64_get:
  "readInt64 b = bind_res (retrieveAsString 8 b) (\<lambda>(s, b'). Inr (word_le s, b'))"
  by (auto simp: readInt64_def peekInt64_def retrieveInt64_def retrieveAsString_def retrieve_def)

lemma readInt16_get:
  "readInt16 b = bind_res (retrieveAsString 2 b) (\<lambda>(s, b'). Inr (word_le s, b'))"
  by (auto simp: readInt16_def peekInt16_def retrieveInt16_def retrieveAsString_def retrieve_def)

lemma readInt8_get:
  "readInt8 b = bind_res (retrieveAsString 1 b) (\<lambda>(s, b'). Inr (word_le s, b'))"
  by (auto simp: readInt8_def peekInt8_def retrieveInt8_def retrieveAsString_def retrieve_def)

lemmas readInt_get = readInt64_get readInt32_get readInt16_get readInt8_get
lemmas appendInt_defs = appendInt64_def appendInt32_def appendInt16_def appendInt8_def

section \<open>Properties\<close>

lemma run_buffer_refines:
  assumes "buf_ok b" and "run_buffer cs b = Inr b'" and "\<And>n. Shrink n \<notin> set cs" and "\<And>n. EnsureWritable n \<in> set cs \<Longrightarrow> n \<le> max_vector"
  shows "buf_ok b' \<and> contents b' = fold call_queue cs (contents b)"
  using assms
proof (induction cs arbitrary: b)
  case Nil
  then show ?case by simp
next
  case (Cons c cs)
  from Cons.prems(2) obtain b1 where b1: "call_buffer c b = Inr b1" "run_buffer cs b1 = Inr b'"
    by (auto elim: bind_res_InrE)
  have "buf_ok b1 \<and> contents b1 = call_queue c (contents b)"
    using call_buffer_refines [OF Cons.prems(1) b1(1)] Cons.prems(3,4) by auto
  with Cons.IH [OF _ b1(2)] Cons.prems(3,4) show ?case by auto
qed

text \<open>
  C8. A run of the buffer's mutators on a buffer fresh from the constructor, whatever calls it
  makes and in whatever order (\<open>shrink\<close> apart, see below), either stops at a failed assertion
  or an exception, or ends in a buffer whose indices satisfy
  \<open>readerIndex \<le> writerIndex \<le> size\<close> and whose readable bytes are the ones the same calls
  leave in a plain queue of bytes, as long as \<open>ensureWritableBytes\<close> is not asked for more bytes
  than the largest vector has.
\<close>

theorem buffer_run_refines_queue:
  assumes "Buffer_new n = Inr b" and "n + kCheapPrepend \<le> max_vector"
    and "run_buffer cs b = Inr b'" and "\<And>k. Shrink k \<notin> set cs" and "\<And>k. EnsureWritable k \<in> set cs \<Longrightarrow> k \<le> max_vector"
  shows "buf_ok b' \<and> contents b' = fold call_queue cs []"
  using Buffer_new_ok [OF assms(2)] run_buffer_refines [OF _ assms(3-5)] assms(1)
  by (metis Inr_inject)

theorem buffer_run_refines_queue_witness:
  "\<exists>b b'. Buffer_new 4 = Inr b \<and>
     run_buffer [Append ''abc'', Prepend ''xy'', EnsureWritable 1, Retrieve 3, Append ''defgh'', Unwrite 1] b = Inr b' \<and>
     buf_ok b' \<and> contents b' = ''bcdefg''"
proof -
  have c: "4 + kCheapPrepend \<le> max_vector" by (simp add: kCheapPrepend_def max_vector_def)
  let ?cs = "[Append ''abc'', Prepend ''xy'', EnsureWritable 1, Retrieve 3, Append ''defgh'', Unwrite 1]"
  let ?b = "\<lparr>vec = replicate 12 (CHR 0x00), readerIndex = 8, writerIndex = 8\<rparr>"
  have n: "Buffer_new 4 = Inr ?b" using Buffer_new_Inr [OF c] by simp
  obtain b' where r: "run_buffer ?cs ?b = Inr b'"
    by (simp add: append_bytes_def ensureWritableBytes_def writableBytes_def hasWritten_def poke_def size_sub_def
        copy_to_def prepend_def prependableBytes_def retrieve_def readableBytes_def unwrite_def
        makeSpace_def resize_vector_def kCheapPrepend_def max_vector_def contents_def slice_def)
  have "\<And>k. Shrink k \<notin> set ?cs" "\<And>k. EnsureWritable k \<in> set ?cs \<Longrightarrow> k \<le> max_vector" by (simp_all add: max_vector_def)
  from buffer_run_refines_queue [OF n c r this] have "buf_ok b' \<and> contents b' = ''bcdefg''" by simp
  with n r show ?thesis by blast
qed

text \<open>
  For a length near \<open>2^64\<close> the sum in \<open>makeSpace\<close> wraps: \<open>ensureWritableBytes\<close> returns with a vector cut
  below the writer index, and its assertion holds because the difference wraps as well.
\<close>

theorem ensureWritableBytes_wraps:
  "\<exists>b b'. buf_ok b \<and> length (contents b) = 100 \<and> ensureWritableBytes (2 ^ 64 - 20) b = Inr b' \<and> length (vec b') < writerIndex b'"
proof -
  let ?b = "\<lparr>vec = replicate 1032 (CHR 0x00), readerIndex = 8, writerIndex = 108\<rparr>"
  have "buf_ok ?b" "length (contents ?b) = 100"
    by (simp_all add: buf_ok_def kCheapPrepend_def max_vector_def contents_def)
  moreover have "ensureWritableBytes (2 ^ 64 - 20) ?b = Inr (?b\<lparr>vec := replicate 88 (CHR 0x00)\<rparr>)"
    by (simp add: ensureWritableBytes_def makeSpace_def writableBytes_def prependableBytes_def size_sub_def kCheapPrepend_def
        resize_vector_def max_vector_def)
  ultimately show ?thesis by fastforce
qed

text \<open>
  C32. \<open>append\<close> is safe on every valid buffer: neither the assertion of
  \<open>ensureWritableBytes\<close> nor that of \<open>makeSpace\<close> can fail, so the only failure left is the
  vector's length error, and while the vector stays below its largest size the bytes are
  appended and nothing that was readable changes.
\<close>

theorem buffer_append_safe:
  assumes "buf_ok b"
  shows "append_bytes s b = Inl LengthError \<and> max_vector < length (vec b) + length s \<or>
    (\<exists>b'. append_bytes s b = Inr b' \<and> buf_ok b' \<and> contents b' = contents b @ s)"
  using append_bytes_cases [OF assms, of s] append_bytes_no_length_error [OF assms, of s]
  by (metis not_less)

theorem buffer_append_safe_witness:
  "\<exists>b'. append_bytes ''hello'' \<lparr>vec = ''0123456789'', readerIndex = 9, writerIndex = 10\<rparr> = Inr b' \<and>
     contents b' = ''9hello''"
proof -
  let ?b = "\<lparr>vec = ''0123456789'', readerIndex = 9, writerIndex = 10\<rparr>"
  have "buf_ok ?b" by (simp add: buf_ok_def kCheapPrepend_def max_vector_def)
  from buffer_append_safe [OF this, of "''hello''"]
  show ?thesis by (auto simp: contents_def slice_def max_vector_def)
qed

text \<open>
  Integers come back as they went in: the four widths appended to a buffer and then read
  in the same order give the same values, at any content in front and behind.
\<close>

theorem buffer_int_roundtrip:
  assumes "buf_ok b" and "contents b = []" and "length (vec b) + 15 \<le> max_vector"
  shows "\<exists>b1. bind_res (bind_res (bind_res (appendInt64 x b) (appendInt32 y)) (appendInt16 z)) (appendInt8 u)
      = Inr b1 \<and>
    (\<exists>b2 b3 b4 b5. readInt64 b1 = Inr (x, b2) \<and> readInt32 b2 = Inr (y, b3) \<and>
      readInt16 b3 = Inr (z, b4) \<and> readInt8 b4 = Inr (u, b5) \<and> buf_ok b5 \<and> contents b5 = [])"
proof -
  let ?ss = "[le_word 8 x, le_word 4 y, le_word 2 z, le_word 1 u]"
  have room: "length (vec b) + length (concat ?ss) \<le> max_vector" using assms(3) by simp
  from bq.put_get_all [OF assms(1,2) room] obtain b1 b5 where
    p: "bq.put_all ?ss b = Inr b1" and g: "bq.get_all (map length ?ss) b1 = Inr (?ss, b5)"
    and fin: "buf_ok b5" "contents b5 = []" by blast
  have "bind_res (bind_res (bind_res (appendInt64 x b) (appendInt32 y)) (appendInt16 z)) (appendInt8 u)
      = Inr b1"
    using p by (auto simp: appendInt_defs bind_res_eq_Inr)
  then show ?thesis
    using g fin by (fastforce simp: readInt_get elim!: bind_res_InrE)
qed

theorem buffer_int_roundtrip_witness:
  "\<exists>b1 b2 b3. bind_res (bind_res (bind_res (appendInt64 (-1) (retrieveAll \<lparr>vec = replicate 12 (CHR 0x00),
       readerIndex = 8, writerIndex = 8\<rparr>)) (appendInt32 258)) (appendInt16 3)) (appendInt8 4) = Inr b1 \<and>
     readInt64 b1 = Inr (-1, b2) \<and> readInt32 b2 = Inr (258, b3)"
  using buffer_int_roundtrip [of "retrieveAll \<lparr>vec = replicate 12 (CHR 0x00), readerIndex = 8, writerIndex = 8\<rparr>"
      "-1" 258 3 4]
  by (auto simp: buf_ok_def retrieveAll_def contents_def slice_def kCheapPrepend_def max_vector_def)

text \<open>
  \<open>shrink(reserve)\<close> keeps the readable bytes and leaves room for at least
  \<open>reserve\<close> more, for contents below 2 GiB (beyond that \<open>toStringPiece\<close> truncates the
  length to an \<open>int\<close>).
\<close>

theorem buffer_shrink_keeps_contents:
  assumes "buf_ok b" and "readableBytes b < 2 ^ 31" and "reserve < 2 ^ 62"
  shows "\<exists>b'. shrink reserve b = Inr b' \<and> buf_ok b' \<and> contents b' = contents b \<and>
    reserve \<le> writableBytes b'"
  using shrink_ok [OF assms] by metis

theorem buffer_shrink_keeps_contents_witness:
  "\<exists>b'. shrink 5 \<lparr>vec = ''0123456789'', readerIndex = 3, writerIndex = 7\<rparr> = Inr b' \<and>
     contents b' = ''3456'' \<and> 5 \<le> writableBytes b'"
proof -
  let ?b = "\<lparr>vec = ''0123456789'', readerIndex = 3, writerIndex = 7\<rparr>"
  have "buf_ok ?b" by (simp add: buf_ok_def kCheapPrepend_def max_vector_def)
  from buffer_shrink_keeps_contents [OF this, of 5]
  show ?thesis by (auto simp: contents_def slice_def readableBytes_def size_sub_def)
qed

lemma crlf_index_Some:
  "crlf_index s = Some i \<Longrightarrow> Suc i < length s \<and> s ! i = CHR 0x0D \<and> s ! Suc i = CHR 0x0A \<and>
     (\<forall>j < i. \<not> (s ! j = CHR 0x0D \<and> s ! Suc j = CHR 0x0A))"
proof (induction s arbitrary: i rule: crlf_index.induct)
  case (1 c d cs)
  show ?case
  proof (cases "c = CHR 0x0D \<and> d = CHR 0x0A")
    case True
    with "1.prems" show ?thesis by simp
  next
    case False
    with "1.prems" obtain k where k: "i = Suc k" "crlf_index (d # cs) = Some k" by auto
    from "1.IH" [OF False k(2)] have ih: "Suc k < length (d # cs)" "(d # cs) ! k = CHR 0x0D"
      "(d # cs) ! Suc k = CHR 0x0A"
      "\<forall>j < k. \<not> ((d # cs) ! j = CHR 0x0D \<and> (d # cs) ! Suc j = CHR 0x0A)" by auto
    have "\<not> ((c # d # cs) ! j = CHR 0x0D \<and> (c # d # cs) ! Suc j = CHR 0x0A)" if "j < i" for j
      using that False ih(4) k(1) by (cases j) auto
    with ih k(1) show ?thesis by simp
  qed
qed auto

lemma crlf_index_None:
  "crlf_index s = None \<Longrightarrow> Suc j < length s \<Longrightarrow> \<not> (s ! j = CHR 0x0D \<and> s ! Suc j = CHR 0x0A)"
proof (induction s arbitrary: j rule: crlf_index.induct)
  case (1 c d cs)
  then show ?case by (cases j) (auto split: if_splits)
qed auto

text \<open>
  \<open>findCRLF\<close> finds the first line end: the pointer it returns lies in the readable bytes
  with a carriage return and a line feed there and at no earlier readable position, and a null
  pointer means the readable bytes hold no line end.
\<close>

theorem findCRLF_first:
  assumes "buf_ok b"
  shows "case findCRLF b of
      Some p \<Rightarrow> readerIndex b \<le> p \<and> Suc p < writerIndex b \<and>
        slice p (p + 2) (vec b) = [CHR 0x0D, CHR 0x0A] \<and>
        (\<forall>q. readerIndex b \<le> q \<and> q < p \<longrightarrow> slice q (q + 2) (vec b) \<noteq> [CHR 0x0D, CHR 0x0A])
    | None \<Rightarrow> (\<forall>q. readerIndex b \<le> q \<and> Suc q < writerIndex b \<longrightarrow>
        slice q (q + 2) (vec b) \<noteq> [CHR 0x0D, CHR 0x0A])"
proof -
  let ?r = "readerIndex b"
  have lc: "length (contents b) = writerIndex b - ?r"
    using assms by (simp add: length_contents readableBytes_nat)
  have nth: "slice (?r + j) (?r + j + 2) (vec b) = [contents b ! j, contents b ! Suc j]"
    if "Suc j < length (contents b)" for j
  proof -
    have "?r + Suc j < length (vec b)" using that lc assms unfolding buf_ok_def by arith
    then have "take 2 (drop (?r + j) (vec b)) = [vec b ! (?r + j), vec b ! (?r + Suc j)]"
      by (simp add: numeral_2_eq_2 Cons_nth_drop_Suc [symmetric])
    with that lc assms show ?thesis by (auto simp: slice_def contents_def buf_ok_def)
  qed
  show ?thesis
  proof (cases "crlf_index (contents b)")
    case None
    have "slice q (q + 2) (vec b) \<noteq> [CHR 0x0D, CHR 0x0A]" if "?r \<le> q" "Suc q < writerIndex b" for q
      using nth [of "q - ?r"] crlf_index_None [OF None, of "q - ?r"] that lc by auto
    with None show ?thesis by (simp add: findCRLF_def)
  next
    case (Some i)
    note s = crlf_index_Some [OF Some]
    have "slice q (q + 2) (vec b) \<noteq> [CHR 0x0D, CHR 0x0A]" if "?r \<le> q" "q < ?r + i" for q
    proof -
      have "q - ?r < i" "Suc (q - ?r) < length (contents b)" using that s by auto
      with nth [of "q - ?r"] s that(1) show ?thesis by auto
    qed
    with Some s nth [of i] lc show ?thesis by (auto simp: findCRLF_def)
  qed
qed

theorem findCRLF_first_witness:
  "findCRLF \<lparr>vec = replicate 8 (CHR ''a'') @ [CHR 0x0D, CHR ''x'', CHR 0x0D, CHR 0x0A], readerIndex = 8,
      writerIndex = 12\<rparr> = Some 10 \<and>
   slice 10 12 (replicate 8 (CHR ''a'') @ [CHR 0x0D, CHR ''x'', CHR 0x0D, CHR 0x0A]) = [CHR 0x0D, CHR 0x0A]"
proof -
  let ?b = "\<lparr>vec = replicate 8 (CHR ''a'') @ [CHR 0x0D, CHR ''x'', CHR 0x0D, CHR 0x0A], readerIndex = 8,
      writerIndex = 12\<rparr>"
  have "buf_ok ?b" by (simp add: buf_ok_def kCheapPrepend_def max_vector_def)
  from findCRLF_first [OF this] show ?thesis
    by (simp add: findCRLF_def contents_def slice_def)
qed

end
