(* ===== verification/Containers.thy ===== *)
theory Containers
  imports Prelude
begin

text \<open>
  The two ordered containers of the C++ library that hold the program's data.
  \<open>std::map<K, V>\<close> is an association list with strictly increasing keys: \<open>m[k] = v\<close>
  overwrites (\<open>map_put\<close>), \<open>m.insert({k, v})\<close> keeps a value that is already there
  (\<open>map_insert\<close>). \<open>std::multimap<K, V>\<close> is a list sorted by key; \<open>insert\<close> puts
  the new pair behind every pair with an equal key (\<open>mm_insert\<close>), as C++11 requires.
  The interface the bag and the view rely on is the locale \<open>ordered_store\<close>; the
  multimap is its interpretation.
\<close>

section \<open>std::map\<close>

fun map_put :: "'k::linorder \<Rightarrow> 'v \<Rightarrow> ('k \<times> 'v) list \<Rightarrow> ('k \<times> 'v) list" where
  "map_put k v [] = [(k, v)]"
| "map_put k v ((k', v') # xs) =
     (if k < k' then (k, v) # (k', v') # xs
      else if k = k' then (k, v) # xs
      else (k', v') # map_put k v xs)"

definition map_insert :: "'k::linorder \<Rightarrow> 'v \<Rightarrow> ('k \<times> 'v) list \<Rightarrow> ('k \<times> 'v) list" where
  "map_insert k v m = (if k \<in> fst ` set m then m else map_put k v m)"

abbreviation std_map :: "('k::linorder \<times> 'v) list \<Rightarrow> bool" where
  "std_map m \<equiv> sorted_wrt (<) (map fst m)"

lemma map_of_map_put [simp]: "map_of (map_put k v m) = (map_of m)(k \<mapsto> v)"
  by (induction m) (auto simp: fun_eq_iff)

lemma fst_set_map_put [simp]: "fst ` set (map_put k v m) = insert k (fst ` set m)"
  by (simp flip: dom_map_of_conv_image_fst)

lemma std_map_map_put [simp]: "std_map m \<Longrightarrow> std_map (map_put k v m)"
proof (induction m)
  case Nil
  then show ?case by simp
next
  case (Cons a m)
  obtain k' v' where a: "a = (k', v')" by (cases a)
  have "\<forall>x \<in> fst ` set (map_put k v m). x = k \<or> x \<in> fst ` set m" by simp
  with Cons a show ?case by (auto simp: not_less)
qed

lemma map_of_map_insert:
  "map_of (map_insert k v m) = (if k \<in> dom (map_of m) then map_of m else (map_of m)(k \<mapsto> v))"
  by (simp add: map_insert_def dom_map_of_conv_image_fst)

lemma std_map_map_insert [simp]: "std_map m \<Longrightarrow> std_map (map_insert k v m)"
  by (simp add: map_insert_def)

lemma fst_set_map_insert [simp]: "fst ` set (map_insert k v m) = insert k (fst ` set m)"
  by (auto simp: map_insert_def)

text \<open>A sorted association list is determined by the map it stands for.\<close>

lemma map_put_snoc:
  assumes "\<forall>x \<in> fst ` set m. x < k"
  shows "map_put k v m = m @ [(k, v)]"
  using assms by (induction m) auto

lemma std_map_rebuild:
  assumes "std_map m"
  shows "foldl (\<lambda>h (k, v). map_put k v h) [] m = m"
  using assms
proof (induction m rule: rev_induct)
  case Nil
  then show ?case by simp
next
  case (snoc x m)
  obtain k v where x: "x = (k, v)" by (cases x)
  from snoc.prems x have "std_map m" and "\<forall>y \<in> fst ` set m. y < k"
    by (auto simp: sorted_wrt_append)
  with snoc.IH x show ?case by (simp add: map_put_snoc)
qed

section \<open>std::multimap\<close>

fun mm_insert :: "'k::linorder \<Rightarrow> 'v \<Rightarrow> ('k \<times> 'v) list \<Rightarrow> ('k \<times> 'v) list" where
  "mm_insert k v [] = [(k, v)]"
| "mm_insert k v ((k', v') # xs) =
     (if k < k' then (k, v) # (k', v') # xs else (k', v') # mm_insert k v xs)"

definition mm_insert_all :: "('k::linorder \<times> 'v) list \<Rightarrow> ('k \<times> 'v) list \<Rightarrow> ('k \<times> 'v) list" where
  "mm_insert_all kvs m = foldl (\<lambda>m (k, v). mm_insert k v m) m kvs"

lemma mset_mm_insert [simp]: "mset (mm_insert k v m) = add_mset (k, v) (mset m)"
  by (induction m) auto

lemma set_mm_insert [simp]: "set (mm_insert k v m) = insert (k, v) (set m)"
  by (simp flip: set_mset_mset)

lemma length_mm_insert [simp]: "length (mm_insert k v m) = Suc (length m)"
  by (induction m) auto

lemma sorted_mm_insert: "sorted (map fst m) \<Longrightarrow> sorted (map fst (mm_insert k v m))"
proof (induction m)
  case Nil
  then show ?case by simp
next
  case (Cons a m)
  then show ?case by (cases a) (auto simp: not_less)
qed

lemma filter_mm_insert:
  "sorted (map fst m) \<Longrightarrow>
     filter (\<lambda>x. fst x = j) (mm_insert k v m) =
       (if j = k then filter (\<lambda>x. fst x = j) m @ [(k, v)] else filter (\<lambda>x. fst x = j) m)"
proof (induction m)
  case Nil
  then show ?case by simp
next
  case (Cons a m)
  have "filter (\<lambda>x. fst x = k) m = []" if "k < fst a"
    using Cons.prems that by (auto simp: filter_empty_conv)
  with Cons show ?case by (cases a) auto
qed

section \<open>The ordered store the bag relies on\<close>

text \<open>
  What a client may assume of the container of records: it lists its entries in key order, an
  insertion adds exactly one entry, and entries with one key stay in insertion order. These laws
  fix the content after any sequence of insertions: it is the stable sort of what was inserted.
\<close>

locale ordered_store =
  fixes empty :: "'s"
    and ins :: "'k::linorder \<Rightarrow> 'v \<Rightarrow> 's \<Rightarrow> 's"
    and entries :: "'s \<Rightarrow> ('k \<times> 'v) list"
    and invar :: "'s \<Rightarrow> bool"
  assumes invar_empty: "invar empty"
    and invar_ins: "invar s \<Longrightarrow> invar (ins k v s)"
    and entries_empty: "entries empty = []"
    and entries_sorted: "invar s \<Longrightarrow> sorted (map fst (entries s))"
    and entries_ins: "invar s \<Longrightarrow> mset (entries (ins k v s)) = add_mset (k, v) (mset (entries s))"
    and entries_stable: "invar s \<Longrightarrow>
      filter (\<lambda>x. fst x = j) (entries (ins k v s)) =
        filter (\<lambda>x. fst x = j) (entries s) @ filter (\<lambda>x. fst x = j) [(k, v)]"
begin

lemma invar_ins_all: "invar s \<Longrightarrow> invar (foldl (\<lambda>s (k, v). ins k v s) s kvs)"
  by (induction kvs arbitrary: s) (auto simp: invar_ins)

lemma mset_ins_all:
  "invar s \<Longrightarrow> mset (entries (foldl (\<lambda>s (k, v). ins k v s) s kvs)) = mset (entries s) + mset kvs"
  by (induction kvs arbitrary: s) (auto simp: invar_ins entries_ins)

lemma stable_ins_all:
  "invar s \<Longrightarrow>
     filter (\<lambda>x. fst x = j) (entries (foldl (\<lambda>s (k, v). ins k v s) s kvs)) =
       filter (\<lambda>x. fst x = j) (entries s @ kvs)"
proof (induction kvs arbitrary: s)
  case Nil
  then show ?case by simp
next
  case (Cons a kvs)
  then show ?case by (cases a) (simp add: invar_ins entries_stable)
qed

theorem entries_ins_all:
  assumes "invar s"
  shows "entries (foldl (\<lambda>s (k, v). ins k v s) s kvs) = sort_key fst (entries s @ kvs)"
proof (rule sym, rule properties_for_sort_key)
  show "mset (entries (foldl (\<lambda>s (k, v). ins k v s) s kvs)) = mset (entries s @ kvs)"
    using assms by (simp add: mset_ins_all)
  show "filter (\<lambda>x. fst k = fst x) (entries (foldl (\<lambda>s (k, v). ins k v s) s kvs)) =
      filter (\<lambda>x. fst k = fst x) (entries s @ kvs)" for k
    using stable_ins_all [OF assms, of "fst k" kvs] by (simp add: eq_commute)
  show "sorted (map fst (entries (foldl (\<lambda>s (k, v). ins k v s) s kvs)))"
    using assms by (intro entries_sorted invar_ins_all)
qed

end

interpretation mm: ordered_store "[]" mm_insert "\<lambda>m. m" "\<lambda>m. sorted (map fst m)"
  by unfold_locales (auto simp: sorted_mm_insert filter_mm_insert)

lemma mm_insert_all_sort_key:
  "sorted (map fst m) \<Longrightarrow> mm_insert_all kvs m = sort_key fst (m @ kvs)"
  unfolding mm_insert_all_def by (rule mm.entries_ins_all)

lemma sorted_mm_insert_all:
  "sorted (map fst m) \<Longrightarrow> sorted (map fst (mm_insert_all kvs m))"
  unfolding mm_insert_all_def by (rule mm.invar_ins_all)

lemma mset_mm_insert_all:
  "sorted (map fst m) \<Longrightarrow> mset (mm_insert_all kvs m) = mset m + mset kvs"
  unfolding mm_insert_all_def by (rule mm.mset_ins_all)

lemma mm_insert_all_append:
  "mm_insert_all (xs @ ys) m = mm_insert_all ys (mm_insert_all xs m)"
  by (simp add: mm_insert_all_def)

lemma mm_insert_all_simps [simp]:
  "mm_insert_all [] m = m"
  "mm_insert_all ((k, v) # kvs) m = mm_insert_all kvs (mm_insert k v m)"
  by (simp_all add: mm_insert_all_def)

lemma set_mm_insert_all: "set (mm_insert_all kvs m) = set kvs \<union> set m"
  by (induction kvs arbitrary: m) auto

lemma sorted_bounds:
  fixes f :: "'a \<Rightarrow> 'b::linorder"
  assumes "sorted (map f l)" and "x \<in> set l"
  shows "f (hd l) \<le> f x \<and> f x \<le> f (last l)"
proof
  show "f (hd l) \<le> f x" using assms by (cases l) auto
  show "f x \<le> f (last l)" using assms
  proof (induction l)
    case Nil
    then show ?case by simp
  next
    case (Cons a l)
    then show ?case by (cases "l = []") auto
  qed
qed

end
