(* ===== verification/Header.thy ===== *)
theory Header
  imports Buffer Containers
begin

text \<open>
  The header records of a bag (\<open>src/common/util.cpp\<close>: \<open>WriteHeader\<close>, \<open>ReadHeader\<close>,
  \<open>HexToString\<close>; the constants of \<open>msgbag_constants.h\<close>). A header is a
  \<open>std::map<string, string>\<close>. It is written as a 32-bit total length followed by the fields
  in key order, each a 32-bit length and the text \<open>key=value\<close>. The lemmas rest on the buffer's
  interface (the locales of theory Buffer), not on its representation.
\<close>

type_synonym header = "(string \<times> string) list"

section \<open>Constants\<close>

definition FILE_HEADER :: nat where "FILE_HEADER = 1"
definition FILE_HEADER_LEN :: nat where "FILE_HEADER_LEN = 1024"
definition OP_FIELD_NAME :: string where "OP_FIELD_NAME = ''op''"
definition INDEX_POS_FIELD_NAME :: string where "INDEX_POS_FIELD_NAME = ''index_pos''"
definition START_TIMESTAMP_FIELD_NAME :: string where "START_TIMESTAMP_FIELD_NAME = ''start_time''"
definition END_TIMESTAMP_FIELD_NAME :: string where "END_TIMESTAMP_FIELD_NAME = ''end_time''"
definition MSG_COUNT_FIELD_NAME :: string where "MSG_COUNT_FIELD_NAME = ''msg_count''"

lemmas field_name_defs = OP_FIELD_NAME_def INDEX_POS_FIELD_NAME_def START_TIMESTAMP_FIELD_NAME_def
  END_TIMESTAMP_FIELD_NAME_def MSG_COUNT_FIELD_NAME_def

section \<open>HexToString\<close>

definition hex_digit :: "nat \<Rightarrow> char" where
  "hex_digit d = (if d < 10 then char_of (48 + d) else char_of (87 + d))"

text \<open>\<open>sprintf\<close> with \<open>0x%02x\<close> of an unsigned char.\<close>

definition HexToString :: "8 word \<Rightarrow> string" where
  "HexToString hex = ''0x'' @ [hex_digit (unat hex div 16), hex_digit (unat hex mod 16)]"

section \<open>Writing\<close>

definition field_text :: "string \<times> string \<Rightarrow> string" where
  "field_text f = fst f @ ''='' @ snd f"

fun write_fields :: "header \<Rightarrow> 32 word \<Rightarrow> buffer \<Rightarrow> (32 word \<times> buffer) res" where
  "write_fields [] header_len b = Inr (header_len, b)"
| "write_fields (f # fs) header_len b =
     (let field_str = field_text f;
          field_str_size = word_of_nat (length field_str) :: 32 word
      in bind_res (appendInt32 field_str_size b) (\<lambda>b.
         bind_res (append_bytes field_str b) (\<lambda>b.
         write_fields fs (header_len + (4 + field_str_size)) b)))"

definition WriteHeader :: "header \<Rightarrow> buffer \<Rightarrow> (32 word \<times> buffer) res" where
  "WriteHeader header b =
     bind_res (write_fields header 0 b) (\<lambda>(header_len, b).
     bind_res (prependInt32 header_len b) (\<lambda>b. Inr (header_len, b)))"

section \<open>Reading\<close>

fun find_eq :: "string \<Rightarrow> nat option" where
  "find_eq [] = None"
| "find_eq (c # cs) = (if c = CHR ''='' then Some 0 else map_option Suc (find_eq cs))"

lemma readInt32_decreases:
  "readInt32 b = Inr (x, b') \<Longrightarrow> readableBytes b' < readableBytes b"
  by (auto simp: readInt32_def peekInt32_def retrieveInt32_def bind_res_eq_Inr split: if_splits
      dest!: readableBytes_retrieve(1))

lemma retrieveAsString_decreases:
  "retrieveAsString n b = Inr (s, b') \<Longrightarrow> readableBytes b' \<le> readableBytes b"
  by (auto simp: retrieveAsString_def bind_res_eq_Inr split: if_splits dest!: readableBytes_retrieve(1))

text \<open>
  The loop of \<open>ReadHeader\<close>. A field without an equals sign is skipped with \<open>continue\<close>,
  which also skips the update of \<open>read_len\<close>. The loop ends because every round takes four
  bytes out of the buffer or fails the assertion of \<open>peekInt32\<close>.
\<close>

function read_fields :: "32 word \<Rightarrow> 32 word \<Rightarrow> header \<Rightarrow> buffer \<Rightarrow> (header \<times> 32 word \<times> buffer) res" where
  "read_fields header_len read_len h b =
     (if read_len < header_len then
        bind_res (readInt32 b) (\<lambda>r.
        bind_res (retrieveAsString (unat (fst r)) (snd r)) (\<lambda>q.
          case find_eq (fst q) of
            None \<Rightarrow> read_fields header_len read_len h (snd q)
          | Some pos \<Rightarrow>
              read_fields header_len (read_len + (fst r + 4))
                (map_put (take pos (fst q)) (drop (Suc pos) (fst q)) h) (snd q)))
      else Inr (h, read_len, b))"
  by pat_completeness auto
termination
proof (relation "measure (\<lambda>(_, _, _, b). readableBytes b)", goal_cases)
  case 1
  show ?case by simp
next
  case (2 header_len read_len h b r q)
  then show ?case
    using readInt32_decreases [of b "fst r" "snd r"] retrieveAsString_decreases [of _ "snd r" "fst q" "snd q"]
    by fastforce
next
  case (3 header_len read_len h b r q pos)
  then show ?case
    using readInt32_decreases [of b "fst r" "snd r"] retrieveAsString_decreases [of _ "snd r" "fst q" "snd q"]
    by fastforce
qed

declare read_fields.simps [simp del]

definition ReadHeader :: "header \<Rightarrow> buffer \<Rightarrow> (32 word \<times> header \<times> buffer) res" where
  "ReadHeader h b =
     bind_res (readInt32 b) (\<lambda>(header_len, b).
     bind_res (read_fields header_len 0 h b) (\<lambda>(h, read_len, b). Inr (header_len, h, b)))"

section \<open>The bytes of a header\<close>

definition field_bytes :: "string \<times> string \<Rightarrow> string" where
  "field_bytes f = le_word 4 (word_of_nat (length (field_text f)) :: 32 word) @ field_text f"

definition header_body :: "header \<Rightarrow> string" where
  "header_body h = concat (map field_bytes h)"

definition header_bytes :: "header \<Rightarrow> string" where
  "header_bytes h = le_word 4 (word_of_nat (length (header_body h)) :: 32 word) @ header_body h"

lemma length_field_bytes [simp]: "length (field_bytes f) = 4 + length (field_text f)"
  by (simp add: field_bytes_def)

lemma header_body_simps [simp]:
  "header_body [] = []" "header_body (f # fs) = field_bytes f @ header_body fs"
  by (simp_all add: header_body_def)

lemma length_header_bytes [simp]: "length (header_bytes h) = 4 + length (header_body h)"
  by (simp add: header_bytes_def)

definition field_pieces :: "header \<Rightarrow> string list" where
  "field_pieces h = concat (map (\<lambda>f. [le_word 4 (word_of_nat (length (field_text f)) :: 32 word), field_text f]) h)"

lemma concat_field_pieces: "concat (field_pieces h) = header_body h"
  by (induction h) (auto simp: field_pieces_def field_bytes_def)

lemma write_fields_put_all:
  "write_fields h len b =
     bind_res (bq.put_all (field_pieces h) b)
       (\<lambda>b'. Inr (len + word_of_nat (length (header_body h)), b'))"
proof (induction h arbitrary: len b)
  case Nil
  then show ?case by (simp add: field_pieces_def)
next
  case (Cons f fs)
  show ?case
    by (simp add: Let_def Cons.IH appendInt32_def field_pieces_def bind_res_def add_ac split: sum.splits)
qed

lemma WriteHeader_ok:
  assumes "buf_ok b" and "length (vec b) + length (header_body h) \<le> max_vector"
    and "kCheapPrepend \<le> readerIndex b"
  obtains b' where "WriteHeader h b = Inr (word_of_nat (length (header_body h)), b')" and "buf_ok b'"
    and "contents b' =
      le_word 4 (word_of_nat (length (header_body h)) :: 32 word) @ contents b @ header_body h"
    and "length (vec b') \<le> length (vec b) + length (header_body h)"
proof -
  let ?p = "le_word 4 (word_of_nat (length (header_body h)) :: 32 word)"
  from bq.frame_ok [of b "field_pieces h" ?p] assms obtain b1 b2 where
    "bq.put_all (field_pieces h) b = Inr b1" "prepend ?p b1 = Inr b2" "buf_ok b2"
    "contents b2 = ?p @ contents b @ header_body h" "length (vec b2) \<le> length (vec b) + length (header_body h)"
    by (auto simp: concat_field_pieces kCheapPrepend_def)
  then show ?thesis
    using that by (simp add: WriteHeader_def write_fields_put_all prependInt32_def)
qed

section \<open>Reading what was written\<close>

lemma find_eq_key: "CHR ''='' \<notin> set k \<Longrightarrow> find_eq (k @ CHR ''='' # v) = Some (length k)"
  by (induction k) auto

lemma find_eq_None: "CHR ''='' \<notin> set s \<Longrightarrow> find_eq s = None"
  by (induction s) auto

text \<open>One length-prefixed text taken out of the buffer.\<close>

lemma read_text:
  assumes ok: "buf_ok b" and c: "contents b = le_word 4 (word_of_nat (length s) :: 32 word) @ s @ rest"
    and len: "length s < 2 ^ 32"
  shows "\<exists>b1 b2. readInt32 b = Inr (word_of_nat (length s), b1) \<and>
    retrieveAsString (unat (word_of_nat (length s) :: 32 word)) b1 = Inr (s, b2) \<and>
    buf_ok b2 \<and> contents b2 = rest"
proof -
  from bq.get_ok [OF ok, of 4] c obtain b1 where
    g: "retrieveAsString 4 b = Inr (le_word 4 (word_of_nat (length s) :: 32 word), b1)"
    and b1: "buf_ok b1" "contents b1 = s @ rest" by auto
  have u: "unat (word_of_nat (length s) :: 32 word) = length s"
    using len by (simp add: unat_of_nat)
  from bq.get_ok [OF b1(1), of "length s"] b1(2) obtain b2 where
    "retrieveAsString (length s) b1 = Inr (s, b2)" "buf_ok b2" "contents b2 = rest" by auto
  with g u show ?thesis by (simp add: readInt32_get)
qed

lemma read_fields_ok:
  assumes "buf_ok b" and "contents b = header_body fs @ rest"
    and "done + length (header_body fs) < 2 ^ 32"
    and "\<forall>f \<in> set fs. CHR ''='' \<notin> set (fst f)"
  shows "\<exists>b'. read_fields (word_of_nat (done + length (header_body fs))) (word_of_nat done) h b =
      Inr (foldl (\<lambda>h (k, v). map_put k v h) h fs, word_of_nat (done + length (header_body fs)), b') \<and>
    buf_ok b' \<and> contents b' = rest"
  using assms
proof (induction fs arbitrary: b h "done")
  case Nil
  then show ?case by (simp add: read_fields.simps)
next
  case (Cons f fs)
  obtain k v where f: "f = (k, v)" by (cases f)
  let ?s = "field_text f" and ?total = "done + length (header_body (f # fs))"
  have c: "contents b = le_word 4 (word_of_nat (length ?s) :: 32 word) @ ?s @ (header_body fs @ rest)"
    using Cons.prems(2) by (simp add: field_bytes_def)
  have len: "length ?s < 2 ^ 32" using Cons.prems(3) by simp
  from read_text [OF Cons.prems(1) c len] obtain b1 b2 where
    r: "readInt32 b = Inr (word_of_nat (length ?s), b1)"
    "retrieveAsString (unat (word_of_nat (length ?s) :: 32 word)) b1 = Inr (?s, b2)"
    "buf_ok b2" "contents b2 = header_body fs @ rest" by blast
  have lt: "(word_of_nat done :: 32 word) < word_of_nat ?total"
  proof -
    have "unat (word_of_nat done :: 32 word) = done" and "unat (word_of_nat ?total :: 32 word) = ?total"
      using Cons.prems(3) by (auto intro!: unat_word_of_nat_small simp del: of_nat_add)
    then show ?thesis by (simp add: word_less_nat_alt del: of_nat_add)
  qed
  have eq: "find_eq ?s = Some (length k)" and parts: "take (length k) ?s = k" "drop (Suc (length k)) ?s = v"
    using Cons.prems(4) by (simp_all add: f field_text_def find_eq_key)
  define done' where "done' = done + 4 + length ?s"
  have d: "word_of_nat done + (word_of_nat (length ?s) + 4) = (word_of_nat done' :: 32 word)"
    by (simp add: done'_def)
  have t: "?total = done' + length (header_body fs)" by (simp add: done'_def)
  have step: "read_fields (word_of_nat ?total) (word_of_nat done) h b =
      read_fields (word_of_nat (done' + length (header_body fs))) (word_of_nat done') (map_put k v h) b2"
    unfolding t [symmetric] d [symmetric]
    by (subst read_fields.simps) (use lt r(1,2) eq parts in \<open>simp only: if_True bind_res_simps fst_conv snd_conv option.case\<close>)
  have "done' + length (header_body fs) < 2 ^ 32" using Cons.prems(3) t by simp
  from Cons.IH [OF r(3,4) this] Cons.prems(4) show ?case
    unfolding step unfolding t by (simp add: f del: of_nat_add)
qed

lemma ReadHeader_ok:
  assumes "buf_ok b" and "contents b = header_bytes h @ rest"
    and "length (header_body h) < 2 ^ 32" and "std_map h" and "\<forall>k \<in> fst ` set h. CHR ''='' \<notin> set k"
  obtains b' where "ReadHeader [] b = Inr (word_of_nat (length (header_body h)), h, b')" and "buf_ok b'"
    and "contents b' = rest"
proof -
  let ?n = "word_of_nat (length (header_body h)) :: 32 word"
  from bq.get_ok [OF assms(1), of 4] assms(2) obtain b1 where
    g: "retrieveAsString 4 b = Inr (le_word 4 ?n, b1)"
    and b1: "buf_ok b1" "contents b1 = header_body h @ rest" by (auto simp: header_bytes_def)
  from read_fields_ok [OF b1, of 0 "[]"] assms(3,5) obtain b2 where
    r: "read_fields ?n 0 [] b1 = Inr (foldl (\<lambda>h (k, v). map_put k v h) [] h, ?n, b2)"
    "buf_ok b2" "contents b2 = rest" by auto
  then show ?thesis
    using that [OF _ r(2,3)] g std_map_rebuild [OF assms(4)]
    by (simp add: ReadHeader_def readInt32_get)
qed

section \<open>Properties\<close>

text \<open>
  C28. A header survives the trip through a buffer: for every \<open>std::map\<close> whose keys hold no
  equals sign and whose fields fit in 32 bits, \<open>ReadHeader\<close> applied to what \<open>WriteHeader\<close>
  left in an empty buffer returns the same map and the same length and consumes exactly the
  bytes written. Values may hold any character, equals signs included.
\<close>

theorem header_roundtrip:
  assumes "buf_ok b" and "contents b = []" and "kCheapPrepend \<le> readerIndex b"
    and "length (vec b) + length (header_body h) \<le> max_vector" and "length (header_body h) < 2 ^ 32"
    and "std_map h" and "\<forall>k \<in> fst ` set h. CHR ''='' \<notin> set k"
  shows "\<exists>n b1 b2. WriteHeader h b = Inr (n, b1) \<and> ReadHeader [] b1 = Inr (n, h, b2) \<and>
    unat n = length (header_body h) \<and> contents b2 = []"
proof -
  from WriteHeader_ok [OF assms(1,4,3)] assms(2) obtain b1 where w:
    "WriteHeader h b = Inr (word_of_nat (length (header_body h)), b1)" "buf_ok b1"
    "contents b1 = header_bytes h @ []" by (auto simp: header_bytes_def)
  from ReadHeader_ok [OF w(2,3) assms(5-7)] obtain b2 where
    "ReadHeader [] b1 = Inr (word_of_nat (length (header_body h)), h, b2)" "contents b2 = []" by metis
  with w assms(5) show ?thesis by (auto simp: unat_of_nat)
qed

theorem header_roundtrip_witness:
  "\<exists>n b1 b2. WriteHeader [(''msg_count'', ''48''), (''op'', ''a=b'')]
       \<lparr>vec = replicate 8 (CHR 0x00), readerIndex = 8, writerIndex = 8\<rparr> = Inr (n, b1) \<and>
     ReadHeader [] b1 = Inr (n, [(''msg_count'', ''48''), (''op'', ''a=b'')], b2)"
proof -
  let ?b = "\<lparr>vec = replicate 8 (CHR 0x00), readerIndex = 8, writerIndex = 8\<rparr>"
  have "buf_ok ?b" "contents ?b = []"
    by (simp_all add: buf_ok_def kCheapPrepend_def max_vector_def contents_def slice_def)
  from header_roundtrip [OF this, of "[(''msg_count'', ''48''), (''op'', ''a=b'')]"]
  show ?thesis by (auto simp: kCheapPrepend_def max_vector_def field_text_def)
qed

lemma blank_length: "unat (word_le (replicate 4 (CHR 0x20)) :: 32 word) = 538976288"
proof -
  have "replicate 4 (CHR 0x20) = ''    ''" by (simp add: numeral_eq_Suc)
  then have "le_val (replicate 4 (CHR 0x20)) = 538976288" by simp
  then show ?thesis unfolding word_le_def by (simp only: unat_word_of_nat_small) simp
qed

lemma readInt32_short: "buf_ok b \<Longrightarrow> length (contents b) < 4 \<Longrightarrow> readInt32 b = Inl AssertFailed"
  by (simp add: readInt32_get bq.get_short)

lemma read_fields_blank:
  assumes "buf_ok b" and "contents b = replicate m (CHR 0x20)" and "m \<le> 2 ^ 29" and "r < n"
  shows "read_fields n r h b = Inl AssertFailed"
proof (cases "m < 4")
  case True
  with assms show ?thesis by (simp add: read_fields.simps readInt32_short)
next
  case False
  from bq.get_ok [OF assms(1), of 4] assms(2) False obtain b1 where
    b1: "retrieveAsString 4 b = Inr (replicate 4 (CHR 0x20), b1)" "buf_ok b1"
    "contents b1 = replicate (m - 4) (CHR 0x20)" by auto
  have "retrieveAsString 538976288 b1 = Inl AssertFailed"
    using b1(3) assms(3) by (intro bq.get_short [OF b1(2)]) simp
  with b1(1) assms(4) show ?thesis
    by (subst read_fields.simps) (simp add: readInt32_get blank_length)
qed

text \<open>
  The \<open>continue\<close> of \<open>ReadHeader\<close> overruns the header: a field with no equals sign is
  not added to \<open>read_len\<close>, so although the header is complete (its length field counts exactly
  this field) the loop goes on into whatever follows. On the blanks that pad a header record,
  or at the end of the buffer, it ends in a failed assertion instead of returning.
\<close>

theorem ReadHeader_overruns_after_malformed_field:
  assumes "buf_ok b" and "CHR ''='' \<notin> set s" and "length s + 4 < 2 ^ 32" and "m \<le> 2 ^ 29"
    and "contents b = le_word 4 (word_of_nat (4 + length s) :: 32 word) @
      le_word 4 (word_of_nat (length s) :: 32 word) @ s @ replicate m (CHR 0x20)"
  shows "ReadHeader h b = Inl AssertFailed"
proof -
  let ?n = "word_of_nat (4 + length s) :: 32 word"
  define l where "l = (word_of_nat (length s) :: 32 word)"
  have c: "contents b = le_word 4 ?n @ le_word 4 l @ s @ replicate m (CHR 0x20)"
    unfolding l_def by (rule assms(5))
  from bq.get_ok [OF assms(1), of 4] obtain b1 where
    g: "retrieveAsString 4 b = Inr (le_word 4 ?n, b1)"
    and b1: "buf_ok b1" "contents b1 = le_word 4 l @ s @ replicate m (CHR 0x20)"
    unfolding c by (auto simp del: of_nat_add)
  from read_text [OF b1(1) b1(2) [unfolded l_def]] assms(3) obtain b2 b3 where
    r: "readInt32 b1 = Inr (word_of_nat (length s), b2)"
    "retrieveAsString (unat (word_of_nat (length s) :: 32 word)) b2 = Inr (s, b3)"
    and b3: "buf_ok b3" "contents b3 = replicate m (CHR 0x20)" by auto
  have "unat ?n = 4 + length s" using assms(3) by (intro unat_word_of_nat_small) simp
  then have pos: "0 < ?n" by (simp add: word_less_nat_alt del: of_nat_add)
  have "read_fields ?n 0 h b1 = read_fields ?n 0 h b3"
    by (subst read_fields.simps)
      (use pos r find_eq_None [OF assms(2)] in
        \<open>simp only: if_True bind_res_simps fst_conv snd_conv option.case\<close>)
  also have "\<dots> = Inl AssertFailed" using b3 assms(4) pos by (rule read_fields_blank)
  finally show ?thesis using g by (simp add: ReadHeader_def readInt32_get del: of_nat_add)
qed

theorem ReadHeader_overruns_after_malformed_field_witness:
  "ReadHeader [] \<lparr>vec = replicate 8 (CHR 0x00) @ le_word 4 (6 :: 32 word) @ le_word 4 (2 :: 32 word) @ ''op'' @
      replicate 5 (CHR 0x20), readerIndex = 8, writerIndex = 23\<rparr> = Inl AssertFailed"
  by (rule ReadHeader_overruns_after_malformed_field [where s = "''op''" and m = 5])
    (simp_all add: buf_ok_def kCheapPrepend_def max_vector_def contents_def slice_def)

lemma length_HexToString [simp]: "length (HexToString x) = 4"
  by (simp add: HexToString_def)

end
