(* ===== verification/Doubles.thy ===== *)
theory Doubles
  imports Prelude
begin

text \<open>
  The \<open>double\<close> arithmetic of the time conversions (\<open>timestamp.h\<close>). A double is a rational;
  every operation rounds its exact result to 53 significant bits, ties to even, as IEEE 754
  binary64 does in its normal range. The exponent is not bounded: the values the program
  computes (64-bit integers, their quotients and products by \<open>10^9\<close>) stay far inside the normal
  range, so no overflow and no subnormal occurs. The conversion of a double to a 64-bit integer
  truncates towards zero; out of range it gives the value the x86-64 instruction gives.
\<close>

type_synonym double = rat

function flog2 :: "int \<Rightarrow> nat" where
  "flog2 n = (if n < 2 then 0 else Suc (flog2 (n div 2)))"
  by pat_completeness auto
termination
  by (relation "measure nat") auto

declare flog2.simps [simp del]

definition exponent :: "rat \<Rightarrow> int" where
  "exponent x =
     (let (p, q) = quotient_of x; e = int (flog2 p) - int (flog2 q)
      in if 2 powi e \<le> x then e else e - 1)"

definition round_half_even :: "rat \<Rightarrow> int" where
  "round_half_even x =
     (let f = \<lfloor>x\<rfloor>; d = x - of_int f
      in if d < 1 / 2 then f else if 1 / 2 < d then f + 1 else if even f then f else f + 1)"

definition round_pos :: "rat \<Rightarrow> double" where
  "round_pos x = (let u = 2 powi (exponent x - 52) in of_int (round_half_even (x / u)) * u)"

definition to_double :: "rat \<Rightarrow> double" where
  "to_double x = (if x = 0 then 0 else if x < 0 then - round_pos (- x) else round_pos x)"

definition double_of_int :: "int \<Rightarrow> double" where
  "double_of_int i = to_double (of_int i)"

definition double_mult :: "double \<Rightarrow> double \<Rightarrow> double" where
  "double_mult x y = to_double (x * y)"

definition double_div :: "double \<Rightarrow> double \<Rightarrow> double" where
  "double_div x y = to_double (x / y)"

definition truncate_rat :: "rat \<Rightarrow> int" where
  "truncate_rat x = (if 0 \<le> x then \<lfloor>x\<rfloor> else - \<lfloor>- x\<rfloor>)"

definition int64_of_double :: "double \<Rightarrow> 64 word" where
  "int64_of_double x =
     (let i = truncate_rat x
      in if - (2 ^ 63) \<le> i \<and> i < 2 ^ 63 then word_of_int i else word_of_int (- (2 ^ 63)))"

section \<open>The rounding error\<close>

lemma flog2_bounds: "0 < n \<Longrightarrow> 2 ^ flog2 n \<le> n \<and> n < 2 ^ Suc (flog2 n)"
proof (induction n rule: flog2.induct)
  case (1 n)
  show ?case
  proof (cases "n < 2")
    case True
    with "1.prems" show ?thesis by (simp add: flog2.simps [of n])
  next
    case False
    then have "2 ^ flog2 (n div 2) \<le> n div 2 \<and> n div 2 < 2 ^ Suc (flog2 (n div 2))"
      using "1.IH" by simp
    then have "2 * 2 ^ flog2 (n div 2) \<le> n" and "n < 2 * 2 ^ Suc (flog2 (n div 2))" by auto
    with False show ?thesis by (simp add: flog2.simps [of n])
  qed
qed

lemma exponent_bounds:
  assumes "0 < x"
  shows "2 powi (exponent x) \<le> x \<and> x < 2 powi (exponent x + 1)"
proof -
  obtain p q where pq: "quotient_of x = (p, q)" by (cases "quotient_of x")
  have q: "0 < q" using pq by (rule quotient_of_denom_pos)
  have x: "x = of_int p / of_int q" using pq by (rule quotient_of_div)
  have p: "0 < p" using assms q unfolding x by (simp add: zero_less_divide_iff)
  define a where "a = flog2 p"
  define b where "b = flog2 q"
  have "2 ^ a \<le> p" "p < 2 ^ Suc a" "2 ^ b \<le> q" "q < 2 ^ Suc b"
    using flog2_bounds [OF p] flog2_bounds [OF q] by (simp_all add: a_def b_def)
  then have "of_int (2 ^ a) \<le> (of_int p :: rat)" "(of_int p :: rat) < of_int (2 ^ Suc a)"
    and "of_int (2 ^ b) \<le> (of_int q :: rat)" "(of_int q :: rat) < of_int (2 ^ Suc b)"
    by (simp_all only: of_int_le_iff of_int_less_iff)
  then have rp: "2 ^ a \<le> (of_int p :: rat)" "(of_int p :: rat) < 2 ^ Suc a"
    and rq: "2 ^ b \<le> (of_int q :: rat)" "(of_int q :: rat) < 2 ^ Suc b"
    by (simp_all only: of_int_power of_int_numeral)
  have q0: "0 < (of_int q :: rat)" using q by simp
  have hi: "x < 2 powi (int a - int b + 1)"
  proof -
    have "x < 2 ^ Suc a / 2 ^ b"
      unfolding x using rp(2) rq(1) q0 by (intro frac_less) (use p in auto)
    then show ?thesis by (simp add: power_int_add power_int_diff mult.commute)
  qed
  have lo: "2 powi (int a - int b - 1) \<le> x"
  proof -
    have "2 ^ a / 2 ^ Suc b \<le> x"
      unfolding x using rp(1) rq(2) q0 by (intro frac_le) (use p in auto)
    then show ?thesis by (simp add: power_int_add power_int_diff)
  qed
  show ?thesis
    using hi lo by (simp add: exponent_def pq a_def b_def Let_def)
qed

lemma round_half_even_error: "\<bar>of_int (round_half_even x) - x\<bar> \<le> 1 / 2"
proof -
  have "of_int \<lfloor>x\<rfloor> \<le> x" "x < of_int \<lfloor>x\<rfloor> + 1" by linarith+
  then show ?thesis by (auto simp: round_half_even_def Let_def abs_le_iff)
qed

lemma round_half_even_int [simp]: "round_half_even (of_int i) = i"
  by (simp add: round_half_even_def)

lemma round_pos_error:
  assumes "0 < x"
  shows "\<bar>round_pos x - x\<bar> \<le> x / 2 ^ 53"
proof -
  define u :: rat where "u = 2 powi (exponent x - 52)"
  have u0: "0 < u" by (simp add: u_def)
  have "2 powi (exponent x) = u * 2 ^ 52" by (simp add: u_def power_int_diff)
  then have ux: "u * 2 ^ 52 \<le> x" using exponent_bounds [OF assms] by simp
  have "\<bar>round_pos x - x\<bar> = \<bar>of_int (round_half_even (x / u)) - x / u\<bar> * u"
    using u0 by (simp add: round_pos_def Let_def abs_mult_pos left_diff_distrib flip: u_def)
  also have "\<dots> \<le> 1 / 2 * u"
    using round_half_even_error [of "x / u"] u0 by (intro mult_right_mono) auto
  also have "\<dots> \<le> x / 2 ^ 53" using ux by simp
  finally show ?thesis .
qed

lemma to_double_error: "\<bar>to_double x - x\<bar> \<le> \<bar>x\<bar> / 2 ^ 53"
proof -
  consider "x = 0" | "x < 0" | "0 < x" by linarith
  then show ?thesis
  proof cases
    case 2
    then have "\<bar>round_pos (- x) - (- x)\<bar> \<le> - x / 2 ^ 53" by (intro round_pos_error) simp
    with 2 show ?thesis by (simp add: to_double_def abs_if split: if_splits)
  qed (use round_pos_error [of x] in \<open>auto simp: to_double_def\<close>)
qed

lemma truncate_rat_error: "\<bar>of_int (truncate_rat x) - x\<bar> < 1"
  unfolding truncate_rat_def by (simp add: abs_if) linarith

end
