(* ===== verification/Timestamps.thy ===== *)
theory Timestamps
  imports Doubles
begin

text \<open>
  \<open>src/common/timestamp.h\<close> and \<open>timestamp.cpp\<close>, and the timer arithmetic of
  \<open>util.cpp\<close> (\<open>HowMuchTimeFromNow\<close>). A timestamp is the 64-bit count of nanoseconds; the
  comparison operators read it as a signed number. \<open>Now()\<close> is an input wherever it is used, and
  the broken-down local time is an input of \<open>ToFormattedString\<close>.
\<close>

section \<open>The class\<close>

datatype timestamp = Timestamp (NanoSecondsSinceEpoch: "64 word")

abbreviation nanos :: "timestamp \<Rightarrow> int" where
  "nanos t \<equiv> sint (NanoSecondsSinceEpoch t)"

definition NANO_SECONDS_PER_SECOND :: int where
  "NANO_SECONDS_PER_SECOND = 1000 * 1000 * 1000"

definition timestamp_default :: timestamp where
  "timestamp_default = Timestamp 0"

definition Swap :: "timestamp \<times> timestamp \<Rightarrow> timestamp \<times> timestamp" where
  "Swap p = (snd p, fst p)"

definition Valid :: "timestamp \<Rightarrow> bool" where
  "Valid t \<longleftrightarrow> 0 < nanos t"

definition Invalid :: timestamp where
  "Invalid = timestamp_default"

text \<open>C++ division truncates.\<close>

definition SecondsSinceEpoch :: "timestamp \<Rightarrow> int" where
  "SecondsSinceEpoch t = nanos t sdiv NANO_SECONDS_PER_SECOND"

section \<open>Order\<close>

definition ts_less :: "timestamp \<Rightarrow> timestamp \<Rightarrow> bool" where
  "ts_less lhs rhs \<longleftrightarrow> nanos lhs < nanos rhs"

definition ts_greater :: "timestamp \<Rightarrow> timestamp \<Rightarrow> bool" where
  "ts_greater lhs rhs \<longleftrightarrow> ts_less rhs lhs"

definition ts_less_eq :: "timestamp \<Rightarrow> timestamp \<Rightarrow> bool" where
  "ts_less_eq lhs rhs \<longleftrightarrow> \<not> ts_greater lhs rhs"

definition ts_greater_eq :: "timestamp \<Rightarrow> timestamp \<Rightarrow> bool" where
  "ts_greater_eq lhs rhs \<longleftrightarrow> \<not> ts_less lhs rhs"

definition ts_eq :: "timestamp \<Rightarrow> timestamp \<Rightarrow> bool" where
  "ts_eq lhs rhs \<longleftrightarrow> nanos lhs = nanos rhs"

definition ts_neq :: "timestamp \<Rightarrow> timestamp \<Rightarrow> bool" where
  "ts_neq lhs rhs \<longleftrightarrow> \<not> ts_eq lhs rhs"

lemma nanos_inject [simp]: "nanos a = nanos b \<longleftrightarrow> a = b"
  by (cases a; cases b) (auto intro: signed_word_eqI)

instantiation timestamp :: linorder
begin

definition less_timestamp :: "timestamp \<Rightarrow> timestamp \<Rightarrow> bool" where
  "less_timestamp = ts_less"

definition less_eq_timestamp :: "timestamp \<Rightarrow> timestamp \<Rightarrow> bool" where
  "less_eq_timestamp = ts_less_eq"

instance
  by standard
    (auto simp: less_timestamp_def less_eq_timestamp_def ts_less_def ts_less_eq_def ts_greater_def)

end

lemma timestamp_less_iff: "a < b \<longleftrightarrow> nanos a < nanos b"
  by (simp add: less_timestamp_def ts_less_def)

lemma timestamp_le_iff: "a \<le> b \<longleftrightarrow> nanos a \<le> nanos b"
  by (auto simp: less_eq_timestamp_def ts_less_eq_def ts_greater_def ts_less_def)

section \<open>Arithmetic through double\<close>

definition TimeDifference :: "timestamp \<Rightarrow> timestamp \<Rightarrow> double" where
  "TimeDifference high low =
     (let diff = NanoSecondsSinceEpoch high - NanoSecondsSinceEpoch low
      in double_div (double_of_int (sint diff)) (of_int NANO_SECONDS_PER_SECOND))"

definition AddTime :: "timestamp \<Rightarrow> double \<Rightarrow> timestamp" where
  "AddTime t seconds =
     (let delta = int64_of_double (double_mult seconds (of_int NANO_SECONDS_PER_SECOND))
      in Timestamp (NanoSecondsSinceEpoch t + delta))"

text \<open>
  The two constants of \<open>namespace detail\<close>: \<open>time_t\<close> is a signed 64-bit integer, so the
  multiplication wraps.
\<close>

definition TIME_MAX :: timestamp where
  "TIME_MAX = Timestamp (word_of_int (2 ^ 63 - 1) * word_of_int NANO_SECONDS_PER_SECOND + 999999999)"

definition TIME_MIN :: timestamp where
  "TIME_MIN = Timestamp (word_of_int (- (2 ^ 63)) * word_of_int NANO_SECONDS_PER_SECOND + 0)"

section \<open>Text\<close>

text \<open>\<open>%0wd\<close>: padded with zeros to \<open>w\<close> characters, the sign first.\<close>

definition pad_zeros :: "nat \<Rightarrow> int \<Rightarrow> string" where
  "pad_zeros w i =
     (let s = show_nat (nat \<bar>i\<bar>); sign = (if i < 0 then ''-'' else '''')
      in sign @ replicate (w - length sign - length s) (CHR ''0'') @ s)"

definition pad_blanks :: "nat \<Rightarrow> int \<Rightarrow> string" where
  "pad_blanks w i = replicate (w - length (show_int i)) (CHR '' '') @ show_int i"

text \<open>\<open>snprintf(buf, 31, "%ld.%09ld", ...)\<close> keeps at most 30 characters.\<close>

definition ToString :: "timestamp \<Rightarrow> string" where
  "ToString t =
     take 30 (show_int (nanos t sdiv NANO_SECONDS_PER_SECOND) @ ''.'' @
       pad_zeros 9 (nanos t smod NANO_SECONDS_PER_SECOND))"

record tm =
  tm_year :: int
  tm_mon :: int
  tm_mday :: int
  tm_hour :: int
  tm_min :: int
  tm_sec :: int

definition ToFormattedString :: "(int \<Rightarrow> tm) \<Rightarrow> bool \<Rightarrow> timestamp \<Rightarrow> string" where
  "ToFormattedString localtime show_nanosec t =
     (let tm_time = localtime (nanos t sdiv NANO_SECONDS_PER_SECOND);
          date = pad_blanks 4 (tm_year tm_time + 1900) @ ''-'' @ pad_zeros 2 (tm_mon tm_time + 1) @ ''-'' @
            pad_zeros 2 (tm_mday tm_time) @ ''-'' @ pad_zeros 2 (tm_hour tm_time) @ ''-'' @
            pad_zeros 2 (tm_min tm_time) @ ''-'' @ pad_zeros 2 (tm_sec tm_time)
      in take 31
        (if show_nanosec then date @ ''.'' @ pad_zeros 9 (nanos t smod NANO_SECONDS_PER_SECOND)
         else date))"

section \<open>Timer intervals\<close>

record timespec =
  tv_sec :: int
  tv_nsec :: int

definition HowMuchTimeFromNow :: "timestamp \<Rightarrow> timestamp \<Rightarrow> timespec" where
  "HowMuchTimeFromNow now t =
     (let nanoseconds = sint (NanoSecondsSinceEpoch t - NanoSecondsSinceEpoch now);
          nanoseconds = (if nanoseconds < 100 then 100 else nanoseconds)
      in \<lparr>tv_sec = nanoseconds sdiv NANO_SECONDS_PER_SECOND,
          tv_nsec = nanoseconds smod NANO_SECONDS_PER_SECOND\<rparr>)"

section \<open>Lemmas\<close>

lemma NANO_pos [simp]: "0 < NANO_SECONDS_PER_SECOND"
  by (simp add: NANO_SECONDS_PER_SECOND_def)

text \<open>A duration in nanoseconds, turned into seconds and back.\<close>

definition delta_of :: "double \<Rightarrow> 64 word" where
  "delta_of seconds = int64_of_double (double_mult seconds (of_int NANO_SECONDS_PER_SECOND))"

lemma AddTime_delta: "AddTime t s = Timestamp (NanoSecondsSinceEpoch t + delta_of s)"
  by (simp add: AddTime_def delta_of_def)

lemma nanos_AddTime:
  assumes "- (2 ^ 63) \<le> nanos t + sint (delta_of s)" and "nanos t + sint (delta_of s) < 2 ^ 63"
  shows "nanos (AddTime t s) = nanos t + sint (delta_of s)"
  using assms by (simp add: AddTime_delta sint_add_small)

lemma scale_error:
  fixes s x n e :: rat
  assumes "0 < n" and "\<bar>s - x / n\<bar> \<le> \<bar>x / n\<bar> * e"
  shows "\<bar>s * n - x\<bar> \<le> \<bar>x\<bar> * e"
proof -
  have "s * n - x = (s - x / n) * n" using assms(1) by (simp add: left_diff_distrib)
  then have "\<bar>s * n - x\<bar> = \<bar>s - x / n\<bar> * n" using assms(1) by (simp add: abs_mult)
  also have "\<dots> \<le> \<bar>x / n\<bar> * e * n" using assms by (intro mult_right_mono) auto
  also have "\<dots> = \<bar>x\<bar> * e" using assms(1) by simp
  finally show ?thesis .
qed

text \<open>The error of the three roundings on the way from a difference \<open>d\<close> to seconds and back.\<close>

lemma seconds_roundtrip_error:
  fixes d :: int
  defines "s \<equiv> double_div (double_of_int d) (of_int NANO_SECONDS_PER_SECOND)"
  shows "\<bar>double_mult s (of_int NANO_SECONDS_PER_SECOND) - of_int d\<bar> \<le> \<bar>of_int d\<bar> / 2 ^ 51"
proof -
  let ?e = "(1 / 2 ^ 53) :: rat" and ?n = "of_int NANO_SECONDS_PER_SECOND :: rat"
  let ?x = "double_of_int d" and ?D = "\<bar>of_int d\<bar> :: rat"
  have n0: "0 < ?n" by simp
  have e1: "\<bar>?x - of_int d\<bar> \<le> ?D * ?e"
    using to_double_error [of "of_int d"] by (simp add: double_of_int_def)
  have x: "\<bar>?x\<bar> \<le> ?D * (1 + ?e)" using e1 by (simp add: distrib_left abs_le_iff abs_if split: if_splits)
  have e2: "\<bar>s * ?n - ?x\<bar> \<le> \<bar>?x\<bar> * ?e"
    using n0 to_double_error [of "?x / ?n"] by (intro scale_error) (simp_all add: s_def double_div_def)
  have "\<bar>s * ?n\<bar> \<le> \<bar>?x\<bar> * (1 + ?e)" using e2 by (simp add: distrib_left abs_le_iff abs_if split: if_splits)
  also have "\<dots> \<le> ?D * (1 + ?e) * (1 + ?e)" using x by (intro mult_right_mono) auto
  finally have y: "\<bar>s * ?n\<bar> \<le> ?D * ((1 + ?e) * (1 + ?e))" by (simp add: mult.assoc)
  have e3: "\<bar>double_mult s ?n - s * ?n\<bar> \<le> \<bar>s * ?n\<bar> * ?e"
    using to_double_error [of "s * ?n"] by (simp add: double_mult_def)
  have "\<bar>double_mult s ?n - of_int d\<bar> \<le> \<bar>double_mult s ?n - s * ?n\<bar> + \<bar>s * ?n - ?x\<bar> + \<bar>?x - of_int d\<bar>"
    by linarith
  also have "\<dots> \<le> ?D * ((1 + ?e) * (1 + ?e)) * ?e + ?D * (1 + ?e) * ?e + ?D * ?e"
    using y x by (intro add_mono order_trans [OF e3] order_trans [OF e2] e1 mult_right_mono) simp_all
  also have "\<dots> = ?D * (((1 + ?e) * (1 + ?e) + (1 + ?e) + 1) * ?e)" by (simp add: algebra_simps)
  also have "\<dots> \<le> ?D * (1 / 2 ^ 51)" by (intro mult_left_mono) simp_all
  finally show ?thesis by simp
qed

lemma int64_of_double_near:
  assumes "\<bar>x - of_int d\<bar> \<le> r" and "\<bar>d\<bar> < 2 ^ 62" and "r \<le> 2 ^ 61"
  shows "\<bar>of_int (sint (int64_of_double x)) - of_int d\<bar> < r + (1 :: rat)"
proof -
  let ?i = "truncate_rat x"
  have i: "\<bar>of_int ?i - of_int d\<bar> < r + (1 :: rat)"
    using truncate_rat_error [of x] assms(1) by linarith
  have "r + 1 \<le> (2 ^ 62 :: rat)" using assms(3) by simp
  with i have "of_int \<bar>?i - d\<bar> < (of_int (2 ^ 62) :: rat)" by simp
  then have "\<bar>?i - d\<bar> < 2 ^ 62" by (simp only: of_int_less_iff)
  with assms(2) have "- (2 ^ 63) \<le> ?i" "?i < 2 ^ 63" by (simp_all add: abs_less_iff)
  then show ?thesis using i by (simp add: int64_of_double_def Let_def sint_word_of_int_small)
qed

text \<open>A difference of two times, turned into seconds and back into nanoseconds.\<close>

lemma delta_of_TimeDifference:
  assumes "\<bar>nanos a - nanos b\<bar> < 2 ^ 62"
  shows "\<bar>of_int (sint (delta_of (TimeDifference a b)) - (nanos a - nanos b))\<bar> <
      1 + \<bar>of_int (nanos a - nanos b)\<bar> / (2 ^ 51 :: rat) \<and>
    \<bar>sint (delta_of (TimeDifference a b)) - (nanos a - nanos b)\<bar> < 4096"
proof -
  let ?d = "nanos a - nanos b"
  have sd: "sint (NanoSecondsSinceEpoch a - NanoSecondsSinceEpoch b) = ?d"
    using assms(1) by (intro sint_diff_small) (simp_all add: abs_less_iff)
  let ?s = "TimeDifference a b"
  have s: "?s = double_div (double_of_int ?d) (of_int NANO_SECONDS_PER_SECOND)"
    by (simp add: TimeDifference_def sd)
  define r :: rat where "r = \<bar>of_int ?d\<bar> / 2 ^ 51"
  have d62: "\<bar>of_int ?d\<bar> < (2 ^ 62 :: rat)"
  proof -
    have "of_int \<bar>?d\<bar> < (of_int (2 ^ 62) :: rat)" using assms(1) by (simp only: of_int_less_iff)
    then show ?thesis by simp
  qed
  then have r: "r \<le> 2 ^ 11" by (simp add: r_def)
  have near: "\<bar>of_int (sint (delta_of ?s)) - of_int ?d\<bar> < r + 1"
    unfolding delta_of_def
    using seconds_roundtrip_error [of ?d] assms(1) r
    by (intro int64_of_double_near) (simp_all add: s r_def)
  with r have "\<bar>of_int (sint (delta_of ?s) - ?d)\<bar> < (of_int 4096 :: rat)" by simp
  then have "\<bar>sint (delta_of ?s) - ?d\<bar> < 4096"
    by (simp only: of_int_less_iff flip: of_int_abs)
  with near show ?thesis by (simp add: r_def algebra_simps)
qed

section \<open>Properties\<close>

text \<open>
  C34. A difference of two times, turned into seconds and added to a third time, moves it by the
  difference up to \<open>1 + \<bar>d\<bar> / 2\<^sup>5\<^sup>1\<close> nanoseconds: for differences up to 26 days the three
  roundings and the final truncation lose at most two nanoseconds.
\<close>

theorem AddTime_TimeDifference_error:
  assumes "\<bar>nanos a - nanos b\<bar> < 2 ^ 62" and "\<bar>nanos t\<bar> < 2 ^ 61"
  shows "\<bar>of_int (nanos (AddTime t (TimeDifference a b)) - (nanos t + (nanos a - nanos b)))\<bar> <
    1 + \<bar>of_int (nanos a - nanos b)\<bar> / (2 ^ 51 :: rat)"
proof -
  note d = delta_of_TimeDifference [OF assms(1)]
  then have "nanos (AddTime t (TimeDifference a b)) = nanos t + sint (delta_of (TimeDifference a b))"
    using assms by (intro nanos_AddTime) (simp_all add: abs_less_iff)
  then show ?thesis using d by (simp add: algebra_simps)
qed

theorem AddTime_TimeDifference_error_witness:
  "\<bar>of_int (nanos (AddTime (Timestamp 1555062141928018417)
       (TimeDifference (Timestamp 1555062142898391682) (Timestamp 1555062141928018417)))
     - (1555062141928018417 + (1555062142898391682 - 1555062141928018417)))\<bar> < (2 :: rat)"
proof -
  have "\<bar>nanos (Timestamp 1555062142898391682) - nanos (Timestamp 1555062141928018417)\<bar> < 2 ^ 62"
    and "\<bar>nanos (Timestamp 1555062141928018417)\<bar> < 2 ^ 61" by simp_all
  from AddTime_TimeDifference_error [OF this] show ?thesis by simp
qed

text \<open>
  The two bounds \<open>detail::TIME_MIN\<close> and \<open>TIME_MAX\<close> are the wrong way round: the
  multiplication by \<open>10^9\<close> overflows 64 bits, \<open>TIME_MAX\<close> is one nanosecond before the epoch
  and \<open>TIME_MIN\<close> the epoch itself, so no timestamp lies between them, and every timestamp with
  a positive count lies above \<open>TIME_MAX\<close>.
\<close>

theorem TIME_MIN_above_TIME_MAX:
  "nanos TIME_MAX = -1 \<and> nanos TIME_MIN = 0 \<and> TIME_MAX < TIME_MIN \<and>
   (\<forall>t. \<not> (TIME_MIN \<le> t \<and> t \<le> TIME_MAX)) \<and> (\<forall>t. Valid t \<longrightarrow> TIME_MAX < t)"
proof -
  have m: "nanos TIME_MAX = -1" "nanos TIME_MIN = 0"
    by (simp_all add: TIME_MAX_def TIME_MIN_def NANO_SECONDS_PER_SECOND_def)
  then show ?thesis by (auto simp: timestamp_less_iff timestamp_le_iff Valid_def)
qed

theorem TIME_MIN_above_TIME_MAX_witness:
  "Valid (Timestamp 1) \<and> TIME_MAX < Timestamp 1"
  using TIME_MIN_above_TIME_MAX by (simp add: Valid_def)

text \<open>
  The interval the timer is armed with is always a legal \<open>timespec\<close> of at least 100
  nanoseconds: the seconds are not negative, the nanoseconds are below \<open>10^9\<close>, and together
  they are the time left until the expiration, or 100 nanoseconds when less is left.
\<close>

theorem HowMuchTimeFromNow_legal:
  "let ts = HowMuchTimeFromNow now t;
       left = sint (NanoSecondsSinceEpoch t - NanoSecondsSinceEpoch now)
   in 0 \<le> tv_sec ts \<and> 0 \<le> tv_nsec ts \<and> tv_nsec ts < 1000000000 \<and>
      tv_sec ts * 1000000000 + tv_nsec ts = max 100 left"
  by (simp add: HowMuchTimeFromNow_def Let_def NANO_SECONDS_PER_SECOND_def sdiv_nonneg smod_nonneg
      max_def pos_imp_zdiv_nonneg_iff)

lemma length_pad_zeros:
  assumes "\<bar>i\<bar> < 10 ^ w" and "0 < w"
  shows "length (pad_zeros w i) \<le> Suc w"
proof -
  have "nat \<bar>i\<bar> < 10 ^ w" using assms(1) by (simp add: nat_less_iff)
  then have "length (show_nat (nat \<bar>i\<bar>)) \<le> w" using assms(2) by (rule length_show_nat_le)
  then show ?thesis by (auto simp: pad_zeros_def Let_def)
qed

lemma pad_zeros_nonneg:
  assumes "0 \<le> i" and "i < 10 ^ w" and "0 < w"
  shows "length (pad_zeros w i) = w" and "nat_of_digits (pad_zeros w i) = nat i"
    and "c \<in> set (pad_zeros w i) \<Longrightarrow> is_digit c"
proof -
  have l: "length (show_nat (nat i)) \<le> w"
    using assms by (intro length_show_nat_le) (simp_all add: nat_less_iff)
  then show "length (pad_zeros w i) = w" using assms(1) by (simp add: pad_zeros_def Let_def)
  have z: "nat_of_digits (replicate k (CHR ''0'') @ s) = nat_of_digits s" for k s
    by (induction k) (simp_all add: nat_of_digits_def digit_val_def)
  show "nat_of_digits (pad_zeros w i) = nat i" using assms(1) by (simp add: pad_zeros_def Let_def z)
  show "is_digit c" if "c \<in> set (pad_zeros w i)"
    using that assms(1) by (auto simp: pad_zeros_def Let_def is_digit_def dest: show_nat_digits)
qed

text \<open>
  \<open>ToString\<close> of a time after the epoch is never cut off by the 32-byte buffer and can be
  read back: it is decimal seconds, a point, and exactly nine digits, and the two numbers give
  the nanosecond count.
\<close>

theorem ToString_readable:
  assumes "0 \<le> nanos t"
  shows "\<exists>s f. ToString t = s @ ''.'' @ f \<and> s \<noteq> [] \<and> length f = 9 \<and>
    (\<forall>c \<in> set (s @ f). is_digit c) \<and>
    int (nat_of_digits s) * 1000000000 + int (nat_of_digits f) = nanos t"
proof -
  let ?q = "nanos t div 1000000000" and ?r = "nanos t mod 1000000000"
  have r: "0 \<le> ?r" "?r < 10 ^ 9" by simp_all
  have q0: "0 \<le> ?q" using assms by (simp add: pos_imp_zdiv_nonneg_iff)
  have "nanos t < 2 ^ 63" using sint_range_64 by blast
  then have "nat ?q < 10 ^ 10" using q0 by (simp add: nat_less_iff)
  then have "length (show_nat (nat ?q)) \<le> 10" by (rule length_show_nat_le) simp
  then have fit: "length (show_int ?q @ ''.'' @ pad_zeros 9 ?r) \<le> 30"
    using q0 pad_zeros_nonneg(1) [OF r] by (simp add: show_int_def)
  have e: "ToString t = show_int ?q @ ''.'' @ pad_zeros 9 ?r"
    using assms fit by (simp add: ToString_def NANO_SECONDS_PER_SECOND_def sdiv_nonneg smod_nonneg)
  have s: "show_int ?q = show_nat (nat ?q)" using q0 by (simp add: show_int_def)
  have d: "\<forall>c \<in> set (show_nat (nat ?q) @ pad_zeros 9 ?r). is_digit c"
    using pad_zeros_nonneg(3) [OF r] show_nat_digits by (metis Un_iff set_append zero_less_numeral)
  have v: "int (nat_of_digits (show_nat (nat ?q))) * 1000000000 + int (nat_of_digits (pad_zeros 9 ?r)) = nanos t"
    using pad_zeros_nonneg(2) [OF r] q0 r(1) by simp
  show ?thesis
    using e s d v pad_zeros_nonneg(1) [OF r]
    by (intro exI [of _ "show_nat (nat ?q)"] exI [of _ "pad_zeros 9 ?r"]) simp
qed

theorem ToString_readable_witness:
  "\<exists>s f. ToString (Timestamp 1555062141000000042) = s @ ''.'' @ f \<and> length f = 9 \<and>
     int (nat_of_digits s) * 1000000000 + int (nat_of_digits f) = 1555062141000000042"
proof -
  have "0 \<le> nanos (Timestamp 1555062141000000042)" by simp
  from ToString_readable [OF this] show ?thesis by auto
qed

end
