(* ===== verification/Fstream.thy ===== *)
theory Fstream
  imports Prelude
begin

text \<open>
  The part of \<open>std::fstream\<close> and of the file system the bag uses, with the standard library's
  behaviour: one file position for reading and writing, the state bits \<open>eofbit\<close> and
  \<open>failbit\<close> (\<open>badbit\<close> is not told apart from \<open>failbit\<close>, as \<open>operator!\<close> does not), an
  append mode whose writes go to the end. A disk maps names to contents, says which names can
  be created, and bounds the size of a file: the write that would pass the bound fails and stores
  nothing. While a file is open its content is in the stream; \<open>close\<close> stores it on the disk.
\<close>

record disk =
  files :: "string \<Rightarrow> string option"
  creatable :: "string \<Rightarrow> bool"
  quota :: nat

record fstream =
  is_open :: bool
  f_name :: string
  f_data :: string
  f_pos :: nat
  f_eof :: bool
  f_fail :: bool
  f_in :: bool
  f_out :: bool
  f_app :: bool
  f_quota :: nat

definition fstream_default :: fstream where
  "fstream_default = \<lparr>is_open = False, f_name = [], f_data = [], f_pos = 0, f_eof = False,
     f_fail = False, f_in = False, f_out = False, f_app = False, f_quota = 0\<rparr>"

definition fs_good :: "fstream \<Rightarrow> bool" where
  "fs_good f \<longleftrightarrow> \<not> f_eof f \<and> \<not> f_fail f"

definition set_fail :: "fstream \<Rightarrow> fstream" where
  "set_fail f = f\<lparr>f_fail := True\<rparr>"

section \<open>Opening and closing\<close>

datatype open_mode = OpenIn | OpenOut | OpenInOutApp

definition fs_open :: "string \<Rightarrow> open_mode \<Rightarrow> fstream \<times> disk \<Rightarrow> fstream \<times> disk" where
  "fs_open name mode = (\<lambda>(f, d).
     let opened = (\<lambda>data. f\<lparr>is_open := True, f_name := name, f_data := data, f_pos := 0,
           f_eof := False, f_fail := False, f_in := (mode \<noteq> OpenOut), f_out := (mode \<noteq> OpenIn),
           f_app := (mode = OpenInOutApp), f_quota := quota d\<rparr>)
     in if is_open f then (set_fail f, d)
        else case mode of
          OpenIn \<Rightarrow> (case files d name of None \<Rightarrow> (set_fail f, d) | Some s \<Rightarrow> (opened s, d))
        | OpenOut \<Rightarrow>
            if creatable d name then (opened [], d\<lparr>files := (files d)(name \<mapsto> [])\<rparr>)
            else (set_fail f, d)
        | OpenInOutApp \<Rightarrow>
            (case files d name of
               Some s \<Rightarrow> (opened s, d)
             | None \<Rightarrow>
                 if creatable d name then (opened [], d\<lparr>files := (files d)(name \<mapsto> [])\<rparr>)
                 else (set_fail f, d)))"

definition fs_close :: "fstream \<times> disk \<Rightarrow> fstream \<times> disk" where
  "fs_close = (\<lambda>(f, d).
     if is_open f then
       (f\<lparr>is_open := False\<rparr>,
        if f_out f then d\<lparr>files := (files d)(f_name f \<mapsto> f_data f)\<rparr> else d)
     else (set_fail f, d))"

definition fs_rename :: "string \<Rightarrow> string \<Rightarrow> disk \<Rightarrow> disk" where
  "fs_rename old new d =
     (case files d old of
        None \<Rightarrow> d
      | Some s \<Rightarrow> if old = new then d else d\<lparr>files := (files d)(old := None, new := Some s)\<rparr>)"

definition fs_unlink :: "string \<Rightarrow> disk \<Rightarrow> int \<times> disk" where
  "fs_unlink name d =
     (case files d name of None \<Rightarrow> (-1, d) | Some _ \<Rightarrow> (0, d\<lparr>files := (files d)(name := None)\<rparr>))"

section \<open>Writing\<close>

definition overwrite :: "nat \<Rightarrow> string \<Rightarrow> string \<Rightarrow> string" where
  "overwrite i s v = take i v @ replicate (i - length v) (CHR 0x00) @ s @ drop (i + length s) v"

definition fs_write :: "string \<Rightarrow> fstream \<Rightarrow> fstream" where
  "fs_write s f =
     (if \<not> fs_good f then set_fail f
      else if \<not> is_open f \<or> \<not> f_out f then set_fail f
      else let p = (if f_app f then length (f_data f) else f_pos f)
           in if f_quota f < p + length s then set_fail f
              else f\<lparr>f_data := overwrite p s (f_data f), f_pos := p + length s\<rparr>)"

definition fs_tellp :: "fstream \<Rightarrow> int" where
  "fs_tellp f = (if f_fail f \<or> \<not> is_open f then -1 else int (f_pos f))"

definition fs_seekp :: "int \<Rightarrow> fstream \<Rightarrow> fstream" where
  "fs_seekp p f =
     (if f_fail f then f
      else if \<not> is_open f \<or> p < 0 then set_fail f
      else f\<lparr>f_pos := nat p\<rparr>)"

definition fs_seekp_end :: "fstream \<Rightarrow> fstream" where
  "fs_seekp_end f = fs_seekp (int (length (f_data f))) f"

section \<open>Reading\<close>

definition fs_tellg :: "fstream \<Rightarrow> int \<times> fstream" where
  "fs_tellg f =
     (let f' = (if fs_good f then f else set_fail f)
      in (if f_fail f' \<or> \<not> is_open f' then -1 else int (f_pos f'), f'))"

definition fs_seekg :: "int \<Rightarrow> fstream \<Rightarrow> fstream" where
  "fs_seekg p f =
     (let f' = f\<lparr>f_eof := False\<rparr>
      in if f_fail f' then f'
         else if \<not> is_open f' \<or> p < 0 then set_fail f'
         else f'\<lparr>f_pos := nat p\<rparr>)"

definition fs_seekg_end :: "fstream \<Rightarrow> fstream" where
  "fs_seekg_end f = fs_seekg (int (length (f_data f))) f"

definition fs_read :: "nat \<Rightarrow> fstream \<Rightarrow> string \<times> fstream" where
  "fs_read n f =
     (if \<not> fs_good f then ([], set_fail f)
      else if \<not> is_open f \<or> \<not> f_in f then ([], f\<lparr>f_eof := True, f_fail := True\<rparr>)
      else let s = take n (drop (f_pos f) (f_data f)); f' = f\<lparr>f_pos := f_pos f + length s\<rparr>
           in (s, if length s < n then f'\<lparr>f_eof := True, f_fail := True\<rparr> else f'))"

text \<open>
  \<open>std::getline\<close>: up to the next line feed, which is taken and not stored; at the end of
  the file the end-of-file bit is set, and the fail bit too when nothing was taken.
\<close>

definition fs_getline :: "fstream \<Rightarrow> string \<times> fstream" where
  "fs_getline f =
     (if \<not> fs_good f then ([], set_fail f)
      else if \<not> is_open f \<or> \<not> f_in f then ([], f\<lparr>f_eof := True, f_fail := True\<rparr>)
      else let rest = drop (f_pos f) (f_data f);
               line = takeWhile (\<lambda>c. c \<noteq> CHR 0x0A) rest
           in if length line < length rest
              then (line, f\<lparr>f_pos := f_pos f + length line + 1\<rparr>)
              else (line, f\<lparr>f_pos := f_pos f + length line, f_eof := True, f_fail := (line = [])\<rparr>))"

section \<open>Appending to a file that is open for writing\<close>

text \<open>
  What a writer relies on: while the sink is ready and the bytes fit, a write extends the data
  and leaves the sink ready. The stream and, above it, the bag both keep this contract.
\<close>

locale append_sink =
  fixes ready :: "'s \<Rightarrow> bool"
    and data :: "'s \<Rightarrow> string"
    and capacity :: "'s \<Rightarrow> nat"
    and emit :: "string \<Rightarrow> 's \<Rightarrow> 's"
  assumes emit_ready: "ready s \<Longrightarrow> length (data s) + length x \<le> capacity s \<Longrightarrow> ready (emit x s)"
    and emit_data: "ready s \<Longrightarrow> length (data s) + length x \<le> capacity s \<Longrightarrow> data (emit x s) = data s @ x"
    and emit_capacity: "ready s \<Longrightarrow> length (data s) + length x \<le> capacity s \<Longrightarrow> capacity (emit x s) = capacity s"
begin

lemma emit_all:
  assumes "ready s" and "length (data s) + length (concat xs) \<le> capacity s"
  shows "ready (fold emit xs s) \<and> data (fold emit xs s) = data s @ concat xs \<and>
    capacity (fold emit xs s) = capacity s"
  using assms
proof (induction xs arbitrary: s)
  case Nil
  then show ?case by simp
next
  case (Cons x xs)
  have fit: "length (data s) + length x \<le> capacity s" using Cons.prems(2) by simp
  note w = emit_ready [OF Cons.prems(1) fit] emit_data [OF Cons.prems(1) fit]
    emit_capacity [OF Cons.prems(1) fit]
  from Cons.IH [OF w(1)] Cons.prems(2) w show ?case by simp
qed

end

definition fs_ready :: "fstream \<Rightarrow> bool" where
  "fs_ready f \<longleftrightarrow> is_open f \<and> fs_good f \<and> f_out f \<and> f_pos f = length (f_data f)"

lemma overwrite_end [simp]: "overwrite (length v) s v = v @ s"
  by (simp add: overwrite_def)

lemma fs_write_ready:
  assumes "fs_ready f" and "length (f_data f) + length s \<le> f_quota f"
  shows "fs_write s f = f\<lparr>f_data := f_data f @ s, f_pos := length (f_data f) + length s\<rparr>"
  using assms by (simp add: fs_write_def fs_ready_def Let_def)

interpretation stream: append_sink fs_ready f_data f_quota fs_write
  by unfold_locales (auto simp: fs_write_ready, auto simp: fs_ready_def fs_good_def fs_write_def
      Let_def set_fail_def)

end
