(* ===== verification/Bag.thy ===== *)
theory Bag
  imports Header Timestamps Fstream
begin

text \<open>
  \<open>src/storage/bag.h\<close> and \<open>bag.cpp\<close>: the bag file. The class is a record; an operation maps
  the bag (and, where it opens or closes the file, the disk) to a result and the new state, so a
  thrown exception keeps the state the code had reached. \<open>Timestamp::Now()\<close> is an argument.
  The \<open>uint64_t\<close> members are 64-bit words, as the position \<open>-1\<close> a failed \<open>tellg\<close>
  returns ends up in them.
\<close>

section \<open>Data\<close>

datatype CompressionType = Uncompressed | BZ2 | LZ4

record message_record =
  timestamp_ns :: timestamp
  topic :: string
  serialized_msg :: string

definition MessageRecord :: "64 word \<Rightarrow> string \<Rightarrow> string \<Rightarrow> message_record" where
  "MessageRecord t tp m = \<lparr>timestamp_ns = Timestamp t, topic = tp, serialized_msg = m\<rparr>"

definition message_record_less :: "message_record \<Rightarrow> message_record \<Rightarrow> bool" where
  "message_record_less a b \<longleftrightarrow> ts_less (timestamp_ns a) (timestamp_ns b)"

text \<open>\<open>BagRecordsType\<close>, a multimap from time to record.\<close>

type_synonym bag_records = "(timestamp \<times> message_record) list"

definition BagMode_Write :: "32 word" where "BagMode_Write = 1"
definition BagMode_Read :: "32 word" where "BagMode_Read = 2"
definition BagMode_Append :: "32 word" where "BagMode_Append = 4"

definition VERSION :: string where "VERSION = ''1.0''"

record bag =
  filename :: string
  filestream :: fstream
  file_size :: "64 word"
  mode :: "32 word"
  offset :: "64 word"
  file_header_pos :: "64 word"
  version :: int
  compression :: CompressionType
  chunk_threshold :: "32 word"
  index_data_pos :: "64 word"
  start_timestamp :: "64 word"
  end_timestamp :: "64 word"
  msg_count :: "32 word"
  records :: bag_records

type_synonym 'a bag_result = "'a res \<times> bag"

definition bind_bag :: "'a res \<times> 's \<Rightarrow> ('a \<Rightarrow> 's \<Rightarrow> 'b res \<times> 's) \<Rightarrow> 'b res \<times> 's" where
  "bind_bag m f = (case m of (Inl e, s) \<Rightarrow> (Inl e, s) | (Inr a, s) \<Rightarrow> f a s)"

lemma bind_bag_simps [simp]:
  "bind_bag (Inl e, s) f = (Inl e, s)"
  "bind_bag (Inr a, s) f = f a s"
  by (simp_all add: bind_bag_def)

lemma bind_bag_cong [fundef_cong]:
  assumes "m = m'" and "\<And>a s. m' = (Inr a, s) \<Longrightarrow> f a s = g a s"
  shows "bind_bag m f = bind_bag m' g"
  using assms by (cases m'; cases "fst m'") auto

definition throw_if :: "bool \<Rightarrow> error \<Rightarrow> 's \<Rightarrow> unit res \<times> 's" where
  "throw_if c e s = (if c then (Inl e, s) else (Inr (), s))"

lemma throw_if_simps [simp]:
  "throw_if True e s = (Inl e, s)" "throw_if False e s = (Inr (), s)"
  by (simp_all add: throw_if_def)

section \<open>Construction and accessors\<close>

definition Bag_Init :: "bag \<Rightarrow> bag" where
  "Bag_Init b = b\<lparr>filename := [], file_size := 0, mode := BagMode_Write, offset := 0,
     file_header_pos := 0, version := 0, compression := Uncompressed, chunk_threshold := 0,
     index_data_pos := 0, start_timestamp := 0, end_timestamp := 0, msg_count := 0\<rparr>"

definition Bag_new :: bag where
  "Bag_new = Bag_Init \<lparr>filename = [], filestream = fstream_default, file_size = 0, mode = 0,
     offset = 0, file_header_pos = 0, version = 0, compression = Uncompressed, chunk_threshold = 0,
     index_data_pos = 0, start_timestamp = 0, end_timestamp = 0, msg_count = 0, records = []\<rparr>"

definition SetCompression :: "CompressionType \<Rightarrow> bag \<Rightarrow> bag" where
  "SetCompression c b = b\<lparr>compression := c\<rparr>"

definition SetChunkThreshold :: "int \<Rightarrow> bag \<Rightarrow> bag" where
  "SetChunkThreshold n b = b\<lparr>chunk_threshold := word_of_int n\<rparr>"

text \<open>\<open>int GetSize()\<close> truncates the 64-bit size.\<close>

definition GetSize :: "bag \<Rightarrow> int" where
  "GetSize b = sint (ucast (file_size b) :: 32 word)"

definition GetFileName :: "bag \<Rightarrow> string" where
  "GetFileName b = filename b"

definition getMajorVersion :: "bag \<Rightarrow> int" where
  "getMajorVersion b = version b sdiv 100"

definition getMinorVersion :: "bag \<Rightarrow> int" where
  "getMinorVersion b = version b smod 100"

section \<open>Writing\<close>

definition UpdateFileInfo :: "bag \<Rightarrow> unit bag_result" where
  "UpdateFileInfo b =
     (if f_fail (filestream b) then (Inl (MsgbagException ''Bag file get UpdateFileSize error.''), b)
      else
        (let off = word_of_int (fs_tellp (filestream b)) :: 64 word;
             s1 = fs_seekp_end (filestream b);
             size = word_of_int (fs_tellp s1);
             s2 = fs_seekp (sint off) s1
         in (Inr (), b\<lparr>offset := off, file_size := size, filestream := s2\<rparr>)))"

definition Bag_Write :: "string \<Rightarrow> bag \<Rightarrow> unit bag_result" where
  "Bag_Write s b =
     (if f_fail (filestream b) then (Inl (MsgbagException ''Bag write file is not opened.''), b)
      else UpdateFileInfo (b\<lparr>filestream := fs_write s (filestream b)\<rparr>))"

text \<open>\<open>version_ = std::stof(VERSION) * 100 / 100\<close>, converted to \<open>int\<close>.\<close>

definition stof_VERSION :: rat where "stof_VERSION = 1"

definition WriteVersion :: "bag \<Rightarrow> unit bag_result" where
  "WriteVersion b =
     (let ver = ''#MSGBAG V'' @ VERSION @ [CHR 0x0A]
      in Bag_Write ver (b\<lparr>version := truncate_rat (stof_VERSION * 100 / 100)\<rparr>))"

definition bag_header :: "bag \<Rightarrow> header" where
  "bag_header b =
     map_put MSG_COUNT_FIELD_NAME (show_nat (unat (msg_count b)))
      (map_put END_TIMESTAMP_FIELD_NAME (show_int (sint (end_timestamp b)))
        (map_put START_TIMESTAMP_FIELD_NAME (show_int (sint (start_timestamp b)))
          (map_put OP_FIELD_NAME (HexToString (word_of_nat FILE_HEADER)) [])))"

definition header_record :: "header \<Rightarrow> string res" where
  "header_record h =
     bind_res (Buffer_new 1024) (\<lambda>buffer.
     bind_res (WriteHeader h buffer) (\<lambda>(header_len, buffer).
       let data_len = (if unat header_len < FILE_HEADER_LEN then FILE_HEADER_LEN - unat header_len else 0)
       in bind_res (if 0 < data_len then append_bytes (replicate data_len (CHR '' '')) buffer else Inr buffer)
            (\<lambda>buffer. Inr (contents buffer))))"

definition WriteHeaderRecord :: "bag \<Rightarrow> unit bag_result" where
  "WriteHeaderRecord b =
     (case header_record (bag_header b) of
        Inl e \<Rightarrow> (Inl e, b)
      | Inr bytes \<Rightarrow>
          (let s = fs_write bytes (filestream b)
           in (Inr (), b\<lparr>filestream := s, offset := word_of_int (fs_tellp s)\<rparr>)))"

definition StartWriting :: "timestamp \<Rightarrow> bag \<Rightarrow> unit bag_result" where
  "StartWriting now b =
     bind_bag (WriteVersion b) (\<lambda>_ b.
     bind_bag (WriteHeaderRecord (b\<lparr>file_header_pos := offset b\<rparr>)) (\<lambda>_ b.
       (Inr (), b\<lparr>index_data_pos := offset b, start_timestamp := NanoSecondsSinceEpoch now\<rparr>)))"

definition StopWriting :: "timestamp \<Rightarrow> bag \<Rightarrow> unit bag_result" where
  "StopWriting now b =
     (let s = fs_seekp (sint (file_header_pos b)) (fs_seekp_end (filestream b))
      in WriteHeaderRecord (b\<lparr>index_data_pos := offset b, filestream := s,
           end_timestamp := NanoSecondsSinceEpoch now\<rparr>))"

definition CloseWrite :: "timestamp \<Rightarrow> bag \<Rightarrow> unit bag_result" where
  "CloseWrite = StopWriting"

section \<open>Reading\<close>

text \<open>\<open>sscanf(line, "#MSGBAG V%d.%d", ...) == 2\<close>.\<close>

fun match_literal :: "string \<Rightarrow> string \<Rightarrow> string option" where
  "match_literal [] s = Some s"
| "match_literal (c # cs) [] = None"
| "match_literal (c # cs) (d # ds) = (if c = d then match_literal cs ds else None)"

definition scan_version :: "string \<Rightarrow> (int \<times> int) option" where
  "scan_version line =
     Option.bind (match_literal ''#MSGBAG'' line) (\<lambda>s.
     Option.bind (match_literal ''V'' (dropWhile is_space s)) (\<lambda>s.
     Option.bind (scan_int s) (\<lambda>(major, s).
     Option.bind (match_literal ''.'' s) (\<lambda>s.
     map_option (\<lambda>(minor, _). (major, minor)) (scan_int s)))))"

definition ReadVersion :: "bag \<Rightarrow> unit bag_result" where
  "ReadVersion b =
     (let (version_line, s) = fs_getline (filestream b);
          (p, s) = fs_tellg s;
          b = b\<lparr>filestream := s, offset := word_of_int p\<rparr>
      in case scan_version version_line of
           None \<Rightarrow> (Inl (MsgbagException ''Error reading version line''), b)
         | Some (version_major, version_minor) \<Rightarrow>
             (Inr (), b\<lparr>version := sint (word_of_int (version_major * 100 + version_minor) :: 32 word)\<rparr>))"

definition CheckEnoughDataToRead :: "64 word \<Rightarrow> bag \<Rightarrow> bool \<times> bag" where
  "CheckEnoughDataToRead n b =
     (let (p, s) = fs_tellg (filestream b);
          b = b\<lparr>filestream := s, offset := word_of_int p\<rparr>;
          ret = (n < file_size b - offset b)
      in (ret, if ret then b else b\<lparr>offset := file_size b, filestream := fs_seekg_end (filestream b)\<rparr>))"

text \<open>A read into a variable that held zero: the bytes that came overwrite its low end.\<close>

definition read_word :: "bag \<Rightarrow> 64 word \<times> bag" where
  "read_word b =
     (let (s, f) = fs_read 8 (filestream b)
      in (word_le (s @ replicate (8 - length s) (CHR 0x00)), b\<lparr>filestream := f\<rparr>))"

definition tell_offset :: "bag \<Rightarrow> bag" where
  "tell_offset b =
     (let (p, s) = fs_tellg (filestream b) in b\<lparr>filestream := s, offset := word_of_int p\<rparr>)"

text \<open>The early return \<open>if (!CheckEnoughDataToRead(n)) return;\<close>.\<close>

definition require_data :: "64 word \<Rightarrow> bag \<Rightarrow> (bag \<Rightarrow> unit bag_result) \<Rightarrow> unit bag_result" where
  "require_data n b rest =
     (if fst (CheckEnoughDataToRead n b) then rest (snd (CheckEnoughDataToRead n b))
      else (Inr (), snd (CheckEnoughDataToRead n b)))"

text \<open>The three stretches of \<open>ReadTopicIndexRecord100\<close> between the checks: the last one reads
  the message into the buffer and inserts the record.\<close>

definition store_record :: "64 word \<Rightarrow> 64 word \<Rightarrow> string \<Rightarrow> buffer \<Rightarrow> bag \<Rightarrow> unit bag_result" where
  "store_record msg_size time_stamp tp buf b =
     (let (bytes, f) = fs_read (unat msg_size) (filestream b)
      in bind_bag (hasWritten (unat msg_size) (poke bytes buf), b\<lparr>filestream := f\<rparr>) (\<lambda>buf b.
        let msg = slice (readerIndex buf) (readerIndex buf + unat msg_size) (vec buf)
        in (Inr (), (tell_offset b)\<lparr>records :=
             mm_insert (Timestamp time_stamp) (MessageRecord time_stamp tp msg) (records b)\<rparr>)))"

definition read_message :: "64 word \<Rightarrow> bag \<Rightarrow> unit bag_result" where
  "read_message msg_size b =
     (let (time_stamp, b) = read_word b;
          (tp, f) = fs_getline (filestream b)
      in bind_bag (Buffer_new (unat msg_size), b\<lparr>filestream := f\<rparr>) (\<lambda>buf b.
        require_data msg_size b (store_record msg_size time_stamp tp buf)))"

definition ReadTopicIndexRecord100 :: "bag \<Rightarrow> unit bag_result" where
  "ReadTopicIndexRecord100 b =
     require_data 8 (tell_offset b) (\<lambda>b.
       let (msg_size, b) = read_word b
       in require_data 8 (tell_offset b) (read_message msg_size))"

definition ReadHeaderRecord :: "bag \<Rightarrow> unit bag_result" where
  "ReadHeaderRecord b =
     (let total_size = FILE_HEADER_LEN + 4
      in bind_bag (Buffer_new total_size, b) (\<lambda>buffer b.
      let (bytes, f) = fs_read total_size (filestream b);
          b = b\<lparr>filestream := f\<rparr>
      in bind_bag (hasWritten total_size (poke bytes buffer), b) (\<lambda>buffer b.
      let b = tell_offset b;
          b = b\<lparr>index_data_pos := offset b\<rparr>
      in bind_bag (ReadHeader [] buffer, b) (\<lambda>_ b. (Inr (), tell_offset b)))))"

section \<open>The read loop\<close>

lemma fs_good_tellg:
  "fst (fs_tellg f) \<noteq> -1 \<Longrightarrow> fs_good f \<and> snd (fs_tellg f) = f \<and> fst (fs_tellg f) = int (f_pos f)"
  by (auto simp: fs_tellg_def Let_def set_fail_def split: if_splits)

lemma fs_tellg_snd [simp]:
  "f_data (snd (fs_tellg f)) = f_data f" "f_pos (snd (fs_tellg f)) = f_pos f"
  "fs_good (snd (fs_tellg f)) \<longleftrightarrow> fs_good f"
  by (auto simp: fs_tellg_def Let_def set_fail_def fs_good_def)

lemma fs_read_good:
  "fs_good (snd (fs_read n f)) \<Longrightarrow>
     fs_good f \<and> f_pos (snd (fs_read n f)) = f_pos f + n \<and>
     (0 < n \<longrightarrow> f_pos f + n \<le> length (f_data f)) \<and> length (fst (fs_read n f)) = n"
  by (auto simp: fs_read_def Let_def set_fail_def fs_good_def split: if_splits)

lemma fs_read_data [simp]: "f_data (snd (fs_read n f)) = f_data f"
  by (simp add: fs_read_def Let_def set_fail_def)

lemma fs_getline_good:
  "fs_good (snd (fs_getline f)) \<Longrightarrow>
     fs_good f \<and> f_pos f < f_pos (snd (fs_getline f)) \<and>
     f_pos (snd (fs_getline f)) \<le> length (f_data f)"
  by (auto simp: fs_getline_def Let_def set_fail_def fs_good_def split: if_splits)

lemma fs_getline_data [simp]: "f_data (snd (fs_getline f)) = f_data f"
  by (simp add: fs_getline_def Let_def set_fail_def)

lemma tell_offset_simps [simp]:
  "filestream (tell_offset b) = snd (fs_tellg (filestream b))"
  "offset (tell_offset b) = word_of_int (fst (fs_tellg (filestream b)))"
  "file_size (tell_offset b) = file_size b" "records (tell_offset b) = records b"
  "index_data_pos (tell_offset b) = index_data_pos b" "mode (tell_offset b) = mode b"
  by (simp_all add: tell_offset_def split_beta)

lemma CheckEnough_file_size [simp]:
  "file_size (snd (CheckEnoughDataToRead n b)) = file_size b"
  "f_data (filestream (snd (CheckEnoughDataToRead n b))) = f_data (filestream b)"
  by (auto simp: CheckEnoughDataToRead_def split_beta Let_def fs_seekg_end_def fs_seekg_def set_fail_def)

lemma CheckEnough_no:
  "\<not> fst (CheckEnoughDataToRead n b) \<Longrightarrow> offset (snd (CheckEnoughDataToRead n b)) = file_size b"
  by (simp add: CheckEnoughDataToRead_def split_beta Let_def split: if_splits)

lemma CheckEnough_yes:
  "fst (CheckEnoughDataToRead n b) \<Longrightarrow>
     filestream (snd (CheckEnoughDataToRead n b)) = snd (fs_tellg (filestream b))"
  by (simp add: CheckEnoughDataToRead_def split_beta Let_def split: if_splits)

lemma read_word_simps [simp]:
  "filestream (snd (read_word b)) = snd (fs_read 8 (filestream b))"
  "file_size (snd (read_word b)) = file_size b"
  by (simp_all add: read_word_def split_beta Let_def)

lemma require_data_more:
  assumes "require_data n b rest = (Inr u, b')" and "offset b' < file_size b'"
  obtains b1 where "rest b1 = (Inr u, b')" and "filestream b1 = snd (fs_tellg (filestream b))"
    and "file_size b1 = file_size b"
proof (cases "fst (CheckEnoughDataToRead n b)")
  case True
  with assms(1) that show ?thesis by (simp add: require_data_def CheckEnough_yes)
next
  case False
  with assms show ?thesis by (auto simp: require_data_def dest: CheckEnough_no)
qed

text \<open>
  A round that lets the loop go on has moved the file position forward inside the file: the last
  \<open>tellg\<close> of the round succeeded, so every read before it did.
\<close>

lemma store_record_more:
  assumes r: "store_record n ts tp buf b = (Inr u, b')" and more: "offset b' < file_size b'"
  shows "fs_good (filestream b) \<and> f_pos (filestream b) \<le> f_pos (filestream b') \<and>
    (n \<noteq> 0 \<longrightarrow> f_pos (filestream b') \<le> length (f_data (filestream b'))) \<and>
    (n = 0 \<longrightarrow> f_pos (filestream b') = f_pos (filestream b)) \<and>
    f_data (filestream b') = f_data (filestream b)"
proof -
  let ?f = "snd (fs_read (unat n) (filestream b))"
  have off: "offset b' = word_of_int (fst (fs_tellg ?f))" and f: "filestream b' = snd (fs_tellg ?f)"
    using r by (cases "hasWritten (unat n) (poke (fst (fs_read (unat n) (filestream b))) buf)";
        auto simp: store_record_def Let_def split_beta)+
  have "\<not> (-1 :: 64 word) < file_size b'" by (simp add: not_less)
  with more off have "fst (fs_tellg ?f) \<noteq> -1" by auto
  from fs_good_tellg [OF this] have "fs_good ?f" by simp
  from fs_read_good [OF this] f show ?thesis by (auto simp: unat_gt_0)
qed

lemma read_message_more:
  assumes r: "read_message n b = (Inr u, b')" and more: "offset b' < file_size b'"
  shows "fs_good (filestream b) \<and> f_pos (filestream b) < f_pos (filestream b') \<and>
    f_pos (filestream b') \<le> length (f_data (filestream b')) \<and>
    f_data (filestream b') = f_data (filestream b)"
proof -
  define ts where "ts = fst (read_word b)"
  define f where "f = snd (fs_read 8 (filestream b))"
  obtain buf where "Buffer_new (unat n) = Inr buf"
    using r by (cases "Buffer_new (unat n)") (auto simp: read_message_def Let_def split_beta)
  with r have r': "require_data n ((snd (read_word b))\<lparr>filestream := snd (fs_getline f)\<rparr>)
      (store_record n ts (fst (fs_getline f)) buf) = (Inr u, b')"
    by (simp add: read_message_def Let_def split_beta ts_def f_def)
  from require_data_more [OF r' more] obtain b1 where
    1: "store_record n ts (fst (fs_getline f)) buf b1 = (Inr u, b')"
    and s1: "filestream b1 = snd (fs_tellg (snd (fs_getline f)))" by auto
  note s = store_record_more [OF 1 more]
  then have "fs_good (snd (fs_getline f))" using s1 by simp
  note g = fs_getline_good [OF this]
  then have "fs_good (snd (fs_read 8 (filestream b)))" by (simp add: f_def)
  from fs_read_good [OF this] g s s1 show ?thesis by (cases "n = 0") (auto simp: f_def)
qed

lemma ReadTopicIndexRecord100_progress:
  assumes r: "ReadTopicIndexRecord100 b = (Inr u, b')" and more: "offset b' < file_size b'"
  shows "f_pos (filestream b) < f_pos (filestream b') \<and>
    f_pos (filestream b') \<le> length (f_data (filestream b')) \<and>
    f_data (filestream b') = f_data (filestream b)"
proof -
  from require_data_more [OF r [unfolded ReadTopicIndexRecord100_def] more] obtain b1 where
    1: "require_data 8 (tell_offset (snd (read_word b1))) (read_message (fst (read_word b1))) = (Inr u, b')"
    and s1: "filestream b1 = snd (fs_tellg (snd (fs_tellg (filestream b))))"
    by (auto simp: Let_def split_beta)
  from require_data_more [OF 1 more] obtain b2 where
    2: "read_message (fst (read_word b1)) b2 = (Inr u, b')"
    and s2: "filestream b2 = snd (fs_tellg (snd (fs_tellg (snd (fs_read 8 (filestream b1))))))"
    by auto
  note m = read_message_more [OF 2 more]
  then have "fs_good (snd (fs_read 8 (filestream b1)))" using s2 by simp
  from fs_read_good [OF this] m s1 s2 show ?thesis by auto
qed

text \<open>
  \<open>while (offset_ < file_size_) ReadTopicIndexRecord100();\<close> -- total by the progress lemma.
\<close>

function read_records :: "bag \<Rightarrow> unit bag_result" where
  "read_records b =
     (if offset b < file_size b
      then bind_bag (ReadTopicIndexRecord100 b) (\<lambda>_ b. read_records b)
      else (Inr (), b))"
  by pat_completeness auto
termination
proof (relation "measure (\<lambda>b. if offset b < file_size b
    then Suc (length (f_data (filestream b)) - f_pos (filestream b)) else 0)", goal_cases)
  case 1
  show ?case by simp
next
  case (2 b u b')
  then show ?case
    using ReadTopicIndexRecord100_progress [of b u b'] by auto
qed

declare read_records.simps [simp del]

definition StartReadingVersion100 :: "bag \<Rightarrow> unit bag_result" where
  "StartReadingVersion100 b =
     bind_bag (ReadHeaderRecord b) (\<lambda>_ b.
       let (p, s) = fs_tellg (fs_seekg_end (filestream b));
           b = b\<lparr>file_size := word_of_int p, filestream := fs_seekg (sint (index_data_pos b)) s\<rparr>
       in bind_bag (read_records b) (\<lambda>_ b.
            (Inr (), b\<lparr>filestream := fs_seekg 0 (filestream b)\<rparr>)))"

section \<open>Opening and closing\<close>

text \<open>The operations that reach the disk carry it beside the bag.\<close>

type_synonym bag_disk = "bag \<times> disk"

definition with_disk :: "unit bag_result \<Rightarrow> disk \<Rightarrow> unit res \<times> bag_disk" where
  "with_disk r d = (fst r, (snd r, d))"

definition open_stream :: "string \<Rightarrow> open_mode \<Rightarrow> bag_disk \<Rightarrow> bag_disk" where
  "open_stream name m = (\<lambda>(b, d). let (f, d') = fs_open name m (filestream b, d) in (b\<lparr>filestream := f\<rparr>, d'))"

definition close_stream :: "bag_disk \<Rightarrow> bag_disk" where
  "close_stream = (\<lambda>(b, d). let (f, d') = fs_close (filestream b, d) in (b\<lparr>filestream := f\<rparr>, d'))"

definition OpenWrite :: "timestamp \<Rightarrow> string \<Rightarrow> bag_disk \<Rightarrow> unit res \<times> bag_disk" where
  "OpenWrite now name bd =
     (let (b, d) = open_stream name OpenOut bd
      in bind_bag (throw_if (f_fail (filestream b))
             (MsgbagException (''bag openreadwrite open file error,filename:'' @ name)) (b, d))
           (\<lambda>_ (b, d). with_disk (StartWriting now b) d))"

definition OpenReadWrite :: "string \<Rightarrow> bag_disk \<Rightarrow> unit res \<times> bag_disk" where
  "OpenReadWrite name bd =
     (let (b, d) = open_stream name OpenIn bd
      in bind_bag (throw_if (f_fail (filestream b))
             (MsgbagException (''File not exist :'' @ name)) (b, d)) (\<lambda>_ bd.
      let (b, d) = open_stream name OpenInOutApp (close_stream bd)
      in bind_bag (throw_if (f_fail (filestream b))
             (MsgbagException ''bag openreadwrite open file error.'') (b, d)) (\<lambda>_ (b, d).
      with_disk (ReadVersion b) d)))"

definition OpenRead :: "string \<Rightarrow> bag_disk \<Rightarrow> unit res \<times> bag_disk" where
  "OpenRead name bd =
     (let (b, d) = open_stream name OpenIn bd
      in bind_bag (throw_if (f_fail (filestream b))
             (MsgbagException (''Bag::OpenRead file:'' @ name @ '' failed.'')) (b, d)) (\<lambda>_ (b, d).
      with_disk
        (bind_bag (UpdateFileInfo (b\<lparr>filename := name\<rparr>)) (\<lambda>_ b.
         bind_bag (ReadVersion b) (\<lambda>_ b.
         let b = b\<lparr>file_header_pos := offset b\<rparr>
         in if version b = 100 then StartReadingVersion100 b
            else (Inl (MsgbagException (''unsuported bag file version:'' @ show_int (version b))), b)))) d))"

definition has_mode :: "32 word \<Rightarrow> 32 word \<Rightarrow> bool" where
  "has_mode m flag \<longleftrightarrow> and m flag \<noteq> 0"

definition Bag_Open :: "timestamp \<Rightarrow> string \<Rightarrow> 32 word \<Rightarrow> bag_disk \<Rightarrow> unit res \<times> bag_disk" where
  "Bag_Open now name m bd =
     (let (b, d) = bd; b = b\<lparr>mode := m\<rparr>
      in bind_bag (throw_if (is_open (filestream b))
             (MsgbagException (''File already open '' @ filename b)) (b, d)) (\<lambda>_ bd.
      bind_bag
        (if has_mode m BagMode_Append then OpenReadWrite name bd
         else if has_mode m BagMode_Write then OpenWrite now name bd
         else if has_mode m BagMode_Read then OpenRead name bd
         else (Inl (MsgbagException (''Unknown mode:'' @ show_nat (unat m))), bd)) (\<lambda>_ (b, d).
      bind_bag (throw_if (f_fail (filestream b))
             (MsgbagException (''bag open file error.'' @ name)) (b, d)) (\<lambda>_ (b, d).
      with_disk (UpdateFileInfo (b\<lparr>filename := name\<rparr>)) d))))"

definition Bag_Close :: "timestamp \<Rightarrow> bag_disk \<Rightarrow> unit res \<times> bag_disk" where
  "Bag_Close now bd =
     (if \<not> is_open (filestream (fst bd)) then (Inr (), bd)
      else bind_bag
        (if has_mode (mode (fst bd)) BagMode_Write \<or> has_mode (mode (fst bd)) BagMode_Append
         then with_disk (CloseWrite now (fst bd)) (snd bd) else (Inr (), bd))
        (\<lambda>_ bd. let (b, d) = close_stream bd in (Inr (), (Bag_Init b, d))))"

end
