(* ===== verification/BagFormat.thy ===== *)
theory BagFormat
  imports Bag
begin

text \<open>
  The layout of a bag file and the correctness of writing and reading it. A finished bag is the
  version line, a header record of exactly 1028 bytes, and the records the recorder wrote, in
  order. The writing lemmas rest on the interface \<open>append_sink\<close> of theory Fstream, of which
  \<open>Bag::Write\<close> is a second interpretation; the reading lemmas on the interface
  \<open>ordered_store\<close> of theory Containers.
\<close>

unbundle bit_operations_syntax

section \<open>Layout\<close>

definition version_line :: string where
  "version_line = ''#MSGBAG V1.0'' @ [CHR 0x0A]"

definition header_image :: "header \<Rightarrow> string" where
  "header_image h = header_bytes h @ replicate (FILE_HEADER_LEN - length (header_body h)) (CHR '' '')"

definition record_bytes :: "message_record \<Rightarrow> string" where
  "record_bytes r =
     le_word 8 (word_of_nat (length (serialized_msg r)) :: 64 word) @
     le_word 8 (NanoSecondsSinceEpoch (timestamp_ns r)) @ topic r @ [CHR 0x0A] @ serialized_msg r"

definition final_header :: "64 word \<Rightarrow> 64 word \<Rightarrow> 32 word \<Rightarrow> header" where
  "final_header start stop msgs =
     [(''end_time'', show_int (sint stop)), (''msg_count'', show_nat (unat msgs)),
      (''op'', ''0x01''), (''start_time'', show_int (sint start))]"

lemma length_version_line [simp]: "length version_line = 13"
  by (simp add: version_line_def)

lemma op_value: "HexToString (word_of_nat FILE_HEADER) = ''0x01''"
  by code_simp

lemma bag_header_eq:
  "bag_header b = final_header (start_timestamp b) (end_timestamp b) (msg_count b)"
  by (simp add: bag_header_def final_header_def field_name_defs op_value)

lemma length_show_sint: "length (show_int (sint (w :: 64 word))) \<le> 20"
proof -
  have "\<bar>sint w\<bar> < 10 ^ 19" using sint_range_64 [of w] by auto
  from length_show_int_le [OF this] show ?thesis by simp
qed

lemma length_show_unat: "length (show_nat (unat (w :: 32 word))) \<le> 10"
proof (rule length_show_nat_le)
  have "unat w < 2 ^ 32" using unsigned_less [of w] by simp
  then show "unat w < 10 ^ 10" by simp
qed simp

text \<open>Whatever the times and the msgs are, the fields take at most 103 of the 1024 bytes.\<close>

lemma final_header_short: "length (header_body (final_header start stop msgs)) \<le> 103"
  using length_show_sint [of start] length_show_sint [of stop] length_show_unat [of msgs]
  by (simp add: final_header_def field_text_def)

lemma length_header_image:
  "length (header_body h) \<le> FILE_HEADER_LEN \<Longrightarrow> length (header_image h) = 1028"
  by (simp add: header_image_def FILE_HEADER_LEN_def)

lemma length_final_image [simp]: "length (header_image (final_header start stop msgs)) = 1028"
  using final_header_short [of start stop msgs] by (intro length_header_image) (simp add: FILE_HEADER_LEN_def)

lemma header_record_ok:
  assumes "length (header_body h) \<le> FILE_HEADER_LEN"
  shows "header_record h = Inr (header_image h)"
proof -
  have len: "length (header_body h) \<le> 1024" using assms by (simp add: FILE_HEADER_LEN_def)
  obtain b where b: "Buffer_new 1024 = Inr b" "buf_ok b" "contents b = []"
    "length (vec b) = 1032" "readerIndex b = kCheapPrepend"
    using Buffer_new_ok [of 1024] by (auto simp: kCheapPrepend_def max_vector_def)
  obtain b1 where b1: "WriteHeader h b = Inr (word_of_nat (length (header_body h)), b1)" "buf_ok b1"
    "contents b1 = header_bytes h" "length (vec b1) \<le> 1032 + length (header_body h)"
    using WriteHeader_ok [OF b(2), of h] b(3-5) len by (auto simp: max_vector_def header_bytes_def)
  define pad where "pad = replicate (1024 - length (header_body h)) (CHR '' '')"
  have u: "unat (word_of_nat (length (header_body h)) :: 32 word) = length (header_body h)"
    using len by (intro unat_word_of_nat_small) simp
  have lv: "length (vec b1) \<le> max_vector - 1024" using b1(4) len by (simp add: max_vector_def)
  obtain b2 where b2: "append_bytes pad b1 = Inr b2" "contents b2 = header_bytes h @ pad"
    using bq.put_ok [OF b1(2), of pad] lv b1(3) unfolding max_vector_def by (fastforce simp: pad_def)
  have p: "contents b1 @ pad = header_image h"
    by (simp add: b1(3) header_image_def pad_def FILE_HEADER_LEN_def)
  show ?thesis
    using b(1) b1(1,3) u b2 p len
    by (auto simp: header_record_def pad_def FILE_HEADER_LEN_def Let_def)
qed


section \<open>Writing\<close>

definition bag_data :: "bag \<Rightarrow> string" where
  "bag_data b = f_data (filestream b)"

text \<open>A bag positioned at the end of its file, as every write leaves it.\<close>

definition bag_ready :: "bag \<Rightarrow> bool" where
  "bag_ready b \<longleftrightarrow> fs_ready (filestream b) \<and> f_quota (filestream b) < 2 ^ 63 \<and>
     offset b = word_of_nat (length (bag_data b)) \<and> file_size b = word_of_nat (length (bag_data b))"

definition extended :: "string \<Rightarrow> bag \<Rightarrow> bag" where
  "extended s b =
     (let n = length (bag_data b) + length s
      in b\<lparr>offset := word_of_nat n, file_size := word_of_nat n,
           filestream := (filestream b)\<lparr>f_data := bag_data b @ s, f_pos := n\<rparr>\<rparr>)"

lemma UpdateFileInfo_open:
  assumes "is_open (filestream b)" and "fs_good (filestream b)" and "f_pos (filestream b) < 2 ^ 63"
  shows "UpdateFileInfo b = (Inr (), b\<lparr>offset := word_of_nat (f_pos (filestream b)),
    file_size := word_of_nat (length (bag_data b))\<rparr>)"
proof -
  have "sint (word_of_int (int (f_pos (filestream b))) :: 64 word) = int (f_pos (filestream b))"
    using assms(3) by (intro sint_word_of_int_small) auto
  then show ?thesis
    using assms(1,2)
    by (simp add: UpdateFileInfo_def bag_data_def fs_good_def fs_tellp_def fs_seekp_def
        fs_seekp_end_def Let_def)
qed

lemma UpdateFileInfo_ready:
  assumes "fs_ready (filestream b)" and "length (bag_data b) < 2 ^ 63"
  shows "UpdateFileInfo b = (Inr (),
    b\<lparr>offset := word_of_nat (length (bag_data b)), file_size := word_of_nat (length (bag_data b))\<rparr>)"
  using UpdateFileInfo_open [of b] assms by (simp add: fs_ready_def bag_data_def)

lemma Bag_Write_fs:
  assumes "fs_ready (filestream b)" and "f_quota (filestream b) < 2 ^ 63"
    and "length (bag_data b) + length s \<le> f_quota (filestream b)"
  shows "Bag_Write s b = (Inr (), extended s b)"
proof -
  have w: "fs_write s (filestream b) =
      (filestream b)\<lparr>f_data := bag_data b @ s, f_pos := length (bag_data b) + length s\<rparr>"
    using assms by (simp add: fs_write_ready bag_data_def)
  from assms show ?thesis
    by (subst Bag_Write_def, subst w, subst UpdateFileInfo_ready)
      (simp_all add: bag_data_def fs_ready_def fs_good_def extended_def Let_def)
qed

lemma Bag_Write_ready:
  "bag_ready b \<Longrightarrow> length (bag_data b) + length s \<le> f_quota (filestream b) \<Longrightarrow>
     Bag_Write s b = (Inr (), extended s b)"
  by (simp add: bag_ready_def Bag_Write_fs)

lemma extended_simps [simp]:
  "bag_data (extended s b) = bag_data b @ s"
  "f_quota (filestream (extended s b)) = f_quota (filestream b)"
  "bag_ready b \<Longrightarrow> bag_ready (extended s b)"
  "bag_ready b \<Longrightarrow> extended [] b = b"
  "extended t (extended s b) = extended (s @ t) b"
  by (auto simp: extended_def bag_data_def bag_ready_def fs_ready_def fs_good_def Let_def add_ac)

interpretation bag_sink: append_sink bag_ready bag_data "\<lambda>b. f_quota (filestream b)"
    "\<lambda>s b. snd (Bag_Write s b)"
  by unfold_locales (simp_all add: Bag_Write_ready)

text \<open>A run of writes, as the recorder makes them: the first exception ends it.\<close>

fun Bag_Writes :: "string list \<Rightarrow> bag \<Rightarrow> unit bag_result" where
  "Bag_Writes [] b = (Inr (), b)"
| "Bag_Writes (s # ss) b = bind_bag (Bag_Write s b) (\<lambda>_ b. Bag_Writes ss b)"

lemma Bag_Writes_ready:
  assumes "bag_ready b" and "length (bag_data b) + length (concat ss) \<le> f_quota (filestream b)"
  shows "Bag_Writes ss b = (Inr (), extended (concat ss) b)"
  using assms by (induction ss arbitrary: b) (simp_all add: Bag_Write_ready)

lemma Bag_Writes_fold:
  assumes "bag_ready b" and "length (bag_data b) + length (concat ss) \<le> f_quota (filestream b)"
  shows "snd (Bag_Writes ss b) = fold (\<lambda>s b. snd (Bag_Write s b)) ss b"
  using assms by (induction ss arbitrary: b) (simp_all add: Bag_Write_ready)

section \<open>Opening for writing and closing\<close>

definition fresh_bag_data :: "bag \<Rightarrow> string" where
  "fresh_bag_data b = version_line @ header_image (final_header (start_timestamp b) (end_timestamp b) (msg_count b))"

lemma length_fresh_bag_data [simp]: "length (fresh_bag_data b) = 1041"
  by (simp add: fresh_bag_data_def)

lemma WriteHeaderRecord_eq:
  "WriteHeaderRecord b =
     (let s = fs_write (header_image (final_header (start_timestamp b) (end_timestamp b) (msg_count b))) (filestream b)
      in (Inr (), b\<lparr>filestream := s, offset := word_of_int (fs_tellp s)\<rparr>))"
proof -
  have "length (header_body (bag_header b)) \<le> FILE_HEADER_LEN"
    using final_header_short [of "start_timestamp b" "end_timestamp b" "msg_count b"]
    by (simp add: bag_header_eq FILE_HEADER_LEN_def)
  from header_record_ok [OF this] show ?thesis by (simp add: WriteHeaderRecord_def bag_header_eq)
qed

definition started :: "timestamp \<Rightarrow> string \<Rightarrow> 32 word \<Rightarrow> bag \<Rightarrow> disk \<Rightarrow> bag" where
  "started now name m b d = b\<lparr>mode := m, filename := name, version := 1, file_header_pos := 13,
     index_data_pos := 1041, offset := 1041, file_size := 1041, start_timestamp := NanoSecondsSinceEpoch now,
     filestream := \<lparr>is_open = True, f_name = name, f_data = fresh_bag_data b, f_pos = 1041,
       f_eof = False, f_fail = False, f_in = False, f_out = True, f_app = False, f_quota = quota d\<rparr>\<rparr>"

lemma WriteVersion_eq:
  assumes "filestream b = \<lparr>is_open = True, f_name = name, f_data = [], f_pos = 0, f_eof = False,
       f_fail = False, f_in = False, f_out = True, f_app = False, f_quota = q\<rparr>"
    and "13 \<le> q" and "q < 2 ^ 63"
  shows "WriteVersion b = (Inr (), extended version_line (b\<lparr>version := 1\<rparr>))"
proof -
  have "truncate_rat (stof_VERSION * 100 / 100) = 1"
    by (simp add: stof_VERSION_def truncate_rat_def)
  then show ?thesis
    using assms
    by (simp add: WriteVersion_def Let_def VERSION_def Bag_Write_fs bag_data_def fs_ready_def
        fs_good_def version_line_def)
qed

lemma StartWriting_eq:
  assumes "filestream b = \<lparr>is_open = True, f_name = name, f_data = [], f_pos = 0, f_eof = False,
       f_fail = False, f_in = False, f_out = True, f_app = False, f_quota = q\<rparr>"
    and "1041 \<le> q" and "q < 2 ^ 63"
  shows "StartWriting now b = (Inr (), b\<lparr>version := 1, file_header_pos := 13, offset := 1041,
     file_size := 13, index_data_pos := 1041, start_timestamp := NanoSecondsSinceEpoch now,
     filestream := (filestream b)\<lparr>f_data := fresh_bag_data b, f_pos := 1041\<rparr>\<rparr>)"
proof -
  have v: "WriteVersion b = (Inr (), extended version_line (b\<lparr>version := 1\<rparr>))"
    using assms by (intro WriteVersion_eq) auto
  show ?thesis
    using assms
    by (simp add: StartWriting_def v WriteHeaderRecord_eq extended_def bag_data_def fs_write_def
        fs_good_def fs_tellp_def fresh_bag_data_def Let_def overwrite_def)
qed

lemma Bag_Open_write:
  assumes "\<not> is_open (filestream b)" and "creatable d name" and "1041 \<le> quota d" and "quota d < 2 ^ 63"
    and "has_mode m BagMode_Write" and "\<not> has_mode m BagMode_Append"
  shows "Bag_Open now name m (b, d) =
    (Inr (), (started now name m b d, d\<lparr>files := (files d)(name \<mapsto> [])\<rparr>))"
proof -
  define f where "f = \<lparr>is_open = True, f_name = name, f_data = [], f_pos = 0, f_eof = False,
       f_fail = False, f_in = False, f_out = True, f_app = False, f_quota = quota d\<rparr>"
  have o: "fs_open name OpenOut (filestream b, d) = (f, d\<lparr>files := (files d)(name \<mapsto> [])\<rparr>)"
    using assms(1,2) by (simp add: fs_open_def f_def)
  let ?b = "b\<lparr>mode := m, filestream := f\<rparr>"
  have v: "StartWriting now ?b = (Inr (), ?b\<lparr>version := 1, file_header_pos := 13, offset := 1041,
     file_size := 13, index_data_pos := 1041, start_timestamp := NanoSecondsSinceEpoch now,
     filestream := f\<lparr>f_data := fresh_bag_data ?b, f_pos := 1041\<rparr>\<rparr>)"
    using assms by (subst StartWriting_eq) (auto simp: f_def)
  define s where "s = ?b\<lparr>version := 1, file_header_pos := 13, offset := 1041,
     file_size := 13, index_data_pos := 1041, start_timestamp := NanoSecondsSinceEpoch now,
     filestream := f\<lparr>f_data := fresh_bag_data ?b, f_pos := 1041\<rparr>\<rparr>"
  have u: "UpdateFileInfo (s\<lparr>filename := name\<rparr>) = (Inr (), started now name m b d)"
    by (subst UpdateFileInfo_ready)
      (simp_all add: s_def f_def started_def bag_data_def fs_ready_def fs_good_def fresh_bag_data_def)
  have nf: "\<not> f_fail f" "\<not> f_fail (filestream s)" by (simp_all add: f_def s_def)
  show ?thesis
    using assms(1,5,6) o v [folded s_def] u nf
    by (simp add: Bag_Open_def OpenWrite_def open_stream_def with_disk_def Let_def)
qed

text \<open>\<open>Close\<close> rewrites the header region and nothing else.\<close>

definition writable_bag :: "timestamp \<Rightarrow> string \<Rightarrow> bag \<Rightarrow> bool" where
  "writable_bag now name b \<longleftrightarrow> bag_ready b \<and> \<not> f_app (filestream b) \<and> f_name (filestream b) = name \<and>
     has_mode (mode b) BagMode_Write \<and> file_header_pos b = 13 \<and>
     start_timestamp b = NanoSecondsSinceEpoch now \<and> 1041 \<le> length (bag_data b) \<and>
     take 13 (bag_data b) = version_line \<and> length (bag_data b) \<le> f_quota (filestream b)"

lemma Bag_Close_write:
  assumes "writable_bag now name b"
  shows "Bag_Close stop (b, d) =
    (Inr (), (Bag_Init (b\<lparr>index_data_pos := offset b, end_timestamp := NanoSecondsSinceEpoch stop,
        filestream := (filestream b)\<lparr>is_open := False, f_pos := 1041,
          f_data := version_line @ header_image (final_header (NanoSecondsSinceEpoch now)
             (NanoSecondsSinceEpoch stop) (msg_count b)) @ drop 1041 (bag_data b)\<rparr>\<rparr>),
      d\<lparr>files := (files d)(name \<mapsto> version_line @ header_image (final_header (NanoSecondsSinceEpoch now)
             (NanoSecondsSinceEpoch stop) (msg_count b)) @ drop 1041 (bag_data b))\<rparr>))"
  using assms
  by (simp add: Bag_Close_def CloseWrite_def StopWriting_def WriteHeaderRecord_eq writable_bag_def
      bag_ready_def fs_ready_def fs_good_def fs_seekp_def fs_seekp_end_def fs_write_def overwrite_def
      close_stream_def fs_close_def with_disk_def bag_data_def Bag_Init_def Let_def)

section \<open>Reading\<close>

definition reading :: "string \<Rightarrow> nat \<Rightarrow> bag \<Rightarrow> bool" where
  "reading d p b \<longleftrightarrow> is_open (filestream b) \<and> fs_good (filestream b) \<and> f_in (filestream b) \<and>
     f_data (filestream b) = d \<and> f_pos (filestream b) = p \<and> p \<le> length d \<and> length d < 2 ^ 63 \<and>
     file_size b = word_of_nat (length d)"

lemma reading_offset [simp]:
  "reading d p (b\<lparr>offset := x\<rparr>) \<longleftrightarrow> reading d p b"
  "reading d p (b\<lparr>offset := x, filestream := f\<rparr>) \<longleftrightarrow> reading d p (b\<lparr>filestream := f\<rparr>)"
  "reading d p (b\<lparr>filestream := f, offset := x\<rparr>) \<longleftrightarrow> reading d p (b\<lparr>filestream := f\<rparr>)"
  "reading d p (b\<lparr>filestream := f, offset := x, records := rs\<rparr>) \<longleftrightarrow> reading d p (b\<lparr>filestream := f\<rparr>)"
  by (simp_all add: reading_def)

lemma tellg_reading: "reading d p b \<Longrightarrow> fs_tellg (filestream b) = (int p, filestream b)"
  by (simp add: reading_def fs_tellg_def fs_good_def)

lemma tell_offset_reading: "reading d p b \<Longrightarrow> tell_offset b = b\<lparr>offset := word_of_nat p\<rparr>"
  by (simp add: tell_offset_def tellg_reading)

lemma enough_word:
  assumes "p \<le> l" and "l < 2 ^ 63"
  shows "(n < word_of_nat l - (word_of_nat p :: 64 word)) \<longleftrightarrow> unat n < l - p"
proof -
  have "word_of_nat l - (word_of_nat p :: 64 word) = word_of_nat (l - p)"
    using assms(1) by (simp add: of_nat_diff)
  moreover have "unat (word_of_nat (l - p) :: 64 word) = l - p"
    using assms by (intro unat_word_of_nat_small) simp
  ultimately show ?thesis by (simp add: word_less_nat_alt)
qed

lemma require_enough:
  assumes "reading d p b" and "unat n < length d - p"
  shows "require_data n b rest = rest (b\<lparr>offset := word_of_nat p\<rparr>)"
proof -
  have "n < file_size b - word_of_nat p"
    using assms enough_word [of p "length d" n] by (simp add: reading_def)
  then show ?thesis
    using assms(1) by (simp add: require_data_def CheckEnoughDataToRead_def tellg_reading Let_def)
qed

lemma seekg_reading:
  "reading d p b \<Longrightarrow> fs_seekg (int q) (filestream b) = (filestream b)\<lparr>f_pos := q\<rparr>"
  by (cases "filestream b") (simp add: reading_def fs_good_def fs_seekg_def Let_def)

lemma seekg_end_reading:
  "reading d p b \<Longrightarrow> fs_seekg_end (filestream b) = (filestream b)\<lparr>f_pos := length d\<rparr>"
  using seekg_reading [of d p b "length d"] by (simp add: fs_seekg_end_def reading_def)

lemma require_short:
  assumes "reading d p b" and "length d - p \<le> unat n"
  shows "require_data n b rest =
    (Inr (), b\<lparr>offset := file_size b, filestream := (filestream b)\<lparr>f_pos := length d\<rparr>\<rparr>)"
proof -
  have "\<not> n < file_size b - word_of_nat p"
    using assms enough_word [of p "length d" n] by (simp add: reading_def)
  then show ?thesis
    using assms(1)
    by (simp add: require_data_def CheckEnoughDataToRead_def tellg_reading seekg_end_reading Let_def)
qed

lemma read_reading:
  assumes "reading d p b" and "p + n \<le> length d"
  shows "fs_read n (filestream b) = (take n (drop p d), (filestream b)\<lparr>f_pos := p + n\<rparr>)"
  using assms by (simp add: fs_read_def reading_def Let_def min_def)

lemma read_word_reading:
  assumes "reading (pre @ le_word 8 w @ rest) (length pre) b"
  shows "read_word b = (w, b\<lparr>filestream := (filestream b)\<lparr>f_pos := length pre + 8\<rparr>\<rparr>)"
  using read_reading [OF assms, of 8] by (simp add: read_word_def Let_def)

lemma getline_reading:
  assumes "reading (pre @ s @ CHR 0x0A # rest) (length pre) b" and "CHR 0x0A \<notin> set s"
  shows "fs_getline (filestream b) = (s, (filestream b)\<lparr>f_pos := length pre + length s + 1\<rparr>)"
proof -
  have "takeWhile (\<lambda>c. c \<noteq> CHR 0x0A) (s @ CHR 0x0A # rest) = s"
    using assms(2) by (auto simp: takeWhile_append)
  then show ?thesis using assms(1) by (simp add: fs_getline_def reading_def Let_def)
qed

lemma reading_at:
  "reading d p b \<Longrightarrow> q \<le> length d \<Longrightarrow> reading d q (b\<lparr>filestream := (filestream b)\<lparr>f_pos := q\<rparr>\<rparr>)"
  by (simp add: reading_def fs_good_def)

lemma filled_buffer:
  assumes "length msg + kCheapPrepend \<le> max_vector"
  obtains buf buf' where "Buffer_new (length msg) = Inr buf" and "hasWritten (length msg) (poke msg buf) = Inr buf'"
    and "buf_ok buf'" and "contents buf' = msg"
    and "slice (readerIndex buf') (readerIndex buf' + length msg) (vec buf') = msg"
proof -
  from Buffer_new_ok [OF assms] obtain buf where b: "Buffer_new (length msg) = Inr buf" "buf_ok buf"
    "contents buf = []" "writableBytes buf = length msg" by metis
  let ?w = "(poke msg buf)\<lparr>writerIndex := writerIndex buf + length msg\<rparr>"
  have w: "hasWritten (length msg) (poke msg buf) = Inr ?w" "buf_ok ?w" "contents ?w = msg"
    using write_ok [OF b(2), of msg] b(3,4) by auto
  then have "readerIndex ?w + length msg = writerIndex ?w"
    using b(2,3) Buffer_new_Inr [OF assms] b(1) by (auto simp: poke_def)
  with w(3) have "slice (readerIndex ?w) (readerIndex ?w + length msg) (vec ?w) = msg"
    by (simp only: contents_def)
  with b(1) w that show ?thesis by blast
qed

lemma store_record_reading:
  assumes r: "reading (pre @ msg @ rest) (length pre) b"
    and buf: "hasWritten (length msg) (poke msg buf) = Inr buf'"
    "slice (readerIndex buf') (readerIndex buf' + length msg) (vec buf') = msg"
    and n: "unat n = length msg"
  shows "store_record n ts tp buf b = (Inr (), b\<lparr>filestream := (filestream b)\<lparr>f_pos := length pre + length msg\<rparr>,
      offset := word_of_nat (length pre + length msg),
      records := mm_insert (Timestamp ts) (MessageRecord ts tp msg) (records b)\<rparr>)"
proof -
  let ?b = "b\<lparr>filestream := (filestream b)\<lparr>f_pos := length pre + length msg\<rparr>\<rparr>"
  have rd: "fs_read (length msg) (filestream b) = (msg, (filestream b)\<lparr>f_pos := length pre + length msg\<rparr>)"
    using read_reading [OF r, of "length msg"] by simp
  have tell: "tell_offset ?b = ?b\<lparr>offset := word_of_nat (length pre + length msg)\<rparr>"
    by (rule tell_offset_reading, rule reading_at [OF r]) simp
  show ?thesis
    using n by (simp add: store_record_def Let_def rd buf tell)
qed

text \<open>The three parts of a record.\<close>

definition frame_bytes :: "64 word \<Rightarrow> 64 word \<Rightarrow> string \<Rightarrow> string \<Rightarrow> string" where
  "frame_bytes n ts tp msg = le_word 8 n @ le_word 8 ts @ tp @ [CHR 0x0A] @ msg"

lemma read_message_reading:
  assumes r: "reading (pre @ le_word 8 ts @ tp @ CHR 0x0A # msg) (length pre) b"
    and tp: "CHR 0x0A \<notin> set tp" and n: "unat n + kCheapPrepend \<le> max_vector"
  defines "p \<equiv> length pre + 8 + length tp + 1"
  shows "read_message n b =
    (if unat n < length msg
     then (Inr (), b\<lparr>filestream := (filestream b)\<lparr>f_pos := p + unat n\<rparr>,
       offset := word_of_nat (p + unat n),
       records := mm_insert (Timestamp ts) (MessageRecord ts tp (take (unat n) msg)) (records b)\<rparr>)
     else (Inr (), b\<lparr>offset := file_size b, filestream := (filestream b)\<lparr>f_pos := p + length msg\<rparr>\<rparr>))"
proof -
  define d where "d = pre @ le_word 8 ts @ tp @ CHR 0x0A # msg"
  let ?b8 = "b\<lparr>filestream := (filestream b)\<lparr>f_pos := length pre + 8\<rparr>\<rparr>"
  let ?bp = "b\<lparr>filestream := (filestream b)\<lparr>f_pos := p\<rparr>\<rparr>"
  have w: "read_word b = (ts, ?b8)" using r by (rule read_word_reading)
  have r8: "reading ((pre @ le_word 8 ts) @ tp @ CHR 0x0A # msg) (length (pre @ le_word 8 ts)) ?b8"
    using reading_at [OF r, of "length pre + 8"] by simp
  have g: "fs_getline (filestream ?b8) = (tp, (filestream b)\<lparr>f_pos := p\<rparr>)"
    using getline_reading [OF r8 tp] by (simp add: p_def add_ac)
  have rp: "reading d p ?bp"
    using reading_at [OF r, of p] by (simp add: d_def p_def)
  have ld: "length d = p + length msg" by (simp add: d_def p_def)
  obtain buf where nb: "Buffer_new (unat n) = Inr buf"
    using Buffer_new_Inr [OF n] by blast
  have step: "read_message n b = require_data n ?bp (store_record n ts tp buf)"
    using w g by (simp add: read_message_def Let_def nb)
  show ?thesis
  proof (cases "unat n < length msg")
    case True
    let ?m = "take (unat n) msg"
    have lm: "length ?m = unat n" using True by simp
    from filled_buffer [of ?m] n lm nb obtain buf' where buf': "hasWritten (length ?m) (poke ?m buf) = Inr buf'"
      "slice (readerIndex buf') (readerIndex buf' + length ?m) (vec buf') = ?m" by (metis Inr_inject)
    have d: "d = (pre @ le_word 8 ts @ tp @ [CHR 0x0A]) @ ?m @ drop (unat n) msg"
      by (simp add: d_def)
    have lp: "length (pre @ le_word 8 ts @ tp @ [CHR 0x0A]) = p" by (simp add: p_def)
    have "reading ((pre @ le_word 8 ts @ tp @ [CHR 0x0A]) @ ?m @ drop (unat n) msg)
        (length (pre @ le_word 8 ts @ tp @ [CHR 0x0A])) (?bp\<lparr>offset := word_of_nat p\<rparr>)"
      unfolding lp d [symmetric] using rp by simp
    from store_record_reading [OF this buf' lm [symmetric], of ts tp]
    have "store_record n ts tp buf (?bp\<lparr>offset := word_of_nat p\<rparr>) =
      (Inr (), b\<lparr>filestream := (filestream b)\<lparr>f_pos := p + unat n\<rparr>,
       offset := word_of_nat (p + unat n),
       records := mm_insert (Timestamp ts) (MessageRecord ts tp (take (unat n) msg)) (records b)\<rparr>)"
      unfolding lp lm by simp
    with require_enough [OF rp, of n] True ld show ?thesis by (simp add: step)
  next
    case False
    with require_short [OF rp, of n] ld show ?thesis by (simp add: step)
  qed
qed

lemma ReadTopicIndexRecord100_frame:
  assumes r: "reading (pre @ frame_bytes n ts tp msg) (length pre) b"
    and tp: "CHR 0x0A \<notin> set tp" and n: "unat n + kCheapPrepend \<le> max_vector"
  defines "p \<equiv> length pre + 17 + length tp"
  shows "ReadTopicIndexRecord100 b =
    (if unat n < length msg
     then (Inr (), b\<lparr>filestream := (filestream b)\<lparr>f_pos := p + unat n\<rparr>,
       offset := word_of_nat (p + unat n),
       records := mm_insert (Timestamp ts) (MessageRecord ts tp (take (unat n) msg)) (records b)\<rparr>)
     else (Inr (), b\<lparr>offset := file_size b, filestream := (filestream b)\<lparr>f_pos := p + length msg\<rparr>\<rparr>))"
proof -
  let ?d = "pre @ frame_bytes n ts tp msg"
  let ?b1 = "b\<lparr>offset := word_of_nat (length pre)\<rparr>"
  let ?b8 = "?b1\<lparr>filestream := (filestream b)\<lparr>f_pos := length pre + 8\<rparr>\<rparr>"
  let ?b2 = "?b8\<lparr>offset := word_of_nat (length pre + 8)\<rparr>"
  have w: "read_word ?b1 = (n, ?b8)"
    using read_word_reading [of pre n "le_word 8 ts @ tp @ CHR 0x0A # msg" ?b1] r
    by (simp add: frame_bytes_def)
  have r8: "reading ?d (length pre + 8) ?b8"
    using reading_at [of ?d "length pre" ?b1 "length pre + 8"] r by (simp add: frame_bytes_def)
  have rm: "reading ((pre @ le_word 8 n) @ le_word 8 ts @ tp @ CHR 0x0A # msg) (length (pre @ le_word 8 n)) ?b2"
    using r8 by (simp add: frame_bytes_def del: of_nat_add)
  have "ReadTopicIndexRecord100 b =
      require_data 8 (tell_offset (snd (read_word ?b1))) (read_message (fst (read_word ?b1)))"
    using require_enough [of ?d "length pre" ?b1 8] tell_offset_reading [OF r] r
    by (simp add: ReadTopicIndexRecord100_def Let_def split_beta frame_bytes_def)
  also have "\<dots> = require_data 8 ?b2 (read_message n)"
    using tell_offset_reading [OF r8] by (simp add: w del: of_nat_add)
  also have "\<dots> = read_message n ?b2"
    using require_enough [of ?d "length pre + 8" ?b2 8] r8 by (simp add: frame_bytes_def del: of_nat_add)
  finally show ?thesis
    using read_message_reading [OF rm tp n] by (simp add: p_def add_ac del: of_nat_add)
qed

lemma ReadTopicIndexRecord100_short:
  assumes r: "reading (pre @ tail) (length pre) b" and short: "length tail \<le> 16"
  shows "ReadTopicIndexRecord100 b =
    (Inr (), b\<lparr>offset := file_size b, filestream := (filestream b)\<lparr>f_pos := length (pre @ tail)\<rparr>\<rparr>)"
proof -
  let ?b1 = "b\<lparr>offset := word_of_nat (length pre)\<rparr>"
  have r1: "reading (pre @ tail) (length pre) ?b1" using r by simp
  show ?thesis
  proof (cases "length tail \<le> 8")
    case True
    with require_short [OF r1, of 8] show ?thesis
      by (simp add: ReadTopicIndexRecord100_def tell_offset_reading [OF r])
  next
    case False
    define n where "n = (word_le (take 8 tail) :: 64 word)"
    let ?b8 = "?b1\<lparr>filestream := (filestream b)\<lparr>f_pos := length pre + 8\<rparr>\<rparr>"
    have w: "read_word ?b1 = (n, ?b8)"
      using read_reading [OF r1, of 8] False by (simp add: read_word_def n_def Let_def)
    have r8: "reading (pre @ tail) (length pre + 8) ?b8"
      using reading_at [OF r1, of "length pre + 8"] False by simp
    have "ReadTopicIndexRecord100 b = require_data 8 (tell_offset ?b8) (read_message n)"
      using require_enough [OF r1, of 8] False w
      by (simp add: ReadTopicIndexRecord100_def tell_offset_reading [OF r] Let_def)
    also have "\<dots> = require_data 8 (?b8\<lparr>offset := word_of_nat (length pre + 8)\<rparr>) (read_message n)"
      by (simp only: tell_offset_reading [OF r8])
    finally show ?thesis
      using require_short [of "pre @ tail" "length pre + 8" "?b8\<lparr>offset := word_of_nat (length pre + 8)\<rparr>" 8] r8 short
      by (simp del: of_nat_add)
  qed
qed

section \<open>The read loop\<close>

text \<open>
  What ends the loop: fewer than 17 bytes, or a record whose message reaches or passes the end
  of the file.
\<close>

definition dead_tail :: "string \<Rightarrow> bool" where
  "dead_tail tail \<longleftrightarrow> length tail \<le> 16 \<or>
     (\<exists>n ts tp msg. tail = frame_bytes n ts tp msg \<and> CHR 0x0A \<notin> set tp \<and> length msg \<le> unat n \<and>
        unat n + kCheapPrepend \<le> max_vector)"

lemma read_records_stop:
  "offset b = file_size b \<Longrightarrow> read_records b = (Inr (), b)"
  by (simp add: read_records.simps)

lemma offset_in_file:
  assumes "p < l" and "l < 2 ^ 63"
  shows "(word_of_nat p :: 64 word) < word_of_nat l"
proof -
  have "unat (word_of_nat p :: 64 word) = p" "unat (word_of_nat l :: 64 word) = l"
    using assms by (auto intro!: unat_word_of_nat_small)
  with assms(1) show ?thesis by (simp add: word_less_nat_alt)
qed

lemma read_records_dead:
  assumes r: "reading (pre @ tail) (length pre) b" and off: "offset b = word_of_nat (length pre)"
    and dead: "dead_tail tail" and ne: "tail \<noteq> []"
  shows "read_records b =
    (Inr (), b\<lparr>filestream := (filestream b)\<lparr>f_pos := length (pre @ tail)\<rparr>, offset := file_size b\<rparr>)"
proof -
  have "ReadTopicIndexRecord100 b =
    (Inr (), b\<lparr>offset := file_size b, filestream := (filestream b)\<lparr>f_pos := length (pre @ tail)\<rparr>\<rparr>)"
  proof (cases "length tail \<le> 16")
    case True
    with r show ?thesis by (rule ReadTopicIndexRecord100_short)
  next
    case False
    with dead obtain n ts tp msg where "tail = frame_bytes n ts tp msg" "CHR 0x0A \<notin> set tp"
      "length msg \<le> unat n" "unat n + kCheapPrepend \<le> max_vector" by (auto simp: dead_tail_def)
    with ReadTopicIndexRecord100_frame [of pre n ts tp msg b] r show ?thesis
      by (simp add: frame_bytes_def add_ac del: of_nat_add)
  qed
  moreover have "offset b < file_size b"
    using r off ne offset_in_file [of "length pre" "length (pre @ tail)"]
    by (simp add: reading_def del: of_nat_add)
  ultimately show ?thesis
    by (subst read_records.simps) (simp add: read_records_stop)
qed

definition entry :: "message_record \<Rightarrow> timestamp \<times> message_record" where
  "entry r = (timestamp_ns r, r)"

definition topic_ok :: "message_record \<Rightarrow> bool" where
  "topic_ok r \<longleftrightarrow> CHR 0x0A \<notin> set (topic r)"

lemma record_bytes_frame:
  "record_bytes r @ rest = frame_bytes (word_of_nat (length (serialized_msg r)))
     (NanoSecondsSinceEpoch (timestamp_ns r)) (topic r) (serialized_msg r @ rest)"
  by (simp add: record_bytes_def frame_bytes_def)

lemma record_eta: "MessageRecord (NanoSecondsSinceEpoch (timestamp_ns r)) (topic r) (serialized_msg r) = r"
  by (cases r; cases "timestamp_ns r") (simp add: MessageRecord_def)

definition skipped :: "string \<Rightarrow> message_record list \<Rightarrow> bag \<Rightarrow> bag" where
  "skipped pre rs b =
     b\<lparr>filestream := (filestream b)\<lparr>f_pos := length (pre @ concat (map record_bytes rs))\<rparr>,
       offset := word_of_nat (length (pre @ concat (map record_bytes rs))),
       records := mm_insert_all (map entry rs) (records b)\<rparr>"

lemma reading_skipped:
  "reading (pre @ concat (map record_bytes rs) @ tail) (length pre) b \<Longrightarrow>
     reading ((pre @ concat (map record_bytes rs)) @ tail) (length (pre @ concat (map record_bytes rs)))
       (skipped pre rs b)"
  by (simp add: reading_def skipped_def fs_good_def)

lemma read_records_skip:
  assumes "reading (pre @ concat (map record_bytes rs) @ tail) (length pre) b"
    and "offset b = word_of_nat (length pre)" and "tail \<noteq> []" and "\<forall>r \<in> set rs. topic_ok r"
  shows "read_records b = read_records (skipped pre rs b)"
  using assms
proof (induction rs arbitrary: pre b)
  case Nil
  then have "skipped pre [] b = b" by (simp add: skipped_def reading_def)
  then show ?case by simp
next
  case (Cons r rs)
  define rest where "rest = concat (map record_bytes rs) @ tail"
  define n where "n = length (serialized_msg r)"
  define p where "p = length (pre @ record_bytes r)"
  let ?d = "pre @ record_bytes r @ rest"
  have d: "reading ?d (length pre) b" using Cons.prems(1) by (simp add: rest_def)
  then have small: "length ?d < 2 ^ 63" by (simp only: reading_def)
  then have n_small: "n + 17 < 2 ^ 63" by (simp add: record_bytes_def n_def)
  then have u: "unat (word_of_nat n :: 64 word) = n" by (intro unat_word_of_nat_small) simp
  have p_eq: "p = length pre + 17 + length (topic r) + n" by (simp add: p_def record_bytes_def n_def)
  have ne: "rest \<noteq> []" using Cons.prems(3) by (simp add: rest_def)
  let ?b' = "b\<lparr>filestream := (filestream b)\<lparr>f_pos := p\<rparr>, offset := word_of_nat p,
       records := mm_insert (timestamp_ns r) r (records b)\<rparr>"
  let ?w = "word_of_nat n :: 64 word" and ?ts = "NanoSecondsSinceEpoch (timestamp_ns r)"
  have ts: "Timestamp ?ts = timestamp_ns r" by (cases "timestamp_ns r") simp
  have fr: "record_bytes r @ rest = frame_bytes ?w ?ts (topic r) (serialized_msg r @ rest)"
    unfolding n_def by (rule record_bytes_frame)
  have room: "unat ?w + kCheapPrepend \<le> max_vector"
    using n_small u by (simp add: kCheapPrepend_def max_vector_def)
  have lt_n: "unat ?w < length (serialized_msg r @ rest)" using ne u by (simp add: n_def)
  have msg: "take (unat ?w) (serialized_msg r @ rest) = serialized_msg r" using u by (simp add: n_def)
  have pu: "length pre + 17 + length (topic r) + unat ?w = p" using u p_eq by simp
  have round: "ReadTopicIndexRecord100 b = (Inr (), ?b')"
    using ReadTopicIndexRecord100_frame [OF d [unfolded fr] _ room] Cons.prems(4) lt_n
    unfolding msg ts record_eta pu by (simp add: topic_ok_def)
  have lt: "offset b < file_size b"
    using d Cons.prems(2) ne offset_in_file [of "length pre" "length ?d"] small
    by (simp add: reading_def del: of_nat_add)
  have r': "reading ((pre @ record_bytes r) @ concat (map record_bytes rs) @ tail) (length (pre @ record_bytes r)) ?b'"
    using reading_at [OF d, of p] by (simp add: rest_def p_def del: of_nat_add)
  have "read_records b = read_records ?b'"
    using lt round by (subst read_records.simps) simp
  also have "\<dots> = read_records (skipped (pre @ record_bytes r) rs ?b')"
    using Cons.prems by (intro Cons.IH [OF r']) (simp_all add: p_def)
  also have "skipped (pre @ record_bytes r) rs ?b' = skipped pre (r # rs) b"
    by (simp add: skipped_def entry_def [of r])
  finally show ?case .
qed

theorem read_records_ok:
  assumes "reading (pre @ concat (map record_bytes rs) @ tail) (length pre) b"
    and "offset b = word_of_nat (length pre)" and "dead_tail tail" and "tail \<noteq> []"
    and "\<forall>r \<in> set rs. topic_ok r"
  shows "read_records b =
    (Inr (), b\<lparr>filestream := (filestream b)\<lparr>f_pos := length (pre @ concat (map record_bytes rs) @ tail)\<rparr>,
       offset := file_size b, records := mm_insert_all (map entry rs) (records b)\<rparr>)"
  unfolding read_records_skip [OF assms(1,2,4,5)]
  using read_records_dead [OF reading_skipped [OF assms(1)] _ assms(3,4)]
  by (simp add: skipped_def del: of_nat_add)

section \<open>Opening for reading\<close>

definition header_ok :: "header \<Rightarrow> bool" where
  "header_ok h \<longleftrightarrow> std_map h \<and> (\<forall>k \<in> fst ` set h. CHR ''='' \<notin> set k) \<and>
     length (header_body h) \<le> FILE_HEADER_LEN"

lemma final_header_ok: "header_ok (final_header start stop msgs)"
  using final_header_short [of start stop msgs]
  by (simp add: header_ok_def FILE_HEADER_LEN_def) (simp add: final_header_def)

lemma ReadVersion_line:
  assumes "is_open (filestream b)" and "fs_good (filestream b)" and "f_in (filestream b)"
    and "f_data (filestream b) = version_line @ rest" and "f_pos (filestream b) = 0"
  shows "ReadVersion b = (Inr (), b\<lparr>filestream := (filestream b)\<lparr>f_pos := 13\<rparr>, offset := 13, version := 100\<rparr>)"
proof -
  have g: "fs_getline (filestream b) = (''#MSGBAG V1.0'', (filestream b)\<lparr>f_pos := 13\<rparr>)"
    using assms by (simp add: fs_getline_def version_line_def)
  have t: "fs_tellg ((filestream b)\<lparr>f_pos := 13\<rparr>) = (13, (filestream b)\<lparr>f_pos := 13\<rparr>)"
    using assms by (simp add: fs_tellg_def fs_good_def)
  have v: "scan_version ''#MSGBAG V1.0'' = Some (1, 0)" by code_simp
  have "sint (100 :: 32 word) = 100" by simp
  with g t v show ?thesis by (simp add: ReadVersion_def Let_def)
qed

lemma ReadVersion_reading:
  "reading (version_line @ rest) 0 b \<Longrightarrow>
     ReadVersion b = (Inr (), b\<lparr>filestream := (filestream b)\<lparr>f_pos := 13\<rparr>, offset := 13, version := 100\<rparr>)"
  by (rule ReadVersion_line) (simp_all add: reading_def)

lemma ReadHeaderRecord_reading:
  assumes r: "reading (pre @ header_image h @ rest) (length pre) b" and h: "header_ok h"
  shows "ReadHeaderRecord b = (Inr (), b\<lparr>filestream := (filestream b)\<lparr>f_pos := length pre + 1028\<rparr>,
      offset := word_of_nat (length pre + 1028), index_data_pos := word_of_nat (length pre + 1028)\<rparr>)"
proof -
  define img where "img = header_image h"
  let ?p = "length pre + 1028"
  have li: "length img = 1028" using h by (simp add: img_def header_ok_def length_header_image)
  have "length img + kCheapPrepend \<le> max_vector" by (simp add: li kCheapPrepend_def max_vector_def)
  from filled_buffer [OF this] obtain buf buf' where buf: "Buffer_new 1028 = Inr buf"
    "hasWritten 1028 (poke img buf) = Inr buf'" "buf_ok buf'" "contents buf' = img"
    unfolding li by metis
  have ok: "length (header_body h) < 2 ^ 32" using h by (simp add: header_ok_def FILE_HEADER_LEN_def)
  from ReadHeader_ok [OF buf(3), of h _ ] buf(4) h ok obtain b3 n where
    rh: "ReadHeader [] buf' = Inr (n, h, b3)" unfolding img_def header_image_def header_ok_def by metis
  have rd: "fs_read 1028 (filestream b) = (img, (filestream b)\<lparr>f_pos := ?p\<rparr>)"
    using read_reading [OF r, of 1028] li by (simp add: img_def)
  have r1: "reading (pre @ header_image h @ rest) ?p (b\<lparr>filestream := (filestream b)\<lparr>f_pos := ?p\<rparr>\<rparr>)"
    by (rule reading_at [OF r]) (simp add: li [unfolded img_def])
  note tell = tellg_reading [OF r1, simplified]
  show ?thesis
    using buf rh rd tell
    by (simp add: ReadHeaderRecord_def FILE_HEADER_LEN_def Let_def tell_offset_def)
qed

definition rewound :: "unit bag_result \<Rightarrow> unit bag_result" where
  "rewound r = bind_bag r (\<lambda>_ b. (Inr (), b\<lparr>filestream := fs_seekg 0 (filestream b)\<rparr>))"

lemma StartReadingVersion100_reading:
  assumes r: "reading data 13 b" and data: "data = version_line @ header_image h @ rest" and h: "header_ok h"
  shows "\<exists>b2. StartReadingVersion100 b = rewound (read_records b2) \<and> reading data 1041 b2 \<and>
    offset b2 = 1041 \<and> mode b2 = mode b \<and> filename b2 = filename b \<and> version b2 = version b \<and>
    records b2 = records b"
proof -
  let ?b1 = "b\<lparr>filestream := (filestream b)\<lparr>f_pos := 1041\<rparr>, offset := 1041, index_data_pos := 1041\<rparr>"
  let ?b2 = "b\<lparr>offset := 1041, index_data_pos := 1041, file_size := word_of_nat (length data),
      filestream := (filestream b)\<lparr>f_pos := 1041\<rparr>\<rparr>"
  have lp: "length (version_line @ header_image h) = 1041"
    using h by (simp add: header_ok_def length_header_image)
  have H: "ReadHeaderRecord b = (Inr (), ?b1)"
    using ReadHeaderRecord_reading [of version_line h rest b] r data h by simp
  have r1: "reading data 1041 ?b1"
    using reading_at [OF r, of 1041] lp data by (simp add: reading_def)
  have re: "reading data (length data) (?b1\<lparr>filestream := (filestream ?b1)\<lparr>f_pos := length data\<rparr>\<rparr>)"
    by (rule reading_at [OF r1]) simp
  have tell: "fs_tellg (fs_seekg_end (filestream ?b1)) = (int (length data), (filestream b)\<lparr>f_pos := length data\<rparr>)"
    using tellg_reading [OF re] by (simp only: seekg_end_reading [OF r1]) simp
  have seek: "fs_seekg (int 1041) ((filestream b)\<lparr>f_pos := length data\<rparr>) = (filestream b)\<lparr>f_pos := 1041\<rparr>"
    using seekg_reading [OF re, of 1041] by simp
  have "StartReadingVersion100 b = rewound (read_records ?b2)"
    using H tell seek by (simp add: StartReadingVersion100_def Let_def rewound_def)
  moreover have "reading data 1041 ?b2" using r1 by (simp add: reading_def)
  ultimately show ?thesis by (intro exI [of _ ?b2]) simp
qed

definition finish_open :: "string \<Rightarrow> unit bag_result \<Rightarrow> disk \<Rightarrow> unit res \<times> bag_disk" where
  "finish_open name r d =
     bind_bag (with_disk r d) (\<lambda>_ (b, d).
     bind_bag (throw_if (f_fail (filestream b)) (MsgbagException (''bag open file error.'' @ name)) (b, d))
       (\<lambda>_ (b, d). with_disk (UpdateFileInfo (b\<lparr>filename := name\<rparr>)) d))"

definition read_only :: "32 word \<Rightarrow> bool" where
  "read_only m \<longleftrightarrow> has_mode m BagMode_Read \<and> \<not> has_mode m BagMode_Write \<and> \<not> has_mode m BagMode_Append"

lemma read_only_Read: "read_only BagMode_Read"
  by (simp add: read_only_def has_mode_def BagMode_Write_def BagMode_Read_def BagMode_Append_def)

lemma Bag_Open_read_start:
  assumes "\<not> is_open (filestream b)" and "files d name = Some data" and "length data < 2 ^ 63"
    and data: "data = version_line @ header_image h @ rest" and "header_ok h" and "read_only m"
  shows "\<exists>b2. Bag_Open now name m (b, d) = finish_open name (rewound (read_records b2)) d \<and>
    reading data 1041 b2 \<and> offset b2 = 1041 \<and> mode b2 = m \<and> version b2 = 100 \<and> records b2 = records b"
proof -
  obtain f where o: "fs_open name OpenIn (filestream b, d) = (f, d)" and f: "is_open f" "fs_good f" "f_in f"
    "f_data f = data" "f_pos f = 0"
    using assms(1,2) by (simp add: fs_open_def fs_good_def)
  let ?b1 = "b\<lparr>mode := m, filestream := f, filename := name, offset := 0, file_size := word_of_nat (length data)\<rparr>"
  have U: "UpdateFileInfo (b\<lparr>mode := m, filestream := f, filename := name\<rparr>) = (Inr (), ?b1)"
    using f by (subst UpdateFileInfo_open) (simp_all add: bag_data_def)
  let ?b2 = "?b1\<lparr>filestream := f\<lparr>f_pos := 13\<rparr>, offset := 13, version := 100\<rparr>"
  have r1: "reading (version_line @ header_image h @ rest) 0 ?b1"
    using f assms(3) by (simp add: reading_def data)
  have V: "ReadVersion ?b1 = (Inr (), ?b2)" using ReadVersion_reading [OF r1] by simp
  have r2: "reading data 13 (?b2\<lparr>file_header_pos := 13\<rparr>)"
    using f assms(3) by (simp add: reading_def data fs_good_def)
  from StartReadingVersion100_reading [OF r2 data assms(5)] obtain b3 where
    S: "StartReadingVersion100 (?b2\<lparr>file_header_pos := 13\<rparr>) = rewound (read_records b3)"
    and b3: "reading data 1041 b3" "offset b3 = 1041" "mode b3 = m" "version b3 = 100" "records b3 = records b"
    by auto
  have "\<not> f_fail f" using f(2) by (simp add: fs_good_def)
  then have "OpenRead name (b\<lparr>mode := m\<rparr>, d) = with_disk (rewound (read_records b3)) d"
    using o U V S by (simp add: OpenRead_def open_stream_def Let_def)
  then have "Bag_Open now name m (b, d) = finish_open name (rewound (read_records b3)) d"
    using assms(1,6) by (simp add: Bag_Open_def Let_def read_only_def finish_open_def)
  with b3 show ?thesis by blast
qed

lemma Bag_Open_read:
  assumes "\<not> is_open (filestream b)" and "files d name = Some data" and "length data < 2 ^ 63"
    and data: "data = version_line @ header_image h @ concat (map record_bytes rs) @ tail"
    and h: "header_ok h" and "\<forall>r \<in> set rs. topic_ok r" and "dead_tail tail" and "tail \<noteq> []" and "read_only m"
  shows "\<exists>b'. Bag_Open now name m (b, d) = (Inr (), (b', d)) \<and> reading data 0 b' \<and>
    filename b' = name \<and> mode b' = m \<and> version b' = 100 \<and>
    records b' = mm_insert_all (map entry rs) (records b)"
proof -
  let ?pre = "version_line @ header_image h"
  have lp: "length ?pre = 1041" using h by (simp add: header_ok_def length_header_image)
  from Bag_Open_read_start [OF assms(1-5,9), of now] obtain b2 where
    O: "Bag_Open now name m (b, d) = finish_open name (rewound (read_records b2)) d"
    and b2: "reading data 1041 b2" "offset b2 = 1041" "mode b2 = m" "version b2 = 100" "records b2 = records b"
    by blast
  let ?b3 = "b2\<lparr>filestream := (filestream b2)\<lparr>f_pos := length data\<rparr>, offset := file_size b2,
      records := mm_insert_all (map entry rs) (records b)\<rparr>"
  have r2: "reading (?pre @ concat (map record_bytes rs) @ tail) (length ?pre) b2" using b2(1) lp data by simp
  have R: "read_records b2 = (Inr (), ?b3)"
    using read_records_ok [OF r2 _ assms(7,8,6)] lp b2 by (simp add: data)
  have r3: "reading data (length data) ?b3"
    using reading_at [OF b2(1), of "length data"] by simp
  let ?b4 = "b2\<lparr>filestream := (filestream b2)\<lparr>f_pos := 0\<rparr>, offset := file_size b2,
      records := mm_insert_all (map entry rs) (records b)\<rparr>"
  have r4: "reading data 0 ?b4" using reading_at [OF r3, of 0] by (simp add: reading_def)
  have B: "rewound (read_records b2) = (Inr (), ?b4)"
    using seekg_reading [OF r3, of 0] by (simp add: rewound_def R)
  let ?b5 = "?b4\<lparr>filename := name, offset := 0, file_size := word_of_nat (length data)\<rparr>"
  have U: "UpdateFileInfo (?b4\<lparr>filename := name\<rparr>) = (Inr (), ?b5)"
    using r4 by (subst UpdateFileInfo_open) (simp_all add: bag_data_def reading_def)
  have "\<not> f_fail (filestream ?b4)" using r4 by (simp add: reading_def fs_good_def)
  then have "Bag_Open now name m (b, d) = (Inr (), (?b5, d))"
    using O B U by (simp add: finish_open_def with_disk_def)
  moreover have "reading data 0 ?b5" using r4 by (simp add: reading_def)
  ultimately show ?thesis using b2 by (intro exI [of _ ?b5]) simp
qed

section \<open>A file that ends inside a topic\<close>

text \<open>
  Once \<open>getline\<close> has met the end of the file, every \<open>tellg\<close> answers \<open>-1\<close>; the loop ends
  and the stream is left in the failed state.
\<close>

lemma getline_eof:
  assumes "reading (pre @ s) (length pre) b" and "CHR 0x0A \<notin> set s"
  shows "\<not> fs_good (snd (fs_getline (filestream b)))"
proof -
  have "takeWhile (\<lambda>c. c \<noteq> CHR 0x0A) s = s"
    using assms(2) by (auto simp: takeWhile_eq_all_conv)
  then have "length (takeWhile (\<lambda>c. c \<noteq> CHR 0x0A) s) = length s" by (rule arg_cong)
  then show ?thesis using assms(1) by (simp add: fs_getline_def reading_def Let_def fs_good_def)
qed

lemma fs_tellg_not_good:
  "\<not> fs_good f \<Longrightarrow> fst (fs_tellg f) = -1 \<and> f_fail (snd (fs_tellg f))"
  by (simp add: fs_tellg_def Let_def set_fail_def)

lemma seekg_fail [simp]:
  "f_fail f \<Longrightarrow> f_fail (fs_seekg p f)" "f_fail f \<Longrightarrow> f_fail (fs_seekg_end f)"
  by (simp_all add: fs_seekg_def fs_seekg_end_def Let_def)

lemma read_fail [simp]: "f_fail f \<Longrightarrow> f_fail (snd (fs_read n f))"
  by (simp add: fs_read_def fs_good_def set_fail_def Let_def)

lemma tellg_fail [simp]: "f_fail f \<Longrightarrow> f_fail (snd (fs_tellg f))"
  by (auto simp: fs_tellg_def Let_def set_fail_def)

definition read_failed :: "bag \<Rightarrow> bool" where
  "read_failed b \<longleftrightarrow> f_fail (filestream b) \<and> \<not> offset b < file_size b"

lemma minus_one_max: "\<not> (-1 :: 64 word) < x"
  by (simp add: not_less)

lemma store_record_failed:
  assumes "f_fail (filestream b)" and "unat n \<le> writableBytes buf"
  shows "\<exists>b'. store_record n ts tp buf b = (Inr (), b') \<and> read_failed b'"
proof -
  let ?f = "snd (fs_read (unat n) (filestream b))"
  have ng: "\<not> fs_good ?f" using assms(1) by (simp add: fs_good_def)
  have "writableBytes (poke (fst (fs_read (unat n) (filestream b))) buf) = writableBytes buf"
    using assms(1)
    by (simp add: fs_read_def fs_good_def poke_def copy_to_def writableBytes_def)
  then have "hasWritten (unat n) (poke (fst (fs_read (unat n) (filestream b))) buf) \<noteq> Inl e" for e
    using assms(2) by (simp add: hasWritten_def)
  then obtain buf' where "hasWritten (unat n) (poke (fst (fs_read (unat n) (filestream b))) buf) = Inr buf'"
    by (metis obj_sumE)
  with fs_tellg_not_good [OF ng] show ?thesis
    by (simp add: store_record_def split_beta Let_def read_failed_def minus_one_max)
qed

lemma read_message_broken_topic:
  fixes ts :: "64 word"
  assumes r: "reading (pre @ le_word 8 ts @ s) (length pre) b" and tp: "CHR 0x0A \<notin> set s"
    and n: "unat n + kCheapPrepend \<le> max_vector"
  shows "\<exists>b'. read_message n b = (Inr (), b') \<and> read_failed b'"
proof -
  let ?b8 = "b\<lparr>filestream := (filestream b)\<lparr>f_pos := length pre + 8\<rparr>\<rparr>"
  let ?f = "snd (fs_getline (filestream ?b8))" and ?tp = "fst (fs_getline (filestream ?b8))"
  have w: "read_word b = (ts, ?b8)" using r by (rule read_word_reading)
  have r8: "reading ((pre @ le_word 8 ts) @ s) (length (pre @ le_word 8 ts)) ?b8"
    using reading_at [OF r, of "length pre + 8"] by simp
  have ng: "\<not> fs_good ?f" using getline_eof [OF r8 tp] .
  obtain buf where buf: "Buffer_new (unat n) = Inr buf" "writableBytes buf = unat n"
    using Buffer_new_ok [OF n] by metis
  let ?b = "b\<lparr>filestream := ?f\<rparr>"
  have step: "read_message n b = require_data n ?b (store_record n ts ?tp buf)"
    using w buf(1) by (simp add: read_message_def Let_def split_beta)
  have yes: "\<exists>b'. store_record n ts ?tp buf (snd (CheckEnoughDataToRead n ?b)) = (Inr (), b') \<and> read_failed b'"
    if "fst (CheckEnoughDataToRead n ?b)"
    using fs_tellg_not_good [OF ng] CheckEnough_yes [OF that] buf(2) by (intro store_record_failed) simp_all
  have no: "read_failed (snd (CheckEnoughDataToRead n ?b))" if "\<not> fst (CheckEnoughDataToRead n ?b)"
    using fs_tellg_not_good [OF ng] CheckEnough_no [OF that] that
    by (auto simp: read_failed_def CheckEnoughDataToRead_def split_beta Let_def)
  show ?thesis
    using yes no by (auto simp: step require_data_def)
qed

lemma ReadTopicIndexRecord100_broken:
  fixes n ts :: "64 word"
  assumes r: "reading (pre @ le_word 8 n @ le_word 8 ts @ s) (length pre) b"
    and tp: "CHR 0x0A \<notin> set s" and ne: "s \<noteq> []" and n: "unat n + kCheapPrepend \<le> max_vector"
  shows "\<exists>b'. ReadTopicIndexRecord100 b = (Inr (), b') \<and> read_failed b'"
proof -
  let ?d = "pre @ le_word 8 n @ le_word 8 ts @ s"
  let ?b1 = "b\<lparr>offset := word_of_nat (length pre)\<rparr>"
  let ?b8 = "?b1\<lparr>filestream := (filestream b)\<lparr>f_pos := length pre + 8\<rparr>\<rparr>"
  let ?b2 = "?b8\<lparr>offset := word_of_nat (length pre + 8)\<rparr>"
  have w: "read_word ?b1 = (n, ?b8)"
    using read_word_reading [of pre n "le_word 8 ts @ s" ?b1] r by simp
  have r8: "reading ?d (length pre + 8) ?b8"
    using reading_at [of ?d "length pre" ?b1 "length pre + 8"] r by simp
  have rm: "reading ((pre @ le_word 8 n) @ le_word 8 ts @ s) (length (pre @ le_word 8 n)) ?b2"
    using r8 by (simp del: of_nat_add)
  have "ReadTopicIndexRecord100 b =
      require_data 8 (tell_offset (snd (read_word ?b1))) (read_message (fst (read_word ?b1)))"
    using require_enough [of ?d "length pre" ?b1 8] tell_offset_reading [OF r] r
    by (simp add: ReadTopicIndexRecord100_def Let_def split_beta)
  also have "\<dots> = require_data 8 ?b2 (read_message n)"
    using tell_offset_reading [OF r8] by (simp add: w del: of_nat_add)
  also have "\<dots> = read_message n ?b2"
    using require_enough [of ?d "length pre + 8" ?b2 8] r8 ne by (simp del: of_nat_add)
  finally show ?thesis using read_message_broken_topic [OF rm tp n] by simp
qed

lemma read_records_broken:
  fixes n ts :: "64 word"
  assumes "reading (pre @ concat (map record_bytes rs) @ le_word 8 n @ le_word 8 ts @ s) (length pre) b"
    and "offset b = word_of_nat (length pre)" and "\<forall>r \<in> set rs. topic_ok r"
    and "CHR 0x0A \<notin> set s" and "s \<noteq> []" and "unat n + kCheapPrepend \<le> max_vector"
  shows "\<exists>b'. read_records b = (Inr (), b') \<and> f_fail (filestream b')"
proof -
  let ?q = "pre @ concat (map record_bytes rs)" and ?tail = "le_word 8 n @ le_word 8 ts @ s"
  have ne: "?tail \<noteq> []" using assms(5) by simp
  note r = reading_skipped [OF assms(1)]
  from ReadTopicIndexRecord100_broken [OF r assms(4,5,6)] obtain b1 where
    b1: "ReadTopicIndexRecord100 (skipped pre rs b) = (Inr (), b1)" "read_failed b1" by blast
  have "length ?q < length (?q @ ?tail)" using ne by simp
  moreover have "length (?q @ ?tail) < 2 ^ 63" using r by (simp only: reading_def)
  ultimately have "offset (skipped pre rs b) < file_size (skipped pre rs b)"
    using offset_in_file r by (simp add: reading_def skipped_def del: of_nat_add)
  with b1 have "read_records (skipped pre rs b) = read_records b1"
    by (subst read_records.simps) simp
  also have "\<dots> = (Inr (), b1)" using b1(2) by (subst read_records.simps) (simp add: read_failed_def)
  finally show ?thesis
    using read_records_skip [OF assms(1,2) ne assms(3)] b1(2) by (simp add: read_failed_def)
qed

lemma Bag_Open_read_broken:
  fixes n ts :: "64 word"
  assumes "\<not> is_open (filestream b)" and "files d name = Some data" and "length data < 2 ^ 63"
    and data: "data = version_line @ header_image h @ concat (map record_bytes rs) @ le_word 8 n @ le_word 8 ts @ s"
    and h: "header_ok h" and "\<forall>r \<in> set rs. topic_ok r" and "CHR 0x0A \<notin> set s" and "s \<noteq> []"
    and "unat n + kCheapPrepend \<le> max_vector" and "read_only m"
  shows "fst (Bag_Open now name m (b, d)) = Inl (MsgbagException (''bag open file error.'' @ name))"
proof -
  let ?pre = "version_line @ header_image h"
  have lp: "length ?pre = 1041" using h by (simp add: header_ok_def length_header_image)
  from Bag_Open_read_start [OF assms(1-5,10), of now] obtain b2 where
    O: "Bag_Open now name m (b, d) = finish_open name (rewound (read_records b2)) d"
    and b2: "reading data 1041 b2" "offset b2 = 1041" by blast
  have r2: "reading (?pre @ concat (map record_bytes rs) @ le_word 8 n @ le_word 8 ts @ s) (length ?pre) b2"
    using b2(1) lp data by simp
  from read_records_broken [OF r2 _ assms(6-9)] lp b2 obtain b3 where
    "read_records b2 = (Inr (), b3)" "f_fail (filestream b3)" by auto
  then show ?thesis by (simp add: O rewound_def finish_open_def with_disk_def)
qed

section \<open>A finished bag\<close>

definition finished_bag :: "64 word \<Rightarrow> 64 word \<Rightarrow> 32 word \<Rightarrow> string \<Rightarrow> string" where
  "finished_bag start stop msgs body = version_line @ header_image (final_header start stop msgs) @ body"

lemma writable_started:
  assumes "has_mode m BagMode_Write" and "1041 \<le> quota d" and "quota d < 2 ^ 63"
  shows "writable_bag now name (started now name m b d)"
  using assms
  by (simp add: writable_bag_def started_def bag_ready_def fs_ready_def fs_good_def bag_data_def
      fresh_bag_data_def)

lemma writable_extended:
  assumes "writable_bag now name b" and "length (bag_data b) + length s \<le> f_quota (filestream b)"
  shows "writable_bag now name (extended s b)"
  using assms
  by (auto simp: writable_bag_def) (auto simp: extended_def Let_def)

lemma write_session:
  assumes "\<not> is_open (filestream b)" and "creatable d name" and "quota d < 2 ^ 63"
    and "1041 + length (concat ss) \<le> quota d"
    and "has_mode m BagMode_Write" and "\<not> has_mode m BagMode_Append"
  shows "\<exists>b1 b2 b3 d1 d2. Bag_Open start name m (b, d) = (Inr (), (b1, d1)) \<and>
    Bag_Writes ss b1 = (Inr (), b2) \<and> Bag_Close stop (b2, d1) = (Inr (), (b3, d2)) \<and>
    d2 = d\<lparr>files := (files d)(name \<mapsto> finished_bag (NanoSecondsSinceEpoch start)
       (NanoSecondsSinceEpoch stop) (msg_count b) (concat ss))\<rparr> \<and> \<not> is_open (filestream b3) \<and>
    records b3 = records b"
proof -
  let ?b1 = "started start name m b d"
  have q: "1041 \<le> quota d" using assms(4) by simp
  note o = Bag_Open_write [OF assms(1,2) q assms(3,5,6)]
  have w1: "writable_bag start name ?b1" using assms(5) q assms(3) by (rule writable_started)
  have data: "bag_data ?b1 = fresh_bag_data b" by (simp add: started_def bag_data_def)
  have fit: "length (bag_data ?b1) + length (concat ss) \<le> f_quota (filestream ?b1)"
    using assms(4) by (simp add: data) (simp add: started_def)
  from Bag_Writes_ready [OF _ fit] w1 have W: "Bag_Writes ss ?b1 = (Inr (), extended (concat ss) ?b1)"
    by (simp add: writable_bag_def)
  note c = Bag_Close_write [OF writable_extended [OF w1 fit]]
  have "msg_count (extended (concat ss) ?b1) = msg_count b" "records (extended (concat ss) ?b1) = records b"
    by (simp_all add: extended_def started_def Let_def)
  with o W c show ?thesis
    by (simp add: data Bag_Init_def finished_bag_def)
qed

lemma dead_cut_record:
  assumes "topic_ok r" and "length (serialized_msg r) + 17 < 2 ^ 63"
    and "k \<le> 16 \<or> 16 + length (topic r) < k"
  shows "dead_tail (take k (record_bytes r))"
proof (cases "k \<le> 16")
  case True
  then have "length (take k (record_bytes r)) \<le> 16" by simp
  then show ?thesis unfolding dead_tail_def by blast
next
  case False
  let ?n = "length (serialized_msg r)"
  define j where "j = k - (17 + length (topic r))"
  have k: "k = 17 + length (topic r) + j" using False assms(3) by (simp add: j_def)
  have u: "unat (word_of_nat ?n :: 64 word) = ?n" using assms(2) by (intro unat_word_of_nat_small) simp
  have "take k (record_bytes r) = frame_bytes (word_of_nat ?n) (NanoSecondsSinceEpoch (timestamp_ns r))
      (topic r) (take j (serialized_msg r))"
    by (simp add: record_bytes_def frame_bytes_def k)
  then show ?thesis
    using assms u unfolding dead_tail_def topic_ok_def kCheapPrepend_def max_vector_def by fastforce
qed

lemma dead_record_bytes:
  "topic_ok r \<Longrightarrow> length (serialized_msg r) + 17 < 2 ^ 63 \<Longrightarrow> dead_tail (record_bytes r)"
  using dead_cut_record [of r "length (record_bytes r)"] by (simp add: record_bytes_def)

section \<open>Properties\<close>

text \<open>
  C7. A recording session produces exactly the documented file: opening a bag for writing, any
  number of writes and closing leave on the disk the version line, the header record of exactly
  1028 bytes with the times of opening and closing, and the bytes written, in order. The second
  header record, written by \<open>Close\<close>, overwrites the first and no byte of a record.
\<close>

theorem bag_file_layout:
  assumes "\<not> is_open (filestream b)" and "creatable d name" and "quota d < 2 ^ 63"
    and "1041 + length (concat ss) \<le> quota d"
    and "has_mode m BagMode_Write" and "\<not> has_mode m BagMode_Append"
  shows "\<exists>b1 b2 b3 d1 d2 header. Bag_Open start name m (b, d) = (Inr (), (b1, d1)) \<and>
    Bag_Writes ss b1 = (Inr (), b2) \<and> Bag_Close stop (b2, d1) = (Inr (), (b3, d2)) \<and>
    \<not> is_open (filestream b3) \<and>
    files d2 = (files d)(name \<mapsto> ''#MSGBAG V1.0'' @ [CHR 0x0A] @ header @ concat ss) \<and>
    length header = 1028 \<and>
    header = header_bytes [(''end_time'', show_int (sint (NanoSecondsSinceEpoch stop))),
        (''msg_count'', show_nat (unat (msg_count b))), (''op'', ''0x01''),
        (''start_time'', show_int (sint (NanoSecondsSinceEpoch start)))] @
      replicate (1028 - length (header_bytes [(''end_time'', show_int (sint (NanoSecondsSinceEpoch stop))),
        (''msg_count'', show_nat (unat (msg_count b))), (''op'', ''0x01''),
        (''start_time'', show_int (sint (NanoSecondsSinceEpoch start)))])) (CHR '' '')"
proof -
  let ?h = "final_header (NanoSecondsSinceEpoch start) (NanoSecondsSinceEpoch stop) (msg_count b)"
  have "header_image ?h = header_bytes ?h @ replicate (1028 - length (header_bytes ?h)) (CHR '' '')"
    by (simp add: header_image_def FILE_HEADER_LEN_def)
  note h = length_final_image [of "NanoSecondsSinceEpoch start" "NanoSecondsSinceEpoch stop" "msg_count b"] this
  from write_session [OF assms, of start stop] obtain b1 b2 b3 d1 d2 where
    s: "Bag_Open start name m (b, d) = (Inr (), (b1, d1))" "Bag_Writes ss b1 = (Inr (), b2)"
      "Bag_Close stop (b2, d1) = (Inr (), (b3, d2))" "\<not> is_open (filestream b3)"
    and d2: "d2 = d\<lparr>files := (files d)(name \<mapsto> finished_bag (NanoSecondsSinceEpoch start)
       (NanoSecondsSinceEpoch stop) (msg_count b) (concat ss))\<rparr>" by blast
  have "files d2 = (files d)(name \<mapsto> ''#MSGBAG V1.0'' @ [CHR 0x0A] @ header_image ?h @ concat ss)"
    by (simp add: d2 finished_bag_def version_line_def)
  with s h show ?thesis unfolding final_header_def by blast
qed

theorem bag_file_layout_witness:
  "\<exists>b1 b2 b3 d1 d2 header.
     Bag_Open (Timestamp 5) ''a.bag'' BagMode_Write (Bag_new, \<lparr>files = Map.empty, creatable = (\<lambda>_. True), quota = 5000\<rparr>) =
       (Inr (), (b1, d1)) \<and>
     Bag_Writes [''ab'', ''c''] b1 = (Inr (), b2) \<and> Bag_Close (Timestamp 9) (b2, d1) = (Inr (), (b3, d2)) \<and>
     length header = 1028 \<and> files d2 ''a.bag'' = Some (''#MSGBAG V1.0'' @ [CHR 0x0A] @ header @ ''abc'')"
proof -
  let ?d = "\<lparr>files = Map.empty, creatable = (\<lambda>_. True), quota = 5000\<rparr>"
  have pre: "\<not> is_open (filestream Bag_new)" "creatable ?d ''a.bag''" "quota ?d < 2 ^ 63"
    "1041 + length (concat [''ab'', ''c'']) \<le> quota ?d"
    "has_mode BagMode_Write BagMode_Write" "\<not> has_mode BagMode_Write BagMode_Append"
    by (simp_all add: Bag_new_def Bag_Init_def fstream_default_def has_mode_def BagMode_Write_def BagMode_Append_def)
  from bag_file_layout [OF pre, of "Timestamp 5" "Timestamp 9"] obtain b1 b2 b3 d1 d2 header where
    r: "Bag_Open (Timestamp 5) ''a.bag'' BagMode_Write (Bag_new, ?d) = (Inr (), (b1, d1))"
      "Bag_Writes [''ab'', ''c''] b1 = (Inr (), b2)" "Bag_Close (Timestamp 9) (b2, d1) = (Inr (), (b3, d2))"
      "length header = 1028"
    and f: "files d2 = (files ?d)(''a.bag'' \<mapsto> ''#MSGBAG V1.0'' @ [CHR 0x0A] @ header @ concat [''ab'', ''c''])"
    by blast
  from f have "files d2 ''a.bag'' = Some (''#MSGBAG V1.0'' @ [CHR 0x0A] @ header @ ''abc'')" by simp
  with r show ?thesis by blast
qed

text \<open>
  C9. What survives a recording: writing the records \<open>rs @ [r]\<close> and closing, then opening the
  file for reading, gives back every record but the last, as the stable sort by time of
  \<open>rs\<close>. The last one is lost because \<open>CheckEnoughDataToRead\<close> wants strictly more bytes than
  the message has.
\<close>

theorem bag_roundtrip_loses_last:
  assumes "creatable d name" and "quota d < 2 ^ 63"
    and "1041 + length (concat (map record_bytes (rs @ [r]))) \<le> quota d"
    and "\<forall>x \<in> set (rs @ [r]). topic_ok x"
  shows "\<exists>b1 b2 b3 d1 d2 b4. Bag_Open start name BagMode_Write (Bag_new, d) = (Inr (), (b1, d1)) \<and>
    Bag_Writes (map record_bytes (rs @ [r])) b1 = (Inr (), b2) \<and>
    Bag_Close stop (b2, d1) = (Inr (), (b3, d2)) \<and>
    Bag_Open later name BagMode_Read (Bag_new, d2) = (Inr (), (b4, d2)) \<and>
    records b4 = sort_key fst (map entry rs)"
proof -
  let ?ss = "map record_bytes (rs @ [r])"
  have m: "has_mode BagMode_Write BagMode_Write" "\<not> has_mode BagMode_Write BagMode_Append"
    by (simp_all add: has_mode_def BagMode_Write_def BagMode_Append_def)
  have closed: "\<not> is_open (filestream Bag_new)" by (simp add: Bag_new_def Bag_Init_def fstream_default_def)
  from write_session [OF closed assms(1,2,3) m(1,2), of start stop] obtain b1 b2 b3 d1 d2 where
    s: "Bag_Open start name BagMode_Write (Bag_new, d) = (Inr (), (b1, d1))" "Bag_Writes ?ss b1 = (Inr (), b2)"
      "Bag_Close stop (b2, d1) = (Inr (), (b3, d2))"
    and d2: "d2 = d\<lparr>files := (files d)(name \<mapsto> finished_bag (NanoSecondsSinceEpoch start)
       (NanoSecondsSinceEpoch stop) (msg_count Bag_new) (concat ?ss))\<rparr>" by blast
  let ?h = "final_header (NanoSecondsSinceEpoch start) (NanoSecondsSinceEpoch stop) (msg_count Bag_new)"
  define data where "data = version_line @ header_image ?h @ concat (map record_bytes rs) @ record_bytes r"
  have f: "files d2 name = Some data" by (simp add: d2 data_def finished_bag_def)
  have len: "length data < 2 ^ 63" using assms(2,3) by (simp add: data_def)
  have "topic_ok r" and n: "length (serialized_msg r) + 17 < 2 ^ 63"
    using assms len by (simp_all add: data_def record_bytes_def)
  then have dead: "dead_tail (record_bytes r)" "record_bytes r \<noteq> []"
    using dead_record_bytes by (auto simp: record_bytes_def)
  from Bag_Open_read [OF closed f len data_def final_header_ok _ dead read_only_Read, of later] assms(4)
  obtain b4 where "Bag_Open later name BagMode_Read (Bag_new, d2) = (Inr (), (b4, d2))"
    "records b4 = mm_insert_all (map entry rs) (records Bag_new)" by auto
  moreover have "mm_insert_all (map entry rs) (records Bag_new) = sort_key fst (map entry rs)"
    by (simp add: Bag_new_def Bag_Init_def mm_insert_all_sort_key)
  ultimately show ?thesis using s by metis
qed

theorem bag_roundtrip_loses_last_witness:
  "\<exists>b1 b2 b3 d1 d2 b4.
     Bag_Open (Timestamp 1) ''a.bag'' BagMode_Write (Bag_new, \<lparr>files = Map.empty, creatable = (\<lambda>_. True), quota = 5000\<rparr>) =
       (Inr (), (b1, d1)) \<and>
     Bag_Writes (map record_bytes ([MessageRecord 7 ''/tf'' ''x'', MessageRecord 3 ''/gps'' ''y''] @
         [MessageRecord 9 ''/tf'' ''z''])) b1 = (Inr (), b2) \<and>
     Bag_Close (Timestamp 2) (b2, d1) = (Inr (), (b3, d2)) \<and>
     Bag_Open (Timestamp 3) ''a.bag'' BagMode_Read (Bag_new, d2) = (Inr (), (b4, d2)) \<and>
     map snd (records b4) = [MessageRecord 3 ''/gps'' ''y'', MessageRecord 7 ''/tf'' ''x'']"
proof -
  let ?d = "\<lparr>files = Map.empty, creatable = (\<lambda>_. True), quota = 5000\<rparr>"
  let ?rs = "[MessageRecord 7 ''/tf'' ''x'', MessageRecord 3 ''/gps'' ''y'']" and ?r = "MessageRecord 9 ''/tf'' ''z''"
  have pre: "creatable ?d ''a.bag''" "quota ?d < 2 ^ 63"
    "1041 + length (concat (map record_bytes (?rs @ [?r]))) \<le> quota ?d" "\<forall>x \<in> set (?rs @ [?r]). topic_ok x"
    by (simp_all add: record_bytes_def MessageRecord_def topic_ok_def)
  have "Timestamp 3 < Timestamp 7" by code_simp
  then have "map snd (sort_key fst (map entry ?rs)) = [MessageRecord 3 ''/gps'' ''y'', MessageRecord 7 ''/tf'' ''x'']"
    by (simp add: entry_def MessageRecord_def not_le)
  with bag_roundtrip_loses_last [OF pre, of "Timestamp 1" "Timestamp 2" "Timestamp 3"] show ?thesis by metis
qed

text \<open>
  C26. Recovery after a crash: a file that ends inside a record -- in its length, its time, or its
  message, or exactly at its end -- opens, and every record before that one is read, in time order
  with ties in file order. A file whose last byte belongs to no record (\<open>k = 1\<close>) is read in full.
\<close>

theorem bag_read_after_crash:
  assumes "files d name = Some data" and "length data < 2 ^ 63"
    and "data = version_line @ header_image h @ concat (map record_bytes rs) @ take k (record_bytes r)"
    and "header_ok h" and "\<forall>x \<in> set rs. topic_ok x" and "topic_ok r"
    and "length (serialized_msg r) + 17 < 2 ^ 63"
    and "0 < k" and "k \<le> 16 \<or> 16 + length (topic r) < k"
  shows "\<exists>b'. Bag_Open now name BagMode_Read (Bag_new, d) = (Inr (), (b', d)) \<and>
    records b' = sort_key fst (map entry rs) \<and> version b' = 100"
proof -
  have closed: "\<not> is_open (filestream Bag_new)" by (simp add: Bag_new_def Bag_Init_def fstream_default_def)
  have "record_bytes r \<noteq> []" by (simp add: record_bytes_def)
  then have ne: "take k (record_bytes r) \<noteq> []" using assms(8) by simp
  have dead: "dead_tail (take k (record_bytes r))"
    using dead_cut_record [OF assms(6,7,9)] .
  from Bag_Open_read [OF closed assms(1-5) dead ne read_only_Read, of now]
  show ?thesis by (auto simp: Bag_new_def Bag_Init_def mm_insert_all_sort_key)
qed

theorem bag_read_after_crash_witness:
  "\<exists>b'. Bag_Open (Timestamp 1) ''a.bag'' BagMode_Read (Bag_new,
       \<lparr>files = [''a.bag'' \<mapsto> version_line @ header_image [(''op'', ''0x01'')] @
          record_bytes (MessageRecord 5 ''/tf'' ''ab'') @ take 21 (record_bytes (MessageRecord 6 ''/tf'' ''cd''))],
         creatable = (\<lambda>_. False), quota = 0\<rparr>) = (Inr (), (b', \<lparr>files = [''a.bag'' \<mapsto> version_line @ header_image [(''op'', ''0x01'')] @
          record_bytes (MessageRecord 5 ''/tf'' ''ab'') @ take 21 (record_bytes (MessageRecord 6 ''/tf'' ''cd''))],
         creatable = (\<lambda>_. False), quota = 0\<rparr>)) \<and>
     records b' = [(Timestamp 5, MessageRecord 5 ''/tf'' ''ab'')]"
proof -
  let ?h = "[(''op'', ''0x01'')]"
  let ?data = "version_line @ header_image ?h @ record_bytes (MessageRecord 5 ''/tf'' ''ab'') @
      take 21 (record_bytes (MessageRecord 6 ''/tf'' ''cd''))"
  let ?d = "\<lparr>files = [''a.bag'' \<mapsto> ?data], creatable = (\<lambda>_. False), quota = 0\<rparr>"
  have h: "header_ok ?h" by (simp add: header_ok_def FILE_HEADER_LEN_def field_text_def)
  then have "length (header_image ?h) = 1028" by (simp add: header_ok_def length_header_image)
  then have pre: "files ?d ''a.bag'' = Some ?data" "length ?data < 2 ^ 63"
    "?data = version_line @ header_image ?h @ concat (map record_bytes [MessageRecord 5 ''/tf'' ''ab'']) @
      take 21 (record_bytes (MessageRecord 6 ''/tf'' ''cd''))"
    by (simp_all add: record_bytes_def MessageRecord_def)
  from bag_read_after_crash [OF pre h, of "Timestamp 1"] show ?thesis
    by (simp add: topic_ok_def MessageRecord_def entry_def) blast
qed

text \<open>
  A file that ends inside a topic name cannot be opened: \<open>getline\<close> meets the end of the
  file, the stream stays failed, and \<open>Open\<close> throws although every record before was read.
\<close>

theorem bag_cut_topic_unreadable:
  assumes "files d name = Some data" and "length data < 2 ^ 63"
    and "data = version_line @ header_image h @ concat (map record_bytes rs) @ take k (record_bytes r)"
    and "header_ok h" and "\<forall>x \<in> set rs. topic_ok x" and "topic_ok r"
    and "length (serialized_msg r) + 17 < 2 ^ 63"
    and "16 < k" and "k \<le> 16 + length (topic r)"
  shows "fst (Bag_Open now name BagMode_Read (Bag_new, d)) =
    Inl (MsgbagException (''bag open file error.'' @ name))"
proof -
  let ?n = "length (serialized_msg r)" and ?s = "take (k - 16) (topic r)"
  have closed: "\<not> is_open (filestream Bag_new)" by (simp add: Bag_new_def Bag_Init_def fstream_default_def)
  have u: "unat (word_of_nat ?n :: 64 word) = ?n" using assms(7) by (intro unat_word_of_nat_small) simp
  have cut: "take k (record_bytes r) = le_word 8 (word_of_nat ?n :: 64 word) @
      le_word 8 (NanoSecondsSinceEpoch (timestamp_ns r)) @ ?s"
    using assms(8,9) by (simp add: record_bytes_def)
  have "CHR 0x0A \<notin> set ?s" using assms(6) by (auto simp: topic_ok_def dest: in_set_takeD)
  moreover have "?s \<noteq> []" using assms(8,9) by auto
  moreover have "unat (word_of_nat ?n :: 64 word) + kCheapPrepend \<le> max_vector"
    unfolding u using assms(7) by (simp add: kCheapPrepend_def max_vector_def)
  ultimately show ?thesis
    using Bag_Open_read_broken [OF closed assms(1,2) assms(3) [unfolded cut] assms(4,5) _ _ _ read_only_Read]
    by blast
qed

theorem bag_cut_topic_unreadable_witness:
  "fst (Bag_Open (Timestamp 1) ''a.bag'' BagMode_Read (Bag_new,
       \<lparr>files = [''a.bag'' \<mapsto> version_line @ header_image [(''op'', ''0x01'')] @
          record_bytes (MessageRecord 5 ''/tf'' ''ab'') @ take 18 (record_bytes (MessageRecord 6 ''/tf'' ''cd''))],
         creatable = (\<lambda>_. False), quota = 0\<rparr>)) = Inl (MsgbagException ''bag open file error.a.bag'')"
proof -
  let ?h = "[(''op'', ''0x01'')]"
  let ?data = "version_line @ header_image ?h @ record_bytes (MessageRecord 5 ''/tf'' ''ab'') @
      take 18 (record_bytes (MessageRecord 6 ''/tf'' ''cd''))"
  let ?d = "\<lparr>files = [''a.bag'' \<mapsto> ?data], creatable = (\<lambda>_. False), quota = 0\<rparr>"
  have h: "header_ok ?h" by (simp add: header_ok_def FILE_HEADER_LEN_def field_text_def)
  then have "length (header_image ?h) = 1028" by (simp add: header_ok_def length_header_image)
  then have pre: "files ?d ''a.bag'' = Some ?data" "length ?data < 2 ^ 63"
    "?data = version_line @ header_image ?h @ concat (map record_bytes [MessageRecord 5 ''/tf'' ''ab'']) @
      take 18 (record_bytes (MessageRecord 6 ''/tf'' ''cd''))"
    by (simp_all add: record_bytes_def MessageRecord_def)
  from bag_cut_topic_unreadable [OF pre h, of "Timestamp 1"] show ?thesis
    by (simp add: topic_ok_def MessageRecord_def)
qed

section \<open>Append mode\<close>

text \<open>
  \<open>OpenReadWrite\<close> opens the file with \<open>ios::app\<close>, so every write goes to the end, the header
  record of \<open>Close\<close> too.
\<close>

definition appending :: "string \<Rightarrow> bag \<Rightarrow> bool" where
  "appending name b \<longleftrightarrow> is_open (filestream b) \<and> fs_good (filestream b) \<and> f_out (filestream b) \<and>
     f_app (filestream b) \<and> f_name (filestream b) = name \<and> f_quota (filestream b) < 2 ^ 63 \<and>
     f_pos (filestream b) < 2 ^ 63 \<and> has_mode (mode b) BagMode_Append \<and> 0 \<le> sint (file_header_pos b)"

lemma fs_write_app:
  assumes "is_open f" and "fs_good f" and "f_out f" and "f_app f"
    and "length (f_data f) + length s \<le> f_quota f"
  shows "fs_write s f = f\<lparr>f_data := f_data f @ s, f_pos := length (f_data f) + length s\<rparr>"
  using assms by (simp add: fs_write_def Let_def)

lemma Bag_Write_appending:
  assumes "appending name b" and "length (bag_data b) + length s \<le> f_quota (filestream b)"
  shows "Bag_Write s b = (Inr (), extended s b)"
proof -
  have w: "fs_write s (filestream b) =
      (filestream b)\<lparr>f_data := bag_data b @ s, f_pos := length (bag_data b) + length s\<rparr>"
    using assms by (simp add: fs_write_app appending_def bag_data_def)
  from assms show ?thesis
    by (subst Bag_Write_def, subst w, subst UpdateFileInfo_ready)
      (simp_all add: appending_def bag_data_def fs_ready_def fs_good_def extended_def Let_def)
qed

lemma appending_extended:
  "appending name b \<Longrightarrow> length (bag_data b) + length s \<le> f_quota (filestream b) \<Longrightarrow> appending name (extended s b)"
  by (auto simp: appending_def extended_def fs_good_def Let_def)

lemma Bag_Writes_appending:
  assumes "appending name b" and "length (bag_data b) + length (concat ss) \<le> f_quota (filestream b)"
  shows "\<exists>b'. Bag_Writes ss b = (Inr (), b') \<and> appending name b' \<and>
    bag_data b' = bag_data b @ concat ss \<and> f_quota (filestream b') = f_quota (filestream b)"
  using assms
proof (induction ss arbitrary: b)
  case Nil
  then show ?case by simp
next
  case (Cons s ss)
  have fit: "length (bag_data b) + length s \<le> f_quota (filestream b)" using Cons.prems(2) by simp
  from Cons.IH [OF appending_extended [OF Cons.prems(1) fit]] Cons.prems(2) show ?case
    by (simp add: Bag_Write_appending [OF Cons.prems(1) fit])
qed

lemma Bag_Open_append:
  assumes "\<not> is_open (filestream b)" and "files d name = Some (version_line @ rest)"
    and "quota d < 2 ^ 63" and "length (version_line @ rest) < 2 ^ 63" and "has_mode m BagMode_Append"
    and "0 \<le> sint (file_header_pos b)"
  shows "\<exists>b'. Bag_Open now name m (b, d) = (Inr (), (b', d)) \<and> appending name b' \<and>
    bag_data b' = version_line @ rest \<and> f_quota (filestream b') = quota d"
proof -
  let ?data = "version_line @ rest"
  obtain f where o: "fs_open name OpenIn (filestream b, d) = (f, d)" and f: "is_open f" "fs_good f" "\<not> f_out f"
    using assms(1,2) by (simp add: fs_open_def fs_good_def)
  define g where "g = f\<lparr>is_open := False\<rparr>"
  have c: "fs_close (f, d) = (g, d)" using f by (simp add: fs_close_def g_def)
  define e where "e = fst (fs_open name OpenInOutApp (g, d))"
  have o2: "fs_open name OpenInOutApp (g, d) = (e, d)" and e: "is_open e" "fs_good e" "f_in e" "f_out e"
    "f_app e" "f_name e = name" "f_data e = ?data" "f_pos e = 0" "f_quota e = quota d"
    using assms(2) by (simp_all add: e_def fs_open_def fs_good_def g_def)
  let ?b1 = "b\<lparr>mode := m, filestream := e\<rparr>"
  let ?b2 = "?b1\<lparr>filestream := e\<lparr>f_pos := 13\<rparr>, offset := 13, version := 100\<rparr>"
  have V: "ReadVersion ?b1 = (Inr (), ?b2)" using ReadVersion_line [of ?b1 rest] e by simp
  let ?b3 = "?b2\<lparr>filename := name, offset := 13, file_size := word_of_nat (length ?data)\<rparr>"
  have U: "UpdateFileInfo (?b2\<lparr>filename := name\<rparr>) = (Inr (), ?b3)"
    using e by (subst UpdateFileInfo_open) (simp_all add: bag_data_def fs_good_def)
  have nf: "\<not> f_fail f" "\<not> f_fail e" using f e by (simp_all add: fs_good_def)
  have OA: "OpenReadWrite name (b\<lparr>mode := m\<rparr>, d) = (Inr (), (?b2, d))"
    using o c o2 V nf by (simp add: OpenReadWrite_def open_stream_def close_stream_def with_disk_def Let_def)
  have "Bag_Open now name m (b, d) = (Inr (), (?b3, d))"
    using assms(1,5) OA U nf by (simp add: Bag_Open_def with_disk_def Let_def)
  moreover have "appending name ?b3" using e assms(3,5,6) by (simp add: appending_def fs_good_def)
  ultimately show ?thesis using e by (intro exI [of _ ?b3]) (simp add: bag_data_def)
qed

lemma Bag_Close_appending:
  assumes "appending name b" and "length (bag_data b) + 1028 \<le> f_quota (filestream b)"
  shows "\<exists>b' start stop' msgs. Bag_Close stop (b, d) = (Inr (), (b',
    d\<lparr>files := (files d)(name \<mapsto> bag_data b @ header_image (final_header start stop' msgs))\<rparr>))"
  using assms
  by (simp add: Bag_Close_def CloseWrite_def StopWriting_def WriteHeaderRecord_eq appending_def
      fs_good_def fs_seekp_def fs_seekp_end_def fs_write_def overwrite_end [unfolded overwrite_def]
      close_stream_def fs_close_def with_disk_def bag_data_def Let_def)
    (auto simp: overwrite_def)

lemma le_val_append: "le_val (xs @ ys) = le_val xs + 256 ^ length xs * le_val ys"
  by (induction xs) (simp_all add: algebra_simps)

lemma word_le_eight: "length bs = 8 \<Longrightarrow> le_word 8 (word_le bs :: 64 word) = bs"
  using le_val_bound [of bs] le_bytes_le_val [of bs]
  by (simp add: word_le_def le_word_def unat_word_of_nat_small)

lemma le_bytes_4_small: "k < 256 \<Longrightarrow> le_bytes 4 k = [char_of k, CHR 0x00, CHR 0x00, CHR 0x00]"
proof -
  have "char_of (0 :: nat) = CHR 0x00" by code_simp
  then have "le_bytes (Suc (Suc (Suc (Suc 0)))) k = [char_of k, CHR 0x00, CHR 0x00, CHR 0x00]" if "k < 256"
    using that by simp
  moreover have "(4::nat) = Suc (Suc (Suc (Suc 0)))" by simp
  ultimately show "k < 256 \<Longrightarrow> le_bytes 4 k = [char_of k, CHR 0x00, CHR 0x00, CHR 0x00]"
    by (simp only:)
qed

lemma le_word_4_small:
  assumes "k < 256"
  shows "le_word 4 (word_of_nat k :: 32 word) = [char_of k, CHR 0x00, CHR 0x00, CHR 0x00]"
proof -
  have "unat (word_of_nat k :: 32 word) = k" using assms by (intro unat_word_of_nat_small) simp
  then show ?thesis by (simp only: le_word_def le_bytes_4_small [OF assms])
qed

lemma char_of_not_LF:
  fixes k :: nat
  assumes "k < 256" and "k \<noteq> 10"
  shows "char_of k \<noteq> CHR 0x0A"
proof
  assume "char_of k = CHR 0x0A"
  then have "(of_char (char_of k :: char) :: nat) = of_char (CHR 0x0A)" by (rule arg_cong)
  with assms show False by simp
qed

text \<open>The header record read as a record: a length, a time, and text without a line feed.\<close>

lemma header_image_broken:
  obtains n ts :: "64 word" and s where
    "header_image (final_header start stop msgs) = le_word 8 n @ le_word 8 ts @ s"
    and "CHR 0x0A \<notin> set s" and "s \<noteq> []" and "unat n + kCheapPrepend \<le> max_vector"
proof -
  define h where "h = final_header start stop msgs"
  define k where "k = length (header_body h)"
  let ?e = "show_int (sint stop)" and ?c = "show_nat (unat msgs)" and ?b = "show_int (sint start)"
  have le: "length ?e \<le> 20" "length ?b \<le> 20" by (rule length_show_sint)+
  have lc: "length ?c \<le> 10" "0 < length ?c" by (rule length_show_unat) (cases ?c; simp)
  have lb: "0 < length ?b" by (simp add: show_int_def)
  have k: "k < 256" using final_header_short [of start stop msgs] by (simp add: k_def h_def)
  have num: "CHR 0x0A \<notin> set ?e" "CHR 0x0A \<notin> set ?b" "CHR 0x0A \<notin> set ?c"
    using show_int_no_sep show_nat_digits [of "CHR 0x0A" "unat msgs"] by (auto simp: is_digit_def)
  define s where "s = ''='' @ ?e @ field_bytes (''msg_count'', ?c) @ field_bytes (''op'', ''0x01'') @
      field_bytes (''start_time'', ?b) @ replicate (FILE_HEADER_LEN - k) (CHR '' '')"
  define l where "l = le_word 4 (word_of_nat k :: 32 word) @ le_word 4 (word_of_nat (9 + length ?e) :: 32 word)"
  have img: "header_image h = l @ ''end_time'' @ s"
    by (simp add: header_image_def header_bytes_def s_def l_def k_def)
      (simp add: h_def final_header_def field_bytes_def field_text_def add_ac)
  have fields: "CHR 0x0A \<notin> set (field_bytes (x, v))"
    if "CHR 0x0A \<notin> set x" "CHR 0x0A \<notin> set v" "length x + 1 + length v < 256" "length x + 1 + length v \<noteq> 10"
    for x v
  proof -
    have "CHR 0x0A \<notin> set (le_word 4 (word_of_nat (length x + 1 + length v) :: 32 word))"
      unfolding le_word_4_small [OF that(3)] using char_of_not_LF [OF that(3,4)] by auto
    then show ?thesis using that(1,2) by (simp add: field_bytes_def field_text_def)
  qed
  have LF: "CHR 0x0A \<notin> set s"
    unfolding s_def using num lc le lb fields [of "''msg_count''" ?c] fields [of "''start_time''" ?b]
      fields [of "''op''" "''0x01''"] by simp
  have l4: "le_word 4 (word_of_nat k :: 32 word) = [char_of k, CHR 0x00, CHR 0x00, CHR 0x00]"
    "le_word 4 (word_of_nat (9 + length ?e) :: 32 word) = [char_of (9 + length ?e), CHR 0x00, CHR 0x00, CHR 0x00]"
    using k le by (intro le_word_4_small; simp)+
  have "le_val l = k + 4294967296 * (9 + length ?e)"
    using k le unfolding l_def l4 by simp
  then have "unat (word_le l :: 64 word) = k + 4294967296 * (9 + length ?e)"
    using k le unfolding word_le_def by (subst unat_word_of_nat_small) auto
  then have n: "unat (word_le l :: 64 word) + kCheapPrepend \<le> max_vector"
    using k le by (simp add: kCheapPrepend_def max_vector_def)
  have ll: "le_word 8 (word_le l :: 64 word) = l" by (rule word_le_eight) (simp add: l_def)
  have lt: "le_word 8 (word_le ''end_time'' :: 64 word) = ''end_time''" by (rule word_le_eight) simp
  have "s \<noteq> []" by (simp add: s_def)
  with img LF n show ?thesis
    using that [of "word_le l" "word_le ''end_time''" s] unfolding ll lt h_def by blast
qed

text \<open>
  Append mode destroys the bag: opening a good bag to append, writing records and closing
  keeps every old and new byte, but \<open>Close\<close> adds a second header record behind the last record,
  and from then on the file cannot be opened for reading.
\<close>

theorem bag_append_makes_unreadable:
  assumes "files d name = Some data" and "quota d < 2 ^ 63"
    and "data = version_line @ header_image h @ concat (map record_bytes rs)"
    and "length data + length (concat (map record_bytes rs')) + 1028 \<le> quota d"
    and "header_ok h" and "\<forall>x \<in> set (rs @ rs'). topic_ok x"
  shows "\<exists>b1 b2 b3 d' rec. Bag_Open t1 name BagMode_Append (Bag_new, d) = (Inr (), (b1, d)) \<and>
    Bag_Writes (map record_bytes rs') b1 = (Inr (), b2) \<and> Bag_Close t2 (b2, d) = (Inr (), (b3, d')) \<and>
    files d' name = Some (data @ concat (map record_bytes rs') @ rec) \<and> length rec = 1028 \<and>
    fst (Bag_Open t3 name BagMode_Read (Bag_new, d')) = Inl (MsgbagException (''bag open file error.'' @ name))"
proof -
  have m: "has_mode BagMode_Append BagMode_Append" by (simp add: has_mode_def BagMode_Append_def)
  have closed: "\<not> is_open (filestream Bag_new)" and pos: "0 \<le> sint (file_header_pos Bag_new)"
    by (simp_all add: Bag_new_def Bag_Init_def fstream_default_def)
  have d: "data = version_line @ (header_image h @ concat (map record_bytes rs))" using assms(3) by simp
  have len: "length data < 2 ^ 63" using assms(2,4) by simp
  from Bag_Open_append [OF closed assms(1) [unfolded d] assms(2) len [unfolded d] m pos, of t1]
  obtain b1 where O: "Bag_Open t1 name BagMode_Append (Bag_new, d) = (Inr (), (b1, d))"
    and b1: "appending name b1" "bag_data b1 = data" "f_quota (filestream b1) = quota d"
    unfolding d [symmetric] by blast
  from Bag_Writes_appending [OF b1(1), of "map record_bytes rs'"] assms(4) b1(2,3)
  obtain b2 where W: "Bag_Writes (map record_bytes rs') b1 = (Inr (), b2)" and b2: "appending name b2"
    "bag_data b2 = data @ concat (map record_bytes rs')" "f_quota (filestream b2) = quota d" by auto
  from Bag_Close_appending [OF b2(1), of t2 d] b2(2,3) assms(4) obtain b3 start stop msgs where
    C: "Bag_Close t2 (b2, d) = (Inr (), (b3, d\<lparr>files := (files d)(name \<mapsto>
        bag_data b2 @ header_image (final_header start stop msgs))\<rparr>))" by auto
  define d' where "d' = d\<lparr>files := (files d)(name \<mapsto> bag_data b2 @ header_image (final_header start stop msgs))\<rparr>"
  obtain n ts :: "64 word" and s where br: "header_image (final_header start stop msgs) = le_word 8 n @ le_word 8 ts @ s"
    "CHR 0x0A \<notin> set s" "s \<noteq> []" "unat n + kCheapPrepend \<le> max_vector" by (rule header_image_broken)
  define data' where "data' = version_line @ header_image h @ concat (map record_bytes (rs @ rs')) @ le_word 8 n @ le_word 8 ts @ s"
  have f: "files d' name = Some data'" "data' = data @ concat (map record_bytes rs') @ header_image (final_header start stop msgs)"
    by (simp_all add: d'_def data'_def b2(2) assms(3) flip: br(1))
  have len': "length data' < 2 ^ 63" using assms(2,4) by (simp add: f(2))
  have "fst (Bag_Open t3 name BagMode_Read (Bag_new, d')) = Inl (MsgbagException (''bag open file error.'' @ name))"
    by (rule Bag_Open_read_broken [OF closed f(1) len' data'_def assms(5,6) br(2-4) read_only_Read])
  moreover have "Bag_Close t2 (b2, d) = (Inr (), (b3, d'))" using C by (simp add: d'_def)
  ultimately show ?thesis using O W f length_final_image by blast
qed

theorem bag_append_makes_unreadable_witness:
  "\<exists>b1 b2 b3 d'. Bag_Open (Timestamp 1) ''a.bag'' BagMode_Append (Bag_new,
       \<lparr>files = [''a.bag'' \<mapsto> version_line @ header_image [(''op'', ''0x01'')] @ record_bytes (MessageRecord 5 ''/tf'' ''ab'')],
         creatable = (\<lambda>_. False), quota = 5000\<rparr>) = (Inr (), (b1, \<lparr>files = [''a.bag'' \<mapsto> version_line @ header_image [(''op'', ''0x01'')] @
           record_bytes (MessageRecord 5 ''/tf'' ''ab'')], creatable = (\<lambda>_. False), quota = 5000\<rparr>)) \<and>
     Bag_Writes [record_bytes (MessageRecord 6 ''/tf'' ''cd'')] b1 = (Inr (), b2) \<and>
     Bag_Close (Timestamp 2) (b2, \<lparr>files = [''a.bag'' \<mapsto> version_line @ header_image [(''op'', ''0x01'')] @
           record_bytes (MessageRecord 5 ''/tf'' ''ab'')], creatable = (\<lambda>_. False), quota = 5000\<rparr>) = (Inr (), (b3, d')) \<and>
     fst (Bag_Open (Timestamp 3) ''a.bag'' BagMode_Read (Bag_new, d')) = Inl (MsgbagException ''bag open file error.a.bag'')"
proof -
  let ?h = "[(''op'', ''0x01'')]"
  let ?data = "version_line @ header_image ?h @ record_bytes (MessageRecord 5 ''/tf'' ''ab'')"
  let ?d = "\<lparr>files = [''a.bag'' \<mapsto> ?data], creatable = (\<lambda>_. False), quota = 5000\<rparr>"
  have h: "header_ok ?h" by (simp add: header_ok_def FILE_HEADER_LEN_def field_text_def)
  then have l: "length (header_image ?h) = 1028" by (simp add: header_ok_def length_header_image)
  then have pre: "files ?d ''a.bag'' = Some ?data" "quota ?d < 2 ^ 63"
    "?data = version_line @ header_image ?h @ concat (map record_bytes [MessageRecord 5 ''/tf'' ''ab''])"
    "length ?data + length (concat (map record_bytes [MessageRecord 6 ''/tf'' ''cd''])) + 1028 \<le> quota ?d"
    by (simp_all add: record_bytes_def MessageRecord_def)
  have t: "\<forall>x \<in> set ([MessageRecord 5 ''/tf'' ''ab''] @ [MessageRecord 6 ''/tf'' ''cd'']). topic_ok x"
    by (simp add: topic_ok_def MessageRecord_def)
  from bag_append_makes_unreadable [OF pre h t, of "Timestamp 1" "Timestamp 2" "Timestamp 3"]
  show ?thesis by simp blast
qed

text \<open>
  A file that neither exists nor can be created is refused in every mode with the mode's own
  exception; appending is tried before writing and writing before reading, the disk is as it was
  and the bag is not left open.
\<close>

theorem bag_open_missing_file:
  assumes "\<not> is_open (filestream b)" and "files d name = None" and "\<not> creatable d name"
    and "has_mode m BagMode_Append \<or> has_mode m BagMode_Write \<or> has_mode m BagMode_Read"
  shows "\<exists>b'. Bag_Open now name m (b, d) = (Inl (MsgbagException
      (if has_mode m BagMode_Append then ''File not exist :'' @ name
       else if has_mode m BagMode_Write then ''bag openreadwrite open file error,filename:'' @ name
       else ''Bag::OpenRead file:'' @ name @ '' failed.'')), (b', d)) \<and> \<not> is_open (filestream b')"
  using assms
  by (auto simp: Bag_Open_def OpenReadWrite_def OpenWrite_def OpenRead_def open_stream_def fs_open_def
      set_fail_def Let_def)

theorem bag_open_missing_file_witness:
  "\<exists>b'. Bag_Open (Timestamp 1) ''x'' (BagMode_Write OR BagMode_Append) (Bag_new,
      \<lparr>files = Map.empty, creatable = (\<lambda>_. False), quota = 0\<rparr>) =
    (Inl (MsgbagException ''File not exist :x''), (b', \<lparr>files = Map.empty, creatable = (\<lambda>_. False), quota = 0\<rparr>))"
proof -
  let ?d = "\<lparr>files = Map.empty, creatable = (\<lambda>_. False), quota = 0\<rparr>" and ?m = "BagMode_Write OR BagMode_Append"
  have pre: "\<not> is_open (filestream Bag_new)" "files ?d ''x'' = None" "\<not> creatable ?d ''x''"
    by (simp_all add: Bag_new_def Bag_Init_def fstream_default_def)
  have m: "has_mode ?m BagMode_Append" by (simp add: has_mode_def BagMode_Write_def BagMode_Append_def)
  from bag_open_missing_file [OF pre, of ?m "Timestamp 1"] m show ?thesis by auto
qed

end
