(* ===== verification/GetOpt.thy ===== *)
theory GetOpt
  imports Prelude
begin

text \<open>
  \<open>getopt_long\<close> of the C library, as far as the two programs use it: tables of long options that
  take an argument or none, a string of option letters, abbreviated long names, letters joined in
  one argument, and the permutation that moves the other arguments behind the options. The
  answers of the successive calls are computed at once: one \<open>opt_event\<close> per call, with the
  value of \<open>lopt\<close>, of \<open>optarg\<close>, and of \<open>argv[optind]\<close> (none at the end, where it is a null
  pointer); then the arguments the callers find from \<open>optind\<close> on when the calls are over.
\<close>

record opt_event =
  opt_c :: char
  opt_l :: int
  optarg :: string
  next_arg :: "string option"

text \<open>\<open>struct option\<close>; \<open>lo_flag\<close> tells whether \<open>flag\<close> is \<open>&lopt\<close> or null.\<close>

record long_opt =
  lo_name :: string
  lo_arg :: bool
  lo_flag :: bool
  lo_val :: int

abbreviation (input) no_argument :: bool where "no_argument \<equiv> False"
abbreviation (input) required_argument :: bool where "required_argument \<equiv> True"

text \<open>An option by its letter, and an option that stores a number in \<open>lopt\<close>.\<close>

definition letter_opt :: "string \<Rightarrow> bool \<Rightarrow> char \<Rightarrow> long_opt" where
  "letter_opt name arg c = \<lparr>lo_name = name, lo_arg = arg, lo_flag = False, lo_val = of_char c\<rparr>"

definition lopt_opt :: "string \<Rightarrow> bool \<Rightarrow> int \<Rightarrow> long_opt" where
  "lopt_opt name arg n = \<lparr>lo_name = name, lo_arg = arg, lo_flag = True, lo_val = n\<rparr>"

definition same_opt :: "long_opt \<Rightarrow> long_opt \<Rightarrow> bool" where
  "same_opt a b \<longleftrightarrow> lo_arg a = lo_arg b \<and> lo_flag a = lo_flag b \<and> lo_val a = lo_val b"

text \<open>The option with exactly this name, or the only one the name abbreviates.\<close>

definition find_long :: "long_opt list \<Rightarrow> string \<Rightarrow> long_opt option" where
  "find_long los name =
     (case List.find (\<lambda>x. lo_name x = name) los of
        Some x \<Rightarrow> Some x
      | None \<Rightarrow>
          (case filter (\<lambda>x. take (length name) (lo_name x) = name) los of
             [] \<Rightarrow> None
           | x # xs \<Rightarrow> if list_all (same_opt x) xs then Some x else None))"

definition head_opt :: "'a list \<Rightarrow> 'a option" where
  "head_opt xs = (case xs of [] \<Rightarrow> None | x # _ \<Rightarrow> Some x)"

text \<open>The answer \<open>'?'\<close>: unknown or ambiguous options, missing or unwanted arguments.\<close>

definition question :: "int \<Rightarrow> string option \<Rightarrow> opt_event" where
  "question l nxt = \<lparr>opt_c = CHR ''?'', opt_l = l, optarg = [], next_arg = nxt\<rparr>"

definition found :: "long_opt \<Rightarrow> int \<Rightarrow> string \<Rightarrow> string option \<Rightarrow> opt_event" where
  "found x l arg nxt =
     (if lo_flag x then \<lparr>opt_c = CHR 0x00, opt_l = lo_val x, optarg = arg, next_arg = nxt\<rparr>
      else \<lparr>opt_c = char_of (nat (lo_val x)), opt_l = l, optarg = arg, next_arg = nxt\<rparr>)"

text \<open>
  An argument that begins with two dashes; the result also says how many of the arguments behind
  it are used.
\<close>

definition long_event :: "long_opt list \<Rightarrow> int \<Rightarrow> string \<Rightarrow> string list \<Rightarrow> opt_event \<times> nat" where
  "long_event los l body args =
     (let name = takeWhile (\<lambda>c. c \<noteq> CHR ''='') body; value = dropWhile (\<lambda>c. c \<noteq> CHR ''='') body
      in case find_long los name of
           None \<Rightarrow> (question l (head_opt args), 0)
         | Some x \<Rightarrow>
             (case value of
                _ # v \<Rightarrow>
                  if lo_arg x then (found x l v (head_opt args), 0) else (question l (head_opt args), 0)
              | [] \<Rightarrow>
                  if \<not> lo_arg x then (found x l [] (head_opt args), 0)
                  else (case args of
                          [] \<Rightarrow> (question l None, 0)
                        | v # rest \<Rightarrow> (found x l v (head_opt rest), 1))))"

text \<open>What the letter \<open>c\<close> is in a string of option letters: none, one without, one with an argument.\<close>

fun letter_kind :: "string \<Rightarrow> char \<Rightarrow> bool option" where
  "letter_kind [] c = None"
| "letter_kind (x # xs) c =
     (if x = c \<and> c \<noteq> CHR '':'' then Some (head_opt xs = Some (CHR '':'')) else letter_kind xs c)"

text \<open>
  The letters behind a single dash: while letters are left, \<open>optind\<close> still stands at the
  argument \<open>self\<close> that holds them.
\<close>

fun short_events :: "string \<Rightarrow> int \<Rightarrow> string \<Rightarrow> string \<Rightarrow> string list \<Rightarrow> opt_event list \<times> nat" where
  "short_events sos l self [] args = ([], 0)"
| "short_events sos l self (c # cs) args =
     (let nxt = (if cs = [] then head_opt args else Some self)
      in case letter_kind sos c of
           None \<Rightarrow> (let (es, k) = short_events sos l self cs args in (question l nxt # es, k))
         | Some False \<Rightarrow>
             (let (es, k) = short_events sos l self cs args
              in (\<lparr>opt_c = c, opt_l = l, optarg = [], next_arg = nxt\<rparr> # es, k))
         | Some True \<Rightarrow>
             if cs \<noteq> [] then ([\<lparr>opt_c = c, opt_l = l, optarg = cs, next_arg = head_opt args\<rparr>], 0)
             else (case args of
                     [] \<Rightarrow> ([question l None], 0)
                   | v # rest \<Rightarrow> ([\<lparr>opt_c = c, opt_l = l, optarg = v, next_arg = head_opt rest\<rparr>], 1)))"

definition last_lopt :: "int \<Rightarrow> opt_event \<Rightarrow> int" where
  "last_lopt l e = (if opt_c e = CHR 0x00 then opt_l e else l)"

function getopt_long :: "long_opt list \<Rightarrow> string \<Rightarrow> int \<Rightarrow> string list \<Rightarrow> opt_event list \<times> string list" where
  "getopt_long los sos l [] = ([], [])"
| "getopt_long los sos l (a # args) =
     (if a = ''--'' then ([], args)
      else if length a < 2 \<or> hd a \<noteq> CHR ''-'' then
        (let (es, others) = getopt_long los sos l args in (es, a # others))
      else if a ! 1 = CHR ''-'' then
        (let (e, k) = long_event los l (drop 2 a) args;
             (es, others) = getopt_long los sos (last_lopt l e) (drop k args)
         in (e # es, others))
      else
        (let (es1, k) = short_events sos l a (tl a) args;
             (es, others) = getopt_long los sos l (drop k args)
         in (es1 @ es, others)))"
  by pat_completeness auto
termination
  by (relation "measure (\<lambda>(los, sos, l, args). length args)") auto

section \<open>Options by letter\<close>

lemma found_letter: "found (letter_opt name a c) l arg nxt = \<lparr>opt_c = c, opt_l = l, optarg = arg, next_arg = nxt\<rparr>"
proof -
  have "nat (of_char c) = (of_char c :: nat)" by (simp add: nat_eq_iff)
  then show ?thesis by (simp add: found_def letter_opt_def)
qed

section \<open>The arguments that are left\<close>

text \<open>Arguments that do not begin with a dash are all left, in their order.\<close>

definition plain_arg :: "string \<Rightarrow> bool" where
  "plain_arg a \<longleftrightarrow> length a < 2 \<or> hd a \<noteq> CHR ''-''"

lemma getopt_plain:
  assumes "list_all plain_arg args"
  shows "getopt_long los sos l args = ([], args)"
  using assms
proof (induction args)
  case (Cons a args)
  have "a \<noteq> ''--''" using Cons.prems by (auto simp: plain_arg_def)
  with Cons show ?case by (simp add: plain_arg_def)
qed simp

lemma getopt_letter:
  assumes "letter_kind sos c = Some True" and "c \<noteq> CHR ''-''"
  shows "getopt_long los sos l ([CHR ''-'', c] # v # args) =
    (let (es, others) = getopt_long los sos l args
     in (\<lparr>opt_c = c, opt_l = l, optarg = v, next_arg = head_opt args\<rparr> # es, others))"
  using assms by (simp add: case_prod_beta)

lemma getopt_unknown_letter:
  assumes "letter_kind sos c = None" and "c \<noteq> CHR ''-''"
  shows "getopt_long los sos l ([CHR ''-'', c] # args) =
    (let (es, others) = getopt_long los sos l args in (question l (head_opt args) # es, others))"
  using assms by (simp add: case_prod_beta)

end
