(* ===== verification/RecordOptions.thy ===== *)
theory RecordOptions
  imports GetOpt Doubles Bag
begin

text \<open>
  The command line of the recorder: \<open>RecorderOptions\<close> (\<open>src/record/recorder.h\<close>, \<open>recorder.cpp\<close>)
  and \<open>ShowUsage\<close>, \<open>ParseOption\<close> of \<open>src/record/record.cpp\<close>. The answers
  of \<open>getopt_long\<close> come from theory GetOpt. Printed lines are kept in the state, \<open>exit\<close> is a
  result.
\<close>

section \<open>The options\<close>

record RecorderOptions =
  trigger :: bool
  record_all :: bool
  regex :: bool
  do_exclude :: bool
  quiet :: bool
  append_date :: bool
  snapshot :: bool
  verbose :: bool
  publish :: bool
  opt_compression :: CompressionType
  opt_prefix :: string
  opt_name :: string
  buffer_size :: "32 word"
  chunk_size :: "32 word"
  opt_limit :: "32 word"
  opt_split :: bool
  opt_max_size :: "64 word"
  max_splits :: "32 word"
  max_duration :: double
  opt_node :: string
  min_space :: "64 word"
  min_space_str :: string
  topics :: "string list"

definition RecorderOptions_default :: RecorderOptions where
  "RecorderOptions_default =
     \<lparr>trigger = False, record_all = False, regex = False, do_exclude = False, quiet = False,
      append_date = True, snapshot = False, verbose = False, publish = False,
      opt_compression = Uncompressed, opt_prefix = [], opt_name = [], buffer_size = 1048576 * 256,
      chunk_size = 1024 * 768, opt_limit = 0, opt_split = False, opt_max_size = 0, max_splits = 0,
      max_duration = -1, opt_node = [], min_space = 1024 * 1024 * 1024, min_space_str = ''1G'',
      topics = []\<rparr>"

section \<open>Reading numbers from arguments\<close>

text \<open>
  \<open>stream >> i\<close> for a 32-bit \<open>int\<close> fails without digits and out of range; for a
  \<open>uint32_t\<close> a minus sign is accepted and the value negated modulo \<open>2^32\<close>, and the
  magnitude is what must be in range.
\<close>

definition read_int :: "string \<Rightarrow> int option" where
  "read_int s =
     (case scan_int s of
        None \<Rightarrow> None
      | Some (i, _) \<Rightarrow> if - (2 ^ 31) \<le> i \<and> i < 2 ^ 31 then Some i else None)"

definition read_uint32 :: "string \<Rightarrow> 32 word option" where
  "read_uint32 s =
     (case scan_int s of
        None \<Rightarrow> None
      | Some (i, _) \<Rightarrow> if \<bar>i\<bar> < 2 ^ 32 then Some (word_of_int i) else None)"

text \<open>
  \<open>stream >> d\<close> for a \<open>double\<close>: sign, digits with an optional point, optional exponent; an
  exponent letter without digits makes the extraction fail.
\<close>

definition scan_fraction :: "string \<Rightarrow> (nat \<times> nat \<times> string) option" where
  "scan_fraction s =
     (let ds = takeWhile is_digit s; r = dropWhile is_digit s
      in case r of
           CHR ''.'' # r' \<Rightarrow>
             (let fs = takeWhile is_digit r'
              in if ds @ fs = [] then None
                 else Some (nat_of_digits (ds @ fs), length fs, dropWhile is_digit r'))
         | _ \<Rightarrow> if ds = [] then None else Some (nat_of_digits ds, 0, r))"

definition scan_exponent :: "string \<Rightarrow> (int \<times> string) option" where
  "scan_exponent s =
     (case s of
        c # r \<Rightarrow>
          if c = CHR ''e'' \<or> c = CHR ''E'' then
            (case r of
               d # r' \<Rightarrow>
                 if d = CHR ''-'' then map_option (\<lambda>(n, t). (- int n, t)) (scan_digits r')
                 else if d = CHR ''+'' then map_option (\<lambda>(n, t). (int n, t)) (scan_digits r')
                 else map_option (\<lambda>(n, t). (int n, t)) (scan_digits r)
             | [] \<Rightarrow> None)
          else Some (0, s)
      | [] \<Rightarrow> Some (0, s))"

definition ten_to :: "int \<Rightarrow> rat" where
  "ten_to e = (if 0 \<le> e then 10 ^ nat e else 1 / 10 ^ nat (- e))"

definition read_double :: "string \<Rightarrow> (double \<times> string) option" where
  "read_double s =
     (let (neg, s) = (case dropWhile is_space s of
             c # r \<Rightarrow> if c = CHR ''-'' then (True, r) else if c = CHR ''+'' then (False, r) else (False, c # r)
           | [] \<Rightarrow> (False, []))
      in Option.bind (scan_fraction s) (\<lambda>(m, k, r).
         map_option (\<lambda>(e, r). ((if neg then -1 else 1) * to_double (of_nat m * ten_to (e - int k)), r))
           (scan_exponent r)))"

text \<open>\<open>stream >> word\<close>: the next word, and whether the extraction failed.\<close>

definition read_word_token :: "string \<Rightarrow> string option" where
  "read_word_token s =
     (let w = takeWhile (\<lambda>c. \<not> is_space c) (dropWhile is_space s) in if w = [] then None else Some w)"

text \<open>\<open>sscanf(s, " %lld%c", ...)\<close>: the number (saturated, as \<open>strtoll\<close> does) and the character
  behind it, if any.\<close>

definition scan_lld_c :: "string \<Rightarrow> (64 word \<times> char option) option" where
  "scan_lld_c s =
     map_option (\<lambda>(i, r). (word_of_int (max (- (2 ^ 63)) (min (2 ^ 63 - 1) i)), case r of [] \<Rightarrow> None | c # _ \<Rightarrow> Some c))
       (scan_int s)"

section \<open>The parser's state\<close>

record parse_state =
  opts :: RecorderOptions
  out :: "string list"

type_synonym parse = "parse_state \<Rightarrow> unit res \<times> parse_state"

definition set_opts :: "(RecorderOptions \<Rightarrow> RecorderOptions) \<Rightarrow> parse" where
  "set_opts f s = (Inr (), s\<lparr>opts := f (opts s)\<rparr>)"

definition print :: "string \<Rightarrow> parse" where
  "print line s = (Inr (), s\<lparr>out := out s @ [line]\<rparr>)"

definition exit_with :: "string list \<Rightarrow> int \<Rightarrow> parse" where
  "exit_with lines code s = (Inl (ProgramExit code), s\<lparr>out := out s @ lines\<rparr>)"

definition next_then :: "parse \<Rightarrow> parse \<Rightarrow> parse" where
  "next_then f g s = bind_bag (f s) (\<lambda>_ s. g s)"

definition ShowUsage :: "string list" where
  "ShowUsage =
    [''Usage: msgbag --record TOPIC1 [TOPIC2 TOPIC3 ...].'',
     '''',
     ''Record a bag file with the contents of specified topics.'',
     '''',
     ''Options:'',
     ''  -h, --help            show this help message and exit'',
     ''  -a, --all             record all topics'',
     ''  -e, --regex           match topics using regular expressions'',
     ''  -x EXCLUDE_REGEX, --exclude=EXCLUDE_REGEX'',
     ''                        exclude topics matching the follow regular expression'',
     ''                        (subtracts from -a or regex)'',
     ''  -q, --quiet           suppress console output'',
     ''  -o PREFIX, --output-prefix=PREFIX'',
     ''                        prepend PREFIX to beginning of bag name (name will'',
     ''                        always end with date stamp)'',
     ''  -O NAME, --output-name=NAME'',
     ''                        record to bag with name NAME.bag'',
     ''  --split               split the bag when maximum size or duration is reached'',
     ''  --max-splits=MAX_SPLITS'',
     ''                        Keep a maximum of N bag files, when reaching the'',
     ''                        maximum erase the oldest one to keep a constant number'',
     ''                        of files.'',
     ''  --size=SIZE           record a bag of maximum size SIZE MB. (Default:'',
     ''                        infinite)'',
     ''  --duration=DURATION   record a bag of maximum duration DURATION in seconds,'',
     ''                        unless '' @ [CHR 0x27] @ ''m'' @ [CHR 0x27] @ '', or '' @ [CHR 0x27] @ ''h'' @ [CHR 0x27] @ '' is appended.'',
     ''  -b SIZE, --buffsize=SIZE'',
     ''                        use an internal buffer of SIZE MB (Default: 256, 0 ='',
     ''                        infinite)'',
     ''  --chunksize=SIZE      Advanced. Record to chunks of SIZE KB (Default: 768)'',
     ''  -l NUM, --limit=NUM   only record NUM messages on each topic'',
     ''  --node=NODE           record all topics subscribed to by a specific node'',
     ''  -j, --bz2             use BZ2 compression'',
     ''  --lz4                 use LZ4 compression'',
     ''  --tcpnodelay          Use the TCP_NODELAY transport hint when subscribing to'',
     ''                        topics.'',
     ''  --udp                 Use the UDP transport hint when subscribing to topics.'']"

section \<open>The single options\<close>

text \<open>\<open>-j\<close> and \<open>--lz4\<close>.\<close>

definition opt_compress :: "CompressionType \<Rightarrow> parse" where
  "opt_compress c s =
     (if opt_compression (opts s) \<noteq> Uncompressed
      then exit_with [''Can only use one type of compression''] 1 s
      else set_opts (\<lambda>p. p\<lparr>opt_compression := c\<rparr>) s)"

text \<open>\<open>-b\<close>: the product is computed in \<open>int\<close> and wraps.\<close>

definition opt_buffsize :: "string \<Rightarrow> parse" where
  "opt_buffsize arg =
     (case read_int arg of
        None \<Rightarrow> exit_with [''use --buffsize <size>,size is number.''] 1
      | Some m \<Rightarrow>
          if m < 0 then exit_with [''Buffer size must be 0 or positive''] 1
          else set_opts (\<lambda>p. p\<lparr>buffer_size := 1048576 * word_of_int m\<rparr>))"

definition opt_limit_arg :: "string \<Rightarrow> parse" where
  "opt_limit_arg arg =
     (case read_uint32 arg of
        None \<Rightarrow> exit_with [''use -l NUM --limit=NUM ,NUM should be number.''] 1
      | Some n \<Rightarrow> set_opts (\<lambda>p. p\<lparr>opt_limit := n\<rparr>))"

definition min_space_of :: "64 word \<Rightarrow> char option \<Rightarrow> 64 word" where
  "min_space_of v mul =
     (if mul = Some (CHR ''G'') \<or> mul = Some (CHR ''g'') then v * 1073741824
      else if mul = Some (CHR ''M'') \<or> mul = Some (CHR ''m'') then v * 1048576
      else if mul = Some (CHR ''K'') \<or> mul = Some (CHR ''k'') then v * 1024
      else v)"

definition opt_min_space :: "string \<Rightarrow> parse" where
  "opt_min_space ms =
     next_then
       (set_opts (\<lambda>p. case scan_lld_c ms of
           None \<Rightarrow> p\<lparr>min_space_str := ''1G'', min_space := 1073741824\<rparr>
         | Some (v, mul) \<Rightarrow> p\<lparr>min_space_str := ms, min_space := min_space_of v mul\<rparr>))
       (\<lambda>s. print (''Rosbag using minimum space of << opts.min_space << bytes, or '' @ min_space_str (opts s)) s)"

text \<open>\<open>--split\<close> looks at the argument that follows; a null pointer makes the string constructor throw.\<close>

definition opt_split_arg :: "string option \<Rightarrow> parse" where
  "opt_split_arg nxt =
     next_then (set_opts (\<lambda>p. p\<lparr>opt_split := True\<rparr>))
       (case nxt of
          None \<Rightarrow> (\<lambda>s. (Inl LogicError, s))
        | Some a \<Rightarrow>
            (case read_int a of
               None \<Rightarrow> (\<lambda>s. (Inr (), s))
             | Some n \<Rightarrow> exit_with
                 ([''Use of '' @ [CHR 0x22] @ ''--split <MAX_SIZE>'' @ [CHR 0x22] @ '' has been deprecated. Please use --split --size <MAX_SIZE> or --split --duration <MAX_DURATION>''] @
                  (if n < 0 then [''Split size must be 0 or positive''] else [])) 1))"

definition opt_max_splits :: "string \<Rightarrow> parse" where
  "opt_max_splits arg s =
     (if \<not> opt_split (opts s) then print ''--max-splits is ignored without --split'' s
      else case read_uint32 arg of
        None \<Rightarrow> exit_with [''use --max-splits <MAX_SPLITS>, MAX_SPLITS should be number.''] 1 s
      | Some n \<Rightarrow> set_opts (\<lambda>p. p\<lparr>max_splits := n\<rparr>) s)"

text \<open>\<open>opts.max_size = size * 1048576\<close>: an \<open>int\<close> product (it wraps) sign-extended to 64 bits.\<close>

definition size_product :: "int \<Rightarrow> 64 word" where
  "size_product n = scast (word_of_int (n * 1048576) :: 32 word)"

definition opt_size :: "string \<Rightarrow> parse" where
  "opt_size arg =
     (case read_int arg of
        None \<Rightarrow> exit_with [''use --size <SIZE>, SIZE should be number.''] 1
      | Some n \<Rightarrow>
          next_then (set_opts (\<lambda>p. p\<lparr>opt_max_size := size_product n\<rparr>))
            (\<lambda>s. if opt_max_size (opts s) \<le> 0 then exit_with [''Split size must be 0 or positive''] 1 s
                 else (Inr (), s)))"

definition duration_error :: string where
  "duration_error = ''Duration unit must be s, m, or h''"

definition opt_duration :: "string \<Rightarrow> parse" where
  "opt_duration arg =
     (case read_double arg of
        None \<Rightarrow> exit_with [''Duration must start with a floating point number.''] 1
      | Some (d, rest) \<Rightarrow>
          (case (if rest = [] then Some [] else read_word_token rest) of
             None \<Rightarrow> exit_with [duration_error] 1
           | Some u \<Rightarrow>
               next_then
                 (if u \<in> {[], ''s'', ''m'', ''h''} then (\<lambda>s. (Inr (), s)) else print duration_error)
                 (next_then
                   (set_opts (\<lambda>p. p\<lparr>max_duration :=
                      double_mult d (if u = ''m'' then 60 else if u = ''h'' then 3600 else 1)\<rparr>))
                   (\<lambda>s. if max_duration (opts s) \<le> 0 then exit_with [''Duration must be positive.''] 1 s
                        else (Inr (), s)))))"

section \<open>ParseOption\<close>

text \<open>The options without a letter: \<open>getopt_long\<close> returns 0 and stores the number in \<open>lopt\<close>.\<close>

definition long_option :: "opt_event \<Rightarrow> parse" where
  "long_option e =
     (if opt_l e = 0 then opt_split_arg (next_arg e)
      else if opt_l e = 1 then opt_compress LZ4
      else if opt_l e = 2 then (\<lambda>s. (Inr (), s))
      else if opt_l e = 3 then (\<lambda>s. (Inr (), s))
      else if opt_l e = 4 then opt_max_splits (optarg e)
      else if opt_l e = 5 then opt_size (optarg e)
      else if opt_l e = 6 then opt_duration (optarg e)
      else if opt_l e = 7 then (\<lambda>s. (Inr (), s))
      else if opt_l e = 8 then
        next_then (set_opts (\<lambda>p. p\<lparr>opt_node := optarg e\<rparr>)) (print (''Recording from: '' @ optarg e))
      else if opt_l e = 9 then print ''record topic''
      else print ''error option.'')"

text \<open>The case of 0 has no \<open>break\<close>: it falls through to the default.\<close>

definition handle_option :: "opt_event \<Rightarrow> parse" where
  "handle_option e =
     (if opt_c e = CHR ''h'' then exit_with ShowUsage 0
      else if opt_c e = CHR ''a'' then set_opts (\<lambda>p. p\<lparr>record_all := True\<rparr>)
      else if opt_c e = CHR ''e'' then set_opts (\<lambda>p. p\<lparr>regex := True\<rparr>)
      else if opt_c e = CHR ''q'' then set_opts (\<lambda>p. p\<lparr>quiet := True\<rparr>)
      else if opt_c e = CHR ''j'' then opt_compress BZ2
      else if opt_c e = CHR ''x'' then set_opts (\<lambda>p. p\<lparr>do_exclude := True\<rparr>)
      else if opt_c e = CHR ''o'' then set_opts (\<lambda>p. p\<lparr>opt_prefix := optarg e, append_date := True\<rparr>)
      else if opt_c e = CHR ''O'' then set_opts (\<lambda>p. p\<lparr>opt_prefix := optarg e, append_date := False\<rparr>)
      else if opt_c e = CHR ''b'' then opt_buffsize (optarg e)
      else if opt_c e = CHR ''l'' then opt_limit_arg (optarg e)
      else if opt_c e = CHR ''p'' then set_opts (\<lambda>p. p\<lparr>publish := True\<rparr>)
      else if opt_c e = CHR ''L'' then opt_min_space (optarg e)
      else if opt_c e = CHR 0x00 then next_then (long_option e) (print ''error option.'')
      else print ''error option.'')"

fun handle_options :: "opt_event list \<Rightarrow> parse" where
  "handle_options [] s = (Inr (), s)"
| "handle_options (e # es) s = bind_bag (handle_option e s) (\<lambda>_ s. handle_options es s)"

definition ParseOption :: "opt_event list \<Rightarrow> string list \<Rightarrow> parse" where
  "ParseOption es args =
     next_then (handle_options es)
       (set_opts (\<lambda>p. if record_all p then p else p\<lparr>topics := topics p @ args\<rparr>))"

text \<open>The tables, and the whole command line: the arguments behind the program's name.\<close>

definition long_opts :: "long_opt list" where
  "long_opts =
     [letter_opt ''help'' no_argument (CHR ''h''),
      letter_opt ''all'' no_argument (CHR ''a''),
      letter_opt ''regex'' no_argument (CHR ''e''),
      letter_opt ''quiet'' no_argument (CHR ''q''),
      lopt_opt ''split'' no_argument 0,
      letter_opt ''bz2'' no_argument (CHR ''j''),
      lopt_opt ''lz4'' no_argument 1,
      lopt_opt ''tcpnodelay'' no_argument 2,
      lopt_opt ''udp'' no_argument 3,
      letter_opt ''exclude'' required_argument (CHR ''x''),
      letter_opt ''output-prefix'' required_argument (CHR ''o''),
      letter_opt ''output-name'' required_argument (CHR ''O''),
      lopt_opt ''max-splits'' required_argument 4,
      lopt_opt ''size'' required_argument 5,
      lopt_opt ''duration'' required_argument 6,
      letter_opt ''buffsize'' required_argument (CHR ''b''),
      lopt_opt ''chunksize'' required_argument 7,
      letter_opt ''limit'' required_argument (CHR ''l''),
      lopt_opt ''node'' required_argument 8,
      letter_opt ''min-space'' required_argument (CHR ''L''),
      lopt_opt ''topic'' no_argument 9,
      letter_opt ''publish'' no_argument (CHR ''p'')]"

definition option_letters :: string where
  "option_letters = ''haeqjx:o:O:b:l:''"

definition parse_command_line :: "string list \<Rightarrow> parse" where
  "parse_command_line args =
     (case getopt_long long_opts option_letters (-1) args of (es, others) \<Rightarrow> ParseOption es others)"

section \<open>Compression\<close>

definition compress_of :: "opt_event \<Rightarrow> CompressionType option" where
  "compress_of e =
     (if opt_c e = CHR ''j'' then Some BZ2
      else if opt_c e = CHR 0x00 \<and> opt_l e = 1 then Some LZ4 else None)"

text \<open>A parser step keeps the compression when every outcome has the compression it started with.\<close>

definition keeps_compression :: "parse \<Rightarrow> bool" where
  "keeps_compression f \<longleftrightarrow> (\<forall>s. opt_compression (opts (snd (f s))) = opt_compression (opts s))"

named_theorems keep_intros "steps that keep the compression"

lemma keep_set [keep_intros]:
  "(\<And>p. opt_compression (f p) = opt_compression p) \<Longrightarrow> keeps_compression (set_opts f)"
  by (simp add: keeps_compression_def set_opts_def)

lemma keep_print [keep_intros]: "keeps_compression (print l)"
  by (simp add: keeps_compression_def print_def)

lemma keep_exit [keep_intros]: "keeps_compression (exit_with ls n)"
  by (simp add: keeps_compression_def exit_with_def)

lemma keep_return [keep_intros]: "keeps_compression (\<lambda>s. (r, s))"
  by (simp add: keeps_compression_def)

lemma keep_next [keep_intros]:
  "keeps_compression f \<Longrightarrow> keeps_compression g \<Longrightarrow> keeps_compression (next_then f g)"
  unfolding keeps_compression_def next_then_def
  by (metis (no_types, lifting) bind_bag_simps prod.collapse sum.exhaust_sel snd_conv)

lemma keep_if [keep_intros]:
  "keeps_compression f \<Longrightarrow> keeps_compression g \<Longrightarrow> keeps_compression (if b then f else g)"
  by simp

lemma keep_option [keep_intros]:
  "keeps_compression f \<Longrightarrow> (\<And>x. keeps_compression (g x)) \<Longrightarrow> keeps_compression (case z of None \<Rightarrow> f | Some x \<Rightarrow> g x)"
  by (cases z) auto

lemma keeps_buffsize [keep_intros]: "keeps_compression (opt_buffsize a)"
  unfolding opt_buffsize_def by (rule keep_option keep_if keep_exit keep_set | simp)+

lemma keeps_limit [keep_intros]: "keeps_compression (opt_limit_arg a)"
  unfolding opt_limit_arg_def by (rule keep_option keep_if keep_exit keep_set | simp)+

lemma keeps_min_space [keep_intros]: "keeps_compression (opt_min_space a)"
  unfolding opt_min_space_def
  by (rule keep_next keep_set | simp add: keeps_compression_def print_def split: option.splits prod.splits)+

lemma keeps_split [keep_intros]: "keeps_compression (opt_split_arg a)"
  unfolding opt_split_arg_def by (rule keep_next keep_option keep_exit keep_set keep_return | simp)+

lemma keeps_max_splits [keep_intros]: "keeps_compression (opt_max_splits a)"
  by (simp add: keeps_compression_def opt_max_splits_def set_opts_def print_def exit_with_def split: option.splits)

lemma keeps_guard: "keeps_compression (\<lambda>s. if b s then exit_with ls n s else (Inr (), s))"
  by (simp add: keeps_compression_def exit_with_def)

lemma keeps_size [keep_intros]: "keeps_compression (opt_size a)"
  unfolding opt_size_def by (rule keep_next keep_option keep_exit keep_set keeps_guard | simp)+

lemma keeps_duration [keep_intros]: "keeps_compression (opt_duration a)"
proof (cases "read_double a")
  case None
  then show ?thesis by (simp add: opt_duration_def keep_exit)
next
  case (Some p)
  then obtain d r where p: "read_double a = Some (d, r)" by (cases p) auto
  show ?thesis
    unfolding opt_duration_def p option.case prod.case
    by (rule keep_option keep_next keep_if keep_exit keep_set keep_return keep_print keeps_guard | simp)+
qed

lemma other_long_option_keeps: "opt_l e \<noteq> 1 \<Longrightarrow> keeps_compression (long_option e)"
  unfolding long_option_def by (simp add: keep_intros split: if_splits)

lemma other_option_keeps: "compress_of e = None \<Longrightarrow> keeps_compression (handle_option e)"
  unfolding handle_option_def compress_of_def
  by (cases "opt_c e = CHR 0x00")
    (simp_all add: keep_intros other_long_option_keeps split: if_splits)

lemma compress_option:
  assumes "compress_of e = Some c" and "handle_option e s = (Inr u, s')"
  shows "opt_compression (opts s) = Uncompressed \<and> opt_compression (opts s') = c"
  using assms
  by (auto simp: compress_of_def handle_option_def long_option_def opt_compress_def exit_with_def set_opts_def
      next_then_def print_def split: if_splits)

lemma compress_of_not_Uncompressed: "compress_of e = Some c \<Longrightarrow> c \<noteq> Uncompressed"
  by (auto simp: compress_of_def split: if_splits)

lemma handle_options_compression:
  "handle_options es s = (Inr u, s') \<Longrightarrow>
     (case List.map_filter compress_of es of
        [] \<Rightarrow> opt_compression (opts s') = opt_compression (opts s)
      | c # cs \<Rightarrow> cs = [] \<and> opt_compression (opts s) = Uncompressed \<and> opt_compression (opts s') = c)"
proof (induction es arbitrary: s)
  case Nil
  then show ?case by (simp add: map_filter_simps)
next
  case (Cons e es)
  obtain s1 where h: "handle_option e s = (Inr (), s1)" and r: "handle_options es s1 = (Inr u, s')"
    using Cons.prems by (cases "handle_option e s"; cases "fst (handle_option e s)") auto
  show ?case
  proof (cases "compress_of e")
    case None
    then have "opt_compression (opts s1) = opt_compression (opts s)"
      using other_option_keeps [of e] h by (auto simp: keeps_compression_def dest!: spec [of _ s])
    with Cons.IH [OF r] None show ?thesis by (simp add: map_filter_simps split: list.splits)
  next
    case (Some c)
    from compress_option [OF Some h] compress_of_not_Uncompressed [OF Some] Cons.IH [OF r] Some
    show ?thesis by (auto simp: map_filter_simps split: list.splits)
  qed
qed

section \<open>Sizes\<close>

lemma size_product_alt: "size_product n = word_of_int (signed_take_bit 31 (n * 1048576))"
proof -
  have "sint (word_of_int (n * 1048576) :: 32 word) = signed_take_bit 31 (n * 1048576)"
    by (simp only: signed_of_int of_int_eq_id id_apply) simp
  then show ?thesis by (simp only: size_product_def scast_eq)
qed

lemma size_product_small: "- 2048 \<le> n \<Longrightarrow> n < 2048 \<Longrightarrow> size_product n = word_of_int (n * 1048576)"
  unfolding size_product_alt by (subst signed_take_bit_int_eq_self) auto

lemma uint_size_product_pos: "0 \<le> n \<Longrightarrow> n < 2048 \<Longrightarrow> uint (size_product n) = n * 1048576"
  by (simp only: size_product_small uint_word_of_int) (simp add: size_product_small uint_word_of_int_eq take_bit_int_eq_self del: of_int_mult)

lemma uint_size_product_neg:
  assumes "- 2048 \<le> n" "n < 0"
  shows "uint (size_product n) = n * 1048576 + 2 ^ 64"
proof -
  have "uint (size_product n) = (n * 1048576) mod 2 ^ 64"
    using assms by (simp add: size_product_small uint_word_of_int del: of_int_mult)
  also have "\<dots> = (n * 1048576 + 2 ^ 64) mod 2 ^ 64" by simp
  also have "\<dots> = n * 1048576 + 2 ^ 64" using assms by (intro mod_pos_pos_trivial) auto
  finally show ?thesis .
qed

lemma size_product_periodic: "size_product (n + 4096) = size_product n"
proof -
  have "(n + 4096) * 1048576 = n * 1048576 + 2 ^ 32" by (simp add: algebra_simps)
  moreover have "signed_take_bit 31 (n * 1048576 + 2 ^ 32) = signed_take_bit 31 (n * 1048576)"
    using mod_add_self2 [of "n * 1048576 + 2 ^ 31" "2 ^ 32 :: int"]
    by (simp add: signed_take_bit_eq_take_bit_shift take_bit_eq_mod)
  ultimately show ?thesis unfolding size_product_alt by presburger
qed

lemma opt_size_Some:
  "read_int arg = Some n \<Longrightarrow>
     opt_size arg s =
       (if size_product n = 0
        then exit_with [''Split size must be 0 or positive''] 1 (s\<lparr>opts := opts s\<lparr>opt_max_size := size_product n\<rparr>\<rparr>)
        else (Inr (), s\<lparr>opts := opts s\<lparr>opt_max_size := size_product n\<rparr>\<rparr>))"
  by (simp add: opt_size_def next_then_def set_opts_def)

section \<open>Properties\<close>

text \<open>
  At most one compression can be chosen: a command line that is accepted has at most one of the
  options \<open>-j\<close> and \<open>--lz4\<close>, in any place among the others, and the recorder compresses with
  exactly that one.
\<close>

theorem parse_one_compression:
  assumes "ParseOption es args \<lparr>opts = RecorderOptions_default, out = []\<rparr> = (Inr (), s)"
  shows "List.map_filter compress_of es = [] \<and> opt_compression (opts s) = Uncompressed \<or>
    List.map_filter compress_of es = [opt_compression (opts s)]"
proof -
  let ?s0 = "\<lparr>opts = RecorderOptions_default, out = []\<rparr>"
  obtain s1 where h: "handle_options es ?s0 = (Inr (), s1)"
    and c: "opt_compression (opts s) = opt_compression (opts s1)"
    using assms by (cases "handle_options es ?s0"; cases "fst (handle_options es ?s0)")
      (auto simp: ParseOption_def next_then_def set_opts_def split: if_splits)
  have "opt_compression (opts ?s0) = Uncompressed" by (simp add: RecorderOptions_default_def)
  with handle_options_compression [OF h] c show ?thesis by (auto split: list.splits)
qed

theorem parse_one_compression_witness:
  "List.map_filter compress_of [\<lparr>opt_c = CHR ''a'', opt_l = -1, optarg = [], next_arg = Some ''-j''\<rparr>,
      \<lparr>opt_c = CHR ''j'', opt_l = -1, optarg = [], next_arg = None\<rparr>] = [BZ2]"
proof -
  let ?es = "[\<lparr>opt_c = CHR ''a'', opt_l = -1, optarg = [], next_arg = Some ''-j''\<rparr>,
      \<lparr>opt_c = CHR ''j'', opt_l = -1, optarg = [], next_arg = None\<rparr>]"
  let ?s = "\<lparr>opts = RecorderOptions_default\<lparr>record_all := True, opt_compression := BZ2\<rparr>, out = []\<rparr>"
  have "ParseOption ?es [] \<lparr>opts = RecorderOptions_default, out = []\<rparr> = (Inr (), ?s)"
    by (simp add: ParseOption_def next_then_def handle_option_def set_opts_def opt_compress_def
        RecorderOptions_default_def)
  from parse_one_compression [OF this] show ?thesis by simp
qed

text \<open>
  \<open>--size n\<close> records at most \<open>n\<close> megabytes exactly when \<open>1 \<le> n < 2048\<close>: the product
  with 1048576 is an \<open>int\<close>, so from 2048 to 4095 the limit becomes larger than any file (as it
  does for the negative sizes down to -2048, which are not rejected either), and the sizes that are
  multiples of 4096 are rejected as 0 is.
\<close>

theorem record_size_limit:
  assumes "read_int arg = Some n" and "- 2048 \<le> n" and "n \<le> 4096"
  shows "opt_size arg s =
      (if n = 0 \<or> n = 4096
       then exit_with [''Split size must be 0 or positive''] 1 (s\<lparr>opts := opts s\<lparr>opt_max_size := 0\<rparr>\<rparr>)
       else (Inr (), s\<lparr>opts := opts s\<lparr>opt_max_size := size_product n\<rparr>\<rparr>)) \<and>
    (uint (size_product n) = n * 1048576 \<and> 0 \<le> n \<and> n < 2048 \<or> 2 ^ 63 \<le> uint (size_product n) \<or> n = 4096)"
proof -
  have z: "size_product 0 = 0" by (simp add: size_product_def)
  have "uint (size_product n) = n * 1048576" if "0 \<le> n" "n < 2048"
    using that by (rule uint_size_product_pos)
  moreover have "2 ^ 63 \<le> uint (size_product n)" if "n < 0"
    using uint_size_product_neg [OF assms(2) that] assms(2) by simp
  moreover have "2 ^ 63 \<le> uint (size_product n)" if "2048 \<le> n" "n < 4096"
    using uint_size_product_neg [of "n - 4096"] size_product_periodic [of "n - 4096"] that by simp
  ultimately have u: "uint (size_product n) = n * 1048576 \<and> 0 \<le> n \<and> n < 2048 \<or>
      2 ^ 63 \<le> uint (size_product n) \<or> n = 4096"
    using assms(2,3) by linarith
  have e: "size_product n = 0 \<longleftrightarrow> n = 0 \<or> n = 4096"
    using u z size_product_periodic [of 0] by auto
  show ?thesis
  proof (intro conjI u)
    show "opt_size arg s =
      (if n = 0 \<or> n = 4096
       then exit_with [''Split size must be 0 or positive''] 1 (s\<lparr>opts := opts s\<lparr>opt_max_size := 0\<rparr>\<rparr>)
       else (Inr (), s\<lparr>opts := opts s\<lparr>opt_max_size := size_product n\<rparr>\<rparr>))"
      unfolding opt_size_Some [OF assms(1)] using e by (metis (no_types))
  qed
qed

theorem record_size_limit_witness:
  "fst (opt_size ''4096'' \<lparr>opts = RecorderOptions_default, out = []\<rparr>) = Inl (ProgramExit 1) \<and>
   fst (opt_size ''100'' \<lparr>opts = RecorderOptions_default, out = []\<rparr>) = Inr ()"
proof -
  have "read_int ''4096'' = Some 4096" "read_int ''100'' = Some 100" by code_simp+
  then show ?thesis
    using record_size_limit [of "''4096''" 4096] record_size_limit [of "''100''" 100] by (simp add: exit_with_def)
qed

text \<open>
  \<open>--split\<close> takes no argument but reads the one that follows it: as the last argument it
  dereferences the null pointer at the end of \<open>argv\<close>, followed by a number it ends the program,
  and otherwise it turns splitting on and the fall through to the default case also prints
  that the option is an error.
\<close>

lemma split_needs_next_argument:
  assumes "opt_c e = CHR 0x00" and "opt_l e = 0"
  shows "case next_arg e of
      None \<Rightarrow> fst (handle_option e s) = Inl LogicError
    | Some a \<Rightarrow>
        (case read_int a of
           None \<Rightarrow> handle_option e s = (Inr (), s\<lparr>opts := opts s\<lparr>opt_split := True\<rparr>, out := out s @ [''error option.'']\<rparr>)
         | Some n \<Rightarrow> fst (handle_option e s) = Inl (ProgramExit 1))"
proof -
  have h: "handle_option e s = next_then (opt_split_arg (next_arg e)) (print ''error option.'') s"
    using assms by (simp add: handle_option_def long_option_def next_then_def)
  show ?thesis
  proof (cases "next_arg e")
    case None
    then show ?thesis by (simp add: h opt_split_arg_def next_then_def set_opts_def)
  next
    case (Some a)
    then show ?thesis
      by (cases "read_int a") (simp_all add: h opt_split_arg_def next_then_def set_opts_def print_def exit_with_def)
  qed
qed

lemma split_needs_next_argument_example:
  "fst (handle_option \<lparr>opt_c = CHR 0x00, opt_l = 0, optarg = [], next_arg = None\<rparr>
     \<lparr>opts = RecorderOptions_default, out = []\<rparr>) = Inl LogicError"
  using split_needs_next_argument [of "\<lparr>opt_c = CHR 0x00, opt_l = 0, optarg = [], next_arg = None\<rparr>"] by simp

section \<open>Letters the recorder does not know\<close>

text \<open>
  The letters \<open>-L\<close> and \<open>-p\<close> that the options structure documents are missing from the
  letters given to \<open>getopt_long\<close>: \<open>-L SIZE\<close> prints an error, leaves the minimal space at one
  gigabyte and makes \<open>SIZE\<close> a topic to record; \<open>-p\<close> prints an error and changes nothing. The
  long name \<open>--min-space\<close> sets the space.
\<close>

theorem min_space_letter_is_unknown:
  assumes "list_all plain_arg (v # args)"
  shows "parse_command_line (''-L'' # v # args) \<lparr>opts = RecorderOptions_default, out = []\<rparr> =
      (Inr (), \<lparr>opts = RecorderOptions_default\<lparr>topics := v # args\<rparr>, out = [''error option.'']\<rparr>) \<and>
    parse_command_line (''-p'' # args) \<lparr>opts = RecorderOptions_default, out = []\<rparr> =
      (Inr (), \<lparr>opts = RecorderOptions_default\<lparr>topics := args\<rparr>, out = [''error option.'']\<rparr>) \<and>
    min_space (opts (snd (parse_command_line (''--min-space'' # v # args) \<lparr>opts = RecorderOptions_default, out = []\<rparr>))) =
      (case scan_lld_c v of None \<Rightarrow> 1073741824 | Some (n, mul) \<Rightarrow> min_space_of n mul)"
proof -
  have k: "letter_kind option_letters (CHR ''L'') = None" "letter_kind option_letters (CHR ''p'') = None"
    by (simp_all add: option_letters_def)
  have f: "find_long long_opts ''min-space'' = Some (letter_opt ''min-space'' required_argument (CHR ''L''))"
    by code_simp
  have q: "handle_option (question l nxt) s = print ''error option.'' s" for l nxt s
    by (simp add: handle_option_def question_def)
  have d: "\<not> record_all RecorderOptions_default" "topics RecorderOptions_default = []"
    by (simp_all add: RecorderOptions_default_def)
  have g: "getopt_long long_opts option_letters (-1) (''-L'' # v # args) = ([question (-1) (Some v)], v # args)"
    "getopt_long long_opts option_letters (-1) (''-p'' # args) = ([question (-1) (head_opt args)], args)"
    using assms getopt_plain [OF assms] getopt_plain [of args]
    by (simp_all del: getopt_long.simps add: getopt_unknown_letter k head_opt_def)
  have m: "getopt_long long_opts option_letters (-1) (''--min-space'' # v # args) =
      ([\<lparr>opt_c = CHR ''L'', opt_l = -1, optarg = v, next_arg = head_opt args\<rparr>], args)"
    using assms getopt_plain [of args] 
    by (simp add: long_event_def f found_letter last_lopt_def) (simp add: letter_opt_def)
  have r: "ParseOption [question l nxt] as \<lparr>opts = RecorderOptions_default, out = []\<rparr> =
      (Inr (), \<lparr>opts = RecorderOptions_default\<lparr>topics := as\<rparr>, out = [''error option.'']\<rparr>)" for l nxt as
    using d by (simp add: ParseOption_def next_then_def q print_def set_opts_def)
  have s: "min_space (opts (snd (ParseOption [\<lparr>opt_c = CHR ''L'', opt_l = l, optarg = v, next_arg = nxt\<rparr>] as
      \<lparr>opts = RecorderOptions_default, out = []\<rparr>))) =
      (case scan_lld_c v of None \<Rightarrow> 1073741824 | Some (n, mul) \<Rightarrow> min_space_of n mul)" for l nxt as
    by (simp add: ParseOption_def next_then_def handle_option_def opt_min_space_def print_def set_opts_def split: option.splits)
  show ?thesis by (simp only: parse_command_line_def g m prod.case r s simp_thms)
qed

theorem min_space_letter_is_unknown_witness:
  "topics (opts (snd (parse_command_line [''-L'', ''2G'', ''/imu''] \<lparr>opts = RecorderOptions_default, out = []\<rparr>))) =
     [''2G'', ''/imu'']"
  using min_space_letter_is_unknown [of "''2G''" "[''/imu'']"] by (simp add: plain_arg_def)

end
