(* ===== verification/HandlerMaps.thy ===== *)
theory HandlerMaps
  imports Containers
begin

text \<open>
  \<open>InitRecorderHandlerMap\<close> and \<open>InitPlayerHandlerMap\<close> of \<open>src/common/util.cpp\<close>: the tables from
  topic to message handler. A handler is the member function template \<open>MsgHandler<T>\<close> bound to a
  topic: the message type and the topic. The insertions are listed in the order of the code (the lists
  are cut where a piece would be long) and go into a \<open>std::map\<close> with \<open>insert\<close>, which keeps the
  first handler of a topic that is listed twice.
\<close>

record handler =
  msg_type :: string
  handler_topic :: string

definition MsgHandler :: "string \<Rightarrow> string \<Rightarrow> handler" where
  "MsgHandler ty t = \<lparr>msg_type = ty, handler_topic = t\<rparr>"

type_synonym handler_map = "(string \<times> handler) list"

definition insert_all :: "(string \<times> handler) list \<Rightarrow> handler_map \<Rightarrow> handler_map" where
  "insert_all hs m = foldl (\<lambda>m (k, h). map_insert k h m) m hs"

section \<open>The recorder's handlers\<close>

definition recorder_handlers1 :: "(string \<times> handler) list" where
  "recorder_handlers1 =
    [(''topic_fisheye_pose'', MsgHandler ''pb::fisheye_msgs::PoseMessage'' ''topic_fisheye_pose''),
     (''/parking/current_pose'', MsgHandler ''pb::geometry_msgs::PoseStamped'' ''/parking/current_pose''),
     (''/planning/pub_mission'', MsgHandler ''pb::geometry_msgs::PoseStamped'' ''/planning/pub_mission''),
     (''/delphi_esr/as_tx/radar_raw_tracks'', MsgHandler ''pb::esr_mobileye_msgs::RadarTrackArray'' ''/delphi_esr/as_tx/radar_raw_tracks''),
     (''/mobileye/parsed_tx/right_lka_lane'', MsgHandler ''pb::esr_mobileye_msgs::LkaLane'' ''/mobileye/parsed_tx/right_lka_lane''),
     (''/mobileye/parsed_tx/left_lka_lane'', MsgHandler ''pb::esr_mobileye_msgs::LkaLane'' ''/mobileye/parsed_tx/left_lka_lane''),
     (''/mobileye/parsed_tx/lane_detail'', MsgHandler ''pb::esr_mobileye_msgs::LaneDetail'' ''/mobileye/parsed_tx/lane_detail''),
     (''/mobileye/parsed_tx/obstacle_array'', MsgHandler ''pb::esr_mobileye_msgs::ObstacleArray'' ''/mobileye/parsed_tx/obstacle_array''),
     (''/vehicle/imu/data_raw'', MsgHandler ''pb::car_info_msgs::Imu'' ''/vehicle/imu/data_raw''),
     (''/vehicle/gps/fix'', MsgHandler ''pb::car_info_msgs::NavSatFix'' ''/vehicle/gps/fix''),
     (''/vehicle/gps/vel'', MsgHandler ''pb::geometry_msgs::TwistStamped'' ''/vehicle/gps/vel''),
     (''/vehicle/gps/time'', MsgHandler ''pb::car_info_msgs::TimeReference'' ''/vehicle/gps/time''),
     (''/vehicle/brake_report'', MsgHandler ''pb::car_info_msgs::BrakeReport'' ''/vehicle/brake_report''),
     (''/vehicle/throttle_report'', MsgHandler ''pb::car_info_msgs::ThrottleReport'' ''/vehicle/throttle_report''),
     (''/vehicle/steering_report'', MsgHandler ''pb::car_info_msgs::SteeringReport'' ''/vehicle/steering_report''),
     (''/vehicle/twist'', MsgHandler ''pb::geometry_msgs::TwistStamped'' ''/vehicle/twist''),
     (''/vehicle/twist_raw'', MsgHandler ''pb::geometry_msgs::TwistStamped'' ''/vehicle/twist_raw''),
     (''/vehicle/aceleration'', MsgHandler ''pb::car_info_msgs::Imu'' ''/vehicle/aceleration''),
     (''/vehicle/gear_report'', MsgHandler ''pb::car_info_msgs::GearReport'' ''/vehicle/gear_report''),
     (''/vehicle/misc_1_report'', MsgHandler ''pb::car_info_msgs::Misc1Report'' ''/vehicle/misc_1_report''),
     (''/vehicle/wheel_speed_report'', MsgHandler ''pb::car_info_msgs::WheelSpeedReport'' ''/vehicle/wheel_speed_report''),
     (''/vehicle/suspension_report'', MsgHandler ''pb::car_info_msgs::SuspensionReport'' ''/vehicle/suspension_report''),
     (''/vehicle/tire_pressure_report'', MsgHandler ''pb::car_info_msgs::TirePressureReport'' ''/vehicle/tire_pressure_report''),
     (''/vehicle/fuel_level_report'', MsgHandler ''pb::car_info_msgs::FuelLevelReport'' ''/vehicle/fuel_level_report''),
     (''/vehicle/surround_report'', MsgHandler ''pb::car_info_msgs::SurroundReport'' ''/vehicle/surround_report''),
     (''/vehicle/sonar_cloud'', MsgHandler ''pb::car_info_msgs::PointCloud2'' ''/vehicle/sonar_cloud''),
     (''/vehicle/brake_info_report'', MsgHandler ''pb::car_info_msgs::BrakeInfoReport'' ''/vehicle/brake_info_report''),
     (''/vehicle/throttle_info_report'', MsgHandler ''pb::car_info_msgs::ThrottleInfoReport'' ''/vehicle/throttle_info_report''),
     (''/vehicle/vehicle_state'', MsgHandler ''pb::car_info_msgs::VehicleState'' ''/vehicle/vehicle_state''),
     (''/vehicle/dbw_enabled'', MsgHandler ''pb::std_msgs::Bool'' ''/vehicle/dbw_enabled''),
     (''/vehicle/joint_states'', MsgHandler ''pb::car_info_msgs::JointState'' ''/vehicle/joint_states''),
     (''/vehicle/enable'', MsgHandler ''pb::std_msgs::Bool'' ''/vehicle/enable'')]"

definition recorder_handlers2 :: "(string \<times> handler) list" where
  "recorder_handlers2 =
    [(''/vehicle/disable'', MsgHandler ''pb::std_msgs::Bool'' ''/vehicle/disable''),
     (''/vehicle/brake_cmd'', MsgHandler ''pb::car_info_msgs::BrakeCmd'' ''/vehicle/brake_cmd''),
     (''/vehicle/throttle_cmd'', MsgHandler ''pb::car_info_msgs::ThrottleCmd'' ''/vehicle/throttle_cmd''),
     (''/vehicle/steering_cmd'', MsgHandler ''pb::car_info_msgs::SteeringCmd'' ''/vehicle/steering_cmd''),
     (''/vehicle/gear_cmd'', MsgHandler ''pb::car_info_msgs::GearCmd'' ''/vehicle/gear_cmd''),
     (''/planning/pub_goal_reached'', MsgHandler ''pb::std_msgs::Bool'' ''/planning/pub_goal_reached''),
     (''/planning/AVP_planner_state'', MsgHandler ''pb::std_msgs::String'' ''/planning/AVP_planner_state''),
     (''/vehicle/turn_signal_cmd'', MsgHandler ''pb::car_info_msgs::TurnSignalCmd'' ''/vehicle/turn_signal_cmd''),
     (''/vehicle/fuzzy_pid'', MsgHandler ''pb::twist_controller_msgs::FuzzyPid'' ''/vehicle/fuzzy_pid''),
     (''/planning/sim_gps/fix'', MsgHandler ''pb::car_info_msgs::NavSatFix'' ''/planning/sim_gps/fix''),
     (''/est_pose'', MsgHandler ''pb::geometry_msgs::PoseStamped'' ''/est_pose''),
     (''/gnss_stat'', MsgHandler ''pb::std_msgs::Bool'' ''/gnss_stat''),
     (''/gnss_pose'', MsgHandler ''pb::geometry_msgs::PoseStamped'' ''/gnss_pose''),
     (''/osm/initpose_confirm'', MsgHandler ''pb::std_msgs::Bool'' ''/osm/initpose_confirm''),
     (''/osm/initpose'', MsgHandler ''pb::geometry_msgs::PoseStamped'' ''/osm/initpose''),
     (''/tf'', MsgHandler ''pb::world_model_msgs::TFMessage'' ''/tf''),
     (''ref_steering_angle'', MsgHandler ''pb::std_msgs::Float64'' ''ref_steering_angle''),
     (''follower_monitor'', MsgHandler ''pb::path_follower_msgs::PathFollowerMonitor'' ''follower_monitor''),
     (''cmd_vel_stamped'', MsgHandler ''pb::twist_controller_msgs::TwistCmdStamped'' ''cmd_vel_stamped''),
     (''twist_raw'', MsgHandler ''pb::twist_controller_msgs::TwistCmdStamped'' ''twist_raw''),
     (''lqr_state'', MsgHandler ''pb::world_model_msgs::LQRState'' ''lqr_state''),
     (''ref_waypoint'', MsgHandler ''pb::world_model_msgs::WaypointCell'' ''ref_waypoint''),
     (''ref_waypoint_cent_lane'', MsgHandler ''pb::world_model_msgs::WaypointCell'' ''ref_waypoint_cent_lane''),
     (''ref_steering_angle_cent_lane'', MsgHandler ''pb::std_msgs::Float64'' ''ref_steering_angle_cent_lane''),
     (''input_steering_angle'', MsgHandler ''pb::std_msgs::Float64'' ''input_steering_angle''),
     (''lqr_state_cent_lane'', MsgHandler ''pb::world_model_msgs::LQRState'' ''lqr_state_cent_lane''),
     (''debug1'', MsgHandler ''pb::std_msgs::Int8'' ''debug1''),
     (''cent_subscribe_state'', MsgHandler ''pb::std_msgs::Int8'' ''cent_subscribe_state''),
     (''current_follower_method'', MsgHandler ''pb::world_model_msgs::PathFollower'' ''current_follower_method''),
     (''follower_target'', MsgHandler ''pb::geometry_msgs::Point'' ''follower_target''),
     (''/perception/freespace_contour'', MsgHandler ''pb::esr_mobileye_msgs::FreeSpaceContour'' ''/perception/freespace_contour''),
     (''/fusion/obstacle_list'', MsgHandler ''pb::esr_mobileye_msgs::ObstacleArray'' ''/fusion/obstacle_list''),
     (''/predict/obstacle_predict'', MsgHandler ''pb::world_model_msgs::CutinPredictArray'' ''/predict/obstacle_predict'')]"

definition recorder_handlers3 :: "(string \<times> handler) list" where
  "recorder_handlers3 =
    [(''/odom/current_pose'', MsgHandler ''pb::geometry_msgs::PoseStamped'' ''/odom/current_pose''),
     (''/global_planning/route_cmd'', MsgHandler ''pb::world_model_msgs::RouteCmd'' ''/global_planning/route_cmd''),
     (''/perception/left_lka_lane'', MsgHandler ''pb::esr_mobileye_msgs::LkaLane'' ''/perception/left_lka_lane''),
     (''/perception/right_lka_lane'', MsgHandler ''pb::esr_mobileye_msgs::LkaLane'' ''/perception/right_lka_lane''),
     (''camera_info'', MsgHandler ''pb::world_model_msgs::SpeedLimit'' ''camera_info''),
     (''navi_info'', MsgHandler ''pb::world_model_msgs::NaviInfo'' ''navi_info''),
     (''/cross_road'', MsgHandler ''pb::world_model_msgs::CrossRoad'' ''/cross_road''),
     (''realtime_navi_info'', MsgHandler ''pb::world_model_msgs::NaviInfo'' ''realtime_navi_info''),
     (''human_help_request'', MsgHandler ''pb::world_model_msgs::HumanHelp'' ''human_help_request''),
     (''center_lane'', MsgHandler ''pb::esr_mobileye_msgs::LkaLane'' ''center_lane''),
     (''vehicle_monitor'', MsgHandler ''pb::world_model_msgs::VehicleMonitor'' ''vehicle_monitor''),
     (''closest_waypoint'', MsgHandler ''pb::std_msgs::UInt32'' ''closest_waypoint''),
     (''/osm/route_cmd_confirm'', MsgHandler ''pb::std_msgs::Bool'' ''/osm/route_cmd_confirm''),
     (''route_waypoints'', MsgHandler ''pb::world_model_msgs::Lane'' ''route_waypoints''),
     (''/util/turn_signal_cmd'', MsgHandler ''pb::car_info_msgs::TurnSignalCmd'' ''/util/turn_signal_cmd''),
     (''/osm/replan_local_planner'', MsgHandler ''pb::std_msgs::Bool'' ''/osm/replan_local_planner''),
     (''holistic_path'', MsgHandler ''pb::esr_mobileye_msgs::LkaLane'' ''holistic_path''),
     (''state'', MsgHandler ''pb::std_msgs::String'' ''state''),
     (''final_waypoints'', MsgHandler ''pb::world_model_msgs::Trajectory'' ''final_waypoints''),
     (''control_monitor'', MsgHandler ''pb::twist_controller_msgs::ControlMonitor'' ''control_monitor''),
     (''/vehicle/throttle_cmd'', MsgHandler ''pb::car_info_msgs::ThrottleCmd'' ''/vehicle/throttle_cmd''),
     (''/vehicle/brake_cmd'', MsgHandler ''pb::car_info_msgs::BrakeCmd'' ''/vehicle/brake_cmd''),
     (''/vehicle/steering_cmd'', MsgHandler ''pb::car_info_msgs::SteeringCmd'' ''/vehicle/steering_cmd''),
     (''gnss_pose'', MsgHandler ''pb::geometry_msgs::PoseStamped'' ''gnss_pose''),
     (''gnss_stat'', MsgHandler ''pb::std_msgs::Bool'' ''gnss_stat''),
     (''/osm/initpose_confirm'', MsgHandler ''pb::std_msgs::Bool'' ''/osm/initpose_confirm''),
     (''/tf'', MsgHandler ''pb::world_model_msgs::TFMessage'' ''/tf''),
     (''/est_pose'', MsgHandler ''pb::geometry_msgs::PoseStamped'' ''/est_pose''),
     (''/global_viapoints_visualization'', MsgHandler ''pb::world_model_msgs::Marker'' ''/global_viapoints_visualization''),
     (''/planning/global_viapoints'', MsgHandler ''pb::parking_msgs::GlobalViapoints'' ''/planning/global_viapoints''),
     (''/planning/pub_global_viapoints'', MsgHandler ''pb::parking_msgs::GlobalViapoints'' ''/planning/pub_global_viapoints''),
     (''/car_pose'', MsgHandler ''pb::world_model_msgs::Marker'' ''/car_pose''),
     (''/goal_pose'', MsgHandler ''pb::world_model_msgs::Marker'' ''/goal_pose'')]"


definition InitRecorderHandlerMap :: "handler_map \<Rightarrow> handler_map" where
  "InitRecorderHandlerMap m =
     insert_all recorder_handlers3 (insert_all recorder_handlers2 (insert_all recorder_handlers1 m))"

section \<open>The player's handlers\<close>

definition player_handlers1 :: "(string \<times> handler) list" where
  "player_handlers1 =
    [(''topic_fisheye_pose'', MsgHandler ''pb::fisheye_msgs::PoseMessage'' ''topic_fisheye_pose''),
     (''/parking/current_pose'', MsgHandler ''pb::geometry_msgs::PoseStamped'' ''/parking/current_pose''),
     (''/planning/pub_mission'', MsgHandler ''pb::geometry_msgs::PoseStamped'' ''/planning/pub_mission''),
     (''/delphi_esr/as_tx/radar_raw_tracks'', MsgHandler ''pb::esr_mobileye_msgs::RadarTrackArray'' ''/delphi_esr/as_tx/radar_raw_tracks''),
     (''/mobileye/parsed_tx/right_lka_lane'', MsgHandler ''pb::esr_mobileye_msgs::LkaLane'' ''/mobileye/parsed_tx/right_lka_lane''),
     (''/mobileye/parsed_tx/left_lka_lane'', MsgHandler ''pb::esr_mobileye_msgs::LkaLane'' ''/mobileye/parsed_tx/left_lka_lane''),
     (''/mobileye/parsed_tx/lane_detail'', MsgHandler ''pb::esr_mobileye_msgs::LaneDetail'' ''/mobileye/parsed_tx/lane_detail''),
     (''/mobileye/parsed_tx/obstacle_array'', MsgHandler ''pb::esr_mobileye_msgs::ObstacleArray'' ''/mobileye/parsed_tx/obstacle_array''),
     (''/vehicle/imu/data_raw'', MsgHandler ''pb::car_info_msgs::Imu'' ''/vehicle/imu/data_raw''),
     (''/vehicle/gps/fix'', MsgHandler ''pb::car_info_msgs::NavSatFix'' ''/vehicle/gps/fix''),
     (''/vehicle/gps/vel'', MsgHandler ''pb::geometry_msgs::TwistStamped'' ''/vehicle/gps/vel''),
     (''/vehicle/gps/time'', MsgHandler ''pb::car_info_msgs::TimeReference'' ''/vehicle/gps/time''),
     (''/vehicle/brake_report'', MsgHandler ''pb::car_info_msgs::BrakeReport'' ''/vehicle/brake_report''),
     (''/vehicle/throttle_report'', MsgHandler ''pb::car_info_msgs::ThrottleReport'' ''/vehicle/throttle_report''),
     (''/vehicle/steering_report'', MsgHandler ''pb::car_info_msgs::SteeringReport'' ''/vehicle/steering_report''),
     (''/vehicle/twist'', MsgHandler ''pb::geometry_msgs::TwistStamped'' ''/vehicle/twist''),
     (''/vehicle/twist_raw'', MsgHandler ''pb::geometry_msgs::TwistStamped'' ''/vehicle/twist_raw''),
     (''/vehicle/aceleration'', MsgHandler ''pb::car_info_msgs::Imu'' ''/vehicle/aceleration''),
     (''/vehicle/gear_report'', MsgHandler ''pb::car_info_msgs::GearReport'' ''/vehicle/gear_report''),
     (''/vehicle/misc_1_report'', MsgHandler ''pb::car_info_msgs::Misc1Report'' ''/vehicle/misc_1_report''),
     (''/vehicle/wheel_speed_report'', MsgHandler ''pb::car_info_msgs::WheelSpeedReport'' ''/vehicle/wheel_speed_report''),
     (''/vehicle/suspension_report'', MsgHandler ''pb::car_info_msgs::SuspensionReport'' ''/vehicle/suspension_report''),
     (''/vehicle/tire_pressure_report'', MsgHandler ''pb::car_info_msgs::TirePressureReport'' ''/vehicle/tire_pressure_report''),
     (''/vehicle/fuel_level_report'', MsgHandler ''pb::car_info_msgs::FuelLevelReport'' ''/vehicle/fuel_level_report''),
     (''/vehicle/surround_report'', MsgHandler ''pb::car_info_msgs::SurroundReport'' ''/vehicle/surround_report''),
     (''/vehicle/sonar_cloud'', MsgHandler ''pb::car_info_msgs::PointCloud2'' ''/vehicle/sonar_cloud''),
     (''/vehicle/brake_info_report'', MsgHandler ''pb::car_info_msgs::BrakeInfoReport'' ''/vehicle/brake_info_report''),
     (''/vehicle/throttle_info_report'', MsgHandler ''pb::car_info_msgs::ThrottleInfoReport'' ''/vehicle/throttle_info_report''),
     (''/vehicle/vehicle_state'', MsgHandler ''pb::car_info_msgs::VehicleState'' ''/vehicle/vehicle_state''),
     (''/vehicle/dbw_enabled'', MsgHandler ''pb::std_msgs::Bool'' ''/vehicle/dbw_enabled''),
     (''/vehicle/joint_states'', MsgHandler ''pb::car_info_msgs::JointState'' ''/vehicle/joint_states''),
     (''/vehicle/enable'', MsgHandler ''pb::std_msgs::Bool'' ''/vehicle/enable'')]"

definition player_handlers2 :: "(string \<times> handler) list" where
  "player_handlers2 =
    [(''/vehicle/disable'', MsgHandler ''pb::std_msgs::Bool'' ''/vehicle/disable''),
     (''/vehicle/brake_cmd'', MsgHandler ''pb::car_info_msgs::BrakeCmd'' ''/vehicle/brake_cmd''),
     (''/vehicle/throttle_cmd'', MsgHandler ''pb::car_info_msgs::ThrottleCmd'' ''/vehicle/throttle_cmd''),
     (''/vehicle/steering_cmd'', MsgHandler ''pb::car_info_msgs::SteeringCmd'' ''/vehicle/steering_cmd''),
     (''/vehicle/gear_cmd'', MsgHandler ''pb::car_info_msgs::GearCmd'' ''/vehicle/gear_cmd''),
     (''/planning/pub_goal_reached'', MsgHandler ''pb::std_msgs::Bool'' ''/planning/pub_goal_reached''),
     (''/planning/AVP_planner_state'', MsgHandler ''pb::std_msgs::String'' ''/planning/AVP_planner_state''),
     (''/vehicle/turn_signal_cmd'', MsgHandler ''pb::car_info_msgs::TurnSignalCmd'' ''/vehicle/turn_signal_cmd''),
     (''/vehicle/fuzzy_pid'', MsgHandler ''pb::twist_controller_msgs::FuzzyPid'' ''/vehicle/fuzzy_pid''),
     (''/planning/sim_gps/fix'', MsgHandler ''pb::car_info_msgs::NavSatFix'' ''/planning/sim_gps/fix''),
     (''/est_pose'', MsgHandler ''pb::geometry_msgs::PoseStamped'' ''/est_pose''),
     (''/gnss_stat'', MsgHandler ''pb::std_msgs::Bool'' ''/gnss_stat''),
     (''/gnss_pose'', MsgHandler ''pb::geometry_msgs::PoseStamped'' ''/gnss_pose''),
     (''/osm/initpose_confirm'', MsgHandler ''pb::std_msgs::Bool'' ''/osm/initpose_confirm''),
     (''/osm/initpose'', MsgHandler ''pb::geometry_msgs::PoseStamped'' ''/osm/initpose''),
     (''/tf'', MsgHandler ''pb::world_model_msgs::TFMessage'' ''/tf''),
     (''ref_steering_angle'', MsgHandler ''pb::std_msgs::Float64'' ''ref_steering_angle''),
     (''follower_monitor'', MsgHandler ''pb::path_follower_msgs::PathFollowerMonitor'' ''follower_monitor''),
     (''cmd_vel_stamped'', MsgHandler ''pb::twist_controller_msgs::TwistCmdStamped'' ''cmd_vel_stamped''),
     (''twist_raw'', MsgHandler ''pb::twist_controller_msgs::TwistCmdStamped'' ''twist_raw''),
     (''lqr_state'', MsgHandler ''pb::world_model_msgs::LQRState'' ''lqr_state''),
     (''ref_waypoint'', MsgHandler ''pb::world_model_msgs::WaypointCell'' ''ref_waypoint''),
     (''ref_waypoint_cent_lane'', MsgHandler ''pb::world_model_msgs::WaypointCell'' ''ref_waypoint_cent_lane''),
     (''ref_steering_angle_cent_lane'', MsgHandler ''pb::std_msgs::Float64'' ''ref_steering_angle_cent_lane''),
     (''input_steering_angle'', MsgHandler ''pb::std_msgs::Float64'' ''input_steering_angle''),
     (''lqr_state_cent_lane'', MsgHandler ''pb::world_model_msgs::LQRState'' ''lqr_state_cent_lane''),
     (''debug1'', MsgHandler ''pb::std_msgs::Int8'' ''debug1''),
     (''cent_subscribe_state'', MsgHandler ''pb::std_msgs::Int8'' ''cent_subscribe_state''),
     (''current_follower_method'', MsgHandler ''pb::world_model_msgs::PathFollower'' ''current_follower_method''),
     (''follower_target'', MsgHandler ''pb::geometry_msgs::Point'' ''follower_target''),
     (''/perception/freespace_contour'', MsgHandler ''pb::esr_mobileye_msgs::FreeSpaceContour'' ''/perception/freespace_contour''),
     (''/fusion/obstacle_list'', MsgHandler ''pb::esr_mobileye_msgs::ObstacleArray'' ''/fusion/obstacle_list''),
     (''/predict/obstacle_predict'', MsgHandler ''pb::world_model_msgs::CutinPredictArray'' ''/predict/obstacle_predict'')]"

definition player_handlers3 :: "(string \<times> handler) list" where
  "player_handlers3 =
    [(''/odom/current_pose'', MsgHandler ''pb::geometry_msgs::PoseStamped'' ''/odom/current_pose''),
     (''/global_planning/route_cmd'', MsgHandler ''pb::world_model_msgs::RouteCmd'' ''/global_planning/route_cmd''),
     (''/perception/left_lka_lane'', MsgHandler ''pb::esr_mobileye_msgs::LkaLane'' ''/perception/left_lka_lane''),
     (''/perception/right_lka_lane'', MsgHandler ''pb::esr_mobileye_msgs::LkaLane'' ''/perception/right_lka_lane''),
     (''camera_info'', MsgHandler ''pb::world_model_msgs::SpeedLimit'' ''camera_info''),
     (''navi_info'', MsgHandler ''pb::world_model_msgs::NaviInfo'' ''navi_info''),
     (''/cross_road'', MsgHandler ''pb::world_model_msgs::CrossRoad'' ''/cross_road''),
     (''realtime_navi_info'', MsgHandler ''pb::world_model_msgs::NaviInfo'' ''realtime_navi_info''),
     (''human_help_request'', MsgHandler ''pb::world_model_msgs::HumanHelp'' ''human_help_request''),
     (''center_lane'', MsgHandler ''pb::esr_mobileye_msgs::LkaLane'' ''center_lane''),
     (''vehicle_monitor'', MsgHandler ''pb::world_model_msgs::VehicleMonitor'' ''vehicle_monitor''),
     (''closest_waypoint'', MsgHandler ''pb::std_msgs::UInt32'' ''closest_waypoint''),
     (''/osm/route_cmd_confirm'', MsgHandler ''pb::std_msgs::Bool'' ''/osm/route_cmd_confirm''),
     (''route_waypoints'', MsgHandler ''pb::world_model_msgs::Lane'' ''route_waypoints''),
     (''/util/turn_signal_cmd'', MsgHandler ''pb::car_info_msgs::TurnSignalCmd'' ''/util/turn_signal_cmd''),
     (''/osm/replan_local_planner'', MsgHandler ''pb::std_msgs::Bool'' ''/osm/replan_local_planner''),
     (''holistic_path'', MsgHandler ''pb::esr_mobileye_msgs::LkaLane'' ''holistic_path''),
     (''state'', MsgHandler ''pb::std_msgs::String'' ''state''),
     (''final_waypoints'', MsgHandler ''pb::world_model_msgs::Trajectory'' ''final_waypoints''),
     (''control_monitor'', MsgHandler ''pb::twist_controller_msgs::ControlMonitor'' ''control_monitor''),
     (''/vehicle/throttle_cmd'', MsgHandler ''pb::car_info_msgs::ThrottleCmd'' ''/vehicle/throttle_cmd''),
     (''/vehicle/brake_cmd'', MsgHandler ''pb::car_info_msgs::BrakeCmd'' ''/vehicle/brake_cmd''),
     (''/vehicle/steering_cmd'', MsgHandler ''pb::car_info_msgs::SteeringCmd'' ''/vehicle/steering_cmd''),
     (''gnss_pose'', MsgHandler ''pb::geometry_msgs::PoseStamped'' ''gnss_pose''),
     (''gnss_stat'', MsgHandler ''pb::std_msgs::Bool'' ''gnss_stat''),
     (''/osm/initpose_confirm'', MsgHandler ''pb::std_msgs::Bool'' ''/osm/initpose_confirm''),
     (''/tf'', MsgHandler ''pb::world_model_msgs::TFMessage'' ''/tf''),
     (''/est_pose'', MsgHandler ''pb::geometry_msgs::PoseStamped'' ''/est_pose''),
     (''/global_viapoints_visualization'', MsgHandler ''pb::world_model_msgs::Marker'' ''/global_viapoints_visualization''),
     (''/planning/global_viapoints'', MsgHandler ''pb::parking_msgs::GlobalViapoints'' ''/planning/global_viapoints''),
     (''/planning/pub_global_viapoints'', MsgHandler ''pb::parking_msgs::GlobalViapoints'' ''/planning/pub_global_viapoints''),
     (''/car_pose'', MsgHandler ''pb::world_model_msgs::Marker'' ''/car_pose''),
     (''/goal_pose'', MsgHandler ''pb::world_model_msgs::Marker'' ''/goal_pose'')]"

definition InitPlayerHandlerMap :: "handler_map \<Rightarrow> handler_map" where
  "InitPlayerHandlerMap m =
     insert_all player_handlers3 (insert_all player_handlers2 (insert_all player_handlers1 m))"

section \<open>Agreement\<close>

lemma std_map_insert_all: "std_map m \<Longrightarrow> std_map (insert_all hs m)"
  by (induction hs arbitrary: m) (auto simp: insert_all_def)

lemma map_of_insert_all:
  "map_of (insert_all hs m) k = (case map_of m k of Some h \<Rightarrow> Some h | None \<Rightarrow> map_of hs k)"
proof (induction hs arbitrary: m)
  case Nil
  then show ?case by (simp add: insert_all_def split: option.split)
next
  case (Cons x hs)
  obtain j h where x: "x = (j, h)" by (cases x)
  have "map_of (insert_all (x # hs) m) k = map_of (insert_all hs (map_insert j h m)) k"
    by (simp add: insert_all_def x)
  also have "\<dots> = (case map_of (map_insert j h m) k of Some h \<Rightarrow> Some h | None \<Rightarrow> map_of hs k)"
    by (rule Cons.IH)
  finally show ?case
    by (auto simp: x map_of_map_insert split: option.split)
qed

definition recorder_handlers :: "(string \<times> handler) list" where
  "recorder_handlers = recorder_handlers1 @ recorder_handlers2 @ recorder_handlers3"

definition player_handlers :: "(string \<times> handler) list" where
  "player_handlers = player_handlers1 @ player_handlers2 @ player_handlers3"

lemma insert_all_append: "insert_all hs' (insert_all hs m) = insert_all (hs @ hs') m"
  by (simp add: insert_all_def)

lemma InitRecorderHandlerMap_eq: "InitRecorderHandlerMap m = insert_all recorder_handlers m"
  by (simp add: InitRecorderHandlerMap_def recorder_handlers_def insert_all_append)

lemma InitPlayerHandlerMap_eq: "InitPlayerHandlerMap m = insert_all player_handlers m"
  by (simp add: InitPlayerHandlerMap_def player_handlers_def insert_all_append)

lemma handlers_agree: "player_handlers = recorder_handlers"
proof -
  have "player_handlers1 = recorder_handlers1" by (simp only: player_handlers1_def recorder_handlers1_def)
  moreover have "player_handlers2 = recorder_handlers2" by (simp only: player_handlers2_def recorder_handlers2_def)
  moreover have "player_handlers3 = recorder_handlers3" by (simp only: player_handlers3_def recorder_handlers3_def)
  ultimately show ?thesis by (simp only: player_handlers_def recorder_handlers_def)
qed

lemma MsgHandler_topic: "handler_topic (MsgHandler ty t) = t"
  by (simp add: MsgHandler_def)

lemma handlers_bound:
  "\<forall>(k, h) \<in> set recorder_handlers. handler_topic h = k"
proof -
  let ?P = "\<lambda>(k, h). handler_topic h = k"
  note eval = list.pred_inject prod.case MsgHandler_topic simp_thms
  have "list_all ?P recorder_handlers1" by (simp only: recorder_handlers1_def eval)
  moreover have "list_all ?P recorder_handlers2" by (simp only: recorder_handlers2_def eval)
  moreover have "list_all ?P recorder_handlers3" by (simp only: recorder_handlers3_def eval)
  ultimately show ?thesis by (auto simp: recorder_handlers_def list_all_iff)
qed

lemma recorder_map_lookup:
  assumes "map_of (InitRecorderHandlerMap []) t = Some h"
  shows "handler_topic h = t"
proof -
  from assms have "map_of recorder_handlers t = Some h" by (simp add: InitRecorderHandlerMap_eq map_of_insert_all)
  then have "(t, h) \<in> set recorder_handlers" by (rule map_of_SomeD)
  with handlers_bound show ?thesis by auto
qed

section \<open>Properties\<close>

text \<open>
  The two tables agree: recorder and player know the same topics and bind each to the same
  message type, and every handler carries the topic it is stored under, so a message never goes out
  under another name.
\<close>

theorem handler_maps_agree:
  "map_of (InitPlayerHandlerMap []) = map_of (InitRecorderHandlerMap []) \<and>
   std_map (InitRecorderHandlerMap []) \<and>
   (\<forall>t h. (t, h) \<in> set (InitRecorderHandlerMap []) = (map_of (InitRecorderHandlerMap []) t = Some h)) \<and>
   (\<forall>(t, h) \<in> set (InitRecorderHandlerMap []). handler_topic h = t)"
proof -
  have srt: "std_map (InitRecorderHandlerMap [])" by (simp add: InitRecorderHandlerMap_eq std_map_insert_all)
  then have "distinct (map fst (InitRecorderHandlerMap []))" by (simp add: strict_sorted_iff)
  then have look: "\<forall>t h. (t, h) \<in> set (InitRecorderHandlerMap []) = (map_of (InitRecorderHandlerMap []) t = Some h)"
    by simp
  then have "\<forall>(t, h) \<in> set (InitRecorderHandlerMap []). handler_topic h = t"
    using recorder_map_lookup by blast
  with srt look show ?thesis
    by (simp add: InitRecorderHandlerMap_eq InitPlayerHandlerMap_eq handlers_agree)
qed

lemma first_recorder_handler:
  "map_of (InitRecorderHandlerMap []) ''topic_fisheye_pose'' =
     Some (MsgHandler ''pb::fisheye_msgs::PoseMessage'' ''topic_fisheye_pose'')"
proof -
  obtain hs where eq: "recorder_handlers =
      (''topic_fisheye_pose'', MsgHandler ''pb::fisheye_msgs::PoseMessage'' ''topic_fisheye_pose'') # hs"
    by (simp only: recorder_handlers_def recorder_handlers1_def append_Cons)
  have "map_of recorder_handlers ''topic_fisheye_pose'' =
      Some (MsgHandler ''pb::fisheye_msgs::PoseMessage'' ''topic_fisheye_pose'')"
    by (subst eq) simp
  then show ?thesis by (simp only: InitRecorderHandlerMap_eq map_of_insert_all map_of.simps option.case)
qed

theorem handler_maps_agree_witness:
  "\<exists>h. (''topic_fisheye_pose'', h) \<in> set (InitRecorderHandlerMap []) \<and>
     map_of (InitPlayerHandlerMap []) ''topic_fisheye_pose'' = Some h \<and> handler_topic h = ''topic_fisheye_pose''"
proof -
  let ?h = "MsgHandler ''pb::fisheye_msgs::PoseMessage'' ''topic_fisheye_pose''"
  have "(''topic_fisheye_pose'', ?h) \<in> set (InitRecorderHandlerMap [])"
    using handler_maps_agree first_recorder_handler by blast
  moreover have "map_of (InitPlayerHandlerMap []) ''topic_fisheye_pose'' = Some ?h"
    using handler_maps_agree first_recorder_handler by metis
  ultimately show ?thesis using MsgHandler_topic by blast
qed

end
