(* ===== verification/SyncQueue.thy ===== *)
theory SyncQueue
  imports Prelude
begin

text \<open>
  \<open>src/common/sync_queue.h\<close>: the bounded queue between producers and consumers. The first part
  models the critical sections, which run under the mutex, as functions on the object. The second
  part is a step relation for any number of threads: a step is one critical section, a call, or a
  wake-up of a condition variable. A thread waits in one of two places: asleep on a condition
  variable, or awake and about to take the mutex and evaluate its predicate. \<open>notify_one\<close> wakes an
  arbitrary sleeper; spurious wake-ups are steps of their own.
\<close>

section \<open>The object\<close>

record 'a sync_queue =
  queue :: "'a list"
  max_size :: nat
  need_stop :: bool

text \<open>The constructor takes an \<open>int\<close> and stores it in a \<open>size_t\<close>.\<close>

definition SyncQueue_new :: "int \<Rightarrow> 'a sync_queue" where
  "SyncQueue_new maxSize = \<lparr>queue = [], max_size = unat (word_of_int maxSize :: 64 word), need_stop = False\<rparr>"

definition NotFull :: "'a sync_queue \<Rightarrow> bool" where
  "NotFull q \<longleftrightarrow> \<not> (max_size q \<le> length (queue q))"

definition NotEmpty :: "'a sync_queue \<Rightarrow> bool" where
  "NotEmpty q \<longleftrightarrow> queue q \<noteq> []"

definition sq_Empty :: "'a sync_queue \<Rightarrow> bool" where
  "sq_Empty q \<longleftrightarrow> queue q = []"

definition sq_Full :: "'a sync_queue \<Rightarrow> bool" where
  "sq_Full q \<longleftrightarrow> length (queue q) = max_size q"

definition sq_Size :: "'a sync_queue \<Rightarrow> nat" where
  "sq_Size q = length (queue q)"

text \<open>\<open>int Count()\<close> truncates.\<close>

definition sq_Count :: "'a sync_queue \<Rightarrow> int" where
  "sq_Count q = sint (word_of_nat (length (queue q)) :: 32 word)"

text \<open>
  One evaluation of the loop of \<open>condition_variable::wait\<close>: the thread goes (back) to sleep, or it
  leaves the wait and runs the rest of the critical section. The flag tells whether the section ends
  with \<open>notify_one\<close>.
\<close>

datatype 'r section_result = Sleeps | Leaves 'r bool

definition Add :: "'a \<Rightarrow> 'a sync_queue \<Rightarrow> unit section_result \<times> 'a sync_queue" where
  "Add x q =
     (if \<not> (need_stop q \<or> NotFull q) then (Sleeps, q)
      else if need_stop q then (Leaves () False, q)
      else (Leaves () True, q\<lparr>queue := queue q @ [x]\<rparr>))"

definition Put :: "'a \<Rightarrow> 'a sync_queue \<Rightarrow> unit section_result \<times> 'a sync_queue" where
  "Put x q = Add x q"

text \<open>\<open>Take(std::list<T> &)\<close>: the list keeps its value, empty in every caller, when the queue stops.\<close>

definition Take :: "'a sync_queue \<Rightarrow> 'a list section_result \<times> 'a sync_queue" where
  "Take q =
     (if \<not> (need_stop q \<or> NotEmpty q) then (Sleeps, q)
      else if need_stop q then (Leaves [] False, q)
      else (Leaves (queue q) True, q\<lparr>queue := []\<rparr>))"

definition sq_set_stop :: "'a sync_queue \<Rightarrow> 'a sync_queue" where
  "sq_set_stop q = q\<lparr>need_stop := True\<rparr>"

section \<open>Threads\<close>

text \<open>
  \<open>stop_pc\<close> is the progress of the one thread inside \<open>Stop\<close>: before it, after the flag was set,
  after \<open>not_full_.notify_all()\<close>, after \<open>not_empty_.notify_all()\<close>. The last three fields are
  history: the items accepted by \<open>Put\<close>, the lists delivered by \<open>Take\<close>, the items a \<open>Put\<close>
  returned without accepting.
\<close>

record 'a sq_system =
  obj :: "'a sync_queue"
  put_asleep :: "(nat \<times> 'a) list"
  put_awake :: "(nat \<times> 'a) list"
  take_asleep :: "nat list"
  take_awake :: "nat list"
  stop_pc :: nat
  accepted :: "'a list"
  delivered :: "(nat \<times> 'a list) list"
  refused :: "'a list"

definition sq_init :: "int \<Rightarrow> 'a sq_system" where
  "sq_init n = \<lparr>obj = SyncQueue_new n, put_asleep = [], put_awake = [], take_asleep = [],
     take_awake = [], stop_pc = 0, accepted = [], delivered = [], refused = []\<rparr>"

datatype 'a sq_label = Tau | CallPut nat 'a | CallTake nat | TakeReturns nat "'a list" | StopStep nat

text \<open>\<open>notify_one\<close> moves one sleeper, if there is one, to the awake threads.\<close>

inductive wakes_one :: "'t list \<Rightarrow> 't list \<Rightarrow> 't list \<Rightarrow> 't list \<Rightarrow> bool" where
  nobody: "wakes_one [] awake [] awake"
| somebody: "wakes_one (xs @ t # ys) awake (xs @ ys) (awake @ [t])"

inductive_cases wakes_oneE: "wakes_one asleep awake asleep' awake'"

inductive sq_step :: "'a sq_system \<Rightarrow> 'a sq_label \<Rightarrow> 'a sq_system \<Rightarrow> bool" where
  call_put: "sq_step s (CallPut p x) (s\<lparr>put_awake := put_awake s @ [(p, x)]\<rparr>)"
| call_take: "sq_step s (CallTake c) (s\<lparr>take_awake := take_awake s @ [c]\<rparr>)"
| put_sleeps:
    "put_awake s = ps @ (p, x) # ps' \<Longrightarrow> Put x (obj s) = (Sleeps, q) \<Longrightarrow>
     sq_step s Tau (s\<lparr>obj := q, put_awake := ps @ ps', put_asleep := put_asleep s @ [(p, x)]\<rparr>)"
| put_stopped:
    "put_awake s = ps @ (p, x) # ps' \<Longrightarrow> Put x (obj s) = (Leaves () False, q) \<Longrightarrow>
     sq_step s Tau (s\<lparr>obj := q, put_awake := ps @ ps', refused := refused s @ [x]\<rparr>)"
| put_pushes:
    "put_awake s = ps @ (p, x) # ps' \<Longrightarrow> Put x (obj s) = (Leaves () True, q) \<Longrightarrow>
     wakes_one (take_asleep s) (take_awake s) asleep' awake' \<Longrightarrow>
     sq_step s Tau (s\<lparr>obj := q, put_awake := ps @ ps', accepted := accepted s @ [x],
       take_asleep := asleep', take_awake := awake'\<rparr>)"
| take_sleeps:
    "take_awake s = cs @ c # cs' \<Longrightarrow> Take (obj s) = (Sleeps, q) \<Longrightarrow>
     sq_step s Tau (s\<lparr>obj := q, take_awake := cs @ cs', take_asleep := take_asleep s @ [c]\<rparr>)"
| take_stopped:
    "take_awake s = cs @ c # cs' \<Longrightarrow> Take (obj s) = (Leaves xs False, q) \<Longrightarrow>
     sq_step s (TakeReturns c xs) (s\<lparr>obj := q, take_awake := cs @ cs'\<rparr>)"
| take_takes:
    "take_awake s = cs @ c # cs' \<Longrightarrow> Take (obj s) = (Leaves xs True, q) \<Longrightarrow>
     wakes_one (put_asleep s) (put_awake s) asleep' awake' \<Longrightarrow>
     sq_step s (TakeReturns c xs) (s\<lparr>obj := q, take_awake := cs @ cs',
       delivered := delivered s @ [(c, xs)], put_asleep := asleep', put_awake := awake'\<rparr>)"
| spurious_put:
    "put_asleep s = ps @ p # ps' \<Longrightarrow>
     sq_step s Tau (s\<lparr>put_asleep := ps @ ps', put_awake := put_awake s @ [p]\<rparr>)"
| spurious_take:
    "take_asleep s = cs @ c # cs' \<Longrightarrow>
     sq_step s Tau (s\<lparr>take_asleep := cs @ cs', take_awake := take_awake s @ [c]\<rparr>)"
| stop_flag:
    "stop_pc s = 0 \<Longrightarrow> sq_step s (StopStep 0) (s\<lparr>obj := sq_set_stop (obj s), stop_pc := 1\<rparr>)"
| stop_not_full:
    "stop_pc s = 1 \<Longrightarrow>
     sq_step s (StopStep 1) (s\<lparr>put_awake := put_awake s @ put_asleep s, put_asleep := [], stop_pc := 2\<rparr>)"
| stop_not_empty:
    "stop_pc s = 2 \<Longrightarrow>
     sq_step s (StopStep 2) (s\<lparr>take_awake := take_awake s @ take_asleep s, take_asleep := [], stop_pc := 3\<rparr>)"

inductive sq_reachable :: "int \<Rightarrow> 'a sq_system \<Rightarrow> bool" for n where
  init: "sq_reachable n (sq_init n)"
| step: "sq_reachable n s \<Longrightarrow> sq_step s l s' \<Longrightarrow> sq_reachable n s'"

section \<open>Running a schedule\<close>

text \<open>
  One way to resolve the choices of the relation: the thread that is awake longest runs, the one
  asleep longest is woken. A run of events is one of the interleavings of the relation.
\<close>

datatype 'a sq_event = EvPut nat 'a | EvTake nat | EvRunPut | EvRunTake | EvStop

fun wake_first :: "'t list \<Rightarrow> 't list \<Rightarrow> 't list \<times> 't list" where
  "wake_first [] awake = ([], awake)"
| "wake_first (t # ts) awake = (ts, awake @ [t])"

fun sq_play :: "'a sq_event \<Rightarrow> 'a sq_system \<Rightarrow> 'a sq_system" where
  "sq_play (EvPut p x) s = s\<lparr>put_awake := put_awake s @ [(p, x)]\<rparr>"
| "sq_play (EvTake c) s = s\<lparr>take_awake := take_awake s @ [c]\<rparr>"
| "sq_play EvRunPut s =
     (case put_awake s of
        [] \<Rightarrow> s
      | (p, x) # ps \<Rightarrow>
          (case Put x (obj s) of
             (Sleeps, q) \<Rightarrow> s\<lparr>obj := q, put_awake := ps, put_asleep := put_asleep s @ [(p, x)]\<rparr>
           | (Leaves _ notify, q) \<Rightarrow>
               if notify then
                 (let (asleep, awake) = wake_first (take_asleep s) (take_awake s)
                  in s\<lparr>obj := q, put_awake := ps, accepted := accepted s @ [x],
                       take_asleep := asleep, take_awake := awake\<rparr>)
               else s\<lparr>obj := q, put_awake := ps, refused := refused s @ [x]\<rparr>))"
| "sq_play EvRunTake s =
     (case take_awake s of
        [] \<Rightarrow> s
      | c # cs \<Rightarrow>
          (case Take (obj s) of
             (Sleeps, q) \<Rightarrow> s\<lparr>obj := q, take_awake := cs, take_asleep := take_asleep s @ [c]\<rparr>
           | (Leaves xs notify, q) \<Rightarrow>
               if notify then
                 (let (asleep, awake) = wake_first (put_asleep s) (put_awake s)
                  in s\<lparr>obj := q, take_awake := cs, delivered := delivered s @ [(c, xs)],
                       put_asleep := asleep, put_awake := awake\<rparr>)
               else s\<lparr>obj := q, take_awake := cs\<rparr>))"
| "sq_play EvStop s =
     (if stop_pc s = 0 then s\<lparr>obj := sq_set_stop (obj s), stop_pc := 1\<rparr>
      else if stop_pc s = 1 then s\<lparr>put_awake := put_awake s @ put_asleep s, put_asleep := [], stop_pc := 2\<rparr>
      else if stop_pc s = 2 then s\<lparr>take_awake := take_awake s @ take_asleep s, take_asleep := [], stop_pc := 3\<rparr>
      else s)"

definition sq_replay :: "'a sq_event list \<Rightarrow> 'a sq_system \<Rightarrow> 'a sq_system" where
  "sq_replay es s = fold sq_play es s"

lemma wakes_wake_first: "wakes_one asleep awake (fst (wake_first asleep awake)) (snd (wake_first asleep awake))"
  using wakes_one.nobody wakes_one.somebody [of "[]"] by (cases asleep) auto

lemma play_run_put:
  assumes "put_awake s \<noteq> []"
  shows "sq_step s Tau (sq_play EvRunPut s)"
proof -
  obtain p x ps where a: "put_awake s = [] @ (p, x) # ps"
    using assms by (cases "put_awake s") auto
  note steps = sq_step.put_sleeps [OF a] sq_step.put_stopped [OF a]
    sq_step.put_pushes [OF a _ wakes_wake_first]
  show ?thesis
    using a steps by (cases "Put x (obj s)"; cases "fst (Put x (obj s))")
      (auto simp: split_beta Let_def split: bool.splits)
qed

lemma play_run_take:
  assumes "take_awake s = c # cs"
  shows "sq_step s (case fst (Take (obj s)) of Sleeps \<Rightarrow> Tau | Leaves xs _ \<Rightarrow> TakeReturns c xs) (sq_play EvRunTake s)"
proof -
  have a: "take_awake s = [] @ c # cs" using assms by simp
  note steps = sq_step.take_sleeps [OF a] sq_step.take_stopped [OF a]
    sq_step.take_takes [OF a _ wakes_wake_first]
  show ?thesis
    using a steps by (cases "Take (obj s)"; cases "fst (Take (obj s))")
      (auto simp: split_beta Let_def split: bool.splits)
qed

lemma play_stop: "stop_pc s < 3 \<Longrightarrow> sq_step s (StopStep (stop_pc s)) (sq_play EvStop s)"
  using sq_step.stop_flag [of s] sq_step.stop_not_full [of s] sq_step.stop_not_empty [of s]
  by (auto simp: numeral_3_eq_3 less_Suc_eq)

lemma sq_play_step: "sq_play e s = s \<or> (\<exists>l. sq_step s l (sq_play e s))"
proof (cases e)
  case (EvPut p x)
  then show ?thesis using sq_step.call_put [of s p x] by simp blast
next
  case (EvTake c)
  then show ?thesis using sq_step.call_take [of s c] by simp blast
next
  case EvRunPut
  then show ?thesis using play_run_put [of s] by (cases "put_awake s = []") auto
next
  case EvRunTake
  then show ?thesis using play_run_take [of s] by (cases "take_awake s") auto
next
  case EvStop
  then show ?thesis using play_stop [of s] by (cases "stop_pc s < 3") auto
qed

lemma replay_reachable: "sq_reachable n (sq_replay es (sq_init n))"
proof -
  have "sq_reachable n s \<Longrightarrow> sq_reachable n (fold sq_play es s)" for s :: "'a sq_system"
  proof (induction es arbitrary: s)
    case Nil
    then show ?case by simp
  next
    case (Cons e es)
    from sq_play_step [of e s] Cons.prems have "sq_reachable n (sq_play e s)"
      by (metis sq_reachable.step)
    from Cons.IH [OF this] show ?case by simp
  qed
  then show ?thesis unfolding sq_replay_def using sq_reachable.init by blast
qed

section \<open>The critical sections\<close>

lemma Put_cases:
  "Put x q = (Sleeps, q') \<longleftrightarrow> \<not> need_stop q \<and> max_size q \<le> length (queue q) \<and> q' = q"
  "Put x q = (Leaves () False, q') \<longleftrightarrow> need_stop q \<and> q' = q"
  "Put x q = (Leaves () True, q') \<longleftrightarrow>
     \<not> need_stop q \<and> length (queue q) < max_size q \<and> q' = q\<lparr>queue := queue q @ [x]\<rparr>"
  by (auto simp: Put_def Add_def NotFull_def)

lemma Take_cases:
  "Take q = (Sleeps, q') \<longleftrightarrow> \<not> need_stop q \<and> queue q = [] \<and> q' = q"
  "Take q = (Leaves xs False, q') \<longleftrightarrow> need_stop q \<and> xs = [] \<and> q' = q"
  "Take q = (Leaves xs True, q') \<longleftrightarrow>
     \<not> need_stop q \<and> queue q \<noteq> [] \<and> xs = queue q \<and> q' = q\<lparr>queue := []\<rparr>"
  by (auto simp: Take_def NotEmpty_def)

lemma wakes_one_mset:
  "wakes_one asleep awake asleep' awake' \<Longrightarrow> mset asleep' + mset awake' = mset asleep + mset awake"
  by (erule wakes_oneE) auto

lemma wakes_one_awake:
  "wakes_one asleep awake asleep' awake' \<Longrightarrow> asleep \<noteq> [] \<Longrightarrow> awake' \<noteq> []"
  by (erule wakes_oneE) auto

lemma wakes_one_empty:
  "wakes_one [] awake asleep' awake' \<Longrightarrow> asleep' = [] \<and> awake' = awake"
  by (erule wakes_oneE) auto

lemma wakes_one_none:
  "wakes_one asleep awake asleep' [] \<Longrightarrow> asleep = [] \<and> awake = [] \<and> asleep' = []"
  by (erule wakes_oneE) auto

section \<open>Invariants\<close>

definition fifo_inv :: "'a sq_system \<Rightarrow> bool" where
  "fifo_inv s \<longleftrightarrow> accepted s = concat (map snd (delivered s)) @ queue (obj s) \<and>
     length (queue (obj s)) \<le> max_size (obj s)"

definition stop_inv :: "'a sq_system \<Rightarrow> bool" where
  "stop_inv s \<longleftrightarrow> (need_stop (obj s) \<longleftrightarrow> stop_pc s \<noteq> 0) \<and> stop_pc s \<le> 3 \<and>
     (2 \<le> stop_pc s \<longrightarrow> put_asleep s = []) \<and> (3 \<le> stop_pc s \<longrightarrow> take_asleep s = [])"

definition wake_inv :: "'a sq_system \<Rightarrow> bool" where
  "wake_inv s \<longleftrightarrow> (stop_pc s = 0 \<longrightarrow>
     (take_asleep s \<noteq> [] \<and> queue (obj s) \<noteq> [] \<longrightarrow> take_awake s \<noteq> []) \<and>
     (put_asleep s \<noteq> [] \<and> queue (obj s) = [] \<longrightarrow> put_awake s \<noteq> []))"

lemma fifo_inv_step: "sq_step s l s' \<Longrightarrow> fifo_inv s \<Longrightarrow> fifo_inv s'"
  by (induction rule: sq_step.induct) (auto simp: fifo_inv_def Put_cases Take_cases sq_set_stop_def)

lemma stop_inv_step: "sq_step s l s' \<Longrightarrow> stop_inv s \<Longrightarrow> stop_inv s'"
  by (induction rule: sq_step.induct)
    (auto simp: stop_inv_def Put_cases Take_cases sq_set_stop_def dest: wakes_one_empty)

lemma wake_inv_step:
  "sq_step s l s' \<Longrightarrow> stop_inv s \<Longrightarrow> 0 < max_size (obj s) \<Longrightarrow> wake_inv s \<Longrightarrow> wake_inv s'"
  by (induction rule: sq_step.induct)
    (auto simp: wake_inv_def stop_inv_def Put_cases Take_cases sq_set_stop_def
      dest: wakes_one_empty wakes_one_awake wakes_one_none)

lemma max_size_step: "sq_step s l s' \<Longrightarrow> max_size (obj s') = max_size (obj s)"
  by (induction rule: sq_step.induct) (auto simp: Put_cases Take_cases sq_set_stop_def)

lemma reachable_inv:
  fixes s :: "'a sq_system"
  assumes "sq_reachable n s"
  shows "fifo_inv s \<and> stop_inv s \<and> max_size (obj s) = max_size (obj (sq_init n :: 'a sq_system))"
  using assms
proof (induction rule: sq_reachable.induct)
  case init
  then show ?case by (simp add: fifo_inv_def stop_inv_def sq_init_def SyncQueue_new_def)
next
  case (step s l s')
  then show ?case using fifo_inv_step stop_inv_step max_size_step by metis
qed

lemma sync_queue_fifo_inv:
  "sq_reachable n s \<Longrightarrow> accepted s = concat (map snd (delivered s)) @ queue (obj s)"
  using reachable_inv [of n s] by (simp add: fifo_inv_def)

lemma reachable_wake_inv:
  fixes s :: "'a sq_system"
  assumes "sq_reachable n s" and "0 < n" and "n < 2 ^ 63"
  shows "wake_inv s"
proof -
  have pos: "0 < max_size (obj (sq_init n :: 'a sq_system))"
  proof -
    have "unat (word_of_int n :: 64 word) = nat n"
      using assms(2,3) by (simp add: unat_eq_nat_uint uint_word_of_int)
    with assms(2) show ?thesis by (simp add: sq_init_def SyncQueue_new_def)
  qed
  from assms(1) show ?thesis
  proof (induction rule: sq_reachable.induct)
    case init
    then show ?case by (simp add: wake_inv_def sq_init_def)
  next
    case (step s l s')
    from reachable_inv [OF step(1)] pos have "stop_inv s" "0 < max_size (obj s)" by simp_all
    with step wake_inv_step show ?case by blast
  qed
qed

section \<open>Properties\<close>

text \<open>
  C11. The queue is bounded and first-in first-out: in every state any interleaving of producers
  and consumers can reach, the queue holds at most its capacity, and the accepted items in the order
  of acceptance are the delivered lists one after the other followed by the queue: no item is lost,
  doubled or overtaken.
\<close>

theorem sync_queue_fifo:
  fixes s :: "'a sq_system"
  assumes "sq_reachable n s" and "0 \<le> n" and "n < 2 ^ 63"
  shows "int (length (queue (obj s))) \<le> n \<and>
    accepted s = concat (map snd (delivered s)) @ queue (obj s)"
proof -
  have "unat (word_of_int n :: 64 word) = nat n"
    using assms(2,3) by (simp add: unat_eq_nat_uint uint_word_of_int)
  then have "max_size (obj (sq_init n :: 'a sq_system)) = nat n"
    by (simp add: sq_init_def SyncQueue_new_def)
  with reachable_inv [OF assms(1)] assms(2) show ?thesis by (auto simp: fifo_inv_def)
qed

text \<open>Two threads, one item.\<close>

definition demo_run :: "nat sq_event list" where
  "demo_run = [EvPut 1 7, EvRunPut, EvTake 2, EvRunTake]"

definition demo_state :: "nat sq_system" where
  "demo_state = sq_replay demo_run (sq_init 1)"

lemma demo_reachable: "sq_reachable 1 demo_state"
  unfolding demo_state_def by (rule replay_reachable)

theorem sync_queue_fifo_witness:
  "int (length (queue (obj demo_state))) \<le> 1 \<and>
   accepted demo_state = concat (map snd (delivered demo_state)) @ queue (obj demo_state)"
  by (rule sync_queue_fifo [OF demo_reachable]) simp_all

text \<open>
  C16. Producers and consumers never sleep at the same time for good: in a state where no thread
  is awake and no one stopped the queue, a sleeping consumer means an empty queue and no sleeping
  producer, and a sleeping producer means that there are items to take.
\<close>

theorem sync_queue_no_deadlock:
  fixes s :: "'a sq_system"
  assumes "sq_reachable n s" and "0 < n" and "n < 2 ^ 63"
    and "stop_pc s = 0" and "put_awake s = []" and "take_awake s = []"
  shows "(take_asleep s \<noteq> [] \<longrightarrow> queue (obj s) = [] \<and> put_asleep s = []) \<and>
    (put_asleep s \<noteq> [] \<longrightarrow> queue (obj s) \<noteq> [] \<and> take_asleep s = [])"
  using reachable_wake_inv [OF assms(1-3)] assms(4-6) by (auto simp: wake_inv_def)

definition waiting_state :: "nat sq_system" where
  "waiting_state = sq_replay [EvTake 2, EvRunTake] (sq_init 1)"

theorem sync_queue_no_deadlock_witness:
  "take_asleep waiting_state = [2] \<and> queue (obj waiting_state) = [] \<and> put_asleep waiting_state = []"
proof -
  have q: "stop_pc waiting_state = 0" "put_awake waiting_state = []" "take_awake waiting_state = []"
    "take_asleep waiting_state = [2]"
    by (simp_all add: waiting_state_def sq_replay_def sq_init_def SyncQueue_new_def Take_def NotEmpty_def)
  have "sq_reachable 1 waiting_state" unfolding waiting_state_def by (rule replay_reachable)
  from sync_queue_no_deadlock [OF this _ _ q(1-3)] q(4) show ?thesis by simp
qed

text \<open>
  \<open>Stop\<close> lets everyone go: once it has returned no thread is asleep and none can fall asleep
  again; every \<open>Put\<close> and every \<open>Take\<close> that still runs returns at its next step, \<open>Take\<close>
  with nothing, and the items left in the queue stay there.
\<close>

theorem sync_queue_stop_releases:
  fixes s :: "'a sq_system"
  assumes "sq_reachable n s" and "stop_pc s = 3"
  shows "put_asleep s = [] \<and> take_asleep s = [] \<and>
    Put x (obj s) = (Leaves () False, obj s) \<and> Take (obj s) = (Leaves [] False, obj s) \<and>
    (\<forall>l s'. sq_step s l s' \<longrightarrow> obj s' = obj s \<and> put_asleep s' = [] \<and> take_asleep s' = [])"
proof -
  from reachable_inv [OF assms(1)] assms(2)
  have s: "put_asleep s = []" "take_asleep s = []" "need_stop (obj s)" by (auto simp: stop_inv_def)
  have "obj s' = obj s \<and> put_asleep s' = [] \<and> take_asleep s' = []" if "sq_step s l s'" for l s'
    using that s assms(2) by (cases rule: sq_step.cases) (auto simp: Put_cases Take_cases)
  with s show ?thesis by (simp add: Put_cases Take_cases)
qed

lemmas sq_run_defs = sq_replay_def sq_init_def SyncQueue_new_def Put_def Add_def Take_def NotFull_def
  NotEmpty_def sq_set_stop_def

theorem sync_queue_stop_releases_witness:
  "put_asleep (sq_replay [EvTake 1, EvRunTake, EvStop, EvStop, EvStop] (sq_init 1 :: nat sq_system)) = [] \<and>
   take_asleep (sq_replay [EvTake 1, EvRunTake, EvStop, EvStop, EvStop] (sq_init 1 :: nat sq_system)) = [] \<and>
   Take (obj (sq_replay [EvTake 1, EvRunTake, EvStop, EvStop, EvStop] (sq_init 1 :: nat sq_system))) =
     (Leaves [] False, obj (sq_replay [EvTake 1, EvRunTake, EvStop, EvStop, EvStop] (sq_init 1 :: nat sq_system)))"
proof -
  have "stop_pc (sq_replay [EvTake 1, EvRunTake, EvStop, EvStop, EvStop] (sq_init 1 :: nat sq_system)) = 3"
    by (simp add: sq_run_defs)
  from sync_queue_stop_releases [OF replay_reachable this] show ?thesis by blast
qed

text \<open>
  A producer can stay asleep although there is room: \<open>Take\<close> empties the queue but wakes only
  one of the waiting producers. With capacity two and four producers a state is reachable in which
  nobody is awake, the queue is not full, and a producer sleeps until some consumer comes again.
\<close>

theorem sync_queue_sleeps_with_room:
  "\<exists>s :: nat sq_system. sq_reachable 2 s \<and> stop_pc s = 0 \<and> put_awake s = [] \<and> take_awake s = [] \<and>
     take_asleep s = [] \<and> put_asleep s \<noteq> [] \<and> length (queue (obj s)) < max_size (obj s)"
proof -
  let ?run = "[EvPut 1 10, EvPut 2 20, EvPut 3 30, EvPut 4 40, EvRunPut, EvRunPut, EvRunPut, EvRunPut,
    EvTake 5, EvRunTake, EvRunPut] :: nat sq_event list"
  let ?s = "sq_replay ?run (sq_init 2 :: nat sq_system)"
  have "stop_pc ?s = 0 \<and> put_awake ?s = [] \<and> take_awake ?s = [] \<and> take_asleep ?s = [] \<and>
      put_asleep ?s \<noteq> [] \<and> length (queue (obj ?s)) < max_size (obj ?s)"
    by (simp add: sq_run_defs)
  with replay_reachable [of 2 ?run] show ?thesis by blast
qed

end
