(* ===== verification/ThreadPool.thy ===== *)
theory ThreadPool
  imports SyncQueue
begin

text \<open>
  \<open>src/common/thread_pool.h\<close> and \<open>thread_pool.cpp\<close>: workers that take lists of tasks from a
  \<open>SyncQueue\<close> and run them. The pool is a step relation on top of the queue's: a step is one queue
  step or one move of a worker through the loop of \<open>RunThread\<close>. A task is a value; running it is
  recorded in the history.
\<close>

definition MAX_TASK_COUNT :: int where "MAX_TASK_COUNT = 100"

text \<open>Where a worker is in \<open>RunThread\<close>: at the loop test, inside \<open>queue_.Take(list)\<close>, in the
  \<open>for\<close> loop with the tasks it has still to run, or returned.\<close>

datatype 'a worker = LoopTop | Taking | Running "'a list" | Exited

fun pending :: "'a worker \<Rightarrow> 'a list" where
  "pending (Running xs) = xs"
| "pending _ = []"

record 'a pool =
  pq :: "'a sq_system"
  running :: bool
  workers :: "'a worker list"
  joined :: bool
  executed :: "(nat \<times> 'a) list"
  abandoned :: "(nat \<times> 'a) list"

text \<open>\<open>Start\<close>: the flag is set before the first thread runs.\<close>

definition ThreadPool_new :: "nat \<Rightarrow> 'a pool" where
  "ThreadPool_new num_threads =
     \<lparr>pq = sq_init MAX_TASK_COUNT, running = True, workers = replicate num_threads LoopTop,
      joined = False, executed = [], abandoned = []\<rparr>"

text \<open>One move of worker \<open>i\<close> through \<open>RunThread\<close>.\<close>

inductive RunThread :: "nat \<Rightarrow> 'a pool \<Rightarrow> 'a pool \<Rightarrow> bool" for i s where
  loop_take:
    "i < length (workers s) \<Longrightarrow> workers s ! i = LoopTop \<Longrightarrow> running s \<Longrightarrow> sq_step (pq s) (CallTake i) q \<Longrightarrow>
     RunThread i s (s\<lparr>pq := q, workers := (workers s)[i := Taking]\<rparr>)"
| loop_exit:
    "i < length (workers s) \<Longrightarrow> workers s ! i = LoopTop \<Longrightarrow> \<not> running s \<Longrightarrow>
     RunThread i s (s\<lparr>workers := (workers s)[i := Exited]\<rparr>)"
| take_returns:
    "i < length (workers s) \<Longrightarrow> workers s ! i = Taking \<Longrightarrow> sq_step (pq s) (TakeReturns i xs) q \<Longrightarrow>
     RunThread i s (s\<lparr>pq := q, workers := (workers s)[i := Running xs]\<rparr>)"
| run_task:
    "i < length (workers s) \<Longrightarrow> workers s ! i = Running (x # xs) \<Longrightarrow> running s \<Longrightarrow>
     RunThread i s (s\<lparr>workers := (workers s)[i := Running xs], executed := executed s @ [(i, x)]\<rparr>)"
| drop_tasks:
    "i < length (workers s) \<Longrightarrow> workers s ! i = Running (x # xs) \<Longrightarrow> \<not> running s \<Longrightarrow>
     RunThread i s (s\<lparr>workers := (workers s)[i := Exited],
       abandoned := abandoned s @ map (Pair i) (x # xs)\<rparr>)"
| list_done:
    "i < length (workers s) \<Longrightarrow> workers s ! i = Running [] \<Longrightarrow>
     RunThread i s (s\<lparr>workers := (workers s)[i := LoopTop]\<rparr>)"

text \<open>\<open>StopThreadPool\<close>: stop the queue, clear the flag, join every worker.\<close>

inductive StopThreadPool :: "'a pool \<Rightarrow> 'a pool \<Rightarrow> bool" for s where
  stop_queue: "sq_step (pq s) (StopStep k) q \<Longrightarrow> StopThreadPool s (s\<lparr>pq := q\<rparr>)"
| stop_running: "stop_pc (pq s) = 3 \<Longrightarrow> running s \<Longrightarrow> StopThreadPool s (s\<lparr>running := False\<rparr>)"
| join: "\<not> running s \<Longrightarrow> \<forall>w \<in> set (workers s). w = Exited \<Longrightarrow> StopThreadPool s (s\<lparr>joined := True\<rparr>)"

text \<open>\<open>AddTask\<close> and the progress of the producers.\<close>

inductive AddTask :: "'a pool \<Rightarrow> 'a pool \<Rightarrow> bool" for s where
  add_call: "sq_step (pq s) (CallPut p x) q \<Longrightarrow> AddTask s (s\<lparr>pq := q\<rparr>)"
| add_move: "sq_step (pq s) Tau q \<Longrightarrow> AddTask s (s\<lparr>pq := q\<rparr>)"

inductive pool_reachable :: "nat \<Rightarrow> 'a pool \<Rightarrow> bool" for n where
  init: "pool_reachable n (ThreadPool_new n)"
| add: "pool_reachable n s \<Longrightarrow> AddTask s s' \<Longrightarrow> pool_reachable n s'"
| worker: "pool_reachable n s \<Longrightarrow> RunThread i s s' \<Longrightarrow> pool_reachable n s'"
| stop: "pool_reachable n s \<Longrightarrow> StopThreadPool s s' \<Longrightarrow> pool_reachable n s'"

inductive_cases RunThreadE: "RunThread i s s'"
inductive_cases AddTaskE: "AddTask s s'"
inductive_cases StopThreadPoolE: "StopThreadPool s s'"

section \<open>Running a schedule\<close>

text \<open>A schedule of the pool, resolved as the schedules of the queue are; a move that is not
  possible leaves the pool as it is.\<close>

datatype 'a pool_event = PoolAdd nat 'a | PoolProducer | PoolWorker nat | PoolStop

fun worker_play :: "nat \<Rightarrow> 'a pool \<Rightarrow> 'a pool" where
  "worker_play i s =
     (if length (workers s) \<le> i then s
      else case workers s ! i of
        LoopTop \<Rightarrow>
          if running s then s\<lparr>pq := sq_play (EvTake i) (pq s), workers := (workers s)[i := Taking]\<rparr>
          else s\<lparr>workers := (workers s)[i := Exited]\<rparr>
      | Taking \<Rightarrow>
          (case take_awake (pq s) of
             [] \<Rightarrow> s
           | c # _ \<Rightarrow>
               (case fst (Take (obj (pq s))) of
                  Sleeps \<Rightarrow> s\<lparr>pq := sq_play EvRunTake (pq s)\<rparr>
                | Leaves xs _ \<Rightarrow>
                    if c = i then s\<lparr>pq := sq_play EvRunTake (pq s), workers := (workers s)[i := Running xs]\<rparr>
                    else s))
      | Running [] \<Rightarrow> s\<lparr>workers := (workers s)[i := LoopTop]\<rparr>
      | Running (x # xs) \<Rightarrow>
          if running s then s\<lparr>workers := (workers s)[i := Running xs], executed := executed s @ [(i, x)]\<rparr>
          else s\<lparr>workers := (workers s)[i := Exited], abandoned := abandoned s @ map (Pair i) (x # xs)\<rparr>
      | Exited \<Rightarrow> s)"

fun pool_play :: "'a pool_event \<Rightarrow> 'a pool \<Rightarrow> 'a pool" where
  "pool_play (PoolAdd p x) s = s\<lparr>pq := sq_play (EvPut p x) (pq s)\<rparr>"
| "pool_play PoolProducer s =
     (if put_awake (pq s) = [] then s else s\<lparr>pq := sq_play EvRunPut (pq s)\<rparr>)"
| "pool_play (PoolWorker i) s = worker_play i s"
| "pool_play PoolStop s =
     (if stop_pc (pq s) < 3 then s\<lparr>pq := sq_play EvStop (pq s)\<rparr>
      else if running s \<and> stop_pc (pq s) = 3 then s\<lparr>running := False\<rparr> else s)"

lemma worker_play_reachable:
  assumes "pool_reachable n s"
  shows "pool_reachable n (worker_play i s)"
proof (cases "workers s ! i")
  case Taking
  show ?thesis
  proof (cases "i < length (workers s) \<and> take_awake (pq s) \<noteq> []")
    case True
    then obtain c cs where c: "take_awake (pq s) = c # cs" by (cases "take_awake (pq s)") auto
    from play_run_take [OF c] show ?thesis
      using True Taking c pool_reachable.add [OF assms AddTask.add_move]
        pool_reachable.worker [OF assms RunThread.take_returns [of i s]] assms
      by (cases "fst (Take (obj (pq s)))") (auto simp del: sq_play.simps)
  qed (use assms Taking in auto)
next
  case (Running xs)
  note moves = pool_reachable.worker [OF assms RunThread.list_done [of i s]]
    pool_reachable.worker [OF assms RunThread.run_task [of i s]]
    pool_reachable.worker [OF assms RunThread.drop_tasks [of i s]]
  show ?thesis using Running assms moves by (cases xs) auto
next
  case LoopTop
  note moves = pool_reachable.worker [OF assms RunThread.loop_take [of i s, OF _ _ _ sq_step.call_take]]
    pool_reachable.worker [OF assms RunThread.loop_exit [of i s]]
  show ?thesis using LoopTop assms moves by auto
next
  case Exited
  then show ?thesis using assms by simp
qed

lemma pool_play_reachable: "pool_reachable n s \<Longrightarrow> pool_reachable n (pool_play e s)"
proof (induction e s rule: pool_play.induct)
  case (1 p x s)
  then show ?case using pool_reachable.add AddTask.add_call sq_step.call_put by fastforce
next
  case (2 s)
  then show ?case using pool_reachable.add AddTask.add_move play_run_put by fastforce
next
  case (3 i s)
  then show ?case using worker_play_reachable by (simp del: worker_play.simps)
next
  case (4 s)
  then show ?case
    using play_stop [of "pq s"] pool_reachable.stop [OF 4 StopThreadPool.stop_queue]
      pool_reachable.stop [OF 4 StopThreadPool.stop_running] by (auto simp del: sq_play.simps)
qed

definition pool_replay :: "'a pool_event list \<Rightarrow> 'a pool \<Rightarrow> 'a pool" where
  "pool_replay es s = fold pool_play es s"

lemma pool_replay_reachable: "pool_reachable n (pool_replay es (ThreadPool_new n))"
proof -
  have "pool_reachable n s \<Longrightarrow> pool_reachable n (fold pool_play es s)" for s :: "'a pool"
    by (induction es arbitrary: s) (simp_all add: pool_play_reachable del: pool_play.simps)
  then show ?thesis unfolding pool_replay_def using pool_reachable.init by blast
qed

section \<open>What a queue step does to the history\<close>

lemma sq_step_delivered:
  "sq_step s l s' \<Longrightarrow>
     (case l of TakeReturns c xs \<Rightarrow>
        delivered s' = delivered s @ [(c, xs)] \<or> (xs = [] \<and> delivered s' = delivered s)
      | _ \<Rightarrow> delivered s' = delivered s)"
  by (induction rule: sq_step.induct) (auto simp: Take_cases)

definition takers :: "'a sq_system \<Rightarrow> nat multiset" where
  "takers s = mset (take_asleep s) + mset (take_awake s)"

lemma sq_step_takers:
  "sq_step s l s' \<Longrightarrow>
     (case l of CallTake c \<Rightarrow> takers s' = add_mset c (takers s)
      | TakeReturns c xs \<Rightarrow> takers s = add_mset c (takers s')
      | _ \<Rightarrow> takers s' = takers s)"
  by (induction rule: sq_step.induct)
    (auto simp: takers_def Take_cases dest: wakes_one_mset)

lemma pool_queue_reachable: "pool_reachable n s \<Longrightarrow> sq_reachable MAX_TASK_COUNT (pq s)"
  by (induction rule: pool_reachable.induct)
    (auto simp: ThreadPool_new_def elim!: RunThreadE AddTaskE StopThreadPoolE
      intro: sq_reachable.init sq_reachable.step)

section \<open>Invariants\<close>

definition given :: "nat \<Rightarrow> (nat \<times> 'a list) list \<Rightarrow> 'a list" where
  "given i ds = concat (map snd (filter (\<lambda>d. fst d = i) ds))"

definition of_worker :: "nat \<Rightarrow> (nat \<times> 'a) list \<Rightarrow> 'a list" where
  "of_worker i es = map snd (filter (\<lambda>e. fst e = i) es)"

lemma given_snoc [simp]:
  "given i [] = []"
  "given i (ds @ [(c, xs)]) = (if c = i then given i ds @ xs else given i ds)"
  by (simp_all add: given_def)

lemma of_worker_append [simp]:
  "of_worker i [] = []"
  "of_worker i (es @ es') = of_worker i es @ of_worker i es'"
  "of_worker i ((j, x) # es) = (if j = i then x # of_worker i es else of_worker i es)"
  "of_worker i (map (Pair j) xs) = (if i = j then xs else [])"
  by (auto simp: of_worker_def filter_map o_def)

definition work_inv :: "nat \<Rightarrow> 'a pool \<Rightarrow> bool" where
  "work_inv n s \<longleftrightarrow> length (workers s) = n \<and>
     (\<forall>i < n. given i (delivered (pq s)) =
        of_worker i (executed s) @ pending (workers s ! i) @ of_worker i (abandoned s) \<and>
        (of_worker i (abandoned s) \<noteq> [] \<longrightarrow> workers s ! i = Exited)) \<and>
     (running s \<longrightarrow> abandoned s = [] \<and> Exited \<notin> set (workers s))"

definition taker_inv :: "'a pool \<Rightarrow> bool" where
  "taker_inv s \<longleftrightarrow> (\<forall>i < length (workers s). workers s ! i = Taking \<longrightarrow> i \<in># takers (pq s)) \<and>
     (\<not> running s \<longrightarrow> stop_pc (pq s) = 3)"

lemma work_inv_reachable: "pool_reachable n s \<Longrightarrow> work_inv n s"
proof (induction rule: pool_reachable.induct)
  case init
  then show ?case by (auto simp: work_inv_def ThreadPool_new_def sq_init_def)
next
  case (add s s')
  from add(2,3) show ?case
    by (auto simp: work_inv_def elim!: AddTaskE dest!: sq_step_delivered)
next
  case (stop s s')
  from stop(2,3) show ?case
    by (auto simp: work_inv_def elim!: StopThreadPoolE dest!: sq_step_delivered)
next
  case (worker s i s')
  note inv = worker(3) [unfolded work_inv_def]
  from worker(2) show ?case
  proof (cases rule: RunThread.cases)
    case (loop_take q)
    with inv show ?thesis
      by (auto simp: work_inv_def nth_list_update dest!: sq_step_delivered set_update_subset_insert [THEN subsetD])
  next
    case loop_exit
    with inv show ?thesis by (auto simp: work_inv_def nth_list_update)
  next
    case (take_returns xs q)
    with inv sq_step_delivered [OF take_returns(4)] show ?thesis
      by (auto simp: work_inv_def nth_list_update dest!: set_update_subset_insert [THEN subsetD])
  next
    case (run_task x xs)
    with inv show ?thesis
      by (auto simp: work_inv_def nth_list_update dest!: set_update_subset_insert [THEN subsetD])
  next
    case (drop_tasks x xs)
    with inv show ?thesis by (auto simp: work_inv_def nth_list_update)
  next
    case list_done
    with inv show ?thesis
      by (auto simp: work_inv_def nth_list_update dest!: set_update_subset_insert [THEN subsetD])
  qed
qed

lemma sq_step_stop_pc:
  "sq_step s l s' \<Longrightarrow>
     (case l of StopStep k \<Rightarrow> stop_pc s = k \<and> k < 3 \<and> stop_pc s' = Suc k | _ \<Rightarrow> stop_pc s' = stop_pc s)"
  by (induction rule: sq_step.induct) auto

lemma taker_inv_reachable: "pool_reachable n s \<Longrightarrow> taker_inv s"
proof (induction rule: pool_reachable.induct)
  case init
  then show ?case by (auto simp: taker_inv_def ThreadPool_new_def)
next
  case (add s s')
  from add(2) show ?case
  proof (cases rule: AddTask.cases)
    case (add_call p x q)
    with add(3) sq_step_takers [OF add_call(2)] sq_step_stop_pc [OF add_call(2)]
    show ?thesis by (auto simp: taker_inv_def)
  next
    case (add_move q)
    with add(3) sq_step_takers [OF add_move(2)] sq_step_stop_pc [OF add_move(2)]
    show ?thesis by (auto simp: taker_inv_def)
  qed
next
  case (stop s s')
  from stop(2) show ?case
  proof (cases rule: StopThreadPool.cases)
    case (stop_queue k q)
    with stop(3) sq_step_takers [OF stop_queue(2)] sq_step_stop_pc [OF stop_queue(2)]
    show ?thesis by (auto simp: taker_inv_def)
  qed (use stop(3) in \<open>auto simp: taker_inv_def\<close>)
next
  case (worker s i s')
  note inv = worker(3) [unfolded taker_inv_def]
  from worker(2) show ?case
  proof (cases rule: RunThread.cases)
    case (loop_take q)
    with inv sq_step_takers [OF loop_take(5)] sq_step_stop_pc [OF loop_take(5)]
    show ?thesis by (auto simp: taker_inv_def nth_list_update)
  next
    case (take_returns xs q)
    with inv sq_step_takers [OF take_returns(4)] sq_step_stop_pc [OF take_returns(4)]
    show ?thesis by (auto simp: taker_inv_def nth_list_update)
  qed (use inv in \<open>auto simp: taker_inv_def nth_list_update\<close>)
qed

section \<open>Properties\<close>

text \<open>
  C15. The pool hands out each task once and in order, and each worker runs its own in order: at every
  moment the tasks handed to a worker are the ones it ran, followed by the ones it has left, followed
  by the ones it dropped on the way out; nothing is dropped while the pool runs; and the lists handed
  out, one after the other, with what is still queued, are all the tasks accepted, in the order of
  acceptance. (Of two tasks handed to different workers either may start first.)
\<close>

theorem thread_pool_runs_once_in_order:
  fixes s :: "'a pool"
  assumes "pool_reachable n s"
  shows "accepted (pq s) = concat (map snd (delivered (pq s))) @ queue (obj (pq s)) \<and>
    (\<forall>i < n. given i (delivered (pq s)) =
       of_worker i (executed s) @ pending (workers s ! i) @ of_worker i (abandoned s)) \<and>
    (running s \<longrightarrow> abandoned s = [])"
  using work_inv_reachable [OF assms] sync_queue_fifo_inv [OF pool_queue_reachable [OF assms]]
  by (auto simp: work_inv_def)

theorem thread_pool_runs_once_in_order_witness:
  "executed (pool_replay [PoolAdd 9 7, PoolAdd 8 5, PoolProducer, PoolProducer, PoolWorker 0, PoolWorker 0, PoolWorker 0]
      (ThreadPool_new 1 :: nat pool)) = [(0, 7)] \<and>
   given 0 (delivered (pq (pool_replay [PoolAdd 9 7, PoolAdd 8 5, PoolProducer, PoolProducer, PoolWorker 0, PoolWorker 0, PoolWorker 0]
      (ThreadPool_new 1 :: nat pool)))) = [7, 5]"
proof -
  let ?s = "pool_replay [PoolAdd 9 7, PoolAdd 8 5, PoolProducer, PoolProducer, PoolWorker 0, PoolWorker 0, PoolWorker 0]
      (ThreadPool_new 1 :: nat pool)"
  have s: "executed ?s = [(0, 7)]" "abandoned ?s = []" "workers ?s = [Running [5]]"
    by (simp_all add: pool_replay_def ThreadPool_new_def MAX_TASK_COUNT_def sq_run_defs)
  have "0 < (1::nat)" by simp
  with s thread_pool_runs_once_in_order [OF pool_replay_reachable [of 1], of
      "[PoolAdd 9 7, PoolAdd 8 5, PoolProducer, PoolProducer, PoolWorker 0, PoolWorker 0, PoolWorker 0] :: nat pool_event list"]
  have "given 0 (delivered (pq ?s)) = of_worker 0 (executed ?s) @ pending (workers ?s ! 0) @ of_worker 0 (abandoned ?s)"
    by blast
  with s show ?thesis by simp
qed

fun moves_left :: "'a worker \<Rightarrow> nat" where
  "moves_left LoopTop = 1"
| "moves_left (Running []) = 2"
| "moves_left (Running (x # xs)) = 1"
| "moves_left Taking = 3"
| "moves_left Exited = 0"

definition rank :: "'a pool \<Rightarrow> nat" where
  "rank s = sum_list (map moves_left (workers s))"

lemma rank_update:
  "i < length ws \<Longrightarrow> moves_left w < moves_left (ws ! i) \<Longrightarrow>
     sum_list (map moves_left (ws[i := w])) < sum_list (map moves_left ws)"
proof (induction ws arbitrary: i)
  case Nil
  then show ?case by simp
next
  case (Cons a ws)
  then show ?case by (cases i) auto
qed

lemma stopped_take:
  assumes "c \<in> set (take_awake q)" and "need_stop (obj q)"
  shows "\<exists>q'. sq_step q (TakeReturns c []) q'"
proof -
  from assms(1) obtain cs cs' where "take_awake q = cs @ c # cs'" by (auto simp: in_set_conv_decomp)
  from sq_step.take_stopped [OF this, of "[]"] assms(2) show ?thesis by (auto simp: Take_cases)
qed

text \<open>
  C31. Stopping the pool terminates: once the flag is cleared every worker that has not returned
  can move, and every move brings the workers closer to the end: at most three moves each are left,
  whatever the tasks still pending are. So the joins return.
\<close>

theorem thread_pool_stop_terminates:
  fixes s :: "'a pool"
  assumes "pool_reachable n s" and "\<not> running s"
  shows "(\<forall>i < length (workers s). workers s ! i \<noteq> Exited \<longrightarrow> (\<exists>s'. RunThread i s s')) \<and>
    (\<forall>i s'. RunThread i s s' \<longrightarrow> rank s' < rank s \<and> \<not> running s') \<and>
    rank s \<le> 3 * n \<and>
    (rank s = 0 \<longrightarrow> StopThreadPool s (s\<lparr>joined := True\<rparr>))"
proof (intro conjI allI impI)
  have stopped: "take_asleep (pq s) = []" "need_stop (obj (pq s))"
    using reachable_inv [OF pool_queue_reachable [OF assms(1)]] taker_inv_reachable [OF assms(1)] assms(2)
    by (auto simp: stop_inv_def taker_inv_def)
  show "\<exists>s'. RunThread i s s'" if i: "i < length (workers s)" "workers s ! i \<noteq> Exited" for i
  proof (cases "workers s ! i")
    case LoopTop
    with i assms(2) show ?thesis by (blast intro: RunThread.loop_exit)
  next
    case Taking
    with i taker_inv_reachable [OF assms(1)] stopped have "i \<in> set (take_awake (pq s))"
      by (auto simp: taker_inv_def takers_def)
    from stopped_take [OF this stopped(2)] i Taking show ?thesis by (blast intro: RunThread.take_returns)
  next
    case (Running xs)
    with i assms(2) show ?thesis
      by (cases xs) (blast intro: RunThread.list_done RunThread.drop_tasks)+
  next
    case Exited
    with i show ?thesis by simp
  qed
  show "rank s' < rank s" "\<not> running s'" if "RunThread i s s'" for i s'
    using that assms(2) stopped
    by (cases rule: RunThread.cases; auto simp: rank_def intro!: rank_update elim: sq_step.cases simp: Take_cases)+
  have "moves_left w \<le> 3" for w :: "'a worker" by (induction w rule: moves_left.induct) auto
  then have "sum_list (map moves_left (workers s)) \<le> sum_list (map (\<lambda>_. 3) (workers s))"
    by (intro sum_list_mono) auto
  moreover have "length (workers s) = n" using work_inv_reachable [OF assms(1)] by (simp add: work_inv_def)
  ultimately show "rank s \<le> 3 * n" by (simp add: rank_def sum_list_triv)
  show "StopThreadPool s (s\<lparr>joined := True\<rparr>)" if "rank s = 0"
  proof (rule StopThreadPool.join [OF assms(2)], rule ballI)
    fix w
    assume "w \<in> set (workers s)"
    with that have "moves_left w = 0" by (auto simp: rank_def)
    then show "w = Exited" by (cases w rule: moves_left.cases) auto
  qed
qed

theorem thread_pool_stop_terminates_witness:
  "rank (pool_replay [PoolWorker 0, PoolWorker 0, PoolStop, PoolStop, PoolStop, PoolStop] (ThreadPool_new 1 :: nat pool)) \<le> 3 \<and>
   (\<exists>s'. RunThread 0 (pool_replay [PoolWorker 0, PoolWorker 0, PoolStop, PoolStop, PoolStop, PoolStop]
      (ThreadPool_new 1 :: nat pool)) s')"
proof -
  let ?s = "pool_replay [PoolWorker 0, PoolWorker 0, PoolStop, PoolStop, PoolStop, PoolStop] (ThreadPool_new 1 :: nat pool)"
  have s: "\<not> running ?s" "workers ?s = [Taking]"
    by (simp_all add: pool_replay_def ThreadPool_new_def MAX_TASK_COUNT_def sq_run_defs)
  from thread_pool_stop_terminates [OF pool_replay_reachable s(1)] s(2) show ?thesis by simp
qed

end
