(* ===== verification/Recorder.thy ===== *)
theory Recorder
  imports BagFormat RecordOptions HandlerMaps ThreadPool
begin

text \<open>
  The recorder, \<open>src/record/recorder.h\<close> and \<open>recorder.cpp\<close>: its state and its operations. The
  record holds the members of the class and, in its last fields, what the operations meet outside:
  the disk, the answers of the successive calls of \<open>Timestamp::Now()\<close> and \<open>statvfs\<close>, and
  \<open>localtime\<close>. An operation maps the state to a result and the new state, as in theory Bag; the
  loop of \<open>CheckDuration\<close> may run forever, so it and what calls it return an option. The
  subscribers of the message bus are not part of the program: a subscriber is the list of what was
  subscribed with it.
\<close>

section \<open>State\<close>

record OutgoingMessage =
  om_time :: timestamp
  om_topic :: string
  om_msg :: string

record subscriber =
  sub_ip :: string
  sub_port :: int
  sub_buffer :: "32 word"
  subscriptions :: "(string \<times> handler) list"

record recorder =
  options :: RecorderOptions
  rec_bag :: bag
  target_filename :: string
  write_filename :: string
  current_files :: "string list"
  currently_recording :: "string set"
  num_subscribers :: int
  exit_code :: int
  split_count :: "64 word"
  last_buffer_warn :: timestamp
  start_time :: timestamp
  writing_enabled :: bool
  check_disk_next :: timestamp
  warn_next :: timestamp
  subscribers :: "subscriber list"
  rec_running :: bool
  outmsg_queue :: "OutgoingMessage sync_queue"
  record_thread :: bool
  rec_disk :: disk
  clock :: "nat \<Rightarrow> timestamp"
  clock_calls :: nat
  statvfs :: "nat \<Rightarrow> (64 word \<times> 64 word) option"
  statvfs_calls :: nat
  localtime :: "int \<Rightarrow> tm"

type_synonym 'a recording = "recorder \<Rightarrow> 'a res \<times> recorder"

definition Recorder_new ::
    "RecorderOptions \<Rightarrow> disk \<Rightarrow> (nat \<Rightarrow> timestamp) \<Rightarrow> (nat \<Rightarrow> (64 word \<times> 64 word) option) \<Rightarrow> (int \<Rightarrow> tm) \<Rightarrow> recorder" where
  "Recorder_new ro d now stat lt =
     \<lparr>options = ro, rec_bag = Bag_new, target_filename = [], write_filename = [], current_files = [],
      currently_recording = {}, num_subscribers = 0, exit_code = 0, split_count = 0,
      last_buffer_warn = timestamp_default, start_time = timestamp_default, writing_enabled = True,
      check_disk_next = timestamp_default, warn_next = timestamp_default, subscribers = [],
      rec_running = False, outmsg_queue = SyncQueue_new MAX_TASK_COUNT, record_thread = False,
      rec_disk = d, clock = now, clock_calls = 0, statvfs = stat, statvfs_calls = 0, localtime = lt\<rparr>"

text \<open>\<open>Timestamp::Now()\<close>.\<close>

definition tick :: "recorder \<Rightarrow> timestamp \<times> recorder" where
  "tick s = (clock s (clock_calls s), s\<lparr>clock_calls := clock_calls s + 1\<rparr>)"

text \<open>An operation of the bag, and \<open>catch (const MsgbagException &)\<close>.\<close>

definition on_bag :: "(bag_disk \<Rightarrow> 'a res \<times> bag_disk) \<Rightarrow> 'a recording" where
  "on_bag f s = (let (r, (b, d)) = f (rec_bag s, rec_disk s) in (r, s\<lparr>rec_bag := b, rec_disk := d\<rparr>))"

definition catch_msgbag :: "unit res \<times> recorder \<Rightarrow> (recorder \<Rightarrow> unit res \<times> recorder) \<Rightarrow> unit res \<times> recorder" where
  "catch_msgbag m h = (case m of (Inl (MsgbagException _), s) \<Rightarrow> h s | _ \<Rightarrow> m)"

definition stop_running :: "unit recording" where
  "stop_running s = (Inr (), s\<lparr>rec_running := False\<rparr>)"

section \<open>File names\<close>

fun rfind :: "string \<Rightarrow> string \<Rightarrow> nat option" where
  "rfind p [] = (if p = [] then Some 0 else None)"
| "rfind p (c # cs) =
     (case rfind p cs of
        Some i \<Rightarrow> Some (Suc i)
      | None \<Rightarrow> if take (length p) (c # cs) = p then Some 0 else None)"

definition strip_bag :: "string \<Rightarrow> string" where
  "strip_bag prefix =
     (case rfind ''.bag'' prefix of
        Some ind \<Rightarrow> if ind = length prefix - 4 then take ind prefix else prefix
      | None \<Rightarrow> prefix)"

definition filename_parts :: "recorder \<Rightarrow> string list \<times> recorder" where
  "filename_parts s =
     (let prefix = strip_bag (opt_prefix (options s));
          parts = (if 0 < length prefix then [prefix] else []);
          (parts, s) = (if append_date (options s)
             then let (now, s) = tick s in (parts @ [ToFormattedString (localtime s) True now], s)
             else (parts, s))
      in (if opt_split (options s) then parts @ [show_nat (unat (split_count s))] else parts, s))"

definition join_parts :: "string \<Rightarrow> string list \<Rightarrow> string" where
  "join_parts part rest = foldl (\<lambda>t p. (t @ ''_'') @ p) part rest"

text \<open>Without any part \<open>parts[0]\<close> reads past the end of the vector.\<close>

definition UpdateFilename :: "unit recording" where
  "UpdateFilename s =
     (let (parts, s) = filename_parts s
      in case parts of
           [] \<Rightarrow> (Inl UndefinedBehaviour, s\<lparr>rec_running := False\<rparr>)
         | part # rest \<Rightarrow>
             let target = join_parts part rest @ ''.bag''
             in (Inr (), s\<lparr>target_filename := target, write_filename := target @ ''.active''\<rparr>))"

section \<open>Opening, closing, splitting\<close>

definition Recorder_StartWriting :: "unit recording" where
  "Recorder_StartWriting s =
     (let b = SetChunkThreshold (sint (chunk_size (options s)))
            (SetCompression (opt_compression (options s)) (rec_bag s))
      in bind_bag (UpdateFilename (s\<lparr>rec_bag := b\<rparr>)) (\<lambda>_ s.
         let (now, s) = tick s
         in catch_msgbag (on_bag (Bag_Open now (write_filename s) BagMode_Write) s) stop_running))"

definition Recorder_StopWriting :: "unit recording" where
  "Recorder_StopWriting s =
     (let (now, s) = tick s
      in bind_bag (on_bag (Bag_Close now) s) (\<lambda>_ s.
         (Inr (), s\<lparr>rec_disk := fs_rename (write_filename s) (target_filename s) (rec_disk s)\<rparr>)))"

definition CheckNumSplits :: "recorder \<Rightarrow> recorder" where
  "CheckNumSplits s =
     (if 0 < max_splits (options s) then
        (let s = s\<lparr>current_files := current_files s @ [target_filename s]\<rparr>
         in if unat (max_splits (options s)) < length (current_files s)
            then (let (err, d) = fs_unlink (hd (current_files s)) (rec_disk s)
                  in s\<lparr>current_files := tl (current_files s), rec_disk := d\<rparr>)
            else s)
      else s)"

text \<open>\<open>int GetSize()\<close> is converted to \<open>uint64_t\<close> for the comparison.\<close>

definition CheckSize :: "bool recording" where
  "CheckSize s =
     (if 0 < opt_max_size (options s) then
        (if opt_max_size (options s) < word_of_int (GetSize (rec_bag s)) then
           (if opt_split (options s) then
              bind_bag (Recorder_StopWriting s) (\<lambda>_ s.
              bind_bag (Recorder_StartWriting (CheckNumSplits (s\<lparr>split_count := split_count s + 1\<rparr>)))
                (\<lambda>_ s. (Inr False, s)))
            else (Inr True, s\<lparr>rec_running := False\<rparr>))
         else (Inr False, s))
      else (Inr False, s))"

section \<open>The duration limit\<close>

definition duration_step :: "unit recording" where
  "duration_step s =
     bind_bag (Recorder_StopWriting s) (\<lambda>_ s.
       let s = CheckNumSplits (s\<lparr>split_count := split_count s + 1\<rparr>);
           s = s\<lparr>start_time := AddTime (start_time s) (max_duration (options s))\<rparr>
       in Recorder_StartWriting s)"

text \<open>\<open>while (AddTime(start_time_, options_.max_duration.count()) < time)\<close>; None: it runs forever.\<close>

partial_function (option) duration_loop :: "timestamp \<Rightarrow> recorder \<Rightarrow> (unit res \<times> recorder) option" where
  "duration_loop time s =
     (if ts_less (AddTime (start_time s) (max_duration (options s))) time
      then (case duration_step s of
              (r, s) \<Rightarrow> (case r of Inl e \<Rightarrow> Some (Inl e, s) | Inr _ \<Rightarrow> duration_loop time s))
      else Some (Inr (), s))"

definition CheckDuration :: "timestamp \<Rightarrow> recorder \<Rightarrow> (bool res \<times> recorder) option" where
  "CheckDuration time s =
     (if 0 < max_duration (options s) then
        (if max_duration (options s) < TimeDifference time (start_time s) then
           (if opt_split (options s)
            then map_option (\<lambda>m. bind_bag m (\<lambda>_ s. (Inr False, s))) (duration_loop time s)
            else Some (Inr True, s\<lparr>rec_running := False\<rparr>))
         else Some (Inr False, s))
      else Some (Inr False, s))"

section \<open>The disk\<close>

text \<open>\<open>f_bsize * f_bavail\<close> and \<open>5 * min_space\<close> are computed modulo \<open>2^64\<close>.\<close>

definition CheckDisk :: "recorder \<Rightarrow> bool \<times> recorder" where
  "CheckDisk s =
     (let st = statvfs s (statvfs_calls s); s = s\<lparr>statvfs_calls := statvfs_calls s + 1\<rparr>
      in case st of
           None \<Rightarrow> (True, s)
         | Some (f_bsize, f_bavail) \<Rightarrow>
             (let free_space = f_bsize * f_bavail
              in if free_space < min_space (options s) then (False, s\<lparr>writing_enabled := False\<rparr>)
                 else if free_space < 5 * min_space (options s) then (True, s)
                 else (True, s\<lparr>writing_enabled := True\<rparr>)))"

definition ScheduledCheckDisk :: "recorder \<Rightarrow> bool \<times> recorder" where
  "ScheduledCheckDisk s =
     (let (now, s) = tick s
      in if ts_less now (check_disk_next s) then (True, s)
         else CheckDisk (s\<lparr>check_disk_next := AddTime (check_disk_next s) 2\<rparr>))"

definition CheckLogging :: "recorder \<Rightarrow> bool \<times> recorder" where
  "CheckLogging s =
     (if writing_enabled s then (True, s)
      else (let (now, s) = tick s
            in (False, if \<not> ts_less now (warn_next s) then s\<lparr>warn_next := AddTime now 5\<rparr> else s)))"

section \<open>Recording one message\<close>

definition write_message :: "OutgoingMessage \<Rightarrow> bag \<Rightarrow> unit bag_result" where
  "write_message m b =
     (let msg_size = word_of_nat (length (om_msg m)) :: 64 word;
          time_stamp = NanoSecondsSinceEpoch (om_time m)
      in bind_bag (Bag_Write (le_word 8 msg_size) b) (\<lambda>_ b.
         bind_bag (Bag_Write (le_word 8 time_stamp) b) (\<lambda>_ b.
         bind_bag (Bag_Write (om_topic m) b) (\<lambda>_ b.
         bind_bag (Bag_Write [CHR 0x0A] b) (\<lambda>_ b.
         bind_bag (Bag_Write (om_msg m) b) (\<lambda>_ b.
           (Inr (), b\<lparr>msg_count := msg_count b + 1\<rparr>)))))))"

definition set_running :: "bool \<Rightarrow> recorder \<Rightarrow> recorder" where
  "set_running hit s = (if hit then s\<lparr>rec_running := False\<rparr> else s)"

definition write_if_logging :: "OutgoingMessage \<Rightarrow> unit recording" where
  "write_if_logging m s =
     (let (disk_ok, s) = ScheduledCheckDisk s;
          (logging, s) = (if disk_ok then CheckLogging s else (False, s))
      in if logging
         then catch_msgbag (on_bag (\<lambda>(b, d). with_disk (write_message m b) d) s) stop_running
         else (Inr (), s))"

definition DoWrite :: "OutgoingMessage \<Rightarrow> recorder \<Rightarrow> (unit res \<times> recorder) option" where
  "DoWrite m s =
     (case CheckSize s of
        (Inl e, s) \<Rightarrow> Some (Inl e, s)
      | (Inr hit, s) \<Rightarrow>
          map_option (\<lambda>r. bind_bag r (\<lambda>hit s. write_if_logging m (set_running hit s)))
            (CheckDuration (om_time m) (set_running hit s)))"

section \<open>The recording thread\<close>

text \<open>
  What the thread meets, test by test of \<open>running_\<close>: the list that a call of \<open>Take\<close> returned,
  each message of it, and before each test whether another thread (\<open>Stop\<close>) has meanwhile stored
  false. At the end of the list the thread is waiting in \<open>Take\<close>, or has returned.
\<close>

datatype thread_end = ThreadReturned | ThreadWaiting

fun record_for :: "(bool \<times> OutgoingMessage) list \<Rightarrow> recorder \<Rightarrow> (thread_end res \<times> recorder) option" where
  "record_for [] s = Some (Inr ThreadWaiting, s)"
| "record_for ((stopped, m) # ms) s =
     (let s = set_running stopped s
      in if \<not> rec_running s then Some (Inr ThreadReturned, s)
         else case DoWrite m s of
                None \<Rightarrow> None
              | Some (Inl e, s) \<Rightarrow> Some (Inl e, s)
              | Some (Inr _, s) \<Rightarrow> record_for ms s)"

fun record_while ::
    "(bool \<times> (bool \<times> OutgoingMessage) list) list \<Rightarrow> recorder \<Rightarrow> (thread_end res \<times> recorder) option" where
  "record_while [] s = Some (Inr (if rec_running s then ThreadWaiting else ThreadReturned), s)"
| "record_while ((stopped, taken) # rest) s =
     (let s = set_running stopped s
      in if \<not> rec_running s then Some (Inr ThreadReturned, s)
         else case record_for taken s of
                Some (Inr ThreadWaiting, s) \<Rightarrow> record_while rest s
              | r \<Rightarrow> r)"

definition DoRecordSingleThread ::
    "(bool \<times> (bool \<times> OutgoingMessage) list) list \<Rightarrow> recorder \<Rightarrow> (thread_end res \<times> recorder) option" where
  "DoRecordSingleThread taken s =
     (case Recorder_StartWriting s of
        (Inl e, s) \<Rightarrow> Some (Inl e, s)
      | (Inr _, s) \<Rightarrow>
          let (now, s) = tick s;
              (disk_ok, s) = CheckDisk (s\<lparr>warn_next := now\<rparr>);
              (now, s) = tick s
          in record_while taken (s\<lparr>check_disk_next := AddTime now 2\<rparr>))"

section \<open>Subscribing\<close>

definition subscribe :: "string \<Rightarrow> handler \<Rightarrow> subscriber \<Rightarrow> subscriber" where
  "subscribe t h sub = sub\<lparr>subscriptions := subscriptions sub @ [(t, h)]\<rparr>"

fun subscribe_topics :: "handler_map \<Rightarrow> string list \<Rightarrow> nat \<Rightarrow> recorder \<Rightarrow> unit res \<times> recorder" where
  "subscribe_topics hm [] index s = (Inr (), s)"
| "subscribe_topics hm (t # ts) index s =
     (case map_of hm t of
        None \<Rightarrow> subscribe_topics hm ts index s
      | Some h \<Rightarrow>
          let i = (if length (subscribers s) \<le> index then 0 else index)
          in if length (subscribers s) \<le> i then (Inl UndefinedBehaviour, s)
             else subscribe_topics hm ts (Suc i)
               (s\<lparr>subscribers := (subscribers s)[i := subscribe t h (subscribers s ! i)],
                  currently_recording := insert t (currently_recording s)\<rparr>))"

definition DoSubscribe :: "handler_map \<Rightarrow> unit recording" where
  "DoSubscribe hm s = subscribe_topics hm (topics (options s)) 0 s"

definition InitRecordedTopics :: "handler_map \<Rightarrow> recorder \<Rightarrow> recorder" where
  "InitRecordedTopics hm s = s\<lparr>options := (options s)\<lparr>topics := topics (options s) @ map fst hm\<rparr>\<rparr>"

text \<open>\<open>num_subscribers_\<close> is an \<open>int\<close>; fewer than four topics fit in it.\<close>

definition InitSubscribers :: "string \<Rightarrow> int \<Rightarrow> 32 word \<Rightarrow> recorder \<Rightarrow> recorder" where
  "InitSubscribers ip port buffer s =
     (let n = (if 4 \<le> length (topics (options s)) then 4 else int (length (topics (options s))))
      in s\<lparr>num_subscribers := n,
           subscribers := subscribers s @ replicate (nat n)
             \<lparr>sub_ip = ip, sub_port = port, sub_buffer = buffer, subscriptions = []\<rparr>\<rparr>)"

section \<open>The main thread\<close>

text \<open>\<open>EventLoop\<close>: the argument tells what \<open>running_\<close> is at each test; the result counts the calls of
  \<open>DoCheckMaster\<close>, which only logs. The duration grows by 0.01 in \<open>double\<close>.\<close>

fun EventLoop :: "double \<Rightarrow> bool list \<Rightarrow> double \<Rightarrow> nat \<Rightarrow> nat" where
  "EventLoop duration [] elapsed checks = checks"
| "EventLoop duration (run # runs) elapsed checks =
     (if \<not> run then checks
      else if duration \<le> elapsed then EventLoop duration runs 0 (Suc checks)
      else EventLoop duration runs (to_double (elapsed + to_double (1 / 100))) checks)"

text \<open>\<open>Run\<close> up to the loop that sleeps while the recorder runs; the thread it starts is
  \<open>DoRecordSingleThread\<close>.\<close>

definition Run :: "string \<Rightarrow> int \<Rightarrow> 32 word \<Rightarrow> recorder \<Rightarrow> unit res \<times> recorder" where
  "Run ip port buffer s =
     (let hm = InitRecorderHandlerMap [];
          s = (if record_all (options s) then InitRecordedTopics hm s else s)
      in if trigger (options s) then (Inl (ProgramExit 0), s)
         else if topics (options s) = [] \<and> 0 < opt_limit (options s) then (Inl (ProgramExit 1), s)
         else if topics (options s) = [] \<and> \<not> record_all (options s) \<and> opt_node (options s) = []
           then (Inl (ProgramExit 1), s)
         else
           (let s = InitSubscribers ip port buffer s;
                (now, s) = tick s;
                s = s\<lparr>last_buffer_warn := now, rec_running := True\<rparr>;
                (now, s) = tick s;
                s = s\<lparr>start_time := now, record_thread := True\<rparr>
            in DoSubscribe hm s))"

text \<open>\<open>Stop\<close>: the queue is stopped and the thread joined, which needs the thread to exist; what the
  thread does until then is part of \<open>DoRecordSingleThread\<close>, so only the last step is left.\<close>

definition Recorder_Stop :: "unit recording" where
  "Recorder_Stop s =
     (let s = s\<lparr>rec_running := False, outmsg_queue := sq_set_stop (outmsg_queue s)\<rparr>
      in if \<not> record_thread s then (Inl UndefinedBehaviour, s) else Recorder_StopWriting s)"

text \<open>\<open>MsgHandler\<close>, called by the message bus: the message is stamped and put in the queue.\<close>

definition Recorder_MsgHandler :: "timestamp \<Rightarrow> string \<Rightarrow> string \<Rightarrow> recorder \<Rightarrow> unit section_result \<times> recorder" where
  "Recorder_MsgHandler now t str_msg s =
     (let om = \<lparr>om_time = now, om_topic = t, om_msg = str_msg\<rparr>
      in if rec_running s
         then (let (r, q) = Put om (outmsg_queue s) in (r, s\<lparr>outmsg_queue := q\<rparr>))
         else (Leaves () False, s))"

end
