(* ===== verification/Recording.thy ===== *)
theory Recording
  imports Recorder
begin

text \<open>
  What a recording leaves on the disk. The first part shows that the operations of theory Recorder
  can only fail where the code can, and how the names of the files are built. The second part is the
  invariant of a recording: the files that are closed, each with a run of the messages, and the
  file that is open, with the messages since.
\<close>

section \<open>Frames\<close>

lemma tick_eq: "tick s = (clock s (clock_calls s), s\<lparr>clock_calls := clock_calls s + 1\<rparr>)"
  by (simp add: tick_def)

lemma stop_running_eq [simp]: "stop_running s = (Inr (), s\<lparr>rec_running := False\<rparr>)"
  by (simp add: stop_running_def)

lemma catch_msgbag_simps [simp]:
  "catch_msgbag (Inr u, s) h = (Inr u, s)"
  "catch_msgbag (Inl (MsgbagException e), s) h = h s"
  by (simp_all add: catch_msgbag_def)

text \<open>Opening for writing fails with the program's exception only, and closing does not fail.\<close>

lemma Bag_Write_outcome: "fst (Bag_Write x b) = Inr () \<or> (\<exists>e. fst (Bag_Write x b) = Inl (MsgbagException e))"
  by (simp add: Bag_Write_def UpdateFileInfo_def Let_def)

lemma UpdateFileInfo_outcome: "fst (UpdateFileInfo b) = Inr () \<or> (\<exists>e. fst (UpdateFileInfo b) = Inl (MsgbagException e))"
  by (simp add: UpdateFileInfo_def Let_def)

lemma StartWriting_outcome:
  "fst (StartWriting now b) = Inr () \<or> (\<exists>e. fst (StartWriting now b) = Inl (MsgbagException e))"
proof (cases "WriteVersion b")
  case (Pair r b')
  have "r = Inr () \<or> (\<exists>e. r = Inl (MsgbagException e))"
    using Bag_Write_outcome [of "''#MSGBAG V'' @ VERSION @ [CHR 0x0A]" "b\<lparr>version := truncate_rat (stof_VERSION * 100 / 100)\<rparr>"] Pair
    by (simp add: WriteVersion_def Let_def)
  with Pair show ?thesis by (auto simp: StartWriting_def WriteHeaderRecord_eq Let_def)
qed

lemma has_mode_Write [simp]: "has_mode BagMode_Write BagMode_Write" "\<not> has_mode BagMode_Write BagMode_Append"
  by (simp_all add: has_mode_def BagMode_Write_def BagMode_Append_def)

definition bag_outcome :: "unit res \<Rightarrow> bool" where
  "bag_outcome r \<longleftrightarrow> r = Inr () \<or> (\<exists>e. r = Inl (MsgbagException e))"

lemma bag_outcome_bind:
  assumes "bag_outcome (fst m)" and "\<And>u s. bag_outcome (fst (f u s))"
  shows "bag_outcome (fst (bind_bag m f))"
  using assms by (cases m; cases "fst m") (auto simp: bag_outcome_def)

lemma bag_outcome_throw [simp]: "bag_outcome (fst (throw_if c (MsgbagException e) s))"
  by (cases c) (auto simp: bag_outcome_def)

lemma bag_outcome_with_disk [simp]: "fst (with_disk m d) = fst m"
  by (simp add: with_disk_def)

lemma Bag_Open_outcome: "bag_outcome (fst (Bag_Open now name BagMode_Write (b, d)))"
proof -
  have w: "bag_outcome (fst (OpenWrite now name bd))" for bd
  proof (cases "open_stream name OpenOut bd")
    case (Pair b d)
    have "bag_outcome (fst (with_disk (StartWriting now b) d))" for b d
      using StartWriting_outcome by (auto simp: bag_outcome_def)
    with Pair show ?thesis by (auto simp: OpenWrite_def intro!: bag_outcome_bind)
  qed
  have u: "bag_outcome (fst (with_disk (UpdateFileInfo b) d))" for b d
    using UpdateFileInfo_outcome by (auto simp: bag_outcome_def)
  show ?thesis
    unfolding Bag_Open_def Let_def prod.case has_mode_Write if_False if_True
    by (intro bag_outcome_bind bag_outcome_throw) (auto intro!: w u bag_outcome_bind split: prod.split)
qed

lemma Bag_Close_ok: "fst (Bag_Close now bd) = Inr ()"
  by (cases bd) (simp add: Bag_Close_def CloseWrite_def StopWriting_def WriteHeaderRecord_eq with_disk_def
      Let_def split: prod.split)

text \<open>What the operations on files leave alone.\<close>

definition session_frame :: "recorder \<Rightarrow> recorder \<Rightarrow> bool" where
  "session_frame s s' \<longleftrightarrow> options s' = options s \<and> clock s' = clock s \<and> statvfs s' = statvfs s \<and>
     localtime s' = localtime s \<and> writing_enabled s' = writing_enabled s \<and>
     check_disk_next s' = check_disk_next s \<and> warn_next s' = warn_next s \<and>
     start_time s' = start_time s \<and> current_files s' = current_files s \<and>
     split_count s' = split_count s \<and> statvfs_calls s' = statvfs_calls s \<and>
     record_thread s' = record_thread s \<and> subscribers s' = subscribers s"

lemma Recorder_StopWriting_eq:
  "Recorder_StopWriting s =
     (let (b, d) = snd (Bag_Close (clock s (clock_calls s)) (rec_bag s, rec_disk s))
      in (Inr (), s\<lparr>rec_bag := b, rec_disk := fs_rename (write_filename s) (target_filename s) d,
           clock_calls := clock_calls s + 1\<rparr>))"
proof (cases "Bag_Close (clock s (clock_calls s)) (rec_bag s, rec_disk s)")
  case (fields r b d)
  then have "r = Inr ()" using Bag_Close_ok [of "clock s (clock_calls s)" "(rec_bag s, rec_disk s)"] by simp
  with fields show ?thesis by (simp add: Recorder_StopWriting_def tick_eq on_bag_def)
qed

lemma Recorder_StopWriting_frame:
  "\<exists>s'. Recorder_StopWriting s = (Inr (), s') \<and> session_frame s s' \<and> rec_running s' = rec_running s \<and>
     target_filename s' = target_filename s \<and> write_filename s' = write_filename s"
  by (simp add: Recorder_StopWriting_eq session_frame_def split: prod.split)

section \<open>Names\<close>

text \<open>At least one of prefix, date and split must be there for a name.\<close>

definition named :: "RecorderOptions \<Rightarrow> bool" where
  "named p \<longleftrightarrow> strip_bag (opt_prefix p) \<noteq> [] \<or> append_date p \<or> opt_split p"

definition split_name :: "nat \<Rightarrow> string \<Rightarrow> bool" where
  "split_name k t \<longleftrightarrow> (\<exists>pre. (pre = [] \<or> last pre = CHR ''_'') \<and> t = pre @ show_nat k @ ''.bag'')"

lemma split_name_unique:
  assumes "split_name j t" and "split_name k t"
  shows "j = k"
proof -
  have run: "takeWhile is_digit (rev (pre @ show_nat n)) = rev (show_nat n)"
    if "pre = [] \<or> last pre = CHR ''_''" for pre n
  proof -
    have "takeWhile is_digit (rev (show_nat n) @ rev pre) = rev (show_nat n) @ takeWhile is_digit (rev pre)"
      using show_nat_digits by (intro takeWhile_append2) auto
    moreover have "takeWhile is_digit (rev pre) = []"
      using that by (cases pre rule: rev_cases) (auto simp: is_digit_def)
    ultimately show ?thesis by simp
  qed
  from assms obtain pre pre' where
    p: "pre = [] \<or> last pre = CHR ''_''" "pre' = [] \<or> last pre' = CHR ''_''"
      "pre @ show_nat j = pre' @ show_nat k"
    unfolding split_name_def by (metis (no_types) append_assoc append_same_eq)
  from run [OF p(1), of j] run [OF p(2), of k] p(3) show ?thesis by simp
qed

lemma join_parts_simps [simp]:
  "join_parts a [] = a"
  "join_parts a (ps @ [q]) = join_parts a ps @ ''_'' @ q"
  by (simp_all add: join_parts_def)

lemma UpdateFilename_frame:
  assumes "named (options s)"
  shows "\<exists>t c. UpdateFilename s = (Inr (), s\<lparr>target_filename := t @ ''.bag'', write_filename := (t @ ''.bag'') @ ''.active'',
      clock_calls := c\<rparr>) \<and> (opt_split (options s) \<longrightarrow> split_name (unat (split_count s)) (t @ ''.bag''))"
proof -
  let ?k = "show_nat (unat (split_count s))"
  define prefix where "prefix = strip_bag (opt_prefix (options s))"
  define parts where "parts = (if prefix \<noteq> [] then [prefix] else []) @
    (if append_date (options s) then [ToFormattedString (localtime s) True (clock s (clock_calls s))] else []) @
    (if opt_split (options s) then [?k] else [])"
  define c where "c = (if append_date (options s) then clock_calls s + 1 else clock_calls s)"
  have same: "s\<lparr>clock_calls := clock_calls s\<rparr> = s" by (cases s) simp
  have f: "filename_parts s = (parts, s\<lparr>clock_calls := c\<rparr>)"
    by (cases "append_date (options s)") (simp_all add: filename_parts_def tick_eq parts_def c_def same flip: prefix_def)
  have lst: "opt_split (options s) \<Longrightarrow> last parts = ?k" by (simp add: parts_def)
  have "parts \<noteq> []" using assms by (auto simp: parts_def named_def prefix_def)
  then obtain p ps where pp: "parts = p # ps" by (cases parts) auto
  let ?t = "join_parts p ps"
  have e: "UpdateFilename s = (Inr (), s\<lparr>target_filename := ?t @ ''.bag'',
      write_filename := (?t @ ''.bag'') @ ''.active'', clock_calls := c\<rparr>)"
    by (simp only: UpdateFilename_def f prod.case pp list.case Let_def) (cases s, simp)
  have "split_name (unat (split_count s)) (?t @ ''.bag'')" if "opt_split (options s)"
  proof (cases ps rule: rev_cases)
    case Nil
    with pp lst that have "p = ?k" by simp
    with Nil show ?thesis by (auto simp: split_name_def)
  next
    case (snoc qs q)
    with pp lst that have "q = ?k" by simp
    with snoc show ?thesis unfolding split_name_def
      by (intro exI [of _ "join_parts p qs @ ''_''"]) simp
  qed
  with e show ?thesis by blast
qed

lemma UpdateFilename_unnamed:
  "\<not> named (options s) \<Longrightarrow> UpdateFilename s = (Inl UndefinedBehaviour, s\<lparr>rec_running := False\<rparr>)"
  by (simp add: UpdateFilename_def filename_parts_def named_def)

lemma Recorder_StartWriting_frame:
  assumes "named (options s)"
  shows "\<exists>s'. Recorder_StartWriting s = (Inr (), s') \<and> session_frame s s' \<and>
    (opt_split (options s) \<longrightarrow> split_name (unat (split_count s)) (target_filename s')) \<and>
    write_filename s' = target_filename s' @ ''.active''"
proof -
  let ?b = "SetChunkThreshold (sint (chunk_size (options s))) (SetCompression (opt_compression (options s)) (rec_bag s))"
  have "named (options (s\<lparr>rec_bag := ?b\<rparr>))" using assms by simp
  from UpdateFilename_frame [OF this] obtain t c where
    u: "UpdateFilename (s\<lparr>rec_bag := ?b\<rparr>) = (Inr (), s\<lparr>rec_bag := ?b, target_filename := t @ ''.bag'',
        write_filename := (t @ ''.bag'') @ ''.active'', clock_calls := c\<rparr>)"
    and n: "opt_split (options s) \<longrightarrow> split_name (unat (split_count s)) (t @ ''.bag'')" by auto
  obtain r b' d' where o: "Bag_Open (clock s c) ((t @ ''.bag'') @ ''.active'') BagMode_Write (?b, rec_disk s) = (r, (b', d'))"
    by (cases "Bag_Open (clock s c) ((t @ ''.bag'') @ ''.active'') BagMode_Write (?b, rec_disk s)") auto
  from Bag_Open_outcome [of "clock s c" "(t @ ''.bag'') @ ''.active''" ?b "rec_disk s"] o
  have "r = Inr () \<or> (\<exists>e. r = Inl (MsgbagException e))" by (simp add: bag_outcome_def)
  with u n o show ?thesis
    by (auto simp: Recorder_StartWriting_def tick_eq on_bag_def Let_def session_frame_def simp del: append_assoc)
qed

section \<open>The duration limit\<close>

lemma CheckNumSplits_simps [simp]:
  "options (CheckNumSplits s) = options s"
  "start_time (CheckNumSplits s) = start_time s"
  "split_count (CheckNumSplits s) = split_count s"
  "rec_bag (CheckNumSplits s) = rec_bag s"
  "clock (CheckNumSplits s) = clock s"
  "clock_calls (CheckNumSplits s) = clock_calls s"
  "statvfs (CheckNumSplits s) = statvfs s"
  "localtime (CheckNumSplits s) = localtime s"
  "writing_enabled (CheckNumSplits s) = writing_enabled s"
  "rec_running (CheckNumSplits s) = rec_running s"
  "target_filename (CheckNumSplits s) = target_filename s"
  "record_thread (CheckNumSplits s) = record_thread s"
  by (simp_all add: CheckNumSplits_def Let_def split: prod.split)

lemma duration_step_frame:
  assumes "opt_split (options s)"
  shows "\<exists>s'. duration_step s = (Inr (), s') \<and> options s' = options s \<and>
    start_time s' = AddTime (start_time s) (max_duration (options s)) \<and> split_count s' = split_count s + 1"
proof -
  obtain s1 where s1: "Recorder_StopWriting s = (Inr (), s1)" "session_frame s s1"
    using Recorder_StopWriting_frame by blast
  define s2 where "s2 = (let s = CheckNumSplits (s1\<lparr>split_count := split_count s1 + 1\<rparr>)
     in s\<lparr>start_time := AddTime (start_time s) (max_duration (options s))\<rparr>)"
  have o: "options s2 = options s" "start_time s2 = AddTime (start_time s) (max_duration (options s))"
    "split_count s2 = split_count s + 1"
    using s1(2) by (simp_all add: s2_def session_frame_def Let_def)
  then have "named (options s2)" using assms by (simp add: named_def)
  from Recorder_StartWriting_frame [OF this] obtain s3 where
    "Recorder_StartWriting s2 = (Inr (), s3)" "session_frame s2 s3" by blast
  with s1 o show ?thesis
    by (simp add: duration_step_def Let_def s2_def session_frame_def)
qed

lemma duration_loop_done:
  "\<not> ts_less (AddTime (start_time s) (max_duration (options s))) time \<Longrightarrow> duration_loop time s = Some (Inr (), s)"
  by (simp add: duration_loop.simps)

text \<open>The loop makes the start time pass the message's time in steps of the duration.\<close>

lemma duration_loop_count:
  assumes "opt_split (options s)"
    and "sint (delta_of (max_duration (options s))) = d" and "0 < d"
    and "nanos time + d < 2 ^ 63"
    and "nanos time - nanos (start_time s) \<le> int n * d" and "- (2 ^ 63) \<le> nanos (start_time s) + d"
    and "nanos (start_time s) \<le> nanos time"
  shows "\<exists>s' k. duration_loop time s = Some (Inr (), s') \<and> options s' = options s \<and>
    nanos (start_time s') = nanos (start_time s) + int k * d \<and>
    split_count s' = split_count s + word_of_nat k \<and>
    nanos time \<le> nanos (start_time s') + d \<and> nanos (start_time s') \<le> nanos time"
  using assms
proof (induction n arbitrary: s)
  case 0
  then have "nanos (start_time s) = nanos time" by simp
  moreover have "nanos (AddTime (start_time s) (max_duration (options s))) = nanos (start_time s) + d"
    using 0 by (subst nanos_AddTime) auto
  ultimately have "\<not> ts_less (AddTime (start_time s) (max_duration (options s))) time"
    using 0 by (simp add: ts_less_def)
  from duration_loop_done [OF this] 0 show ?case by (intro exI [of _ s] exI [of _ 0]) auto
next
  case (Suc n)
  have a: "nanos (AddTime (start_time s) (max_duration (options s))) = nanos (start_time s) + d"
    using Suc.prems by (subst nanos_AddTime) auto
  show ?case
  proof (cases "nanos (start_time s) + d < nanos time")
    case False
    then have "\<not> ts_less (AddTime (start_time s) (max_duration (options s))) time"
      using a by (simp add: ts_less_def)
    from duration_loop_done [OF this] Suc.prems False show ?thesis
      by (intro exI [of _ s] exI [of _ 0]) auto
  next
    case True
    obtain s1 where s1: "duration_step s = (Inr (), s1)" "options s1 = options s"
      "start_time s1 = AddTime (start_time s) (max_duration (options s))" "split_count s1 = split_count s + 1"
      using duration_step_frame [OF Suc.prems(1)] by blast
    have "nanos (start_time s1) = nanos (start_time s) + d" using a s1(3) by simp
    with True Suc.prems s1(2) have "\<exists>s' k. duration_loop time s1 = Some (Inr (), s') \<and> options s' = options s1 \<and>
        nanos (start_time s') = nanos (start_time s1) + int k * d \<and>
        split_count s' = split_count s1 + word_of_nat k \<and>
        nanos time \<le> nanos (start_time s') + d \<and> nanos (start_time s') \<le> nanos time"
      by (intro Suc.IH) (auto simp: algebra_simps)
    then obtain s' k where r: "duration_loop time s1 = Some (Inr (), s')" "options s' = options s1"
      "nanos (start_time s') = nanos (start_time s1) + int k * d"
      "split_count s' = split_count s1 + word_of_nat k"
      "nanos time \<le> nanos (start_time s') + d" "nanos (start_time s') \<le> nanos time" by blast
    have "ts_less (AddTime (start_time s) (max_duration (options s))) time"
      using True a by (simp add: ts_less_def)
    then have "duration_loop time s = duration_loop time s1"
      by (subst duration_loop.simps) (simp add: s1(1))
    with r s1 a show ?thesis
      by (intro exI [of _ s'] exI [of _ "Suc k"]) (simp add: algebra_simps)
  qed
qed

text \<open>A duration below a nanosecond never lets it end.\<close>

lemma duration_loop_forever:
  "duration_loop time s = Some r \<Longrightarrow>
     opt_split (options s) \<and> delta_of (max_duration (options s)) = 0 \<longrightarrow> \<not> ts_less (start_time s) time"
proof (induction rule: duration_loop.raw_induct [rotated, consumes 1, case_names step])
  case (step loop time s r)
  show ?case
  proof (intro impI notI)
    assume less: "ts_less (start_time s) time"
      and o: "opt_split (options s) \<and> delta_of (max_duration (options s)) = 0"
    obtain s1 where s1: "duration_step s = (Inr (), s1)" "options s1 = options s"
      "start_time s1 = AddTime (start_time s) (max_duration (options s))"
      using duration_step_frame o by blast
    have same: "AddTime (start_time s) (max_duration (options s)) = start_time s"
      using o by (simp add: AddTime_delta)
    have "loop time s1 = Some r"
      using step(2) less by (simp add: same s1(1))
    from step(1) [OF this] o s1 less same show False by simp
  qed
qed

section \<open>The invariant of a recording\<close>

definition om_record :: "OutgoingMessage \<Rightarrow> message_record" where
  "om_record m = \<lparr>timestamp_ns = om_time m, topic = om_topic m, serialized_msg = om_msg m\<rparr>"

definition om_bytes :: "OutgoingMessage list \<Rightarrow> string" where
  "om_bytes ms = concat (map (\<lambda>m. record_bytes (om_record m)) ms)"

lemma om_bytes_simps [simp]:
  "om_bytes [] = []"
  "om_bytes (ms @ ms') = om_bytes ms @ om_bytes ms'"
  by (simp_all add: om_bytes_def)

text \<open>A closed file holds exactly the messages \<open>ms\<close>, and its header counts them.\<close>

definition finished_file :: "disk \<Rightarrow> string \<Rightarrow> OutgoingMessage list \<Rightarrow> bool" where
  "finished_file d name ms \<longleftrightarrow>
     (\<exists>start stop. files d name = Some (finished_bag start stop (word_of_nat (length ms)) (om_bytes ms)))"

definition disk_usable :: "disk \<Rightarrow> bool" where
  "disk_usable d \<longleftrightarrow> (\<forall>n. creatable d n) \<and> 1041 \<le> quota d \<and> quota d < 2 ^ 63"

definition open_file :: "OutgoingMessage list \<Rightarrow> recorder \<Rightarrow> bool" where
  "open_file cur s \<longleftrightarrow>
     (\<exists>now. writable_bag now (write_filename s) (rec_bag s)) \<and>
     drop 1041 (bag_data (rec_bag s)) = om_bytes cur \<and>
     msg_count (rec_bag s) = word_of_nat (length cur) \<and>
     f_quota (filestream (rec_bag s)) = quota (rec_disk s) \<and>
     write_filename s = target_filename s @ ''.active'' \<and>
     files (rec_disk s) (write_filename s) \<noteq> None \<and>
     disk_usable (rec_disk s)"

text \<open>With \<open>--max-splits\<close> the files closed first are gone; \<open>current_files_\<close> has the others.\<close>

definition discarded :: "RecorderOptions \<Rightarrow> nat \<Rightarrow> nat \<Rightarrow> bool" where
  "discarded p n k \<longleftrightarrow> 0 < max_splits p \<and> k + unat (max_splits p) < n"

definition closed_ok :: "disk \<Rightarrow> RecorderOptions \<Rightarrow> (string \<times> OutgoingMessage list) list \<Rightarrow> bool" where
  "closed_ok d p cs \<longleftrightarrow>
     (\<forall>k < length cs. split_name k (fst (cs ! k)) \<and>
        (if discarded p (length cs) k then files d (fst (cs ! k)) = None
         else finished_file d (fst (cs ! k)) (snd (cs ! k))))"

definition closed_files :: "(string \<times> OutgoingMessage list) list \<Rightarrow> recorder \<Rightarrow> bool" where
  "closed_files cs s \<longleftrightarrow> closed_ok (rec_disk s) (options s) cs \<and>
     current_files s =
       (if 0 < max_splits (options s) then drop (length cs - unat (max_splits (options s))) (map fst cs) else [])"

definition split_state :: "nat \<Rightarrow> recorder \<Rightarrow> bool" where
  "split_state n s \<longleftrightarrow> unat (split_count s) = n \<and>
     (if opt_split (options s) then split_name n (target_filename s) else n = 0)"

definition recording :: "(string \<times> OutgoingMessage list) list \<Rightarrow> OutgoingMessage list \<Rightarrow> recorder \<Rightarrow> bool" where
  "recording cs cur s \<longleftrightarrow> open_file cur s \<and> closed_files cs s \<and> split_state (length cs) s"

text \<open>No limit but that of the size, which splits; a disk that is never full.\<close>

definition disk_fine :: "recorder \<Rightarrow> bool" where
  "disk_fine s \<longleftrightarrow> writing_enabled s \<and>
     (\<forall>n a b. statvfs s n = Some (a, b) \<longrightarrow> min_space (options s) \<le> a * b)"

definition unlimited :: "recorder \<Rightarrow> bool" where
  "unlimited s \<longleftrightarrow> named (options s) \<and> max_duration (options s) \<le> 0 \<and>
     (opt_split (options s) \<or> opt_max_size (options s) = 0) \<and> disk_fine s"

lemma unlimited_frame: "session_frame s s' \<Longrightarrow> unlimited s' = unlimited s"
  by (simp add: unlimited_def disk_fine_def session_frame_def)

text \<open>The checks before a write touch nothing of this.\<close>

definition bag_frame :: "recorder \<Rightarrow> recorder \<Rightarrow> bool" where
  "bag_frame s s' \<longleftrightarrow> options s' = options s \<and> rec_bag s' = rec_bag s \<and> target_filename s' = target_filename s \<and>
     write_filename s' = write_filename s \<and> split_count s' = split_count s \<and> rec_disk s' = rec_disk s \<and>
     statvfs s' = statvfs s \<and> writing_enabled s' = writing_enabled s \<and> rec_running s' = rec_running s \<and>
     record_thread s' = record_thread s \<and> current_files s' = current_files s"

lemma bag_frame_keeps:
  assumes "bag_frame s s'"
  shows "recording cs cur s' = recording cs cur s" and "unlimited s' = unlimited s"
    and "open_file cur s' = open_file cur s" and "disk_fine s' = disk_fine s"
  using assms
  by (simp_all add: bag_frame_def recording_def open_file_def closed_files_def split_state_def unlimited_def
      disk_fine_def)

lemma CheckDisk_fine:
  assumes "disk_fine s"
  shows "\<exists>s'. CheckDisk s = (True, s') \<and> bag_frame s s'"
  using assms
  by (cases "statvfs s (statvfs_calls s)")
    (auto simp: CheckDisk_def disk_fine_def bag_frame_def Let_def not_less)

lemma ScheduledCheckDisk_fine:
  assumes "disk_fine s"
  shows "\<exists>s'. ScheduledCheckDisk s = (True, s') \<and> bag_frame s s'"
proof (cases "ts_less (clock s (clock_calls s)) (check_disk_next s)")
  case True
  then show ?thesis by (simp add: ScheduledCheckDisk_def tick_eq bag_frame_def)
next
  case False
  let ?s = "s\<lparr>clock_calls := clock_calls s + 1, check_disk_next := AddTime (check_disk_next s) 2\<rparr>"
  have "disk_fine ?s" using assms by (simp add: disk_fine_def)
  from CheckDisk_fine [OF this] False show ?thesis
    by (auto simp: ScheduledCheckDisk_def tick_eq bag_frame_def)
qed

section \<open>One message\<close>

lemma write_message_ready:
  assumes "bag_ready b" and "length (bag_data b) + length (om_bytes [m]) \<le> f_quota (filestream b)"
  shows "write_message m b = (Inr (), (extended (om_bytes [m]) b)\<lparr>msg_count := msg_count b + 1\<rparr>)"
proof -
  have "msg_count (extended s b) = msg_count b" for s by (simp add: extended_def Let_def)
  with assms show ?thesis
    by (simp add: write_message_def Bag_Write_ready om_bytes_def record_bytes_def om_record_def Let_def)
qed

lemma write_if_logging_open_file:
  assumes "open_file cur s" and "disk_fine s"
    and "1041 + length (om_bytes (cur @ [m])) \<le> quota (rec_disk s)"
  shows "\<exists>s'. write_if_logging m s = (Inr (), s') \<and> open_file (cur @ [m]) s' \<and>
    bag_frame s (s'\<lparr>rec_bag := rec_bag s\<rparr>)"
proof -
  obtain s1 where s1: "ScheduledCheckDisk s = (True, s1)" "bag_frame s s1"
    using ScheduledCheckDisk_fine [OF assms(2)] by blast
  have r1: "open_file cur s1" and u1: "disk_fine s1"
    using bag_frame_keeps [OF s1(2)] assms(1,2) by simp_all
  have log: "CheckLogging s1 = (True, s1)" using u1 by (simp add: CheckLogging_def disk_fine_def)
  let ?b = "rec_bag s1"
  let ?b' = "(extended (om_bytes [m]) ?b)\<lparr>msg_count := msg_count ?b + 1\<rparr>"
  from r1 obtain now where w: "writable_bag now (write_filename s1) ?b"
    and d: "drop 1041 (bag_data ?b) = om_bytes cur" and q: "f_quota (filestream ?b) = quota (rec_disk s1)"
    by (auto simp: open_file_def)
  have "1041 \<le> length (bag_data ?b)" using w by (simp add: writable_bag_def)
  then have "length (bag_data ?b) = 1041 + length (om_bytes cur)"
    using arg_cong [OF d, of length] by simp
  then have fit: "length (bag_data ?b) + length (om_bytes [m]) \<le> f_quota (filestream ?b)"
    using assms(3) q s1(2) by (simp add: bag_frame_def)
  have wm: "write_message m ?b = (Inr (), ?b')"
    using w fit by (intro write_message_ready) (auto simp: writable_bag_def)
  have w': "writable_bag now (write_filename s1) ?b'"
    using writable_extended [OF w fit] by (simp add: writable_bag_def bag_ready_def bag_data_def)
  have f: "bag_data ?b' = bag_data ?b @ om_bytes [m]" "f_quota (filestream ?b') = f_quota (filestream ?b)"
    by (simp_all add: bag_data_def extended_def Let_def)
  have "drop 1041 (bag_data ?b') = om_bytes (cur @ [m])"
    using w d f by (simp add: writable_bag_def)
  then have "open_file (cur @ [m]) (s1\<lparr>rec_bag := ?b'\<rparr>)"
    using r1 w' f unfolding open_file_def by auto
  moreover have "write_if_logging m s = (Inr (), s1\<lparr>rec_bag := ?b', rec_disk := rec_disk s1\<rparr>)"
    by (simp add: write_if_logging_def s1(1) log on_bag_def with_disk_def wm)
  moreover have "s1\<lparr>rec_bag := ?b', rec_disk := rec_disk s1\<rparr> = s1\<lparr>rec_bag := ?b'\<rparr>" by simp
  ultimately show ?thesis using s1(2) by (auto simp: bag_frame_def)
qed

lemma write_if_logging_recording:
  assumes "recording cs cur s" and "unlimited s"
    and "1041 + length (om_bytes (cur @ [m])) \<le> quota (rec_disk s)"
  shows "\<exists>s'. write_if_logging m s = (Inr (), s') \<and> recording cs (cur @ [m]) s' \<and> unlimited s' \<and>
    rec_running s' = rec_running s \<and> options s' = options s \<and> rec_disk s' = rec_disk s \<and>
    target_filename s' = target_filename s \<and> record_thread s' = record_thread s"
proof -
  have o: "open_file cur s" "disk_fine s" using assms(1,2) by (simp_all add: recording_def unlimited_def)
  from write_if_logging_open_file [OF o assms(3)] obtain s' where
    s': "write_if_logging m s = (Inr (), s')" "open_file (cur @ [m]) s'" "bag_frame s (s'\<lparr>rec_bag := rec_bag s\<rparr>)"
    by blast
  then have "recording cs (cur @ [m]) s'" "unlimited s'"
    using assms(1,2)
    by (simp_all add: recording_def closed_files_def split_state_def bag_frame_def unlimited_def disk_fine_def)
  with s' show ?thesis by (auto simp: bag_frame_def)
qed

section \<open>Closing a file and opening the next\<close>

lemma active_not_split_name: "split_name k t \<Longrightarrow> t \<noteq> x @ ''.active''"
proof
  assume "split_name k t" and "t = x @ ''.active''"
  then have "last t = CHR ''g''" and "last t = CHR ''e''" by (auto simp: split_name_def)
  then show False by simp
qed

lemma finished_file_update:
  "finished_file d name ms \<Longrightarrow> files d' name = files d name \<Longrightarrow> finished_file d' name ms"
  by (simp add: finished_file_def)

lemma Recorder_StopWriting_open_file:
  assumes "open_file cur s"
  shows "\<exists>s'. Recorder_StopWriting s = (Inr (), s') \<and> session_frame s s' \<and> rec_running s' = rec_running s \<and>
    target_filename s' = target_filename s \<and> \<not> is_open (filestream (rec_bag s')) \<and>
    msg_count (rec_bag s') = 0 \<and> disk_usable (rec_disk s') \<and> quota (rec_disk s') = quota (rec_disk s) \<and>
    finished_file (rec_disk s') (target_filename s) cur \<and> files (rec_disk s') (write_filename s) = None \<and>
    (\<forall>n. n \<noteq> target_filename s \<and> n \<noteq> write_filename s \<longrightarrow> files (rec_disk s') n = files (rec_disk s) n)"
proof -
  from assms obtain now where w: "writable_bag now (write_filename s) (rec_bag s)"
    and d: "drop 1041 (bag_data (rec_bag s)) = om_bytes cur" and c: "msg_count (rec_bag s) = word_of_nat (length cur)"
    and n: "write_filename s = target_filename s @ ''.active''" and u: "disk_usable (rec_disk s)"
    by (auto simp: open_file_def)
  let ?stop = "clock s (clock_calls s)"
  let ?d = "finished_bag (NanoSecondsSinceEpoch now) (NanoSecondsSinceEpoch ?stop) (word_of_nat (length cur)) (om_bytes cur)"
  obtain b' where bc: "Bag_Close ?stop (rec_bag s, rec_disk s) =
      (Inr (), (b', (rec_disk s)\<lparr>files := (files (rec_disk s))(write_filename s \<mapsto> ?d)\<rparr>))"
    and b': "\<not> is_open (filestream b')" "msg_count b' = 0"
    using Bag_Close_write [OF w, of ?stop "rec_disk s"] by (simp add: d c finished_bag_def Bag_Init_def)
  have ne: "write_filename s \<noteq> target_filename s" using n by simp
  show ?thesis
    using b' u ne
    by (simp add: Recorder_StopWriting_eq bc fs_rename_def session_frame_def disk_usable_def finished_file_def) blast
qed

lemma Recorder_StartWriting_fresh:
  assumes "named (options s)" and "\<not> is_open (filestream (rec_bag s))" and "msg_count (rec_bag s) = 0"
    and "disk_usable (rec_disk s)"
  shows "\<exists>s'. Recorder_StartWriting s = (Inr (), s') \<and> session_frame s s' \<and> rec_running s' = rec_running s \<and>
    open_file [] s' \<and> (opt_split (options s) \<longrightarrow> split_name (unat (split_count s)) (target_filename s')) \<and>
    quota (rec_disk s') = quota (rec_disk s) \<and>
    (\<forall>n. n \<noteq> write_filename s' \<longrightarrow> files (rec_disk s') n = files (rec_disk s) n)"
proof -
  let ?b = "SetChunkThreshold (sint (chunk_size (options s))) (SetCompression (opt_compression (options s)) (rec_bag s))"
  have b: "\<not> is_open (filestream ?b)" "msg_count ?b = 0"
    using assms(2,3) by (simp_all add: SetChunkThreshold_def SetCompression_def)
  have "named (options (s\<lparr>rec_bag := ?b\<rparr>))" using assms(1) by simp
  from UpdateFilename_frame [OF this] obtain t c where
    u: "UpdateFilename (s\<lparr>rec_bag := ?b\<rparr>) = (Inr (), s\<lparr>rec_bag := ?b, target_filename := t @ ''.bag'',
        write_filename := (t @ ''.bag'') @ ''.active'', clock_calls := c\<rparr>)"
    and n: "opt_split (options s) \<longrightarrow> split_name (unat (split_count s)) (t @ ''.bag'')" by auto
  let ?w = "(t @ ''.bag'') @ ''.active''"
  let ?now = "clock s c"
  have q: "creatable (rec_disk s) ?w" "1041 \<le> quota (rec_disk s)" "quota (rec_disk s) < 2 ^ 63"
    using assms(4) by (simp_all add: disk_usable_def)
  let ?st = "started ?now ?w BagMode_Write ?b (rec_disk s)"
  note o = Bag_Open_write [OF b(1) q has_mode_Write, of ?now]
  have wb: "writable_bag ?now ?w ?st" using q by (intro writable_started) simp_all
  have data: "drop 1041 (bag_data ?st) = []" "msg_count ?st = 0" "f_quota (filestream ?st) = quota (rec_disk s)"
    using b(2) by (simp_all add: started_def bag_data_def)
  let ?s' = "s\<lparr>rec_bag := ?st, target_filename := t @ ''.bag'', write_filename := ?w,
    rec_disk := (rec_disk s)\<lparr>files := (files (rec_disk s))(?w \<mapsto> [])\<rparr>, clock_calls := c + 1\<rparr>"
  have run: "Recorder_StartWriting s = (Inr (), ?s')"
    by (simp add: Recorder_StartWriting_def u tick_eq on_bag_def o Let_def del: append_assoc)
  have "open_file [] ?s'"
    using wb data assms(4) unfolding open_file_def disk_usable_def by auto
  with run n show ?thesis
    by (intro exI [of _ ?s']) (simp add: session_frame_def)
qed

section \<open>Whole recordings\<close>

text \<open>A split closes the file with what was in it and opens an empty one.\<close>

lemma finished_or_gone:
  assumes "closed_ok d p cs" and "k < length cs" and "files d' (fst (cs ! k)) = files d (fst (cs ! k))"
  shows "if discarded p (length cs) k then files d' (fst (cs ! k)) = None
    else finished_file d' (fst (cs ! k)) (snd (cs ! k))"
  using assms finished_file_update by (auto simp: closed_ok_def)

lemma closed_ok_names: "closed_ok d p cs \<Longrightarrow> k < length cs \<Longrightarrow> split_name k (fst (cs ! k))"
  by (simp add: closed_ok_def)

lemma closed_ok_distinct:
  assumes "closed_ok d p cs"
  shows "distinct (map fst cs)"
  using closed_ok_names [OF assms] split_name_unique unfolding distinct_conv_nth
  by (metis length_map nth_map)

text \<open>Closing another file keeps the earlier ones.\<close>

lemma closed_ok_frame:
  assumes "closed_ok d p cs" and "w = x @ ''.active''" and "split_name (length cs) t"
    and "\<forall>n. n \<noteq> t \<and> n \<noteq> w \<longrightarrow> files d' n = files d n"
  shows "closed_ok d' p cs"
  unfolding closed_ok_def
proof (intro allI impI conjI)
  fix k assume k: "k < length cs"
  note n = closed_ok_names [OF assms(1) k]
  show "split_name k (fst (cs ! k))" by (rule n)
  have "fst (cs ! k) \<noteq> t" using split_name_unique [OF n] assms(3) k by blast
  moreover have "fst (cs ! k) \<noteq> w" using active_not_split_name [OF n] assms(2) by simp
  ultimately show "if discarded p (length cs) k then files d' (fst (cs ! k)) = None
      else finished_file d' (fst (cs ! k)) (snd (cs ! k))"
    using assms(4) by (intro finished_or_gone [OF assms(1) k]) blast
qed

text \<open>The unlink of \<open>CheckNumSplits\<close> takes the oldest file still there.\<close>

lemma CheckNumSplits_closed:
  assumes "closed_files cs s" and "split_name (length cs) (target_filename s)"
    and "finished_file (rec_disk s) (target_filename s) cur"
  shows "closed_files (cs @ [(target_filename s, cur)]) (CheckNumSplits s) \<and>
    quota (rec_disk (CheckNumSplits s)) = quota (rec_disk s) \<and>
    (disk_usable (rec_disk s) \<longrightarrow> disk_usable (rec_disk (CheckNumSplits s)))"
proof -
  let ?t = "target_filename s"
  let ?cs = "cs @ [(?t, cur)]"
  let ?N = "unat (max_splits (options s))"
  let ?p = "options s"
  have c: "closed_ok (rec_disk s) ?p cs" using assms(1) by (simp add: closed_files_def)
  have names: "split_name k (fst (?cs ! k))" if "k < length ?cs" for k
    using that closed_ok_names [OF c] assms(2) by (cases "k = length cs") (auto simp: nth_append)
  have content: "if discarded ?p (length cs) k then files (rec_disk s) (fst (?cs ! k)) = None
      else finished_file (rec_disk s) (fst (?cs ! k)) (snd (?cs ! k))" if "k < length ?cs" for k
    using that assms(3) finished_or_gone [OF c, of k "rec_disk s"]
    by (cases "k = length cs") (auto simp: nth_append discarded_def)
  show ?thesis
  proof (cases "0 < max_splits ?p")
    case False
    then have "CheckNumSplits s = s" by (simp add: CheckNumSplits_def)
    with False names content assms(1) show ?thesis by (simp add: closed_files_def closed_ok_def discarded_def)
  next
    case True
    then have N: "0 < ?N" by (simp add: word_less_nat_alt)
    have cur: "current_files s = drop (length cs - ?N) (map fst cs)" using assms(1) True by (simp add: closed_files_def)
    let ?cf = "current_files s @ [?t]"
    have cf: "?cf = drop (length cs - ?N) (map fst ?cs)" using cur by simp
    show ?thesis
    proof (cases "?N < length ?cf")
      case False
      then have short: "length ?cs \<le> ?N" using cur by simp
      have "CheckNumSplits s = s\<lparr>current_files := ?cf\<rparr>" using True False by (simp add: CheckNumSplits_def Let_def)
      with True names content short cf show ?thesis
        by (simp add: closed_files_def closed_ok_def discarded_def)
    next
      case long: True
      then have len: "?N \<le> length cs" using cur by simp
      let ?i = "length cs - ?N"
      have il: "?i < length cs" using len N by arith
      then have hd: "hd ?cf = fst (?cs ! ?i)" unfolding cf by (simp add: hd_drop_conv_nth nth_append)
      have tl: "tl ?cf = drop (length ?cs - ?N) (map fst ?cs)"
        unfolding cf using len by (simp only: drop_Suc tl_drop flip: drop_Suc)
          (simp add: Suc_diff_le drop_Suc tl_drop)
      obtain e d where u: "fs_unlink (hd ?cf) (rec_disk s) = (e, d)" by (cases "fs_unlink (hd ?cf) (rec_disk s)")
      have d: "files d = (files (rec_disk s))(hd ?cf := None)" "quota d = quota (rec_disk s)" "creatable d = creatable (rec_disk s)"
        using u by (auto simp: fs_unlink_def fun_eq_iff split: option.splits)
      have run: "CheckNumSplits s = s\<lparr>current_files := tl ?cf, rec_disk := d\<rparr>"
        using True long u by (simp add: CheckNumSplits_def Let_def)
      have "closed_ok d ?p ?cs"
        unfolding closed_ok_def
      proof (intro allI impI conjI)
        fix k assume k: "k < length ?cs"
        show "split_name k (fst (?cs ! k))" by (rule names [OF k])
        have i: "?i < length ?cs" by simp
        have other: "k = ?i \<or> fst (?cs ! k) \<noteq> hd ?cf"
          using split_name_unique [OF names [OF k]] names [OF i] hd by metis
        have disc: "discarded ?p (length ?cs) k \<longleftrightarrow> discarded ?p (length cs) k \<or> k = ?i"
          using True len by (auto simp: discarded_def)
        show "if discarded ?p (length ?cs) k then files d (fst (?cs ! k)) = None
            else finished_file d (fst (?cs ! k)) (snd (?cs ! k))"
        proof (cases "k = ?i")
          case True
          then show ?thesis using disc hd d(1) by simp
        next
          case False
          then have "files d (fst (?cs ! k)) = files (rec_disk s) (fst (?cs ! k))" using other d(1) by simp
          with content [OF k] disc False show ?thesis by (simp only: finished_file_def simp_thms)
        qed
      qed
      with run tl True d show ?thesis by (simp add: closed_files_def disk_usable_def)
    qed
  qed
qed

lemma closed_files_frame:
  assumes "closed_files cs s" and "w = x @ ''.active''" and "session_frame s s'"
    and "\<forall>n. n \<noteq> w \<longrightarrow> files (rec_disk s') n = files (rec_disk s) n"
  shows "closed_files cs s'"
proof -
  have "closed_ok (rec_disk s') (options s) cs"
    unfolding closed_ok_def
  proof (intro allI impI conjI)
    fix k assume k: "k < length cs"
    have c: "closed_ok (rec_disk s) (options s) cs" using assms(1) by (simp add: closed_files_def)
    note n = closed_ok_names [OF c k]
    show "split_name k (fst (cs ! k))" by (rule n)
    show "if discarded (options s) (length cs) k then files (rec_disk s') (fst (cs ! k)) = None
        else finished_file (rec_disk s') (fst (cs ! k)) (snd (cs ! k))"
      using active_not_split_name [OF n] assms(2,4) by (intro finished_or_gone [OF c k]) blast
  qed
  with assms(1,3) show ?thesis by (simp add: closed_files_def session_frame_def)
qed

lemma CheckSize_recording:
  assumes "recording cs cur s" and "unlimited s" and "Suc (length cs) < 2 ^ 64"
  shows "\<exists>s' cs' cur'. CheckSize s = (Inr False, s') \<and> recording cs' cur' s' \<and> unlimited s' \<and>
    rec_running s' = rec_running s \<and> options s' = options s \<and> quota (rec_disk s') = quota (rec_disk s) \<and>
    record_thread s' = record_thread s \<and>
    (cs' = cs \<and> cur' = cur \<or> opt_split (options s) \<and> cs' = cs @ [(target_filename s, cur)] \<and> cur' = [])"
proof (cases "0 < opt_max_size (options s) \<and> opt_max_size (options s) < word_of_int (GetSize (rec_bag s))")
  case False
  then have "CheckSize s = (Inr False, s)" by (auto simp: CheckSize_def)
  with assms show ?thesis by blast
next
  case True
  then have sp: "opt_split (options s)" using assms(2) by (auto simp: unlimited_def)
  from assms(1) have r: "open_file cur s" "closed_files cs s" "split_state (length cs) s"
    by (simp_all add: recording_def)
  have nm: "write_filename s = target_filename s @ ''.active''" using r(1) by (simp add: open_file_def)
  obtain s1 where s1: "Recorder_StopWriting s = (Inr (), s1)" "session_frame s s1" "rec_running s1 = rec_running s"
      "target_filename s1 = target_filename s"
      "\<not> is_open (filestream (rec_bag s1))" "msg_count (rec_bag s1) = 0" "disk_usable (rec_disk s1)"
      "quota (rec_disk s1) = quota (rec_disk s)" "finished_file (rec_disk s1) (target_filename s) cur"
    and f1: "\<forall>n. n \<noteq> target_filename s \<and> n \<noteq> write_filename s \<longrightarrow> files (rec_disk s1) n = files (rec_disk s) n"
    using Recorder_StopWriting_open_file [OF r(1)] by blast
  let ?s1 = "s1\<lparr>split_count := split_count s1 + 1\<rparr>"
  let ?s2 = "CheckNumSplits ?s1"
  let ?cs = "cs @ [(target_filename s, cur)]"
  have o1: "options s1 = options s" "split_count s1 = split_count s" "record_thread s1 = record_thread s"
    "current_files s1 = current_files s"
    using s1(2) by (simp_all add: session_frame_def)
  have u1: "unlimited s1" using unlimited_frame [OF s1(2)] assms(2) by simp
  then have u2: "unlimited ?s2" by (simp add: unlimited_def disk_fine_def)
  have sn: "split_name (length cs) (target_filename s)" "unat (split_count s) = length cs"
    using r(3) sp by (simp_all add: split_state_def)
  have "closed_ok (rec_disk s1) (options s) cs"
    using r(2) closed_ok_frame [OF _ nm sn(1) f1] by (simp add: closed_files_def)
  then have cl1: "closed_files cs ?s1" using r(2) o1 by (simp add: closed_files_def)
  have "split_name (length cs) (target_filename ?s1)" "finished_file (rec_disk ?s1) (target_filename ?s1) cur"
    using sn(1) s1(4,9) by simp_all
  note cl2 = CheckNumSplits_closed [OF cl1 this]
  have cnt: "unat (split_count ?s2) = Suc (length cs)"
    using sn(2) o1(2) assms(3) by (simp add: unat_word_ariths)
  have n2: "named (options ?s2)" using sp o1 by (simp add: named_def)
  have "\<not> is_open (filestream (rec_bag ?s2))" "msg_count (rec_bag ?s2) = 0" "disk_usable (rec_disk ?s2)"
    using s1(5-7) cl2 by simp_all
  from Recorder_StartWriting_fresh [OF n2 this] obtain s3 where
    s3: "Recorder_StartWriting ?s2 = (Inr (), s3)" "session_frame ?s2 s3" "rec_running s3 = rec_running ?s2"
      "open_file [] s3" "opt_split (options ?s2) \<longrightarrow> split_name (unat (split_count ?s2)) (target_filename s3)"
      "quota (rec_disk s3) = quota (rec_disk ?s2)"
      "\<forall>n. n \<noteq> write_filename s3 \<longrightarrow> files (rec_disk s3) n = files (rec_disk ?s2) n"
    by blast
  have "write_filename s3 = target_filename s3 @ ''.active''" using s3(4) by (simp add: open_file_def)
  moreover have "closed_files ?cs ?s2" using cl2 s1(4) by simp
  ultimately have cl3: "closed_files ?cs s3" using s3(2,7) closed_files_frame by blast
  have o3: "options s3 = options s" "split_count s3 = split_count ?s2" "record_thread s3 = record_thread s"
    using s3(2) o1 by (simp_all add: session_frame_def)
  have "split_state (length ?cs) s3"
    using s3(5) cnt o1 o3 sp by (simp add: split_state_def)
  then have rec3: "recording ?cs [] s3"
    using s3(4) cl3 by (simp add: recording_def)
  have "unlimited s3" using unlimited_frame [OF s3(2)] u2 by simp
  moreover have "quota (rec_disk s3) = quota (rec_disk s)" using s3(6) cl2 s1(8) by simp
  moreover have "rec_running s3 = rec_running s" using s3(3) s1(3) by simp
  moreover have "CheckSize s = (Inr False, s3)"
    using True sp by (simp add: CheckSize_def s1(1) s3(1))
  ultimately show ?thesis using rec3 o3 sp by blast
qed

lemma DoWrite_recording:
  assumes "recording cs cur s" and "unlimited s" and "Suc (length cs) < 2 ^ 64"
    and "1041 + length (om_bytes (cur @ [m])) \<le> quota (rec_disk s)"
  shows "\<exists>s' cs' cur'. DoWrite m s = Some (Inr (), s') \<and> recording cs' cur' s' \<and> unlimited s' \<and>
    rec_running s' = rec_running s \<and> options s' = options s \<and> quota (rec_disk s') = quota (rec_disk s) \<and>
    record_thread s' = record_thread s \<and>
    (cs' = cs \<and> cur' = cur @ [m] \<or> opt_split (options s) \<and> cs' = cs @ [(target_filename s, cur)] \<and> cur' = [m])"
proof -
  obtain s1 cs' cur' where s1: "CheckSize s = (Inr False, s1)" "recording cs' cur' s1" "unlimited s1"
      "rec_running s1 = rec_running s" "options s1 = options s" "quota (rec_disk s1) = quota (rec_disk s)"
      "record_thread s1 = record_thread s"
    and c: "cs' = cs \<and> cur' = cur \<or> opt_split (options s) \<and> cs' = cs @ [(target_filename s, cur)] \<and> cur' = []"
    using CheckSize_recording [OF assms(1-3)] by blast
  have "1041 + length (om_bytes (cur' @ [m])) \<le> quota (rec_disk s1)"
    using c assms(4) s1(6) by auto
  from write_if_logging_recording [OF s1(2,3) this] obtain s2 where
    s2: "write_if_logging m s1 = (Inr (), s2)" "recording cs' (cur' @ [m]) s2" "unlimited s2"
      "rec_running s2 = rec_running s1" "options s2 = options s1" "rec_disk s2 = rec_disk s1"
      "record_thread s2 = record_thread s1" by blast
  have "CheckDuration (om_time m) s1 = Some (Inr False, s1)"
    using s1(3) by (simp add: CheckDuration_def unlimited_def)
  then have "DoWrite m s = Some (Inr (), s2)" by (simp add: DoWrite_def s1(1) set_running_def s2(1))
  with s2 s1 c show ?thesis by (intro exI [of _ s2] exI [of _ cs'] exI [of _ "cur' @ [m]"]) auto
qed

text \<open>What a run of the thread adds: the messages, in order, spread over the files.\<close>

definition extends_by ::
    "(string \<times> OutgoingMessage list) list \<Rightarrow> OutgoingMessage list \<Rightarrow> recorder \<Rightarrow> OutgoingMessage list \<Rightarrow>
     (string \<times> OutgoingMessage list) list \<Rightarrow> OutgoingMessage list \<Rightarrow> recorder \<Rightarrow> bool" where
  "extends_by cs cur s ms cs' cur' s' \<longleftrightarrow>
     recording cs' cur' s' \<and> unlimited s' \<and> rec_running s' = rec_running s \<and> options s' = options s \<and>
     quota (rec_disk s') = quota (rec_disk s) \<and> record_thread s' = record_thread s \<and>
     concat (map snd cs') @ cur' = (concat (map snd cs) @ cur) @ ms \<and>
     length cs' \<le> length cs + length ms \<and>
     length (om_bytes cur') \<le> length (om_bytes (cur @ ms)) \<and>
     (\<not> opt_split (options s) \<longrightarrow> cs' = cs)"

definition room_for :: "(string \<times> OutgoingMessage list) list \<Rightarrow> OutgoingMessage list \<Rightarrow> recorder \<Rightarrow> OutgoingMessage list \<Rightarrow> bool" where
  "room_for cs cur s ms \<longleftrightarrow> recording cs cur s \<and> unlimited s \<and> rec_running s \<and>
     Suc (length cs + length ms) < 2 ^ 64 \<and> 1041 + length (om_bytes (cur @ ms)) \<le> quota (rec_disk s)"

lemma extends_by_trans:
  assumes "extends_by cs cur s ms cs1 cur1 s1" and "extends_by cs1 cur1 s1 ms' cs2 cur2 s2"
  shows "extends_by cs cur s (ms @ ms') cs2 cur2 s2"
  using assms unfolding extends_by_def by auto

lemma room_for_rest:
  assumes "room_for cs cur s (ms @ ms')" and "extends_by cs cur s ms cs1 cur1 s1"
  shows "room_for cs1 cur1 s1 ms'"
  using assms unfolding room_for_def extends_by_def by auto

lemma room_for_prefix: "room_for cs cur s (ms @ ms') \<Longrightarrow> room_for cs cur s ms"
  unfolding room_for_def by auto

lemma DoWrite_extends:
  assumes "room_for cs cur s [m]"
  shows "\<exists>s' cs' cur'. DoWrite m s = Some (Inr (), s') \<and> extends_by cs cur s [m] cs' cur' s'"
proof -
  from assms have a: "recording cs cur s" "unlimited s" "Suc (length cs) < 2 ^ 64"
    "1041 + length (om_bytes (cur @ [m])) \<le> quota (rec_disk s)"
    by (simp_all add: room_for_def)
  from DoWrite_recording [OF a] obtain s' cs' cur' where
    w: "DoWrite m s = Some (Inr (), s')" "recording cs' cur' s'" "unlimited s'"
      "rec_running s' = rec_running s" "options s' = options s" "quota (rec_disk s') = quota (rec_disk s)"
      "record_thread s' = record_thread s"
    and c: "cs' = cs \<and> cur' = cur @ [m] \<or> opt_split (options s) \<and> cs' = cs @ [(target_filename s, cur)] \<and> cur' = [m]"
    by blast
  from c have "extends_by cs cur s [m] cs' cur' s'" using w unfolding extends_by_def by auto
  with w(1) show ?thesis by blast
qed

lemma record_for_extends:
  assumes "room_for cs cur s ms"
  shows "\<exists>s' cs' cur'. record_for (map (Pair False) ms) s = Some (Inr ThreadWaiting, s') \<and>
    extends_by cs cur s ms cs' cur' s'"
  using assms
proof (induction ms arbitrary: cs cur s)
  case Nil
  then show ?case by (intro exI [of _ s] exI [of _ cs] exI [of _ cur]) (simp add: room_for_def extends_by_def)
next
  case (Cons m ms)
  then have "room_for cs cur s ([m] @ ms)" by simp
  note r = this room_for_prefix [OF this]
  from DoWrite_extends [OF r(2)] obtain s1 cs1 cur1 where
    w: "DoWrite m s = Some (Inr (), s1)" "extends_by cs cur s [m] cs1 cur1 s1" by blast
  from Cons.IH [OF room_for_rest [OF r(1) w(2)]] obtain s2 cs2 cur2 where
    i: "record_for (map (Pair False) ms) s1 = Some (Inr ThreadWaiting, s2)" "extends_by cs1 cur1 s1 ms cs2 cur2 s2"
    by blast
  have "record_for (map (Pair False) (m # ms)) s = Some (Inr ThreadWaiting, s2)"
    using Cons.prems w(1) i(1) by (simp add: room_for_def set_running_def)
  moreover have "extends_by cs cur s (m # ms) cs2 cur2 s2"
    using extends_by_trans [OF w(2) i(2)] by simp
  ultimately show ?case by blast
qed

definition batches :: "OutgoingMessage list list \<Rightarrow> (bool \<times> (bool \<times> OutgoingMessage) list) list" where
  "batches mss = map (\<lambda>ms. (False, map (Pair False) ms)) mss"

lemma record_while_extends:
  assumes "room_for cs cur s (concat mss)"
  shows "\<exists>s' cs' cur'. record_while (batches mss) s = Some (Inr ThreadWaiting, s') \<and>
    extends_by cs cur s (concat mss) cs' cur' s'"
  using assms
proof (induction mss arbitrary: cs cur s)
  case Nil
  then show ?case
    by (intro exI [of _ s] exI [of _ cs] exI [of _ cur]) (simp add: batches_def room_for_def extends_by_def)
next
  case (Cons ms mss)
  then have r: "room_for cs cur s (ms @ concat mss)" by simp
  from record_for_extends [OF room_for_prefix [OF r]] obtain s1 cs1 cur1 where
    w: "record_for (map (Pair False) ms) s = Some (Inr ThreadWaiting, s1)" "extends_by cs cur s ms cs1 cur1 s1"
    by blast
  from Cons.IH [OF room_for_rest [OF r w(2)]] obtain s2 cs2 cur2 where
    i: "record_while (batches mss) s1 = Some (Inr ThreadWaiting, s2)" "extends_by cs1 cur1 s1 (concat mss) cs2 cur2 s2"
    by blast
  have "record_while (batches (ms # mss)) s = Some (Inr ThreadWaiting, s2)"
    using r w(1) i(1) by (simp add: batches_def room_for_def set_running_def)
  moreover have "extends_by cs cur s (concat (ms # mss)) cs2 cur2 s2"
    using extends_by_trans [OF w(2) i(2)] by simp
  ultimately show ?case by blast
qed

text \<open>A recorder about to start its thread.\<close>

definition about_to_record :: "recorder \<Rightarrow> bool" where
  "about_to_record s \<longleftrightarrow> unlimited s \<and> rec_running s \<and> record_thread s \<and> rec_bag s = Bag_new \<and> split_count s = 0 \<and>
     current_files s = [] \<and> disk_usable (rec_disk s)"

lemma DoRecordSingleThread_start:
  assumes "about_to_record s" and "1041 + length (om_bytes (concat mss)) \<le> quota (rec_disk s)"
    and "Suc (length (concat mss)) < 2 ^ 64"
  shows "\<exists>s0 s' cs cur. DoRecordSingleThread (batches mss) s = Some (Inr ThreadWaiting, s') \<and>
    extends_by [] [] s0 (concat mss) cs cur s' \<and> options s0 = options s \<and> rec_running s0 \<and> record_thread s0"
proof -
  have "named (options s)" "\<not> is_open (filestream (rec_bag s))" "msg_count (rec_bag s) = 0" "disk_usable (rec_disk s)"
    using assms(1) by (simp_all add: about_to_record_def unlimited_def Bag_new_def Bag_Init_def fstream_default_def)
  from Recorder_StartWriting_fresh [OF this] obtain s1 where
    s1: "Recorder_StartWriting s = (Inr (), s1)" "session_frame s s1" "rec_running s1 = rec_running s" "open_file [] s1"
      "opt_split (options s) \<longrightarrow> split_name (unat (split_count s)) (target_filename s1)"
      "quota (rec_disk s1) = quota (rec_disk s)" by blast
  have u1: "unlimited s1" using unlimited_frame [OF s1(2)] assms(1) by (simp add: about_to_record_def)
  have f1: "options s1 = options s" "split_count s1 = 0" "record_thread s1" "rec_running s1" "current_files s1 = []"
    using s1(2,3) assms(1) by (simp_all add: session_frame_def about_to_record_def)
  have rec1: "recording [] [] s1"
    using s1(4,5) f1 assms(1) by (auto simp: recording_def closed_files_def closed_ok_def split_state_def about_to_record_def)
  let ?s2 = "s1\<lparr>clock_calls := clock_calls s1 + 1, warn_next := clock s1 (clock_calls s1)\<rparr>"
  have u2: "disk_fine ?s2" using u1 by (simp add: unlimited_def disk_fine_def)
  have b2: "bag_frame s1 ?s2" by (simp add: bag_frame_def)
  obtain s3 where s3: "CheckDisk ?s2 = (True, s3)" "bag_frame ?s2 s3"
    using CheckDisk_fine [OF u2] by blast
  let ?s4 = "s3\<lparr>clock_calls := clock_calls s3 + 1, check_disk_next := AddTime (clock s3 (clock_calls s3)) 2\<rparr>"
  have b4: "bag_frame s1 ?s4" using b2 s3(2) by (simp add: bag_frame_def)
  have r4: "room_for [] [] ?s4 (concat mss)"
    using bag_frame_keeps [OF b4] rec1 u1 b4 f1 s1(6) assms(2,3) by (simp add: room_for_def bag_frame_def)
  from record_while_extends [OF r4] obtain s' cs cur where
    w: "record_while (batches mss) ?s4 = Some (Inr ThreadWaiting, s')" "extends_by [] [] ?s4 (concat mss) cs cur s'"
    by blast
  have "DoRecordSingleThread (batches mss) s = Some (Inr ThreadWaiting, s')"
    using w(1) s3(1) by (simp add: DoRecordSingleThread_def s1(1) tick_eq Let_def)
  with w(2) b4 f1 show ?thesis unfolding bag_frame_def by metis
qed

section \<open>Ends of a recording\<close>

lemma length_om_bytes: "length ms \<le> length (om_bytes ms)"
  by (induction ms) (auto simp: om_bytes_def record_bytes_def)

lemma Recorder_Stop_recording:
  assumes "recording cs cur s" and "record_thread s" and "opt_split (options s) \<or> cs = []"
  shows "\<exists>s'. Recorder_Stop s = (Inr (), s') \<and> closed_ok (rec_disk s') (options s) cs \<and>
    finished_file (rec_disk s') (target_filename s) cur \<and> disk_usable (rec_disk s')"
proof -
  let ?s = "s\<lparr>rec_running := False, outmsg_queue := sq_set_stop (outmsg_queue s)\<rparr>"
  from assms(1) have r: "open_file cur s" "closed_ok (rec_disk s) (options s) cs" "split_state (length cs) s"
    by (simp_all add: recording_def closed_files_def)
  have o: "open_file cur ?s" using r unfolding open_file_def by auto
  from Recorder_StopWriting_open_file [OF o] obtain s' where
    s': "Recorder_StopWriting ?s = (Inr (), s')" "finished_file (rec_disk s') (target_filename s) cur"
      "disk_usable (rec_disk s')"
    and f: "\<forall>n. n \<noteq> target_filename s \<and> n \<noteq> write_filename s \<longrightarrow> files (rec_disk s') n = files (rec_disk s) n"
    by auto
  have "closed_ok (rec_disk s') (options s) cs"
  proof (cases "cs = []")
    case True
    then show ?thesis by (simp add: closed_ok_def)
  next
    case False
    have n: "split_name (length cs) (target_filename s)" "write_filename s = target_filename s @ ''.active''"
      using False assms(3) r by (auto simp: split_state_def open_file_def)
    from closed_ok_frame [OF r(2) n(2,1) f] show ?thesis .
  qed
  moreover have "Recorder_Stop s = (Inr (), s')" using assms(2) s'(1) by (simp add: Recorder_Stop_def Let_def)
  ultimately show ?thesis using s'(2,3) by blast
qed

lemma messages_fit:
  assumes "about_to_record s" and "1041 + length (om_bytes (concat mss)) \<le> quota (rec_disk s)"
  shows "Suc (length (concat mss)) < 2 ^ 64"
proof -
  have "quota (rec_disk s) < 2 ^ 63" using assms(1) by (simp add: about_to_record_def disk_usable_def)
  then show ?thesis using assms(2) length_om_bytes [of "concat mss"] by simp
qed

text \<open>The files that are left: those closed by splitting and the last one.\<close>

lemma files_left:
  assumes "closed_ok d p cs" and "finished_file d t cur" and "cs \<noteq> [] \<Longrightarrow> split_name (length cs) t"
  shows "distinct (map fst (cs @ [(t, cur)]))"
    and "k < length (cs @ [(t, cur)]) \<Longrightarrow>
      if 0 < max_splits p \<and> k + unat (max_splits p) + 1 < length (cs @ [(t, cur)])
      then files d (map fst (cs @ [(t, cur)]) ! k) = None
      else finished_file d (map fst (cs @ [(t, cur)]) ! k) (map snd (cs @ [(t, cur)]) ! k)"
proof -
  have "t \<notin> set (map fst cs)"
  proof
    assume "t \<in> set (map fst cs)"
    then obtain k where k: "k < length cs" "fst (cs ! k) = t" by (auto simp: in_set_conv_nth)
    then have "split_name (length cs) t" by (intro assms(3)) auto
    with closed_ok_names [OF assms(1) k(1)] k show False using split_name_unique by fastforce
  qed
  then show "distinct (map fst (cs @ [(t, cur)]))" using closed_ok_distinct [OF assms(1)] by simp
  assume "k < length (cs @ [(t, cur)])"
  then show "if 0 < max_splits p \<and> k + unat (max_splits p) + 1 < length (cs @ [(t, cur)])
      then files d (map fst (cs @ [(t, cur)]) ! k) = None
      else finished_file d (map fst (cs @ [(t, cur)]) ! k) (map snd (cs @ [(t, cur)]) ! k)"
    using assms(2) finished_or_gone [OF assms(1), of k d]
    by (cases "k = length cs") (simp_all add: nth_append discarded_def split: if_splits)
qed

text \<open>Without \<open>--split\<close> there is one file.\<close>

lemma recorded_file:
  assumes "about_to_record s" and "\<not> opt_split (options s)"
    and "1041 + length (om_bytes (concat mss)) \<le> quota (rec_disk s)"
  shows "\<exists>s1 s2. DoRecordSingleThread (batches mss) s = Some (Inr ThreadWaiting, s1) \<and>
    Recorder_Stop s1 = (Inr (), s2) \<and> finished_file (rec_disk s2) (target_filename s1) (concat mss) \<and>
    disk_usable (rec_disk s2)"
proof -
  from DoRecordSingleThread_start [OF assms(1,3) messages_fit [OF assms(1,3)]] obtain s0 s1 cs cur where
    run: "DoRecordSingleThread (batches mss) s = Some (Inr ThreadWaiting, s1)"
    and e: "extends_by [] [] s0 (concat mss) cs cur s1" and o: "options s0 = options s" "record_thread s0" by blast
  have r: "recording cs cur s1" "record_thread s1" "cs = []" "cur = concat mss"
    using e o assms(2) by (auto simp: extends_by_def)
  then have "opt_split (options s1) \<or> cs = []" by simp
  from Recorder_Stop_recording [OF r(1,2) this] r(4) run show ?thesis by blast
qed

section \<open>Properties\<close>

text \<open>
  C2. A recording without a duration limit, on a disk that is never full, keeps every message:
  when the thread has taken the messages of the queue, in any batches, and the recorder is stopped,
  the messages lie, in their order and each in one piece, in a sequence of finished bag files with
  different names, each with a header that counts its messages. Without \<open>--split\<close> it is one file;
  with it a file is closed when it passes the size. With \<open>--max-splits N\<close> the last \<open>N + 1\<close>
  files are there and the earlier ones are deleted.
\<close>

theorem recording_keeps_every_message:
  assumes "about_to_record s" and "1041 + length (om_bytes (concat mss)) \<le> quota (rec_disk s)"
  shows "\<exists>s1 s2 names chunks. DoRecordSingleThread (batches mss) s = Some (Inr ThreadWaiting, s1) \<and>
    Recorder_Stop s1 = (Inr (), s2) \<and> concat chunks = concat mss \<and> length names = length chunks \<and>
    distinct names \<and> (\<not> opt_split (options s) \<longrightarrow> length chunks = 1) \<and>
    (\<forall>k < length chunks.
       if 0 < max_splits (options s) \<and> k + unat (max_splits (options s)) + 1 < length chunks
       then files (rec_disk s2) (names ! k) = None
       else finished_file (rec_disk s2) (names ! k) (chunks ! k))"
proof -
  from DoRecordSingleThread_start [OF assms messages_fit [OF assms]] obtain s0 s1 cs cur where
    run: "DoRecordSingleThread (batches mss) s = Some (Inr ThreadWaiting, s1)"
    and e: "extends_by [] [] s0 (concat mss) cs cur s1" and o: "options s0 = options s" "record_thread s0" by blast
  let ?cs = "cs @ [(target_filename s1, cur)]"
  have r: "recording cs cur s1" "record_thread s1" "options s1 = options s" "concat (map snd cs) @ cur = concat mss"
    "\<not> opt_split (options s) \<longrightarrow> cs = []"
    using e o by (simp_all add: extends_by_def)
  then have "opt_split (options s1) \<or> cs = []" by auto
  from Recorder_Stop_recording [OF r(1,2) this] obtain s2 where
    s2: "Recorder_Stop s1 = (Inr (), s2)" "closed_ok (rec_disk s2) (options s) cs"
      "finished_file (rec_disk s2) (target_filename s1) cur"
    unfolding r(3) by blast
  have "cs \<noteq> [] \<Longrightarrow> split_name (length cs) (target_filename s1)"
    using r(1,3,5) by (auto simp: recording_def split_state_def)
  note left = files_left [OF s2(2,3) this]
  have fin: "\<forall>k < length (map snd ?cs). if 0 < max_splits (options s) \<and> k + unat (max_splits (options s)) + 1 < length (map snd ?cs)
      then files (rec_disk s2) (map fst ?cs ! k) = None
      else finished_file (rec_disk s2) (map fst ?cs ! k) (map snd ?cs ! k)"
    using left(2) by (simp only: length_map) blast
  have all: "concat (map snd ?cs) = concat mss" "length (map fst ?cs) = length (map snd ?cs)"
    "\<not> opt_split (options s) \<longrightarrow> length (map snd ?cs) = 1"
    using r(4,5) by simp_all
  show ?thesis
    by (rule exI [of _ s1], rule exI [of _ s2], rule exI [of _ "map fst ?cs"], rule exI [of _ "map snd ?cs"])
      (intro conjI run s2(1) all left(1) fin)
qed

definition demo_options :: RecorderOptions where
  "demo_options = RecorderOptions_default\<lparr>append_date := False, opt_prefix := ''x.bag''\<rparr>"

definition demo_recorder :: recorder where
  "demo_recorder = (Recorder_new demo_options \<lparr>files = Map.empty, creatable = (\<lambda>_. True), quota = 5000\<rparr>
     (\<lambda>_. Timestamp 7) (\<lambda>_. None) (\<lambda>_. \<lparr>tm_year = 0, tm_mon = 0, tm_mday = 0, tm_hour = 0, tm_min = 0, tm_sec = 0\<rparr>))
     \<lparr>rec_running := True, record_thread := True\<rparr>"

definition demo_message :: OutgoingMessage where
  "demo_message = \<lparr>om_time = Timestamp 9, om_topic = ''/t'', om_msg = ''abc''\<rparr>"

lemma strip_demo: "strip_bag ''x.bag'' = ''x''"
  by (simp add: strip_bag_def)

lemma demo_about_to_record: "about_to_record demo_recorder"
  by (simp add: about_to_record_def demo_recorder_def demo_options_def Recorder_new_def unlimited_def disk_fine_def named_def
      strip_demo disk_usable_def RecorderOptions_default_def)

theorem recording_keeps_every_message_witness:
  "\<exists>s1 s2 name. DoRecordSingleThread (batches [[demo_message, demo_message], [], [demo_message]]) demo_recorder =
       Some (Inr ThreadWaiting, s1) \<and> Recorder_Stop s1 = (Inr (), s2) \<and>
     finished_file (rec_disk s2) name [demo_message, demo_message, demo_message]"
proof -
  let ?mss = "[[demo_message, demo_message], [], [demo_message]]"
  have q: "1041 + length (om_bytes (concat ?mss)) \<le> quota (rec_disk demo_recorder)"
    by (simp add: om_bytes_def record_bytes_def om_record_def demo_message_def demo_recorder_def Recorder_new_def)
  have o: "\<not> opt_split (options demo_recorder)" "max_splits (options demo_recorder) = 0"
    by (simp_all add: demo_recorder_def demo_options_def Recorder_new_def RecorderOptions_default_def)
  from recording_keeps_every_message [OF demo_about_to_record q] o obtain s1 s2 names chunks where
    r: "DoRecordSingleThread (batches ?mss) demo_recorder = Some (Inr ThreadWaiting, s1)" "Recorder_Stop s1 = (Inr (), s2)"
      "concat chunks = concat ?mss" "\<forall>k < length chunks. finished_file (rec_disk s2) (names ! k) (chunks ! k)"
      "length chunks = 1" by (auto simp only: word_less_nat_alt unat_0 simp_thms if_False less_irrefl)
  from r(5) obtain c where "chunks = [c]" by (auto simp: length_Suc_conv)
  with r show ?thesis by auto
qed

end
