(* ===== verification/RecordLimits.thy ===== *)
theory RecordLimits
  imports Recording
begin

text \<open>
  The limits of a recording: the duration that splits the file, the size that ends the recording,
  and the free space of the disk that suspends it.
\<close>

section \<open>A full disk\<close>

text \<open>Writing is off, and every answer about the disk is below the level that turns it on again.\<close>

definition suspended :: "recorder \<Rightarrow> bool" where
  "suspended s \<longleftrightarrow> \<not> writing_enabled s \<and> opt_max_size (options s) = 0 \<and> max_duration (options s) \<le> 0 \<and>
     (\<forall>n a b. statvfs s n = Some (a, b) \<longrightarrow> a * b < 5 * min_space (options s))"

lemma CheckDisk_suspended:
  assumes "suspended s"
  shows "\<exists>ok s'. CheckDisk s = (ok, s') \<and> suspended s' \<and> rec_bag s' = rec_bag s \<and> rec_disk s' = rec_disk s \<and>
    rec_running s' = rec_running s"
proof (cases "statvfs s (statvfs_calls s)")
  case None
  with assms show ?thesis by (auto simp: CheckDisk_def suspended_def)
next
  case (Some x)
  obtain a b where x: "x = (a, b)" by (cases x)
  with Some assms have "a * b < 5 * min_space (options s)" by (simp add: suspended_def)
  with Some x assms show ?thesis by (auto simp: CheckDisk_def suspended_def Let_def)
qed

lemma ScheduledCheckDisk_suspended:
  assumes "suspended s"
  shows "\<exists>ok s'. ScheduledCheckDisk s = (ok, s') \<and> suspended s' \<and> rec_bag s' = rec_bag s \<and>
    rec_disk s' = rec_disk s \<and> rec_running s' = rec_running s"
proof (cases "ts_less (clock s (clock_calls s)) (check_disk_next s)")
  case True
  with assms show ?thesis by (auto simp: ScheduledCheckDisk_def tick_eq suspended_def)
next
  case False
  let ?s = "s\<lparr>clock_calls := clock_calls s + 1, check_disk_next := AddTime (check_disk_next s) 2\<rparr>"
  have "suspended ?s" using assms by (simp add: suspended_def)
  from CheckDisk_suspended [OF this] False show ?thesis
    by (simp add: ScheduledCheckDisk_def tick_eq)
qed

lemma DoWrite_suspended:
  assumes "suspended s"
  shows "\<exists>s'. DoWrite m s = Some (Inr (), s') \<and> suspended s' \<and> rec_bag s' = rec_bag s \<and>
    rec_disk s' = rec_disk s \<and> rec_running s' = rec_running s"
proof -
  obtain ok s1 where s1: "ScheduledCheckDisk s = (ok, s1)" "suspended s1" "rec_bag s1 = rec_bag s"
    "rec_disk s1 = rec_disk s" "rec_running s1 = rec_running s"
    using ScheduledCheckDisk_suspended [OF assms] by blast
  obtain s2 where l: "CheckLogging s1 = (False, s2)" "suspended s2" "rec_bag s2 = rec_bag s1"
    "rec_disk s2 = rec_disk s1" "rec_running s2 = rec_running s1"
    using s1(2) by (simp add: CheckLogging_def tick_eq suspended_def)
  have "DoWrite m s = Some (write_if_logging m s)"
    using assms by (simp add: DoWrite_def CheckSize_def CheckDuration_def suspended_def set_running_def)
  moreover have "write_if_logging m s = (Inr (), if ok then s2 else s1)"
    using l(1) by (cases ok) (simp_all add: write_if_logging_def s1(1))
  ultimately show ?thesis using s1 l by (cases ok) auto
qed

section \<open>The size limit\<close>

lemma DoWrite_at_limit:
  assumes "open_file cur s" and "disk_fine s" and "\<not> opt_split (options s)"
    and "0 < opt_max_size (options s)" and "opt_max_size (options s) < word_of_int (GetSize (rec_bag s))"
    and "max_duration (options s) \<le> 0"
    and "1041 + length (om_bytes (cur @ [m])) \<le> quota (rec_disk s)"
  shows "\<exists>s'. DoWrite m s = Some (Inr (), s') \<and> open_file (cur @ [m]) s' \<and> \<not> rec_running s' \<and>
    rec_disk s' = rec_disk s \<and> target_filename s' = target_filename s"
proof -
  let ?s = "s\<lparr>rec_running := False\<rparr>"
  have o: "open_file cur ?s" "disk_fine ?s" "1041 + length (om_bytes (cur @ [m])) \<le> quota (rec_disk ?s)"
    using assms(1,2,7) unfolding open_file_def disk_fine_def by auto
  from write_if_logging_open_file [OF o] obtain s' where
    s': "write_if_logging m ?s = (Inr (), s')" "open_file (cur @ [m]) s'" "bag_frame ?s (s'\<lparr>rec_bag := rec_bag ?s\<rparr>)"
    by blast
  have "DoWrite m s = Some (Inr (), s')"
    using assms(3-6) s'(1) by (simp add: DoWrite_def CheckSize_def CheckDuration_def set_running_def)
  with s' show ?thesis by (auto simp: bag_frame_def)
qed

section \<open>Properties\<close>


definition split_options :: "double \<Rightarrow> RecorderOptions" where
  "split_options d = demo_options\<lparr>opt_split := True, max_duration := d\<rparr>"


text \<open>
  The size limit without \<open>--split\<close>: the message that finds the file too large is still
  written, the next one ends the thread, and the bag is left as it is: not closed, its header not
  rewritten and its name still the one of an active file.
\<close>

theorem size_limit_leaves_bag_open:
  assumes "open_file cur s" and "disk_fine s" and "rec_running s" and "\<not> opt_split (options s)"
    and "0 < opt_max_size (options s)" and "opt_max_size (options s) < word_of_int (GetSize (rec_bag s))"
    and "max_duration (options s) \<le> 0"
    and "1041 + length (om_bytes (cur @ [m])) \<le> quota (rec_disk s)"
  shows "\<exists>s'. record_for (map (Pair False) (m # m' # ms)) s = Some (Inr ThreadReturned, s') \<and>
    open_file (cur @ [m]) s' \<and> is_open (filestream (rec_bag s')) \<and> rec_disk s' = rec_disk s \<and>
    write_filename s' = target_filename s @ ''.active''"
proof -
  from DoWrite_at_limit [OF assms(1,2,4-8)] obtain s' where
    s': "DoWrite m s = Some (Inr (), s')" "open_file (cur @ [m]) s'" "\<not> rec_running s'" "rec_disk s' = rec_disk s"
      "target_filename s' = target_filename s" by blast
  have "record_for (map (Pair False) (m # m' # ms)) s = Some (Inr ThreadReturned, s')"
    using assms(3) s'(1,3) by (simp add: set_running_def)
  moreover have "is_open (filestream (rec_bag s'))"
    using s'(2) by (auto simp: open_file_def writable_bag_def bag_ready_def fs_ready_def)
  moreover have "write_filename s' = target_filename s @ ''.active''" using s'(2,5) by (simp add: open_file_def)
  ultimately show ?thesis using s' by blast
qed

definition limit_recorder :: recorder where
  "limit_recorder = demo_recorder\<lparr>options := demo_options\<lparr>opt_max_size := 1\<rparr>\<rparr>"

theorem size_limit_leaves_bag_open_witness:
  "\<exists>s s'. Recorder_StartWriting limit_recorder = (Inr (), s) \<and>
     record_for (map (Pair False) [demo_message, demo_message, demo_message]) s = Some (Inr ThreadReturned, s') \<and>
     open_file [demo_message] s' \<and> is_open (filestream (rec_bag s'))"
proof -
  have f: "named (options limit_recorder)" "\<not> is_open (filestream (rec_bag limit_recorder))"
    "msg_count (rec_bag limit_recorder) = 0" "disk_usable (rec_disk limit_recorder)"
    by (simp_all add: limit_recorder_def demo_recorder_def Recorder_new_def Bag_new_def Bag_Init_def
        fstream_default_def disk_usable_def named_def demo_options_def strip_demo)
  from Recorder_StartWriting_fresh [OF this] obtain s where
    s: "Recorder_StartWriting limit_recorder = (Inr (), s)" "session_frame limit_recorder s"
      "rec_running s = rec_running limit_recorder" "open_file [] s"
      "quota (rec_disk s) = quota (rec_disk limit_recorder)" by blast
  from s(4) obtain now where w: "writable_bag now (write_filename s) (rec_bag s)"
    and d: "drop 1041 (bag_data (rec_bag s)) = []" by (auto simp: open_file_def)
  then have "length (bag_data (rec_bag s)) = 1041" by (simp add: writable_bag_def)
  then have size: "GetSize (rec_bag s) = 1041"
    using w by (simp add: writable_bag_def bag_ready_def GetSize_def)
  have o: "options s = demo_options\<lparr>opt_max_size := 1\<rparr>" using s(2) by (simp add: session_frame_def limit_recorder_def)
  have fine: "disk_fine s" using s(2)
    by (simp add: session_frame_def disk_fine_def limit_recorder_def demo_recorder_def Recorder_new_def)
  have hyps: "rec_running s" "\<not> opt_split (options s)" "0 < opt_max_size (options s)"
    "opt_max_size (options s) < word_of_int (GetSize (rec_bag s))" "max_duration (options s) \<le> 0"
    "1041 + length (om_bytes ([] @ [demo_message])) \<le> quota (rec_disk s)"
    using s(3,5) by (simp_all add: o size limit_recorder_def demo_recorder_def Recorder_new_def demo_options_def
        RecorderOptions_default_def om_bytes_def record_bytes_def om_record_def demo_message_def)
  from size_limit_leaves_bag_open [OF s(4) fine hyps, of demo_message "[demo_message]"] s(1) show ?thesis by auto
qed

text \<open>
  A recorder that a full disk has suspended stays suspended until a check finds at least five
  times the minimum free: as long as every answer is below that, no message is written, the bag and
  the disk do not change, and the thread goes on taking messages without an error.
\<close>

theorem full_disk_drops_messages:
  assumes "suspended s" and "rec_running s"
  shows "\<exists>s'. record_for (map (Pair False) ms) s = Some (Inr ThreadWaiting, s') \<and>
    rec_bag s' = rec_bag s \<and> rec_disk s' = rec_disk s \<and> \<not> writing_enabled s'"
  using assms
proof (induction ms arbitrary: s)
  case Nil
  then show ?case by (simp add: suspended_def)
next
  case (Cons m ms)
  obtain s1 where s1: "DoWrite m s = Some (Inr (), s1)" "suspended s1" "rec_bag s1 = rec_bag s"
    "rec_disk s1 = rec_disk s" "rec_running s1 = rec_running s"
    using DoWrite_suspended [OF Cons.prems(1)] by blast
  with Cons.IH [OF s1(2)] Cons.prems(2) show ?case by (auto simp: set_running_def)
qed

definition full_recorder :: recorder where
  "full_recorder = demo_recorder\<lparr>writing_enabled := False, statvfs := (\<lambda>_. Some (4096, 1000))\<rparr>"

theorem full_disk_drops_messages_witness:
  "\<exists>s'. record_for (map (Pair False) [demo_message, demo_message]) full_recorder = Some (Inr ThreadWaiting, s') \<and>
     rec_bag s' = rec_bag full_recorder"
proof -
  have "suspended full_recorder" "rec_running full_recorder"
    by (simp_all add: suspended_def full_recorder_def demo_recorder_def Recorder_new_def demo_options_def
        RecorderOptions_default_def)
  from full_disk_drops_messages [OF this, of "[demo_message, demo_message]"] show ?thesis by blast
qed

end
