(* ===== verification/Subscribing.thy ===== *)
theory Subscribing
  imports Recorder
begin

text \<open>
  How \<open>Recorder::Run\<close> spreads the topics over the subscribers: at most four of them, served in turn,
  topics without a handler skipped.
\<close>

section \<open>Taking turns\<close>

fun turns :: "nat \<Rightarrow> nat \<Rightarrow> nat \<Rightarrow> 'a list \<Rightarrow> 'a list" where
  "turns n k i [] = []"
| "turns n k i (x # xs) = (if k mod n = i then x # turns n (Suc k) i xs else turns n (Suc k) i xs)"

lemma turns_mod: "k mod n = k' mod n \<Longrightarrow> turns n k i xs = turns n k' i xs"
proof (induction xs arbitrary: k k')
  case Nil
  then show ?case by simp
next
  case (Cons x xs)
  have "Suc k mod n = Suc (k mod n) mod n" by (simp add: mod_Suc_eq)
  also have "\<dots> = Suc k' mod n" by (simp add: Cons.prems mod_Suc_eq)
  finally show ?case using Cons.IH [of "Suc k" "Suc k'"] Cons.prems by simp
qed

lemma turns_nth: "turns n k i xs = map (\<lambda>j. xs ! (j - k)) (filter (\<lambda>j. j mod n = i) [k..<k + length xs])"
proof (induction xs arbitrary: k)
  case Nil
  then show ?case by simp
next
  case (Cons x xs)
  have e1: "[k..<k + length (x # xs)] = k # [Suc k..<Suc k + length xs]"
    by (subst upt_rec) simp
  have e2: "map (\<lambda>j. (x # xs) ! (j - k)) (filter P [Suc k..<m]) = map (\<lambda>j. xs ! (j - Suc k)) (filter P [Suc k..<m])"
    for P m
  proof (rule map_cong)
    fix j assume "j \<in> set (filter P [Suc k..<m])"
    then have "j - k = Suc (j - Suc k)" by auto
    then show "(x # xs) ! (j - k) = xs ! (j - Suc k)" by simp
  qed simp
  show ?case unfolding e1 by (simp add: Cons.IH e2 del: upt_Suc)
qed

lemma turns_count:
  assumes "i < n"
  shows "length (filter (\<lambda>j. j mod n = i) [0..<m]) = m div n + (if i < m mod n then 1 else 0)"
proof (induction m)
  case 0
  then show ?case by simp
next
  case (Suc m)
  have "n \<noteq> 0" using assms by simp
  with Suc assms show ?case by (auto simp: mod_Suc div_Suc)
qed

definition handled :: "handler_map \<Rightarrow> string list \<Rightarrow> (string \<times> handler) list" where
  "handled hm ts = List.map_filter (\<lambda>t. map_option (Pair t) (map_of hm t)) ts"

lemma handled_simps [simp]:
  "handled hm [] = []"
  "handled hm (t # ts) = (case map_of hm t of None \<Rightarrow> handled hm ts | Some h \<Rightarrow> (t, h) # handled hm ts)"
  by (simp_all add: handled_def map_filter_simps split: option.split)

text \<open>With a subscriber there, the loop never leaves the vector.\<close>

lemma subscribe_topics_turns:
  assumes "subscribers s \<noteq> []" and "index \<le> length (subscribers s)"
  shows "\<exists>s'. subscribe_topics hm ts index s = (Inr (), s') \<and> length (subscribers s') = length (subscribers s) \<and>
    (\<forall>i < length (subscribers s). subscriptions (subscribers s' ! i) =
       subscriptions (subscribers s ! i) @ turns (length (subscribers s)) index i (handled hm ts)) \<and>
    currently_recording s' = currently_recording s \<union> fst ` set (handled hm ts) \<and>
    rec_running s' = rec_running s \<and> record_thread s' = record_thread s \<and> options s' = options s \<and>
    start_time s' = start_time s \<and> rec_bag s' = rec_bag s \<and> rec_disk s' = rec_disk s"
  using assms
proof (induction ts arbitrary: index s)
  case Nil
  then show ?case by simp
next
  case (Cons t ts)
  let ?n = "length (subscribers s)"
  show ?case
  proof (cases "map_of hm t")
    case None
    with Cons show ?thesis by simp
  next
    case (Some h)
    define i where "i = (if ?n \<le> index then 0 else index)"
    have i: "i < ?n" "i mod ?n = index mod ?n"
      using Cons.prems by (auto simp: i_def)
    define s1 where "s1 = s\<lparr>subscribers := (subscribers s)[i := subscribe t h (subscribers s ! i)],
        currently_recording := insert t (currently_recording s)\<rparr>"
    have step: "subscribe_topics hm (t # ts) index s = subscribe_topics hm ts (Suc i) s1"
      using Some i by (simp add: i_def s1_def Let_def)
    have s1: "subscribers s1 \<noteq> []" "Suc i \<le> length (subscribers s1)" "length (subscribers s1) = ?n"
      using i(1) Cons.prems(1) by (simp_all add: s1_def)
    have nxt: "turns ?n (Suc i) j (handled hm ts) = turns ?n (Suc index) j (handled hm ts)" for j
      by (intro turns_mod) (simp only: mod_Suc_eq [of i, symmetric] i(2) mod_Suc_eq)
    have sub1: "subscriptions (subscribers s1 ! j) =
        subscriptions (subscribers s ! j) @ (if index mod ?n = j then [(t, h)] else [])" if "j < ?n" for j
      using that i by (auto simp: s1_def nth_list_update subscribe_def)
    have oth: "rec_running s1 = rec_running s" "record_thread s1 = record_thread s" "options s1 = options s"
      "start_time s1 = start_time s" "rec_bag s1 = rec_bag s" "rec_disk s1 = rec_disk s"
      "currently_recording s1 = insert t (currently_recording s)" by (simp_all add: s1_def)
    from Cons.IH [OF s1(1,2)] obtain s' where
      s': "subscribe_topics hm ts (Suc i) s1 = (Inr (), s')" "length (subscribers s') = ?n"
        "\<forall>j < ?n. subscriptions (subscribers s' ! j) =
           subscriptions (subscribers s1 ! j) @ turns ?n (Suc i) j (handled hm ts)"
        "currently_recording s' = currently_recording s1 \<union> fst ` set (handled hm ts)"
        "rec_running s' = rec_running s1" "record_thread s' = record_thread s1" "options s' = options s1"
        "start_time s' = start_time s1" "rec_bag s' = rec_bag s1" "rec_disk s' = rec_disk s1"
      unfolding s1(3) by blast
    have "\<forall>j < ?n. subscriptions (subscribers s' ! j) =
        subscriptions (subscribers s ! j) @ turns ?n index j (handled hm (t # ts))"
      using s'(3) sub1 nxt Some by simp
    with step s' oth Some show ?thesis by auto
  qed
qed

text \<open>\<open>Run\<close> up to the subscriptions: every subscriber is fresh.\<close>

lemma Run_starts:
  assumes "\<not> trigger (options s)" and "subscribers s = []"
    and "ts = topics (options s) @ (if record_all (options s) then map fst (InitRecorderHandlerMap []) else [])"
    and "ts \<noteq> []"
  shows "\<exists>s1. Run ip port buffer s = subscribe_topics (InitRecorderHandlerMap []) ts 0 s1 \<and>
    length (subscribers s1) = min 4 (length ts) \<and>
    (\<forall>i < min 4 (length ts). subscriptions (subscribers s1 ! i) = []) \<and>
    rec_running s1 \<and> record_thread s1 \<and> rec_bag s1 = rec_bag s \<and> rec_disk s1 = rec_disk s \<and>
    currently_recording s1 = currently_recording s"
proof -
  let ?hm = "InitRecorderHandlerMap []"
  let ?n = "min 4 (length ts)"
  let ?sub = "\<lparr>sub_ip = ip, sub_port = port, sub_buffer = buffer, subscriptions = []\<rparr>"
  define s0 where "s0 = (if record_all (options s) then InitRecordedTopics ?hm s else s)"
  have o0: "topics (options s0) = ts" "\<not> trigger (options s0)" "subscribers s0 = []" "rec_bag s0 = rec_bag s"
    "rec_disk s0 = rec_disk s" "currently_recording s0 = currently_recording s"
    using assms(1-3) by (simp_all add: s0_def InitRecordedTopics_def)
  define s1 where "s1 = s0\<lparr>num_subscribers := (if 4 \<le> length ts then 4 else int (length ts)),
    subscribers := replicate ?n ?sub, last_buffer_warn := clock s0 (clock_calls s0), rec_running := True,
    clock_calls := Suc (Suc (clock_calls s0)), start_time := clock s0 (Suc (clock_calls s0)), record_thread := True\<rparr>"
  have n: "nat (if 4 \<le> length ts then 4 else int (length ts)) = ?n" by (simp add: min_def)
  have "Run ip port buffer s = DoSubscribe ?hm
      (let s = InitSubscribers ip port buffer s0; (now, s) = tick s;
           s = s\<lparr>last_buffer_warn := now, rec_running := True\<rparr>; (now, s) = tick s
       in s\<lparr>start_time := now, record_thread := True\<rparr>)"
    unfolding Run_def s0_def [symmetric] Let_def using o0 assms(4) by (simp add: tick_def)
  also have "\<dots> = DoSubscribe ?hm s1"
    by (simp add: InitSubscribers_def tick_def s1_def Let_def n o0)
  also have "\<dots> = subscribe_topics ?hm ts 0 s1" using o0(1) by (simp add: DoSubscribe_def s1_def)
  finally show ?thesis using o0 by (intro exI [of _ s1]) (simp add: s1_def)
qed

section \<open>Properties\<close>

text \<open>
  C25. A recorder that has topics starts: it gets as many subscribers as topics, four at most, and
  the topics that have a handler go to them in turn, topic number \<open>j\<close> to subscriber
  \<open>j mod n\<close>, so that the numbers of topics of two subscribers differ by one at most and the index
  never leaves the vector. The thread is started with the state the recording begins in.
\<close>

theorem run_subscribes_in_turn:
  assumes "\<not> trigger (options s)" and "subscribers s = []"
    and "ts = topics (options s) @ (if record_all (options s) then map fst (InitRecorderHandlerMap []) else [])"
    and "ts \<noteq> []"
  shows "let hs = handled (InitRecorderHandlerMap []) ts; n = min 4 (length ts)
    in \<exists>s'. Run ip port buffer s = (Inr (), s') \<and> length (subscribers s') = n \<and>
      (\<forall>i < n. subscriptions (subscribers s' ! i) = map (\<lambda>j. hs ! j) (filter (\<lambda>j. j mod n = i) [0..<length hs])) \<and>
      (\<forall>i < n. \<forall>k < n. length (subscriptions (subscribers s' ! i)) \<le> Suc (length (subscriptions (subscribers s' ! k)))) \<and>
      currently_recording s' = currently_recording s \<union> fst ` set hs \<and>
      rec_running s' \<and> record_thread s' \<and> rec_bag s' = rec_bag s \<and> rec_disk s' = rec_disk s"
proof -
  let ?hm = "InitRecorderHandlerMap []"
  let ?hs = "handled ?hm ts"
  let ?n = "min 4 (length ts)"
  from Run_starts [OF assms] obtain s1 where
    s1: "Run ip port buffer s = subscribe_topics ?hm ts 0 s1" "length (subscribers s1) = ?n"
      "\<forall>i < ?n. subscriptions (subscribers s1 ! i) = []" "rec_running s1" "record_thread s1"
      "rec_bag s1 = rec_bag s" "rec_disk s1 = rec_disk s" "currently_recording s1 = currently_recording s" by blast
  have "subscribers s1 \<noteq> []" using assms(4) s1(2) by (cases ts) auto
  from subscribe_topics_turns [OF this, of 0 ?hm ts] obtain s' where
    s': "subscribe_topics ?hm ts 0 s1 = (Inr (), s')" "length (subscribers s') = ?n"
      "\<forall>i < ?n. subscriptions (subscribers s' ! i) = subscriptions (subscribers s1 ! i) @ turns ?n 0 i ?hs"
      "currently_recording s' = currently_recording s1 \<union> fst ` set ?hs"
      "rec_running s' = rec_running s1" "record_thread s' = record_thread s1"
      "rec_bag s' = rec_bag s1" "rec_disk s' = rec_disk s1"
    unfolding s1(2) by auto
  have subs: "\<forall>i < ?n. subscriptions (subscribers s' ! i) =
      map (\<lambda>j. ?hs ! j) (filter (\<lambda>j. j mod ?n = i) [0..<length ?hs])"
    using s'(3) s1(3) by (simp add: turns_nth)
  then have "\<forall>i < ?n. length (subscriptions (subscribers s' ! i)) =
      length ?hs div ?n + (if i < length ?hs mod ?n then 1 else 0)"
    using turns_count [of _ ?n "length ?hs"] by simp
  then have bal: "\<forall>i < ?n. \<forall>k < ?n. length (subscriptions (subscribers s' ! i)) \<le>
      Suc (length (subscriptions (subscribers s' ! k)))" by simp
  have "Run ip port buffer s = (Inr (), s')" using s1(1) s'(1) by simp
  moreover have "currently_recording s' = currently_recording s \<union> fst ` set ?hs" "rec_running s'" "record_thread s'"
    "rec_bag s' = rec_bag s" "rec_disk s' = rec_disk s" using s'(4-8) s1(4-8) by simp_all
  ultimately show ?thesis using s'(2) subs bal unfolding Let_def by blast
qed

definition fisheye_options :: RecorderOptions where
  "fisheye_options = RecorderOptions_default\<lparr>topics := [''topic_fisheye_pose'', ''topic_fisheye_pose'']\<rparr>"

definition fisheye_recorder :: recorder where
  "fisheye_recorder = Recorder_new fisheye_options \<lparr>files = Map.empty, creatable = (\<lambda>_. True), quota = 5000\<rparr>
     (\<lambda>_. Timestamp 7) (\<lambda>_. None) (\<lambda>_. \<lparr>tm_year = 0, tm_mon = 0, tm_mday = 0, tm_hour = 0, tm_min = 0, tm_sec = 0\<rparr>)"

theorem run_subscribes_in_turn_witness:
  "\<exists>s'. Run ''127.0.0.1'' 10086 10240 fisheye_recorder = (Inr (), s') \<and> length (subscribers s') = 2 \<and>
     map fst (subscriptions (subscribers s' ! 0)) = [''topic_fisheye_pose''] \<and>
     map fst (subscriptions (subscribers s' ! 1)) = [''topic_fisheye_pose'']"
proof -
  let ?ts = "[''topic_fisheye_pose'', ''topic_fisheye_pose'']"
  let ?h = "(''topic_fisheye_pose'', MsgHandler ''pb::fisheye_msgs::PoseMessage'' ''topic_fisheye_pose'')"
  have h: "handled (InitRecorderHandlerMap []) ?ts = [?h, ?h]" by (simp only: handled_simps first_recorder_handler option.case)
  have s: "\<not> trigger (options fisheye_recorder)" "subscribers fisheye_recorder = []"
    "topics (options fisheye_recorder) = ?ts" "\<not> record_all (options fisheye_recorder)"
    by (simp_all add: fisheye_recorder_def fisheye_options_def Recorder_new_def RecorderOptions_default_def)
  have t: "?ts = topics (options fisheye_recorder) @
      (if record_all (options fisheye_recorder) then map fst (InitRecorderHandlerMap []) else [])"
    by (simp only: s if_False append_Nil2)
  have idx: "filter (\<lambda>j. j mod 2 = 0) [0..<2] = [0::nat]" "filter (\<lambda>j. j mod 2 = 1) [0..<2] = [1::nat]"
    by (simp_all add: upt_rec)
  have len: "length [?h, ?h] = 2" "min 4 (length ?ts) = 2" by simp_all
  have "\<exists>s'. Run ''127.0.0.1'' 10086 10240 fisheye_recorder = (Inr (), s') \<and> length (subscribers s') = 2 \<and>
      (\<forall>i < 2. subscriptions (subscribers s' ! i) = map (\<lambda>j. [?h, ?h] ! j) (filter (\<lambda>j. j mod 2 = i) [0..<2]))"
    using run_subscribes_in_turn [OF s(1,2) t, of "''127.0.0.1''" 10086 10240]
    unfolding Let_def h len by blast
  then obtain s' where r: "Run ''127.0.0.1'' 10086 10240 fisheye_recorder = (Inr (), s')" "length (subscribers s') = 2"
    and q: "\<forall>i < 2. subscriptions (subscribers s' ! i) = map (\<lambda>j. [?h, ?h] ! j) (filter (\<lambda>j. j mod 2 = i) [0..<2])"
    by blast
  have "subscriptions (subscribers s' ! 0) = [?h]" "subscriptions (subscribers s' ! 1) = [?h]"
    using q [rule_format, of 0] q [rule_format, of 1] unfolding idx by simp_all
  with r show ?thesis by auto
qed

end
