(* ===== verification/View.thy ===== *)
theory View
  imports Bag
begin

text \<open>
  \<open>src/storage/query.h\<close>, \<open>query.cpp\<close>, \<open>view.h\<close>, \<open>view.cpp\<close>: the selection of
  records to play. A query is a predicate on the topic with a time range, which nothing reads; a view
  gathers the records of any number of bags whose topics the queries accept in one multimap. A \<open>const Bag *\<close> is the bag at the time
  of the call: the view reads its records there and never again.
\<close>

section \<open>Queries\<close>

type_synonym QueryFunc = "string \<Rightarrow> bool"

record query =
  query_func :: QueryFunc
  query_start :: timestamp
  query_end :: timestamp

definition Query :: "QueryFunc \<Rightarrow> timestamp \<Rightarrow> timestamp \<Rightarrow> query" where
  "Query f start_time end_time = \<lparr>query_func = f, query_start = start_time, query_end = end_time\<rparr>"

definition GetQuery :: "query \<Rightarrow> QueryFunc" where "GetQuery q = query_func q"
definition GetStartTime :: "query \<Rightarrow> timestamp" where "GetStartTime q = query_start q"
definition GetEndTime_query :: "query \<Rightarrow> timestamp" where "GetEndTime_query q = query_end q"

text \<open>The function object \<open>TopicQuery\<close>: the list of topics, and its call operator as a loop.\<close>

fun TopicQuery :: "string list \<Rightarrow> QueryFunc" where
  "TopicQuery [] t = False"
| "TopicQuery (it # topics) t = (if t = it then True else TopicQuery topics t)"

definition TrueQuery :: QueryFunc where "TrueQuery t = True"

record bag_query =
  bq_bag :: bag
  bq_query :: query
  bag_revision :: "32 word"

definition BagQuery :: "bag \<Rightarrow> query \<Rightarrow> 32 word \<Rightarrow> bag_query" where
  "BagQuery b q r = \<lparr>bq_bag = b, bq_query = q, bag_revision = r\<rparr>"

section \<open>Views\<close>

record view =
  filtering_records :: bag_records
  bag_querys :: "bag_query list"

definition View_new :: view where
  "View_new = \<lparr>filtering_records = [], bag_querys = []\<rparr>"

fun select_records :: "QueryFunc \<Rightarrow> bag_records \<Rightarrow> bag_records \<Rightarrow> bag_records" where
  "select_records q [] out = out"
| "select_records q ((k, r) # rest) out =
     (if \<not> q (topic r) then select_records q rest out
      else select_records q rest (mm_insert k r out))"

definition UpdateQueries :: "bag_query \<Rightarrow> view \<Rightarrow> view" where
  "UpdateQueries bq v =
     v\<lparr>filtering_records :=
         select_records (GetQuery (bq_query bq)) (records (bq_bag bq)) (filtering_records v)\<rparr>"

definition AddQuery :: "bag \<Rightarrow> QueryFunc \<Rightarrow> timestamp \<Rightarrow> timestamp \<Rightarrow> view \<Rightarrow> view res" where
  "AddQuery b q start_time end_time v =
     (if and (mode b) BagMode_Read \<noteq> BagMode_Read
      then Inl (MsgbagException ''Bag not opened for reading'')
      else
        (let bq = BagQuery b (Query q start_time end_time) (word_of_int (version b))
         in Inr (UpdateQueries bq (v\<lparr>bag_querys := bag_querys v @ [bq]\<rparr>))))"

text \<open>The overload without a predicate.\<close>

definition AddQuery_all :: "bag \<Rightarrow> timestamp \<Rightarrow> timestamp \<Rightarrow> view \<Rightarrow> view res" where
  "AddQuery_all b start_time end_time v =
     (if and (mode b) BagMode_Read \<noteq> BagMode_Read
      then Inl (MsgbagException ''Bag not opened for reading'')
      else
        (let bq = BagQuery b (Query TrueQuery start_time end_time) (word_of_int (version b))
         in Inr (UpdateQueries bq (v\<lparr>bag_querys := bag_querys v @ [bq]\<rparr>))))"

text \<open>\<open>begin()->first\<close> and \<open>rbegin()->first\<close>: undefined on an empty multimap.\<close>

definition GetBeginTime :: "view \<Rightarrow> timestamp res" where
  "GetBeginTime v =
     (case filtering_records v of [] \<Rightarrow> Inl UndefinedBehaviour | (k, _) # _ \<Rightarrow> Inr k)"

definition GetEndTime :: "view \<Rightarrow> timestamp res" where
  "GetEndTime v =
     (if filtering_records v = [] then Inl UndefinedBehaviour
      else Inr (fst (last (filtering_records v))))"

definition View_Size :: "view \<Rightarrow> nat" where
  "View_Size v = length (filtering_records v)"

definition GetRecords :: "view \<Rightarrow> bag_records" where
  "GetRecords v = filtering_records v"

section \<open>What a view holds\<close>

lemma TopicQuery_iff: "TopicQuery topics t \<longleftrightarrow> t \<in> set topics"
  by (induction topics) auto

lemma select_records_insert_all:
  "select_records q rs out = mm_insert_all (filter (\<lambda>(k, r). q (topic r)) rs) out"
  by (induction q rs out rule: select_records.induct) auto

definition view_ok :: "view \<Rightarrow> bool" where
  "view_ok v \<longleftrightarrow> sorted (map fst (filtering_records v))"

lemma AddQuery_all_True: "AddQuery_all b s e v = AddQuery b TrueQuery s e v"
  by (simp add: AddQuery_all_def AddQuery_def)

text \<open>A sequence of \<open>AddQuery\<close> calls, as the player makes them.\<close>

fun AddQueries :: "(bag \<times> QueryFunc \<times> timestamp \<times> timestamp) list \<Rightarrow> view \<Rightarrow> view res" where
  "AddQueries [] v = Inr v"
| "AddQueries ((b, q, s, e) # rest) v = bind_res (AddQuery b q s e v) (AddQueries rest)"

text \<open>The records whose topic the query of their bag accepts; the time ranges play no part.\<close>

definition records_on_topics :: "(bag \<times> QueryFunc \<times> timestamp \<times> timestamp) list \<Rightarrow> bag_records" where
  "records_on_topics qs = concat (map (\<lambda>(b, q, _, _). filter (\<lambda>(k, r). q (topic r)) (records b)) qs)"

definition readable_bag :: "bag \<Rightarrow> bool" where
  "readable_bag b \<longleftrightarrow> and (mode b) BagMode_Read = BagMode_Read"

lemma AddQuery_readable:
  assumes "readable_bag b"
  obtains v' where "AddQuery b q s e v = Inr v'"
    and "filtering_records v' = mm_insert_all (filter (\<lambda>(k, r). q (topic r)) (records b)) (filtering_records v)"
  using assms
  by (simp add: AddQuery_def readable_bag_def UpdateQueries_def select_records_insert_all BagQuery_def
      Query_def GetQuery_def Let_def)

lemma AddQueries_records:
  assumes "\<forall>(b, _) \<in> set qs. readable_bag b"
  shows "\<exists>v'. AddQueries qs v = Inr v' \<and> filtering_records v' = mm_insert_all (records_on_topics qs) (filtering_records v)"
  using assms
proof (induction qs arbitrary: v)
  case Nil
  then show ?case by (simp add: records_on_topics_def)
next
  case (Cons x qs)
  obtain b q s e where x: "x = (b, q, s, e)" by (cases x)
  from Cons.prems x have "readable_bag b" by simp
  then obtain v1 where v1: "AddQuery b q s e v = Inr v1"
    "filtering_records v1 = mm_insert_all (filter (\<lambda>(k, r). q (topic r)) (records b)) (filtering_records v)"
    by (rule AddQuery_readable)
  from Cons.IH [of v1] Cons.prems v1 show ?case
    by (simp add: x records_on_topics_def mm_insert_all_append)
qed

section \<open>Properties\<close>

lemma records_on_topics_same:
  assumes "map (\<lambda>(b, q, _, _). (b, q)) qs' = map (\<lambda>(b, q, _, _). (b, q)) qs"
  shows "records_on_topics qs' = records_on_topics qs"
    and "(\<forall>(b, _) \<in> set qs'. readable_bag b) \<longleftrightarrow> (\<forall>(b, _) \<in> set qs. readable_bag b)"
proof -
  have "records_on_topics qs = concat (map (\<lambda>(b, q). filter (\<lambda>(k, r). q (topic r)) (records b)) (map (\<lambda>(b, q, _, _). (b, q)) qs))"
    for qs :: "(bag \<times> QueryFunc \<times> timestamp \<times> timestamp) list"
    unfolding records_on_topics_def map_map comp_def by (rule arg_cong [where f = concat], rule map_cong) auto
  from this [of qs'] this [of qs] show "records_on_topics qs' = records_on_topics qs" unfolding assms by (rule trans [OF _ sym])
  have "(\<forall>(b, _) \<in> set qs. readable_bag b) \<longleftrightarrow> list_all (\<lambda>(b, q). readable_bag b) (map (\<lambda>(b, q, _, _). (b, q)) qs)"
    for qs :: "(bag \<times> QueryFunc \<times> timestamp \<times> timestamp) list"
    by (auto simp: list_all_iff)
  from this [of qs'] this [of qs] show "(\<forall>(b, _) \<in> set qs'. readable_bag b) \<longleftrightarrow> (\<forall>(b, _) \<in> set qs. readable_bag b)"
    unfolding assms by (rule trans [OF _ sym])
qed

text \<open>
  C27. A view over any number of readable bags is the stable merge of the records on the topics asked
  for: exactly the records whose topic the bag's query accepts, each once, in time order, records of one
  time in the order the bags were added. Its begin and end times bound every record. The time range of
  a query, which the comments of the class describe, selects nothing: queries with the same bags and
  predicates and any other ranges give the same records.
\<close>

theorem view_is_sorted_selection:
  assumes "\<forall>(b, _) \<in> set qs. readable_bag b"
  shows "\<exists>v. AddQueries qs View_new = Inr v \<and> GetRecords v = sort_key fst (records_on_topics qs) \<and>
    View_Size v = length (records_on_topics qs) \<and>
    (records_on_topics qs \<noteq> [] \<longrightarrow> (\<exists>t0 t1. GetBeginTime v = Inr t0 \<and> GetEndTime v = Inr t1 \<and>
       t0 \<in> fst ` set (records_on_topics qs) \<and> t1 \<in> fst ` set (records_on_topics qs) \<and>
       (\<forall>(k, r) \<in> set (records_on_topics qs). t0 \<le> k \<and> k \<le> t1))) \<and>
    (\<forall>qs'. map (\<lambda>(b, q, _, _). (b, q)) qs' = map (\<lambda>(b, q, _, _). (b, q)) qs \<longrightarrow>
       (\<exists>v'. AddQueries qs' View_new = Inr v' \<and> GetRecords v' = GetRecords v))"
proof -
  let ?l = "sort_key fst (records_on_topics qs)"
  from AddQueries_records [OF assms, of View_new] obtain v where
    v: "AddQueries qs View_new = Inr v" "filtering_records v = ?l"
    by (auto simp: View_new_def mm_insert_all_sort_key)
  have times: "\<exists>t0 t1. GetBeginTime v = Inr t0 \<and> GetEndTime v = Inr t1 \<and>
       t0 \<in> fst ` set (records_on_topics qs) \<and> t1 \<in> fst ` set (records_on_topics qs) \<and>
       (\<forall>(k, r) \<in> set (records_on_topics qs). t0 \<le> k \<and> k \<le> t1)" if "records_on_topics qs \<noteq> []"
  proof -
    have ne: "?l \<noteq> []" using that by (metis length_0_conv length_sort)
    have srt: "sorted (map fst ?l)" by simp
    have "fst (hd ?l) \<le> fst x \<and> fst x \<le> fst (last ?l)" if "x \<in> set ?l" for x
      using sorted_bounds [OF srt that] .
    moreover have "GetBeginTime v = Inr (fst (hd ?l))" using ne v(2) by (cases ?l) (auto simp: GetBeginTime_def)
    moreover have "GetEndTime v = Inr (fst (last ?l))" using ne v(2) by (simp add: GetEndTime_def)
    moreover have "hd ?l \<in> set (records_on_topics qs)" "last ?l \<in> set (records_on_topics qs)"
      using ne hd_in_set [of ?l] last_in_set [of ?l] by simp_all
    ultimately show ?thesis by fastforce
  qed
  have "\<exists>v'. AddQueries qs' View_new = Inr v' \<and> GetRecords v' = GetRecords v"
    if same: "map (\<lambda>(b, q, _, _). (b, q)) qs' = map (\<lambda>(b, q, _, _). (b, q)) qs" for qs'
    using AddQueries_records [OF iffD2 [OF records_on_topics_same(2) [OF same] assms], of View_new] records_on_topics_same(1) [OF same] v(2)
    by (auto simp: GetRecords_def View_new_def mm_insert_all_sort_key)
  moreover have "length ?l = length (records_on_topics qs)" by simp
  ultimately show ?thesis using v times by (intro exI [of _ v] conjI) (simp_all add: GetRecords_def View_Size_def)
qed

theorem view_is_sorted_selection_witness:
  "\<exists>v. AddQueries [(Bag_new\<lparr>mode := BagMode_Read, records :=
        [(Timestamp 2, MessageRecord 2 ''/tf'' ''a''), (Timestamp 5, MessageRecord 5 ''/gps'' ''b'')]\<rparr>,
        TopicQuery [''/tf''], Timestamp 0, Timestamp 1),
      (Bag_new\<lparr>mode := BagMode_Read, records := [(Timestamp 1, MessageRecord 1 ''/gps'' ''c'')]\<rparr>,
        TrueQuery, Timestamp 0, Timestamp 0)] View_new = Inr v \<and>
    GetRecords v = [(Timestamp 1, MessageRecord 1 ''/gps'' ''c''), (Timestamp 2, MessageRecord 2 ''/tf'' ''a'')]"
proof -
  let ?qs = "[(Bag_new\<lparr>mode := BagMode_Read, records :=
        [(Timestamp 2, MessageRecord 2 ''/tf'' ''a''), (Timestamp 5, MessageRecord 5 ''/gps'' ''b'')]\<rparr>,
        TopicQuery [''/tf''], Timestamp 0, Timestamp 1),
      (Bag_new\<lparr>mode := BagMode_Read, records := [(Timestamp 1, MessageRecord 1 ''/gps'' ''c'')]\<rparr>,
        TrueQuery, Timestamp 0, Timestamp 0)]"
  have "\<forall>(b, _) \<in> set ?qs. readable_bag b" by (simp add: readable_bag_def BagMode_Read_def)
  from view_is_sorted_selection [OF this] obtain v where
    "AddQueries ?qs View_new = Inr v" "GetRecords v = sort_key fst (records_on_topics ?qs)" by blast
  moreover have "sort_key fst (records_on_topics ?qs) =
      [(Timestamp 1, MessageRecord 1 ''/gps'' ''c''), (Timestamp 2, MessageRecord 2 ''/tf'' ''a'')]"
    by code_simp
  ultimately show ?thesis by metis
qed

text \<open>
  The time range of a query has no effect on the records: two calls of \<open>AddQuery\<close> that differ
  only in the range select the same records, the ones outside the range included.
\<close>

theorem view_ignores_time_range:
  assumes "readable_bag b"
  shows "\<exists>v1 v2. AddQuery b q s e v = Inr v1 \<and> AddQuery b q s' e' v = Inr v2 \<and>
    GetRecords v1 = GetRecords v2 \<and>
    (\<forall>(k, r) \<in> set (records b). q (topic r) \<longrightarrow> (k, r) \<in> set (GetRecords v1))"
proof -
  obtain v1 where 1: "AddQuery b q s e v = Inr v1"
    "filtering_records v1 = mm_insert_all (filter (\<lambda>(k, r). q (topic r)) (records b)) (filtering_records v)"
    using assms by (rule AddQuery_readable)
  obtain v2 where 2: "AddQuery b q s' e' v = Inr v2"
    "filtering_records v2 = mm_insert_all (filter (\<lambda>(k, r). q (topic r)) (records b)) (filtering_records v)"
    using assms by (rule AddQuery_readable)
  have "set (filter (\<lambda>(k, r). q (topic r)) (records b)) \<subseteq> set (GetRecords v1)"
    using set_mm_insert_all [of "filter (\<lambda>(k, r). q (topic r)) (records b)" "filtering_records v"] 1(2)
    by (simp add: GetRecords_def)
  with 1 2 show ?thesis by (auto simp: GetRecords_def)
qed

theorem view_ignores_time_range_witness:
  "\<exists>v1. AddQuery (Bag_new\<lparr>mode := BagMode_Read, records := [(Timestamp 5, MessageRecord 5 ''/tf'' ''a'')]\<rparr>)
      TrueQuery (Timestamp 8) (Timestamp 9) View_new = Inr v1 \<and>
    (Timestamp 5, MessageRecord 5 ''/tf'' ''a'') \<in> set (GetRecords v1)"
proof -
  let ?b = "Bag_new\<lparr>mode := BagMode_Read, records := [(Timestamp 5, MessageRecord 5 ''/tf'' ''a'')]\<rparr>"
  have "readable_bag ?b" by (simp add: readable_bag_def BagMode_Read_def)
  from view_ignores_time_range [OF this, of TrueQuery "Timestamp 8" "Timestamp 9" View_new] show ?thesis
    by (auto simp: TrueQuery_def)
qed

end
