(* ===== verification/Timers.thy ===== *)
theory Timers
  imports Timestamps Containers "HOL-Library.Product_Lexorder"
begin

text \<open>
  \<open>timer.h\<close>, \<open>timer.cpp\<close>, \<open>timer_queue.h\<close>, \<open>timer_queue.cpp\<close>, \<open>event_loop.h\<close>,
  \<open>event_loop.cpp\<close> and the timer functions of \<open>util.cpp\<close>: the queue of timers the player
  schedules its messages with. A timer is an object with an address: the set \<open>timers_\<close> orders its
  entries by time and, for equal times, by address, and \<open>Restart\<close> changes the object the set
  points to. Addresses come from the allocator and are arguments of \<open>AddTimer\<close>; \<open>NULL\<close> is 0.
  A callback is a value, running it appends it to the history \<open>fired\<close>. The clock is read where the
  code reads it: the readings are arguments.
\<close>

section \<open>The timer descriptor\<close>

text \<open>A timer descriptor is open or closed, and armed with a relative time or not; it is one-shot.\<close>

record timerfd =
  fd_open :: bool
  fd_armed :: "timespec option"

definition CreateTimerfd :: "bool \<Rightarrow> timerfd" where
  "CreateTimerfd success = \<lparr>fd_open = success, fd_armed = None\<rparr>"

definition ResetTimerfd :: "timestamp \<Rightarrow> timestamp \<Rightarrow> timerfd \<Rightarrow> timerfd" where
  "ResetTimerfd now when fd =
     (if fd_open fd then fd\<lparr>fd_armed := Some (HowMuchTimeFromNow now when)\<rparr> else fd)"

definition fd_close :: "timerfd \<Rightarrow> timerfd" where
  "fd_close fd = fd\<lparr>fd_open := False, fd_armed := None\<rparr>"

section \<open>Timers\<close>

record 'c timer =
  callback :: 'c
  expiration :: timestamp
  interval :: double
  repeat :: bool
  sequence_nr :: "64 word"

definition Timer_new :: "'c \<Rightarrow> timestamp \<Rightarrow> double \<Rightarrow> 64 word \<Rightarrow> 'c timer \<times> 64 word" where
  "Timer_new cb when ival created =
     (let n = created + 1
      in (\<lparr>callback = cb, expiration = when, interval = ival, repeat = (0 < ival), sequence_nr = n\<rparr>, n))"

definition Restart :: "timestamp \<Rightarrow> 'c timer \<Rightarrow> 'c timer" where
  "Restart now t =
     (if repeat t then t\<lparr>expiration := AddTime now (interval t)\<rparr> else t\<lparr>expiration := Invalid\<rparr>)"

section \<open>The queue\<close>

type_synonym entry = "timestamp \<times> nat"

record 'c timer_queue =
  heap :: "nat \<Rightarrow> 'c timer option"
  timers :: "entry list"
  timerfd :: timerfd
  calling_expired_timers :: bool
  canceling_timers :: "(nat \<times> 64 word) list"
  num_created :: "64 word"
  loop_running :: bool
  fired :: "'c list"

definition TimerQueue_new :: "bool \<Rightarrow> 'c timer_queue" where
  "TimerQueue_new success = \<lparr>heap = (\<lambda>_. None), timers = [], timerfd = CreateTimerfd success,
     calling_expired_timers = False, canceling_timers = [], num_created = 0, loop_running = False, fired = []\<rparr>"

definition tq_Stop :: "'c timer_queue \<Rightarrow> 'c timer_queue" where
  "tq_Stop q = q\<lparr>timerfd := fd_close (timerfd q)\<rparr>"

definition CancelTimer :: "nat \<Rightarrow> 'c timer_queue \<Rightarrow> 'c timer_queue" where
  "CancelTimer timer_id q = q"

text \<open>\<open>std::set::insert\<close> tells whether the entry is new.\<close>

definition set_insert :: "entry \<Rightarrow> entry list \<Rightarrow> entry list \<times> bool" where
  "set_insert e es = (if e \<in> set es then (es, False) else (insort e es, True))"

definition Insert :: "nat \<Rightarrow> 'c timer_queue \<Rightarrow> 'c timer_queue res" where
  "Insert a q =
     (case heap q a of
        None \<Rightarrow> Inl UndefinedBehaviour
      | Some t \<Rightarrow>
          (let (es, new) = set_insert (expiration t, a) (timers q)
           in if new then Inr (q\<lparr>timers := es\<rparr>) else Inl AssertFailed))"

definition AddTimer :: "nat \<Rightarrow> 'c \<Rightarrow> timestamp \<Rightarrow> double \<Rightarrow> 'c timer_queue \<Rightarrow> 'c timer_queue res" where
  "AddTimer a cb when ival q =
     (let (t, n) = Timer_new cb when ival (num_created q)
      in Insert a (q\<lparr>heap := (heap q)(a \<mapsto> t), num_created := n\<rparr>))"

text \<open>
  \<open>GetExpired\<close>: the sentry \<open>(now, NULL)\<close> is smaller than every entry with time \<open>now\<close>, so
  these entries stay behind \<open>lower_bound\<close> and the assertion is about the first of them.
\<close>

definition GetExpired :: "timestamp \<Rightarrow> 'c timer_queue \<Rightarrow> (entry list \<times> 'c timer_queue) res" where
  "GetExpired now q =
     (if timers q = [] then Inr ([], q)
      else
        (let sentry = (now, 0);
             expired = takeWhile (\<lambda>e. e < sentry) (timers q);
             rest = dropWhile (\<lambda>e. e < sentry) (timers q)
         in if rest = [] \<or> now < fst (hd rest) then Inr (expired, q\<lparr>timers := rest\<rparr>)
            else Inl AssertFailed))"

fun run_callbacks :: "entry list \<Rightarrow> 'c timer_queue \<Rightarrow> 'c timer_queue res" where
  "run_callbacks [] q = Inr q"
| "run_callbacks ((_, a) # es) q =
     (case heap q a of
        None \<Rightarrow> Inl UndefinedBehaviour
      | Some t \<Rightarrow> run_callbacks es (q\<lparr>fired := fired q @ [callback t]\<rparr>))"

fun restart_all :: "timestamp \<Rightarrow> entry list \<Rightarrow> 'c timer_queue \<Rightarrow> 'c timer_queue res" where
  "restart_all now [] q = Inr q"
| "restart_all now ((_, a) # es) q =
     (case heap q a of
        None \<Rightarrow> Inl UndefinedBehaviour
      | Some t \<Rightarrow>
          if repeat t \<and> (a, sequence_nr t) \<notin> set (canceling_timers q)
          then bind_res (Insert a (q\<lparr>heap := (heap q)(a \<mapsto> Restart now t)\<rparr>)) (restart_all now es)
          else restart_all now es q)"

definition Reset :: "entry list \<Rightarrow> timestamp \<Rightarrow> timestamp \<Rightarrow> 'c timer_queue \<Rightarrow> 'c timer_queue res" where
  "Reset expired now now' q =
     bind_res (restart_all now expired q) (\<lambda>q.
       case timers q of
         [] \<Rightarrow> Inr (tq_Stop q)
       | (_, a) # _ \<Rightarrow>
           (case heap q a of
              None \<Rightarrow> Inl UndefinedBehaviour
            | Some t \<Rightarrow>
                if Valid (expiration t) then Inr (q\<lparr>timerfd := ResetTimerfd now' (expiration t) (timerfd q)\<rparr>)
                else Inr q))"

text \<open>The two clock readings of a wake-up: the one of \<open>HandleEvent\<close>, the one behind \<open>ResetTimerfd\<close>.\<close>

record wake =
  handle_now :: timestamp
  arm_now :: timestamp

definition HandleEvent :: "wake \<Rightarrow> 'c timer_queue \<Rightarrow> 'c timer_queue res" where
  "HandleEvent w q =
     bind_res (GetExpired (handle_now w) q) (\<lambda>(expired, q).
       let q = (if expired = [] then tq_Stop q else q);
           q = q\<lparr>calling_expired_timers := True, canceling_timers := []\<rparr>
       in bind_res (run_callbacks expired q) (\<lambda>q.
            Reset expired (handle_now w) (arm_now w) (q\<lparr>calling_expired_timers := False\<rparr>)))"

section \<open>The event loop\<close>

text \<open>
  \<open>EventLoop::Loop\<close>. The wake-ups are the readings the clock will give when \<open>read\<close> returns:
  a \<open>read\<close> returns when the descriptor is armed, fails when it is closed, and waits forever
  (\<open>Waiting\<close>) when it is open and not armed or when no wake-up is left.
\<close>

datatype loop_end = Returned | Waiting

fun loop_while :: "wake list \<Rightarrow> 'c timer_queue \<Rightarrow> (loop_end \<times> 'c timer_queue) res" where
  "loop_while ws q =
     (if \<not> fd_open (timerfd q) then Inr (Returned, q\<lparr>loop_running := False\<rparr>)
      else case (fd_armed (timerfd q), ws) of
        (Some _, w # ws) \<Rightarrow>
          bind_res (HandleEvent w (q\<lparr>timerfd := (timerfd q)\<lparr>fd_armed := None\<rparr>\<rparr>)) (loop_while ws)
      | _ \<Rightarrow> Inr (Waiting, q))"

declare loop_while.simps [simp del]

definition Loop :: "timestamp \<Rightarrow> timestamp \<Rightarrow> wake list \<Rightarrow> 'c timer_queue \<Rightarrow> (loop_end \<times> 'c timer_queue) res" where
  "Loop now now' ws q =
     loop_while ws
       (if \<not> loop_running q
        then q\<lparr>timerfd := ResetTimerfd now' now (timerfd q), loop_running := True\<rparr> else q)"

definition tq_Run :: "timestamp \<Rightarrow> timestamp \<Rightarrow> wake list \<Rightarrow> 'c timer_queue \<Rightarrow> (loop_end \<times> 'c timer_queue) res" where
  "tq_Run = Loop"

section \<open>Invariant\<close>

definition tq_ok :: "'c timer_queue \<Rightarrow> bool" where
  "tq_ok q \<longleftrightarrow> sorted_wrt (<) (timers q) \<and>
     (\<forall>(t, a) \<in> set (timers q). a \<noteq> 0 \<and> (\<exists>tm. heap q a = Some tm \<and> expiration tm = t))"

text \<open>One-shot timers, as the player makes them.\<close>

definition one_shot :: "'c timer_queue \<Rightarrow> bool" where
  "one_shot q \<longleftrightarrow> (\<forall>(t, a) \<in> set (timers q). \<forall>tm. heap q a = Some tm \<longrightarrow> \<not> repeat tm)"

definition callbacks_of :: "'c timer_queue \<Rightarrow> entry list \<Rightarrow> 'c list" where
  "callbacks_of q es = map (\<lambda>(_, a). callback (the (heap q a))) es"

lemma entry_less_sentry: "a \<noteq> 0 \<Longrightarrow> (t, a) < (now, 0 :: nat) \<longleftrightarrow> t < now"
  by (auto simp: less_prod_def)

lemma takeWhile_cong_all: "\<forall>x \<in> set xs. P x = Q x \<Longrightarrow> takeWhile P xs = takeWhile Q xs \<and> dropWhile P xs = dropWhile Q xs"
  by (induction xs) auto

lemma takeWhile_sentry:
  assumes "\<forall>(t, a) \<in> set es. a \<noteq> (0 :: nat)"
  shows "takeWhile (\<lambda>e. e < (now, 0)) es = takeWhile (\<lambda>e. fst e < now) es \<and>
    dropWhile (\<lambda>e. e < (now, 0)) es = dropWhile (\<lambda>e. fst e < now) es"
  using assms by (intro takeWhile_cong_all) (auto simp: entry_less_sentry)

lemma sorted_times: "sorted_wrt (<) (es :: entry list) \<Longrightarrow> sorted (map fst es)"
  by (induction es) (auto simp: less_prod_def)

lemma drop_later:
  assumes "sorted (map fst es)" and "x \<in> set (dropWhile (\<lambda>e. fst e < now) es)"
  shows "now \<le> (fst x :: timestamp)"
  using assms
proof (induction es)
  case Nil
  then show ?case by simp
next
  case (Cons e es)
  then show ?case by (auto split: if_splits)
qed

lemma sorted_map_dropWhile: "sorted (map f es) \<Longrightarrow> sorted (map f (dropWhile P es))"
  by (induction es) auto

text \<open>\<open>GetExpired\<close> takes what expired before \<open>now\<close> and dies when something expires at \<open>now\<close>.\<close>

lemma GetExpired_eq:
  assumes "tq_ok q"
  shows "GetExpired now q =
    (if now \<in> fst ` set (timers q) then Inl AssertFailed
     else Inr (takeWhile (\<lambda>e. fst e < now) (timers q), q\<lparr>timers := dropWhile (\<lambda>e. fst e < now) (timers q)\<rparr>))"
proof -
  define r where "r = dropWhile (\<lambda>e. fst e < now) (timers q)"
  define t where "t = takeWhile (\<lambda>e. fst e < now) (timers q)"
  have "takeWhile (\<lambda>e. e < (now, 0)) (timers q) = t \<and> dropWhile (\<lambda>e. e < (now, 0)) (timers q) = r"
    unfolding r_def t_def using assms by (intro takeWhile_sentry) (auto simp: tq_ok_def)
  then have tw: "takeWhile (\<lambda>e. e < (now, 0)) (timers q) = t" "dropWhile (\<lambda>e. e < (now, 0)) (timers q) = r"
    by simp_all
  have srt: "sorted (map fst (timers q))" using assms by (simp add: tq_ok_def sorted_times)
  have split: "timers q = t @ r" by (simp add: t_def r_def)
  have nt: "now \<notin> fst ` set t" by (auto simp: t_def dest: set_takeWhileD)
  have "now \<in> fst ` set (timers q) \<longleftrightarrow> \<not> (r = [] \<or> now < fst (hd r))"
  proof (cases "r = []")
    case True
    with split nt show ?thesis by simp
  next
    case False
    then have hd: "hd r \<in> set r" by simp
    have "sorted (map fst r)" unfolding r_def using srt by (rule sorted_map_dropWhile)
    then have "\<forall>x \<in> set r. fst (hd r) \<le> fst x" using sorted_bounds [of fst r] by blast
    moreover have "now \<le> fst (hd r)" using drop_later [OF srt] hd unfolding r_def by blast
    ultimately have "now \<in> fst ` set r \<longleftrightarrow> \<not> now < fst (hd r)" using hd by fastforce
    with False split nt show ?thesis by auto
  qed
  then have c: "(r = [] \<or> now < fst (hd r)) = (now \<notin> fst ` set (timers q))" by blast
  show ?thesis
  proof (cases "timers q = []")
    case True
    then show ?thesis by (simp add: GetExpired_def)
  next
    case False
    then show ?thesis
      by (simp only: GetExpired_def if_False Let_def tw c if_not_P simp_thms if_cancel flip: t_def r_def) simp
  qed
qed

lemma run_callbacks_eq:
  "\<forall>(t, a) \<in> set es. heap q a \<noteq> None \<Longrightarrow>
     run_callbacks es q = Inr (q\<lparr>fired := fired q @ callbacks_of q es\<rparr>)"
  by (induction es q rule: run_callbacks.induct) (auto simp: callbacks_of_def)

lemma restart_all_one_shot:
  "\<forall>(t, a) \<in> set es. \<exists>tm. heap q a = Some tm \<and> \<not> repeat tm \<Longrightarrow> restart_all now es q = Inr q"
  by (induction now es q rule: restart_all.induct) auto

definition rearmed :: "timestamp \<Rightarrow> entry list \<Rightarrow> timerfd \<Rightarrow> timerfd" where
  "rearmed now es fd =
     (case es of [] \<Rightarrow> fd_close fd | (t, _) # _ \<Rightarrow> if Valid t then ResetTimerfd now t fd else fd)"

lemma Reset_one_shot:
  assumes "\<forall>(t, a) \<in> set es. \<exists>tm. heap q a = Some tm \<and> \<not> repeat tm" and "tq_ok q"
  shows "Reset es now now' q = Inr (q\<lparr>timerfd := rearmed now' (timers q) (timerfd q)\<rparr>)"
  using assms(2)
  by (cases "timers q")
    (auto simp: Reset_def restart_all_one_shot [OF assms(1)] rearmed_def tq_Stop_def tq_ok_def)

lemma tq_ok_drop: "tq_ok q \<Longrightarrow> tq_ok (q\<lparr>timers := dropWhile P (timers q)\<rparr>)"
  by (auto simp: tq_ok_def sorted_wrt_dropWhile dest: set_dropWhileD)

definition early :: "timestamp \<Rightarrow> entry list \<Rightarrow> bool" where
  "early now es \<longleftrightarrow> takeWhile (\<lambda>e. fst e < now) es = []"

lemma live_one_shot:
  assumes "tq_ok q" and "one_shot q" and "(t, a) \<in> set (timers q)"
  shows "\<exists>tm. heap q a = Some tm \<and> \<not> repeat tm"
proof -
  from assms(1,3) obtain tm where tm: "heap q a = Some tm" by (auto simp: tq_ok_def)
  with assms(2,3) have "\<not> repeat tm" by (auto simp: one_shot_def)
  with tm show ?thesis by blast
qed

lemma HandleEvent_one_shot:
  assumes "tq_ok q" and "one_shot q" and "handle_now w \<notin> fst ` set (timers q)"
  defines "done \<equiv> takeWhile (\<lambda>e. fst e < handle_now w) (timers q)"
    and "rest \<equiv> dropWhile (\<lambda>e. fst e < handle_now w) (timers q)"
  shows "HandleEvent w q = Inr (q\<lparr>timers := rest, calling_expired_timers := False, canceling_timers := [],
      fired := fired q @ callbacks_of q done,
      timerfd := rearmed (arm_now w) rest (if done = [] then fd_close (timerfd q) else timerfd q)\<rparr>)"
proof -
  let ?fd = "if done = [] then fd_close (timerfd q) else timerfd q"
  let ?q1 = "q\<lparr>timers := rest, timerfd := ?fd, calling_expired_timers := True, canceling_timers := []\<rparr>"
  let ?q2 = "?q1\<lparr>fired := fired q @ callbacks_of q done, calling_expired_timers := False\<rparr>"
  have sub: "set done \<subseteq> set (timers q)" by (auto simp: done_def dest: set_takeWhileD)
  have live: "\<forall>(t, a) \<in> set done. \<exists>tm. heap q a = Some tm \<and> \<not> repeat tm"
    using sub live_one_shot [OF assms(1,2)] by blast
  have run: "run_callbacks done ?q1 = Inr (?q1\<lparr>fired := fired q @ callbacks_of q done\<rparr>)"
    using live by (subst run_callbacks_eq) (auto simp: callbacks_of_def)
  have ok: "tq_ok ?q2" using tq_ok_drop [OF assms(1)] by (simp add: tq_ok_def rest_def)
  have reset: "Reset done (handle_now w) (arm_now w) ?q2 = Inr (?q2\<lparr>timerfd := rearmed (arm_now w) rest ?fd\<rparr>)"
    using Reset_one_shot [of "done" ?q2] live ok by simp
  have "GetExpired (handle_now w) q = Inr (done, q\<lparr>timers := rest\<rparr>)"
    using assms(3) by (simp add: GetExpired_eq [OF assms(1)] done_def rest_def)
  moreover have "(if done = [] then tq_Stop (q\<lparr>timers := rest\<rparr>) else q\<lparr>timers := rest\<rparr>)
      \<lparr>calling_expired_timers := True, canceling_timers := []\<rparr> = ?q1"
    by (simp add: tq_Stop_def)
  ultimately have "HandleEvent w q = bind_res (run_callbacks done ?q1)
      (\<lambda>q. Reset done (handle_now w) (arm_now w) (q\<lparr>calling_expired_timers := False\<rparr>))"
    by (simp only: HandleEvent_def bind_res_simps prod.case Let_def)
  also have "\<dots> = Reset done (handle_now w) (arm_now w) ?q2"
    by (simp add: run)
  finally show ?thesis unfolding reset by simp
qed

section \<open>A run of the loop\<close>

text \<open>
  Wake-ups that serve a schedule: each comes strictly after the earliest pending expiration and
  not at the very nanosecond of another one, and there are enough of them.
\<close>

fun prompt :: "entry list \<Rightarrow> wake list \<Rightarrow> bool" where
  "prompt [] ws = True"
| "prompt (e # es) [] = False"
| "prompt (e # es) (w # ws) =
     (fst e < handle_now w \<and> handle_now w \<notin> fst ` set (e # es) \<and>
      prompt (dropWhile (\<lambda>x. fst x < handle_now w) es) ws)"

lemma callbacks_of_append [simp]: "callbacks_of q (xs @ ys) = callbacks_of q xs @ callbacks_of q ys"
  by (simp add: callbacks_of_def)

lemma callbacks_of_heap: "heap q' = heap q \<Longrightarrow> callbacks_of q' es = callbacks_of q es"
  by (simp add: callbacks_of_def)

lemma loop_while_closed:
  "\<not> fd_open (timerfd q) \<Longrightarrow> loop_while ws q = Inr (Returned, q\<lparr>loop_running := False\<rparr>)"
  by (simp add: loop_while.simps)

theorem loop_serves_all:
  assumes "tq_ok q" and "one_shot q" and "fd_open (timerfd q)" and "fd_armed (timerfd q) \<noteq> None"
    and "timers q \<noteq> []" and "\<forall>e \<in> set (timers q). Valid (fst e)" and "prompt (timers q) ws"
  shows "\<exists>q'. loop_while ws q = Inr (Returned, q') \<and> fired q' = fired q @ callbacks_of q (timers q) \<and>
    timers q' = [] \<and> \<not> fd_open (timerfd q') \<and> \<not> loop_running q'"
  using assms
proof (induction ws arbitrary: q)
  case Nil
  then show ?case by (cases "timers q") auto
next
  case (Cons w ws)
  obtain e es where es: "timers q = e # es" using Cons.prems(5) by (cases "timers q") auto
  from Cons.prems(7) es have p: "fst e < handle_now w" "handle_now w \<notin> fst ` set (timers q)"
    "prompt (dropWhile (\<lambda>x. fst x < handle_now w) es) ws" by simp_all
  define b where "b = takeWhile (\<lambda>x. fst x < handle_now w) (timers q)"
  define r where "r = dropWhile (\<lambda>x. fst x < handle_now w) (timers q)"
  have br: "timers q = b @ r" and b: "b \<noteq> []" using p(1) es by (simp_all add: b_def r_def)
  have pr: "prompt r ws" using p es by (simp add: r_def)
  let ?q0 = "q\<lparr>timerfd := (timerfd q)\<lparr>fd_armed := None\<rparr>\<rparr>"
  define fd where "fd = rearmed (arm_now w) r ((timerfd q)\<lparr>fd_armed := None\<rparr>)"
  define q1 where "q1 = ?q0\<lparr>timers := r, calling_expired_timers := False, canceling_timers := [],
      fired := fired q @ callbacks_of q b, timerfd := fd\<rparr>"
  have H: "HandleEvent w ?q0 = Inr q1"
    using HandleEvent_one_shot [of ?q0 w] Cons.prems(1,2) p(2) b
    by (simp add: tq_ok_def one_shot_def callbacks_of_def q1_def fd_def flip: b_def r_def)
  have step: "loop_while (w # ws) q = loop_while ws q1"
    using Cons.prems(3,4) H by (subst loop_while.simps) auto
  show ?case
  proof (cases "r = []")
    case True
    then have "\<not> fd_open (timerfd q1)" by (simp add: q1_def fd_def rearmed_def fd_close_def)
    from loop_while_closed [OF this] show ?thesis
      using True br by (simp add: step) (simp add: q1_def fd_def rearmed_def fd_close_def)
  next
    case False
    then obtain t a r' where r: "r = (t, a) # r'" by (cases r) auto
    have "Valid t" using Cons.prems(6) br r by auto
    then have fd: "fd_open (timerfd q1)" "fd_armed (timerfd q1) \<noteq> None"
      using Cons.prems(3) r by (simp_all add: q1_def fd_def rearmed_def ResetTimerfd_def)
    have "tq_ok q1" using tq_ok_drop [OF Cons.prems(1), of "\<lambda>x. fst x < handle_now w"]
      by (simp add: tq_ok_def q1_def r_def)
    moreover have "one_shot q1" using Cons.prems(2) br by (simp add: one_shot_def q1_def)
    moreover have "\<forall>e \<in> set (timers q1). Valid (fst e)" using Cons.prems(6) br by (simp add: q1_def)
    moreover have "timers q1 = r" by (simp add: q1_def)
    ultimately obtain q' where "loop_while ws q1 = Inr (Returned, q')"
      "fired q' = fired q1 @ callbacks_of q1 r" "timers q' = []" "\<not> fd_open (timerfd q')" "\<not> loop_running q'"
      using Cons.IH [of q1] fd False pr by auto
    moreover have "callbacks_of q1 r = callbacks_of q r" by (rule callbacks_of_heap) (simp add: q1_def)
    ultimately show ?thesis using br by (simp add: step) (simp add: q1_def)
  qed
qed

section \<open>Adding timers\<close>

fun AddTimers :: "(nat \<times> 'c \<times> timestamp) list \<Rightarrow> 'c timer_queue \<Rightarrow> 'c timer_queue res" where
  "AddTimers [] q = Inr q"
| "AddTimers ((a, cb, when) # rest) q = bind_res (AddTimer a cb when 0 q) (AddTimers rest)"

definition due :: "nat \<times> 'c \<times> timestamp \<Rightarrow> entry" where
  "due x = (snd (snd x), fst x)"

definition fresh_addresses :: "(nat \<times> 'c \<times> timestamp) list \<Rightarrow> 'c timer_queue \<Rightarrow> bool" where
  "fresh_addresses l q \<longleftrightarrow> distinct (map fst l) \<and> 0 \<notin> fst ` set l \<and> fst ` set l \<inter> snd ` set (timers q) = {}"

lemma insort_strict: "sorted_wrt (<) es \<Longrightarrow> e \<notin> set es \<Longrightarrow> sorted_wrt (<) (insort e es)"
  by (simp add: strict_sorted_iff sorted_insort distinct_insort)

lemma AddTimer_fresh:
  assumes "tq_ok q" and "one_shot q" and "a \<noteq> 0" and "a \<notin> snd ` set (timers q)"
  shows "\<exists>q'. AddTimer a cb when 0 q = Inr q' \<and> tq_ok q' \<and> one_shot q' \<and>
    set (timers q') = insert (when, a) (set (timers q)) \<and>
    (\<exists>tm. heap q' a = Some tm \<and> callback tm = cb) \<and> (\<forall>a'. a' \<noteq> a \<longrightarrow> heap q' a' = heap q a') \<and>
    timerfd q' = timerfd q \<and> loop_running q' = loop_running q \<and> fired q' = fired q"
proof -
  let ?t = "\<lparr>callback = cb, expiration = when, interval = 0, repeat = False, sequence_nr = num_created q + 1\<rparr>"
  let ?q = "q\<lparr>heap := (heap q)(a \<mapsto> ?t), num_created := num_created q + 1, timers := insort (when, a) (timers q)\<rparr>"
  have new: "(when, a) \<notin> set (timers q)" using assms(4) by force
  then have add: "AddTimer a cb when 0 q = Inr ?q"
    by (simp add: AddTimer_def Timer_new_def Insert_def set_insert_def Let_def)
  have set: "set (timers ?q) = insert (when, a) (set (timers q))" by (simp add: set_insort_key)
  have "\<forall>(t, a') \<in> set (timers q). a' \<noteq> a" using assms(4) by force
  with assms(1-3) new have "tq_ok ?q" "one_shot ?q"
    by (auto simp: tq_ok_def one_shot_def insort_strict set_insort_key)
  with add set show ?thesis by auto
qed

lemma AddTimers_fresh:
  assumes "tq_ok q" and "one_shot q" and "fresh_addresses l q"
  shows "\<exists>q'. AddTimers l q = Inr q' \<and> tq_ok q' \<and> one_shot q' \<and>
    set (timers q') = due ` set l \<union> set (timers q) \<and>
    (\<forall>(a, cb, when) \<in> set l. \<exists>tm. heap q' a = Some tm \<and> callback tm = cb) \<and>
    (\<forall>a. a \<notin> fst ` set l \<longrightarrow> heap q' a = heap q a) \<and>
    timerfd q' = timerfd q \<and> loop_running q' = loop_running q \<and> fired q' = fired q"
  using assms
proof (induction l arbitrary: q)
  case Nil
  then show ?case by simp
next
  case (Cons x l)
  obtain a cb wh where x: "x = (a, cb, wh)" by (cases x)
  from Cons.prems(3) x have a: "a \<noteq> 0" "a \<notin> snd ` set (timers q)" "a \<notin> fst ` set l"
    by (auto simp: fresh_addresses_def)
  from AddTimer_fresh [OF Cons.prems(1,2) a(1,2)] obtain q1 where
    q1: "AddTimer a cb wh 0 q = Inr q1" "tq_ok q1" "one_shot q1"
    "set (timers q1) = insert (wh, a) (set (timers q))" "\<exists>tm. heap q1 a = Some tm \<and> callback tm = cb"
    "\<forall>a'. a' \<noteq> a \<longrightarrow> heap q1 a' = heap q a'"
    "timerfd q1 = timerfd q" "loop_running q1 = loop_running q" "fired q1 = fired q" by blast
  have "fresh_addresses l q1" using Cons.prems(3) x a(3) q1(4) by (auto simp: fresh_addresses_def)
  from Cons.IH [OF q1(2,3) this] obtain q' where
    q': "AddTimers l q1 = Inr q'" "tq_ok q'" "one_shot q'" "set (timers q') = due ` set l \<union> set (timers q1)"
    "\<forall>(a, cb, when) \<in> set l. \<exists>tm. heap q' a = Some tm \<and> callback tm = cb"
    "\<forall>a. a \<notin> fst ` set l \<longrightarrow> heap q' a = heap q1 a"
    "timerfd q' = timerfd q1" "loop_running q' = loop_running q1" "fired q' = fired q1" by blast
  have "heap q' a = heap q1 a" using q'(6) a(3) by blast
  with q1 q' x have "AddTimers (x # l) q = Inr q' \<and> set (timers q') = due ` set (x # l) \<union> set (timers q) \<and>
      (\<forall>(a, cb, when) \<in> set (x # l). \<exists>tm. heap q' a = Some tm \<and> callback tm = cb) \<and>
      (\<forall>a. a \<notin> fst ` set (x # l) \<longrightarrow> heap q' a = heap q a)"
    by (auto simp: due_def)
  with q1 q' show ?case by auto
qed

lemma new_queue_ok: "tq_ok (TimerQueue_new b)" "one_shot (TimerQueue_new b)"
  by (simp_all add: TimerQueue_new_def tq_ok_def one_shot_def)

lemma timers_sorted_unique:
  assumes "tq_ok q" and "distinct (map fst l)" and "set (timers q) = due ` set l"
  shows "timers q = map due (sort_key due l)"
proof (rule sorted_distinct_set_unique)
  show "sorted (timers q)" "distinct (timers q)"
    using assms(1) by (simp_all add: tq_ok_def strict_sorted_iff)
  have "inj_on fst (set l)" using assms(2) by (simp add: distinct_map)
  then have "inj_on due (set l)"
    by (intro inj_onI, elim inj_onD) (simp_all add: due_def)
  then show "distinct (map due (sort_key due l))"
    using assms(2) by (simp add: distinct_map)
  show "sorted (map due (sort_key due l))" by simp
  show "set (timers q) = set (map due (sort_key due l))" using assms(3) by simp
qed

lemma callbacks_of_due:
  "\<forall>(a, cb, t) \<in> set l. \<exists>tm. heap q a = Some tm \<and> callback tm = cb \<Longrightarrow>
     callbacks_of q (map due l) = map (\<lambda>(a, cb, t). cb) l"
  by (induction l) (auto simp: callbacks_of_def due_def)

lemma schedule_ok:
  assumes "distinct (map fst l)" and "0 \<notin> fst ` set l"
  obtains q where "AddTimers l (TimerQueue_new True) = Inr q" and "tq_ok q" and "one_shot q"
    and "timers q = map due (sort_key due l)" and "fd_open (timerfd q)" and "\<not> loop_running q"
    and "fired q = []" and "\<forall>(a, cb, t) \<in> set l. \<exists>tm. heap q a = Some tm \<and> callback tm = cb"
proof -
  have "fresh_addresses l (TimerQueue_new True)"
    using assms by (simp add: fresh_addresses_def TimerQueue_new_def)
  from AddTimers_fresh [OF new_queue_ok this] obtain q where
    q: "AddTimers l (TimerQueue_new True) = Inr q" "tq_ok q" "one_shot q" "set (timers q) = due ` set l"
    "\<forall>(a, cb, t) \<in> set l. \<exists>tm. heap q a = Some tm \<and> callback tm = cb"
    "fd_open (timerfd q)" "\<not> loop_running q" "fired q = []"
    by (auto simp: TimerQueue_new_def CreateTimerfd_def)
  from timers_sorted_unique [OF q(2) assms(1) q(4)] q that show ?thesis by blast
qed

text \<open>The loop on a schedule of one-shot timers.\<close>

lemma Loop_serves_schedule:
  assumes "distinct (map fst l)" and "0 \<notin> fst ` set l" and "l \<noteq> []"
    and "\<forall>x \<in> set l. Valid (snd (snd x))" and "prompt (map due (sort_key due l)) ws"
  shows "\<exists>q q'. AddTimers l (TimerQueue_new True) = Inr q \<and> Loop now now' ws q = Inr (Returned, q') \<and>
    fired q' = map (\<lambda>(a, cb, t). cb) (sort_key due l) \<and> timers q' = [] \<and> \<not> fd_open (timerfd q')"
proof -
  from assms(1,2) obtain q where q: "AddTimers l (TimerQueue_new True) = Inr q" "tq_ok q" "one_shot q"
    "timers q = map due (sort_key due l)" "fd_open (timerfd q)" "\<not> loop_running q" "fired q = []"
    "\<forall>(a, cb, t) \<in> set l. \<exists>tm. heap q a = Some tm \<and> callback tm = cb"
    by (rule schedule_ok)
  let ?q0 = "q\<lparr>timerfd := ResetTimerfd now' now (timerfd q), loop_running := True\<rparr>"
  have "\<exists>q'. loop_while ws ?q0 = Inr (Returned, q') \<and> fired q' = fired ?q0 @ callbacks_of ?q0 (timers ?q0) \<and>
    timers q' = [] \<and> \<not> fd_open (timerfd q') \<and> \<not> loop_running q'"
  proof (rule loop_serves_all)
    show "tq_ok ?q0" "one_shot ?q0" using q(2,3) by (simp_all add: tq_ok_def one_shot_def)
    show "fd_open (timerfd ?q0)" "fd_armed (timerfd ?q0) \<noteq> None" using q(5) by (simp_all add: ResetTimerfd_def)
    have "timers q \<noteq> []" using assms(3) by (metis q(4) length_0_conv length_map length_sort)
    then show "timers ?q0 \<noteq> []" by simp
    show "\<forall>e \<in> set (timers ?q0). Valid (fst e)" using assms(4) q(4) by (auto simp: due_def)
    show "prompt (timers ?q0) ws" using assms(5) q(4) by simp
  qed
  moreover have "callbacks_of ?q0 (timers ?q0) = map (\<lambda>(a, cb, t). cb) (sort_key due l)"
    using callbacks_of_due [of "sort_key due l" ?q0] q(4,8) by simp
  moreover have "Loop now now' ws q = loop_while ws ?q0" "fired ?q0 = []" using q(6,7) by (simp_all add: Loop_def)
  ultimately show ?thesis using q(1) by auto
qed

section \<open>Properties\<close>

text \<open>
  C12. The event loop serves its schedule and ends: one-shot timers at distinct addresses, woken
  promptly, are all run, each exactly once, in the order of their times (for equal times in the order
  of their addresses); then the loop closes its descriptor and returns with no timer left.
\<close>

theorem timers_run_once_in_order:
  assumes "distinct (map fst l)" and "0 \<notin> fst ` set l" and "l \<noteq> []"
    and "\<forall>x \<in> set l. Valid (snd (snd x))" and "prompt (map due (sort_key due l)) ws"
  shows "\<exists>q q'. AddTimers l (TimerQueue_new True) = Inr q \<and> Loop now now' ws q = Inr (Returned, q') \<and>
    fired q' = map (\<lambda>(a, cb, t). cb) (sort_key due l) \<and> timers q' = [] \<and> \<not> fd_open (timerfd q')"
  using assms by (rule Loop_serves_schedule)

theorem timers_run_once_in_order_witness:
  "\<exists>q q'. AddTimers [(4, ''late'', Timestamp 90), (9, ''b'', Timestamp 50), (2, ''a'', Timestamp 50)]
      (TimerQueue_new True) = Inr q \<and>
    Loop (Timestamp 40) (Timestamp 41)
      [\<lparr>handle_now = Timestamp 60, arm_now = Timestamp 61\<rparr>, \<lparr>handle_now = Timestamp 95, arm_now = Timestamp 96\<rparr>] q =
      Inr (Returned, q') \<and> fired q' = [''a'', ''b'', ''late'']"
proof -
  let ?l = "[(4, ''late'', Timestamp 90), (9, ''b'', Timestamp 50), (2 :: nat, ''a'', Timestamp 50)]"
  let ?ws = "[\<lparr>handle_now = Timestamp 60, arm_now = Timestamp 61\<rparr>, \<lparr>handle_now = Timestamp 95, arm_now = Timestamp 96\<rparr>]"
  have s: "sort_key due ?l = [(2, ''a'', Timestamp 50), (9, ''b'', Timestamp 50), (4, ''late'', Timestamp 90)]"
    by code_simp
  have "distinct (map fst ?l)" "0 \<notin> fst ` set ?l" "?l \<noteq> []" by simp_all
  moreover have "\<forall>x \<in> set ?l. Valid (snd (snd x))" by code_simp
  moreover have "prompt (map due (sort_key due ?l)) ?ws" unfolding s by code_simp
  ultimately show ?thesis
    using timers_run_once_in_order [of ?l ?ws "Timestamp 40" "Timestamp 41"] unfolding s by auto
qed

text \<open>
  A timer that expires at the very nanosecond of the wake-up aborts the program: the sentry of
  \<open>GetExpired\<close> carries a null pointer, so such an entry is not taken and the assertion
  \<open>now < end->first\<close> fails.
\<close>

theorem timer_due_now_aborts:
  assumes "distinct (map fst l)" and "0 \<notin> fst ` set l"
    and "x \<in> set l" and "snd (snd x) = handle_now w"
  shows "\<exists>q. AddTimers l (TimerQueue_new True) = Inr q \<and> HandleEvent w q = Inl AssertFailed"
proof -
  from assms(1,2) obtain q where q: "AddTimers l (TimerQueue_new True) = Inr q" "tq_ok q"
    "timers q = map due (sort_key due l)" by (rule schedule_ok)
  have "fst (due x) \<in> fst ` set (timers q)" using assms(3) q(3) by simp
  then have "handle_now w \<in> fst ` set (timers q)" using assms(4) by (simp add: due_def)
  with GetExpired_eq [OF q(2)] q(1) show ?thesis by (simp add: HandleEvent_def)
qed

theorem timer_due_now_aborts_witness:
  "\<exists>q. AddTimers [(1, ''a'', Timestamp 5), (2, ''b'', Timestamp 9)] (TimerQueue_new True) = Inr q \<and>
    HandleEvent \<lparr>handle_now = Timestamp 9, arm_now = Timestamp 9\<rparr> q = Inl AssertFailed"
  using timer_due_now_aborts [of "[(1, ''a'', Timestamp 5), (2, ''b'', Timestamp 9)]" "(2, ''b'', Timestamp 9)"
      "\<lparr>handle_now = Timestamp 9, arm_now = Timestamp 9\<rparr>"] by simp

text \<open>
  One early wake-up ends the playback: when the loop is woken before the first timer is due,
  \<open>HandleEvent\<close> finds nothing expired and closes the descriptor, the next \<open>read\<close> fails, and the
  loop returns although every timer is still pending and none was run.
\<close>

theorem early_wakeup_loses_all:
  assumes "distinct (map fst l)" and "0 \<notin> fst ` set l" and "l \<noteq> []"
    and "\<forall>x \<in> set l. handle_now w < snd (snd x)"
  shows "\<exists>q q'. AddTimers l (TimerQueue_new True) = Inr q \<and> Loop now now' (w # ws) q = Inr (Returned, q') \<and>
    fired q' = [] \<and> timers q' = map due (sort_key due l) \<and> \<not> fd_open (timerfd q')"
proof -
  from assms(1,2) obtain q where q: "AddTimers l (TimerQueue_new True) = Inr q" "tq_ok q" "one_shot q"
    "timers q = map due (sort_key due l)" "fd_open (timerfd q)" "\<not> loop_running q" "fired q = []"
    by (rule schedule_ok)
  let ?q0 = "q\<lparr>loop_running := True, timerfd := (timerfd q)\<lparr>fd_armed := None\<rparr>\<rparr>"
  have late: "\<forall>e \<in> set (timers q). handle_now w < fst e" using assms(4) q(4) by (auto simp: due_def)
  have "timers q \<noteq> []" using assms(3) by (metis q(4) length_0_conv length_map length_sort)
  then obtain e es where es: "timers q = e # es" by (cases "timers q") auto
  have tw: "takeWhile (\<lambda>e. fst e < handle_now w) (timers q) = []"
    "dropWhile (\<lambda>e. fst e < handle_now w) (timers q) = timers q" using late es by auto
  have "handle_now w \<notin> fst ` set (timers q)" using late by auto
  moreover have "tq_ok ?q0" "one_shot ?q0" using q(2,3) by (simp_all add: tq_ok_def one_shot_def)
  ultimately have H: "HandleEvent w ?q0 = Inr (?q0\<lparr>timers := timers q, calling_expired_timers := False,
      canceling_timers := [], fired := [], timerfd := rearmed (arm_now w) (timers q) (fd_close (timerfd ?q0))\<rparr>)"
    (is "_ = Inr ?q1")
    using HandleEvent_one_shot [of ?q0 w] q(7) by (simp add: tw callbacks_of_def)
  have q1: "timers ?q1 = timers q" "fired ?q1 = []" "\<not> fd_open (timerfd ?q1)"
    by (simp_all add: rearmed_def es fd_close_def ResetTimerfd_def split: prod.split)
  have "Loop now now' (w # ws) q = loop_while (w # ws) (q\<lparr>timerfd := ResetTimerfd now' now (timerfd q), loop_running := True\<rparr>)"
    using q(6) by (simp add: Loop_def)
  also have "\<dots> = loop_while ws ?q1"
    by (subst loop_while.simps) (use q(5) H in \<open>simp add: ResetTimerfd_def\<close>)
  also have "\<dots> = Inr (Returned, ?q1\<lparr>loop_running := False\<rparr>)" using q1(3) by (rule loop_while_closed)
  finally have L: "Loop now now' (w # ws) q = Inr (Returned, ?q1\<lparr>loop_running := False\<rparr>)" .
  show ?thesis
  proof (intro exI conjI)
    show "AddTimers l (TimerQueue_new True) = Inr q" by (rule q(1))
    show "Loop now now' (w # ws) q = Inr (Returned, ?q1\<lparr>loop_running := False\<rparr>)" by (rule L)
  qed (use q1 q(4) in simp_all)
qed

theorem early_wakeup_loses_all_witness:
  "\<exists>q q'. AddTimers [(1, ''a'', Timestamp 500)] (TimerQueue_new True) = Inr q \<and>
    Loop (Timestamp 0) (Timestamp 0) [\<lparr>handle_now = Timestamp 101, arm_now = Timestamp 102\<rparr>] q = Inr (Returned, q') \<and>
    fired q' = []"
proof -
  have "Timestamp 101 < Timestamp 500" by code_simp
  then show ?thesis
    using early_wakeup_loses_all [of "[(1, ''a'', Timestamp 500)]" "\<lparr>handle_now = Timestamp 101, arm_now = Timestamp 102\<rparr>"
        "Timestamp 0" "Timestamp 0" "[]"] by auto
qed

end
