(* ===== verification/Player.thy ===== *)
theory Player
  imports BagFormat View Timers
begin

text \<open>
  The player, \<open>src/play/player.h\<close> and \<open>player.cpp\<close>. \<open>Publish\<close> opens the bags, selects their
  records, and in each pass puts one timer per record in the timer queue and runs the event loop;
  the callback of a timer is \<open>DoPublish\<close> of its record, so the history \<open>fired\<close> of the queue is
  the sequence of records \<open>DoPublish\<close> is called with. (It prints the topic; its call of the bus is
  commented out.) A pass carries what it meets outside: the clock
  readings, the addresses the allocator gives the timers, and the wake-ups of the loop. A
  \<open>float\<close> option is exact in \<open>double\<close>.
\<close>

section \<open>Options\<close>

record PlayerOptions =
  p_prefix :: string
  p_quiet :: bool
  p_start_paused :: bool
  p_at_once :: bool
  p_bag_time :: bool
  p_bag_time_frequency :: double
  p_time_scale :: double
  p_queue_size :: int
  p_advertise_sleep :: double
  p_try_future :: bool
  p_has_time :: bool
  p_loop :: bool
  p_time :: double
  p_has_duration :: bool
  p_duration :: double
  p_keep_alive :: bool
  p_wait_for_subscribers :: bool
  p_rate_control_topic :: string
  p_rate_control_max_delay :: double
  p_skip_empty :: double
  p_bags :: "string list"
  p_topics :: "string list"
  p_pause_topics :: "string list"

definition PlayerOptions_default :: PlayerOptions where
  "PlayerOptions_default =
     \<lparr>p_prefix = [], p_quiet = False, p_start_paused = False, p_at_once = False, p_bag_time = False,
      p_bag_time_frequency = 0, p_time_scale = 1, p_queue_size = 0, p_advertise_sleep = to_double (2 / 10),
      p_try_future = False, p_has_time = False, p_loop = False, p_time = 0, p_has_duration = False,
      p_duration = 0, p_keep_alive = False, p_wait_for_subscribers = False, p_rate_control_topic = [],
      p_rate_control_max_delay = 1, p_skip_empty = to_double (9999999999999999999 / 1000000000),
      p_bags = [], p_topics = [], p_pause_topics = []\<rparr>"

text \<open>The line printed and the exit code, when the options are refused.\<close>

definition PlayerOptions_Check :: "PlayerOptions \<Rightarrow> unit res \<times> string list" where
  "PlayerOptions_Check o' =
     (if p_bags o' = []
      then (Inl (ProgramExit 1), [''You must specify at least one bag file to play from''])
      else if p_has_duration o' \<and> p_duration o' \<le> 0
      then (Inl (ProgramExit 1), [''Invalid duration, must be > 0.0''])
      else (Inr (), []))"

section \<open>State\<close>

record player =
  p_options :: PlayerOptions
  p_paused :: bool
  p_pause_for_topics :: bool
  p_pause_change_requested :: bool
  p_requested_pause_state :: bool
  p_terminal_modified :: bool
  p_publisher :: "string \<times> int \<times> 32 word"
  p_open_bags :: "bag list"
  p_timer_queue :: "message_record timer_queue"
  p_out :: "string list"
  p_disk :: disk

definition Player_new :: "PlayerOptions \<Rightarrow> string \<Rightarrow> int \<Rightarrow> 32 word \<Rightarrow> bool \<Rightarrow> disk \<Rightarrow> player" where
  "Player_new o' ip port buffer timerfd_ok d =
     \<lparr>p_options = o', p_paused = False, p_pause_for_topics = (0 < length (p_pause_topics o')),
      p_pause_change_requested = False, p_requested_pause_state = False, p_terminal_modified = False,
      p_publisher = (ip, port, buffer), p_open_bags = [], p_timer_queue = TimerQueue_new timerfd_ok,
      p_out = [], p_disk = d\<rparr>"

definition Player_Stop :: "player \<Rightarrow> player" where
  "Player_Stop p = p\<lparr>p_timer_queue := tq_Stop (p_timer_queue p)\<rparr>"

text \<open>The argument is the \<open>data\<close> field of the parsed message.\<close>

definition PauseCallback :: "bool \<Rightarrow> player \<Rightarrow> player" where
  "PauseCallback data p = p\<lparr>p_pause_change_requested := (data \<noteq> p_paused p), p_requested_pause_state := data\<rparr>"

definition p_print :: "string \<Rightarrow> player \<Rightarrow> player" where
  "p_print line p = p\<lparr>p_out := p_out p @ [line]\<rparr>"

section \<open>Opening the bags\<close>

text \<open>The exceptions that \<open>catch (const std::exception &)\<close> catches.\<close>

fun std_exception :: "error \<Rightarrow> bool" where
  "std_exception (MsgbagException _) = True"
| "std_exception LengthError = True"
| "std_exception LogicError = True"
| "std_exception _ = False"

fun open_bags :: "timestamp \<Rightarrow> string list \<Rightarrow> player \<Rightarrow> unit res \<times> player" where
  "open_bags now [] p = (Inr (), p)"
| "open_bags now (bagname # names) p =
     (case Bag_Open now bagname BagMode_Read (Bag_new, p_disk p) of
        (Inr _, (b, d)) \<Rightarrow> open_bags now names (p\<lparr>p_open_bags := p_open_bags p @ [b], p_disk := d\<rparr>)
      | (Inl e, _) \<Rightarrow>
          if std_exception e then (Inl (ProgramExit 1), p_print ''terminated by excption:'' p) else (Inl e, p))"

fun add_all :: "bag list \<Rightarrow> timestamp \<Rightarrow> timestamp \<Rightarrow> view \<Rightarrow> view res" where
  "add_all [] s e v = Inr v"
| "add_all (b # bs) s e v = bind_res (AddQuery_all b s e v) (add_all bs s e)"

fun add_topics :: "bag list \<Rightarrow> QueryFunc \<Rightarrow> timestamp \<Rightarrow> timestamp \<Rightarrow> view \<Rightarrow> view res" where
  "add_topics [] f s e v = Inr v"
| "add_topics (b # bs) f s e v = bind_res (AddQuery b f s e v) (add_topics bs f s e)"

section \<open>Playing\<close>

record pass =
  pass_now :: timestamp
  pass_addr :: "nat \<Rightarrow> nat"
  loop_now :: timestamp
  loop_arm :: timestamp
  pass_wakes :: "wake list"

datatype play_end = PlayDone | NoMessages | StillPlaying

text \<open>One timer for each record: its address, its callback's record, its time.\<close>

definition play_jobs :: "(nat \<Rightarrow> nat) \<Rightarrow> double \<Rightarrow> bag_records \<Rightarrow> (nat \<times> message_record \<times> timestamp) list" where
  "play_jobs addr diff rs = map (\<lambda>(i, (k, r)). (addr i, r, AddTime k diff)) (enumerate 0 rs)"

definition play_pass :: "pass \<Rightarrow> view \<Rightarrow> player \<Rightarrow> loop_end res \<times> player" where
  "play_pass x v p =
     (case GetBeginTime v of
        Inl e \<Rightarrow> (Inl e, p)
      | Inr initial_time \<Rightarrow>
          let diff = TimeDifference (pass_now x) initial_time
          in case AddTimers (play_jobs (pass_addr x) diff (GetRecords v)) (p_timer_queue p) of
               Inl e \<Rightarrow> (Inl e, p)
             | Inr q \<Rightarrow>
                 (case tq_Run (loop_now x) (loop_arm x) (pass_wakes x) q of
                    Inl e \<Rightarrow> (Inl e, p)
                  | Inr (r, q) \<Rightarrow> (Inr r, p\<lparr>p_timer_queue := q\<rparr>)))"

text \<open>\<open>while (true)\<close>: with no pass left, or inside the loop, the player is still playing.\<close>

fun play_passes :: "pass list \<Rightarrow> view \<Rightarrow> player \<Rightarrow> play_end res \<times> player" where
  "play_passes [] v p = (Inr StillPlaying, p)"
| "play_passes (x # xs) v p =
     (case play_pass x v p of
        (Inl e, p) \<Rightarrow> (Inl e, p)
      | (Inr Waiting, p) \<Rightarrow> (Inr StillPlaying, p)
      | (Inr Returned, p) \<Rightarrow>
          if \<not> p_loop (p_options p) then (Inr PlayDone, p_print ''Done.'' p) else play_passes xs v p)"

definition play_view :: "player \<Rightarrow> timestamp \<Rightarrow> view res" where
  "play_view p begin_time =
     (let o' = p_options p;
          initial_time = AddTime begin_time (p_time o');
          finish_time = (if p_has_duration o' then AddTime initial_time (p_duration o') else TIME_MAX)
      in if p_topics o' = [] then add_all (p_open_bags p) initial_time finish_time View_new
         else add_topics (p_open_bags p) (TopicQuery (p_topics o')) initial_time finish_time View_new)"

definition Publish :: "timestamp \<Rightarrow> pass list \<Rightarrow> player \<Rightarrow> play_end res \<times> player" where
  "Publish now passes p =
     (let (r, lines) = PlayerOptions_Check (p_options p); p = p\<lparr>p_out := p_out p @ lines\<rparr>
      in bind_bag (r, p) (\<lambda>_ p.
         bind_bag (open_bags now (p_bags (p_options p)) p) (\<lambda>_ p.
           case bind_res (add_all (p_open_bags p) TIME_MIN TIME_MAX View_new) GetBeginTime of
             Inl e \<Rightarrow> (Inl e, p)
           | Inr begin_time \<Rightarrow>
               (case play_view p begin_time of
                  Inl e \<Rightarrow> (Inl e, p)
                | Inr v \<Rightarrow>
                    if View_Size v = 0
                    then (Inr NoMessages, p_print ''No messages to play on specified topics.  Exiting.'' p)
                    else play_passes passes v p))))"

end
