(* ===== verification/PlayOptions.thy ===== *)
theory PlayOptions
  imports GetOpt RecordOptions Player
begin

text \<open>
  The command line of the player, \<open>src/play/play.cpp\<close>: \<open>long_opts\<close>, \<open>ShowUsage\<close> and
  \<open>ParseOptions\<close>, whose cases are all empty: only \<open>--help\<close> and the arguments that are not
  options have an effect.
\<close>

record play_state =
  play_opts :: PlayerOptions
  play_out :: "string list"

definition play_long_opts :: "long_opt list" where
  "play_long_opts =
     [letter_opt ''help'' no_argument (CHR ''h''),
      letter_opt ''quiet'' no_argument (CHR ''q''),
      letter_opt ''immediate'' no_argument (CHR ''i''),
      letter_opt ''loop'' no_argument (CHR ''l''),
      lopt_opt ''pause'' no_argument 0,
      letter_opt ''keep-alive'' no_argument (CHR ''k''),
      lopt_opt ''clock'' no_argument 1,
      lopt_opt ''try-future-version'' no_argument 2,
      lopt_opt ''topics'' no_argument 3,
      lopt_opt ''pause-topics'' no_argument 8,
      lopt_opt ''wait-for-subscribers'' no_argument 9,
      letter_opt ''prefix'' required_argument (CHR ''p''),
      letter_opt ''delay'' required_argument (CHR ''d''),
      letter_opt ''rate'' required_argument (CHR ''r''),
      lopt_opt ''queue'' required_argument 4,
      lopt_opt ''hz'' required_argument 5,
      lopt_opt ''skip-empty'' required_argument 6,
      letter_opt ''start'' required_argument (CHR ''s''),
      lopt_opt ''bags'' required_argument 7,
      letter_opt ''duration'' required_argument (CHR ''u'')]"

definition play_letters :: string where
  "play_letters = ''hp:qid:r:s:u:lk''"

definition play_ShowUsage :: "string list" where
  "play_ShowUsage =
    [''Usage: rosbag play BAGFILE1 [BAGFILE2 BAGFILE3 ...]                                 '',
     '''',
     ''Play back the contents of one or more bag files in a time-synchronized'',
     ''fashion.'',
     '''',
     ''Options:'',
     ''  -h, --help            show this help message and exit'',
     ''  -p PREFIX, --prefix=PREFIX'',
     ''                        prefix all output topics'',
     ''  -q, --quiet           suppress console output'',
     ''  -i, --immediate       play back all messages without waiting'',
     ''  --pause               start in paused mode'',
     ''  --queue=SIZE          use an outgoing queue of size SIZE (defaults to 100)'',
     ''  --clock               publish the clock time'',
     ''  --hz=HZ               use a frequency of HZ when publishing clock time'',
     ''                        (default: 100)'',
     ''  -d SEC, --delay=SEC   sleep SEC seconds after every advertise call (to allow'',
     ''                        subscribers to connect)'',
     ''  -r FACTOR, --rate=FACTOR'',
     ''                        multiply the publish rate by FACTOR'',
     ''  -s SEC, --start=SEC   start SEC seconds into the bag files'',
     ''  -u SEC, --duration=SEC'',
     ''                        play only SEC seconds from the bag files'',
     ''  --skip-empty=SEC      skip regions in the bag with no messages for more than'',
     ''                        SEC seconds'',
     ''  -l, --loop            loop playback'',
     ''  -k, --keep-alive      keep alive past end of bag (useful for publishing'',
     ''                        latched topics)'',
     ''  --try-future-version  still try to open a bag file, even if the version'',
     ''                        number is not known to the player'',
     ''  --topics              topics to play back'',
     ''  --pause-topics        topics to pause on during playback'',
     ''  --bags=BAGS           bags files to play back from'',
     ''  --wait-for-subscribers'',
     ''                        wait for at least one subscriber on each topic before'',
     ''                        publishing'']"

text \<open>
  One option. The letters \<open>p i q d r s u l k\<close> have empty cases; the case of 0 has empty cases
  for 0 to 9 and no \<open>break\<close>, so it falls through to the default.
\<close>

definition play_option :: "opt_event \<Rightarrow> play_state \<Rightarrow> unit res \<times> play_state" where
  "play_option e s =
     (if opt_c e = CHR ''h'' then (Inl (ProgramExit 0), s\<lparr>play_out := play_out s @ play_ShowUsage\<rparr>)
      else if opt_c e \<in> set ''piqdrsulk'' then (Inr (), s)
      else if opt_c e = CHR 0x00 then
        (Inr (), s\<lparr>play_out := play_out s @
           (if 0 \<le> opt_l e \<and> opt_l e \<le> 9 then [] else [''error option.'']) @ [''error option.'']\<rparr>)
      else (Inr (), s\<lparr>play_out := play_out s @ [''error option.'']\<rparr>))"

fun play_options :: "opt_event list \<Rightarrow> play_state \<Rightarrow> unit res \<times> play_state" where
  "play_options [] s = (Inr (), s)"
| "play_options (e # es) s = bind_bag (play_option e s) (\<lambda>_ s. play_options es s)"

definition ParseOptions :: "string list \<Rightarrow> PlayerOptions \<Rightarrow> unit res \<times> play_state" where
  "ParseOptions args o' =
     (case getopt_long play_long_opts play_letters (-1) args of (es, others) \<Rightarrow>
        bind_bag (play_options es \<lparr>play_opts = o', play_out = []\<rparr>) (\<lambda>_ s.
          (Inr (), s\<lparr>play_opts := (play_opts s)\<lparr>p_bags := p_bags (play_opts s) @ others\<rparr>\<rparr>)))"

section \<open>What the options do\<close>

lemma play_option_keeps: "play_opts (snd (play_option e s)) = play_opts s"
  by (simp add: play_option_def)

lemma play_options_cases:
  "(if CHR ''h'' \<in> opt_c ` set es
    then fst (play_options es s) = Inl (ProgramExit 0)
    else fst (play_options es s) = Inr ()) \<and>
   play_opts (snd (play_options es s)) = play_opts s"
proof (induction es arbitrary: s)
  case (Cons e es)
  show ?case
  proof (cases "opt_c e = CHR ''h''")
    case True
    then show ?thesis by (simp add: play_option_def)
  next
    case False
    then have "fst (play_option e s) = Inr ()" by (simp add: play_option_def)
    then obtain s' where s': "play_option e s = (Inr (), s')" "play_opts s' = play_opts s"
      using play_option_keeps [of e s] by (metis prod.collapse)
    with Cons.IH [of s'] False show ?thesis by simp
  qed
qed simp

text \<open>
  No option of the player has any effect: whatever the command line is, \<open>ParseOptions\<close>
  either prints the usage and ends the program with status 0, exactly when one of the options is
  \<open>-h\<close>, or returns the options it was given with nothing but the arguments that are not options
  added to the bags.
\<close>

theorem play_options_ignored:
  "case getopt_long play_long_opts play_letters (-1) args of (es, others) \<Rightarrow>
     if CHR ''h'' \<in> opt_c ` set es
     then fst (ParseOptions args o') = Inl (ProgramExit 0)
     else fst (ParseOptions args o') = Inr () \<and>
       play_opts (snd (ParseOptions args o')) = o'\<lparr>p_bags := p_bags o' @ others\<rparr>"
proof -
  obtain es others where g: "getopt_long play_long_opts play_letters (-1) args = (es, others)"
    by (cases "getopt_long play_long_opts play_letters (-1) args")
  obtain r s where r: "play_options es \<lparr>play_opts = o', play_out = []\<rparr> = (r, s)"
    by (cases "play_options es \<lparr>play_opts = o', play_out = []\<rparr>")
  from play_options_cases [of es "\<lparr>play_opts = o', play_out = []\<rparr>"] show ?thesis
    by (auto simp: ParseOptions_def g r split: if_splits)
qed

text \<open>For instance \<open>--loop\<close> and \<open>--rate 2\<close>, with the loop and the rate left as they were.\<close>

lemma play_options_example:
  "play_opts (snd (ParseOptions [''--loop'', ''a.bag'', ''-r'', ''2'', ''b.bag''] PlayerOptions_default)) =
     PlayerOptions_default\<lparr>p_bags := [''a.bag'', ''b.bag'']\<rparr>"
  by code_simp

end
