(* ===== verification/Playback.thy ===== *)
theory Playback
  imports Player
begin

text \<open>
  What the player does with the records of its bags: the timers of a pass lie exactly as far apart
  as the records, \<open>DoPublish\<close> is called for every record once, and what a second pass or an empty bag does.
\<close>

section \<open>The view\<close>

lemma add_all_AddQueries: "add_all bs s e v = AddQueries (map (\<lambda>b. (b, TrueQuery, s, e)) bs) v"
proof (induction bs arbitrary: v)
  case Nil
  then show ?case by simp
next
  case (Cons b bs)
  then have "add_all bs s e = AddQueries (map (\<lambda>b. (b, TrueQuery, s, e)) bs)" by (simp add: fun_eq_iff)
  then show ?case by (simp add: AddQuery_all_True)
qed

lemma records_on_topics_all: "records_on_topics (map (\<lambda>b. (b, TrueQuery, s, e)) bs) = concat (map records bs)"
  by (simp add: records_on_topics_def TrueQuery_def case_prod_beta comp_def)

lemma add_all_records:
  assumes "\<forall>b \<in> set bs. readable_bag b"
  shows "\<exists>v. add_all bs s e View_new = Inr v \<and> GetRecords v = sort_key fst (concat (map records bs))"
proof -
  have "\<forall>(b, _) \<in> set (map (\<lambda>b. (b, TrueQuery, s, e)) bs). readable_bag b" using assms by auto
  from AddQueries_records [OF this, of View_new] show ?thesis
    by (auto simp: add_all_AddQueries records_on_topics_all GetRecords_def View_new_def mm_insert_all_sort_key)
qed

section \<open>The schedule of a pass\<close>

lemma play_jobs_simps:
  "map fst (play_jobs addr diff rs) = map addr [0..<length rs]"
  "map (\<lambda>(a, r, t). r) (play_jobs addr diff rs) = map snd rs"
  "map (\<lambda>(a, r, t). t) (play_jobs addr diff rs) = map (\<lambda>(k, r). AddTime k diff) rs"
  by (rule nth_equalityI; simp add: play_jobs_def nth_enumerate_eq split: prod.split)+

definition addresses_ok :: "(nat \<Rightarrow> nat) \<Rightarrow> nat \<Rightarrow> bool" where
  "addresses_ok addr n \<longleftrightarrow> inj_on addr {..<n} \<and> (\<forall>i < n. addr i \<noteq> 0)"

lemma addresses_jobs:
  "addresses_ok addr (length rs) \<Longrightarrow> distinct (map fst (play_jobs addr diff rs)) \<and> 0 \<notin> fst ` set (play_jobs addr diff rs)"
proof -
  assume a: "addresses_ok addr (length rs)"
  have "fst ` set (play_jobs addr diff rs) = set (map fst (play_jobs addr diff rs))" by simp
  then have "fst ` set (play_jobs addr diff rs) = addr ` {..<length rs}" by (simp only: play_jobs_simps) auto
  with a show ?thesis by (auto simp: play_jobs_simps addresses_ok_def distinct_map atLeast0LessThan)
qed

text \<open>All the times of a pass move by the same number of nanoseconds.\<close>

definition times_ok :: "double \<Rightarrow> bag_records \<Rightarrow> bool" where
  "times_ok diff rs \<longleftrightarrow> (\<forall>(k, r) \<in> set rs. k = timestamp_ns r \<and>
     0 < nanos k + sint (delta_of diff) \<and> nanos k + sint (delta_of diff) < 2 ^ 63)"

lemma job_times:
  assumes "times_ok diff rs" and "(a, r, t) \<in> set (play_jobs addr diff rs)"
  shows "nanos t = nanos (timestamp_ns r) + sint (delta_of diff) \<and> Valid t"
proof -
  from assms(2) obtain i k where "(i, (k, r)) \<in> set (enumerate 0 rs)" and t: "t = AddTime k diff"
    by (auto simp: play_jobs_def)
  then have "(k, r) \<in> set rs" by (metis enumerate_eq_zip set_zip_rightD)
  with assms(1) have k: "k = timestamp_ns r" "0 < nanos k + sint (delta_of diff)" "nanos k + sint (delta_of diff) < 2 ^ 63"
    by (auto simp: times_ok_def)
  then have "nanos t = nanos (timestamp_ns r) + sint (delta_of diff)"
    unfolding t k(1) by (intro nanos_AddTime) auto
  with k show ?thesis by (simp add: Valid_def)
qed

text \<open>The order of the timers is the order of the records' times.\<close>

lemma jobs_sorted:
  assumes "times_ok diff rs"
  shows "sorted (map timestamp_ns (map (\<lambda>(a, r, t). r) (sort_key due (play_jobs addr diff rs))))"
proof -
  let ?js = "play_jobs addr diff rs"
  have "sorted (map due (sort_key due ?js))" by simp
  then have s: "sorted_wrt (\<lambda>x y. due x \<le> due y) (sort_key due ?js)" by (simp add: sorted_map)
  have "sorted_wrt (\<lambda>x y. timestamp_ns (fst (snd x)) \<le> timestamp_ns (fst (snd y))) (sort_key due ?js)"
  proof (rule sorted_wrt_mono_rel [OF _ s])
    fix x y assume x: "x \<in> set (sort_key due ?js)" and y: "y \<in> set (sort_key due ?js)" and le: "due x \<le> due y"
    obtain a r t b q u where xy: "x = (a, r, t)" "y = (b, q, u)" by (cases x; cases y)
    have "t \<le> u" using le by (auto simp: xy due_def less_eq_prod_def)
    with job_times [OF assms, of a r t addr] job_times [OF assms, of b q u addr] x y xy
    show "timestamp_ns (fst (snd x)) \<le> timestamp_ns (fst (snd y))"
      by (simp add: timestamp_le_iff)
  qed
  then show ?thesis by (simp add: sorted_map case_prod_beta comp_def)
qed

definition fired_of :: "player \<Rightarrow> message_record list" where
  "fired_of p = fired (p_timer_queue p)"

lemma play_pass_serves:
  assumes "GetRecords v = rs" and "rs \<noteq> []" and "p_timer_queue p = TimerQueue_new True"
    and "diff = TimeDifference (pass_now x) (fst (hd rs))" and "times_ok diff rs"
    and "addresses_ok (pass_addr x) (length rs)"
    and "prompt (map due (sort_key due (play_jobs (pass_addr x) diff rs))) (pass_wakes x)"
  shows "\<exists>q. play_pass x v p = (Inr Returned, p\<lparr>p_timer_queue := q\<rparr>) \<and> timers q = [] \<and> \<not> fd_open (timerfd q) \<and>
    fired q = map (\<lambda>(a, r, t). r) (sort_key due (play_jobs (pass_addr x) diff rs))"
proof -
  let ?js = "play_jobs (pass_addr x) diff rs"
  have b: "GetBeginTime v = Inr (fst (hd rs))" using assms(1,2) by (cases rs) (auto simp: GetBeginTime_def GetRecords_def)
  have "length ?js = length rs" by (simp add: play_jobs_def)
  then have ne: "?js \<noteq> []" using assms(2) by auto
  have val: "\<forall>j \<in> set ?js. Valid (snd (snd j))" using job_times [OF assms(5)] by auto
  from addresses_jobs [OF assms(6), of diff] obtain q q' where
    "AddTimers ?js (TimerQueue_new True) = Inr q" "Loop (loop_now x) (loop_arm x) (pass_wakes x) q = Inr (Returned, q')"
    "fired q' = map (\<lambda>(a, cb, t). cb) (sort_key due ?js)" "timers q' = []" "\<not> fd_open (timerfd q')"
    using Loop_serves_schedule [OF _ _ ne val assms(7), of "loop_now x" "loop_arm x"] by blast
  then show ?thesis
    using assms(1,3,4) b by (intro exI [of _ q']) (simp add: play_pass_def tq_Run_def Let_def)
qed

lemma jobs_mset: "mset (map (\<lambda>(a, r, t). r) (sort_key due (play_jobs addr diff rs))) = mset (map snd rs)"
proof -
  have "mset (map (\<lambda>(a, r, t). r) (sort_key due (play_jobs addr diff rs))) =
      mset (map (\<lambda>(a, r, t). r) (play_jobs addr diff rs))" by (simp only: mset_map mset_sort)
  then show ?thesis by (simp only: play_jobs_simps)
qed

section \<open>A queue whose descriptor is closed\<close>

lemma Loop_closed:
  assumes "\<not> fd_open (timerfd q)"
  shows "\<exists>q'. Loop now now' ws q = Inr (Returned, q') \<and> fired q' = fired q \<and> timers q' = timers q \<and>
    \<not> fd_open (timerfd q')"
proof -
  let ?q = "if \<not> loop_running q
        then q\<lparr>timerfd := ResetTimerfd now' now (timerfd q), loop_running := True\<rparr> else q"
  have "\<not> fd_open (timerfd ?q)" using assms by (simp add: ResetTimerfd_def)
  from loop_while_closed [OF this, of ws] assms show ?thesis by (simp add: Loop_def ResetTimerfd_def)
qed

lemma play_pass_closed:
  assumes "GetRecords v = rs" and "rs \<noteq> []" and "timers (p_timer_queue p) = []"
    and "\<not> fd_open (timerfd (p_timer_queue p))" and "addresses_ok (pass_addr x) (length rs)"
  shows "\<exists>q. play_pass x v p = (Inr Returned, p\<lparr>p_timer_queue := q\<rparr>) \<and> fired q = fired (p_timer_queue p) \<and>
    set (timers q) = due ` set (play_jobs (pass_addr x) (TimeDifference (pass_now x) (fst (hd rs))) rs)"
proof -
  let ?js = "play_jobs (pass_addr x) (TimeDifference (pass_now x) (fst (hd rs))) rs"
  have b: "GetBeginTime v = Inr (fst (hd rs))" using assms(1,2) by (cases rs) (auto simp: GetBeginTime_def GetRecords_def)
  have ok: "tq_ok (p_timer_queue p)" "one_shot (p_timer_queue p)" using assms(3) by (simp_all add: tq_ok_def one_shot_def)
  have "fresh_addresses ?js (p_timer_queue p)"
    using addresses_jobs [OF assms(5)] assms(3) by (simp add: fresh_addresses_def)
  from AddTimers_fresh [OF ok this] obtain q where
    q: "AddTimers ?js (p_timer_queue p) = Inr q" "set (timers q) = due ` set ?js" "timerfd q = timerfd (p_timer_queue p)"
      "fired q = fired (p_timer_queue p)" using assms(3) by auto
  then have "\<not> fd_open (timerfd q)" using assms(4) by simp
  from Loop_closed [OF this, of "loop_now x" "loop_arm x" "pass_wakes x"] q b assms(1) show ?thesis
    by (auto simp: play_pass_def tq_Run_def Let_def)
qed

section \<open>Properties\<close>

text \<open>
  C13. The timers of playback keep the gaps: one pass without \<open>--loop\<close> over a view with records sets
  for each a timer that calls \<open>DoPublish\<close>, whose due times lie exactly as far apart as the records, all
  moved by the same number of nanoseconds, which is the distance from the first record to the start
  of playback up to the rounding of \<open>double\<close>; every record gets its call exactly once, in the order of the
  record times, and the pass is done. (How late a wake-up comes after the due time is up to the
  system, and \<open>DoPublish\<close> prints and does not publish.)
\<close>

theorem playback_keeps_gaps:
  assumes "GetRecords v = rs" and "rs \<noteq> []" and "p_timer_queue p = TimerQueue_new True"
    and "\<not> p_loop (p_options p)"
    and "diff = TimeDifference (pass_now x) (fst (hd rs))" and "times_ok diff rs"
    and "\<bar>nanos (pass_now x) - nanos (fst (hd rs))\<bar> < 2 ^ 62"
    and "addresses_ok (pass_addr x) (length rs)"
    and "prompt (map due (sort_key due (play_jobs (pass_addr x) diff rs))) (pass_wakes x)"
  shows "\<exists>p' shift. play_passes (x # xs) v p = (Inr PlayDone, p') \<and>
    mset (fired_of p') = mset (map snd rs) \<and> sorted (map timestamp_ns (fired_of p')) \<and>
    (\<forall>(a, r, t) \<in> set (play_jobs (pass_addr x) diff rs). nanos t = nanos (timestamp_ns r) + shift) \<and>
    \<bar>shift - (nanos (pass_now x) - nanos (fst (hd rs)))\<bar> < 4096"
proof -
  from play_pass_serves [OF assms(1-3,5,6,8,9)] obtain q where
    q: "play_pass x v p = (Inr Returned, p\<lparr>p_timer_queue := q\<rparr>)"
      "fired q = map (\<lambda>(a, r, t). r) (sort_key due (play_jobs (pass_addr x) diff rs))" by blast
  let ?p = "p_print ''Done.'' (p\<lparr>p_timer_queue := q\<rparr>)"
  have "play_passes (x # xs) v p = (Inr PlayDone, ?p)" using q(1) assms(4) by simp
  moreover have f: "fired_of ?p = fired q" by (simp add: fired_of_def p_print_def)
  moreover have "mset (fired q) = mset (map snd rs)" unfolding q(2) by (rule jobs_mset)
  moreover have "sorted (map timestamp_ns (fired q))" unfolding q(2) by (rule jobs_sorted [OF assms(6)])
  moreover have "\<forall>(a, r, t) \<in> set (play_jobs (pass_addr x) diff rs).
      nanos t = nanos (timestamp_ns r) + sint (delta_of diff)"
    using job_times [OF assms(6)] by blast
  moreover have "\<bar>sint (delta_of diff) - (nanos (pass_now x) - nanos (fst (hd rs)))\<bar> < 4096"
    using delta_of_TimeDifference [OF assms(7)] assms(5) by simp
  ultimately show ?thesis by metis
qed

definition demo_records :: bag_records where
  "demo_records = [(Timestamp 1000, MessageRecord 1000 ''/tf'' ''a''), (Timestamp 1500, MessageRecord 1500 ''/gps'' ''b'')]"

definition demo_view :: view where
  "demo_view = \<lparr>filtering_records = demo_records, bag_querys = []\<rparr>"

definition demo_player :: player where
  "demo_player = Player_new PlayerOptions_default ''127.0.0.1'' 10086 10240 True
     \<lparr>files = Map.empty, creatable = (\<lambda>_. True), quota = 5000\<rparr>"

definition demo_pass :: pass where
  "demo_pass = \<lparr>pass_now = Timestamp 8000, pass_addr = (\<lambda>i. 16 * (i + 1)), loop_now = Timestamp 8010,
     loop_arm = Timestamp 8011, pass_wakes = [\<lparr>handle_now = Timestamp 8200, arm_now = Timestamp 8201\<rparr>,
       \<lparr>handle_now = Timestamp 8700, arm_now = Timestamp 8701\<rparr>]\<rparr>"

lemma demo_diff: "sint (delta_of (TimeDifference (Timestamp 8000) (Timestamp 1000))) = 7000"
  by code_simp

lemma demo_pass_ok:
  defines "diff \<equiv> TimeDifference (pass_now demo_pass) (fst (hd demo_records))"
  shows "GetRecords demo_view = demo_records" "demo_records \<noteq> []" "p_timer_queue demo_player = TimerQueue_new True"
    "times_ok diff demo_records" "\<bar>nanos (pass_now demo_pass) - nanos (fst (hd demo_records))\<bar> < 2 ^ 62"
    "addresses_ok (pass_addr demo_pass) (length demo_records)"
    "prompt (map due (sort_key due (play_jobs (pass_addr demo_pass) diff demo_records))) (pass_wakes demo_pass)"
proof -
  have d: "diff = TimeDifference (Timestamp 8000) (Timestamp 1000)" by (simp add: diff_def demo_pass_def demo_records_def)
  show "GetRecords demo_view = demo_records" "demo_records \<noteq> []" "p_timer_queue demo_player = TimerQueue_new True"
    by (simp_all add: GetRecords_def demo_view_def demo_records_def demo_player_def Player_new_def)
  show "times_ok diff demo_records" by (simp add: times_ok_def d demo_diff demo_records_def MessageRecord_def)
  show "\<bar>nanos (pass_now demo_pass) - nanos (fst (hd demo_records))\<bar> < 2 ^ 62"
    by (simp add: demo_pass_def demo_records_def)
  show "addresses_ok (pass_addr demo_pass) (length demo_records)"
    by (auto simp: addresses_ok_def demo_pass_def inj_on_def)
  show "prompt (map due (sort_key due (play_jobs (pass_addr demo_pass) diff demo_records))) (pass_wakes demo_pass)"
    unfolding d by code_simp
qed

theorem playback_keeps_gaps_witness:
  "\<exists>p'. play_passes [demo_pass] demo_view demo_player = (Inr PlayDone, p') \<and>
     mset (fired_of p') = {#MessageRecord 1000 ''/tf'' ''a'', MessageRecord 1500 ''/gps'' ''b''#} \<and>
     sorted (map timestamp_ns (fired_of p'))"
proof -
  have l: "\<not> p_loop (p_options demo_player)" by (simp add: demo_player_def Player_new_def PlayerOptions_default_def)
  note ok = demo_pass_ok
  from playback_keeps_gaps [OF ok(1-3) l refl ok(4-7), of "[]"] show ?thesis
    by (auto simp: demo_records_def)
qed

text \<open>
  \<open>--loop\<close> plays once: the first pass closes the descriptor of the timers, so the second pass
  puts all its timers in the queue, the event loop returns at once, and \<open>DoPublish\<close> is not called again.
\<close>

theorem loop_mode_plays_once:
  assumes "GetRecords v = rs" and "rs \<noteq> []" and "p_timer_queue p = TimerQueue_new True"
    and "p_loop (p_options p)"
    and "diff = TimeDifference (pass_now x) (fst (hd rs))" and "times_ok diff rs"
    and "addresses_ok (pass_addr x) (length rs)" and "addresses_ok (pass_addr y) (length rs)"
    and "prompt (map due (sort_key due (play_jobs (pass_addr x) diff rs))) (pass_wakes x)"
  shows "\<exists>p'. play_passes [x, y] v p = (Inr StillPlaying, p') \<and> mset (fired_of p') = mset (map snd rs) \<and>
    set (timers (p_timer_queue p')) =
      due ` set (play_jobs (pass_addr y) (TimeDifference (pass_now y) (fst (hd rs))) rs)"
proof -
  from play_pass_serves [OF assms(1-3,5-7,9)] obtain q where
    q: "play_pass x v p = (Inr Returned, p\<lparr>p_timer_queue := q\<rparr>)" "timers q = []" "\<not> fd_open (timerfd q)"
      "fired q = map (\<lambda>(a, r, t). r) (sort_key due (play_jobs (pass_addr x) diff rs))" by blast
  let ?p = "p\<lparr>p_timer_queue := q\<rparr>"
  have "timers (p_timer_queue ?p) = []" "\<not> fd_open (timerfd (p_timer_queue ?p))" using q by simp_all
  from play_pass_closed [OF assms(1,2) this assms(8)] obtain q2 where
    q2: "play_pass y v ?p = (Inr Returned, ?p\<lparr>p_timer_queue := q2\<rparr>)" "fired q2 = fired q"
      "set (timers q2) = due ` set (play_jobs (pass_addr y) (TimeDifference (pass_now y) (fst (hd rs))) rs)"
    by auto
  have "play_passes [x, y] v p = (Inr StillPlaying, ?p\<lparr>p_timer_queue := q2\<rparr>)"
    using q(1) q2(1) assms(4) by simp
  moreover have "mset (fired q) = mset (map snd rs)" unfolding q(4) by (rule jobs_mset)
  ultimately show ?thesis using q2(2,3) by (intro exI conjI) (assumption, simp_all add: fired_of_def)
qed

theorem loop_mode_plays_once_witness:
  "\<exists>p'. play_passes [demo_pass, demo_pass\<lparr>pass_now := Timestamp 9000\<rparr>] demo_view
       (demo_player\<lparr>p_options := PlayerOptions_default\<lparr>p_loop := True\<rparr>\<rparr>) = (Inr StillPlaying, p') \<and>
     mset (fired_of p') = {#MessageRecord 1000 ''/tf'' ''a'', MessageRecord 1500 ''/gps'' ''b''#}"
proof -
  let ?p = "demo_player\<lparr>p_options := PlayerOptions_default\<lparr>p_loop := True\<rparr>\<rparr>"
  have q: "p_timer_queue ?p = TimerQueue_new True" "p_loop (p_options ?p)" by (simp_all add: demo_pass_ok(3))
  have a: "addresses_ok (pass_addr (demo_pass\<lparr>pass_now := Timestamp 9000\<rparr>)) (length demo_records)"
    using demo_pass_ok(6) by simp
  from loop_mode_plays_once [OF demo_pass_ok(1,2) q refl demo_pass_ok(4,6) a demo_pass_ok(7)]
  show ?thesis by (auto simp: demo_records_def)
qed

end
