(* ===== verification/Conf.thy ===== *)
theory Conf
  imports Prelude
begin

text \<open>
  The configuration, \<open>src/conf/msgbag_conf.h\<close> and \<open>msgbag_conf.cpp\<close>. The TOML parser is a
  third-party library and a parameter: its result is the map from qualified keys to values, or
  none when it throws its \<open>parse_exception\<close>. \<open>as<T>()\<close> gives a null pointer when the value has
  another type, and \<open>->get()\<close> on it is undefined. The constructor initialises nothing, so the
  object that \<open>LoadConf\<close> is called on is arbitrary. The line printed when parsing fails is left out.
\<close>

datatype toml_value = TomlString string | TomlInt "64 word" | TomlBool bool | TomlOther

type_synonym toml = "string \<Rightarrow> toml_value option"

record conf =
  ip :: string
  port :: "32 word"
  conf_buffer_size :: "32 word"
  r_logger_name :: string
  r_log_file :: string
  p_logger_name :: string
  p_log_file :: string
  logfile_max_size :: "32 word"
  max_logfile_num :: "32 word"

text \<open>The lambdas \<open>Strings\<close> and \<open>Integer\<close>; the integer is truncated to an \<open>int\<close>.\<close>

definition Strings :: "toml \<Rightarrow> string \<Rightarrow> string \<Rightarrow> string res" where
  "Strings table key value =
     (case table key of
        Some (TomlString s) \<Rightarrow> Inr s
      | Some _ \<Rightarrow> Inl UndefinedBehaviour
      | None \<Rightarrow> Inr value)"

definition Integer :: "toml \<Rightarrow> string \<Rightarrow> 32 word \<Rightarrow> 32 word res" where
  "Integer table key value =
     (case table key of
        Some (TomlInt i) \<Rightarrow> Inr (ucast i)
      | Some _ \<Rightarrow> Inl UndefinedBehaviour
      | None \<Rightarrow> Inr value)"

definition set_field :: "'a res \<Rightarrow> ('a \<Rightarrow> conf \<Rightarrow> conf) \<Rightarrow> conf res \<Rightarrow> conf res" where
  "set_field r f m = bind_res m (\<lambda>c. bind_res r (\<lambda>v. Inr (f v c)))"

text \<open>The result: what \<open>LoadConf\<close> returns, and the object after it.\<close>

definition LoadConf :: "toml option \<Rightarrow> conf \<Rightarrow> (bool \<times> conf) res" where
  "LoadConf parsed c =
     (case parsed of
        None \<Rightarrow> Inr (False, c)
      | Some table \<Rightarrow>
          bind_res
            (set_field (Integer table ''max_files'' 3) (\<lambda>v c. c\<lparr>max_logfile_num := v\<rparr>)
            (set_field (Integer table ''max_size'' 102400) (\<lambda>v c. c\<lparr>logfile_max_size := v\<rparr>)
            (set_field (Strings table ''player.log_file'' ''player.log'') (\<lambda>v c. c\<lparr>p_log_file := v\<rparr>)
            (set_field (Strings table ''player.logger_name'' ''player'') (\<lambda>v c. c\<lparr>p_logger_name := v\<rparr>)
            (set_field (Strings table ''recorder.log_file'' ''recorder.log'') (\<lambda>v c. c\<lparr>r_log_file := v\<rparr>)
            (set_field (Strings table ''recorder.logger_name'' ''recorder'') (\<lambda>v c. c\<lparr>r_logger_name := v\<rparr>)
            (set_field (Integer table ''buffer_size'' 10240) (\<lambda>v c. c\<lparr>conf_buffer_size := v\<rparr>)
            (set_field (Integer table ''port'' 10086) (\<lambda>v c. c\<lparr>port := v\<rparr>)
            (set_field (Strings table ''ip'' ''0.0.0.0'') (\<lambda>v c. c\<lparr>ip := v\<rparr>)
               (Inr c))))))))))
            (\<lambda>c. Inr (True, c)))"

definition GetIp :: "conf \<Rightarrow> string" where "GetIp c = ip c"
definition GetPort :: "conf \<Rightarrow> int" where "GetPort c = sint (port c)"
definition GetBufferSize :: "conf \<Rightarrow> 32 word" where "GetBufferSize c = conf_buffer_size c"
definition GetRecorderLoggerName :: "conf \<Rightarrow> string" where "GetRecorderLoggerName c = r_logger_name c"
definition GetRecorderLogFile :: "conf \<Rightarrow> string" where "GetRecorderLogFile c = r_log_file c"
definition GetPlayerLoggerName :: "conf \<Rightarrow> string" where "GetPlayerLoggerName c = p_logger_name c"
definition GetPlayerLogFile :: "conf \<Rightarrow> string" where "GetPlayerLogFile c = p_log_file c"
definition GetLogfileMaxSize :: "conf \<Rightarrow> 32 word" where "GetLogfileMaxSize c = logfile_max_size c"
definition GetMaxLogfileNum :: "conf \<Rightarrow> 32 word" where "GetMaxLogfileNum c = max_logfile_num c"

section \<open>Types of the entries\<close>

definition string_keys :: "string list" where
  "string_keys =
     [''ip'', ''recorder.logger_name'', ''recorder.log_file'', ''player.logger_name'', ''player.log_file'']"

definition integer_keys :: "string list" where
  "integer_keys = [''port'', ''buffer_size'', ''max_size'', ''max_files'']"

definition well_typed :: "toml \<Rightarrow> bool" where
  "well_typed table \<longleftrightarrow>
     (\<forall>k \<in> set string_keys. table k \<in> {None} \<union> range (Some \<circ> TomlString)) \<and>
     (\<forall>k \<in> set integer_keys. table k \<in> {None} \<union> range (Some \<circ> TomlInt))"

definition string_entry :: "toml \<Rightarrow> string \<Rightarrow> string \<Rightarrow> string" where
  "string_entry table k d = (case table k of Some (TomlString s) \<Rightarrow> s | _ \<Rightarrow> d)"

definition integer_entry :: "toml \<Rightarrow> string \<Rightarrow> int \<Rightarrow> int" where
  "integer_entry table k d = (case table k of Some (TomlInt i) \<Rightarrow> sint i | _ \<Rightarrow> d)"

lemma Strings_cases:
  "Strings table k d =
     (if table k \<in> {None} \<union> range (Some \<circ> TomlString) then Inr (string_entry table k d) else Inl UndefinedBehaviour)"
  by (auto simp: Strings_def string_entry_def split: option.splits toml_value.splits)

lemma ucast_sint: "ucast (i :: 64 word) = (word_of_int (sint i) :: 32 word)"
  by (rule bit_word_eqI) (auto simp: bit_simps)

lemma Integer_cases:
  "Integer table k (word_of_int d) =
     (if table k \<in> {None} \<union> range (Some \<circ> TomlInt) then Inr (word_of_int (integer_entry table k d))
      else Inl UndefinedBehaviour)"
  by (auto simp: Integer_def integer_entry_def ucast_sint split: option.splits toml_value.splits)

lemma set_field_simps [simp]:
  "set_field (Inr v) f (Inr c) = Inr (f v c)"
  "set_field (Inl e) f (Inr c) = Inl e"
  "set_field r f (Inl e) = Inl e"
  by (simp_all add: set_field_def)

lemma set_field_if:
  "set_field (if p then Inr v else Inl e) f (if q then Inr c else Inl e) = (if q \<and> p then Inr (f v c) else Inl e)"
  by simp

lemma set_field_first:
  "set_field (if p then Inr v else Inl e) f (Inr c) = (if p then Inr (f v c) else Inl e)"
  by simp

lemma well_typed_iff:
  "well_typed table \<longleftrightarrow>
     (((((((((table ''ip'' \<in> {None} \<union> range (Some \<circ> TomlString) \<and>
       table ''port'' \<in> {None} \<union> range (Some \<circ> TomlInt)) \<and>
       table ''buffer_size'' \<in> {None} \<union> range (Some \<circ> TomlInt)) \<and>
       table ''recorder.logger_name'' \<in> {None} \<union> range (Some \<circ> TomlString)) \<and>
       table ''recorder.log_file'' \<in> {None} \<union> range (Some \<circ> TomlString)) \<and>
       table ''player.logger_name'' \<in> {None} \<union> range (Some \<circ> TomlString)) \<and>
       table ''player.log_file'' \<in> {None} \<union> range (Some \<circ> TomlString)) \<and>
       table ''max_size'' \<in> {None} \<union> range (Some \<circ> TomlInt)) \<and>
       table ''max_files'' \<in> {None} \<union> range (Some \<circ> TomlInt)))"
  unfolding well_typed_def string_keys_def integer_keys_def by (simp only: list.set ball_simps simp_thms conj_ac)

text \<open>
  C40. \<open>LoadConf\<close> of a parsed table succeeds exactly when each of the nine keys it reads is absent
  or of the expected type, and then every field has the value of its key (an integer truncated to
  32 bits) or its default; a value of another type dereferences a null pointer. When the file
  cannot be parsed it returns false and leaves the object, which no constructor initialised, as
  it was.
\<close>

theorem LoadConf_well_typed:
  "LoadConf (Some table) c =
     (if well_typed table
      then Inr (True,
        c\<lparr>ip := string_entry table ''ip'' ''0.0.0.0'',
          port := word_of_int (integer_entry table ''port'' 10086),
          conf_buffer_size := word_of_int (integer_entry table ''buffer_size'' 10240),
          r_logger_name := string_entry table ''recorder.logger_name'' ''recorder'',
          r_log_file := string_entry table ''recorder.log_file'' ''recorder.log'',
          p_logger_name := string_entry table ''player.logger_name'' ''player'',
          p_log_file := string_entry table ''player.log_file'' ''player.log'',
          logfile_max_size := word_of_int (integer_entry table ''max_size'' 102400),
          max_logfile_num := word_of_int (integer_entry table ''max_files'' 3)\<rparr>)
      else Inl UndefinedBehaviour) \<and>
   LoadConf None c = Inr (False, c)"
proof -
  have d: "(10086 :: 32 word) = word_of_int 10086" "(10240 :: 32 word) = word_of_int 10240"
    "(102400 :: 32 word) = word_of_int 102400" "(3 :: 32 word) = word_of_int 3" by simp_all
  have b: "bind_res (if p then Inr x else Inl e) (\<lambda>c. Inr (True, c)) = (if p then Inr (True, x) else Inl e)"
    for p e and x :: conf by simp
  show ?thesis
    unfolding LoadConf_def option.case d Strings_cases Integer_cases set_field_first set_field_if b
      well_typed_iff by (simp only: simp_thms)
qed

end
