(* ===== verification/FmtInt.thy ===== *)
theory FmtInt
  imports Prelude
begin

unbundle bit_operations_syntax

text \<open>
  The integer printing of the fmt library, \<open>spdlog/fmt/bundled/format.h\<close> and \<open>format-inl.h\<close>: the
  table of digit pairs, \<open>count_digits\<close> by the position of the highest bit, \<open>format_int\<close>, which fills
  a buffer from its end, \<open>format_decimal\<close> with and without a thousands separator and \<open>format_uint\<close>
  for the bases that are powers of two. A buffer is the list of its characters with the position
  written last; a write before its first character is undefined behaviour. The reference is
  \<open>show_nat\<close> of theory Prelude.
\<close>

section \<open>Tables\<close>

definition DIGITS :: string where
  "DIGITS =
     ''0001020304050607080910111213141516171819'' @
     ''2021222324252627282930313233343536373839'' @
     ''4041424344454647484950515253545556575859'' @
     ''6061626364656667686970717273747576777879'' @
     ''8081828384858687888990919293949596979899''"

definition FMT_POWERS_OF_10 :: "nat \<Rightarrow> nat list" where
  "FMT_POWERS_OF_10 factor =
     [factor * 10, factor * 100, factor * 1000, factor * 10000, factor * 100000, factor * 1000000,
      factor * 10000000, factor * 100000000, factor * 1000000000]"

definition ZERO_OR_POWERS_OF_10_32 :: "nat list" where
  "ZERO_OR_POWERS_OF_10_32 = 0 # FMT_POWERS_OF_10 1"

definition ZERO_OR_POWERS_OF_10_64 :: "nat list" where
  "ZERO_OR_POWERS_OF_10_64 =
     0 # FMT_POWERS_OF_10 1 @ FMT_POWERS_OF_10 1000000000 @ [10000000000000000000]"

lemma length_tables:
  "length DIGITS = 200" "length ZERO_OR_POWERS_OF_10_32 = 10" "length ZERO_OR_POWERS_OF_10_64 = 20"
  by (simp_all add: DIGITS_def ZERO_OR_POWERS_OF_10_32_def ZERO_OR_POWERS_OF_10_64_def FMT_POWERS_OF_10_def)

lemma digit_chars:
  "digit 0 = CHR ''0''" "digit 1 = CHR ''1''" "digit (Suc 0) = CHR ''1''" "digit 2 = CHR ''2''" "digit (Suc (Suc 0)) = CHR ''2''" "digit 3 = CHR ''3''"
  "digit 4 = CHR ''4''" "digit 5 = CHR ''5''" "digit 6 = CHR ''6''" "digit 7 = CHR ''7''" "digit 8 = CHR ''8''"
  "digit 9 = CHR ''9''"
  by code_simp+

lemma DIGITS_pairs: "DIGITS = concat (map (\<lambda>n. [digit (n div 10), digit (n mod 10)]) [0..<100])"
  by (simp add: DIGITS_def upt_rec digit_chars)

lemma nth_concat_pairs:
  "i < length xs \<Longrightarrow> concat (map (\<lambda>x. [f x, g x]) xs) ! (2 * i) = f (xs ! i)"
  "i < length xs \<Longrightarrow> concat (map (\<lambda>x. [f x, g x]) xs) ! Suc (2 * i) = g (xs ! i)"
proof (induction xs arbitrary: i)
  case (Cons x xs)
  { case 1 with Cons show ?case by (cases i) auto }
  { case 2 with Cons show ?case by (cases i) auto }
qed auto

lemma DIGITS_nth:
  assumes "v < 100"
  shows "DIGITS ! (v * 2) = digit (v div 10)" and "DIGITS ! (v * 2 + 1) = digit (v mod 10)"
proof -
  have "v < length [0..<100]" using assms by simp
  from nth_concat_pairs [OF this, of "\<lambda>n. digit (n div 10)" "\<lambda>n. digit (n mod 10)"] assms
  show "DIGITS ! (v * 2) = digit (v div 10)" "DIGITS ! (v * 2 + 1) = digit (v mod 10)"
    unfolding DIGITS_pairs by (simp_all add: mult.commute)
qed

section \<open>Counting digits\<close>

text \<open>\<open>64 - __builtin_clzll(n)\<close> is the number of bits of \<open>n\<close>.\<close>

fun bit_length :: "nat \<Rightarrow> nat" where
  "bit_length n = (if n = 0 then 0 else Suc (bit_length (n div 2)))"

declare bit_length.simps [simp del]

definition count_digits64 :: "64 word \<Rightarrow> int" where
  "count_digits64 n =
     (let t = bit_length (unat (n OR 1)) * 1233 div 2 ^ 12
      in int t - (if unat n < ZERO_OR_POWERS_OF_10_64 ! t then 1 else 0) + 1)"

definition count_digits32 :: "32 word \<Rightarrow> int" where
  "count_digits32 n =
     (let t = bit_length (unat (n OR 1)) * 1233 div 2 ^ 12
      in int t - (if unat n < ZERO_OR_POWERS_OF_10_32 ! t then 1 else 0) + 1)"

lemma bit_length_bounds: "n \<noteq> 0 \<Longrightarrow> 2 ^ (bit_length n - 1) \<le> n \<and> n < 2 ^ bit_length n"
proof (induction n rule: bit_length.induct)
  case (1 n)
  show ?case
  proof (cases "n div 2 = 0")
    case True
    with 1(2) have "n = 1" by linarith
    then show ?thesis by (simp add: bit_length.simps)
  next
    case False
    with 1 have ih: "2 ^ (bit_length (n div 2) - 1) \<le> n div 2" "n div 2 < 2 ^ bit_length (n div 2)" by auto
    obtain k where k: "bit_length (n div 2) = Suc k"
      using False by (subst (asm) bit_length.simps) (cases "bit_length (n div 2)"; auto simp: bit_length.simps [of "n div 2"])
    have "bit_length n = Suc (Suc k)" using 1(2) k by (simp add: bit_length.simps [of n])
    moreover have "2 ^ Suc k \<le> n" "n < 2 ^ Suc (Suc k)" using ih k by simp_all
    ultimately show ?thesis by simp
  qed
qed

lemma bit_length_pos: "n \<noteq> 0 \<Longrightarrow> 0 < bit_length n"
  by (simp add: bit_length.simps)

lemma bit_length_le: "n < 2 ^ k \<Longrightarrow> bit_length n \<le> k"
proof (rule ccontr)
  assume "n < 2 ^ k" "\<not> bit_length n \<le> k"
  then have "n \<noteq> 0" "k \<le> bit_length n - 1" by (auto simp: bit_length.simps [of 0] intro: gr0I)
  with bit_length_bounds [of n] have "(2::nat) ^ k \<le> n"
    by (meson le_trans one_le_numeral power_increasing)
  with \<open>n < 2 ^ k\<close> show False by simp
qed

lemma length_show_nat: "10 ^ k \<le> n \<Longrightarrow> n < 10 ^ Suc k \<Longrightarrow> length (show_nat n) = Suc k"
proof (induction k arbitrary: n)
  case 0
  then show ?case by (simp add: show_nat.simps)
next
  case (Suc k)
  then have "10 ^ k \<le> n div 10" "n div 10 < 10 ^ Suc k"
    by (simp_all add: less_eq_div_iff_mult_less_eq mult.commute div_less_iff_less_mult)
  from Suc.IH [OF this] Suc.prems show ?case
    by (subst show_nat.simps) (auto simp: not_less intro: order_trans [of _ "10 * 10 ^ k"])
qed

text \<open>The multiplication by 1233 and the shift by 12 approximate the logarithm closely enough for 64 bits.\<close>

lemma log10_estimate:
  "\<forall>b \<in> set [1..<65]. let t = b * 1233 div 2 ^ 12
     in (0 < t \<longrightarrow> (10::nat) ^ (t - 1) \<le> 2 ^ (b - 1)) \<and> (2::nat) ^ b \<le> 10 ^ Suc t \<and> t < 20"
  by (simp add: upt_rec Let_def)

lemma power_tables:
  "\<forall>t \<in> set [1..<20]. ZERO_OR_POWERS_OF_10_64 ! t = 10 ^ t"
  "\<forall>t \<in> set [1..<10]. ZERO_OR_POWERS_OF_10_32 ! t = 10 ^ t"
  by (simp_all add: upt_rec ZERO_OR_POWERS_OF_10_32_def ZERO_OR_POWERS_OF_10_64_def FMT_POWERS_OF_10_def)

lemma unat_or_1:
  fixes n :: "'a::len word"
  shows "unat (n OR 1) = (if even (unat n) then Suc (unat n) else unat n)"
proof -
  have "unat (n OR 1) = unat n OR 1" by (simp add: unsigned_or_eq)
  also have "\<dots> = (if even (unat n) then Suc (unat n) else unat n)" using or_one_eq [of "unat n"] by simp
  finally show ?thesis .
qed

lemma bit_length_or_1:
  fixes n :: "'a::len word"
  assumes "n \<noteq> 0"
  shows "bit_length (unat (n OR 1)) = bit_length (unat n)"
proof -
  have nz: "unat n \<noteq> 0" using assms by (simp add: unat_eq_0)
  have "Suc (unat n) div 2 = unat n div 2" if "even (unat n)" using that by auto
  with nz show ?thesis by (auto simp: unat_or_1 bit_length.simps [of "Suc (unat n)"] bit_length.simps [of "unat n"])
qed

lemma digits_by_bits:
  assumes "v \<noteq> 0" and "bit_length v \<le> 64" and "t = bit_length v * 1233 div 2 ^ 12"
    and "table ! t = (if t = 0 then 0 else 10 ^ t)"
  shows "t < 20" and "int t - (if v < table ! t then 1 else 0) + 1 = int (length (show_nat v))"
proof -
  have "bit_length v \<in> set [1..<65]" using bit_length_pos [OF assms(1)] assms(2) by auto
  with log10_estimate assms(3)
  have t: "0 < t \<longrightarrow> (10::nat) ^ (t - 1) \<le> 2 ^ (bit_length v - 1)" "(2::nat) ^ bit_length v \<le> 10 ^ Suc t" "t < 20"
    by (auto simp: Let_def)
  note b = bit_length_bounds [OF assms(1)]
  show "t < 20" by (rule t(3))
  have up: "v < 10 ^ Suc t" using b t(2) by linarith
  show "int t - (if v < table ! t then 1 else 0) + 1 = int (length (show_nat v))"
  proof (cases "v < table ! t")
    case True
    with assms(4) have "0 < t" "v < 10 ^ t" by (auto split: if_splits)
    moreover from this t(1) b have "10 ^ (t - 1) \<le> v" by linarith
    ultimately have "length (show_nat v) = Suc (t - 1)" by (intro length_show_nat) simp_all
    with True \<open>0 < t\<close> show ?thesis by simp
  next
    case False
    with assms(1,4) have "10 ^ t \<le> v" by (auto split: if_splits)
    from length_show_nat [OF this up] False show ?thesis by simp
  qed
qed

lemma count_digits64_length: "count_digits64 n = int (length (show_nat (unat n)))"
proof (cases "n = 0")
  case True
  then show ?thesis
    by (simp add: count_digits64_def unat_or_1 bit_length.simps show_nat.simps ZERO_OR_POWERS_OF_10_64_def)
next
  case False
  then have nz: "unat n \<noteq> 0" by (simp add: unat_eq_0)
  have len: "bit_length (unat n) \<le> 64" by (rule bit_length_le) (use unsigned_less [of n] in simp)
  let ?t = "bit_length (unat n) * 1233 div 2 ^ 12"
  have "?t < 20" using len by (simp add: div_less_iff_less_mult)
  then have "ZERO_OR_POWERS_OF_10_64 ! ?t = (if ?t = 0 then 0 else 10 ^ ?t)"
    using power_tables(1) by (auto simp: ZERO_OR_POWERS_OF_10_64_def)
  from digits_by_bits(2) [OF nz len refl this] show ?thesis
    by (simp add: count_digits64_def bit_length_or_1 [OF False])
qed

lemma count_digits32_length: "count_digits32 n = int (length (show_nat (unat n)))"
proof (cases "n = 0")
  case True
  then show ?thesis
    by (simp add: count_digits32_def unat_or_1 bit_length.simps show_nat.simps ZERO_OR_POWERS_OF_10_32_def)
next
  case False
  then have nz: "unat n \<noteq> 0" by (simp add: unat_eq_0)
  have len: "bit_length (unat n) \<le> 32" by (rule bit_length_le) (use unsigned_less [of n] in simp)
  then have len64: "bit_length (unat n) \<le> 64" by simp
  let ?t = "bit_length (unat n) * 1233 div 2 ^ 12"
  have "?t < 10" using len by (simp add: div_less_iff_less_mult)
  then have "ZERO_OR_POWERS_OF_10_32 ! ?t = (if ?t = 0 then 0 else 10 ^ ?t)"
    using power_tables(2) by (auto simp: ZERO_OR_POWERS_OF_10_32_def)
  from digits_by_bits(2) [OF nz len64 refl this] show ?thesis
    by (simp add: count_digits32_def bit_length_or_1 [OF False])
qed

section \<open>Writing a buffer from its end\<close>

text \<open>\<open>*--ptr = c\<close>: the position and the buffer.\<close>

type_synonym cursor = "nat \<times> string"

definition put_before :: "char \<Rightarrow> cursor \<Rightarrow> cursor res" where
  "put_before c = (\<lambda>(ptr, buf).
     if 0 < ptr \<and> ptr \<le> length buf then Inr (ptr - 1, buf[ptr - 1 := c]) else Inl UndefinedBehaviour)"

text \<open>\<open>format_int::format_decimal\<close>.\<close>

fun format_int_decimal :: "nat \<Rightarrow> cursor \<Rightarrow> cursor res" where
  "format_int_decimal value p =
     (if 100 \<le> value then
        bind_res (put_before (DIGITS ! (value mod 100 * 2 + 1)) p) (\<lambda>p.
        bind_res (put_before (DIGITS ! (value mod 100 * 2)) p) (\<lambda>p.
          format_int_decimal (value div 100) p))
      else if value < 10 then put_before (char_of (48 + value)) p
      else
        bind_res (put_before (DIGITS ! (value * 2 + 1)) p) (\<lambda>p.
          put_before (DIGITS ! (value * 2)) p))"

declare format_int_decimal.simps [simp del]

definition BUFFER_SIZE :: nat where "BUFFER_SIZE = 19 + 3"

text \<open>\<open>format_int\<close> on an unsigned and on a signed 64-bit value; \<open>buf\<close> is what the uninitialised
  buffer holds. The result is \<open>data()\<close> with \<open>size()\<close> characters.\<close>

definition int_data :: "cursor \<Rightarrow> string" where
  "int_data = (\<lambda>(ptr, buf). take (BUFFER_SIZE - 1 - ptr) (drop ptr buf))"

definition format_int_unsigned :: "string \<Rightarrow> 64 word \<Rightarrow> string res" where
  "format_int_unsigned buf value =
     bind_res (format_int_decimal (unat value) (BUFFER_SIZE - 1, buf)) (\<lambda>p. Inr (int_data p))"

definition format_signed :: "string \<Rightarrow> 64 word \<Rightarrow> string res" where
  "format_signed buf value =
     (let negative = sint value < 0;
          abs_value = (if negative then 0 - value else value)
      in bind_res (format_int_decimal (unat abs_value) (BUFFER_SIZE - 1, buf)) (\<lambda>p.
         bind_res (if negative then put_before (CHR ''-'') p else Inr p) (\<lambda>p.
           Inr (int_data p))))"

text \<open>What stands before the position does not matter.\<close>

definition written :: "nat \<Rightarrow> string \<Rightarrow> cursor \<Rightarrow> bool" where
  "written n rest p \<longleftrightarrow> (\<exists>free. p = (length free, free @ rest) \<and> length free + length rest = n)"

lemma put_before_written:
  assumes "written n rest p" and "length rest < n"
  shows "\<exists>p'. put_before c p = Inr p' \<and> written n (c # rest) p'"
proof -
  from assms obtain free where p: "p = (length free, free @ rest)" "length free + length rest = n"
    by (auto simp: written_def)
  with assms(2) obtain f x where f: "free = f @ [x]" by (cases free rule: rev_cases) auto
  have "put_before c p = Inr (length f, f @ c # rest)" using p f by (simp add: put_before_def)
  with p f show ?thesis by (auto simp: written_def)
qed

lemma put_written_cases:
  assumes "written n rest p" and "length rest < n"
  obtains p' where "put_before c p = Inr p'" and "written n (c # rest) p'"
  using put_before_written [OF assms] by blast

lemma char_digit: "char_of (48 + n) = digit n"
  by (simp add: digit_def)

lemma show_nat_pair:
  assumes "100 \<le> v"
  shows "show_nat v = show_nat (v div 100) @ [digit (v mod 100 div 10), digit (v mod 100 mod 10)]"
proof -
  have "show_nat v = show_nat (v div 10) @ [digit (v mod 10)]" using assms by (subst show_nat.simps) simp
  also have "show_nat (v div 10) = show_nat (v div 10 div 10) @ [digit (v div 10 mod 10)]"
    using assms by (subst show_nat.simps) simp
  also have "v div 10 div 10 = v div 100" by (simp flip: div_mult2_eq)
  also have "v div 10 mod 10 = v mod 100 div 10" using mod_mult2_eq [of v 10 10] by simp
  also have "v mod 10 = v mod 100 mod 10" using mod_mod_cancel [of 10 100 v] by simp
  finally show ?thesis by simp
qed

lemma format_int_decimal_written:
  assumes "written n rest p" and "length (show_nat v) + length rest \<le> n"
  shows "\<exists>p'. format_int_decimal v p = Inr p' \<and> written n (show_nat v @ rest) p'"
  using assms
proof (induction v p arbitrary: rest rule: format_int_decimal.induct)
  case (1 v p)
  note prems = "1.prems" and ih = "1.IH"
  consider (big) "100 \<le> v" | (one) "v < 10" | (two) "10 \<le> v" "v < 100" by linarith
  then show ?case
  proof cases
    case big
    note sp = show_nat_pair [OF big]
    have "v mod 100 < 100" by simp
    note d = DIGITS_nth [OF this]
    from prems sp have "length rest < n" by simp
    from put_written_cases [OF prems(1) this] obtain p1 where
      p1: "put_before (DIGITS ! (v mod 100 * 2 + 1)) p = Inr p1" "written n (digit (v mod 100 mod 10) # rest) p1"
      using d(2) by metis
    from prems sp have "length (digit (v mod 100 mod 10) # rest) < n" by simp
    from put_written_cases [OF p1(2) this] obtain p2 where
      p2: "put_before (DIGITS ! (v mod 100 * 2)) p1 = Inr p2"
        "written n (digit (v mod 100 div 10) # digit (v mod 100 mod 10) # rest) p2"
      using d(1) by metis
    from ih [OF big p1(1) p2(1) p2(2)] prems(2) sp obtain p' where
      "format_int_decimal (v div 100) p2 = Inr p'"
      "written n (show_nat (v div 100) @ digit (v mod 100 div 10) # digit (v mod 100 mod 10) # rest) p'" by auto
    with big p1(1) p2(1) sp show ?thesis by (subst format_int_decimal.simps) simp
  next
    case one
    then have s: "show_nat v = [digit v]" by (simp add: show_nat.simps)
    with prems have "length rest < n" by simp
    from put_before_written [OF prems(1) this, of "digit v"] one s show ?thesis
      by (subst format_int_decimal.simps) (simp add: char_digit)
  next
    case two
    then have s: "show_nat v = [digit (v div 10), digit (v mod 10)]" by (simp add: show_nat.simps)
    note d = DIGITS_nth [OF two(2)]
    from prems s have "length rest < n" by simp
    from put_written_cases [OF prems(1) this] obtain p1 where
      p1: "put_before (DIGITS ! (v * 2 + 1)) p = Inr p1" "written n (digit (v mod 10) # rest) p1"
      using d(2) by metis
    from prems s have "length (digit (v mod 10) # rest) < n" by simp
    from put_before_written [OF p1(2) this, of "digit (v div 10)"] p1(1) two s d(1) show ?thesis
      by (subst format_int_decimal.simps) simp
  qed
qed

lemma length_show_64: "n < 2 ^ 64 \<Longrightarrow> length (show_nat n) \<le> 20"
  by (rule length_show_nat_le) simp_all

lemma length_show_word: "length (show_nat (unat (v :: 64 word))) \<le> 20"
proof -
  have "unat v < 2 ^ LENGTH(64)" by (rule unsigned_less)
  then show ?thesis by (intro length_show_64) simp
qed

lemma start_written:
  assumes "length buf = BUFFER_SIZE"
  shows "\<exists>c. written BUFFER_SIZE [c] (BUFFER_SIZE - 1, buf)"
proof -
  from assms obtain free c where "buf = free @ [c]" by (cases buf rule: rev_cases) (auto simp: BUFFER_SIZE_def)
  with assms show ?thesis by (auto simp: written_def)
qed

lemma int_data_written: "written BUFFER_SIZE (ds @ [c]) p \<Longrightarrow> int_data p = ds"
  by (auto simp: written_def int_data_def BUFFER_SIZE_def)

lemma format_int_unsigned_show:
  assumes "length buf = BUFFER_SIZE"
  shows "format_int_unsigned buf v = Inr (show_nat (unat v))"
proof -
  obtain c where c: "written BUFFER_SIZE [c] (BUFFER_SIZE - 1, buf)" using start_written [OF assms] by blast
  have "length (show_nat (unat v)) + length [c] \<le> BUFFER_SIZE"
    using length_show_word [of v] by (simp add: BUFFER_SIZE_def)
  from format_int_decimal_written [OF c this] int_data_written show ?thesis
    by (auto simp: format_int_unsigned_def)
qed

lemma uint_sint_64: "uint (v :: 64 word) = sint v mod 2 ^ 64"
  by (simp add: uint_sint take_bit_eq_mod)

lemma unat_negate:
  fixes v :: "64 word"
  assumes "sint v < 0"
  shows "int (unat (0 - v)) = - sint v"
proof -
  have "uint (0 - v) = (uint (0 :: 64 word) - uint v) mod 2 ^ LENGTH(64)" by (rule uint_word_ariths(2))
  also have "\<dots> = (- uint v) mod 2 ^ 64" by simp
  also have "\<dots> = (- (sint v mod 2 ^ 64)) mod 2 ^ 64" by (simp only: uint_sint_64)
  also have "\<dots> = (- sint v) mod 2 ^ 64" by (rule mod_minus_eq)
  also have "\<dots> = - sint v" by (rule mod_pos_pos_trivial) (use assms sint_range_64 [of v] in simp_all)
  finally show ?thesis by (simp only: uint_nat)
qed

lemma unat_nonneg:
  fixes v :: "64 word"
  assumes "0 \<le> sint v"
  shows "unat v = nat (sint v)"
  using assms sint_range_64 [of v] by (simp add: unat_eq_nat_uint uint_sint_64 mod_pos_pos_trivial)

lemma format_signed_show:
  assumes "length buf = BUFFER_SIZE"
  shows "format_signed buf v = Inr (show_int (sint v))"
proof -
  obtain c where c: "written BUFFER_SIZE [c] (BUFFER_SIZE - 1, buf)" using start_written [OF assms] by blast
  let ?a = "unat (if sint v < 0 then 0 - v else v)"
  have fit: "length (show_nat ?a) + length [c] \<le> BUFFER_SIZE - 1"
    using length_show_word [of "if sint v < 0 then 0 - v else v"] by (simp add: BUFFER_SIZE_def)
  then have "length (show_nat ?a) + length [c] \<le> BUFFER_SIZE" by simp
  from format_int_decimal_written [OF c this] obtain p where
    p: "format_int_decimal ?a (BUFFER_SIZE - 1, buf) = Inr p" "written BUFFER_SIZE (show_nat ?a @ [c]) p" by auto
  show ?thesis
  proof (cases "sint v < 0")
    case True
    with fit have "length (show_nat ?a @ [c]) < BUFFER_SIZE" by (simp add: BUFFER_SIZE_def)
    from put_before_written [OF p(2) this, of "CHR ''-''"] obtain q where
      q: "put_before (CHR ''-'') p = Inr q" "written BUFFER_SIZE ((CHR ''-'' # show_nat ?a) @ [c]) q" by auto
    have "?a = nat (- sint v)" using unat_negate [OF True] True by (metis nat_int)
    with int_data_written [OF q(2)] p(1) q(1) True show ?thesis by (simp add: format_signed_def show_int_def)
  next
    case False
    then have "?a = nat (sint v)" by (simp add: unat_nonneg)
    with int_data_written [OF p(2)] p(1) False show ?thesis by (simp add: format_signed_def show_int_def)
  qed
qed

section \<open>Decimal digits with a thousands separator\<close>

text \<open>The functors \<open>no_thousands_sep\<close> and \<open>add_thousands_sep\<close> with its \<open>digit_index_\<close>.\<close>

datatype thousands_sep = NoSep | AddSep string nat

definition put_string_before :: "string \<Rightarrow> cursor \<Rightarrow> cursor res" where
  "put_string_before s = (\<lambda>(ptr, buf).
     if length s \<le> ptr \<and> ptr \<le> length buf
     then Inr (ptr - length s, take (ptr - length s) buf @ s @ drop ptr buf) else Inl UndefinedBehaviour)"

definition call_sep :: "thousands_sep \<Rightarrow> cursor \<Rightarrow> (thousands_sep \<times> cursor) res" where
  "call_sep sep p =
     (case sep of
        NoSep \<Rightarrow> Inr (NoSep, p)
      | AddSep s i \<Rightarrow>
          if (i + 1) mod 3 \<noteq> 0 then Inr (AddSep s (i + 1), p)
          else bind_res (put_string_before s p) (\<lambda>p. Inr (AddSep s (i + 1), p)))"

fun format_decimal :: "nat \<Rightarrow> thousands_sep \<Rightarrow> cursor \<Rightarrow> cursor res" where
  "format_decimal v sep p =
     (if 100 \<le> v then
        bind_res (put_before (DIGITS ! (v mod 100 * 2 + 1)) p) (\<lambda>p.
        bind_res (call_sep sep p) (\<lambda>(sep, p).
        bind_res (put_before (DIGITS ! (v mod 100 * 2)) p) (\<lambda>p.
        bind_res (call_sep sep p) (\<lambda>(sep, p).
          format_decimal (v div 100) sep p))))
      else if v < 10 then put_before (char_of (48 + v)) p
      else
        bind_res (put_before (DIGITS ! (v * 2 + 1)) p) (\<lambda>p.
        bind_res (call_sep sep p) (\<lambda>(sep, p).
          put_before (DIGITS ! (v * 2)) p)))"

declare format_decimal.simps [simp del]

text \<open>The overload that writes into a local buffer of \<open>max_size\<close> and a third more characters and copies
  \<open>num_digits\<close> of them; \<open>buf\<close> is what the local buffer holds.\<close>

definition format_decimal_to :: "string \<Rightarrow> nat \<Rightarrow> nat \<Rightarrow> thousands_sep \<Rightarrow> string res" where
  "format_decimal_to buf v num_digits sep =
     (if length buf < num_digits then Inl UndefinedBehaviour
      else bind_res (format_decimal v sep (num_digits, buf)) (\<lambda>(ptr, buf). Inr (take num_digits buf)))"

text \<open>Reference: the digits from the right, with the separator after every third one but not after the last.\<close>

fun separated :: "string \<Rightarrow> nat \<Rightarrow> string \<Rightarrow> string \<Rightarrow> string" where
  "separated s i [] rest = rest"
| "separated s i [d] rest = d # rest"
| "separated s i (d # e # ds) rest =
     separated s (i + 1) (e # ds) (if (i + 1) mod 3 = 0 then s @ d # rest else d # rest)"

definition sep_is :: "thousands_sep \<Rightarrow> string \<Rightarrow> nat \<Rightarrow> bool" where
  "sep_is sep s i \<longleftrightarrow> sep = AddSep s i \<or> sep = NoSep \<and> s = []"

lemma separated_append: "separated s i ds (rest @ tl') = separated s i ds rest @ tl'"
  by (induction s i ds rest rule: separated.induct) auto

lemma length_separated_mono: "length rest \<le> length (separated s i ds rest)"
  by (induction s i ds rest rule: separated.induct) (auto split: if_splits)

lemma separated_none: "separated [] i ds rest = rev ds @ rest"
  by (induction "[] :: string" i ds rest rule: separated.induct) auto

lemma put_string_written:
  assumes "written n rest p" and "length s + length rest \<le> n"
  obtains p' where "put_string_before s p = Inr p'" and "written n (s @ rest) p'"
proof -
  from assms obtain free where p: "p = (length free, free @ rest)" "length free + length rest = n"
    by (auto simp: written_def)
  with assms(2) have "length s \<le> length free" by simp
  then have "put_string_before s p = Inr (length free - length s, take (length free - length s) free @ s @ rest)"
    using p by (simp add: put_string_before_def)
  moreover have "written n (s @ rest) (length free - length s, take (length free - length s) free @ s @ rest)"
    using p(2) \<open>length s \<le> length free\<close> by (auto simp: written_def)
  ultimately show ?thesis using that by blast
qed

lemma call_sep_written:
  assumes "sep_is sep s i" and "written n rest p" and "length (if (i + 1) mod 3 = 0 then s @ rest else rest) \<le> n"
  obtains sep' p' where "call_sep sep p = Inr (sep', p')" and "sep_is sep' s (i + 1)"
    and "written n (if (i + 1) mod 3 = 0 then s @ rest else rest) p'"
proof (cases "sep = NoSep \<or> (i + 1) mod 3 \<noteq> 0")
  case True
  then show ?thesis
    using assms(1,2) that [of "if sep = NoSep then NoSep else AddSep s (i + 1)" p]
    by (auto simp: call_sep_def sep_is_def)
next
  case False
  with assms(1) have sep: "sep = AddSep s i" by (auto simp: sep_is_def)
  from False assms(3) have "length s + length rest \<le> n" by simp
  from put_string_written [OF assms(2) this] obtain p' where
    "put_string_before s p = Inr p'" "written n (s @ rest) p'" .
  with False sep that [of "AddSep s (i + 1)" p'] show ?thesis by (auto simp: call_sep_def sep_is_def)
qed

lemma put_sep_written:
  assumes "sep_is sep s i" and "written n rest p" and "length (if (i + 1) mod 3 = 0 then s @ d # rest else d # rest) \<le> n"
  obtains p1 sep' p' where "put_before d p = Inr p1" and "call_sep sep p1 = Inr (sep', p')" and "sep_is sep' s (i + 1)"
    and "written n (if (i + 1) mod 3 = 0 then s @ d # rest else d # rest) p'"
proof -
  from assms(3) have "length rest < n" by (auto split: if_splits)
  from put_written_cases [OF assms(2) this] obtain p1 where p1: "put_before d p = Inr p1" "written n (d # rest) p1" .
  from call_sep_written [OF assms(1) p1(2) assms(3)] obtain sep' p' where
    "call_sep sep p1 = Inr (sep', p')" "sep_is sep' s (i + 1)"
    "written n (if (i + 1) mod 3 = 0 then s @ d # rest else d # rest) p'" .
  with p1(1) that show ?thesis by blast
qed

lemma rev_show_nat_pair:
  "100 \<le> v \<Longrightarrow> rev (show_nat v) = digit (v mod 100 mod 10) # digit (v mod 100 div 10) # rev (show_nat (v div 100))"
  by (simp add: show_nat_pair [of v])

lemma separated_step:
  "ds \<noteq> [] \<Longrightarrow> separated s i (d # ds) rest = separated s (i + 1) ds (if (i + 1) mod 3 = 0 then s @ d # rest else d # rest)"
  by (cases ds) simp_all

lemma format_decimal_written:
  assumes "sep_is sep s i" and "written n rest p" and "length (separated s i (rev (show_nat v)) rest) \<le> n"
  shows "\<exists>p'. format_decimal v sep p = Inr p' \<and> written n (separated s i (rev (show_nat v)) rest) p'"
  using assms
proof (induction v arbitrary: sep i rest p rule: less_induct)
  case (less v)
  note sep = less.prems(1) and p = less.prems(2) and fits = less.prems(3)
  consider (big) "100 \<le> v" | (one) "v < 10" | (two) "10 \<le> v" "v < 100" by linarith
  then show ?case
  proof cases
    case big
    have "v mod 100 < 100" by simp
    note d = DIGITS_nth [OF this]
    let ?r1 = "if (i + 1) mod 3 = 0 then s @ digit (v mod 100 mod 10) # rest else digit (v mod 100 mod 10) # rest"
    let ?r2 = "if (i + 1 + 1) mod 3 = 0 then s @ digit (v mod 100 div 10) # ?r1 else digit (v mod 100 div 10) # ?r1"
    have eq: "separated s i (rev (show_nat v)) rest = separated s (i + 1 + 1) (rev (show_nat (v div 100))) ?r2"
      unfolding rev_show_nat_pair [OF big] by (subst separated_step, simp, subst separated_step) simp_all
    have l2: "length ?r2 \<le> n" using fits length_separated_mono [of ?r2] unfolding eq by (rule le_trans [rotated])
    have "length ?r1 \<le> length ?r2" by simp
    then have l1: "length ?r1 \<le> n" using l2 by (rule le_trans)
    from put_sep_written [OF sep p l1] obtain p1 sep1 p2 where
      s1: "put_before (digit (v mod 100 mod 10)) p = Inr p1" "call_sep sep p1 = Inr (sep1, p2)" "sep_is sep1 s (i + 1)" "written n ?r1 p2" .
    from put_sep_written [OF s1(3,4) l2] obtain p3 sep2 p4 where
      s2: "put_before (digit (v mod 100 div 10)) p2 = Inr p3" "call_sep sep1 p3 = Inr (sep2, p4)" "sep_is sep2 s (i + 1 + 1)" "written n ?r2 p4" .
    have "v div 100 < v" using big by simp
    from less.IH [OF this s2(3,4)] fits obtain p' where
      "format_decimal (v div 100) sep2 p4 = Inr p'" "written n (separated s i (rev (show_nat v)) rest) p'"
      unfolding eq by blast
    with big s1(1,2) s2(1,2) d show ?thesis by (subst format_decimal.simps) simp
  next
    case one
    then have eq: "show_nat v = [digit v]" by (simp add: show_nat.simps)
    with fits have "length rest < n" by simp
    from put_before_written [OF p this, of "digit v"] one eq show ?thesis
      by (subst format_decimal.simps) (simp add: char_digit)
  next
    case two
    then have sh: "show_nat v = [digit (v div 10), digit (v mod 10)]" by (simp add: show_nat.simps)
    note d = DIGITS_nth [OF two(2)]
    let ?r1 = "if (i + 1) mod 3 = 0 then s @ digit (v mod 10) # rest else digit (v mod 10) # rest"
    have eq: "separated s i (rev (show_nat v)) rest = digit (v div 10) # ?r1" by (simp add: sh)
    with fits have l1: "length ?r1 < n" by simp
    from put_sep_written [OF sep p less_imp_le [OF l1]] obtain p1 sep1 p2 where
      s1: "put_before (digit (v mod 10)) p = Inr p1" "call_sep sep p1 = Inr (sep1, p2)" "sep_is sep1 s (i + 1)" "written n ?r1 p2" .
    from put_before_written [OF s1(4) l1, of "digit (v div 10)"] s1(1,2) two d eq show ?thesis
      by (subst format_decimal.simps) simp
  qed
qed

lemma written_all: "written (length ds) ds (ptr, buf) \<Longrightarrow> buf = ds"
  by (auto simp: written_def)

lemma start_buffer: "num_digits \<le> length buf \<Longrightarrow> written (length buf) (drop num_digits buf) (num_digits, buf)"
  by (auto simp: written_def intro!: exI [of _ "take num_digits buf"])

text \<open>With the exact number of characters the text fills the buffer from its first character.\<close>

lemma format_decimal_to_separated:
  assumes "sep_is sep s 0" and "num_digits = length (separated s 0 (rev (show_nat v)) [])" and "num_digits \<le> length buf"
  shows "format_decimal_to buf v num_digits sep = Inr (separated s 0 (rev (show_nat v)) [])"
proof -
  define t where "t = separated s 0 (rev (show_nat v)) []"
  have sep: "separated s 0 (rev (show_nat v)) (drop num_digits buf) = t @ drop num_digits buf"
    using separated_append [of s 0 "rev (show_nat v)" "[]" "drop num_digits buf"] by (simp add: t_def)
  have len: "num_digits = length t" using assms(2) by (simp only: t_def)
  have n: "length (t @ drop num_digits buf) = length buf" using len assms(3) by simp
  have "length (separated s 0 (rev (show_nat v)) (drop num_digits buf)) \<le> length buf" by (simp only: sep n)
  from format_decimal_written [OF assms(1) start_buffer [OF assms(3)] this] obtain p where
    p: "format_decimal v sep (num_digits, buf) = Inr p" "written (length buf) (t @ drop num_digits buf) p"
    by (auto simp only: sep)
  obtain ptr buf' where pb: "p = (ptr, buf')" by (cases p)
  have "buf' = t @ drop num_digits buf" using p(2) [unfolded pb n [symmetric]] by (rule written_all)
  then have "take num_digits buf' = t" using len by simp
  with p(1) assms(3) show ?thesis by (simp add: format_decimal_to_def pb t_def)
qed

lemma format_decimal_to_show:
  assumes "num_digits = length (show_nat v)" and "num_digits \<le> length buf"
  shows "format_decimal_to buf v num_digits NoSep = Inr (show_nat v)"
  using format_decimal_to_separated [of NoSep "[]" num_digits v buf] assms
  by (simp add: sep_is_def separated_none)

section \<open>Bases that are powers of two\<close>

text \<open>\<open>int_writer::count_digits<BITS>\<close>.\<close>

lemma drop_bit_less: "0 < bits \<Longrightarrow> drop_bit bits n \<noteq> 0 \<Longrightarrow> drop_bit bits n < n" for n :: nat
proof -
  assume b: "0 < bits" "drop_bit bits n \<noteq> 0"
  then have "1 < (2::nat) ^ bits" "2 ^ bits \<le> n" by (simp_all add: drop_bit_eq_div div_eq_0_iff one_less_power del: One_nat_def)
  moreover from this have "0 < n" by linarith
  ultimately show "drop_bit bits n < n" by (simp add: drop_bit_eq_div)
qed

function count_digits_base :: "nat \<Rightarrow> nat \<Rightarrow> nat" where
  "count_digits_base bits n =
     (if bits = 0 \<or> drop_bit bits n = 0 then 1 else Suc (count_digits_base bits (drop_bit bits n)))"
  by pat_completeness auto
termination by (relation "measure snd") (auto intro: drop_bit_less)

declare count_digits_base.simps [simp del]

definition base_digit :: "nat \<Rightarrow> bool \<Rightarrow> nat \<Rightarrow> char" where
  "base_digit base_bits upper d =
     (if base_bits < 4 then char_of (48 + d)
      else (if upper then ''0123456789ABCDEF'' else ''0123456789abcdef'') ! d)"

function format_uint_before :: "nat \<Rightarrow> bool \<Rightarrow> nat \<Rightarrow> cursor \<Rightarrow> cursor res" where
  "format_uint_before base_bits upper v p =
     bind_res (put_before (base_digit base_bits upper (v AND (2 ^ base_bits - 1))) p) (\<lambda>p.
       if base_bits = 0 \<or> drop_bit base_bits v = 0 then Inr p
       else format_uint_before base_bits upper (drop_bit base_bits v) p)"
  by pat_completeness auto
termination by (relation "measure (\<lambda>(base_bits, upper, v, p). v)") (auto intro: drop_bit_less)

declare format_uint_before.simps [simp del]

definition format_uint_to :: "string \<Rightarrow> nat \<Rightarrow> bool \<Rightarrow> nat \<Rightarrow> nat \<Rightarrow> string res" where
  "format_uint_to buf base_bits upper v num_digits =
     (if length buf < num_digits then Inl UndefinedBehaviour
      else bind_res (format_uint_before base_bits upper v (num_digits, buf)) (\<lambda>(ptr, buf). Inr (take num_digits buf)))"

text \<open>Reference: the digits of a number in a base.\<close>

fun base_digits :: "nat \<Rightarrow> nat \<Rightarrow> nat list" where
  "base_digits b n = (if b < 2 \<or> n < b then [n] else base_digits b (n div b) @ [n mod b])"

declare base_digits.simps [simp del]

lemma base_digits_value: "2 \<le> b \<Longrightarrow> foldl (\<lambda>a d. a * b + d) 0 (base_digits b n) = n"
proof (induction b n rule: base_digits.induct)
  case (1 b n)
  then show ?case by (cases "n < b") (simp_all add: base_digits.simps [of b n])
qed

lemma base_digits_less: "2 \<le> b \<Longrightarrow> d \<in> set (base_digits b n) \<Longrightarrow> d < b"
proof (induction b n rule: base_digits.induct)
  case (1 b n)
  then show ?case by (cases "n < b") (auto simp: base_digits.simps [of b n])
qed

lemma low_digit: "v AND (2 ^ bits - 1) = v mod 2 ^ bits" for v :: nat
  using take_bit_eq_mask [of bits v] by (simp add: take_bit_eq_mod mask_eq_exp_minus_1)

lemma count_digits_base_length:
  assumes "0 < bits"
  shows "count_digits_base bits n = length (base_digits (2 ^ bits) n)"
proof (induction n rule: less_induct)
  case (less n)
  have two: "2 \<le> (2::nat) ^ bits" using assms by (cases bits) simp_all
  show ?case
  proof (cases "n < 2 ^ bits")
    case True
    then show ?thesis by (simp add: count_digits_base.simps [of bits n] base_digits.simps [of _ n] drop_bit_eq_div)
  next
    case False
    with two have "n div 2 ^ bits < n" by (intro div_less_dividend) auto
    moreover have "n div 2 ^ bits \<noteq> 0" using False by (simp add: div_eq_0_iff)
    ultimately show ?thesis using less.IH False two assms
      by (subst count_digits_base.simps, subst base_digits.simps) (simp add: drop_bit_eq_div)
  qed
qed

lemma format_uint_before_written:
  assumes "0 < bits" and "written n rest p" and "length (base_digits (2 ^ bits) v) + length rest \<le> n"
  shows "\<exists>p'. format_uint_before bits upper v p = Inr p' \<and>
    written n (map (base_digit bits upper) (base_digits (2 ^ bits) v) @ rest) p'"
  using assms(2,3)
proof (induction v arbitrary: rest p rule: less_induct)
  case (less v)
  have two: "2 \<le> (2::nat) ^ bits" using assms by (cases bits) simp_all
  have ne: "base_digits (2 ^ bits) v \<noteq> []" by (subst base_digits.simps) simp
  then have "length rest < n" using less.prems(2) by (cases "base_digits (2 ^ bits) v") simp_all
  from put_written_cases [OF less.prems(1) this] obtain p1 where
    p1: "put_before (base_digit bits upper (v mod 2 ^ bits)) p = Inr p1"
      "written n (base_digit bits upper (v mod 2 ^ bits) # rest) p1" .
  show ?case
  proof (cases "v < 2 ^ bits")
    case True
    have v: "v mod 2 ^ bits = v" using True by simp
    have "format_uint_before bits upper v p = Inr p1"
      unfolding format_uint_before.simps [of bits upper v p] low_digit p1(1) using True by (simp add: drop_bit_eq_div)
    with p1(2) True v show ?thesis by (simp add: base_digits.simps)
  next
    case False
    then have ds: "base_digits (2 ^ bits) v = base_digits (2 ^ bits) (v div 2 ^ bits) @ [v mod 2 ^ bits]"
      using two by (subst base_digits.simps) simp
    from False two have less_v: "v div 2 ^ bits < v" by (intro div_less_dividend) auto
    from less.prems(2) ds have "length (base_digits (2 ^ bits) (v div 2 ^ bits)) +
        length (base_digit bits upper (v mod 2 ^ bits) # rest) \<le> n" by simp
    from less.IH [OF less_v p1(2) this] obtain p' where
      p': "format_uint_before bits upper (v div 2 ^ bits) p1 = Inr p'"
        "written n (map (base_digit bits upper) (base_digits (2 ^ bits) v) @ rest) p'" by (auto simp: ds)
    have "v div 2 ^ bits \<noteq> 0" using False two by (simp add: div_eq_0_iff)
    then have "format_uint_before bits upper v p = Inr p'"
      unfolding format_uint_before.simps [of bits upper v p] low_digit p1(1) using p'(1) assms(1) by (simp add: drop_bit_eq_div)
    with p'(2) show ?thesis by blast
  qed
qed

lemma format_uint_to_digits:
  assumes "0 < bits" and "num_digits = count_digits_base bits v" and "num_digits \<le> length buf"
  shows "format_uint_to buf bits upper v num_digits = Inr (map (base_digit bits upper) (base_digits (2 ^ bits) v))"
proof -
  define t where "t = map (base_digit bits upper) (base_digits (2 ^ bits) v)"
  have len: "num_digits = length t" using assms(1,2) by (simp add: t_def count_digits_base_length)
  then have n: "length (t @ drop num_digits buf) = length buf" using assms(3) by simp
  then have "length (base_digits (2 ^ bits) v) + length (drop num_digits buf) \<le> length buf" by (simp add: t_def)
  from format_uint_before_written [OF assms(1) start_buffer [OF assms(3)] this, of upper] obtain p where
    p: "format_uint_before bits upper v (num_digits, buf) = Inr p" "written (length buf) (t @ drop num_digits buf) p"
    by (auto simp only: t_def)
  obtain ptr buf' where pb: "p = (ptr, buf')" by (cases p)
  have "buf' = t @ drop num_digits buf" using p(2) [unfolded pb n [symmetric]] by (rule written_all)
  then have "take num_digits buf' = t" using len by simp
  with p(1) assms(3) show ?thesis by (simp add: format_uint_to_def pb t_def)
qed

lemma scan_show_int: "scan_int (show_int i) = Some (i, [])"
proof -
  obtain c cs where n: "show_nat (nat i) = c # cs" by (cases "show_nat (nat i)") auto
  then have c: "is_digit c" using show_nat_digits [of c "nat i"] by simp
  have s: "scan_digits (show_nat k) = Some (k, [])" for k using scan_digits_show_nat [of "[]" k] by simp
  have "scan_digits (c # cs) = Some (nat i, [])" using s [of "nat i"] n by simp
  with s n c show ?thesis
    by (auto simp: scan_int_def show_int_def is_space_def is_digit_def scan_digits_show_nat split: if_splits)
qed

section \<open>Properties\<close>

text \<open>
  \<open>count_digits\<close>, which multiplies the number of bits by 1233, shifts by 12 and corrects with a
  table, counts the decimal digits of every 32-bit and 64-bit number exactly, zero included.
\<close>

theorem count_digits_exact:
  "count_digits64 n = int (length (show_nat (unat n))) \<and> count_digits32 k = int (length (show_nat (unat k)))"
  by (simp add: count_digits64_length count_digits32_length)

text \<open>
  The integer printers agree with the schoolbook decimal conversion, whatever their buffers hold
  before: \<open>format_int\<close> with its 22 characters on every signed and unsigned 64-bit value, the minimum
  included, and \<open>format_decimal\<close> with the number of digits that \<open>count_digits\<close> gives. No write
  leaves the buffer, and reading the text back gives the number.
\<close>

theorem format_int_decimal_exact:
  assumes "length buf = BUFFER_SIZE" and "num_digits = nat (count_digits64 v)" and "num_digits \<le> length local_buf"
  shows "format_int_unsigned buf v = Inr (show_nat (unat v)) \<and>
    format_signed buf v = Inr (show_int (sint v)) \<and>
    format_decimal_to local_buf (unat v) num_digits NoSep = Inr (show_nat (unat v)) \<and>
    scan_int (show_int (sint v)) = Some (sint v, [])"
proof (intro conjI)
  show "format_int_unsigned buf v = Inr (show_nat (unat v))" by (rule format_int_unsigned_show [OF assms(1)])
  show "format_signed buf v = Inr (show_int (sint v))" by (rule format_signed_show [OF assms(1)])
  show "format_decimal_to local_buf (unat v) num_digits NoSep = Inr (show_nat (unat v))"
    using format_decimal_to_show [OF _ assms(3), of "unat v"] assms(2) by (simp add: count_digits64_length)
  show "scan_int (show_int (sint v)) = Some (sint v, [])" by (rule scan_show_int)
qed

theorem format_int_decimal_exact_witness:
  "format_signed (replicate BUFFER_SIZE (CHR ''x'')) (- (2 ^ 63)) = Inr ''-9223372036854775808'' \<and>
   format_decimal_to (replicate 26 (CHR ''x'')) 100 3 NoSep = Inr ''100''"
proof -
  have s: "sint (- (2 ^ 63) :: 64 word) = - 9223372036854775808" by simp
  have n: "show_int (- 9223372036854775808) = ''-9223372036854775808''" "show_nat 100 = ''100''"
    by (simp_all add: show_int_def show_nat.simps digit_chars)
  have c: "nat (count_digits64 100) = 3" by (simp add: count_digits64_length show_nat.simps)
  from format_int_decimal_exact [of "replicate BUFFER_SIZE (CHR ''x'')" "nat (count_digits64 (- (2 ^ 63)))" "- (2 ^ 63)"
      "replicate (nat (count_digits64 (- (2 ^ 63)))) (CHR ''x'')"] s n(1)
  have "format_signed (replicate BUFFER_SIZE (CHR ''x'')) (- (2 ^ 63)) = Inr ''-9223372036854775808''" by simp
  moreover from format_int_decimal_exact [of "replicate BUFFER_SIZE (CHR ''x'')" 3 100 "replicate 26 (CHR ''x'')"] c n(2)
  have "format_decimal_to (replicate 26 (CHR ''x'')) 100 3 NoSep = Inr ''100''" by simp
  ultimately show ?thesis by blast
qed

end
