(* ===== verification/FmtWriter.thy ===== *)
theory FmtWriter
  imports FmtInt
begin

unbundle bit_operations_syntax

text \<open>
  The writers of the fmt library, \<open>basic_writer\<close>, \<open>arg_formatter_base\<close> and the type checks of
  \<open>spdlog/fmt/bundled/format.h\<close>: how an argument is printed under a format specification. The output
  of a writer is the text it appends. Floating-point and user-defined arguments are left out, and so
  are named ones. What an uninitialised local buffer holds does not matter (theory FmtInt), so it is
  taken to hold zeros.
\<close>

section \<open>Arguments and specifications\<close>

text \<open>\<open>internal::type\<close> with the value it tags; a null C string is None.\<close>

datatype fmt_arg =
    none_type
  | int_type "32 word"
  | uint_type "32 word"
  | long_long_type "64 word"
  | ulong_long_type "64 word"
  | bool_type bool
  | char_type char
  | cstring_type "string option"
  | string_type string
  | pointer_type "64 word"

fun is_integral :: "fmt_arg \<Rightarrow> bool" where
  "is_integral (int_type v) = True"
| "is_integral (uint_type v) = True"
| "is_integral (long_long_type v) = True"
| "is_integral (ulong_long_type v) = True"
| "is_integral (bool_type b) = True"
| "is_integral (char_type c) = True"
| "is_integral a = False"

definition is_arithmetic :: "fmt_arg \<Rightarrow> bool" where
  "is_arithmetic a = is_integral a"

datatype alignment = ALIGN_DEFAULT | ALIGN_LEFT | ALIGN_RIGHT | ALIGN_CENTER | ALIGN_NUMERIC

definition SIGN_FLAG :: "8 word" where "SIGN_FLAG = 1"
definition PLUS_FLAG :: "8 word" where "PLUS_FLAG = 2"
definition MINUS_FLAG :: "8 word" where "MINUS_FLAG = 4"
definition HASH_FLAG :: "8 word" where "HASH_FLAG = 8"

record align_spec =
  spec_width :: nat
  spec_fill :: char
  spec_align :: alignment

record format_specs = align_spec +
  precision :: int
  flags :: "8 word"
  spec_type :: char

definition format_specs_new :: format_specs where
  "format_specs_new =
     \<lparr>spec_width = 0, spec_fill = CHR '' '', spec_align = ALIGN_DEFAULT, precision = -1, flags = 0, spec_type = CHR 0x00\<rparr>"

definition has_flag :: "8 word \<Rightarrow> format_specs \<Rightarrow> bool" where
  "has_flag f s \<longleftrightarrow> flags s AND f \<noteq> 0"

section \<open>Padding\<close>

text \<open>\<open>write_padded\<close> with a writer of \<open>sz\<close> characters; a \<open>char\<close> is one code point.\<close>

definition write_padded :: "nat \<Rightarrow> char \<Rightarrow> alignment \<Rightarrow> nat \<Rightarrow> string \<Rightarrow> string" where
  "write_padded width fill align sz content =
     (if width \<le> sz then content
      else
        (let padding = width - sz
         in if align = ALIGN_RIGHT then replicate padding fill @ content
            else if align = ALIGN_CENTER
              then replicate (padding div 2) fill @ content @ replicate (padding - padding div 2) fill
            else content @ replicate padding fill))"

text \<open>\<open>write_int\<close> for \<open>num_digits\<close> digits after a prefix, with \<open>padded_int_writer\<close>.\<close>

definition write_int_digits :: "nat \<Rightarrow> string \<Rightarrow> format_specs \<Rightarrow> string \<Rightarrow> string" where
  "write_int_digits num_digits prefix spec digits =
     (let sz = length prefix + num_digits;
          (sz, padding, fill) =
            (if spec_align spec = ALIGN_NUMERIC then
               (if sz < spec_width spec then (spec_width spec, spec_width spec - sz, spec_fill spec) else (sz, 0, spec_fill spec))
             else if int num_digits < precision spec
               then (length prefix + nat (precision spec), nat (precision spec) - num_digits, CHR ''0'')
             else (sz, 0, spec_fill spec));
          align = (if spec_align spec = ALIGN_DEFAULT then ALIGN_RIGHT else spec_align spec)
      in write_padded (spec_width spec) (spec_fill spec) align sz (prefix @ replicate padding fill @ digits))"

section \<open>Integers\<close>

text \<open>A value of an integer type as the writers see it: the sign, the magnitude in the unsigned type
  of 32 or 64 bits, and which of the two that is.\<close>

record int_value =
  is_negative :: bool
  abs_value :: nat
  is_wide :: bool

definition int32_value :: "32 word \<Rightarrow> int_value" where
  "int32_value v = \<lparr>is_negative = sint v < 0, abs_value = unat (if sint v < 0 then 0 - v else v), is_wide = False\<rparr>"

definition int64_value :: "64 word \<Rightarrow> int_value" where
  "int64_value v = \<lparr>is_negative = sint v < 0, abs_value = unat (if sint v < 0 then 0 - v else v), is_wide = True\<rparr>"

definition uint32_value :: "32 word \<Rightarrow> int_value" where
  "uint32_value v = \<lparr>is_negative = False, abs_value = unat v, is_wide = False\<rparr>"

definition uint64_value :: "64 word \<Rightarrow> int_value" where
  "uint64_value v = \<lparr>is_negative = False, abs_value = unat v, is_wide = True\<rparr>"

text \<open>\<open>char\<close> is signed.\<close>

definition char_value :: "char \<Rightarrow> int_value" where
  "char_value c = int32_value (scast (word_of_nat (of_char c) :: 8 word))"

definition count_digits :: "int_value \<Rightarrow> nat" where
  "count_digits v =
     (if is_wide v then nat (count_digits64 (word_of_nat (abs_value v)))
      else nat (count_digits32 (word_of_nat (abs_value v))))"

definition local_buffer :: "nat \<Rightarrow> string" where
  "local_buffer n = replicate n (CHR 0x00)"

definition max_decimal :: "int_value \<Rightarrow> nat" where
  "max_decimal v = (let max_size = (if is_wide v then 20 else 10) in max_size + max_size div 3)"

definition max_binary :: "int_value \<Rightarrow> nat \<Rightarrow> nat" where
  "max_binary v bits = (if is_wide v then 64 else 32) div bits + 2"

text \<open>\<open>write_decimal\<close>.\<close>

definition write_decimal :: "int_value \<Rightarrow> string res" where
  "write_decimal v =
     bind_res (format_decimal_to (local_buffer (max_decimal v)) (abs_value v) (count_digits v) NoSep) (\<lambda>ds.
       Inr ((if is_negative v then ''-'' else []) @ ds))"

text \<open>The constructor of \<open>int_writer\<close> and its handlers.\<close>

definition sign_prefix :: "int_value \<Rightarrow> format_specs \<Rightarrow> string" where
  "sign_prefix v spec =
     (if is_negative v then ''-''
      else if has_flag SIGN_FLAG spec then (if has_flag PLUS_FLAG spec then ''+'' else '' '')
      else [])"

definition on_dec :: "int_value \<Rightarrow> format_specs \<Rightarrow> string res" where
  "on_dec v spec =
     (let num_digits = count_digits v
      in bind_res (format_decimal_to (local_buffer (max_decimal v)) (abs_value v) num_digits NoSep) (\<lambda>ds.
         Inr (write_int_digits num_digits (sign_prefix v spec) spec ds)))"

definition on_hex :: "int_value \<Rightarrow> format_specs \<Rightarrow> string res" where
  "on_hex v spec =
     (let prefix = sign_prefix v spec @ (if has_flag HASH_FLAG spec then [CHR ''0'', spec_type spec] else []);
          num_digits = count_digits_base 4 (abs_value v)
      in bind_res (format_uint_to (local_buffer (max_binary v 4)) 4 (spec_type spec \<noteq> CHR ''x'') (abs_value v) num_digits) (\<lambda>ds.
         Inr (write_int_digits num_digits prefix spec ds)))"

definition on_bin :: "int_value \<Rightarrow> format_specs \<Rightarrow> string res" where
  "on_bin v spec =
     (let prefix = sign_prefix v spec @ (if has_flag HASH_FLAG spec then [CHR ''0'', spec_type spec] else []);
          num_digits = count_digits_base 1 (abs_value v)
      in bind_res (format_uint_to (local_buffer (max_binary v 1)) 1 False (abs_value v) num_digits) (\<lambda>ds.
         Inr (write_int_digits num_digits prefix spec ds)))"

definition on_oct :: "int_value \<Rightarrow> format_specs \<Rightarrow> string res" where
  "on_oct v spec =
     (let num_digits = count_digits_base 3 (abs_value v);
          prefix = sign_prefix v spec @
            (if has_flag HASH_FLAG spec \<and> precision spec \<le> int num_digits then ''0'' else [])
      in bind_res (format_uint_to (local_buffer (max_binary v 3)) 3 False (abs_value v) num_digits) (\<lambda>ds.
         Inr (write_int_digits num_digits prefix spec ds)))"

text \<open>The separator is the one of the locale.\<close>

definition on_num :: "char \<Rightarrow> int_value \<Rightarrow> format_specs \<Rightarrow> string res" where
  "on_num sep v spec =
     (let num_digits = count_digits v;
          sz = num_digits + (num_digits - 1) div 3
      in bind_res (format_decimal_to (local_buffer (max_decimal v)) (abs_value v) sz (AddSep [sep] 0)) (\<lambda>ds.
         Inr (write_int_digits sz (sign_prefix v spec) spec ds)))"

definition write_int :: "char \<Rightarrow> int_value \<Rightarrow> format_specs \<Rightarrow> string res" where
  "write_int sep v spec =
     (let t = spec_type spec
      in if t = CHR 0x00 \<or> t = CHR ''d'' then on_dec v spec
         else if t = CHR ''x'' \<or> t = CHR ''X'' then on_hex v spec
         else if t = CHR ''b'' \<or> t = CHR ''B'' then on_bin v spec
         else if t = CHR ''o'' then on_oct v spec
         else if t = CHR ''n'' then on_num sep v spec
         else Inl (FormatError ''invalid type specifier''))"

section \<open>The other arguments\<close>

definition write_string :: "string \<Rightarrow> format_specs \<Rightarrow> string" where
  "write_string s spec =
     (let sz = (if 0 \<le> precision spec \<and> nat (precision spec) < length s then nat (precision spec) else length s)
      in write_padded (spec_width spec) (spec_fill spec) (spec_align spec) sz (take sz s))"

text \<open>The functions of \<open>arg_formatter_base\<close>; None stands for no specification.\<close>

definition write_bool :: "bool \<Rightarrow> format_specs option \<Rightarrow> string" where
  "write_bool b spec =
     (let sv = (if b then ''true'' else ''false'')
      in case spec of Some s \<Rightarrow> write_string sv s | None \<Rightarrow> sv)"

definition write_cstring :: "string option \<Rightarrow> format_specs option \<Rightarrow> string res" where
  "write_cstring v spec =
     (case v of
        None \<Rightarrow> Inl (FormatError ''string pointer is null'')
      | Some sv \<Rightarrow> Inr (case spec of Some s \<Rightarrow> write_string sv s | None \<Rightarrow> sv))"

definition write_char :: "char \<Rightarrow> format_specs option \<Rightarrow> string" where
  "write_char c spec =
     (case spec of
        Some s \<Rightarrow> write_padded (spec_width s) (spec_fill s) (spec_align s) 1 [c]
      | None \<Rightarrow> [c])"

definition write_pointer :: "char \<Rightarrow> 64 word \<Rightarrow> format_specs option \<Rightarrow> string res" where
  "write_pointer sep p spec =
     (let s = (case spec of Some s \<Rightarrow> s | None \<Rightarrow> format_specs_new)
      in write_int sep (uint64_value p) (s\<lparr>flags := HASH_FLAG, spec_type := CHR ''x''\<rparr>))"

definition write_integer :: "char \<Rightarrow> int_value \<Rightarrow> format_specs option \<Rightarrow> string res" where
  "write_integer sep v spec = (case spec of Some s \<Rightarrow> write_int sep v s | None \<Rightarrow> write_decimal v)"

text \<open>\<open>handle_char_specs\<close>, \<open>handle_cstring_type_spec\<close>, \<open>check_string_type_spec\<close> and
  \<open>check_pointer_type_spec\<close> with the handlers they are called with.\<close>

definition format_char :: "char \<Rightarrow> char \<Rightarrow> format_specs option \<Rightarrow> string res" where
  "format_char sep c spec =
     (case spec of
        None \<Rightarrow> Inr (write_char c None)
      | Some s \<Rightarrow>
          if spec_type s \<noteq> CHR 0x00 \<and> spec_type s \<noteq> CHR ''c'' then write_int sep (char_value c) s
          else if spec_align s = ALIGN_NUMERIC \<or> flags s \<noteq> 0 then Inl (FormatError ''invalid format specifier for char'')
          else Inr (write_char c (Some s)))"

definition format_cstring :: "char \<Rightarrow> (string \<Rightarrow> 64 word) \<Rightarrow> string option \<Rightarrow> format_specs option \<Rightarrow> string res" where
  "format_cstring sep address v spec =
     (case spec of
        None \<Rightarrow> write_cstring v None
      | Some s \<Rightarrow>
          if spec_type s = CHR 0x00 \<or> spec_type s = CHR ''s'' then write_cstring v (Some s)
          else if spec_type s = CHR ''p'' then
            write_pointer sep (case v of None \<Rightarrow> 0 | Some t \<Rightarrow> address t) (Some s)
          else Inl (FormatError ''invalid type specifier''))"

definition format_string :: "string \<Rightarrow> format_specs option \<Rightarrow> string res" where
  "format_string v spec =
     (case spec of
        None \<Rightarrow> Inr v
      | Some s \<Rightarrow>
          if spec_type s \<noteq> CHR 0x00 \<and> spec_type s \<noteq> CHR ''s'' then Inl (FormatError ''invalid type specifier'')
          else Inr (write_string v s))"

definition format_pointer :: "char \<Rightarrow> 64 word \<Rightarrow> format_specs option \<Rightarrow> string res" where
  "format_pointer sep p spec =
     (case spec of
        Some s \<Rightarrow>
          if spec_type s \<noteq> CHR 0x00 \<and> spec_type s \<noteq> CHR ''p'' then Inl (FormatError ''invalid type specifier'')
          else write_pointer sep p spec
      | None \<Rightarrow> write_pointer sep p spec)"

text \<open>\<open>visit_format_arg\<close> with the operators of \<open>arg_formatter_base\<close>. The locale's separator and the
  addresses of C strings are parameters.\<close>

record fmt_env =
  locale_sep :: char
  address_of :: "string \<Rightarrow> 64 word"

fun visit_arg :: "fmt_env \<Rightarrow> fmt_arg \<Rightarrow> format_specs option \<Rightarrow> string res" where
  "visit_arg env none_type spec = Inl AssertFailed"
| "visit_arg env (int_type v) spec = write_integer (locale_sep env) (int32_value v) spec"
| "visit_arg env (uint_type v) spec = write_integer (locale_sep env) (uint32_value v) spec"
| "visit_arg env (long_long_type v) spec = write_integer (locale_sep env) (int64_value v) spec"
| "visit_arg env (ulong_long_type v) spec = write_integer (locale_sep env) (uint64_value v) spec"
| "visit_arg env (bool_type b) spec =
     (case spec of
        Some s \<Rightarrow>
          if spec_type s \<noteq> CHR 0x00 then write_integer (locale_sep env) (int32_value (if b then 1 else 0)) spec
          else Inr (write_bool b spec)
      | None \<Rightarrow> Inr (write_bool b spec))"
| "visit_arg env (char_type c) spec = format_char (locale_sep env) c spec"
| "visit_arg env (cstring_type v) spec = format_cstring (locale_sep env) (address_of env) v spec"
| "visit_arg env (string_type v) spec = format_string v spec"
| "visit_arg env (pointer_type p) spec = format_pointer (locale_sep env) p spec"

section \<open>What the writers print\<close>

definition int_value_ok :: "int_value \<Rightarrow> bool" where
  "int_value_ok v \<longleftrightarrow> abs_value v < (if is_wide v then 2 ^ 64 else 2 ^ 32)"

lemma unat_less_64: "unat (v :: 64 word) < 2 ^ 64"
proof -
  have "unat v < 2 ^ LENGTH(64)" by (rule unsigned_less)
  then show ?thesis by simp
qed

lemma unat_less_32: "unat (v :: 32 word) < 2 ^ 32"
proof -
  have "unat v < 2 ^ LENGTH(32)" by (rule unsigned_less)
  then show ?thesis by simp
qed

lemma int_values_ok [simp]:
  "int_value_ok (int32_value v)" "int_value_ok (uint32_value v)" "int_value_ok (int64_value w)"
  "int_value_ok (uint64_value w)" "int_value_ok (char_value c)"
  using unat_less_32 unat_less_64
  by (simp_all only: int_value_ok_def int32_value_def uint32_value_def int64_value_def uint64_value_def char_value_def
      int_value.simps if_True if_False)

lemma count_digits_ok:
  assumes "int_value_ok v"
  shows "count_digits v = length (show_nat (abs_value v))"
proof (cases "is_wide v")
  case True
  with assms have "unat (word_of_nat (abs_value v) :: 64 word) = abs_value v"
    by (intro unat_word_of_nat_small) (simp add: int_value_ok_def)
  with True show ?thesis by (simp add: count_digits_def count_digits64_length)
next
  case False
  with assms have "unat (word_of_nat (abs_value v) :: 32 word) = abs_value v"
    by (intro unat_word_of_nat_small) (simp add: int_value_ok_def)
  with False show ?thesis by (simp add: count_digits_def count_digits32_length)
qed

lemma digits_fit:
  assumes "int_value_ok v"
  shows "length (show_nat (abs_value v)) \<le> (if is_wide v then 20 else 10)"
  using assms length_show_nat_le [of "abs_value v" 20] length_show_nat_le [of "abs_value v" 10]
  by (simp add: int_value_ok_def split: if_splits)

lemma decimal_text:
  assumes "int_value_ok v"
  shows "format_decimal_to (local_buffer (max_decimal v)) (abs_value v) (count_digits v) NoSep = Inr (show_nat (abs_value v))"
  by (rule format_decimal_to_show)
    (use digits_fit [OF assms] in \<open>auto simp: count_digits_ok [OF assms] local_buffer_def max_decimal_def Let_def\<close>)

definition int_of_value :: "int_value \<Rightarrow> int" where
  "int_of_value v = (if is_negative v then - int (abs_value v) else int (abs_value v))"

lemma write_decimal_text:
  assumes "int_value_ok v" and "is_negative v \<Longrightarrow> 0 < abs_value v"
  shows "write_decimal v = Inr (show_int (int_of_value v))"
  using assms by (auto simp: write_decimal_def decimal_text show_int_def int_of_value_def)

lemma on_dec_text:
  "int_value_ok v \<Longrightarrow> on_dec v spec =
     Inr (write_int_digits (length (show_nat (abs_value v))) (sign_prefix v spec) spec (show_nat (abs_value v)))"
  by (simp only: on_dec_def Let_def decimal_text bind_res_simps) (simp only: count_digits_ok)

text \<open>The binary bases: the local buffer has room for every digit.\<close>

lemma length_base_digits:
  assumes "0 < bits" and "n < 2 ^ k" and "k \<le> bits * m" and "0 < m"
  shows "length (base_digits (2 ^ bits) n) \<le> m"
  using assms(2,3,4)
proof (induction m arbitrary: n k)
  case 0
  then show ?case by simp
next
  case (Suc m)
  show ?case
  proof (cases "n < 2 ^ bits")
    case True
    then show ?thesis by (simp add: base_digits.simps)
  next
    case False
    have "bits < k"
    proof (rule ccontr)
      assume "\<not> bits < k"
      then have "(2::nat) ^ k \<le> 2 ^ bits" by (intro power_increasing) simp_all
      with Suc.prems(1) False show False by linarith
    qed
    then have m: "0 < m" using Suc.prems(2) by (cases m) auto
    have "n < 2 ^ (k - bits) * 2 ^ bits" using Suc.prems(1) \<open>bits < k\<close> by (simp flip: power_add)
    then have "n div 2 ^ bits < 2 ^ (k - bits)" by (rule less_mult_imp_div_less)
    moreover have "k - bits \<le> bits * m" using Suc.prems(2) by simp
    ultimately have "length (base_digits (2 ^ bits) (n div 2 ^ bits)) \<le> m" using Suc.IH m by blast
    then show ?thesis by (subst base_digits.simps) auto
  qed
qed

lemma base_text:
  assumes "int_value_ok v" and "bits \<in> {1, 3, 4}"
  shows "format_uint_to (local_buffer (max_binary v bits)) bits upper (abs_value v) (count_digits_base bits (abs_value v)) =
    Inr (map (base_digit bits upper) (base_digits (2 ^ bits) (abs_value v)))"
proof (rule format_uint_to_digits [OF _ refl])
  show bits: "0 < bits" using assms(2) by auto
  have "length (base_digits (2 ^ bits) (abs_value v)) \<le> max_binary v bits"
    by (rule length_base_digits [OF bits, of _ "if is_wide v then 64 else 32"])
      (use assms in \<open>auto simp: int_value_ok_def max_binary_def\<close>)
  then show "count_digits_base bits (abs_value v) \<le> length (local_buffer (max_binary v bits))"
    using bits by (simp add: count_digits_base_length local_buffer_def)
qed

text \<open>The number of separators.\<close>

lemma separators_step:
  fixes i n :: nat
  shows "(i mod 3 + Suc n) div 3 = (if (i + 1) mod 3 = 0 then 1 else 0) + ((i + 1) mod 3 + n) div 3"
proof (cases "i mod 3 = 2")
  case True
  then have "(i + 1) mod 3 = 0" by (simp add: mod_Suc)
  moreover have "(2 + Suc n) div 3 = Suc (n div 3)" using div_add_self1 [of 3 n] by simp
  ultimately show ?thesis using True by simp
next
  case False
  moreover have "i mod 3 < 3" by simp
  ultimately have "(i + 1) mod 3 = i mod 3 + 1" by (simp add: mod_Suc)
  then show ?thesis by simp
qed

lemma length_separated:
  "ds \<noteq> [] \<Longrightarrow> length (separated [c] i ds rest) = length rest + length ds + ((i mod 3 + (length ds - 1)) div 3)"
proof (induction "[c]" i ds rest rule: separated.induct)
  case (3 i d e ds rest)
  have "(i mod 3 + Suc (length ds)) div 3 = (if (i + 1) mod 3 = 0 then 1 else 0) + ((i + 1) mod 3 + length ds) div 3"
    by (rule separators_step)
  with 3 show ?case by simp
qed auto

lemma separated_text:
  assumes "int_value_ok v"
  shows "format_decimal_to (local_buffer (max_decimal v)) (abs_value v) (count_digits v + (count_digits v - 1) div 3) (AddSep [sep] 0) =
    Inr (separated [sep] 0 (rev (show_nat (abs_value v))) [])"
proof -
  have l: "length (separated [sep] 0 (rev (show_nat (abs_value v))) []) = count_digits v + (count_digits v - 1) div 3"
    by (subst length_separated) (simp_all add: count_digits_ok [OF assms])
  have "count_digits v + (count_digits v - 1) div 3 \<le> max_decimal v"
    using digits_fit [OF assms] by (auto simp: count_digits_ok [OF assms] max_decimal_def Let_def)
  then show ?thesis
    by (intro format_decimal_to_separated) (simp_all add: sep_is_def l local_buffer_def)
qed

text \<open>No integer type leaves its buffer.\<close>

definition fmt_ok :: "'a res \<Rightarrow> bool" where
  "fmt_ok r \<longleftrightarrow> (\<exists>t. r = Inr t) \<or> (\<exists>m. r = Inl (FormatError m))"

lemma fmt_ok_simps [simp]: "fmt_ok (Inr t)" "fmt_ok (Inl (FormatError m))"
  by (simp_all add: fmt_ok_def)

lemma fmt_ok_cases:
  assumes "fmt_ok r"
  obtains t where "r = Inr t" | m where "r = Inl (FormatError m)"
  using assms by (auto simp: fmt_ok_def)

lemma fmt_ok_bind [intro]: "fmt_ok r \<Longrightarrow> (\<And>t. r = Inr t \<Longrightarrow> fmt_ok (f t)) \<Longrightarrow> fmt_ok (bind_res r f)"
  by (auto elim: fmt_ok_cases)

lemma write_int_ok:
  assumes "int_value_ok v"
  shows "fmt_ok (write_int sep v spec)"
proof -
  have "fmt_ok (on_dec v spec)" "fmt_ok (on_num sep v spec)"
    using assms separated_text [OF assms, of sep] by (simp_all add: on_dec_text on_num_def Let_def)
  moreover have "fmt_ok (on_hex v spec)" "fmt_ok (on_bin v spec)" "fmt_ok (on_oct v spec)"
    using base_text [OF assms] by (simp_all add: on_hex_def on_bin_def on_oct_def Let_def del: One_nat_def)
  ultimately show ?thesis by (simp add: write_int_def Let_def)
qed

lemma visit_arg_ok: "a \<noteq> none_type \<Longrightarrow> fmt_ok (visit_arg env a spec)"
  by (cases a)
    (auto simp: write_integer_def write_decimal_def decimal_text write_int_ok format_char_def format_cstring_def write_cstring_def
      format_string_def format_pointer_def write_pointer_def Let_def split: option.splits)

section \<open>Layout of an integer\<close>

lemma write_padded_layout:
  assumes "length content = sz"
  shows "\<exists>l r. write_padded width fill align sz content = replicate l fill @ content @ replicate r fill \<and>
    l + sz + r = max width sz \<and> (align = ALIGN_RIGHT \<longrightarrow> r = 0) \<and>
    (align = ALIGN_CENTER \<longrightarrow> l \<le> r \<and> r \<le> l + 1) \<and> (align \<noteq> ALIGN_RIGHT \<and> align \<noteq> ALIGN_CENTER \<longrightarrow> l = 0)"
proof (cases "width \<le> sz")
  case True
  then show ?thesis by (intro exI [of _ 0]) (simp add: write_padded_def)
next
  case False
  let ?p = "width - sz"
  consider "align = ALIGN_RIGHT" | "align = ALIGN_CENTER" | "align \<noteq> ALIGN_RIGHT" "align \<noteq> ALIGN_CENTER" by blast
  then show ?thesis
  proof cases
    case 1
    with False show ?thesis by (intro exI [of _ ?p] exI [of _ 0]) (simp add: write_padded_def Let_def)
  next
    case 2
    with False show ?thesis
      by (intro exI [of _ "?p div 2"] exI [of _ "?p - ?p div 2"]) (auto simp: write_padded_def Let_def)
  next
    case 3
    with False show ?thesis by (intro exI [of _ 0] exI [of _ ?p]) (simp add: write_padded_def Let_def)
  qed
qed

lemma write_int_digits_layout:
  assumes "length ds = n"
  shows "\<exists>l z r. write_int_digits n prefix spec ds =
      replicate l (spec_fill spec) @ prefix @ replicate z (if spec_align spec = ALIGN_NUMERIC then spec_fill spec else CHR ''0'') @
        ds @ replicate r (spec_fill spec) \<and>
    l + length prefix + z + n + r = max (spec_width spec) (length prefix + z + n) \<and>
    (spec_align spec = ALIGN_NUMERIC \<longrightarrow> l = 0 \<and> r = 0) \<and>
    (spec_align spec \<noteq> ALIGN_NUMERIC \<longrightarrow> z = nat (precision spec) - n) \<and>
    (spec_align spec \<in> {ALIGN_DEFAULT, ALIGN_RIGHT} \<longrightarrow> r = 0) \<and> (spec_align spec = ALIGN_LEFT \<longrightarrow> l = 0) \<and>
    (spec_align spec = ALIGN_CENTER \<longrightarrow> l \<le> r \<and> r \<le> l + 1)"
proof (cases "spec_align spec = ALIGN_NUMERIC")
  case True
  let ?z = "spec_width spec - (length prefix + n)"
  have sz: "length (prefix @ replicate ?z (spec_fill spec) @ ds) = max (spec_width spec) (length prefix + n)" using assms by simp
  have "write_int_digits n prefix spec ds = prefix @ replicate ?z (spec_fill spec) @ ds"
    using True by (simp add: write_int_digits_def write_padded_def Let_def)
  with True show ?thesis by (intro exI [of _ 0] exI [of _ ?z]) simp
next
  case False
  let ?z = "nat (precision spec) - n"
  let ?content = "prefix @ replicate ?z (CHR ''0'') @ ds"
  let ?align = "if spec_align spec = ALIGN_DEFAULT then ALIGN_RIGHT else spec_align spec"
  have sz: "length ?content = length prefix + ?z + n" using assms by simp
  have z0: "\<not> int n < precision spec \<Longrightarrow> ?z = 0" by linarith
  have "write_int_digits n prefix spec ds = write_padded (spec_width spec) (spec_fill spec) ?align (length prefix + ?z + n) ?content"
  proof (cases "int n < precision spec")
    case True
    then have "length prefix + nat (precision spec) = length prefix + ?z + n" by linarith
    with True False show ?thesis by (simp add: write_int_digits_def Let_def)
  next
    case False
    with \<open>spec_align spec \<noteq> ALIGN_NUMERIC\<close> show ?thesis by (simp add: write_int_digits_def Let_def z0 [OF False])
  qed
  with write_padded_layout [OF sz, of "spec_width spec" "spec_fill spec" ?align] obtain l r where
    lr: "write_int_digits n prefix spec ds = replicate l (spec_fill spec) @ ?content @ replicate r (spec_fill spec)"
    "l + (length prefix + ?z + n) + r = max (spec_width spec) (length prefix + ?z + n)" "?align = ALIGN_RIGHT \<longrightarrow> r = 0"
    "?align = ALIGN_CENTER \<longrightarrow> l \<le> r \<and> r \<le> l + 1" "?align \<noteq> ALIGN_RIGHT \<and> ?align \<noteq> ALIGN_CENTER \<longrightarrow> l = 0" by metis
  from lr(3-5) False have sides: "spec_align spec \<in> {ALIGN_DEFAULT, ALIGN_RIGHT} \<longrightarrow> r = 0" "spec_align spec = ALIGN_LEFT \<longrightarrow> l = 0"
    "spec_align spec = ALIGN_CENTER \<longrightarrow> l \<le> r \<and> r \<le> l + 1" by (cases "spec_align spec"; simp)+
  have "l + length prefix + ?z + n + r = max (spec_width spec) (length prefix + ?z + n)" using lr(2) by simp
  with lr(1) False sides show ?thesis
    by (intro exI [of _ l] exI [of _ ?z] exI [of _ r]) simp
qed

section \<open>Properties\<close>

text \<open>
  A decimal integer is printed as its sign and its digits, with zeros between them up to the
  precision (or fill characters up to the width, with numeric alignment), and fill characters on the
  side the alignment says, none of them more than the width asks for.
\<close>

theorem integer_field_layout:
  assumes "int_value_ok v" and "spec_type spec \<in> {CHR 0x00, CHR ''d''}"
  shows "\<exists>l z r. write_int sep v spec =
      Inr (replicate l (spec_fill spec) @ sign_prefix v spec @
        replicate z (if spec_align spec = ALIGN_NUMERIC then spec_fill spec else CHR ''0'') @
        show_nat (abs_value v) @ replicate r (spec_fill spec)) \<and>
    l + length (sign_prefix v spec) + z + length (show_nat (abs_value v)) + r =
      max (spec_width spec) (length (sign_prefix v spec) + z + length (show_nat (abs_value v))) \<and>
    (spec_align spec = ALIGN_NUMERIC \<longrightarrow> l = 0 \<and> r = 0) \<and>
    (spec_align spec \<noteq> ALIGN_NUMERIC \<longrightarrow> z = nat (precision spec) - length (show_nat (abs_value v))) \<and>
    (spec_align spec \<in> {ALIGN_DEFAULT, ALIGN_RIGHT} \<longrightarrow> r = 0) \<and> (spec_align spec = ALIGN_LEFT \<longrightarrow> l = 0) \<and>
    (spec_align spec = ALIGN_CENTER \<longrightarrow> l \<le> r \<and> r \<le> l + 1)"
proof -
  have "write_int sep v spec =
      Inr (write_int_digits (length (show_nat (abs_value v))) (sign_prefix v spec) spec (show_nat (abs_value v)))"
    using assms by (auto simp: write_int_def Let_def on_dec_text)
  with write_int_digits_layout [OF refl, of "show_nat (abs_value v)" "sign_prefix v spec" spec] show ?thesis by simp
qed

theorem integer_field_layout_witness:
  "\<exists>l z r. write_int (CHR '','') (int32_value (- 5)) (format_specs_new\<lparr>spec_width := 6, precision := 3\<rparr>) =
     Inr (replicate l (CHR '' '') @ ''-'' @ replicate z (CHR ''0'') @ ''5'' @ replicate r (CHR '' '')) \<and> l = 2 \<and> z = 2 \<and> r = 0"
proof -
  let ?spec = "format_specs_new\<lparr>spec_width := 6, precision := 3\<rparr>"
  have v: "abs_value (int32_value (- 5)) = 5" "show_nat 5 = ''5''" "sign_prefix (int32_value (- 5)) ?spec = ''-''"
    by (simp_all add: int32_value_def sign_prefix_def show_nat.simps digit_chars)
  have "spec_type ?spec \<in> {CHR 0x00, CHR ''d''}" by (simp add: format_specs_new_def)
  from integer_field_layout [OF int_values_ok(1) this, of "CHR '',''" "- 5"] show ?thesis
    unfolding v by (auto simp: format_specs_new_def)
qed

end
