(* ===== verification/FmtParse.thy ===== *)
theory FmtParse
  imports FmtWriter
begin

unbundle bit_operations_syntax

text \<open>
  The format strings of the fmt library, \<open>spdlog/fmt/bundled/format.h\<close> and \<open>core.h\<close>: the parser of
  replacement fields and format specifications, the checks of a specification against the type of its
  argument, the choice of the argument, and \<open>vformat_to\<close>, which puts them together. A pointer into the
  format string is the rest of the string that it points to, so a read at the end would be a read of
  the empty list. \<open>on_error\<close> throws a \<open>format_error\<close>.
\<close>

section \<open>Numbers and names\<close>

definition in_digits :: "char \<Rightarrow> bool" where
  "in_digits c \<longleftrightarrow> CHR ''0'' \<le> c \<and> c \<le> CHR ''9''"

definition is_name_start :: "char \<Rightarrow> bool" where
  "is_name_start c \<longleftrightarrow> (CHR ''a'' \<le> c \<and> c \<le> CHR ''z'') \<or> (CHR ''A'' \<le> c \<and> c \<le> CHR ''Z'') \<or> CHR ''_'' = c"

definition max_int :: nat where "max_int = 2147483647"

text \<open>The loop of \<open>parse_nonnegative_int\<close>; \<open>value\<close> is an unsigned 32-bit number.\<close>

fun parse_int_loop :: "32 word \<Rightarrow> string \<Rightarrow> 32 word \<times> string" where
  "parse_int_loop v [] = (v, [])"
| "parse_int_loop v (c # cs) =
     (if \<not> in_digits c then (v, c # cs)
      else if word_of_nat (max_int div 10) < v then (word_of_nat max_int + 1, c # cs)
      else parse_int_loop (v * 10 + word_of_nat (of_char c - of_char CHR ''0'')) cs)"

definition parse_nonnegative_int :: "string \<Rightarrow> (nat \<times> string) res" where
  "parse_nonnegative_int s =
     (case s of
        [] \<Rightarrow> Inl AssertFailed
      | c # cs \<Rightarrow>
          if \<not> in_digits c then Inl AssertFailed
          else if c = CHR ''0'' then Inr (0, cs)
          else (let (v, rest) = parse_int_loop 0 s
                in if word_of_nat max_int < v then Inl (FormatError ''number is too big'') else Inr (unat v, rest)))"

section \<open>Choosing the argument\<close>

datatype arg_id = auto_id | index_id nat | name_id string

text \<open>The context: \<open>next_arg_id_\<close>, the arguments and the output.\<close>

record fmt_context =
  next_arg_id :: int
  ctx_args :: "fmt_arg list"
  ctx_out :: string

definition fmt_context_new :: "fmt_arg list \<Rightarrow> string \<Rightarrow> fmt_context" where
  "fmt_context_new args out = \<lparr>next_arg_id = 0, ctx_args = args, ctx_out = out\<rparr>"

definition take_next_arg_id :: "fmt_context \<Rightarrow> (nat \<times> fmt_context) res" where
  "take_next_arg_id ctx =
     (if 0 \<le> next_arg_id ctx then Inr (nat (next_arg_id ctx), ctx\<lparr>next_arg_id := next_arg_id ctx + 1\<rparr>)
      else Inl (FormatError ''cannot switch from manual to automatic argument indexing''))"

definition check_arg_id :: "fmt_context \<Rightarrow> fmt_context res" where
  "check_arg_id ctx =
     (if 0 < next_arg_id ctx then Inl (FormatError ''cannot switch from automatic to manual argument indexing'')
      else Inr (ctx\<lparr>next_arg_id := -1\<rparr>))"

definition do_get_arg :: "nat \<Rightarrow> fmt_context \<Rightarrow> fmt_arg res" where
  "do_get_arg i ctx =
     (if i < length (ctx_args ctx) \<and> ctx_args ctx ! i \<noteq> none_type then Inr (ctx_args ctx ! i)
      else Inl (FormatError ''argument index out of range''))"

text \<open>\<open>on_arg_id\<close> and \<open>get_arg\<close>; no argument has a name.\<close>

definition get_arg :: "arg_id \<Rightarrow> fmt_context \<Rightarrow> (fmt_arg \<times> fmt_context) res" where
  "get_arg ref ctx =
     (case ref of
        auto_id \<Rightarrow>
          bind_res (take_next_arg_id ctx) (\<lambda>(i, ctx). bind_res (do_get_arg i ctx) (\<lambda>a. Inr (a, ctx)))
      | index_id i \<Rightarrow>
          bind_res (check_arg_id ctx) (\<lambda>ctx. bind_res (do_get_arg i ctx) (\<lambda>a. Inr (a, ctx)))
      | name_id n \<Rightarrow> Inl (FormatError ''argument not found''))"

definition parse_arg_id :: "string \<Rightarrow> (arg_id \<times> string) res" where
  "parse_arg_id s =
     (case s of
        [] \<Rightarrow> Inl AssertFailed
      | c # cs \<Rightarrow>
          if c = CHR ''}'' \<or> c = CHR '':'' then Inr (auto_id, s)
          else if in_digits c then
            bind_res (parse_nonnegative_int s) (\<lambda>(i, rest).
              if rest = [] \<or> hd rest \<noteq> CHR ''}'' \<and> hd rest \<noteq> CHR '':'' then Inl (FormatError ''invalid format string'')
              else Inr (index_id i, rest))
          else if \<not> is_name_start c then Inl (FormatError ''invalid format string'')
          else
            (let more = (\<lambda>c. is_name_start c \<or> in_digits c)
             in Inr (name_id (c # takeWhile more cs), dropWhile more cs)))"

section \<open>Specifications\<close>

text \<open>\<open>width_checker\<close> and \<open>precision_checker\<close>, which differ in their messages, and \<open>set_dynamic_spec\<close>.\<close>

fun checked_value :: "string \<Rightarrow> fmt_arg \<Rightarrow> nat res" where
  "checked_value what (int_type v) =
     (if sint v < 0 then Inl (FormatError (''negative '' @ what)) else Inr (unat v))"
| "checked_value what (uint_type v) = Inr (unat v)"
| "checked_value what (long_long_type v) =
     (if sint v < 0 then Inl (FormatError (''negative '' @ what)) else Inr (unat v))"
| "checked_value what (ulong_long_type v) = Inr (unat v)"
| "checked_value what a = Inl (FormatError (what @ '' is not integer''))"

definition set_dynamic_spec :: "string \<Rightarrow> fmt_arg \<Rightarrow> nat res" where
  "set_dynamic_spec what a =
     bind_res (checked_value what a) (\<lambda>v. if max_int < v then Inl (FormatError ''number is too big'') else Inr v)"

text \<open>\<open>specs_checker\<close> around \<open>specs_handler\<close>, for the argument \<open>a\<close>.\<close>

type_synonym specs_state = "format_specs \<times> fmt_context"

definition require_numeric :: "fmt_arg \<Rightarrow> unit res" where
  "require_numeric a =
     (if is_arithmetic a then Inr () else Inl (FormatError ''format specifier requires numeric argument''))"

fun is_signed_arg :: "fmt_arg \<Rightarrow> bool" where
  "is_signed_arg (int_type v) = True"
| "is_signed_arg (long_long_type v) = True"
| "is_signed_arg (char_type c) = True"
| "is_signed_arg a = False"

definition check_sign :: "fmt_arg \<Rightarrow> unit res" where
  "check_sign a =
     bind_res (require_numeric a) (\<lambda>_.
       if is_integral a \<and> \<not> is_signed_arg a then Inl (FormatError ''format specifier requires signed argument'')
       else Inr ())"

definition on_align :: "fmt_arg \<Rightarrow> alignment \<Rightarrow> format_specs \<Rightarrow> format_specs res" where
  "on_align a align spec =
     bind_res (if align = ALIGN_NUMERIC then require_numeric a else Inr ()) (\<lambda>_. Inr (spec\<lparr>spec_align := align\<rparr>))"

definition on_sign :: "fmt_arg \<Rightarrow> 8 word \<Rightarrow> format_specs \<Rightarrow> format_specs res" where
  "on_sign a f spec = bind_res (check_sign a) (\<lambda>_. Inr (spec\<lparr>flags := flags spec OR f\<rparr>))"

definition on_hash :: "fmt_arg \<Rightarrow> format_specs \<Rightarrow> format_specs res" where
  "on_hash a spec = bind_res (require_numeric a) (\<lambda>_. Inr (spec\<lparr>flags := flags spec OR HASH_FLAG\<rparr>))"

definition on_zero :: "fmt_arg \<Rightarrow> format_specs \<Rightarrow> format_specs res" where
  "on_zero a spec =
     bind_res (require_numeric a) (\<lambda>_. Inr (spec\<lparr>spec_align := ALIGN_NUMERIC, spec_fill := CHR ''0''\<rparr>))"

definition end_precision :: "fmt_arg \<Rightarrow> unit res" where
  "end_precision a =
     (if is_integral a \<or> (case a of pointer_type p \<Rightarrow> True | _ \<Rightarrow> False)
      then Inl (FormatError ''precision not allowed for this argument type'') else Inr ())"

text \<open>Fill and alignment.\<close>

definition alignment_of :: "char \<Rightarrow> alignment" where
  "alignment_of c =
     (if c = CHR ''<'' then ALIGN_LEFT else if c = CHR ''>'' then ALIGN_RIGHT
      else if c = CHR ''='' then ALIGN_NUMERIC else if c = CHR ''^'' then ALIGN_CENTER else ALIGN_DEFAULT)"

definition parse_align :: "fmt_arg \<Rightarrow> string \<Rightarrow> format_specs \<Rightarrow> (format_specs \<times> string) res" where
  "parse_align a s spec =
     (case s of
        [] \<Rightarrow> Inl AssertFailed
      | c # cs \<Rightarrow>
          if cs \<noteq> [] \<and> alignment_of (hd cs) \<noteq> ALIGN_DEFAULT then
            (if c = CHR ''{'' then Inl (FormatError (''invalid fill character '' @ [CHR 0x27] @ ''{'' @ [CHR 0x27]))
             else bind_res (on_align a (alignment_of (hd cs)) (spec\<lparr>spec_fill := c\<rparr>)) (\<lambda>spec. Inr (spec, tl cs)))
          else if alignment_of c \<noteq> ALIGN_DEFAULT then
            bind_res (on_align a (alignment_of c) spec) (\<lambda>spec. Inr (spec, cs))
          else Inr (spec, s))"

text \<open>A width or a precision taken from an argument.\<close>

definition dynamic_spec :: "string \<Rightarrow> arg_id \<Rightarrow> fmt_context \<Rightarrow> (nat \<times> fmt_context) res" where
  "dynamic_spec what ref ctx =
     bind_res (get_arg ref ctx) (\<lambda>(a, ctx). bind_res (set_dynamic_spec what a) (\<lambda>v. Inr (v, ctx)))"

definition parse_width :: "string \<Rightarrow> specs_state \<Rightarrow> (specs_state \<times> string) res" where
  "parse_width s = (\<lambda>(spec, ctx).
     case s of
       [] \<Rightarrow> Inl AssertFailed
     | c # cs \<Rightarrow>
         if in_digits c then
           bind_res (parse_nonnegative_int s) (\<lambda>(v, rest). Inr ((spec\<lparr>spec_width := v\<rparr>, ctx), rest))
         else if c = CHR ''{'' then
           (if cs = [] then Inl (FormatError ''invalid format string'')
            else
              bind_res (parse_arg_id cs) (\<lambda>(ref, rest).
              bind_res (dynamic_spec ''width'' ref ctx) (\<lambda>(v, ctx).
                if rest = [] \<or> hd rest \<noteq> CHR ''}'' then Inl (FormatError ''invalid format string'')
                else Inr ((spec\<lparr>spec_width := v\<rparr>, ctx), tl rest))))
         else Inr ((spec, ctx), s))"

definition parse_precision :: "fmt_arg \<Rightarrow> string \<Rightarrow> specs_state \<Rightarrow> (specs_state \<times> string) res" where
  "parse_precision a s = (\<lambda>(spec, ctx).
     case s of
       [] \<Rightarrow> Inl (FormatError ''missing precision specifier'')
     | c # cs \<Rightarrow>
         bind_res
           (if in_digits c then
              bind_res (parse_nonnegative_int s) (\<lambda>(v, rest). Inr ((spec\<lparr>precision := int v\<rparr>, ctx), rest))
            else if c = CHR ''{'' then
              (if cs = [] then Inl (FormatError ''invalid format string'')
               else
                 bind_res (parse_arg_id cs) (\<lambda>(ref, rest).
                 bind_res (dynamic_spec ''precision'' ref ctx) (\<lambda>(v, ctx).
                   if rest = [] \<or> hd rest \<noteq> CHR ''}'' then Inl (FormatError ''invalid format string'')
                   else Inr ((spec\<lparr>precision := int v\<rparr>, ctx), tl rest))))
            else Inl (FormatError ''missing precision specifier''))
           (\<lambda>(st, rest). bind_res (end_precision a) (\<lambda>_. Inr (st, rest))))"

text \<open>The parts of \<open>parse_format_specs\<close> after the alignment; each returns at the end of the string.\<close>

definition parse_sign :: "fmt_arg \<Rightarrow> string \<Rightarrow> format_specs \<Rightarrow> (format_specs \<times> string) res" where
  "parse_sign a s spec =
     (if s = [] then Inr (spec, s)
      else if hd s = CHR ''+'' then bind_res (on_sign a (SIGN_FLAG OR PLUS_FLAG) spec) (\<lambda>spec. Inr (spec, tl s))
      else if hd s = CHR ''-'' then bind_res (on_sign a MINUS_FLAG spec) (\<lambda>spec. Inr (spec, tl s))
      else if hd s = CHR '' '' then bind_res (on_sign a SIGN_FLAG spec) (\<lambda>spec. Inr (spec, tl s))
      else Inr (spec, s))"

definition parse_hash :: "fmt_arg \<Rightarrow> string \<Rightarrow> format_specs \<Rightarrow> (format_specs \<times> string) res" where
  "parse_hash a s spec =
     (if s \<noteq> [] \<and> hd s = CHR ''#'' then bind_res (on_hash a spec) (\<lambda>spec. Inr (spec, tl s)) else Inr (spec, s))"

definition parse_zero :: "fmt_arg \<Rightarrow> string \<Rightarrow> format_specs \<Rightarrow> (format_specs \<times> string) res" where
  "parse_zero a s spec =
     (if s \<noteq> [] \<and> hd s = CHR ''0'' then bind_res (on_zero a spec) (\<lambda>spec. Inr (spec, tl s)) else Inr (spec, s))"

definition parse_type :: "string \<Rightarrow> format_specs \<Rightarrow> format_specs \<times> string" where
  "parse_type s spec =
     (if s \<noteq> [] \<and> hd s \<noteq> CHR ''}'' then (spec\<lparr>spec_type := hd s\<rparr>, tl s) else (spec, s))"

definition parse_format_specs :: "fmt_arg \<Rightarrow> string \<Rightarrow> specs_state \<Rightarrow> (specs_state \<times> string) res" where
  "parse_format_specs a s = (\<lambda>(spec, ctx).
     if s = [] \<or> hd s = CHR ''}'' then Inr ((spec, ctx), s)
     else
       bind_res (parse_align a s spec) (\<lambda>(spec, s).
       bind_res (parse_sign a s spec) (\<lambda>(spec, s).
       bind_res (parse_hash a s spec) (\<lambda>(spec, s).
       bind_res (parse_zero a s spec) (\<lambda>(spec, s).
         if s = [] then Inr ((spec, ctx), s)
         else
           bind_res (parse_width s (spec, ctx)) (\<lambda>((spec, ctx), s).
           bind_res (if s \<noteq> [] \<and> hd s = CHR ''.'' then parse_precision a (tl s) (spec, ctx) else Inr ((spec, ctx), s))
             (\<lambda>((spec, ctx), s). case parse_type s spec of (spec, s) \<Rightarrow> Inr ((spec, ctx), s))))))))"

section \<open>The format string\<close>

definition on_text :: "string \<Rightarrow> fmt_context \<Rightarrow> fmt_context" where
  "on_text s ctx = ctx\<lparr>ctx_out := ctx_out ctx @ s\<rparr>"

definition on_replacement_field :: "fmt_env \<Rightarrow> fmt_arg \<Rightarrow> fmt_context \<Rightarrow> fmt_context res" where
  "on_replacement_field env a ctx = bind_res (visit_arg env a None) (\<lambda>t. Inr (on_text t ctx))"

definition on_format_specs :: "fmt_env \<Rightarrow> fmt_arg \<Rightarrow> string \<Rightarrow> fmt_context \<Rightarrow> (fmt_context \<times> string) res" where
  "on_format_specs env a s ctx =
     bind_res (parse_format_specs a s (format_specs_new, ctx)) (\<lambda>((spec, ctx), rest).
       if rest = [] \<or> hd rest \<noteq> CHR ''}''
       then Inl (FormatError (''missing '' @ [CHR 0x27] @ ''}'' @ [CHR 0x27] @ '' in format string''))
       else bind_res (visit_arg env a (Some spec)) (\<lambda>t. Inr (on_text t ctx, rest)))"

text \<open>The local class \<open>writer\<close> of \<open>parse_format_string\<close>: a closing brace is doubled.\<close>

function write_text :: "string \<Rightarrow> fmt_context \<Rightarrow> fmt_context res" where
  "write_text s ctx =
     (if s = [] then Inr ctx
      else if CHR ''}'' \<notin> set s then Inr (on_text s ctx)
      else
        (let before = takeWhile (\<lambda>c. c \<noteq> CHR ''}'') s;
             p = tl (dropWhile (\<lambda>c. c \<noteq> CHR ''}'') s)
         in if p = [] \<or> hd p \<noteq> CHR ''}''
            then Inl (FormatError (''unmatched '' @ [CHR 0x27] @ ''}'' @ [CHR 0x27] @ '' in format string''))
            else write_text (tl p) (on_text (before @ ''}'') ctx)))"
  by pat_completeness auto
termination
proof (relation "measure (\<lambda>(s, ctx). length s)", simp, goal_cases)
  case (1 s ctx before p)
  then show ?case
    using length_dropWhile_le [of "\<lambda>c. c \<noteq> CHR ''}''" s] by (cases s) auto
qed

declare write_text.simps [simp del]

text \<open>One replacement field, after its opening brace; what is left starts after its closing brace.\<close>

definition parse_field :: "fmt_env \<Rightarrow> string \<Rightarrow> fmt_context \<Rightarrow> (fmt_context \<times> string) res" where
  "parse_field env p ctx =
     (if p = [] then Inl (FormatError ''invalid format string'')
      else if hd p = CHR ''}'' then
        bind_res (get_arg auto_id ctx) (\<lambda>(a, ctx). bind_res (on_replacement_field env a ctx) (\<lambda>ctx. Inr (ctx, tl p)))
      else if hd p = CHR ''{'' then Inr (on_text ''{'' ctx, tl p)
      else
        bind_res (parse_arg_id p) (\<lambda>(ref, p).
        bind_res (get_arg ref ctx) (\<lambda>(a, ctx).
          if p \<noteq> [] \<and> hd p = CHR ''}'' then
            bind_res (on_replacement_field env a ctx) (\<lambda>ctx. Inr (ctx, tl p))
          else if p \<noteq> [] \<and> hd p = CHR '':'' then
            bind_res (on_format_specs env a (tl p) ctx) (\<lambda>(ctx, p).
              if p = [] \<or> hd p \<noteq> CHR ''}'' then Inl (FormatError ''unknown format specifier'')
              else Inr (ctx, tl p))
          else Inl (FormatError (''missing '' @ [CHR 0x27] @ ''}'' @ [CHR 0x27] @ '' in format string'')))))"

section \<open>Every step consumes the format string or reports an error\<close>

text \<open>A parser that returns leaves at most \<open>n\<close> characters; otherwise it has thrown a \<open>format_error\<close>.\<close>

definition parses :: "nat \<Rightarrow> ('a \<times> string) res \<Rightarrow> bool" where
  "parses n m \<longleftrightarrow> (\<exists>x r. m = Inr (x, r) \<and> length r \<le> n) \<or> (\<exists>e. m = Inl (FormatError e))"

lemma parses_simps [simp]: "parses n (Inr (x, r)) \<longleftrightarrow> length r \<le> n" "parses n (Inl (FormatError e))"
  by (simp_all add: parses_def)

lemma parses_Inr: "parses n m \<Longrightarrow> m = Inr (x, r) \<Longrightarrow> length r \<le> n"
  by (auto simp: parses_def)

lemma parses_fmt_ok: "parses n m \<Longrightarrow> fmt_ok m"
  by (auto simp: parses_def)

lemma parses_bind:
  assumes "parses k m" and "\<And>x r. m = Inr (x, r) \<Longrightarrow> length r \<le> k \<Longrightarrow> parses n (f (x, r))"
  shows "parses n (bind_res m f)"
  using assms by (auto simp: parses_def)

lemma parses_mono: "parses k m \<Longrightarrow> k \<le> n \<Longrightarrow> parses n m"
  by (auto simp: parses_def)

lemma fmt_ok_parses_bind: "fmt_ok m \<Longrightarrow> (\<And>x. m = Inr x \<Longrightarrow> parses n (f x)) \<Longrightarrow> parses n (bind_res m f)"
  by (auto elim: fmt_ok_cases)

lemma parse_int_loop_length: "length (snd (parse_int_loop v s)) \<le> length s"
  by (induction v s rule: parse_int_loop.induct) (auto simp: le_SucI)

lemma parse_nonnegative_int_parses: "s \<noteq> [] \<Longrightarrow> in_digits (hd s) \<Longrightarrow> parses (length s) (parse_nonnegative_int s)"
  using parse_int_loop_length [of 0 s]
  by (auto simp: parse_nonnegative_int_def Let_def split: list.splits prod.splits)

lemma parse_arg_id_parses: "s \<noteq> [] \<Longrightarrow> parses (length s) (parse_arg_id s)"
proof (cases s)
  case (Cons c cs)
  have "parses (length s) (parse_nonnegative_int s)" if "in_digits c"
    using that by (intro parse_nonnegative_int_parses) (simp_all add: Cons)
  then show ?thesis
    by (auto simp: parse_arg_id_def Cons Let_def le_SucI length_dropWhile_le intro!: parses_bind)
qed simp

lemma get_arg_ok: "fmt_ok (get_arg ref ctx)"
  by (auto simp: get_arg_def take_next_arg_id_def check_arg_id_def do_get_arg_def split: arg_id.splits)

lemma set_dynamic_spec_ok: "fmt_ok (set_dynamic_spec what a)"
  by (cases a) (auto simp: set_dynamic_spec_def)

lemma dynamic_spec_ok: "fmt_ok (dynamic_spec what ref ctx)"
  by (auto simp: dynamic_spec_def split: prod.splits intro!: fmt_ok_bind get_arg_ok set_dynamic_spec_ok)

lemma spec_handlers_ok:
  "fmt_ok (on_align a align spec)" "fmt_ok (on_sign a f spec)" "fmt_ok (on_hash a spec)" "fmt_ok (on_zero a spec)"
  "fmt_ok (end_precision a)"
  by (simp_all add: on_align_def on_sign_def on_hash_def on_zero_def end_precision_def check_sign_def require_numeric_def)

lemma parse_flags_parses:
  "s \<noteq> [] \<Longrightarrow> parses (length s) (parse_align a s spec)"
  "parses (length s) (parse_sign a s spec)" "parses (length s) (parse_hash a s spec)" "parses (length s) (parse_zero a s spec)"
  by (auto simp: parse_align_def parse_sign_def parse_hash_def parse_zero_def neq_Nil_conv
      intro!: fmt_ok_parses_bind spec_handlers_ok split: list.splits)

lemma parse_width_parses: "s \<noteq> [] \<Longrightarrow> parses (length s) (parse_width s st)"
proof (cases s)
  case (Cons c cs)
  have "parses (length s) (parse_nonnegative_int s)" if "in_digits c"
    using that by (intro parse_nonnegative_int_parses) (simp_all add: Cons)
  then show ?thesis
    by (cases st) (auto simp: parse_width_def Cons le_SucI
      intro!: parses_bind [of "length s"] parses_bind [OF parse_arg_id_parses] fmt_ok_parses_bind [OF dynamic_spec_ok])
qed simp

lemma parse_precision_parses: "parses (length s) (parse_precision a s st)"
proof (cases s)
  case (Cons c cs)
  have "parses (length s) (parse_nonnegative_int s)" if "in_digits c"
    using that by (intro parse_nonnegative_int_parses) (simp_all add: Cons)
  then show ?thesis
    by (cases st) (auto simp: parse_precision_def Cons le_SucI
      intro!: parses_bind [of "length s"] parses_bind [OF parse_arg_id_parses] fmt_ok_parses_bind [OF dynamic_spec_ok]
        fmt_ok_parses_bind [OF spec_handlers_ok(5)])
qed (cases st, simp add: parse_precision_def)

lemma parse_type_length: "length (snd (parse_type s spec)) \<le> length s"
  by (simp add: parse_type_def)

lemma parse_format_specs_parses: "parses (length s) (parse_format_specs a s st)"
proof (cases st)
  case (Pair spec ctx)
  have tail: "parses n (case parse_type s' spec' of (spec'', s'') \<Rightarrow> Inr ((spec'', ctx'), s''))"
    if "length s' \<le> n" for n s' spec' ctx'
    using parse_type_length [of s' spec'] that by (auto split: prod.splits)
  have precision: "parses n (if s' \<noteq> [] \<and> hd s' = CHR ''.'' then parse_precision a (tl s') st' else Inr (st', s'))"
    if "length s' \<le> n" for n s' st'
    using parse_precision_parses [of "tl s'" a st'] that by (auto simp: parses_def intro: order_trans)
  have flags: "s' \<noteq> [] \<Longrightarrow> parses n (parse_align a s' spec')" "parses n (parse_sign a s' spec')" "parses n (parse_hash a s' spec')"
    "parses n (parse_zero a s' spec')" "s' \<noteq> [] \<Longrightarrow> parses n (parse_width s' st')"
    if "length s' \<le> n" for n s' spec' st'
    using parse_flags_parses [of s' a spec'] parse_width_parses [of s' st'] that by (auto intro: parses_mono)
  show ?thesis
    by (auto simp: parse_format_specs_def Pair split: prod.splits
        intro!: parses_bind [of "length s"] flags precision tail)
qed

lemma on_format_specs_parses: "parses (length s) (on_format_specs env a s ctx)" if "a \<noteq> none_type"
  using that
  by (auto simp: on_format_specs_def
      intro!: parses_bind [OF parse_format_specs_parses] fmt_ok_parses_bind [OF visit_arg_ok])

text \<open>An argument that was found has a value.\<close>

lemma get_arg_value: "get_arg ref ctx = Inr (a, ctx') \<Longrightarrow> a \<noteq> none_type"
  by (auto simp: get_arg_def do_get_arg_def bind_res_eq_Inr split: arg_id.splits if_splits)

lemma on_replacement_field_ok: "a \<noteq> none_type \<Longrightarrow> fmt_ok (on_replacement_field env a ctx)"
  by (auto simp: on_replacement_field_def intro!: visit_arg_ok)

lemma parse_field_parses: "parses (length p - 1) (parse_field env p ctx)"
proof (cases p)
  case (Cons c cs)
  have field: "parses (length cs) (bind_res (on_replacement_field env a ctx) (\<lambda>ctx. Inr (ctx, r)))"
    if "a \<noteq> none_type" "length r \<le> length cs" for a ctx r
    using that by (intro fmt_ok_parses_bind [OF on_replacement_field_ok]) auto
  have specs: "parses (length cs) (bind_res (on_format_specs env a r ctx) (\<lambda>(ctx, p).
      if p = [] \<or> hd p \<noteq> CHR ''}'' then Inl (FormatError ''unknown format specifier'') else Inr (ctx, tl p)))"
    if "a \<noteq> none_type" "length r \<le> length cs" for a ctx r
    using that by (intro parses_bind [OF on_format_specs_parses]) auto
  show ?thesis
    by (auto simp: parse_field_def Cons split: prod.splits
        intro!: parses_bind [OF parse_arg_id_parses] fmt_ok_parses_bind [OF get_arg_ok] field specs
        dest: get_arg_value)
qed (simp add: parse_field_def)

section \<open>The loop over the format string\<close>

text \<open>\<open>parse_format_string\<close> finds the next opening brace, writes the text before it and parses the field.\<close>

function parse_format_string :: "fmt_env \<Rightarrow> string \<Rightarrow> fmt_context \<Rightarrow> fmt_context res" where
  "parse_format_string env s ctx =
     (if s = [] then Inr ctx
      else if CHR ''{'' \<notin> set s then write_text s ctx
      else
        (let before = takeWhile (\<lambda>c. c \<noteq> CHR ''{'') s;
             p = tl (dropWhile (\<lambda>c. c \<noteq> CHR ''{'') s)
         in bind_res (write_text before ctx) (\<lambda>ctx.
            bind_res (parse_field env p ctx) (\<lambda>(ctx, p). parse_format_string env p ctx))))"
  by pat_completeness auto
termination
proof (relation "measure (\<lambda>(env, s, ctx). length s)", simp, goal_cases)
  case (1 env s ctx before p ctx1 field ctx2 rest)
  then have "parse_field env p ctx1 = Inr (ctx2, rest)" by simp
  then have "length rest \<le> length p - 1" by (rule parses_Inr [OF parse_field_parses])
  moreover have "length p \<le> length s" "s \<noteq> []"
    using 1 length_dropWhile_le [of "\<lambda>c. c \<noteq> CHR ''{''" s] by auto
  ultimately show ?case by (cases s) auto
qed

declare parse_format_string.simps [simp del]

text \<open>\<open>vformat_to\<close> appends to the output \<open>out\<close>.\<close>

definition vformat_to :: "fmt_env \<Rightarrow> string \<Rightarrow> string \<Rightarrow> fmt_arg list \<Rightarrow> string res" where
  "vformat_to env out format_str args =
     bind_res (parse_format_string env format_str (fmt_context_new args out)) (\<lambda>ctx. Inr (ctx_out ctx))"

lemma write_text_ok: "fmt_ok (write_text s ctx)"
  by (induction s ctx rule: write_text.induct) (subst write_text.simps, auto simp: Let_def)

lemma parse_format_string_ok: "fmt_ok (parse_format_string env s ctx)"
proof (induction env s ctx rule: parse_format_string.induct)
  case (1 env s ctx)
  show ?case
  proof (cases "s = [] \<or> CHR ''{'' \<notin> set s")
    case True
    then show ?thesis by (subst parse_format_string.simps) (auto simp: write_text_ok)
  next
    case False
    with 1 show ?thesis
      by (subst parse_format_string.simps)
        (auto simp: Let_def intro!: fmt_ok_bind write_text_ok parses_fmt_ok [OF parse_field_parses])
  qed
qed

lemma vformat_ok: "fmt_ok (vformat_to env out s args)"
  unfolding vformat_to_def by (intro fmt_ok_bind parse_format_string_ok) simp

text \<open>The same as one step: the text up to the next opening brace, and the field after it.\<close>

lemma write_text_nil [simp]: "write_text [] ctx = Inr ctx"
  by (subst write_text.simps) simp

lemma no_brace: "CHR ''{'' \<notin> set s \<Longrightarrow> takeWhile (\<lambda>c. c \<noteq> CHR ''{'') s = s \<and> dropWhile (\<lambda>c. c \<noteq> CHR ''{'') s = []"
  by (induction s) auto

lemma some_brace: "dropWhile (\<lambda>c. c \<noteq> CHR ''{'') s = b # p \<Longrightarrow> CHR ''{'' \<in> set s \<and> s \<noteq> []"
  by (induction s) (auto split: if_splits)

lemma bind_res_Inr [simp]: "bind_res m Inr = m"
  by (cases m) simp_all

lemma parse_format_string_step:
  "parse_format_string env s ctx =
     bind_res (write_text (takeWhile (\<lambda>c. c \<noteq> CHR ''{'') s) ctx) (\<lambda>ctx.
       case dropWhile (\<lambda>c. c \<noteq> CHR ''{'') s of
         [] \<Rightarrow> Inr ctx
       | b # p \<Rightarrow> bind_res (parse_field env p ctx) (\<lambda>(ctx, p). parse_format_string env p ctx))"
proof (cases "dropWhile (\<lambda>c. c \<noteq> CHR ''{'') s")
  case Nil
  then have n: "CHR ''{'' \<notin> set s" by (auto simp: dropWhile_eq_Nil_conv)
  then show ?thesis unfolding conjunct1 [OF no_brace [OF n]] conjunct2 [OF no_brace [OF n]]
    by (subst parse_format_string.simps) simp
next
  case (Cons b p)
  with some_brace [OF Cons] show ?thesis by (subst parse_format_string.simps) (simp only: if_False if_True simp_thms Let_def list.simps list.sel)
qed

lemma on_text_nil [simp]: "on_text [] ctx = ctx"
  by (simp add: on_text_def)

lemma on_text_append [simp]: "on_text t (on_text s ctx) = on_text (s @ t) ctx"
  by (simp add: on_text_def)

lemma write_text_plain: "c \<noteq> CHR ''}'' \<Longrightarrow> write_text (c # s) ctx = write_text s (on_text [c] ctx)"
  by (subst (1 2) write_text.simps) (auto simp: Let_def)

lemma write_text_brace: "write_text (CHR ''}'' # CHR ''}'' # s) ctx = write_text s (on_text ''}'' ctx)"
  by (subst write_text.simps) simp

section \<open>Texts with placeholders\<close>

text \<open>A format string built from literal text, its braces doubled, and plain placeholders.\<close>

datatype piece = Text string | Placeholder

definition escape :: "string \<Rightarrow> string" where
  "escape s = concat (map (\<lambda>c. if c = CHR ''{'' \<or> c = CHR ''}'' then [c, c] else [c]) s)"

fun template :: "piece list \<Rightarrow> string" where
  "template [] = []"
| "template (Text s # ps) = escape s @ template ps"
| "template (Placeholder # ps) = ''{}'' @ template ps"

text \<open>What it should print: the arguments in order, in the place of the placeholders.\<close>

fun fill_in :: "fmt_env \<Rightarrow> string \<Rightarrow> piece list \<Rightarrow> fmt_arg list \<Rightarrow> string res" where
  "fill_in env out [] args = Inr out"
| "fill_in env out (Text s # ps) args = fill_in env (out @ s) ps args"
| "fill_in env out (Placeholder # ps) args =
     (case args of
        [] \<Rightarrow> Inl (FormatError ''argument index out of range'')
      | a # args \<Rightarrow>
          if a = none_type then Inl (FormatError ''argument index out of range'')
          else bind_res (visit_arg env a None) (\<lambda>t. fill_in env (out @ t) ps args))"

lemma parse_escaped_char:
  "parse_format_string env ((if c = CHR ''{'' \<or> c = CHR ''}'' then [c, c] else [c]) @ s) ctx = parse_format_string env s (on_text [c] ctx)"
proof -
  consider "c = CHR ''{''" | "c = CHR ''}''" | "c \<noteq> CHR ''{''" "c \<noteq> CHR ''}''" by blast
  then show ?thesis
  proof cases
    case 1
    then show ?thesis by (subst parse_format_string_step) (simp add: parse_field_def)
  next
    case 2
    then show ?thesis by (subst (1 2) parse_format_string_step) (simp add: write_text_brace)
  next
    case 3
    then show ?thesis by (subst (1 2) parse_format_string_step) (simp add: write_text_plain)
  qed
qed

lemma parse_escaped: "parse_format_string env (escape t @ s) ctx = parse_format_string env s (on_text t ctx)"
proof (induction t arbitrary: ctx)
  case (Cons c t)
  have "escape (c # t) @ s = (if c = CHR ''{'' \<or> c = CHR ''}'' then [c, c] else [c]) @ (escape t @ s)"
    by (simp add: escape_def)
  then show ?case by (simp only: parse_escaped_char Cons.IH) simp
qed (simp add: escape_def)

lemma parse_placeholder:
  "parse_format_string env (CHR ''{'' # CHR ''}'' # s) ctx =
     bind_res (get_arg auto_id ctx) (\<lambda>(a, ctx). bind_res (on_replacement_field env a ctx) (\<lambda>ctx. parse_format_string env s ctx))"
  by (subst parse_format_string_step)
    (auto simp: parse_field_def bind_res_def split: sum.split prod.split)

lemma fill_in_text: "fill_in env (out @ s) ps args = fill_in env out (Text s # ps) args"
  by simp

lemma template_fills:
  assumes "ctx_args ctx = done' @ args" and "next_arg_id ctx = int (length done')"
  shows "bind_res (parse_format_string env (template ps) ctx) (\<lambda>ctx. Inr (ctx_out ctx)) = fill_in env (ctx_out ctx) ps args"
  using assms
proof (induction ps arbitrary: ctx done' args)
  case Nil
  show ?case by (simp add: parse_format_string.simps [of env "[]"])
next
  case (Cons q ps)
  show ?case
  proof (cases q)
    case (Text s)
    have "ctx_args (on_text s ctx) = done' @ args" "next_arg_id (on_text s ctx) = int (length done')"
      using Cons.prems by (simp_all add: on_text_def)
    from Cons.IH [OF this] show ?thesis by (simp add: Text parse_escaped) (simp add: on_text_def)
  next
    case Placeholder
    note step = parse_placeholder [of env "template ps" ctx]
    consider "args = []" | a rest where "args = a # rest" by (cases args)
    then show ?thesis
    proof cases
      case 1
      with Cons.prems have "get_arg auto_id ctx = Inl (FormatError ''argument index out of range'')"
        by (simp add: get_arg_def take_next_arg_id_def do_get_arg_def)
      with 1 show ?thesis by (simp add: step Placeholder)
    next
      case (2 a rest)
      let ?ctx = "ctx\<lparr>next_arg_id := next_arg_id ctx + 1\<rparr>"
      have g: "get_arg auto_id ctx = (if a = none_type then Inl (FormatError ''argument index out of range'') else Inr (a, ?ctx))"
        using Cons.prems 2 by (simp add: get_arg_def take_next_arg_id_def do_get_arg_def nth_append)
      show ?thesis
      proof (cases "a = none_type \<or> (\<exists>e. visit_arg env a None = Inl e)")
        case True
        with 2 show ?thesis by (auto simp: step g Placeholder on_replacement_field_def)
      next
        case False
        then obtain u where u: "a \<noteq> none_type" "visit_arg env a None = Inr u" by (cases "visit_arg env a None") auto
        have "ctx_args (on_text u ?ctx) = (done' @ [a]) @ rest" "next_arg_id (on_text u ?ctx) = int (length (done' @ [a]))"
          using Cons.prems 2 by (simp_all add: on_text_def)
        from Cons.IH [OF this] u 2 show ?thesis by (simp add: step g Placeholder on_replacement_field_def) (simp add: on_text_def)
      qed
    qed
  qed
qed

section \<open>Numbers\<close>

lemma in_digits_is_digit: "in_digits c \<longleftrightarrow> is_digit c"
  by (simp add: in_digits_def is_digit_def less_eq_char_def)

definition digits_value :: "nat \<Rightarrow> string \<Rightarrow> nat" where
  "digits_value a ds = foldl (\<lambda>a c. 10 * a + digit_val c) a ds"

lemma digits_value_simps [simp]:
  "digits_value a [] = a" "digits_value a (d # ds) = digits_value (10 * a + digit_val d) ds"
  by (simp_all add: digits_value_def)

lemma digits_value_ge: "a \<le> digits_value a ds"
proof (induction ds arbitrary: a)
  case (Cons d ds)
  have "a \<le> 10 * a + digit_val d" by simp
  also have "\<dots> \<le> digits_value (10 * a + digit_val d) ds" by (rule Cons.IH)
  finally show ?case by simp
qed simp

text \<open>A value above a tenth of the largest \<open>int\<close> is caught before it is multiplied, so nothing wraps.\<close>

lemma next_value:
  fixes v :: "32 word"
  assumes "\<not> word_of_nat (max_int div 10) < v" and "is_digit c"
  shows "unat (v * 10 + word_of_nat (of_char c - of_char CHR ''0'')) = 10 * unat v + digit_val c"
    and "10 * unat v + digit_val c \<le> 2147483649"
proof -
  have v: "unat v \<le> 214748364" using assms(1) by (simp add: max_int_def word_less_nat_alt not_less)
  have d: "digit_val c \<le> 9" "of_char c - of_char CHR ''0'' = digit_val c" using assms(2) by (auto simp: is_digit_def digit_val_def)
  from v d show le: "10 * unat v + digit_val c \<le> 2147483649" by linarith
  have "v * 10 + word_of_nat (digit_val c) = word_of_nat (10 * unat v + digit_val c)" by simp
  moreover have "unat (word_of_nat (10 * unat v + digit_val c) :: 32 word) = 10 * unat v + digit_val c"
    using le by (intro unat_word_of_nat_small) simp
  ultimately show "unat (v * 10 + word_of_nat (of_char c - of_char CHR ''0'')) = 10 * unat v + digit_val c" using d by metis
qed

lemma parse_int_loop_digits:
  assumes "\<forall>c \<in> set ds. is_digit c" and "rest = [] \<or> \<not> is_digit (hd rest)" and "unat v \<le> 2147483649"
  shows "if digits_value (unat v) ds \<le> max_int
    then unat (fst (parse_int_loop v (ds @ rest))) = digits_value (unat v) ds \<and> snd (parse_int_loop v (ds @ rest)) = rest
    else max_int < unat (fst (parse_int_loop v (ds @ rest)))"
  using assms(1,3)
proof (induction ds arbitrary: v)
  case Nil
  then show ?case using assms(2) by (cases rest) (auto simp: in_digits_is_digit)
next
  case (Cons d ds)
  have d: "is_digit d" using Cons.prems by simp
  show ?case
  proof (cases "word_of_nat (max_int div 10) < v")
    case True
    then have "max_int < 10 * unat v + digit_val d" by (simp add: max_int_def word_less_nat_alt)
    also have "\<dots> \<le> digits_value (unat v) (d # ds)" using digits_value_ge by simp
    finally show ?thesis using True d by (simp add: in_digits_is_digit max_int_def)
  next
    case False
    define w where "w = v * 10 + word_of_nat (of_char d - of_char CHR ''0'')"
    have n: "unat w = 10 * unat v + digit_val d" "unat w \<le> 2147483649"
      using next_value [OF False d] by (simp_all add: w_def)
    have "parse_int_loop v ((d # ds) @ rest) = parse_int_loop w (ds @ rest)"
      using False d by (simp add: in_digits_is_digit w_def)
    with Cons.IH [of w] Cons.prems n show ?thesis by simp
  qed
qed

lemma hd_show_nat: "0 < n \<Longrightarrow> hd (show_nat n) \<noteq> CHR ''0''"
proof (induction n rule: show_nat.induct)
  case (1 n)
  show ?case
  proof (cases "n < 10")
    case True
    with 1 have "hd (show_nat n) = digit n" "digit_val (digit n) \<noteq> 0" by (simp_all add: show_nat.simps [of n])
    then show ?thesis by (auto simp: digit_val_def)
  next
    case False
    with 1 have "hd (show_nat (n div 10)) \<noteq> CHR ''0''" by simp
    with False show ?thesis by (simp add: show_nat.simps [of n] hd_append)
  qed
qed

section \<open>Properties\<close>

text \<open>
  C10. Whatever the format string is, and whatever arguments of the kinds of \<open>fmt_arg\<close> (integers,
  characters, booleans, strings, C strings, pointers; no floating-point, user-defined or named ones)
  are given, formatting either gives a text or throws a \<open>format_error\<close>: no assertion of the library fails, and the format string is never read past its end.
\<close>

theorem formatting_is_total:
  "(\<exists>t. vformat_to env out format_str args = Inr t) \<or> (\<exists>m. vformat_to env out format_str args = Inl (FormatError m))"
  using vformat_ok [of env out format_str args] by (simp add: fmt_ok_def)

text \<open>
  C23. Literal text with its braces doubled is printed as it is, and the placeholders \<open>{}\<close> print the
  arguments in their order; with fewer arguments than placeholders the result is the error
  \<open>argument index out of range\<close>, with more the rest is ignored.
\<close>

theorem template_prints_arguments:
  "vformat_to env out (template ps) args = fill_in env out ps args"
  using template_fills [of "fmt_context_new args out" "[]" args env ps]
  by (simp add: vformat_to_def fmt_context_new_def)

text \<open>
  C29. The number of a width, a precision or an argument index is read back as it was printed; above the
  largest \<open>int\<close> it is an error, and the 32-bit arithmetic never wraps to a wrong value.
\<close>

theorem parse_number_exact:
  assumes "rest = [] \<or> \<not> is_digit (hd rest)"
  shows "parse_nonnegative_int (show_nat n @ rest) =
    (if n \<le> max_int then Inr (n, rest) else Inl (FormatError ''number is too big''))"
proof (cases "n = 0")
  case True
  then show ?thesis by (simp add: show_nat.simps [of 0] digit_chars parse_nonnegative_int_def in_digits_def max_int_def)
next
  case False
  obtain c cs where s: "show_nat n = c # cs" by (meson neq_Nil_conv show_nat_nonempty)
  have c: "in_digits c" "c \<noteq> CHR ''0''" using show_nat_digits [of c n] hd_show_nat [of n] False by (auto simp: s in_digits_is_digit)
  have "digits_value 0 (show_nat n) = n" using nat_of_digits_show_nat [of n] by (simp add: digits_value_def nat_of_digits_def)
  with parse_int_loop_digits [of "show_nat n" rest 0] assms show_nat_digits [of _ n] have
    p: "if n \<le> max_int then unat (fst (parse_int_loop 0 (show_nat n @ rest))) = n \<and> snd (parse_int_loop 0 (show_nat n @ rest)) = rest
      else max_int < unat (fst (parse_int_loop 0 (show_nat n @ rest)))" by simp
  have "parse_nonnegative_int (show_nat n @ rest) =
    (case parse_int_loop 0 (show_nat n @ rest) of
      (v, rest) \<Rightarrow> if word_of_nat max_int < v then Inl (FormatError ''number is too big'') else Inr (unat v, rest))"
    using c by (simp add: parse_nonnegative_int_def s)
  with p show ?thesis by (auto simp: word_less_nat_alt max_int_def split: prod.splits if_splits)
qed

theorem parse_number_exact_witness:
  "parse_nonnegative_int (show_nat 2147483647 @ ''}'') = Inr (2147483647, ''}'') \<and>
   parse_nonnegative_int (show_nat 4294967301 @ ''}'') = Inl (FormatError ''number is too big'')"
  using parse_number_exact [of "''}''" 2147483647] parse_number_exact [of "''}''" 4294967301]
  by (simp add: is_digit_def max_int_def)

end
