(* ===== verification/PatternFormatter.thy ===== *)
theory PatternFormatter
  imports FmtParse Timestamps
begin

text \<open>
  The log patterns of \<open>spdlog/details/pattern_formatter.h\<close>, with \<open>fmt_helper.h\<close>, \<open>log_msg.h\<close> and the
  levels of \<open>common.h\<close>: the flag formatters, the padding around a field, the compilation of a pattern
  string into flag formatters and the formatter that runs them. A memory buffer is its text; an
  operation gives the longer text, or the error that stops it. The broken-down time is the record of
  theory Timestamps with the fields the patterns use besides; \<open>localtime\<close>, \<open>gmtime\<close> and the process
  id are parameters. The \<open>int\<close> fields of a time are far from overflow, so they are integers.
\<close>

section \<open>Levels and messages\<close>

datatype level = trace | debug | info | warn | err | critical | off

definition level_num :: "level \<Rightarrow> int" where
  "level_num l = (case l of trace \<Rightarrow> 0 | debug \<Rightarrow> 1 | info \<Rightarrow> 2 | warn \<Rightarrow> 3 | err \<Rightarrow> 4 | critical \<Rightarrow> 5 | off \<Rightarrow> 6)"

definition level_string_views :: "string list" where
  "level_string_views = [''trace'', ''debug'', ''info'', ''warning'', ''error'', ''critical'', ''off'']"

definition short_level_names :: "string list" where
  "short_level_names = [''T'', ''D'', ''I'', ''W'', ''E'', ''C'', ''O'']"

definition level_name :: "level \<Rightarrow> string" where
  "level_name l = level_string_views ! nat (level_num l)"

definition short_level_name :: "level \<Rightarrow> string" where
  "short_level_name l = short_level_names ! nat (level_num l)"

text \<open>\<open>from_str\<close>: the index of the name, \<open>off\<close> when there is none.\<close>

definition level_from_str :: "string \<Rightarrow> level" where
  "level_from_str name =
     (case filter (\<lambda>(s, l). s = name) (zip level_string_views [trace, debug, info, warn, err, critical, off]) of
        [] \<Rightarrow> off
      | (s, l) # _ \<Rightarrow> l)"

record source_loc =
  loc_filename :: string
  loc_line :: "32 word"
  loc_funcname :: string

definition no_source :: source_loc where
  "no_source = \<lparr>loc_filename = [], loc_line = 0, loc_funcname = []\<rparr>"

definition source_empty :: "source_loc \<Rightarrow> bool" where
  "source_empty l \<longleftrightarrow> loc_line l = 0"

text \<open>The time is a count of nanoseconds; the colour range is written by the formatter.\<close>

record log_msg =
  msg_logger_name :: string
  msg_level :: level
  msg_time :: "64 word"
  msg_thread_id :: "64 word"
  msg_id :: "64 word"
  color_range_start :: nat
  color_range_end :: nat
  msg_source :: source_loc
  payload :: string

definition log_msg_new :: "source_loc \<Rightarrow> string \<Rightarrow> level \<Rightarrow> string \<Rightarrow> 64 word \<Rightarrow> 64 word \<Rightarrow> log_msg" where
  "log_msg_new loc name lvl view now thread =
     \<lparr>msg_logger_name = name, msg_level = lvl, msg_time = now, msg_thread_id = thread, msg_id = 0,
      color_range_start = 0, color_range_end = 0, msg_source = loc, payload = view\<rparr>"

section \<open>Numbers in a buffer\<close>

definition append_int :: "int \<Rightarrow> string \<Rightarrow> string res" where
  "append_int n dest = bind_res (format_signed (local_buffer BUFFER_SIZE) (word_of_int n)) (\<lambda>s. Inr (dest @ s))"

definition append_uint :: "64 word \<Rightarrow> string \<Rightarrow> string res" where
  "append_uint n dest = bind_res (format_int_unsigned (local_buffer BUFFER_SIZE) n) (\<lambda>s. Inr (dest @ s))"

text \<open>\<open>"{:02}"\<close> uses neither the locale nor an address.\<close>

definition no_env :: fmt_env where
  "no_env = \<lparr>locale_sep = CHR '','', address_of = (\<lambda>_. 0)\<rparr>"

definition pad2 :: "int \<Rightarrow> string \<Rightarrow> string res" where
  "pad2 n dest =
     (if 99 < n then append_int n dest
      else if 9 < n then Inr (dest @ [char_of (48 + nat n div 10), char_of (48 + nat n mod 10)])
      else if 0 \<le> n then Inr (dest @ [CHR ''0'', char_of (48 + nat n)])
      else vformat_to no_env dest ''{:02}'' [int_type (word_of_int n)])"

text \<open>\<open>pad_uint\<close> for a number of \<open>digits\<close> digits.\<close>

definition pad_uint :: "nat \<Rightarrow> 64 word \<Rightarrow> nat \<Rightarrow> string \<Rightarrow> string res" where
  "pad_uint digits n width dest =
     append_uint n (dest @ (if digits < width then take (width - digits) ''0000000000000000000'' else []))"

definition pad3 :: "32 word \<Rightarrow> string \<Rightarrow> string res" where
  "pad3 n = pad_uint (nat (count_digits32 n)) (ucast n) 3"

definition pad6 :: "64 word \<Rightarrow> string \<Rightarrow> string res" where
  "pad6 n = pad_uint (nat (count_digits64 n)) n 6"

definition pad9 :: "64 word \<Rightarrow> string \<Rightarrow> string res" where
  "pad9 n = pad_uint (nat (count_digits64 n)) n 9"

text \<open>\<open>duration_cast\<close> truncates; \<open>time_fraction\<close> counts in units of \<open>unit\<close> nanoseconds.\<close>

definition secs_of :: "64 word \<Rightarrow> int" where
  "secs_of t = sint t sdiv 1000000000"

definition time_fraction :: "int \<Rightarrow> 64 word \<Rightarrow> int" where
  "time_fraction unit t = sint t sdiv unit - secs_of t * (1000000000 div unit)"

section \<open>Padding\<close>

datatype pad_side = pad_left | pad_right | pad_center

record padding_info =
  pad_width :: nat
  side :: pad_side

definition no_padding :: padding_info where
  "no_padding = \<lparr>pad_width = 0, side = pad_left\<rparr>"

definition pad_enabled :: "padding_info \<Rightarrow> bool" where
  "pad_enabled p \<longleftrightarrow> pad_width p \<noteq> 0"

definition SPACES :: nat where "SPACES = 128"

definition pad_it :: "nat \<Rightarrow> string \<Rightarrow> string res" where
  "pad_it n dest = (if n \<le> SPACES then Inr (dest @ replicate n (CHR '' '')) else Inl AssertFailed)"

text \<open>The constructor of \<open>scoped_pad\<close> gives \<open>total_pad_\<close>, which its destructor writes.\<close>

definition scoped_pad :: "nat \<Rightarrow> padding_info \<Rightarrow> string \<Rightarrow> (nat \<times> string) res" where
  "scoped_pad wrapped_size p dest =
     (if pad_width p \<le> wrapped_size then Inr (0, dest)
      else
        (let total_pad = pad_width p - wrapped_size
         in case side p of
              pad_left \<Rightarrow> bind_res (pad_it total_pad dest) (\<lambda>dest. Inr (0, dest))
            | pad_center \<Rightarrow> bind_res (pad_it (total_pad div 2) dest) (\<lambda>dest. Inr (total_pad div 2 + total_pad mod 2, dest))
            | pad_right \<Rightarrow> Inr (total_pad, dest)))"

definition end_scoped_pad :: "nat \<Rightarrow> string \<Rightarrow> string res" where
  "end_scoped_pad total_pad dest = (if total_pad \<noteq> 0 then pad_it total_pad dest else Inr dest)"

text \<open>A block with a \<open>scoped_pad\<close> around its body.\<close>

definition padded :: "nat \<Rightarrow> padding_info \<Rightarrow> (string \<Rightarrow> string res) \<Rightarrow> string \<Rightarrow> string res" where
  "padded wrapped_size p body dest =
     bind_res (scoped_pad wrapped_size p dest) (\<lambda>(total_pad, dest).
       bind_res (body dest) (end_scoped_pad total_pad))"

definition put :: "string \<Rightarrow> string \<Rightarrow> string res" where
  "put s dest = Inr (dest @ s)"

text \<open>Pieces of a field one after the other.\<close>

fun in_turn :: "(string \<Rightarrow> string res) list \<Rightarrow> string \<Rightarrow> string res" where
  "in_turn [] dest = Inr dest"
| "in_turn (f # fs) dest = bind_res (f dest) (in_turn fs)"

definition padded_text :: "string \<Rightarrow> padding_info \<Rightarrow> string \<Rightarrow> string res" where
  "padded_text s p = padded (length s) p (put s)"

section \<open>Name and level\<close>

definition name_format :: "padding_info \<Rightarrow> log_msg \<Rightarrow> string \<Rightarrow> string res" where
  "name_format p m dest =
     (if pad_enabled p then padded_text (msg_logger_name m) p dest else put (msg_logger_name m) dest)"

definition level_format :: "padding_info \<Rightarrow> log_msg \<Rightarrow> string \<Rightarrow> string res" where
  "level_format p m dest =
     (if pad_enabled p then padded_text (level_name (msg_level m)) p dest else put (level_name (msg_level m)) dest)"

definition short_level_format :: "padding_info \<Rightarrow> log_msg \<Rightarrow> string \<Rightarrow> string res" where
  "short_level_format p m dest = padded_text (short_level_name (msg_level m)) p dest"

section \<open>Dates and times\<close>

record log_tm = tm +
  tm_wday :: int
  tm_gmtoff :: int

definition ampm :: "log_tm \<Rightarrow> string" where
  "ampm t = (if 12 \<le> tm_hour t then ''PM'' else ''AM'')"

definition to12h :: "log_tm \<Rightarrow> int" where
  "to12h t = (if 12 < tm_hour t then tm_hour t - 12 else tm_hour t)"

definition days :: "string list" where
  "days = [''Sun'', ''Mon'', ''Tue'', ''Wed'', ''Thu'', ''Fri'', ''Sat'']"

definition full_days :: "string list" where
  "full_days = [''Sunday'', ''Monday'', ''Tuesday'', ''Wednesday'', ''Thursday'', ''Friday'', ''Saturday'']"

definition months :: "string list" where
  "months = [''Jan'', ''Feb'', ''Mar'', ''Apr'', ''May'', ''Jun'', ''Jul'', ''Aug'', ''Sept'', ''Oct'', ''Nov'', ''Dec'']"

definition full_months :: "string list" where
  "full_months = [''January'', ''February'', ''March'', ''April'', ''May'', ''June'', ''July'', ''August'',
     ''September'', ''October'', ''November'', ''December'']"

definition name_at :: "string list \<Rightarrow> int \<Rightarrow> string res" where
  "name_at names i = (if 0 \<le> i \<and> i < int (length names) then Inr (names ! nat i) else Inl UndefinedBehaviour)"

definition a_format :: "padding_info \<Rightarrow> log_tm \<Rightarrow> string \<Rightarrow> string res" where
  "a_format p t dest = bind_res (name_at days (tm_wday t)) (\<lambda>s. padded_text s p dest)"

definition A_format :: "padding_info \<Rightarrow> log_tm \<Rightarrow> string \<Rightarrow> string res" where
  "A_format p t dest = bind_res (name_at full_days (tm_wday t)) (\<lambda>s. padded_text s p dest)"

definition b_format :: "padding_info \<Rightarrow> log_tm \<Rightarrow> string \<Rightarrow> string res" where
  "b_format p t dest = bind_res (name_at months (tm_mon t)) (\<lambda>s. padded_text s p dest)"

definition B_format :: "padding_info \<Rightarrow> log_tm \<Rightarrow> string \<Rightarrow> string res" where
  "B_format p t dest = bind_res (name_at full_months (tm_mon t)) (\<lambda>s. padded_text s p dest)"

definition c_format :: "padding_info \<Rightarrow> log_tm \<Rightarrow> string \<Rightarrow> string res" where
  "c_format p t =
     padded 24 p
       (in_turn
         [\<lambda>d. bind_res (name_at days (tm_wday t)) (\<lambda>s. put s d), put '' '',
          \<lambda>d. bind_res (name_at months (tm_mon t)) (\<lambda>s. put s d), put '' '',
          append_int (tm_mday t), put '' '',
          pad2 (tm_hour t), put '':'', pad2 (tm_min t), put '':'', pad2 (tm_sec t), put '' '',
          append_int (tm_year t + 1900)])"

text \<open>\<open>%\<close> takes the sign of its left operand.\<close>

definition C_format :: "padding_info \<Rightarrow> log_tm \<Rightarrow> string \<Rightarrow> string res" where
  "C_format p t = padded 2 p (pad2 (tm_year t smod 100))"

definition D_format :: "padding_info \<Rightarrow> log_tm \<Rightarrow> string \<Rightarrow> string res" where
  "D_format p t =
     padded 10 p (in_turn [pad2 (tm_mon t + 1), put ''/'', pad2 (tm_mday t), put ''/'', pad2 (tm_year t smod 100)])"

definition Y_format :: "padding_info \<Rightarrow> log_tm \<Rightarrow> string \<Rightarrow> string res" where
  "Y_format p t = padded 4 p (append_int (tm_year t + 1900))"

definition m_format :: "padding_info \<Rightarrow> log_tm \<Rightarrow> string \<Rightarrow> string res" where
  "m_format p t = padded 2 p (pad2 (tm_mon t + 1))"

definition d_format :: "padding_info \<Rightarrow> log_tm \<Rightarrow> string \<Rightarrow> string res" where
  "d_format p t = padded 2 p (pad2 (tm_mday t))"

definition H_format :: "padding_info \<Rightarrow> log_tm \<Rightarrow> string \<Rightarrow> string res" where
  "H_format p t = padded 2 p (pad2 (tm_hour t))"

definition I_format :: "padding_info \<Rightarrow> log_tm \<Rightarrow> string \<Rightarrow> string res" where
  "I_format p t = padded 2 p (pad2 (to12h t))"

definition M_format :: "padding_info \<Rightarrow> log_tm \<Rightarrow> string \<Rightarrow> string res" where
  "M_format p t = padded 2 p (pad2 (tm_min t))"

definition S_format :: "padding_info \<Rightarrow> log_tm \<Rightarrow> string \<Rightarrow> string res" where
  "S_format p t = padded 2 p (pad2 (tm_sec t))"

definition e_format :: "padding_info \<Rightarrow> log_msg \<Rightarrow> string \<Rightarrow> string res" where
  "e_format p m dest =
     (let millis = word_of_int (time_fraction 1000000 (msg_time m))
      in if pad_enabled p then padded 3 p (pad3 millis) dest else pad3 millis dest)"

definition f_format :: "padding_info \<Rightarrow> log_msg \<Rightarrow> string \<Rightarrow> string res" where
  "f_format p m dest =
     (let micros = word_of_int (time_fraction 1000 (msg_time m))
      in if pad_enabled p then padded 6 p (pad6 micros) dest else pad6 micros dest)"

definition F_format :: "padding_info \<Rightarrow> log_msg \<Rightarrow> string \<Rightarrow> string res" where
  "F_format p m dest =
     (let ns = word_of_int (time_fraction 1 (msg_time m))
      in if pad_enabled p then padded 9 p (pad9 ns) dest else pad9 ns dest)"

definition E_format :: "padding_info \<Rightarrow> log_msg \<Rightarrow> string \<Rightarrow> string res" where
  "E_format p m = padded 10 p (append_int (secs_of (msg_time m)))"

definition p_format :: "padding_info \<Rightarrow> log_tm \<Rightarrow> string \<Rightarrow> string res" where
  "p_format p t = padded 2 p (put (ampm t))"

definition r_format :: "padding_info \<Rightarrow> log_tm \<Rightarrow> string \<Rightarrow> string res" where
  "r_format p t =
     padded 11 p
       (in_turn [pad2 (to12h t), put '':'', pad2 (tm_min t), put '':'', pad2 (tm_sec t), put '' '', put (ampm t)])"

definition R_format :: "padding_info \<Rightarrow> log_tm \<Rightarrow> string \<Rightarrow> string res" where
  "R_format p t = padded 5 p (in_turn [pad2 (tm_hour t), put '':'', pad2 (tm_min t)])"

definition T_format :: "padding_info \<Rightarrow> log_tm \<Rightarrow> string \<Rightarrow> string res" where
  "T_format p t = padded 8 p (in_turn [pad2 (tm_hour t), put '':'', pad2 (tm_min t), put '':'', pad2 (tm_sec t)])"

text \<open>\<open>utc_minutes_offset\<close> and the zone as \<open>+-HH:MM\<close>.\<close>

definition utc_minutes_offset :: "log_tm \<Rightarrow> int" where
  "utc_minutes_offset t = tm_gmtoff t sdiv 60"

definition z_format :: "padding_info \<Rightarrow> log_tm \<Rightarrow> string \<Rightarrow> string res" where
  "z_format p t =
     padded 6 p
       (let offset = utc_minutes_offset t;
            total_minutes = (if offset < 0 then - offset else offset)
        in in_turn [put (if offset < 0 then ''-'' else ''+''), pad2 (total_minutes sdiv 60), put '':'', pad2 (total_minutes smod 60)])"

section \<open>The other fields\<close>

definition t_format :: "padding_info \<Rightarrow> log_msg \<Rightarrow> string \<Rightarrow> string res" where
  "t_format p m dest =
     (if pad_enabled p then padded (nat (count_digits64 (msg_thread_id m))) p (append_uint (msg_thread_id m)) dest
      else append_uint (msg_thread_id m) dest)"

definition pid_format :: "32 word \<Rightarrow> padding_info \<Rightarrow> string \<Rightarrow> string res" where
  "pid_format pid p dest =
     (if pad_enabled p then padded (nat (count_digits32 pid)) p (append_uint (ucast pid)) dest
      else append_uint (ucast pid) dest)"

definition i_format :: "padding_info \<Rightarrow> log_msg \<Rightarrow> string \<Rightarrow> string res" where
  "i_format p m = padded 6 p (pad6 (msg_id m))"

definition v_format :: "padding_info \<Rightarrow> log_msg \<Rightarrow> string \<Rightarrow> string res" where
  "v_format p m dest = (if pad_enabled p then padded_text (payload m) p dest else put (payload m) dest)"

definition ch_format :: "char \<Rightarrow> string \<Rightarrow> string res" where
  "ch_format ch = padded 1 no_padding (put [ch])"

definition aggregate_format :: "string \<Rightarrow> string \<Rightarrow> string res" where
  "aggregate_format s = put s"

definition color_start_format :: "log_msg \<Rightarrow> string \<Rightarrow> log_msg" where
  "color_start_format m dest = m\<lparr>color_range_start := length dest\<rparr>"

definition color_stop_format :: "log_msg \<Rightarrow> string \<Rightarrow> log_msg" where
  "color_stop_format m dest = m\<lparr>color_range_end := length dest\<rparr>"

definition put_location :: "source_loc \<Rightarrow> string \<Rightarrow> string res" where
  "put_location l = in_turn [put (loc_filename l), put '':'', append_uint (ucast (loc_line l))]"

definition source_location_format :: "padding_info \<Rightarrow> log_msg \<Rightarrow> string \<Rightarrow> string res" where
  "source_location_format p m dest =
     (let l = msg_source m
      in if source_empty l then Inr dest
         else if pad_enabled p then
           padded (length (loc_filename l) + nat (count_digits32 (loc_line l)) + 1) p (put_location l) dest
         else put_location l dest)"

definition source_filename_format :: "padding_info \<Rightarrow> log_msg \<Rightarrow> string \<Rightarrow> string res" where
  "source_filename_format p m dest =
     (if source_empty (msg_source m) then Inr dest else padded_text (loc_filename (msg_source m)) p dest)"

definition source_linenum_format :: "padding_info \<Rightarrow> log_msg \<Rightarrow> string \<Rightarrow> string res" where
  "source_linenum_format p m dest =
     (let n = loc_line (msg_source m)
      in if source_empty (msg_source m) then Inr dest
         else if pad_enabled p then padded (nat (count_digits32 n)) p (append_uint (ucast n)) dest
         else append_uint (ucast n) dest)"

definition source_funcname_format :: "padding_info \<Rightarrow> log_msg \<Rightarrow> string \<Rightarrow> string res" where
  "source_funcname_format p m dest =
     (if source_empty (msg_source m) then Inr dest else padded_text (loc_funcname (msg_source m)) p dest)"

section \<open>The full formatter\<close>

text \<open>Its date and time are cached for a second: \<open>cache_timestamp_\<close> and \<open>cached_datetime_\<close>.\<close>

record datetime_cache =
  cache_timestamp :: int
  cached_datetime :: string

definition empty_cache :: datetime_cache where
  "empty_cache = \<lparr>cache_timestamp = 0, cached_datetime = []\<rparr>"

definition datetime_text :: "log_tm \<Rightarrow> string res" where
  "datetime_text t =
     in_turn
       [put ''['', append_int (tm_year t + 1900), put ''-'', pad2 (tm_mon t + 1), put ''-'', pad2 (tm_mday t), put '' '',
        pad2 (tm_hour t), put '':'', pad2 (tm_min t), put '':'', pad2 (tm_sec t), put ''.''] []"

definition refresh_cache :: "int \<Rightarrow> log_tm \<Rightarrow> datetime_cache \<Rightarrow> datetime_cache res" where
  "refresh_cache secs t c =
     (if cache_timestamp c \<noteq> secs \<or> cached_datetime c = [] then
        bind_res (datetime_text t) (\<lambda>s. Inr \<lparr>cache_timestamp = secs, cached_datetime = s\<rparr>)
      else Inr c)"

definition full_format :: "datetime_cache \<Rightarrow> log_msg \<Rightarrow> log_tm \<Rightarrow> string \<Rightarrow> (datetime_cache \<times> log_msg \<times> string) res" where
  "full_format c m t dest =
     bind_res (refresh_cache (secs_of (msg_time m)) t c) (\<lambda>c.
     bind_res (pad3 (word_of_int (time_fraction 1000000 (msg_time m))) (dest @ cached_datetime c)) (\<lambda>dest.
       let dest = dest @ ''] '' @ (if msg_logger_name m \<noteq> [] then ''['' @ msg_logger_name m @ ''] '' else []) @ ''['';
           m = m\<lparr>color_range_start := length dest\<rparr>;
           dest = dest @ level_name (msg_level m);
           m = m\<lparr>color_range_end := length dest\<rparr>;
           dest = dest @ ''] ''
       in bind_res
            (if source_empty (msg_source m) then Inr dest
             else in_turn [put ''['', put_location (msg_source m), put ''] ''] dest)
            (\<lambda>dest. Inr (c, m, dest @ payload m))))"

section \<open>Flags\<close>

text \<open>The subclasses of \<open>flag_formatter\<close>.\<close>

datatype flag_formatter =
    full_formatter padding_info datetime_cache
  | name_formatter padding_info
  | level_formatter padding_info
  | short_level_formatter padding_info
  | t_formatter padding_info
  | v_formatter padding_info
  | a_formatter padding_info
  | A_formatter padding_info
  | b_formatter padding_info
  | B_formatter padding_info
  | c_formatter padding_info
  | C_formatter padding_info
  | Y_formatter padding_info
  | D_formatter padding_info
  | m_formatter padding_info
  | d_formatter padding_info
  | H_formatter padding_info
  | I_formatter padding_info
  | M_formatter padding_info
  | S_formatter padding_info
  | e_formatter padding_info
  | f_formatter padding_info
  | F_formatter padding_info
  | E_formatter padding_info
  | p_formatter padding_info
  | r_formatter padding_info
  | R_formatter padding_info
  | T_formatter padding_info
  | z_formatter padding_info
  | pid_formatter padding_info
  | i_formatter padding_info
  | color_start_formatter padding_info
  | color_stop_formatter padding_info
  | source_location_formatter padding_info
  | source_filename_formatter padding_info
  | source_linenum_formatter padding_info
  | source_funcname_formatter padding_info
  | ch_formatter char
  | aggregate_formatter string

text \<open>\<open>handle_flag_\<close> gives the formatter it appends. The message counter is not enabled.\<close>

definition flag_table :: "(char \<times> (padding_info \<Rightarrow> flag_formatter)) list" where
  "flag_table =
     [(CHR ''+'', \<lambda>p. full_formatter p empty_cache), (CHR ''n'', name_formatter), (CHR ''l'', level_formatter),
      (CHR ''L'', short_level_formatter), (CHR ''t'', t_formatter), (CHR ''v'', v_formatter), (CHR ''a'', a_formatter),
      (CHR ''A'', A_formatter), (CHR ''b'', b_formatter), (CHR ''h'', b_formatter), (CHR ''B'', B_formatter),
      (CHR ''c'', c_formatter), (CHR ''C'', C_formatter), (CHR ''Y'', Y_formatter), (CHR ''D'', D_formatter),
      (CHR ''x'', D_formatter), (CHR ''m'', m_formatter), (CHR ''d'', d_formatter), (CHR ''H'', H_formatter),
      (CHR ''I'', I_formatter), (CHR ''M'', M_formatter), (CHR ''S'', S_formatter), (CHR ''e'', e_formatter),
      (CHR ''f'', f_formatter), (CHR ''F'', F_formatter), (CHR ''E'', E_formatter), (CHR ''p'', p_formatter),
      (CHR ''r'', r_formatter), (CHR ''R'', R_formatter), (CHR ''T'', T_formatter), (CHR ''X'', T_formatter),
      (CHR ''z'', z_formatter), (CHR ''P'', pid_formatter), (CHR ''^'', color_start_formatter),
      (CHR ''$'', color_stop_formatter), (CHR ''@'', source_location_formatter), (CHR ''s'', source_filename_formatter),
      (CHR ''#'', source_linenum_formatter), (CHR ''!'', source_funcname_formatter), (CHR ''%'', \<lambda>p. ch_formatter CHR ''%'')]"

definition handle_flag :: "char \<Rightarrow> padding_info \<Rightarrow> flag_formatter" where
  "handle_flag flag p =
     (case map_of flag_table flag of
        Some new \<Rightarrow> new p
      | None \<Rightarrow> aggregate_formatter [CHR ''%'', flag])"

text \<open>The virtual \<open>format\<close>; only the full formatter changes its own state.\<close>

definition only_text :: "flag_formatter \<Rightarrow> log_msg \<Rightarrow> string res \<Rightarrow> (flag_formatter \<times> log_msg \<times> string) res" where
  "only_text f m r = bind_res r (\<lambda>dest. Inr (f, m, dest))"

definition format_flag ::
  "32 word \<Rightarrow> flag_formatter \<Rightarrow> log_msg \<Rightarrow> log_tm \<Rightarrow> string \<Rightarrow> (flag_formatter \<times> log_msg \<times> string) res" where
  "format_flag pid f m t dest =
     (case f of
        full_formatter p c \<Rightarrow> bind_res (full_format c m t dest) (\<lambda>(c, m, dest). Inr (full_formatter p c, m, dest))
      | color_start_formatter p \<Rightarrow> Inr (f, color_start_format m dest, dest)
      | color_stop_formatter p \<Rightarrow> Inr (f, color_stop_format m dest, dest)
      | name_formatter p \<Rightarrow> only_text f m (name_format p m dest)
      | level_formatter p \<Rightarrow> only_text f m (level_format p m dest)
      | short_level_formatter p \<Rightarrow> only_text f m (short_level_format p m dest)
      | t_formatter p \<Rightarrow> only_text f m (t_format p m dest)
      | v_formatter p \<Rightarrow> only_text f m (v_format p m dest)
      | a_formatter p \<Rightarrow> only_text f m (a_format p t dest)
      | A_formatter p \<Rightarrow> only_text f m (A_format p t dest)
      | b_formatter p \<Rightarrow> only_text f m (b_format p t dest)
      | B_formatter p \<Rightarrow> only_text f m (B_format p t dest)
      | c_formatter p \<Rightarrow> only_text f m (c_format p t dest)
      | C_formatter p \<Rightarrow> only_text f m (C_format p t dest)
      | Y_formatter p \<Rightarrow> only_text f m (Y_format p t dest)
      | D_formatter p \<Rightarrow> only_text f m (D_format p t dest)
      | m_formatter p \<Rightarrow> only_text f m (m_format p t dest)
      | d_formatter p \<Rightarrow> only_text f m (d_format p t dest)
      | H_formatter p \<Rightarrow> only_text f m (H_format p t dest)
      | I_formatter p \<Rightarrow> only_text f m (I_format p t dest)
      | M_formatter p \<Rightarrow> only_text f m (M_format p t dest)
      | S_formatter p \<Rightarrow> only_text f m (S_format p t dest)
      | e_formatter p \<Rightarrow> only_text f m (e_format p m dest)
      | f_formatter p \<Rightarrow> only_text f m (f_format p m dest)
      | F_formatter p \<Rightarrow> only_text f m (F_format p m dest)
      | E_formatter p \<Rightarrow> only_text f m (E_format p m dest)
      | p_formatter p \<Rightarrow> only_text f m (p_format p t dest)
      | r_formatter p \<Rightarrow> only_text f m (r_format p t dest)
      | R_formatter p \<Rightarrow> only_text f m (R_format p t dest)
      | T_formatter p \<Rightarrow> only_text f m (T_format p t dest)
      | z_formatter p \<Rightarrow> only_text f m (z_format p t dest)
      | pid_formatter p \<Rightarrow> only_text f m (pid_format pid p dest)
      | i_formatter p \<Rightarrow> only_text f m (i_format p m dest)
      | source_location_formatter p \<Rightarrow> only_text f m (source_location_format p m dest)
      | source_filename_formatter p \<Rightarrow> only_text f m (source_filename_format p m dest)
      | source_linenum_formatter p \<Rightarrow> only_text f m (source_linenum_format p m dest)
      | source_funcname_formatter p \<Rightarrow> only_text f m (source_funcname_format p m dest)
      | ch_formatter c \<Rightarrow> only_text f m (ch_format c dest)
      | aggregate_formatter s \<Rightarrow> only_text f m (aggregate_format s dest))"

section \<open>Patterns\<close>

text \<open>\<open>handle_padspec_\<close>: the width is a \<open>size_t\<close>, cut at 128 after all its digits are read.\<close>

fun padspec_width :: "64 word \<Rightarrow> string \<Rightarrow> 64 word \<times> string" where
  "padspec_width w [] = (w, [])"
| "padspec_width w (c # cs) =
     (if is_digit c then padspec_width (w * 10 + word_of_nat (digit_val c)) cs else (w, c # cs))"

definition handle_padspec :: "string \<Rightarrow> padding_info \<times> string" where
  "handle_padspec s =
     (if s = [] then (no_padding, s)
      else
        (let (sd, s) = (if hd s = CHR ''-'' then (pad_right, tl s) else if hd s = CHR ''='' then (pad_center, tl s) else (pad_left, s))
         in if s = [] \<or> \<not> is_digit (hd s) then (\<lparr>pad_width = 0, side = sd\<rparr>, s)
            else (case padspec_width (word_of_nat (digit_val (hd s))) (tl s) of
                    (width, rest) \<Rightarrow> (\<lparr>pad_width = min (unat width) 128, side = sd\<rparr>, rest))))"

text \<open>\<open>compile_pattern_\<close>: \<open>user_chars\<close> collects the plain characters.\<close>

definition flush_chars :: "string option \<Rightarrow> flag_formatter list" where
  "flush_chars user_chars = (case user_chars of None \<Rightarrow> [] | Some s \<Rightarrow> [aggregate_formatter s])"

lemma length_padspec_width: "length (snd (padspec_width w s)) \<le> length s"
  by (induction w s rule: padspec_width.induct) (auto simp: le_SucI)

lemma length_handle_padspec: "length (snd (handle_padspec s)) \<le> length s"
  using length_padspec_width [of "word_of_nat (digit_val (hd s))" "tl s"]
    length_padspec_width [of "word_of_nat (digit_val (hd (tl s)))" "tl (tl s)"]
  by (cases s) (auto simp: handle_padspec_def split: prod.splits)

function compile_loop :: "string \<Rightarrow> string option \<Rightarrow> flag_formatter list" where
  "compile_loop [] user_chars = flush_chars user_chars"
| "compile_loop (c # cs) user_chars =
     (if c = CHR ''%'' then
        flush_chars user_chars @
        (let (padding, rest) = handle_padspec cs
         in if rest = [] then [] else handle_flag (hd rest) padding # compile_loop (tl rest) None)
      else compile_loop cs (Some ((case user_chars of None \<Rightarrow> [] | Some s \<Rightarrow> s) @ [c])))"
  by pat_completeness auto
termination
proof (relation "measure (\<lambda>(s, u). length s)", simp, goal_cases)
  case (1 c cs u x padding rest)
  then have "length rest \<le> length cs" using length_handle_padspec [of cs] by (cases "handle_padspec cs") auto
  with 1 show ?case by simp
qed simp

definition compile_pattern :: "string \<Rightarrow> flag_formatter list" where
  "compile_pattern pattern = compile_loop pattern None"

section \<open>The pattern formatter\<close>

datatype pattern_time_type = local_time | utc_time

record pattern_formatter =
  pattern :: string
  eol :: string
  time_type :: pattern_time_type
  cached_tm :: log_tm
  last_log_secs :: int
  formatters :: "flag_formatter list"

definition zero_tm :: log_tm where
  "zero_tm = \<lparr>tm_year = 0, tm_mon = 0, tm_mday = 0, tm_hour = 0, tm_min = 0, tm_sec = 0, tm_wday = 0, tm_gmtoff = 0\<rparr>"

definition pattern_formatter_new :: "string \<Rightarrow> pattern_time_type \<Rightarrow> string \<Rightarrow> pattern_formatter" where
  "pattern_formatter_new pat tt end_of_line =
     \<lparr>pattern = pat, eol = end_of_line, time_type = tt, cached_tm = zero_tm, last_log_secs = 0, formatters = compile_pattern pat\<rparr>"

text \<open>The constructor without a pattern.\<close>

definition default_formatter_new :: "pattern_time_type \<Rightarrow> string \<Rightarrow> pattern_formatter" where
  "default_formatter_new tt end_of_line =
     \<lparr>pattern = ''%+'', eol = end_of_line, time_type = tt, cached_tm = zero_tm, last_log_secs = 0,
      formatters = [full_formatter no_padding empty_cache]\<rparr>"

definition clone_formatter :: "pattern_formatter \<Rightarrow> pattern_formatter" where
  "clone_formatter f = pattern_formatter_new (pattern f) (time_type f) (eol f)"

text \<open>What the operating system gives: broken-down times and the process id.\<close>

record log_os =
  os_localtime :: "int \<Rightarrow> log_tm"
  os_gmtime :: "int \<Rightarrow> log_tm"
  os_pid :: "32 word"

definition get_time :: "log_os \<Rightarrow> pattern_formatter \<Rightarrow> log_msg \<Rightarrow> log_tm" where
  "get_time os f m =
     (case time_type f of
        local_time \<Rightarrow> os_localtime os (secs_of (msg_time m))
      | utc_time \<Rightarrow> os_gmtime os (secs_of (msg_time m)))"

fun run_formatters ::
  "32 word \<Rightarrow> flag_formatter list \<Rightarrow> log_msg \<Rightarrow> log_tm \<Rightarrow> string \<Rightarrow> (flag_formatter list \<times> log_msg \<times> string) res" where
  "run_formatters pid [] m t dest = Inr ([], m, dest)"
| "run_formatters pid (f # fs) m t dest =
     bind_res (format_flag pid f m t dest) (\<lambda>(f, m, dest).
     bind_res (run_formatters pid fs m t dest) (\<lambda>(fs, m, dest). Inr (f # fs, m, dest)))"

definition pattern_format ::
  "log_os \<Rightarrow> log_msg \<Rightarrow> string \<Rightarrow> pattern_formatter \<Rightarrow> (pattern_formatter \<times> log_msg \<times> string) res" where
  "pattern_format os m dest f =
     (let secs = secs_of (msg_time m);
          f = (if secs \<noteq> last_log_secs f then f\<lparr>cached_tm := get_time os f m, last_log_secs := secs\<rparr> else f)
      in bind_res (run_formatters (os_pid os) (formatters f) m (cached_tm f) dest) (\<lambda>(fs, m, dest).
           Inr (f\<lparr>formatters := fs\<rparr>, m, dest @ eol f)))"

end
