(* ===== verification/PatternText.thy ===== *)
theory PatternText
  imports PatternFormatter
begin

text \<open>
  What the flag formatters of theory PatternFormatter print: every operation on the buffer appends a
  text that does not depend on what is in the buffer, numbers are printed as \<open>printf\<close> prints them, a
  padded field has the padding on the sides its specification says, the two caches do not change any
  text outside the first second of 1970, and a pattern is compiled to the formatters it names.
\<close>

section \<open>Operations that append a text\<close>

definition writes :: "(string \<Rightarrow> string res) \<Rightarrow> string \<Rightarrow> bool" where
  "writes f s \<longleftrightarrow> (\<forall>dest. f dest = Inr (dest @ s))"

lemma writes_apply: "writes f s \<Longrightarrow> f dest = Inr (dest @ s)"
  by (simp add: writes_def)

lemma writes_put [intro]: "writes (put s) s"
  by (simp add: writes_def put_def)

lemma writes_append_int [intro]:
  assumes "- (2 ^ 63) \<le> n" and "n < 2 ^ 63"
  shows "writes (append_int n) (show_int n)"
proof -
  have "sint (word_of_int n :: 64 word) = n" using assms by (intro sint_word_of_int_small) simp_all
  then show ?thesis by (simp add: writes_def append_int_def format_signed_show local_buffer_def)
qed

lemma writes_append_uint [intro]: "writes (append_uint n) (show_nat (unat n))"
  by (simp add: writes_def append_uint_def format_int_unsigned_show local_buffer_def)

lemma writes_in_turn_Nil: "writes (in_turn []) []"
  by (simp add: writes_def)

lemma writes_in_turn_Cons: "writes f s \<Longrightarrow> writes (in_turn fs) t \<Longrightarrow> writes (in_turn (f # fs)) (s @ t)"
  by (simp add: writes_def)

lemmas writes_in_turn [intro] = writes_in_turn_Nil writes_in_turn_Cons

section \<open>Numbers\<close>

text \<open>\<open>"{:02}"\<close> of a negative number.\<close>

lemma zero_two_parsed:
  "vformat_to env dest ''{:02}'' [int_type v] =
     bind_res (visit_arg env (int_type v) (Some (format_specs_new\<lparr>spec_align := ALIGN_NUMERIC, spec_fill := CHR ''0'', spec_width := 2\<rparr>)))
       (\<lambda>t. Inr (dest @ t))"
proof -
  have specs: "parse_format_specs (int_type v) ''02}'' (format_specs_new, ctx) =
      Inr ((format_specs_new\<lparr>spec_align := ALIGN_NUMERIC, spec_fill := CHR ''0'', spec_width := 2\<rparr>, ctx), ''}'')" for ctx
    by (simp add: parse_format_specs_def parse_align_def alignment_of_def parse_sign_def parse_hash_def parse_zero_def on_zero_def
        require_numeric_def is_arithmetic_def parse_width_def in_digits_def parse_nonnegative_int_def max_int_def parse_type_def
        less_eq_char_def)
  show ?thesis
    by (subst vformat_to_def)
      (simp add: parse_format_string_step [of _ "CHR ''{'' # _"] parse_field_def parse_arg_id_def get_arg_def take_next_arg_id_def
        do_get_arg_def fmt_context_new_def on_format_specs_def specs bind_res_def on_text_def
        parse_format_string.simps [of _ "[]"] split: sum.split)
qed

lemma int32_sint: "- (2 ^ 31) \<le> n \<Longrightarrow> n < 2 ^ 31 \<Longrightarrow> sint (word_of_int n :: 32 word) = n"
  by (simp add: signed_of_int signed_take_bit_int_eq_self)

lemma int32_magnitude:
  assumes "- (2 ^ 31) \<le> n" and "n < 0"
  shows "abs_value (int32_value (word_of_int n)) = nat (- n)" "is_negative (int32_value (word_of_int n))"
proof -
  have s: "sint (word_of_int n :: 32 word) = n" using assms by (intro int32_sint) simp_all
  have "0 - (word_of_int n :: 32 word) = word_of_int (- n)" by simp
  moreover have "uint (word_of_int (- n) :: 32 word) = - n"
    using assms by (simp only: uint_word_of_int take_bit_eq_mod [symmetric]) (simp add: take_bit_int_eq_self)
  ultimately have "unat (0 - (word_of_int n :: 32 word)) = nat (- n)" by (simp only: unat_eq_nat_uint)
  then show "abs_value (int32_value (word_of_int n)) = nat (- n)" "is_negative (int32_value (word_of_int n))"
    using assms(2) by (simp_all only: int32_value_def s int_value.simps if_True)
qed

definition int_range :: "int \<Rightarrow> bool" where
  "int_range n \<longleftrightarrow> - (2 ^ 31) \<le> n \<and> n < 2 ^ 31"

text \<open>\<open>pad2\<close> is \<open>%02d\<close>.\<close>

lemma writes_pad2 [intro]:
  assumes "int_range n"
  shows "writes (pad2 n) (pad_zeros 2 n)"
proof -
  have r: "- (2 ^ 31) \<le> n" "n < 2 ^ 31" using assms by (simp_all add: int_range_def)
  consider "99 < n" | "9 < n" "n \<le> 99" | "0 \<le> n" "n \<le> 9" | "n < 0" by linarith
  then show ?thesis
  proof cases
    case 1
    have "writes (append_int n) (show_int n)" using r by (intro writes_append_int) simp_all
    moreover have "2 \<le> length (show_nat (nat n))"
      using 1 show_nat_nonempty [of "nat n div 10"]
      by (subst show_nat.simps) (cases "show_nat (nat n div 10)", simp_all)
    ultimately show ?thesis using 1 by (simp add: writes_def pad2_def pad_zeros_def Let_def show_int_def)
  next
    case 2
    then have "show_nat (nat n) = [digit (nat n div 10), digit (nat n mod 10)]"
      by (simp add: show_nat.simps [of "nat n"] show_nat.simps [of "nat n div 10"] nat_less_iff)
    with 2 show ?thesis by (simp add: writes_def pad2_def pad_zeros_def Let_def digit_def)
  next
    case 3
    then have "show_nat (nat n) = [digit (nat n)]" by (simp add: show_nat.simps [of "nat n"] nat_less_iff)
    with 3 show ?thesis by (simp add: writes_def pad2_def pad_zeros_def Let_def digit_def)
  next
    case 4
    let ?v = "int32_value (word_of_int n)"
    let ?spec = "format_specs_new\<lparr>spec_align := ALIGN_NUMERIC, spec_fill := CHR ''0'', spec_width := 2\<rparr>"
    note mag = int32_magnitude [OF r(1) 4]
    have "write_int sep ?v ?spec = Inr (write_int_digits (length (show_nat (nat (- n)))) ''-'' ?spec (show_nat (nat (- n))))" for sep
      using mag by (simp add: write_int_def format_specs_new_def Let_def on_dec_text sign_prefix_def)
    moreover have "write_int_digits (length (show_nat (nat (- n)))) ''-'' ?spec (show_nat (nat (- n))) = pad_zeros 2 n"
      using 4 show_nat_nonempty [of "nat (- n)"]
      by (cases "show_nat (nat (- n))")
        (simp_all add: write_int_digits_def write_padded_def pad_zeros_def format_specs_new_def Let_def)
    ultimately show ?thesis
      using 4 by (simp add: writes_def pad2_def zero_two_parsed write_integer_def)
  qed
qed

text \<open>\<open>pad3\<close>, \<open>pad6\<close> and \<open>pad9\<close> are \<open>%03u\<close>, \<open>%06lu\<close> and \<open>%09lu\<close>.\<close>

lemma take_zeroes: "n \<le> 19 \<Longrightarrow> take n ''0000000000000000000'' = replicate n (CHR ''0'')"
proof -
  have "''0000000000000000000'' = replicate 19 (CHR ''0'')" by (simp add: numeral_eq_Suc)
  then show "n \<le> 19 \<Longrightarrow> ?thesis" by (simp add: min_def)
qed

lemma writes_pad_uint:
  assumes "digits = length (show_nat (unat n))" and "width \<le> 19"
  shows "writes (pad_uint digits n width) (pad_zeros width (int (unat n)))"
  using writes_append_uint [of n] assms
  by (simp add: writes_def pad_uint_def pad_zeros_def Let_def take_zeroes)

lemma unat_ucast_32_64: "unat (ucast (n :: 32 word) :: 64 word) = unat n"
  using unat_less_32 [of n] by (simp add: unsigned_ucast_eq take_bit_nat_eq_self)

lemma writes_pads [intro]:
  "writes (pad3 k) (pad_zeros 3 (int (unat k)))"
  "writes (pad6 n) (pad_zeros 6 (int (unat n)))"
  "writes (pad9 n) (pad_zeros 9 (int (unat n)))"
proof -
  have "writes (pad_uint (nat (count_digits32 k)) (ucast k) 3) (pad_zeros 3 (int (unat (ucast k :: 64 word))))"
    by (rule writes_pad_uint) (simp_all only: count_digits32_length nat_int unat_ucast_32_64)
  then show "writes (pad3 k) (pad_zeros 3 (int (unat k)))" by (simp only: pad3_def unat_ucast_32_64)
  show "writes (pad6 n) (pad_zeros 6 (int (unat n)))" unfolding pad6_def
    by (rule writes_pad_uint) (simp_all add: count_digits64_length)
  show "writes (pad9 n) (pad_zeros 9 (int (unat n)))" unfolding pad9_def
    by (rule writes_pad_uint) (simp_all add: count_digits64_length)
qed

section \<open>Padded fields\<close>

text \<open>A text that is taken to have \<open>n\<close> characters, with its padding.\<close>

definition pad_around :: "nat \<Rightarrow> padding_info \<Rightarrow> string \<Rightarrow> string" where
  "pad_around n p s =
     (let k = pad_width p - n
      in case side p of
           pad_left \<Rightarrow> replicate k (CHR '' '') @ s
         | pad_right \<Rightarrow> s @ replicate k (CHR '' '')
         | pad_center \<Rightarrow> replicate (k div 2) (CHR '' '') @ s @ replicate (k - k div 2) (CHR '' ''))"

definition pad_ok :: "padding_info \<Rightarrow> bool" where
  "pad_ok p \<longleftrightarrow> pad_width p \<le> SPACES"

lemma writes_padded [intro]:
  assumes "pad_ok p" and "writes body s"
  shows "writes (padded n p body) (pad_around n p s)"
proof -
  define k where "k = pad_width p - n"
  have halves: "k div 2 + k mod 2 = k - k div 2" by presburger
  have k: "k \<le> SPACES" "k div 2 \<le> SPACES" "k - k div 2 \<le> SPACES" using assms(1) by (simp_all add: pad_ok_def k_def)
  have e: "end_scoped_pad j dest = Inr (dest @ replicate j (CHR '' ''))" if "j \<le> SPACES" for j dest
    using that by (simp add: end_scoped_pad_def pad_it_def)
  have s: "scoped_pad n p dest =
      (case side p of
         pad_left \<Rightarrow> Inr (0, dest @ replicate k (CHR '' ''))
       | pad_center \<Rightarrow> Inr (k - k div 2, dest @ replicate (k div 2) (CHR '' ''))
       | pad_right \<Rightarrow> Inr (k, dest))" for dest
  proof (cases "pad_width p \<le> n")
    case True
    then have "k = 0" by (simp add: k_def)
    with True show ?thesis by (cases "side p") (simp_all add: scoped_pad_def)
  next
    case False
    with k show ?thesis by (cases "side p") (simp_all add: scoped_pad_def pad_it_def halves flip: k_def)
  qed
  show ?thesis
    using k by (cases "side p") (simp_all add: writes_def padded_def s writes_apply [OF assms(2)] e pad_around_def flip: k_def)
qed

lemma pad_around_disabled [simp]: "\<not> pad_enabled p \<Longrightarrow> pad_around n p s = s"
  by (cases "side p") (simp_all add: pad_enabled_def pad_around_def)

lemma length_pad_around: "length (pad_around (length s) p s) = max (pad_width p) (length s)"
  by (cases "side p") (simp_all add: pad_around_def Let_def)

lemma writes_padded_text [intro]: "pad_ok p \<Longrightarrow> writes (padded_text s p) (pad_around (length s) p s)"
  unfolding padded_text_def by (intro writes_padded writes_put)

text \<open>A field that is padded only on request.\<close>

lemma writes_if_enabled:
  assumes "pad_ok p" and "writes body s"
  shows "writes (\<lambda>dest. if pad_enabled p then padded n p body dest else body dest) (pad_around n p s)"
  using writes_padded [OF assms, of n] assms(2) by (cases "pad_enabled p") simp_all

section \<open>What each flag prints\<close>

text \<open>The broken-down time of a call of \<open>localtime\<close> or \<open>gmtime\<close>; the zeroed one is allowed as well.\<close>

definition tm_ok :: "log_tm \<Rightarrow> bool" where
  "tm_ok t \<longleftrightarrow>
     0 \<le> tm_sec t \<and> tm_sec t \<le> 60 \<and> 0 \<le> tm_min t \<and> tm_min t \<le> 59 \<and> 0 \<le> tm_hour t \<and> tm_hour t \<le> 23 \<and>
     0 \<le> tm_mday t \<and> tm_mday t \<le> 31 \<and> 0 \<le> tm_mon t \<and> tm_mon t \<le> 11 \<and> 0 \<le> tm_wday t \<and> tm_wday t \<le> 6 \<and>
     - (2 ^ 30) \<le> tm_year t \<and> tm_year t < 2 ^ 30 \<and> - (2 ^ 31) \<le> tm_gmtoff t \<and> tm_gmtoff t < 2 ^ 31"

definition clock_text :: "log_tm \<Rightarrow> string" where
  "clock_text t = pad_zeros 2 (tm_hour t) @ '':'' @ pad_zeros 2 (tm_min t) @ '':'' @ pad_zeros 2 (tm_sec t)"

definition zone_text :: "log_tm \<Rightarrow> string" where
  "zone_text t =
     (let n = \<bar>tm_gmtoff t sdiv 60\<bar>
      in (if tm_gmtoff t sdiv 60 < 0 then ''-'' else ''+'') @ pad_zeros 2 (n div 60) @ '':'' @ pad_zeros 2 (n mod 60))"

definition location_text :: "source_loc \<Rightarrow> string" where
  "location_text l = loc_filename l @ '':'' @ show_nat (unat (loc_line l))"

definition fraction_text :: "nat \<Rightarrow> int \<Rightarrow> int \<Rightarrow> log_msg \<Rightarrow> string" where
  "fraction_text digits limit unit m = pad_zeros digits (time_fraction unit (msg_time m) mod limit)"

definition full_text :: "log_msg \<Rightarrow> log_tm \<Rightarrow> string" where
  "full_text m t =
     ''['' @ show_int (tm_year t + 1900) @ ''-'' @ pad_zeros 2 (tm_mon t + 1) @ ''-'' @ pad_zeros 2 (tm_mday t) @ '' '' @
     clock_text t @ ''.'' @ fraction_text 3 (2 ^ 32) 1000000 m @ ''] '' @
     (if msg_logger_name m \<noteq> [] then ''['' @ msg_logger_name m @ ''] '' else []) @
     ''['' @ level_name (msg_level m) @ ''] '' @
     (if source_empty (msg_source m) then [] else ''['' @ location_text (msg_source m) @ ''] '') @ payload m"

definition located :: "log_msg \<Rightarrow> string \<Rightarrow> string" where
  "located m s = (if source_empty (msg_source m) then [] else s)"

definition flag_text :: "32 word \<Rightarrow> log_msg \<Rightarrow> log_tm \<Rightarrow> flag_formatter \<Rightarrow> string" where
  "flag_text pid m t f =
     (case f of
        full_formatter p c \<Rightarrow> full_text m t
      | name_formatter p \<Rightarrow> (let s = msg_logger_name m in pad_around (length s) p s)
      | level_formatter p \<Rightarrow> (let s = level_name (msg_level m) in pad_around (length s) p s)
      | short_level_formatter p \<Rightarrow> (let s = short_level_name (msg_level m) in pad_around (length s) p s)
      | t_formatter p \<Rightarrow> (let s = show_nat (unat (msg_thread_id m)) in pad_around (length s) p s)
      | v_formatter p \<Rightarrow> pad_around (length (payload m)) p (payload m)
      | a_formatter p \<Rightarrow> (let s = days ! nat (tm_wday t) in pad_around (length s) p s)
      | A_formatter p \<Rightarrow> (let s = full_days ! nat (tm_wday t) in pad_around (length s) p s)
      | b_formatter p \<Rightarrow> (let s = months ! nat (tm_mon t) in pad_around (length s) p s)
      | B_formatter p \<Rightarrow> (let s = full_months ! nat (tm_mon t) in pad_around (length s) p s)
      | c_formatter p \<Rightarrow>
          pad_around 24 p (days ! nat (tm_wday t) @ '' '' @ months ! nat (tm_mon t) @ '' '' @ show_int (tm_mday t) @ '' '' @
            clock_text t @ '' '' @ show_int (tm_year t + 1900))
      | C_formatter p \<Rightarrow> pad_around 2 p (pad_zeros 2 (tm_year t smod 100))
      | Y_formatter p \<Rightarrow> pad_around 4 p (show_int (tm_year t + 1900))
      | D_formatter p \<Rightarrow>
          pad_around 10 p (pad_zeros 2 (tm_mon t + 1) @ ''/'' @ pad_zeros 2 (tm_mday t) @ ''/'' @ pad_zeros 2 (tm_year t smod 100))
      | m_formatter p \<Rightarrow> pad_around 2 p (pad_zeros 2 (tm_mon t + 1))
      | d_formatter p \<Rightarrow> pad_around 2 p (pad_zeros 2 (tm_mday t))
      | H_formatter p \<Rightarrow> pad_around 2 p (pad_zeros 2 (tm_hour t))
      | I_formatter p \<Rightarrow> pad_around 2 p (pad_zeros 2 (to12h t))
      | M_formatter p \<Rightarrow> pad_around 2 p (pad_zeros 2 (tm_min t))
      | S_formatter p \<Rightarrow> pad_around 2 p (pad_zeros 2 (tm_sec t))
      | e_formatter p \<Rightarrow> pad_around 3 p (fraction_text 3 (2 ^ 32) 1000000 m)
      | f_formatter p \<Rightarrow> pad_around 6 p (fraction_text 6 (2 ^ 64) 1000 m)
      | F_formatter p \<Rightarrow> pad_around 9 p (fraction_text 9 (2 ^ 64) 1 m)
      | E_formatter p \<Rightarrow> pad_around 10 p (show_int (secs_of (msg_time m)))
      | p_formatter p \<Rightarrow> pad_around 2 p (ampm t)
      | r_formatter p \<Rightarrow>
          pad_around 11 p (pad_zeros 2 (to12h t) @ '':'' @ pad_zeros 2 (tm_min t) @ '':'' @ pad_zeros 2 (tm_sec t) @ '' '' @ ampm t)
      | R_formatter p \<Rightarrow> pad_around 5 p (pad_zeros 2 (tm_hour t) @ '':'' @ pad_zeros 2 (tm_min t))
      | T_formatter p \<Rightarrow> pad_around 8 p (clock_text t)
      | z_formatter p \<Rightarrow> pad_around 6 p (zone_text t)
      | pid_formatter p \<Rightarrow> (let s = show_nat (unat pid) in pad_around (length s) p s)
      | i_formatter p \<Rightarrow> pad_around 6 p (pad_zeros 6 (int (unat (msg_id m))))
      | color_start_formatter p \<Rightarrow> []
      | color_stop_formatter p \<Rightarrow> []
      | source_location_formatter p \<Rightarrow> located m (let s = location_text (msg_source m) in pad_around (length s) p s)
      | source_filename_formatter p \<Rightarrow> located m (let s = loc_filename (msg_source m) in pad_around (length s) p s)
      | source_linenum_formatter p \<Rightarrow> located m (let s = show_nat (unat (loc_line (msg_source m))) in pad_around (length s) p s)
      | source_funcname_formatter p \<Rightarrow> located m (let s = loc_funcname (msg_source m) in pad_around (length s) p s)
      | ch_formatter c \<Rightarrow> [c]
      | aggregate_formatter s \<Rightarrow> s)"

section \<open>The flag formatters print these texts\<close>

lemma writes_name_at: "0 \<le> i \<Longrightarrow> i < int (length names) \<Longrightarrow> writes (\<lambda>d. bind_res (name_at names i) (\<lambda>s. put s d)) (names ! nat i)"
  by (simp add: writes_def name_at_def put_def)

lemma writes_padded_name_at:
  "0 \<le> i \<Longrightarrow> i < int (length names) \<Longrightarrow> pad_ok p \<Longrightarrow>
    writes (\<lambda>d. bind_res (name_at names i) (\<lambda>s. padded_text s p d)) (let s = names ! nat i in pad_around (length s) p s)"
  using writes_padded_text [of p "names ! nat i"] by (simp add: writes_def name_at_def Let_def)

lemma length_names: "length days = 7" "length full_days = 7" "length months = 12" "length full_months = 12"
  by (simp_all add: days_def full_days_def months_def full_months_def)

lemma tm_ok_ranges:
  assumes "tm_ok t"
  shows "int_range (tm_mon t + 1)" "int_range (tm_mday t)" "int_range (tm_hour t)" "int_range (tm_min t)" "int_range (tm_sec t)"
    "int_range (tm_year t smod 100)" "int_range (to12h t)"
    "0 \<le> tm_wday t" "tm_wday t < 7" "0 \<le> tm_mon t" "tm_mon t < 12"
    "- (2 ^ 63) \<le> tm_year t + 1900" "tm_year t + 1900 < 2 ^ 63" "- (2 ^ 63) \<le> tm_mday t" "tm_mday t < 2 ^ 63"
proof -
  have "\<bar>tm_year t smod 100\<bar> < 100"
    by (simp add: signed_modulo_int_def abs_mult abs_sgn_eq)
  then show "int_range (tm_year t smod 100)" by (auto simp: int_range_def abs_less_iff)
qed (use assms in \<open>auto simp: tm_ok_def int_range_def to12h_def\<close>)

lemma time_fraction_unat:
  "int (unat (word_of_int k :: 32 word)) = k mod 2 ^ 32" "int (unat (word_of_int k :: 64 word)) = k mod 2 ^ 64"
  by (simp_all add: uint_nat [symmetric] uint_word_of_int)

lemma writes_fraction:
  "writes (pad3 (word_of_int (time_fraction u (msg_time m)))) (fraction_text 3 (2 ^ 32) u m)"
  "writes (pad6 (word_of_int (time_fraction u (msg_time m)))) (fraction_text 6 (2 ^ 64) u m)"
  "writes (pad9 (word_of_int (time_fraction u (msg_time m)))) (fraction_text 9 (2 ^ 64) u m)"
  using writes_pads(1) [of "word_of_int (time_fraction u (msg_time m))"] writes_pads(2) [of "word_of_int (time_fraction u (msg_time m))"]
    writes_pads(3) [of "word_of_int (time_fraction u (msg_time m))"]
  by (simp_all only: fraction_text_def time_fraction_unat)

lemma writes_clock:
  assumes "tm_ok t"
  shows "writes (in_turn [pad2 (tm_hour t), put '':'', pad2 (tm_min t), put '':'', pad2 (tm_sec t)]) (clock_text t)"
proof -
  note r = tm_ok_ranges [OF assms]
  have "writes (in_turn [pad2 (tm_hour t), put '':'', pad2 (tm_min t), put '':'', pad2 (tm_sec t)])
     (pad_zeros 2 (tm_hour t) @ '':'' @ pad_zeros 2 (tm_min t) @ '':'' @ pad_zeros 2 (tm_sec t) @ [])"
    by (intro writes_in_turn writes_put writes_pad2 r)
  then show ?thesis by (simp add: clock_text_def)
qed

lemma writes_location: "writes (put_location l) (location_text l)"
proof -
  have "writes (put_location l) (loc_filename l @ '':'' @ show_nat (unat (ucast (loc_line l) :: 64 word)) @ [])"
    unfolding put_location_def by (intro writes_in_turn writes_put writes_append_uint)
  then show ?thesis by (simp add: location_text_def unat_ucast_32_64)
qed

lemma writes_simple_time:
  assumes "tm_ok t" and "pad_ok p"
  shows "writes (C_format p t) (pad_around 2 p (pad_zeros 2 (tm_year t smod 100)))"
    and "writes (Y_format p t) (pad_around 4 p (show_int (tm_year t + 1900)))"
    and "writes (m_format p t) (pad_around 2 p (pad_zeros 2 (tm_mon t + 1)))"
    and "writes (d_format p t) (pad_around 2 p (pad_zeros 2 (tm_mday t)))"
    and "writes (H_format p t) (pad_around 2 p (pad_zeros 2 (tm_hour t)))"
    and "writes (I_format p t) (pad_around 2 p (pad_zeros 2 (to12h t)))"
    and "writes (M_format p t) (pad_around 2 p (pad_zeros 2 (tm_min t)))"
    and "writes (S_format p t) (pad_around 2 p (pad_zeros 2 (tm_sec t)))"
    and "writes (p_format p t) (pad_around 2 p (ampm t))"
    and "writes (T_format p t) (pad_around 8 p (clock_text t))"
  unfolding C_format_def Y_format_def m_format_def d_format_def H_format_def I_format_def M_format_def S_format_def p_format_def
    T_format_def
  by (intro writes_padded assms(2) writes_pad2 writes_put writes_append_int writes_clock tm_ok_ranges assms(1))+

lemma writes_names:
  assumes "tm_ok t" and "pad_ok p"
  shows "writes (a_format p t) (let s = days ! nat (tm_wday t) in pad_around (length s) p s)"
    and "writes (A_format p t) (let s = full_days ! nat (tm_wday t) in pad_around (length s) p s)"
    and "writes (b_format p t) (let s = months ! nat (tm_mon t) in pad_around (length s) p s)"
    and "writes (B_format p t) (let s = full_months ! nat (tm_mon t) in pad_around (length s) p s)"
  using tm_ok_ranges [OF assms(1)] writes_padded_name_at [OF _ _ assms(2)]
  unfolding a_format_def [abs_def] A_format_def [abs_def] b_format_def [abs_def] B_format_def [abs_def]
  by (simp_all add: length_names)

lemma writes_c:
  assumes "tm_ok t" and "pad_ok p"
  shows "writes (c_format p t)
    (pad_around 24 p (days ! nat (tm_wday t) @ '' '' @ months ! nat (tm_mon t) @ '' '' @ show_int (tm_mday t) @ '' '' @
       clock_text t @ '' '' @ show_int (tm_year t + 1900)))"
proof -
  note r = tm_ok_ranges [OF assms(1)]
  have "writes (c_format p t)
    (pad_around 24 p (days ! nat (tm_wday t) @ '' '' @ months ! nat (tm_mon t) @ '' '' @ show_int (tm_mday t) @ '' '' @
       pad_zeros 2 (tm_hour t) @ '':'' @ pad_zeros 2 (tm_min t) @ '':'' @ pad_zeros 2 (tm_sec t) @ '' '' @ show_int (tm_year t + 1900) @ []))"
    unfolding c_format_def
    by (intro writes_padded assms(2) writes_in_turn writes_put writes_pad2 writes_append_int writes_name_at r) (simp_all add: length_names r)
  then show ?thesis by (simp add: clock_text_def)
qed

lemma writes_D:
  assumes "tm_ok t" and "pad_ok p"
  shows "writes (D_format p t)
    (pad_around 10 p (pad_zeros 2 (tm_mon t + 1) @ ''/'' @ pad_zeros 2 (tm_mday t) @ ''/'' @ pad_zeros 2 (tm_year t smod 100)))"
proof -
  note r = tm_ok_ranges [OF assms(1)]
  have "writes (D_format p t)
    (pad_around 10 p (pad_zeros 2 (tm_mon t + 1) @ ''/'' @ pad_zeros 2 (tm_mday t) @ ''/'' @ pad_zeros 2 (tm_year t smod 100) @ []))"
    unfolding D_format_def by (intro writes_padded assms(2) writes_in_turn writes_put writes_pad2 r)
  then show ?thesis by simp
qed

lemma writes_rR:
  assumes "tm_ok t" and "pad_ok p"
  shows "writes (r_format p t) (pad_around 11 p
      (pad_zeros 2 (to12h t) @ '':'' @ pad_zeros 2 (tm_min t) @ '':'' @ pad_zeros 2 (tm_sec t) @ '' '' @ ampm t))"
    and "writes (R_format p t) (pad_around 5 p (pad_zeros 2 (tm_hour t) @ '':'' @ pad_zeros 2 (tm_min t)))"
proof -
  note r = tm_ok_ranges [OF assms(1)]
  have "writes (r_format p t) (pad_around 11 p
      (pad_zeros 2 (to12h t) @ '':'' @ pad_zeros 2 (tm_min t) @ '':'' @ pad_zeros 2 (tm_sec t) @ '' '' @ ampm t @ []))"
    unfolding r_format_def by (intro writes_padded assms(2) writes_in_turn writes_put writes_pad2 r)
  then show "writes (r_format p t) (pad_around 11 p
      (pad_zeros 2 (to12h t) @ '':'' @ pad_zeros 2 (tm_min t) @ '':'' @ pad_zeros 2 (tm_sec t) @ '' '' @ ampm t))" by simp
  have "writes (R_format p t) (pad_around 5 p (pad_zeros 2 (tm_hour t) @ '':'' @ pad_zeros 2 (tm_min t) @ []))"
    unfolding R_format_def by (intro writes_padded assms(2) writes_in_turn writes_put writes_pad2 r)
  then show "writes (R_format p t) (pad_around 5 p (pad_zeros 2 (tm_hour t) @ '':'' @ pad_zeros 2 (tm_min t)))" by simp
qed

lemma sdiv_smod_60: "0 \<le> n \<Longrightarrow> n sdiv 60 = n div 60 \<and> n smod 60 = n mod 60" for n :: int
  by (simp add: signed_divide_int_def signed_modulo_int_def sgn_if)

lemma int_div_le: "0 \<le> n \<Longrightarrow> 0 < k \<Longrightarrow> n div k \<le> n" for n k :: int
  using zdiv_mono2 [of n 1 k] by simp

lemma abs_sdiv: "0 < k \<Longrightarrow> \<bar>n sdiv k\<bar> = \<bar>n\<bar> div k" for n k :: int
  using pos_imp_zdiv_nonneg_iff [of k "\<bar>n\<bar>"] by (auto simp: signed_divide_int_def abs_mult abs_sgn_eq)

lemma abs_sdiv_le: "0 < k \<Longrightarrow> \<bar>n sdiv k\<bar> \<le> \<bar>n\<bar>" for n k :: int
  by (simp add: abs_sdiv int_div_le)

lemma writes_z:
  assumes "tm_ok t" and "pad_ok p"
  shows "writes (z_format p t) (pad_around 6 p (zone_text t))"
proof -
  let ?o = "tm_gmtoff t sdiv 60"
  have "\<bar>?o\<bar> \<le> \<bar>tm_gmtoff t\<bar>" by (rule abs_sdiv_le) simp
  also have "\<dots> \<le> 2 ^ 31" using assms(1) by (auto simp: tm_ok_def)
  finally have b: "\<bar>?o\<bar> \<le> 2 ^ 31" .
  have r: "int_range (\<bar>?o\<bar> div 60)" "int_range (\<bar>?o\<bar> mod 60)"
  proof -
    have "\<bar>?o\<bar> div 60 \<le> 2 ^ 31 div 60" using b by (intro zdiv_mono1) simp_all
    moreover have "0 \<le> \<bar>?o\<bar> div 60" by simp
    ultimately show "int_range (\<bar>?o\<bar> div 60)" by (simp add: int_range_def)
    have "0 \<le> \<bar>?o\<bar> mod 60" "\<bar>?o\<bar> mod 60 < 60" by simp_all
    then show "int_range (\<bar>?o\<bar> mod 60)" by (auto simp: int_range_def)
  qed
  have "writes (in_turn [put (if ?o < 0 then ''-'' else ''+''), pad2 (\<bar>?o\<bar> div 60), put '':'', pad2 (\<bar>?o\<bar> mod 60)])
     ((if ?o < 0 then ''-'' else ''+'') @ pad_zeros 2 (\<bar>?o\<bar> div 60) @ '':'' @ pad_zeros 2 (\<bar>?o\<bar> mod 60) @ [])"
    by (intro writes_in_turn writes_put writes_pad2 r)
  moreover have "(if ?o < 0 then - ?o else ?o) = \<bar>?o\<bar>" by simp
  ultimately show ?thesis
    using assms(2) sdiv_smod_60 [of "\<bar>?o\<bar>"] unfolding z_format_def utc_minutes_offset_def
    by (intro writes_padded) (simp_all only: Let_def zone_text_def append_Nil2 abs_ge_zero simp_thms)
qed

lemma writes_message_fields:
  assumes "pad_ok p"
  shows "writes (name_format p m) (pad_around (length (msg_logger_name m)) p (msg_logger_name m))"
    and "writes (level_format p m) (pad_around (length (level_name (msg_level m))) p (level_name (msg_level m)))"
    and "writes (short_level_format p m) (pad_around (length (short_level_name (msg_level m))) p (short_level_name (msg_level m)))"
    and "writes (v_format p m) (pad_around (length (payload m)) p (payload m))"
    and "writes (e_format p m) (pad_around 3 p (fraction_text 3 (2 ^ 32) 1000000 m))"
    and "writes (f_format p m) (pad_around 6 p (fraction_text 6 (2 ^ 64) 1000 m))"
    and "writes (F_format p m) (pad_around 9 p (fraction_text 9 (2 ^ 64) 1 m))"
    and "writes (i_format p m) (pad_around 6 p (pad_zeros 6 (int (unat (msg_id m)))))"
    and "writes (t_format p m) (pad_around (length (show_nat (unat (msg_thread_id m)))) p (show_nat (unat (msg_thread_id m))))"
    and "writes (pid_format pid p) (pad_around (length (show_nat (unat pid))) p (show_nat (unat pid)))"
  using writes_if_enabled [OF assms writes_put, of "length (msg_logger_name m)" "msg_logger_name m"]
    writes_if_enabled [OF assms writes_put, of "length (level_name (msg_level m))" "level_name (msg_level m)"]
    writes_padded_text [OF assms, of "short_level_name (msg_level m)"]
    writes_if_enabled [OF assms writes_put, of "length (payload m)" "payload m"]
    writes_if_enabled [OF assms writes_fraction(1), of 3 1000000 m] writes_if_enabled [OF assms writes_fraction(2), of 6 1000 m]
    writes_if_enabled [OF assms writes_fraction(3), of 9 1 m] writes_padded [OF assms writes_pads(2), of 6 "msg_id m"]
    writes_if_enabled [OF assms writes_append_uint, of "length (show_nat (unat (msg_thread_id m)))" "msg_thread_id m"]
    writes_if_enabled [OF assms writes_append_uint, of "length (show_nat (unat pid))" "ucast pid"]
  by (simp_all only: name_format_def [abs_def] level_format_def [abs_def] short_level_format_def [abs_def] v_format_def [abs_def]
      e_format_def [abs_def] f_format_def [abs_def] F_format_def [abs_def] i_format_def t_format_def [abs_def] pid_format_def [abs_def]
      padded_text_def Let_def count_digits64_length count_digits32_length nat_int unat_ucast_32_64)

lemma writes_E: "pad_ok p \<Longrightarrow> writes (E_format p m) (pad_around 10 p (show_int (secs_of (msg_time m))))"
proof -
  have "\<bar>sint (msg_time m)\<bar> \<le> 2 ^ 63" using sint_range_64 [of "msg_time m"] by auto
  then have "\<bar>sint (msg_time m)\<bar> div 1000000000 \<le> 2 ^ 63 div 1000000000" by (intro zdiv_mono1) simp_all
  then have "\<bar>secs_of (msg_time m)\<bar> < 2 ^ 63" by (simp add: secs_of_def abs_sdiv)
  then show "pad_ok p \<Longrightarrow> ?thesis" unfolding E_format_def by (intro writes_padded writes_append_int) auto
qed

lemma writes_source_fields:
  assumes "pad_ok p"
  shows "writes (source_location_format p m) (located m (pad_around (length (location_text (msg_source m))) p (location_text (msg_source m))))"
    and "writes (source_filename_format p m) (located m (pad_around (length (loc_filename (msg_source m))) p (loc_filename (msg_source m))))"
    and "writes (source_linenum_format p m)
      (located m (pad_around (length (show_nat (unat (loc_line (msg_source m))))) p (show_nat (unat (loc_line (msg_source m))))))"
    and "writes (source_funcname_format p m) (located m (pad_around (length (loc_funcname (msg_source m))) p (loc_funcname (msg_source m))))"
proof -
  let ?l = "msg_source m"
  have w: "length (loc_filename ?l) + nat (count_digits32 (loc_line ?l)) + 1 = length (location_text ?l)"
    by (simp add: location_text_def count_digits32_length)
  from writes_if_enabled [OF assms writes_location, of "length (location_text ?l)" ?l]
  show "writes (source_location_format p m) (located m (pad_around (length (location_text ?l)) p (location_text ?l)))"
    by (simp only: writes_def source_location_format_def located_def Let_def w) simp
  from writes_padded_text [OF assms, of "loc_filename ?l"]
  show "writes (source_filename_format p m) (located m (pad_around (length (loc_filename ?l)) p (loc_filename ?l)))"
    by (simp add: writes_def source_filename_format_def located_def)
  from writes_if_enabled [OF assms writes_append_uint, of "length (show_nat (unat (loc_line ?l)))" "ucast (loc_line ?l)"]
  show "writes (source_linenum_format p m)
      (located m (pad_around (length (show_nat (unat (loc_line ?l)))) p (show_nat (unat (loc_line ?l)))))"
    by (simp only: writes_def source_linenum_format_def located_def Let_def count_digits32_length unat_ucast_32_64 nat_int) simp
  from writes_padded_text [OF assms, of "loc_funcname ?l"]
  show "writes (source_funcname_format p m) (located m (pad_around (length (loc_funcname ?l)) p (loc_funcname ?l)))"
    by (simp add: writes_def source_funcname_format_def located_def)
qed

lemma writes_datetime: "tm_ok t \<Longrightarrow> datetime_text t = Inr
    (''['' @ show_int (tm_year t + 1900) @ ''-'' @ pad_zeros 2 (tm_mon t + 1) @ ''-'' @ pad_zeros 2 (tm_mday t) @ '' '' @
     clock_text t @ ''.'')"
proof -
  assume "tm_ok t"
  note r = tm_ok_ranges [OF this]
  have "writes (in_turn
      [put ''['', append_int (tm_year t + 1900), put ''-'', pad2 (tm_mon t + 1), put ''-'', pad2 (tm_mday t), put '' '',
       pad2 (tm_hour t), put '':'', pad2 (tm_min t), put '':'', pad2 (tm_sec t), put ''.''])
    (''['' @ show_int (tm_year t + 1900) @ ''-'' @ pad_zeros 2 (tm_mon t + 1) @ ''-'' @ pad_zeros 2 (tm_mday t) @ '' '' @
     pad_zeros 2 (tm_hour t) @ '':'' @ pad_zeros 2 (tm_min t) @ '':'' @ pad_zeros 2 (tm_sec t) @ ''.'' @ [])"
    by (intro writes_in_turn writes_put writes_pad2 writes_append_int r)
  from writes_apply [OF this, of "[]"] show ?thesis by (simp add: datetime_text_def clock_text_def)
qed

section \<open>The cache of the full formatter\<close>

text \<open>What the cache holds was made from the broken-down time of its second, which is \<open>T secs\<close>.\<close>

definition cache_ok :: "(int \<Rightarrow> log_tm) \<Rightarrow> datetime_cache \<Rightarrow> bool" where
  "cache_ok T c \<longleftrightarrow> cached_datetime c = [] \<or> datetime_text (T (cache_timestamp c)) = Inr (cached_datetime c)"

lemma cache_ok_empty [simp]: "cache_ok T empty_cache"
  by (simp add: cache_ok_def empty_cache_def)

lemma refresh_cache_ok:
  assumes "cache_ok T c"
  shows "refresh_cache secs (T secs) c = bind_res (datetime_text (T secs)) (\<lambda>s. Inr \<lparr>cache_timestamp = secs, cached_datetime = s\<rparr>)"
  using assms by (cases c) (auto simp: refresh_cache_def cache_ok_def)

definition valid_flag :: "(int \<Rightarrow> log_tm) \<Rightarrow> flag_formatter \<Rightarrow> bool" where
  "valid_flag T f \<longleftrightarrow> (case f of full_formatter p c \<Rightarrow> cache_ok T c | _ \<Rightarrow> True)"

text \<open>The formatter as it was made.\<close>

definition reset_flag :: "flag_formatter \<Rightarrow> flag_formatter" where
  "reset_flag f = (case f of full_formatter p c \<Rightarrow> full_formatter p empty_cache | _ \<Rightarrow> f)"

definition flag_padding_ok :: "flag_formatter \<Rightarrow> bool" where
  "flag_padding_ok f \<longleftrightarrow>
     (case f of
        full_formatter p c \<Rightarrow> True | color_start_formatter p \<Rightarrow> True | color_stop_formatter p \<Rightarrow> True
      | ch_formatter c \<Rightarrow> True | aggregate_formatter s \<Rightarrow> True
      | name_formatter p \<Rightarrow> pad_ok p | level_formatter p \<Rightarrow> pad_ok p | short_level_formatter p \<Rightarrow> pad_ok p
      | t_formatter p \<Rightarrow> pad_ok p | v_formatter p \<Rightarrow> pad_ok p | a_formatter p \<Rightarrow> pad_ok p | A_formatter p \<Rightarrow> pad_ok p
      | b_formatter p \<Rightarrow> pad_ok p | B_formatter p \<Rightarrow> pad_ok p | c_formatter p \<Rightarrow> pad_ok p | C_formatter p \<Rightarrow> pad_ok p
      | Y_formatter p \<Rightarrow> pad_ok p | D_formatter p \<Rightarrow> pad_ok p | m_formatter p \<Rightarrow> pad_ok p | d_formatter p \<Rightarrow> pad_ok p
      | H_formatter p \<Rightarrow> pad_ok p | I_formatter p \<Rightarrow> pad_ok p | M_formatter p \<Rightarrow> pad_ok p | S_formatter p \<Rightarrow> pad_ok p
      | e_formatter p \<Rightarrow> pad_ok p | f_formatter p \<Rightarrow> pad_ok p | F_formatter p \<Rightarrow> pad_ok p | E_formatter p \<Rightarrow> pad_ok p
      | p_formatter p \<Rightarrow> pad_ok p | r_formatter p \<Rightarrow> pad_ok p | R_formatter p \<Rightarrow> pad_ok p | T_formatter p \<Rightarrow> pad_ok p
      | z_formatter p \<Rightarrow> pad_ok p | pid_formatter p \<Rightarrow> pad_ok p | i_formatter p \<Rightarrow> pad_ok p
      | source_location_formatter p \<Rightarrow> pad_ok p | source_filename_formatter p \<Rightarrow> pad_ok p
      | source_linenum_formatter p \<Rightarrow> pad_ok p | source_funcname_formatter p \<Rightarrow> pad_ok p)"

definition with_colors :: "log_msg \<Rightarrow> log_msg \<Rightarrow> bool" where
  "with_colors m m' \<longleftrightarrow> (\<exists>i j. m' = m\<lparr>color_range_start := i, color_range_end := j\<rparr>)"

lemma slice_colors:
  fixes m :: log_msg and h s r :: string
  defines "m' \<equiv> m\<lparr>color_range_start := length h, color_range_end := length (h @ s)\<rparr>"
  shows "take (color_range_end m' - color_range_start m') (drop (color_range_start m') (h @ s @ r)) = s"
  unfolding m'_def
  by simp

lemma full_format_text:
  assumes "tm_ok (T (secs_of (msg_time m)))" and "cache_ok T c"
  shows "\<exists>c' m'. full_format c m (T (secs_of (msg_time m))) dest = Inr (c', m', dest @ full_text m (T (secs_of (msg_time m)))) \<and>
    cache_ok T c' \<and> with_colors m m' \<and>
    take (color_range_end m' - color_range_start m') (drop (color_range_start m') (dest @ full_text m (T (secs_of (msg_time m))))) =
      level_name (msg_level m)"
proof -
  let ?t = "T (secs_of (msg_time m))"
  let ?date = "''['' @ show_int (tm_year ?t + 1900) @ ''-'' @ pad_zeros 2 (tm_mon ?t + 1) @ ''-'' @ pad_zeros 2 (tm_mday ?t) @ '' '' @
    clock_text ?t @ ''.''"
  let ?c = "\<lparr>cache_timestamp = secs_of (msg_time m), cached_datetime = ?date\<rparr>"
  let ?head = "dest @ ?date @ fraction_text 3 (2 ^ 32) 1000000 m @ ''] '' @
    (if msg_logger_name m \<noteq> [] then ''['' @ msg_logger_name m @ ''] '' else []) @ ''[''"
  let ?tail = "''] '' @ (if source_empty (msg_source m) then [] else ''['' @ location_text (msg_source m) @ ''] '') @ payload m"
  have c: "refresh_cache (secs_of (msg_time m)) ?t c = Inr ?c"
    by (simp add: refresh_cache_ok [OF assms(2)] writes_datetime [OF assms(1)])
  let ?m = "m\<lparr>color_range_start := length ?head, color_range_end := length (?head @ level_name (msg_level m))\<rparr>"
  have whole: "dest @ full_text m ?t = ?head @ level_name (msg_level m) @ ?tail" by (simp add: full_text_def)
  have "full_format c m ?t dest = Inr (?c, ?m, dest @ full_text m ?t)"
    unfolding full_format_def c bind_res_simps writes_apply [OF writes_fraction(1)] Let_def
    by (simp add: whole put_def writes_apply [OF writes_location])
  moreover have "cache_ok T ?c" by (simp add: cache_ok_def writes_datetime [OF assms(1)])
  moreover have "with_colors m ?m" unfolding with_colors_def by blast
  moreover have "take (color_range_end ?m - color_range_start ?m) (drop (color_range_start ?m) (dest @ full_text m ?t)) = level_name (msg_level m)"
    unfolding whole by (rule slice_colors)
  ultimately show ?thesis by blast
qed

section \<open>Running the formatters\<close>

lemma with_colors_refl [simp]: "with_colors m m"
proof -
  have "m = m\<lparr>color_range_start := color_range_start m, color_range_end := color_range_end m\<rparr>" by simp
  then show ?thesis unfolding with_colors_def by blast
qed

lemma with_colors_trans: "with_colors m m' \<Longrightarrow> with_colors m' m'' \<Longrightarrow> with_colors m m''"
proof -
  assume "with_colors m m'" "with_colors m' m''"
  then obtain i j where "m'' = m\<lparr>color_range_start := i, color_range_end := j\<rparr>" by (auto simp: with_colors_def)
  then show ?thesis unfolding with_colors_def by blast
qed

lemma writes_ch: "writes (ch_format c) [c]"
  using writes_padded [of no_padding "put [c]" "[c]" 1] writes_put
  by (simp add: ch_format_def no_padding_def pad_ok_def pad_around_def)

lemma only_text_writes: "writes g s \<Longrightarrow> only_text f m (g dest) = Inr (f, m, dest @ s)"
  by (simp add: only_text_def writes_def)

lemma format_flag_simps:
  "format_flag pid (name_formatter p) m t dest = only_text (name_formatter p) m (name_format p m dest)"
  "format_flag pid (level_formatter p) m t dest = only_text (level_formatter p) m (level_format p m dest)"
  "format_flag pid (short_level_formatter p) m t dest = only_text (short_level_formatter p) m (short_level_format p m dest)"
  "format_flag pid (t_formatter p) m t dest = only_text (t_formatter p) m (t_format p m dest)"
  "format_flag pid (v_formatter p) m t dest = only_text (v_formatter p) m (v_format p m dest)"
  "format_flag pid (a_formatter p) m t dest = only_text (a_formatter p) m (a_format p t dest)"
  "format_flag pid (A_formatter p) m t dest = only_text (A_formatter p) m (A_format p t dest)"
  "format_flag pid (b_formatter p) m t dest = only_text (b_formatter p) m (b_format p t dest)"
  "format_flag pid (B_formatter p) m t dest = only_text (B_formatter p) m (B_format p t dest)"
  "format_flag pid (c_formatter p) m t dest = only_text (c_formatter p) m (c_format p t dest)"
  "format_flag pid (C_formatter p) m t dest = only_text (C_formatter p) m (C_format p t dest)"
  "format_flag pid (Y_formatter p) m t dest = only_text (Y_formatter p) m (Y_format p t dest)"
  "format_flag pid (D_formatter p) m t dest = only_text (D_formatter p) m (D_format p t dest)"
  "format_flag pid (m_formatter p) m t dest = only_text (m_formatter p) m (m_format p t dest)"
  "format_flag pid (d_formatter p) m t dest = only_text (d_formatter p) m (d_format p t dest)"
  "format_flag pid (H_formatter p) m t dest = only_text (H_formatter p) m (H_format p t dest)"
  "format_flag pid (I_formatter p) m t dest = only_text (I_formatter p) m (I_format p t dest)"
  "format_flag pid (M_formatter p) m t dest = only_text (M_formatter p) m (M_format p t dest)"
  "format_flag pid (S_formatter p) m t dest = only_text (S_formatter p) m (S_format p t dest)"
  "format_flag pid (e_formatter p) m t dest = only_text (e_formatter p) m (e_format p m dest)"
  "format_flag pid (f_formatter p) m t dest = only_text (f_formatter p) m (f_format p m dest)"
  "format_flag pid (F_formatter p) m t dest = only_text (F_formatter p) m (F_format p m dest)"
  "format_flag pid (E_formatter p) m t dest = only_text (E_formatter p) m (E_format p m dest)"
  "format_flag pid (p_formatter p) m t dest = only_text (p_formatter p) m (p_format p t dest)"
  "format_flag pid (r_formatter p) m t dest = only_text (r_formatter p) m (r_format p t dest)"
  "format_flag pid (R_formatter p) m t dest = only_text (R_formatter p) m (R_format p t dest)"
  "format_flag pid (T_formatter p) m t dest = only_text (T_formatter p) m (T_format p t dest)"
  "format_flag pid (z_formatter p) m t dest = only_text (z_formatter p) m (z_format p t dest)"
  "format_flag pid (pid_formatter p) m t dest = only_text (pid_formatter p) m (pid_format pid p dest)"
  "format_flag pid (i_formatter p) m t dest = only_text (i_formatter p) m (i_format p m dest)"
  "format_flag pid (source_location_formatter p) m t dest = only_text (source_location_formatter p) m (source_location_format p m dest)"
  "format_flag pid (source_filename_formatter p) m t dest = only_text (source_filename_formatter p) m (source_filename_format p m dest)"
  "format_flag pid (source_linenum_formatter p) m t dest = only_text (source_linenum_formatter p) m (source_linenum_format p m dest)"
  "format_flag pid (source_funcname_formatter p) m t dest = only_text (source_funcname_formatter p) m (source_funcname_format p m dest)"
  "format_flag pid (ch_formatter c) m t dest = only_text (ch_formatter c) m (ch_format c dest)"
  "format_flag pid (aggregate_formatter s) m t dest = only_text (aggregate_formatter s) m (aggregate_format s dest)"
  by (simp_all add: format_flag_def)

lemma flag_text_simps:
  "flag_text pid m t (full_formatter p c) = full_text m t"
  "flag_text pid m t (name_formatter p) = (let s = msg_logger_name m in pad_around (length s) p s)"
  "flag_text pid m t (level_formatter p) = (let s = level_name (msg_level m) in pad_around (length s) p s)"
  "flag_text pid m t (short_level_formatter p) = (let s = short_level_name (msg_level m) in pad_around (length s) p s)"
  "flag_text pid m t (t_formatter p) = (let s = show_nat (unat (msg_thread_id m)) in pad_around (length s) p s)"
  "flag_text pid m t (v_formatter p) = pad_around (length (payload m)) p (payload m)"
  "flag_text pid m t (a_formatter p) = (let s = days ! nat (tm_wday t) in pad_around (length s) p s)"
  "flag_text pid m t (A_formatter p) = (let s = full_days ! nat (tm_wday t) in pad_around (length s) p s)"
  "flag_text pid m t (b_formatter p) = (let s = months ! nat (tm_mon t) in pad_around (length s) p s)"
  "flag_text pid m t (B_formatter p) = (let s = full_months ! nat (tm_mon t) in pad_around (length s) p s)"
  "flag_text pid m t (c_formatter p) = pad_around 24 p (days ! nat (tm_wday t) @ '' '' @ months ! nat (tm_mon t) @ '' '' @ show_int (tm_mday t) @ '' '' @ clock_text t @ '' '' @ show_int (tm_year t + 1900))"
  "flag_text pid m t (C_formatter p) = pad_around 2 p (pad_zeros 2 (tm_year t smod 100))"
  "flag_text pid m t (Y_formatter p) = pad_around 4 p (show_int (tm_year t + 1900))"
  "flag_text pid m t (D_formatter p) = pad_around 10 p (pad_zeros 2 (tm_mon t + 1) @ ''/'' @ pad_zeros 2 (tm_mday t) @ ''/'' @ pad_zeros 2 (tm_year t smod 100))"
  "flag_text pid m t (m_formatter p) = pad_around 2 p (pad_zeros 2 (tm_mon t + 1))"
  "flag_text pid m t (d_formatter p) = pad_around 2 p (pad_zeros 2 (tm_mday t))"
  "flag_text pid m t (H_formatter p) = pad_around 2 p (pad_zeros 2 (tm_hour t))"
  "flag_text pid m t (I_formatter p) = pad_around 2 p (pad_zeros 2 (to12h t))"
  "flag_text pid m t (M_formatter p) = pad_around 2 p (pad_zeros 2 (tm_min t))"
  "flag_text pid m t (S_formatter p) = pad_around 2 p (pad_zeros 2 (tm_sec t))"
  "flag_text pid m t (e_formatter p) = pad_around 3 p (fraction_text 3 (2 ^ 32) 1000000 m)"
  "flag_text pid m t (f_formatter p) = pad_around 6 p (fraction_text 6 (2 ^ 64) 1000 m)"
  "flag_text pid m t (F_formatter p) = pad_around 9 p (fraction_text 9 (2 ^ 64) 1 m)"
  "flag_text pid m t (E_formatter p) = pad_around 10 p (show_int (secs_of (msg_time m)))"
  "flag_text pid m t (p_formatter p) = pad_around 2 p (ampm t)"
  "flag_text pid m t (r_formatter p) = pad_around 11 p (pad_zeros 2 (to12h t) @ '':'' @ pad_zeros 2 (tm_min t) @ '':'' @ pad_zeros 2 (tm_sec t) @ '' '' @ ampm t)"
  "flag_text pid m t (R_formatter p) = pad_around 5 p (pad_zeros 2 (tm_hour t) @ '':'' @ pad_zeros 2 (tm_min t))"
  "flag_text pid m t (T_formatter p) = pad_around 8 p (clock_text t)"
  "flag_text pid m t (z_formatter p) = pad_around 6 p (zone_text t)"
  "flag_text pid m t (pid_formatter p) = (let s = show_nat (unat pid) in pad_around (length s) p s)"
  "flag_text pid m t (i_formatter p) = pad_around 6 p (pad_zeros 6 (int (unat (msg_id m))))"
  "flag_text pid m t (color_start_formatter p) = []"
  "flag_text pid m t (color_stop_formatter p) = []"
  "flag_text pid m t (source_location_formatter p) = located m (let s = location_text (msg_source m) in pad_around (length s) p s)"
  "flag_text pid m t (source_filename_formatter p) = located m (let s = loc_filename (msg_source m) in pad_around (length s) p s)"
  "flag_text pid m t (source_linenum_formatter p) = located m (let s = show_nat (unat (loc_line (msg_source m))) in pad_around (length s) p s)"
  "flag_text pid m t (source_funcname_formatter p) = located m (let s = loc_funcname (msg_source m) in pad_around (length s) p s)"
  "flag_text pid m t (ch_formatter ch) = [ch]"
  "flag_text pid m t (aggregate_formatter s) = s"
  by (simp_all add: flag_text_def)

lemma with_colors_fields:
  assumes "with_colors m m'"
  shows "msg_time m' = msg_time m" "msg_logger_name m' = msg_logger_name m" "msg_level m' = msg_level m"
    "msg_thread_id m' = msg_thread_id m" "msg_id m' = msg_id m" "msg_source m' = msg_source m" "payload m' = payload m"
  using assms by (auto simp: with_colors_def)

lemma with_colors_text: "with_colors m m' \<Longrightarrow> flag_text pid m' t f = flag_text pid m t f"
  by (cases f) (simp_all only: flag_text_simps with_colors_fields full_text_def fraction_text_def located_def)

lemma flag_padding_simps:
  "flag_padding_ok (name_formatter p) = pad_ok p"
  "flag_padding_ok (level_formatter p) = pad_ok p"
  "flag_padding_ok (short_level_formatter p) = pad_ok p"
  "flag_padding_ok (t_formatter p) = pad_ok p"
  "flag_padding_ok (v_formatter p) = pad_ok p"
  "flag_padding_ok (a_formatter p) = pad_ok p"
  "flag_padding_ok (A_formatter p) = pad_ok p"
  "flag_padding_ok (b_formatter p) = pad_ok p"
  "flag_padding_ok (B_formatter p) = pad_ok p"
  "flag_padding_ok (c_formatter p) = pad_ok p"
  "flag_padding_ok (C_formatter p) = pad_ok p"
  "flag_padding_ok (Y_formatter p) = pad_ok p"
  "flag_padding_ok (D_formatter p) = pad_ok p"
  "flag_padding_ok (m_formatter p) = pad_ok p"
  "flag_padding_ok (d_formatter p) = pad_ok p"
  "flag_padding_ok (H_formatter p) = pad_ok p"
  "flag_padding_ok (I_formatter p) = pad_ok p"
  "flag_padding_ok (M_formatter p) = pad_ok p"
  "flag_padding_ok (S_formatter p) = pad_ok p"
  "flag_padding_ok (e_formatter p) = pad_ok p"
  "flag_padding_ok (f_formatter p) = pad_ok p"
  "flag_padding_ok (F_formatter p) = pad_ok p"
  "flag_padding_ok (E_formatter p) = pad_ok p"
  "flag_padding_ok (p_formatter p) = pad_ok p"
  "flag_padding_ok (r_formatter p) = pad_ok p"
  "flag_padding_ok (R_formatter p) = pad_ok p"
  "flag_padding_ok (T_formatter p) = pad_ok p"
  "flag_padding_ok (z_formatter p) = pad_ok p"
  "flag_padding_ok (pid_formatter p) = pad_ok p"
  "flag_padding_ok (i_formatter p) = pad_ok p"
  "flag_padding_ok (source_location_formatter p) = pad_ok p"
  "flag_padding_ok (source_filename_formatter p) = pad_ok p"
  "flag_padding_ok (source_linenum_formatter p) = pad_ok p"
  "flag_padding_ok (source_funcname_formatter p) = pad_ok p"
  by (simp_all add: flag_padding_ok_def)

lemma format_flag_text:
  assumes "tm_ok (T (secs_of (msg_time m)))" and "valid_flag T f" and "flag_padding_ok f"
  shows "\<exists>f' m'. format_flag pid f m (T (secs_of (msg_time m))) dest =
      Inr (f', m', dest @ flag_text pid m (T (secs_of (msg_time m))) f) \<and>
    valid_flag T f' \<and> flag_padding_ok f' \<and> reset_flag f' = reset_flag f \<and> with_colors m m'"
proof (cases "(\<exists>p c. f = full_formatter p c) \<or> (\<exists>p. f = color_start_formatter p) \<or> (\<exists>p. f = color_stop_formatter p)")
  case True
  then consider p c where "f = full_formatter p c" | p where "f = color_start_formatter p" | p where "f = color_stop_formatter p" by blast
  then show ?thesis
  proof cases
    case (1 p c)
    with full_format_text [of T m c dest] assms show ?thesis
      by (auto simp: format_flag_def valid_flag_def flag_text_def flag_padding_ok_def reset_flag_def)
  next
    case 2
    have "with_colors m (m\<lparr>color_range_start := length dest\<rparr>)"
      unfolding with_colors_def by (intro exI [of _ "length dest"] exI [of _ "color_range_end m"]) simp
    with 2 show ?thesis
      by (simp add: format_flag_def color_start_format_def valid_flag_def flag_text_def flag_padding_ok_def)
  next
    case 3
    have "with_colors m (m\<lparr>color_range_end := length dest\<rparr>)"
      unfolding with_colors_def by (intro exI [of _ "color_range_start m"] exI [of _ "length dest"]) simp
    with 3 show ?thesis
      by (simp add: format_flag_def color_stop_format_def valid_flag_def flag_text_def flag_padding_ok_def)
  qed
next
  case False
  let ?t = "T (secs_of (msg_time m))"
  note time = writes_simple_time [OF assms(1)] writes_names [OF assms(1)] writes_c [OF assms(1)] writes_D [OF assms(1)]
    writes_rR [OF assms(1)] writes_z [OF assms(1)]
  have "format_flag pid f m ?t dest = Inr (f, m, dest @ flag_text pid m ?t f)"
    using False assms(3)
    by (cases f; simp only: format_flag_simps flag_text_simps flag_padding_simps Let_def aggregate_format_def)
      (blast | intro only_text_writes writes_put writes_ch writes_message_fields writes_E writes_source_fields time [unfolded Let_def];
        assumption)+
  with False assms show ?thesis by auto
qed

lemma run_formatters_text:
  assumes "tm_ok (T (secs_of (msg_time m)))" and "\<forall>f \<in> set fs. valid_flag T f \<and> flag_padding_ok f"
  shows "\<exists>fs' m'. run_formatters pid fs m (T (secs_of (msg_time m))) dest =
      Inr (fs', m', dest @ concat (map (flag_text pid m (T (secs_of (msg_time m)))) fs)) \<and>
    (\<forall>f \<in> set fs'. valid_flag T f \<and> flag_padding_ok f) \<and> map reset_flag fs' = map reset_flag fs \<and> with_colors m m'"
  using assms
proof (induction fs arbitrary: m dest)
  case (Cons f fs)
  let ?t = "T (secs_of (msg_time m))"
  obtain f' m1 where f: "format_flag pid f m ?t dest = Inr (f', m1, dest @ flag_text pid m ?t f)"
    "valid_flag T f'" "flag_padding_ok f'" "reset_flag f' = reset_flag f" "with_colors m m1"
    using format_flag_text [of T m f pid dest] Cons.prems by auto
  have m1: "msg_time m1 = msg_time m" using f(5) by (rule with_colors_fields)
  have "tm_ok (T (secs_of (msg_time m1)))" "\<forall>f \<in> set fs. valid_flag T f \<and> flag_padding_ok f" using Cons.prems by (simp_all add: m1)
  from Cons.IH [OF this, of "dest @ flag_text pid m ?t f"] obtain fs' m' where
    fs: "run_formatters pid fs m1 ?t (dest @ flag_text pid m ?t f) =
      Inr (fs', m', (dest @ flag_text pid m ?t f) @ concat (map (flag_text pid m1 ?t) fs))"
    "\<forall>f \<in> set fs'. valid_flag T f \<and> flag_padding_ok f" "map reset_flag fs' = map reset_flag fs" "with_colors m1 m'"
    unfolding m1 by blast
  have "flag_text pid m1 ?t = flag_text pid m ?t" by (rule ext) (rule with_colors_text [OF f(5)])
  with f fs show ?case by (auto intro: with_colors_trans)
qed simp

section \<open>Compiled patterns\<close>

lemma handle_padspec_ok: "pad_ok (fst (handle_padspec s))"
  by (auto simp: handle_padspec_def pad_ok_def SPACES_def no_padding_def split: prod.splits)

lemma handle_flag_ok:
  assumes "pad_ok p"
  shows "flag_padding_ok (handle_flag c p) \<and> valid_flag T (handle_flag c p) \<and> reset_flag (handle_flag c p) = handle_flag c p"
proof (cases "map_of flag_table c")
  case None
  then show ?thesis by (simp add: handle_flag_def flag_padding_ok_def valid_flag_def reset_flag_def)
next
  case (Some new)
  have "\<forall>(c, new) \<in> set flag_table. flag_padding_ok (new p) \<and> valid_flag T (new p) \<and> reset_flag (new p) = new p"
    using assms by (simp add: flag_table_def flag_padding_ok_def valid_flag_def reset_flag_def)
  with Some show ?thesis by (auto simp: handle_flag_def dest: map_of_SomeD)
qed

lemma compile_loop_ok:
  "\<forall>f \<in> set (compile_loop s u). flag_padding_ok f \<and> valid_flag T f \<and> reset_flag f = f"
proof (induction s u rule: compile_loop.induct)
  case (1 u)
  show ?case by (cases u) (simp_all add: flush_chars_def flag_padding_ok_def valid_flag_def reset_flag_def)
next
  case (2 c cs u)
  obtain p rest where h: "handle_padspec cs = (p, rest)" by (cases "handle_padspec cs")
  have "pad_ok p" using handle_padspec_ok [of cs] h by simp
  moreover have "\<forall>f \<in> set (flush_chars u). flag_padding_ok f \<and> valid_flag T f \<and> reset_flag f = f"
    by (cases u) (simp_all add: flush_chars_def flag_padding_ok_def valid_flag_def reset_flag_def)
  ultimately show ?case using 2 h handle_flag_ok [of p _ T] by auto
qed

lemma compile_pattern_ok: "\<forall>f \<in> set (compile_pattern s). flag_padding_ok f \<and> valid_flag T f \<and> reset_flag f = f"
  unfolding compile_pattern_def by (rule compile_loop_ok)

section \<open>The formatter\<close>

text \<open>The times a formatter asks for, and the texts it should print.\<close>

definition time_source :: "log_os \<Rightarrow> pattern_time_type \<Rightarrow> int \<Rightarrow> log_tm" where
  "time_source os tt = (case tt of local_time \<Rightarrow> os_localtime os | utc_time \<Rightarrow> os_gmtime os)"

definition pattern_text :: "log_os \<Rightarrow> string \<Rightarrow> pattern_time_type \<Rightarrow> string \<Rightarrow> log_msg \<Rightarrow> string" where
  "pattern_text os pat tt end_of_line m =
     concat (map (flag_text (os_pid os) m (time_source os tt (secs_of (msg_time m)))) (compile_pattern pat)) @ end_of_line"

text \<open>A formatter in use: its caches hold what they should.\<close>

definition in_use :: "log_os \<Rightarrow> string \<Rightarrow> pattern_time_type \<Rightarrow> string \<Rightarrow> pattern_formatter \<Rightarrow> bool" where
  "in_use os pat tt end_of_line f \<longleftrightarrow>
     time_type f = tt \<and> eol f = end_of_line \<and> map reset_flag (formatters f) = compile_pattern pat \<and>
     (\<forall>g \<in> set (formatters f). valid_flag (time_source os tt) g \<and> flag_padding_ok g) \<and>
     (last_log_secs f \<noteq> 0 \<longrightarrow> cached_tm f = time_source os tt (last_log_secs f))"

lemma new_formatter_in_use: "in_use os pat tt end_of_line (pattern_formatter_new pat tt end_of_line)"
  using compile_pattern_ok [of pat "time_source os tt"]
  by (auto simp: in_use_def pattern_formatter_new_def intro!: map_idI)

lemma flag_text_reset: "flag_text pid m t (reset_flag f) = flag_text pid m t f"
  by (cases f) (simp_all add: reset_flag_def flag_text_simps)

lemma map_flag_text:
  assumes "map reset_flag fs = gs"
  shows "map (flag_text pid m t) fs = map (flag_text pid m t) gs"
  unfolding assms [symmetric] by (simp add: flag_text_reset)

lemma pattern_format_in_use:
  assumes "in_use os pat tt end_of_line f" and "secs_of (msg_time m) \<noteq> 0"
    and "tm_ok (time_source os tt (secs_of (msg_time m)))"
  shows "\<exists>f' m'. pattern_format os m dest f = Inr (f', m', dest @ pattern_text os pat tt end_of_line m) \<and>
    in_use os pat tt end_of_line f' \<and> with_colors m m'"
proof -
  let ?T = "time_source os tt"
  let ?secs = "secs_of (msg_time m)"
  define g where "g = (if ?secs \<noteq> last_log_secs f then f\<lparr>cached_tm := get_time os f m, last_log_secs := ?secs\<rparr> else f)"
  have g: "cached_tm g = ?T ?secs" "last_log_secs g = ?secs" "formatters g = formatters f" "eol g = end_of_line" "time_type g = tt"
    using assms(1,2)
    by (auto simp: g_def in_use_def get_time_def time_source_def split: pattern_time_type.splits)
  obtain fs' m' where r: "run_formatters (os_pid os) (formatters f) m (?T ?secs) dest =
      Inr (fs', m', dest @ concat (map (flag_text (os_pid os) m (?T ?secs)) (formatters f)))"
    "\<forall>f \<in> set fs'. valid_flag ?T f \<and> flag_padding_ok f" "map reset_flag fs' = map reset_flag (formatters f)" "with_colors m m'"
    using run_formatters_text [of ?T m "formatters f" "os_pid os" dest] assms(1,3) by (auto simp: in_use_def)
  have "map reset_flag (formatters f) = compile_pattern pat" using assms(1) by (simp add: in_use_def)
  note texts = map_flag_text [OF this, of "os_pid os" m "?T ?secs"]
  have "pattern_format os m dest f = Inr (g\<lparr>formatters := fs'\<rparr>, m', dest @ pattern_text os pat tt end_of_line m)"
    by (simp add: pattern_format_def Let_def g r(1) texts pattern_text_def flip: g_def)
  moreover have "in_use os pat tt end_of_line (g\<lparr>formatters := fs'\<rparr>)"
    using r(2,3) assms(1) g by (simp add: in_use_def)
  ultimately show ?thesis using r(4) by blast
qed

text \<open>One message after the other, each into an empty buffer.\<close>

fun format_each :: "log_os \<Rightarrow> log_msg list \<Rightarrow> pattern_formatter \<Rightarrow> string list res" where
  "format_each os [] f = Inr []"
| "format_each os (m # ms) f =
     bind_res (pattern_format os m [] f) (\<lambda>(f, m, s). bind_res (format_each os ms f) (\<lambda>ss. Inr (s # ss)))"

lemma format_each_in_use:
  assumes "in_use os pat tt end_of_line f"
    and "\<forall>m \<in> set ms. secs_of (msg_time m) \<noteq> 0 \<and> tm_ok (time_source os tt (secs_of (msg_time m)))"
  shows "format_each os ms f = Inr (map (pattern_text os pat tt end_of_line) ms)"
  using assms
proof (induction ms arbitrary: f)
  case (Cons m ms)
  from pattern_format_in_use [OF Cons.prems(1), of m "[]"] Cons.prems(2) obtain f' m' where
    "pattern_format os m [] f = Inr (f', m', pattern_text os pat tt end_of_line m)" "in_use os pat tt end_of_line f'" by auto
  with Cons.IH [of f'] Cons.prems(2) show ?case by simp
qed simp

section \<open>Patterns as text\<close>

text \<open>What a pattern is written from: plain characters, and flags with a side and a width (0 for none).\<close>

datatype pattern_item = Chars string | Flag pad_side nat char

definition side_text :: "pad_side \<Rightarrow> string" where
  "side_text sd = (case sd of pad_left \<Rightarrow> [] | pad_right \<Rightarrow> ''-'' | pad_center \<Rightarrow> ''='')"

definition width_text :: "nat \<Rightarrow> string" where
  "width_text w = (if w = 0 then [] else show_nat w)"

fun item_text :: "pattern_item \<Rightarrow> string" where
  "item_text (Chars s) = s"
| "item_text (Flag sd w c) = ''%'' @ side_text sd @ width_text w @ [c]"

fun item_formatter :: "pattern_item \<Rightarrow> flag_formatter" where
  "item_formatter (Chars s) = aggregate_formatter s"
| "item_formatter (Flag sd w c) = handle_flag c \<lparr>pad_width = min w 128, side = sd\<rparr>"

text \<open>Runs of plain characters are not split, and a flag is not taken for a side or a width.\<close>

fun items_ok :: "pattern_item list \<Rightarrow> bool" where
  "items_ok [] = True"
| "items_ok (Chars s # items) =
     (s \<noteq> [] \<and> CHR ''%'' \<notin> set s \<and> items_ok items \<and> (case items of Chars _ # _ \<Rightarrow> False | _ \<Rightarrow> True))"
| "items_ok (Flag sd w c # items) =
     (w < 2 ^ 64 \<and> \<not> is_digit c \<and> (sd = pad_left \<and> w = 0 \<longrightarrow> c \<noteq> CHR ''-'' \<and> c \<noteq> CHR ''='') \<and> items_ok items)"

lemma padspec_width_digits:
  "\<forall>c \<in> set ds. is_digit c \<Longrightarrow> rest = [] \<or> \<not> is_digit (hd rest) \<Longrightarrow>
    padspec_width (word_of_nat a) (ds @ rest) = (word_of_nat (digits_value a ds), rest)"
proof (induction ds arbitrary: a)
  case Nil
  then show ?case by (cases rest) auto
next
  case (Cons d ds)
  have "(word_of_nat a * 10 + word_of_nat (digit_val d) :: 64 word) = word_of_nat (10 * a + digit_val d)"
    by (simp add: mult.commute)
  with Cons.prems Cons.IH [of "10 * a + digit_val d"] show ?case by (simp del: of_nat_add of_nat_mult)
qed

lemma handle_padspec_width:
  assumes "w \<noteq> 0" and "w < 2 ^ 64" and "\<not> is_digit c"
  shows "handle_padspec (side_text sd @ show_nat w @ c # rest) = (\<lparr>pad_width = min w 128, side = sd\<rparr>, c # rest)"
proof -
  obtain d ds where s: "show_nat w = d # ds" by (meson neq_Nil_conv show_nat_nonempty)
  have d: "is_digit d" "\<forall>c \<in> set ds. is_digit c" using show_nat_digits [of _ w] by (auto simp: s)
  have not_side: "d \<noteq> CHR ''-''" "d \<noteq> CHR ''=''" using d(1) by (auto simp: is_digit_def)
  have "digits_value (digit_val d) ds = w"
    using nat_of_digits_show_nat [of w] by (simp add: s nat_of_digits_def digits_value_def)
  with padspec_width_digits [OF d(2), of "c # rest" "digit_val d"] assms(3)
  have p: "padspec_width (word_of_nat (digit_val d)) (ds @ c # rest) = (word_of_nat w, c # rest)" by simp
  have u: "unat (word_of_nat w :: 64 word) = w" using assms(2) by (intro unat_word_of_nat_small) simp
  show ?thesis
    using d(1) not_side by (cases sd) (simp_all add: side_text_def s handle_padspec_def p u)
qed

lemma handle_padspec_no_width:
  assumes "\<not> is_digit c" and "sd = pad_left \<longrightarrow> c \<noteq> CHR ''-'' \<and> c \<noteq> CHR ''=''"
  shows "handle_padspec (side_text sd @ c # rest) = (\<lparr>pad_width = 0, side = sd\<rparr>, c # rest)"
  using assms by (cases sd) (simp_all add: side_text_def handle_padspec_def)

lemma handle_padspec_item:
  assumes "items_ok (Flag sd w c # items)"
  shows "handle_padspec (side_text sd @ width_text w @ c # rest) = (\<lparr>pad_width = min w 128, side = sd\<rparr>, c # rest)"
  using assms handle_padspec_width [of w c sd rest] handle_padspec_no_width [of c sd rest]
  by (cases "w = 0") (simp_all add: width_text_def)

lemma compile_loop_chars:
  "CHR ''%'' \<notin> set s \<Longrightarrow> s \<noteq> [] \<Longrightarrow>
    compile_loop (s @ rest) u = compile_loop rest (Some ((case u of None \<Rightarrow> [] | Some v \<Rightarrow> v) @ s))"
proof (induction s arbitrary: u)
  case (Cons c s)
  from Cons.prems(1) have c: "c \<noteq> CHR ''%''" by auto
  from Cons.prems(1) Cons.IH [of "Some ((case u of None \<Rightarrow> [] | Some v \<Rightarrow> v) @ [c])"] c show ?case
    by (cases "s = []") simp_all
qed simp

lemma compile_loop_pending:
  "rest = [] \<or> hd rest = CHR ''%'' \<Longrightarrow> compile_loop rest (Some s) = aggregate_formatter s # compile_loop rest None"
  by (cases rest) (simp_all add: flush_chars_def)

lemma compile_items: "items_ok items \<Longrightarrow> compile_loop (concat (map item_text items)) None = map item_formatter items"
proof (induction items rule: items_ok.induct)
  case 1
  show ?case by (simp add: flush_chars_def)
next
  case (2 s items)
  have "concat (map item_text items) = [] \<or> hd (concat (map item_text items)) = CHR ''%''"
    using 2 by (cases items rule: items_ok.cases) auto
  from compile_loop_pending [OF this, of s] 2 show ?case by (simp add: compile_loop_chars)
next
  case (3 sd w c items)
  from handle_padspec_item [OF 3(2), of "concat (map item_text items)"] 3 show ?case by (simp add: flush_chars_def)
qed

section \<open>Formatting never fails\<close>

text \<open>Without the assumption on the caches the text may be another one, but there is a text.\<close>

lemma full_format_total:
  assumes "tm_ok t"
  shows "\<exists>c' m' s. full_format c m t dest = Inr (c', m', dest @ s) \<and> with_colors m m'"
proof -
  obtain c' where c: "refresh_cache (secs_of (msg_time m)) t c = Inr c'"
    by (cases "cache_timestamp c \<noteq> secs_of (msg_time m) \<or> cached_datetime c = []")
      (auto simp: refresh_cache_def writes_datetime [OF assms])
  let ?head = "cached_datetime c' @ fraction_text 3 (2 ^ 32) 1000000 m @ ''] '' @
    (if msg_logger_name m \<noteq> [] then ''['' @ msg_logger_name m @ ''] '' else []) @ ''[''"
  let ?m = "m\<lparr>color_range_start := length (dest @ ?head), color_range_end := length (dest @ ?head @ level_name (msg_level m))\<rparr>"
  have "full_format c m t dest = Inr (c', ?m, dest @ ?head @ level_name (msg_level m) @ ''] '' @
    (if source_empty (msg_source m) then [] else ''['' @ location_text (msg_source m) @ ''] '') @ payload m)"
    unfolding full_format_def c bind_res_simps writes_apply [OF writes_fraction(1)] Let_def
    by (simp add: put_def writes_apply [OF writes_location])
  moreover have "with_colors m ?m" unfolding with_colors_def by blast
  ultimately show ?thesis by blast
qed

lemma format_flag_total:
  assumes "tm_ok t" and "flag_padding_ok f"
  shows "\<exists>f' m' s. format_flag pid f m t dest = Inr (f', m', dest @ s) \<and> flag_padding_ok f' \<and> with_colors m m'"
proof (cases "\<exists>p c. f = full_formatter p c")
  case True
  then obtain p c where f: "f = full_formatter p c" by blast
  from full_format_total [OF assms(1), of c m dest] show ?thesis
    by (auto simp: f format_flag_def flag_padding_ok_def)
next
  case False
  then have "valid_flag (\<lambda>_. t) f" by (cases f) (auto simp: valid_flag_def)
  from format_flag_text [OF _ this assms(2), where m = m and pid = pid and dest = dest] assms(1) show ?thesis by blast
qed

lemma run_formatters_total:
  assumes "tm_ok t" and "\<forall>f \<in> set fs. flag_padding_ok f"
  shows "\<exists>fs' m' s. run_formatters pid fs m t dest = Inr (fs', m', dest @ s) \<and> (\<forall>f \<in> set fs'. flag_padding_ok f) \<and> with_colors m m'"
  using assms(2)
proof (induction fs arbitrary: m dest)
  case (Cons f fs)
  obtain f' m1 s where f: "format_flag pid f m t dest = Inr (f', m1, dest @ s)" "flag_padding_ok f'" "with_colors m m1"
    using format_flag_total [OF assms(1), of f pid m dest] Cons.prems by auto
  from Cons.IH [of m1 "dest @ s"] Cons.prems obtain fs' m' s' where
    fs: "run_formatters pid fs m1 t (dest @ s) = Inr (fs', m', (dest @ s) @ s')" "\<forall>f \<in> set fs'. flag_padding_ok f"
      "with_colors m1 m'" by auto
  from f fs show ?case by (auto intro: with_colors_trans)
qed simp

text \<open>The times the system gives are times, and the formatter was compiled from a pattern.\<close>

definition os_ok :: "log_os \<Rightarrow> bool" where
  "os_ok os \<longleftrightarrow> (\<forall>s. tm_ok (os_localtime os s) \<and> tm_ok (os_gmtime os s))"

definition formatter_ok :: "pattern_formatter \<Rightarrow> bool" where
  "formatter_ok f \<longleftrightarrow> tm_ok (cached_tm f) \<and> (\<forall>g \<in> set (formatters f). flag_padding_ok g)"

lemma new_formatter_ok: "formatter_ok (pattern_formatter_new pat tt end_of_line)"
  using compile_pattern_ok [of pat "\<lambda>_. zero_tm"]
  by (auto simp: formatter_ok_def pattern_formatter_new_def tm_ok_def zero_tm_def)

lemma default_formatter_ok: "formatter_ok (default_formatter_new tt end_of_line)"
  by (simp add: formatter_ok_def default_formatter_new_def tm_ok_def zero_tm_def flag_padding_ok_def)

lemma pattern_format_total:
  assumes "os_ok os" and "formatter_ok f"
  shows "\<exists>f' m' s. pattern_format os m dest f = Inr (f', m', dest @ s) \<and> formatter_ok f' \<and> with_colors m m'"
proof -
  define g where "g = (if secs_of (msg_time m) \<noteq> last_log_secs f
    then f\<lparr>cached_tm := get_time os f m, last_log_secs := secs_of (msg_time m)\<rparr> else f)"
  have g: "tm_ok (cached_tm g)" "\<forall>h \<in> set (formatters g). flag_padding_ok h"
    using assms by (auto simp: g_def os_ok_def formatter_ok_def get_time_def split: pattern_time_type.splits)
  from run_formatters_total [OF g, of "os_pid os" m dest] g(1) show ?thesis
    by (auto simp: pattern_format_def Let_def formatter_ok_def simp flip: g_def)
qed

section \<open>Properties\<close>

text \<open>
  C6. A formatter prints every message of a sequence, in any order of their times, as the texts of the
  fields of its pattern for the broken-down time of that message, whatever the pattern is: no assertion
  and no array access fails, and neither the cached broken-down time nor the cached date of the full
  formatter ever shows the time of another message. Messages of the first second of 1970 are excepted.
  The texts of the fields are those of the code, which differ from its comments for some flags: \<open>%I\<close>
  prints 00 for the hour after midnight, where a comment says 1-12, \<open>%A\<close> and \<open>%B\<close> the full names, where
  the comments say short ones, \<open>%r\<close> PM, where they have pm, and \<open>%+\<close> leaves out an empty logger name and
  adds the source location if there is one, which the pattern in its comment does not say.
\<close>

theorem pattern_prints_fields:
  assumes "\<forall>m \<in> set ms. secs_of (msg_time m) \<noteq> 0 \<and> tm_ok (time_source os tt (secs_of (msg_time m)))"
  shows "format_each os ms (pattern_formatter_new pat tt end_of_line) = Inr (map (pattern_text os pat tt end_of_line) ms)"
  by (rule format_each_in_use [OF new_formatter_in_use assms])

definition demo_tm :: "int \<Rightarrow> log_tm" where
  "demo_tm s = \<lparr>tm_year = 119, tm_mon = 3, tm_mday = 12, tm_hour = 17, tm_min = s div 60 mod 60, tm_sec = s mod 60,
     tm_wday = 5, tm_gmtoff = 28800\<rparr>"

definition demo_os :: log_os where
  "demo_os = \<lparr>os_localtime = demo_tm, os_gmtime = demo_tm, os_pid = 7\<rparr>"

definition demo_msg :: "64 word \<Rightarrow> string \<Rightarrow> log_msg" where
  "demo_msg t s = log_msg_new no_source ''recorder'' info s t 42"

lemma demo_tm_ok: "tm_ok (demo_tm s)"
proof -
  have "0 \<le> s mod 60" "s mod 60 < 60" "0 \<le> s div 60 mod 60" "s div 60 mod 60 < 60" by simp_all
  then have "s mod 60 \<le> 60" "s div 60 mod 60 \<le> 59" by linarith+
  then show ?thesis by (simp add: tm_ok_def demo_tm_def)
qed

theorem pattern_prints_fields_witness:
  "format_each demo_os [demo_msg 61000000000 ''a'', demo_msg 61500000000 ''b'', demo_msg 59000000000 ''c'']
     (pattern_formatter_new ''%M:%S %v'' local_time []) = Inr [''01:01 a'', ''01:01 b'', ''00:59 c'']"
proof -
  let ?ms = "[demo_msg 61000000000 ''a'', demo_msg 61500000000 ''b'', demo_msg 59000000000 ''c'']"
  have secs: "secs_of 61000000000 = 61" "secs_of 61500000000 = 61" "secs_of 59000000000 = 59"
    by (simp_all add: secs_of_def signed_divide_int_def)
  have c: "compile_pattern ''%M:%S %v'' =
    [M_formatter no_padding, aggregate_formatter '':'', S_formatter no_padding, aggregate_formatter '' '', v_formatter no_padding]"
    using compile_items [of "[Flag pad_left 0 (CHR ''M''), Chars '':'', Flag pad_left 0 (CHR ''S''), Chars '' '', Flag pad_left 0 (CHR ''v'')]"]
    by (simp add: side_text_def width_text_def is_digit_def compile_pattern_def handle_flag_def flag_table_def no_padding_def)
  have "\<forall>m \<in> set ?ms. secs_of (msg_time m) \<noteq> 0 \<and> tm_ok (time_source demo_os local_time (secs_of (msg_time m)))"
    by (simp add: demo_msg_def log_msg_new_def secs time_source_def demo_os_def demo_tm_ok)
  from pattern_prints_fields [OF this, of "''%M:%S %v''" "[]"] show ?thesis
    by (simp add: pattern_text_def c flag_text_simps demo_msg_def log_msg_new_def secs time_source_def demo_os_def demo_tm_def
        pad_zeros_def show_nat.simps digit_chars pad_around_def no_padding_def)
qed

text \<open>
  C22. A pattern is compiled to the formatters it names, in their order: the plain characters between the
  flags as one text each, and every flag with the side and the width written before it, cut at 128.
\<close>

theorem compile_pattern_exact:
  assumes "items_ok items"
  shows "compile_pattern (concat (map item_text items)) = map item_formatter items"
  using compile_items [OF assms] by (simp add: compile_pattern_def)

theorem compile_pattern_exact_witness:
  "compile_pattern ''[thread-%-8t] %=200v'' =
     [aggregate_formatter ''[thread-'', t_formatter \<lparr>pad_width = 8, side = pad_right\<rparr>, aggregate_formatter ''] '',
      v_formatter \<lparr>pad_width = 128, side = pad_center\<rparr>]"
proof -
  have "items_ok [Chars ''[thread-'', Flag pad_right 8 (CHR ''t''), Chars ''] '', Flag pad_center 200 (CHR ''v'')]"
    by (simp add: is_digit_def)
  from compile_pattern_exact [OF this] show ?thesis
    by (simp add: side_text_def width_text_def show_nat.simps digit_chars handle_flag_def flag_table_def)
qed

end
