(* ===== verification/RotatingSink.thy ===== *)
theory RotatingSink
  imports Fstream
begin

text \<open>
  The log file: \<open>spdlog/details/file_helper.h\<close> and \<open>spdlog/sinks/rotating_file_sink.h\<close> of the
  logging library the repository carries, which both programs log through. The disk is that of
  theory Fstream; a file opened for appending or truncating is written through, since the program
  closes it before it renames it. A result is the text of the \<open>spdlog_ex\<close> thrown, or a value.
  The text of \<open>errno\<close> that \<open>spdlog_ex\<close> appends is left out.
  Sizes are natural numbers: a file does not reach \<open>2^64\<close> bytes. Formatting a message is not
  part of this theory: a message is its formatted bytes.
\<close>

type_synonym 'a sink_res = "string + 'a"

section \<open>File names\<close>

fun rfind_char :: "char \<Rightarrow> string \<Rightarrow> nat option" where
  "rfind_char c [] = None"
| "rfind_char c (x # xs) =
     (case rfind_char c xs of Some i \<Rightarrow> Some (Suc i) | None \<Rightarrow> if x = c then Some 0 else None)"

definition split_by_extension :: "string \<Rightarrow> string \<times> string" where
  "split_by_extension fname =
     (case rfind_char (CHR ''.'') fname of
        None \<Rightarrow> (fname, [])
      | Some ext_index \<Rightarrow>
          if ext_index = 0 \<or> ext_index = length fname - 1 then (fname, [])
          else (case rfind_char (CHR ''/'') fname of
                  Some folder_index \<Rightarrow>
                    if ext_index - 1 \<le> folder_index then (fname, [])
                    else (take ext_index fname, drop ext_index fname)
                | None \<Rightarrow> (take ext_index fname, drop ext_index fname)))"

definition calc_filename :: "string \<Rightarrow> nat \<Rightarrow> string" where
  "calc_filename filename index =
     (if index \<noteq> 0 then
        (let (basename, ext) = split_by_extension filename
         in basename @ ''.'' @ show_nat index @ ext)
      else filename)"

section \<open>file_helper\<close>

record file_helper =
  fd :: bool
  fh_filename :: string

type_synonym fh_disk = "file_helper \<times> disk"

definition file_helper_default :: file_helper where
  "file_helper_default = \<lparr>fd = False, fh_filename = []\<rparr>"

definition fh_close :: "file_helper \<Rightarrow> file_helper" where
  "fh_close h = (if fd h then h\<lparr>fd := False\<rparr> else h)"

text \<open>\<open>fopen\<close> with \<open>"wb"\<close> or \<open>"ab"\<close>.\<close>

definition fopen :: "string \<Rightarrow> bool \<Rightarrow> disk \<Rightarrow> disk option" where
  "fopen name trunc d =
     (if trunc then (if creatable d name then Some (d\<lparr>files := (files d)(name \<mapsto> [])\<rparr>) else None)
      else case files d name of
             Some _ \<Rightarrow> Some d
           | None \<Rightarrow> if creatable d name then Some (d\<lparr>files := (files d)(name \<mapsto> [])\<rparr>) else None)"

definition open_tries :: nat where
  "open_tries = 5"

fun try_open :: "nat \<Rightarrow> bool \<Rightarrow> fh_disk \<Rightarrow> unit sink_res \<times> fh_disk" where
  "try_open 0 trunc (h, d) = (Inl (''Failed opening file '' @ fh_filename h @ '' for writing''), (h, d))"
| "try_open (Suc tries) trunc (h, d) =
     (case fopen (fh_filename h) trunc d of
        Some d \<Rightarrow> (Inr (), (h\<lparr>fd := True\<rparr>, d))
      | None \<Rightarrow> try_open tries trunc (h, d))"

definition fh_open :: "string \<Rightarrow> bool \<Rightarrow> fh_disk \<Rightarrow> unit sink_res \<times> fh_disk" where
  "fh_open fname trunc = (\<lambda>(h, d). try_open open_tries trunc ((fh_close h)\<lparr>fh_filename := fname\<rparr>, d))"

definition fh_reopen :: "bool \<Rightarrow> fh_disk \<Rightarrow> unit sink_res \<times> fh_disk" where
  "fh_reopen trunc = (\<lambda>(h, d).
     if fh_filename h = [] then (Inl ''Failed re opening file - was not opened before'', (h, d))
     else fh_open (fh_filename h) trunc (h, d))"

text \<open>\<open>fwrite\<close> at the end of the file; on a null pointer the program crashes (none).\<close>

definition fh_write :: "string \<Rightarrow> fh_disk \<Rightarrow> (unit sink_res \<times> fh_disk) option" where
  "fh_write buf = (\<lambda>(h, d).
     if \<not> fd h then None
     else case files d (fh_filename h) of
            None \<Rightarrow> None
          | Some s \<Rightarrow>
              if quota d < length s + length buf
              then Some (Inl (''Failed writing to file '' @ fh_filename h), (h, d))
              else Some (Inr (), (h, d\<lparr>files := (files d)(fh_filename h \<mapsto> s @ buf)\<rparr>)))"

definition fh_size :: "fh_disk \<Rightarrow> nat sink_res" where
  "fh_size = (\<lambda>(h, d).
     if \<not> fd h then Inl (''Cannot use size() on closed file '' @ fh_filename h)
     else case files d (fh_filename h) of
            None \<Rightarrow> Inl ''Failed getting file size from fd''
          | Some s \<Rightarrow> Inr (length s))"

definition file_exists :: "string \<Rightarrow> disk \<Rightarrow> bool" where
  "file_exists fname d \<longleftrightarrow> files d fname \<noteq> None"

section \<open>The sink\<close>

record rotating_file_sink =
  base_filename :: string
  max_file_size :: nat
  max_files :: nat
  current_size :: nat
  helper :: file_helper

type_synonym sink_disk = "rotating_file_sink \<times> disk"

text \<open>\<open>rename\<close> needs a name that can be created; the target was removed before.\<close>

definition rename_file :: "string \<Rightarrow> string \<Rightarrow> disk \<Rightarrow> bool \<times> disk" where
  "rename_file src target d =
     (let d = snd (fs_unlink target d)
      in case files d src of
           None \<Rightarrow> (False, d)
         | Some _ \<Rightarrow> if creatable d target then (True, fs_rename src target d) else (False, d))"

text \<open>The loop from \<open>max_files_\<close> down to 1; a rename that failed is tried once more.\<close>

fun rotate_loop :: "string \<Rightarrow> nat \<Rightarrow> disk \<Rightarrow> unit sink_res \<times> disk" where
  "rotate_loop base 0 d = (Inr (), d)"
| "rotate_loop base (Suc i) d =
     (let src = calc_filename base i
      in if \<not> file_exists src d then rotate_loop base i d
         else let target = calc_filename base (Suc i); (ok, d) = rename_file src target d
              in if ok then rotate_loop base i d
                 else let (ok, d) = rename_file src target d
                      in if ok then rotate_loop base i d
                         else (Inl (''rotating_file_sink: failed renaming '' @ src @ '' to '' @ target), d))"

definition on_helper :: "'a sink_res \<times> fh_disk \<Rightarrow> rotating_file_sink \<Rightarrow> 'a sink_res \<times> sink_disk" where
  "on_helper = (\<lambda>(r, (h, d)) s. (r, (s\<lparr>helper := h\<rparr>, d)))"

definition rotate_files :: "sink_disk \<Rightarrow> unit sink_res \<times> sink_disk" where
  "rotate_files = (\<lambda>(s, d).
     let s = s\<lparr>helper := fh_close (helper s)\<rparr>
     in case rotate_loop (base_filename s) (max_files s) d of
          (Inr _, d) \<Rightarrow> on_helper (fh_reopen True (helper s, d)) s
        | (Inl e, d) \<Rightarrow>
            (case on_helper (fh_reopen True (helper s, d)) s of
               (Inl e', s) \<Rightarrow> (Inl e', s)
             | (Inr _, (s, d)) \<Rightarrow> (Inl e, (s\<lparr>current_size := 0\<rparr>, d))))"

text \<open>The constructor.\<close>

definition rotating_file_sink_new :: "string \<Rightarrow> nat \<Rightarrow> nat \<Rightarrow> bool \<Rightarrow> disk \<Rightarrow> unit sink_res \<times> sink_disk" where
  "rotating_file_sink_new base max_size n_files rotate_on_open d =
     (let s = \<lparr>base_filename = base, max_file_size = max_size, max_files = n_files, current_size = 0,
              helper = file_helper_default\<rparr>
      in case on_helper (fh_open (calc_filename base 0) False (helper s, d)) s of
           (Inl e, sd) \<Rightarrow> (Inl e, sd)
         | (Inr _, (s, d)) \<Rightarrow>
             (case fh_size (helper s, d) of
                Inl e \<Rightarrow> (Inl e, (s, d))
              | Inr n \<Rightarrow>
                  let s = s\<lparr>current_size := n\<rparr>
                  in if rotate_on_open \<and> 0 < n then rotate_files (s, d) else (Inr (), (s, d))))"

definition sink_it :: "string \<Rightarrow> sink_disk \<Rightarrow> (unit sink_res \<times> sink_disk) option" where
  "sink_it formatted = (\<lambda>(s, d).
     let s = s\<lparr>current_size := current_size s + length formatted\<rparr>;
         (r, (s, d)) =
           (if max_file_size s < current_size s then
              (case rotate_files (s, d) of
                 (Inl e, sd) \<Rightarrow> (Inl e, sd)
               | (Inr _, (s, d)) \<Rightarrow> (Inr (), (s\<lparr>current_size := length formatted\<rparr>, d)))
            else (Inr (), (s, d)))
     in case r of
          Inl e \<Rightarrow> Some (Inl e, (s, d))
        | Inr _ \<Rightarrow> map_option (\<lambda>m. on_helper m s) (fh_write formatted (helper s, d)))"

fun sink_all :: "string list \<Rightarrow> sink_disk \<Rightarrow> (unit sink_res \<times> sink_disk) option" where
  "sink_all [] sd = Some (Inr (), sd)"
| "sink_all (m # ms) sd =
     (case sink_it m sd of
        Some (Inr _, sd) \<Rightarrow> sink_all ms sd
      | r \<Rightarrow> r)"

section \<open>Names are distinct\<close>

lemma rfind_char_bound: "rfind_char c s = Some i \<Longrightarrow> i < length s \<and> s ! i = c"
  by (induction s arbitrary: i) (auto split: option.splits if_splits)

lemma rfind_char_later: "rfind_char c s = Some i \<Longrightarrow> c \<notin> set (drop (Suc i) s)"
proof (induction s arbitrary: i)
  case (Cons x xs)
  have "rfind_char c ys = None \<Longrightarrow> c \<notin> set ys" for ys
    by (induction ys) (auto split: option.splits if_splits)
  with Cons show ?case by (auto split: option.splits if_splits)
qed simp

lemma split_append: "fst (split_by_extension f) @ snd (split_by_extension f) = f"
  by (simp add: split_by_extension_def split: option.splits)

lemma calc_filename_parts:
  "calc_filename base i =
     (if i = 0 then base
      else fst (split_by_extension base) @ ''.'' @ show_nat i @ snd (split_by_extension base))"
  by (simp add: calc_filename_def case_prod_beta)

lemma length_base: "length base = length (fst (split_by_extension base)) + length (snd (split_by_extension base))"
  using split_append [of base] by (metis length_append)

lemma calc_filename_inject [simp]: "calc_filename base i = calc_filename base j \<longleftrightarrow> i = j"
proof -
  have "calc_filename base k \<noteq> base" if "k \<noteq> 0" for k
  proof
    assume "calc_filename base k = base"
    then have "length (calc_filename base k) = length base" by simp
    with that show False using length_base [of base] by (simp add: calc_filename_parts)
  qed
  moreover have "calc_filename base 0 = base" by (simp add: calc_filename_parts)
  moreover have "calc_filename base i = calc_filename base j \<Longrightarrow> i = j" if "i \<noteq> 0" "j \<noteq> 0"
    using that by (simp add: calc_filename_parts)
  ultimately show ?thesis by metis
qed

section \<open>Rotating\<close>

text \<open>The contents of the rotated files, newest first, are a list of segments.\<close>

definition holds :: "string \<Rightarrow> nat \<Rightarrow> string list \<Rightarrow> disk \<Rightarrow> bool" where
  "holds base n segs d \<longleftrightarrow>
     length segs \<le> n + 1 \<and>
     (\<forall>i \<le> n. files d (calc_filename base i) = (if i < length segs then Some (segs ! i) else None))"

definition names_ok :: "string \<Rightarrow> nat \<Rightarrow> disk \<Rightarrow> bool" where
  "names_ok base n d \<longleftrightarrow> (\<forall>i \<le> n. creatable d (calc_filename base i))"

definition same_limits :: "disk \<Rightarrow> disk \<Rightarrow> bool" where
  "same_limits d d' \<longleftrightarrow> creatable d' = creatable d \<and> quota d' = quota d"

lemma rename_file_ok:
  assumes "files d src = Some s" and "src \<noteq> target" and "creatable d target"
  shows "rename_file src target d = (True, d\<lparr>files := (files d)(src := None, target := Some s)\<rparr>)"
  using assms by (auto simp: rename_file_def fs_unlink_def fs_rename_def split: option.splits)

text \<open>The loop moves the files \<open>0 .. n-1\<close> that exist one up, without gaps.\<close>

lemma rotate_loop_moves:
  assumes "names_ok base n d" and "\<And>i. i \<le> n \<Longrightarrow> files d (calc_filename base i) = None \<longleftrightarrow> k \<le> i"
  shows "\<exists>d'. rotate_loop base n d = (Inr (), d') \<and> same_limits d d' \<and>
    (\<forall>i. files d' (calc_filename base i) =
       (if i = 0 \<and> 0 < n then None
        else if i \<le> n \<and> 0 < i \<and> i \<le> k then files d (calc_filename base (i - 1))
        else files d (calc_filename base i)))"
  using assms
proof (induction n arbitrary: d k)
  case 0
  then show ?case by (auto simp: same_limits_def)
next
  case (Suc n)
  have ok: "names_ok base n d" using Suc.prems(1) by (simp add: names_ok_def)
  show ?case
  proof (cases "k \<le> n")
    case True
    then have none: "\<not> file_exists (calc_filename base n) d" using Suc.prems(2) [of n] by (simp add: file_exists_def)
    have "\<And>i. i \<le> n \<Longrightarrow> files d (calc_filename base i) = None \<longleftrightarrow> k \<le> i" using Suc.prems(2) by simp
    from Suc.IH [OF ok this] obtain d' where
      d': "rotate_loop base n d = (Inr (), d')" "same_limits d d'"
        "\<forall>i. files d' (calc_filename base i) =
          (if i = 0 \<and> 0 < n then None
           else if i \<le> n \<and> 0 < i \<and> i \<le> k then files d (calc_filename base (i - 1))
           else files d (calc_filename base i))"
      by blast
    have "rotate_loop base (Suc n) d = (Inr (), d')" using none d'(1) by simp
    moreover have "files d (calc_filename base 0) = None" if "n = 0" using True that Suc.prems(2) [of 0] by simp
    ultimately show ?thesis using d'(2,3) True by (intro exI [of _ d'] conjI) auto
  next
    case False
    then obtain s where s: "files d (calc_filename base n) = Some s" using Suc.prems(2) [of n] by auto
    define d1 where "d1 = d\<lparr>files := (files d)(calc_filename base n := None, calc_filename base (Suc n) := Some s)\<rparr>"
    have r: "rename_file (calc_filename base n) (calc_filename base (Suc n)) d = (True, d1)"
      unfolding d1_def using Suc.prems(1) by (intro rename_file_ok s) (simp_all add: names_ok_def)
    have "names_ok base n d1" using ok by (simp add: names_ok_def d1_def)
    moreover have "\<And>i. i \<le> n \<Longrightarrow> files d1 (calc_filename base i) = None \<longleftrightarrow> n \<le> i"
      using Suc.prems(2) False by (auto simp: d1_def)
    ultimately obtain d' where
      d': "rotate_loop base n d1 = (Inr (), d')" "same_limits d1 d'"
        "\<forall>i. files d' (calc_filename base i) =
          (if i = 0 \<and> 0 < n then None
           else if i \<le> n \<and> 0 < i \<and> i \<le> n then files d1 (calc_filename base (i - 1))
           else files d1 (calc_filename base i))"
      using Suc.IH by blast
    have "rotate_loop base (Suc n) d = (Inr (), d')" using s r d'(1) by (simp add: file_exists_def)
    moreover have "same_limits d d'" using d'(2) by (simp add: same_limits_def d1_def)
    ultimately show ?thesis using d'(3) False s by (intro exI [of _ d'] conjI) (auto simp: d1_def)
  qed
qed

section \<open>The log as a list of segments\<close>

definition log_spec :: "nat \<Rightarrow> nat \<Rightarrow> string \<Rightarrow> string list \<Rightarrow> string list" where
  "log_spec limit n m segs =
     (if limit < length (hd segs) + length m then m # take n segs else (hd segs @ m) # tl segs)"

definition stored :: "string list \<Rightarrow> sink_disk \<Rightarrow> bool" where
  "stored segs = (\<lambda>(s, d).
     base_filename s \<noteq> [] \<and> helper s = \<lparr>fd = True, fh_filename = base_filename s\<rparr> \<and> segs \<noteq> [] \<and>
     holds (base_filename s) (max_files s) segs d \<and> names_ok (base_filename s) (max_files s) d)"

definition logged :: "string list \<Rightarrow> sink_disk \<Rightarrow> bool" where
  "logged segs sd \<longleftrightarrow> stored segs sd \<and> current_size (fst sd) = length (hd segs)"

lemma holds_base: "holds base n segs d \<Longrightarrow> segs \<noteq> [] \<Longrightarrow> files d base = Some (hd segs)"
  by (force simp: holds_def calc_filename_parts hd_conv_nth dest: spec [of _ 0])

lemma calc_filename_zero [simp]: "calc_filename base 0 = base"
  by (simp add: calc_filename_parts)

lemma calc_filename_base [simp]: "calc_filename base i = base \<longleftrightarrow> i = 0"
  using calc_filename_inject [of base i 0] by simp

text \<open>Replacing the contents of the newest file.\<close>

lemma holds_update:
  assumes "holds base n segs d" and "segs \<noteq> []"
  shows "holds base n (x # tl segs) (d\<lparr>files := (files d)(base \<mapsto> x)\<rparr>)"
  using assms by (auto simp: holds_def nth_Cons' nth_tl)

lemma try_open_trunc:
  "creatable d (fh_filename h) \<Longrightarrow> 0 < k \<Longrightarrow>
   try_open k True (h, d) = (Inr (), (h\<lparr>fd := True\<rparr>, d\<lparr>files := (files d)(fh_filename h \<mapsto> [])\<rparr>))"
  by (cases k) (simp_all add: fopen_def)

lemma rotate_files_ok:
  assumes "stored segs (s, d)"
  shows "\<exists>d'. rotate_files (s, d) = (Inr (), (s, d')) \<and> same_limits d d' \<and>
    holds (base_filename s) (max_files s) ([] # take (max_files s) segs) d' \<and>
    names_ok (base_filename s) (max_files s) d'"
proof -
  let ?b = "base_filename s" and ?n = "max_files s" and ?k = "length segs"
  have s: "?b \<noteq> []" "helper s = \<lparr>fd = True, fh_filename = ?b\<rparr>" "segs \<noteq> []" "holds ?b ?n segs d"
    "names_ok ?b ?n d" using assms by (simp_all add: stored_def)
  have "\<And>i. i \<le> ?n \<Longrightarrow> files d (calc_filename ?b i) = None \<longleftrightarrow> ?k \<le> i" using s(4) by (auto simp: holds_def)
  from rotate_loop_moves [OF s(5) this] obtain d' where
    d': "rotate_loop ?b ?n d = (Inr (), d')" "same_limits d d'"
      "\<And>i. files d' (calc_filename ?b i) =
         (if i = 0 \<and> 0 < ?n then None
          else if i \<le> ?n \<and> 0 < i \<and> i \<le> ?k then files d (calc_filename ?b (i - 1))
          else files d (calc_filename ?b i))" by blast
  let ?d = "d'\<lparr>files := (files d')(?b \<mapsto> [])\<rparr>"
  have c: "creatable d' ?b" using s(5) d'(2) by (auto simp: names_ok_def same_limits_def dest: spec [of _ 0])
  have "rotate_files (s, d) = (Inr (), (s, ?d))"
    using s(1,2) d'(1) c
    by (simp add: rotate_files_def on_helper_def fh_reopen_def fh_open_def fh_close_def try_open_trunc open_tries_def)
  moreover have "same_limits d ?d" using d'(2) by (simp add: same_limits_def)
  moreover have "holds ?b ?n ([] # take ?n segs) ?d"
    unfolding holds_def
  proof (intro conjI allI impI)
    show "length ([] # take ?n segs) \<le> ?n + 1" by simp
    fix i assume i: "i \<le> ?n"
    show "files ?d (calc_filename ?b i) =
      (if i < length ([] # take ?n segs) then Some (([] # take ?n segs) ! i) else None)"
    proof (cases i)
      case (Suc j)
      then show ?thesis using i s(4) by (auto simp: d'(3) holds_def)
    qed simp
  qed
  moreover have "names_ok ?b ?n ?d" using s(5) d'(2) by (simp add: names_ok_def same_limits_def)
  ultimately show ?thesis by blast
qed

lemma fh_write_ok:
  assumes "files d base = Some x" and "length x + length m \<le> quota d"
  shows "fh_write m (\<lparr>fd = True, fh_filename = base\<rparr>, d) =
    Some (Inr (), (\<lparr>fd = True, fh_filename = base\<rparr>, d\<lparr>files := (files d)(base \<mapsto> x @ m)\<rparr>))"
  using assms by (simp add: fh_write_def)

lemma sink_it_refines:
  assumes "logged segs (s, d)" and "max_file_size s \<le> quota d" and "length m \<le> quota d"
  shows "\<exists>s' d'. sink_it m (s, d) = Some (Inr (), (s', d')) \<and> same_limits d d' \<and>
    max_file_size s' = max_file_size s \<and> max_files s' = max_files s \<and> base_filename s' = base_filename s \<and>
    logged (log_spec (max_file_size s) (max_files s) m segs) (s', d')"
proof -
  let ?b = "base_filename s" and ?n = "max_files s"
  have s: "?b \<noteq> []" "helper s = \<lparr>fd = True, fh_filename = ?b\<rparr>" "segs \<noteq> []" "current_size s = length (hd segs)"
    "holds ?b ?n segs d" "names_ok ?b ?n d" using assms(1) by (simp_all add: logged_def stored_def)
  let ?s = "s\<lparr>current_size := length (hd segs) + length m\<rparr>"
  show ?thesis
  proof (cases "max_file_size s < length (hd segs) + length m")
    case False
    have "length (hd segs) + length m \<le> quota d" using False assms(2) by simp
    note w = fh_write_ok [OF holds_base [OF s(5,3)] this]
    show ?thesis
      using False s holds_update [OF s(5,3), of "hd segs @ m"]
      by (simp add: sink_it_def w on_helper_def log_spec_def logged_def stored_def same_limits_def names_ok_def)
  next
    case True
    have "stored segs (?s, d)" using assms(1) by (simp add: logged_def stored_def)
    from rotate_files_ok [OF this] have "\<exists>d'. rotate_files (?s, d) = (Inr (), (?s, d')) \<and> same_limits d d' \<and>
        holds ?b ?n ([] # take ?n segs) d' \<and> names_ok ?b ?n d'" by simp
    then obtain d' where r: "rotate_files (?s, d) = (Inr (), (?s, d'))" "same_limits d d'"
        "holds ?b ?n ([] # take ?n segs) d'" "names_ok ?b ?n d'" by blast
    have q: "length [] + length m \<le> quota d'" using assms(3) r(2) by (simp add: same_limits_def)
    have f: "files d' ?b = Some []" using holds_base [OF r(3)] by simp
    note w = fh_write_ok [OF f q]
    show ?thesis
      using True s r holds_update [OF r(3), of m]
      by (simp add: sink_it_def w on_helper_def log_spec_def logged_def stored_def same_limits_def names_ok_def)
  qed
qed

lemma sink_all_refines:
  assumes "logged segs (s, d)" and "max_file_size s \<le> quota d" and "\<forall>m \<in> set ms. length m \<le> quota d"
  shows "\<exists>s' d'. sink_all ms (s, d) = Some (Inr (), (s', d')) \<and>
    max_file_size s' = max_file_size s \<and> max_files s' = max_files s \<and> base_filename s' = base_filename s \<and>
    logged (fold (log_spec (max_file_size s) (max_files s)) ms segs) (s', d')"
  using assms
proof (induction ms arbitrary: s d segs)
  case (Cons m ms)
  have "length m \<le> quota d" using Cons.prems(3) by simp
  from sink_it_refines [OF Cons.prems(1,2) this] obtain s1 d1 where
    1: "sink_it m (s, d) = Some (Inr (), (s1, d1))" "same_limits d d1" "max_file_size s1 = max_file_size s"
      "max_files s1 = max_files s" "base_filename s1 = base_filename s"
      "logged (log_spec (max_file_size s) (max_files s) m segs) (s1, d1)" by blast
  have "max_file_size s1 \<le> quota d1" "\<forall>m \<in> set ms. length m \<le> quota d1"
    using Cons.prems(2,3) 1(2,3) by (simp_all add: same_limits_def)
  from Cons.IH [OF 1(6) this] 1 show ?case by simp
qed simp

text \<open>What the segments hold of everything that was logged.\<close>

definition keeps :: "nat \<Rightarrow> nat \<Rightarrow> string list \<Rightarrow> string list \<Rightarrow> bool" where
  "keeps limit n ms segs \<longleftrightarrow>
     segs \<noteq> [] \<and> length segs \<le> n + 1 \<and> (\<forall>seg \<in> set segs. length seg \<le> limit \<or> seg \<in> set ms) \<and>
     (\<exists>lost. concat ms = lost @ concat (rev segs) \<and> (length segs \<le> n \<longrightarrow> lost = []))"

lemma keeps_log_spec:
  assumes "keeps limit n ms segs"
  shows "keeps limit n (ms @ [m]) (log_spec limit n m segs)"
proof -
  obtain lost where k: "segs \<noteq> []" "length segs \<le> n + 1" "\<forall>seg \<in> set segs. length seg \<le> limit \<or> seg \<in> set ms"
    "concat ms = lost @ concat (rev segs)" "length segs \<le> n \<longrightarrow> lost = []"
    using assms by (auto simp: keeps_def)
  obtain c old where segs: "segs = c # old" using k(1) by (cases segs) auto
  show ?thesis
  proof (cases "limit < length c + length m")
    case False
    then show ?thesis using k by (auto simp: keeps_def log_spec_def segs)
  next
    case True
    have "concat (rev segs) = concat (rev (drop n segs)) @ concat (rev (take n segs))"
      by (metis append_take_drop_id concat_append rev_append)
    then have "concat (ms @ [m]) = (lost @ concat (rev (drop n segs))) @ concat (rev (m # take n segs))"
      using k(4) by simp
    moreover have "length (m # take n segs) \<le> n \<longrightarrow> lost @ concat (rev (drop n segs)) = []"
      using k(2,5) by (cases "length segs \<le> n") auto
    moreover have "\<forall>seg \<in> set (m # take n segs). length seg \<le> limit \<or> seg \<in> set (ms @ [m])"
      using k(3) by (auto dest: in_set_takeD)
    ultimately show ?thesis using True by (simp add: keeps_def log_spec_def segs)
  qed
qed

lemma keeps_fold:
  "keeps limit n ms segs \<Longrightarrow> keeps limit n (ms @ ms') (fold (log_spec limit n) ms' segs)"
proof (induction ms' arbitrary: ms segs)
  case (Cons m ms')
  from Cons.IH [OF keeps_log_spec [OF Cons.prems, of m]] show ?case by simp
qed simp

text \<open>The sink on a disk without log files.\<close>

definition no_logs :: "string \<Rightarrow> nat \<Rightarrow> disk \<Rightarrow> bool" where
  "no_logs base n d \<longleftrightarrow> base \<noteq> [] \<and> names_ok base n d \<and> (\<forall>i \<le> n. files d (calc_filename base i) = None)"

lemma rotating_file_sink_new_ok:
  assumes "no_logs base n d"
  shows "\<exists>s d'. rotating_file_sink_new base limit n on_open d = (Inr (), (s, d')) \<and> same_limits d d' \<and>
    base_filename s = base \<and> max_files s = n \<and> max_file_size s = limit \<and> logged [[]] (s, d')"
proof -
  have "files d base = None" "creatable d base"
    using assms by (auto simp: no_logs_def names_ok_def dest: spec [of _ 0])
  then show ?thesis
    using assms
    by (simp add: rotating_file_sink_new_def fh_open_def fh_close_def file_helper_default_def open_tries_def
        numeral_eq_Suc fopen_def on_helper_def fh_size_def logged_def stored_def holds_def names_ok_def
        same_limits_def no_logs_def)
qed

text \<open>
  The messages in files, oldest first: a message goes to the newest file if it fits, and begins a new
  one otherwise.
\<close>

fun packs :: "nat \<Rightarrow> string list \<Rightarrow> string list \<Rightarrow> string list list" where
  "packs limit cur [] = [cur]"
| "packs limit cur (m # ms) =
     (if limit < length (concat cur) + length m then cur # packs limit [m] ms else packs limit (cur @ [m]) ms)"

lemma concat_packs: "concat (packs limit cur ms) = cur @ ms"
  by (induction ms arbitrary: cur) simp_all

lemma packs_first: "\<exists>xs rest. packs limit cur ms = (cur @ xs) # rest"
proof (induction ms arbitrary: cur)
  case (Cons m ms)
  from Cons.IH [of "cur @ [m]"] show ?case by auto
qed simp

lemma packs_greedy:
  "Suc k < length (packs limit cur ms) \<Longrightarrow>
     packs limit cur ms ! Suc k \<noteq> [] \<and> limit < length (concat (packs limit cur ms ! k)) + length (hd (packs limit cur ms ! Suc k))"
proof (induction ms arbitrary: cur k)
  case (Cons m ms)
  show ?case
  proof (cases "limit < length (concat cur) + length m")
    case True
    obtain xs rest where f: "packs limit [m] ms = ([m] @ xs) # rest" using packs_first by blast
    show ?thesis
    proof (cases k)
      case 0
      with True f show ?thesis by simp
    next
      case (Suc j)
      with True Cons.IH [of j "[m]"] Cons.prems show ?thesis by simp
    qed
  qed (use Cons in simp)
qed simp

lemma packs_sizes:
  assumes "length (concat cur) \<le> limit \<or> (\<exists>m. cur = [m])"
  shows "\<forall>chunk \<in> set (packs limit cur ms). length (concat chunk) \<le> limit \<or> (\<exists>m. chunk = [m])"
  using assms
proof (induction ms arbitrary: cur)
  case (Cons m ms)
  show ?case
  proof (cases "limit < length (concat cur) + length m")
    case True
    with Cons.IH [of "[m]"] Cons.prems show ?thesis by auto
  next
    case False
    with Cons.IH [of "cur @ [m]"] show ?thesis by simp
  qed
qed simp

lemma log_spec_packs:
  "fold (log_spec limit n) ms (take (n + 1) (concat cur # old)) = take (n + 1) (rev (map concat (packs limit cur ms)) @ old)"
proof (induction ms arbitrary: cur old)
  case (Cons m ms)
  show ?case
  proof (cases "limit < length (concat cur) + length m")
    case True
    then have "log_spec limit n m (take (n + 1) (concat cur # old)) = take (n + 1) (concat [m] # concat cur # old)"
      by (cases n) (simp_all add: log_spec_def)
    with True Cons.IH [of "[m]" "concat cur # old"] show ?thesis by simp
  next
    case False
    then have "log_spec limit n m (take (n + 1) (concat cur # old)) = take (n + 1) (concat (cur @ [m]) # old)"
      by (simp add: log_spec_def)
    with False Cons.IH [of "cur @ [m]" old] show ?thesis by simp
  qed
qed simp

text \<open>
  C17. The rotating log loses only its oldest files, and leaves a file only when it is full: after any
  messages on a disk without log files, the messages are parted into runs, one for each file there
  was; a new run begins exactly where the next message would pass the maximal size, so that every
  run has at most that size or is a single message; and the files \<open>base\<close>, \<open>base.1\<close> and so on to \<open>base.n\<close>
  are the last \<open>n + 1\<close> runs, newest first.
\<close>

theorem rotating_log_keeps_newest:
  assumes "no_logs base n d" and "limit \<le> quota d" and "\<forall>m \<in> set ms. length m \<le> quota d"
  shows "\<exists>sd0 sd runs.
    rotating_file_sink_new base limit n False d = (Inr (), sd0) \<and> sink_all ms sd0 = Some (Inr (), sd) \<and>
    concat runs = ms \<and>
    (\<forall>k. Suc k < length runs \<longrightarrow> runs ! Suc k \<noteq> [] \<and> limit < length (concat (runs ! k)) + length (hd (runs ! Suc k))) \<and>
    (\<forall>run \<in> set runs. length (concat run) \<le> limit \<or> (\<exists>m. run = [m])) \<and>
    (\<forall>i \<le> n. files (snd sd) (calc_filename base i) = (if i < length runs then Some (concat (rev runs ! i)) else None))"
proof -
  from rotating_file_sink_new_ok [OF assms(1)] obtain s0 d0 where
    0: "rotating_file_sink_new base limit n False d = (Inr (), (s0, d0))" "same_limits d d0"
      "base_filename s0 = base" "max_files s0 = n" "max_file_size s0 = limit" "logged [[]] (s0, d0)" by blast
  have "max_file_size s0 \<le> quota d0" "\<forall>m \<in> set ms. length m \<le> quota d0"
    using assms(2,3) 0(2,5) by (simp_all add: same_limits_def)
  from sink_all_refines [OF 0(6) this] 0(3-5) obtain s1 d1 where
    1: "sink_all ms (s0, d0) = Some (Inr (), (s1, d1))" "base_filename s1 = base" "max_files s1 = n"
      "logged (fold (log_spec limit n) ms [[]]) (s1, d1)" by auto
  let ?runs = "packs limit [] ms"
  have segs: "fold (log_spec limit n) ms [[]] = take (n + 1) (rev (map concat ?runs))"
    using log_spec_packs [of limit n ms "[]" "[]"] by simp
  have "holds base n (take (n + 1) (rev (map concat ?runs))) d1"
    using 1(2-4) unfolding segs by (simp add: logged_def stored_def)
  then have "\<forall>i \<le> n. files d1 (calc_filename base i) = (if i < length ?runs then Some (concat (rev ?runs ! i)) else None)"
    by (simp add: holds_def rev_map)
  moreover have "\<forall>run \<in> set ?runs. length (concat run) \<le> limit \<or> (\<exists>m. run = [m])" by (rule packs_sizes) simp
  ultimately show ?thesis using 0(1) 1(1) packs_greedy [of _ limit "[]" ms] concat_packs [of limit "[]" ms]
    by (intro exI [of _ "(s0, d0)"] exI [of _ "(s1, d1)"] exI [of _ ?runs] conjI allI impI) simp_all
qed

definition demo_disk :: disk where
  "demo_disk = \<lparr>files = (\<lambda>_. None), creatable = (\<lambda>_. True), quota = 100\<rparr>"

theorem rotating_log_keeps_newest_witness:
  "\<exists>sd0 sd runs. rotating_file_sink_new ''log.txt'' 4 1 False demo_disk = (Inr (), sd0) \<and>
     sink_all [''abc'', ''d'', ''efg''] sd0 = Some (Inr (), sd) \<and> concat runs = [''abc'', ''d'', ''efg''] \<and>
     (\<forall>k. Suc k < length runs \<longrightarrow> 4 < length (concat (runs ! k)) + length (hd (runs ! Suc k))) \<and> runs \<noteq> [] \<and>
     files (snd sd) ''log.txt'' = Some (concat (last runs))"
proof -
  have c: "no_logs ''log.txt'' 1 demo_disk" "4 \<le> quota demo_disk"
    "\<forall>m \<in> set [''abc'', ''d'', ''efg'']. length m \<le> quota demo_disk"
    by (simp_all add: no_logs_def demo_disk_def names_ok_def)
  from rotating_log_keeps_newest [OF c] obtain sd0 sd runs where
    r: "rotating_file_sink_new ''log.txt'' 4 1 False demo_disk = (Inr (), sd0)"
      "sink_all [''abc'', ''d'', ''efg''] sd0 = Some (Inr (), sd)" "concat runs = [''abc'', ''d'', ''efg'']"
      "\<forall>k. Suc k < length runs \<longrightarrow> runs ! Suc k \<noteq> [] \<and> 4 < length (concat (runs ! k)) + length (hd (runs ! Suc k))"
      "\<forall>i \<le> 1. files (snd sd) (calc_filename ''log.txt'' i) = (if i < length runs then Some (concat (rev runs ! i)) else None)"
    by blast
  have ne: "runs \<noteq> []" using r(3) by auto
  have "files (snd sd) ''log.txt'' = Some (concat (rev runs ! 0))" using r(5) [rule_format, of 0] ne by simp
  moreover have "rev runs ! 0 = last runs" using ne by (simp add: rev_nth last_conv_nth)
  ultimately have "files (snd sd) ''log.txt'' = Some (concat (last runs))" by simp
  with r(1-4) ne show ?thesis by (intro exI [of _ sd0] exI [of _ sd] exI [of _ runs] conjI) simp_all
qed

section \<open>Failures\<close>

text \<open>
  Between two messages other programs may fill the disk or change what can be created; an
  exception of the sink is caught by the logger, which goes on with the next message.
\<close>

record sink_event =
  now_creatable :: "string \<Rightarrow> bool"
  now_quota :: nat
  to_log :: string

fun sink_steps :: "sink_event list \<Rightarrow> sink_disk \<Rightarrow> sink_disk option" where
  "sink_steps [] sd = Some sd"
| "sink_steps (e # es) (s, d) =
     (case sink_it (to_log e) (s, d\<lparr>creatable := now_creatable e, quota := now_quota e\<rparr>) of
        None \<Rightarrow> None
      | Some (_, sd) \<Rightarrow> sink_steps es sd)"

text \<open>The file is open, or the next message rotates before it is written.\<close>

definition writable_or_full :: "sink_disk \<Rightarrow> bool" where
  "writable_or_full = (\<lambda>(s, d).
     fd (helper s) \<and> files d (fh_filename (helper s)) \<noteq> None \<or> max_file_size s < current_size s)"

lemma try_open_cases:
  "case try_open k trunc (h, d) of (r, (h', d')) \<Rightarrow>
     (r = Inr () \<longrightarrow> fd h' \<and> files d' (fh_filename h') \<noteq> None)"
  by (induction k) (auto simp: fopen_def split: option.splits if_splits)

lemma reopen_cases:
  "case fh_reopen trunc (h, d) of (r, (h', d')) \<Rightarrow>
     (r = Inr () \<longrightarrow> fd h' \<and> files d' (fh_filename h') \<noteq> None)"
  using try_open_cases [of open_tries trunc "(fh_close h)\<lparr>fh_filename := fh_filename h\<rparr>" d]
  by (simp add: fh_reopen_def fh_open_def)

lemma rotate_files_cases:
  assumes "rotate_files (s, d) = (r, (s', d'))"
  shows "max_file_size s' = max_file_size s \<and>
    (fd (helper s') \<and> files d' (fh_filename (helper s')) \<noteq> None \<or> isl r \<and> current_size s' = current_size s)"
proof -
  let ?s = "s\<lparr>helper := fh_close (helper s)\<rparr>"
  obtain r1 d1 where l: "rotate_loop (base_filename s) (max_files s) d = (r1, d1)" by fastforce
  obtain r2 h2 d2 where h: "fh_reopen True (fh_close (helper s), d1) = (r2, (h2, d2))" by (metis prod_cases3)
  have "r2 = Inr () \<longrightarrow> fd h2 \<and> files d2 (fh_filename h2) \<noteq> None"
    using reopen_cases [of True "fh_close (helper s)" d1] by (simp add: h)
  then show ?thesis
    using assms l h by (cases r1; cases r2) (auto simp: rotate_files_def on_helper_def Let_def)
qed

lemma fh_write_cases:
  assumes "fd h" and "files d (fh_filename h) \<noteq> None"
  shows "\<exists>r d'. fh_write m (h, d) = Some (r, (h, d')) \<and> files d' (fh_filename h) \<noteq> None"
  using assms by (auto simp: fh_write_def)

lemma sink_it_writable:
  assumes "writable_or_full (s, d)"
  shows "\<exists>r sd. sink_it m (s, d) = Some (r, sd) \<and> writable_or_full sd"
proof -
  let ?s = "s\<lparr>current_size := current_size s + length m\<rparr>"
  have written: "\<exists>r sd. map_option (\<lambda>w. on_helper w s1) (fh_write m (helper s1, d1)) = Some (r, sd) \<and> writable_or_full sd"
    if "fd (helper s1)" "files d1 (fh_filename (helper s1)) \<noteq> None" for s1 d1
    using fh_write_cases [OF that, of m] that(1) by (auto simp: on_helper_def writable_or_full_def)
  show ?thesis
  proof (cases "max_file_size s < current_size s + length m")
    case False
    then have "fd (helper ?s)" "files d (fh_filename (helper ?s)) \<noteq> None"
      using assms by (auto simp: writable_or_full_def)
    from written [OF this] show ?thesis using False by (simp add: sink_it_def)
  next
    case True
    obtain r s1 d1 where r: "rotate_files (?s, d) = (r, (s1, d1))" by (metis prod_cases3)
    note c = rotate_files_cases [OF r]
    show ?thesis
    proof (cases r)
      case (Inl e)
      then have "sink_it m (s, d) = Some (Inl e, (s1, d1))" using True r by (simp add: sink_it_def)
      moreover have "writable_or_full (s1, d1)" using c True by (auto simp: writable_or_full_def)
      ultimately show ?thesis by blast
    next
      case (Inr u)
      have "fd (helper (s1\<lparr>current_size := length m\<rparr>))"
        "files d1 (fh_filename (helper (s1\<lparr>current_size := length m\<rparr>))) \<noteq> None" using c Inr by auto
      from written [OF this] show ?thesis using True r Inr by (simp add: sink_it_def)
    qed
  qed
qed

lemma sink_steps_writable: "writable_or_full sd \<Longrightarrow> \<exists>sd'. sink_steps es sd = Some sd' \<and> writable_or_full sd'"
proof (induction es arbitrary: sd)
  case (Cons e es)
  obtain s d where sd: "sd = (s, d)" by (cases sd)
  have "writable_or_full (s, d\<lparr>creatable := now_creatable e, quota := now_quota e\<rparr>)"
    using Cons.prems by (simp add: writable_or_full_def sd)
  from sink_it_writable [OF this, of "to_log e"] Cons.IH show ?case by (auto simp: sd)
qed simp

lemma rotating_file_sink_new_writable:
  assumes "rotating_file_sink_new base limit n on_open d = (Inr (), sd)"
  shows "writable_or_full sd"
proof -
  let ?s = "\<lparr>base_filename = base, max_file_size = limit, max_files = n, current_size = 0, helper = file_helper_default\<rparr>"
  obtain r h d1 where o': "fh_open base False (file_helper_default, d) = (r, (h, d1))" by (metis prod_cases3)
  have f: "r = Inr () \<longrightarrow> fd h \<and> files d1 (fh_filename h) \<noteq> None"
    using try_open_cases [of open_tries False "(fh_close file_helper_default)\<lparr>fh_filename := base\<rparr>" d] o'
    by (simp add: fh_open_def)
  show ?thesis
  proof (cases r)
    case (Inl e)
    then show ?thesis using assms o' by (simp add: rotating_file_sink_new_def on_helper_def)
  next
    case (Inr u)
    with f obtain x where x: "fd h" "files d1 (fh_filename h) = Some x" by auto
    show ?thesis
    proof (cases "on_open \<and> 0 < length x")
      case False
      then show ?thesis using assms o' Inr x
        by (auto simp: rotating_file_sink_new_def on_helper_def fh_size_def writable_or_full_def Let_def)
    next
      case True
      then have "rotate_files (?s\<lparr>helper := h, current_size := length x\<rparr>, d1) = (Inr (), sd)"
        using assms o' Inr x by (simp add: rotating_file_sink_new_def on_helper_def fh_size_def)
      moreover obtain s' d' where "sd = (s', d')" by (cases sd)
      ultimately show ?thesis
        using rotate_files_cases [of "?s\<lparr>helper := h, current_size := length x\<rparr>" d1 "Inr ()" s' d']
        by (auto simp: writable_or_full_def)
    qed
  qed
qed

text \<open>
  The sink never writes through a null \<open>FILE\<close> pointer: once its constructor has returned,
  whatever messages follow and whatever happens to the disk in between (names that can no longer
  be created, so that renaming or reopening fails, or a full disk), every message is written,
  dropped or reported by an exception.
\<close>

theorem sink_never_writes_closed:
  assumes "rotating_file_sink_new base limit n on_open d = (Inr (), sd)"
  shows "\<exists>sd'. sink_steps es sd = Some sd'"
  using sink_steps_writable [OF rotating_file_sink_new_writable [OF assms], of es] by blast

definition full_disk :: sink_event where
  "full_disk = \<lparr>now_creatable = (\<lambda>_. False), now_quota = 2, to_log = ''abc''\<rparr>"

theorem sink_never_writes_closed_witness:
  "\<exists>sd sd'. rotating_file_sink_new ''log'' 4 1 False demo_disk = (Inr (), sd) \<and>
     sink_steps [full_disk, full_disk, full_disk] sd = Some sd'"
proof -
  have "no_logs ''log'' 1 demo_disk" by (simp add: no_logs_def demo_disk_def names_ok_def)
  from rotating_file_sink_new_ok [OF this, of 4 False] obtain sd where
    sd: "rotating_file_sink_new ''log'' 4 1 False demo_disk = (Inr (), sd)" by blast
  from sink_never_writes_closed [OF this, of "[full_disk, full_disk, full_disk]"] sd show ?thesis by blast
qed

end
