(* ===== verification/SpdLogger.thy ===== *)
theory SpdLogger
  imports PatternText RotatingSink "HOL-Library.AList"
begin

text \<open>
  Loggers: \<open>spdlog/details/logger_impl.h\<close> with the base class of the sinks, \<open>sinks/base_sink.h\<close> and
  \<open>sinks/sink.h\<close>, and the registry of loggers, \<open>spdlog/details/registry.h\<close>. The only sink is the
  rotating file sink of theory RotatingSink behind its formatter (theory Sinks has the others); the
  default logger writes to the console, its sink is left out. A logger is an object of the registry's
  list of objects, so that a \<open>shared_ptr\<close> is an index. What goes to the console is kept as lines.
  Mutexes guard single operations and are left out, and so is \<open>clone\<close>, which would share the sinks of
  two loggers; flushing has no effect, since the disk of theory Fstream is written through.
\<close>

section \<open>Sinks\<close>

record file_sink =
  sink_level :: level
  sink_formatter :: pattern_formatter
  rotating :: rotating_file_sink

definition default_eol :: string where "default_eol = [CHR 0x0A]"

definition file_sink_new :: "rotating_file_sink \<Rightarrow> file_sink" where
  "file_sink_new s =
     \<lparr>sink_level = trace, sink_formatter = default_formatter_new local_time default_eol, rotating = s\<rparr>"

definition sink_should_log :: "level \<Rightarrow> file_sink \<Rightarrow> bool" where
  "sink_should_log lvl s \<longleftrightarrow> level_num (sink_level s) \<le> level_num lvl"

text \<open>\<open>base_sink::log\<close> with \<open>sink_it_\<close> of the rotating sink, which formats the message first.\<close>

definition sink_log :: "log_os \<Rightarrow> log_msg \<Rightarrow> file_sink \<times> disk \<Rightarrow> log_msg res \<times> file_sink \<times> disk" where
  "sink_log os m = (\<lambda>(s, d).
     case pattern_format os m [] (sink_formatter s) of
       Inl e \<Rightarrow> (Inl e, (s, d))
     | Inr (f, m, formatted) \<Rightarrow>
         let s = s\<lparr>sink_formatter := f\<rparr>
         in case sink_it formatted (rotating s, d) of
              None \<Rightarrow> (Inl UndefinedBehaviour, (s, d))
            | Some (Inl t, (r, d)) \<Rightarrow> (Inl (SpdlogException t), (s\<lparr>rotating := r\<rparr>, d))
            | Some (Inr _, (r, d)) \<Rightarrow> (Inr m, (s\<lparr>rotating := r\<rparr>, d)))"

section \<open>Loggers\<close>

text \<open>The error handler: the default one, or a function whose text goes to the standard output.\<close>

datatype err_handler = DefaultErrHandler | CoutHandler "string \<Rightarrow> string"

record logger =
  lg_name :: string
  lg_level :: level
  lg_flush_level :: level
  lg_sinks :: "file_sink list"
  lg_err_handler :: err_handler
  lg_last_err_time :: int

definition default_level :: level where "default_level = info"

definition logger_new :: "string \<Rightarrow> file_sink list \<Rightarrow> logger" where
  "logger_new name sinks =
     \<lparr>lg_name = name, lg_level = default_level, lg_flush_level = off, lg_sinks = sinks,
      lg_err_handler = DefaultErrHandler, lg_last_err_time = 0\<rparr>"

definition set_formatter :: "pattern_formatter \<Rightarrow> logger \<Rightarrow> logger" where
  "set_formatter f l = l\<lparr>lg_sinks := map (\<lambda>s. s\<lparr>sink_formatter := clone_formatter f\<rparr>) (lg_sinks l)\<rparr>"

definition set_pattern :: "string \<Rightarrow> pattern_time_type \<Rightarrow> logger \<Rightarrow> logger" where
  "set_pattern pat tt l = set_formatter (pattern_formatter_new pat tt default_eol) l"

definition set_level :: "level \<Rightarrow> logger \<Rightarrow> logger" where
  "set_level lvl l = l\<lparr>lg_level := lvl\<rparr>"

definition flush_on :: "level \<Rightarrow> logger \<Rightarrow> logger" where
  "flush_on lvl l = l\<lparr>lg_flush_level := lvl\<rparr>"

definition set_error_handler :: "err_handler \<Rightarrow> logger \<Rightarrow> logger" where
  "set_error_handler h l = l\<lparr>lg_err_handler := h\<rparr>"

definition should_log :: "level \<Rightarrow> logger \<Rightarrow> bool" where
  "should_log lvl l \<longleftrightarrow> level_num (lg_level l) \<le> level_num lvl"

text \<open>What surrounds a call: the system, the locale, the clock and the calling thread.\<close>

record log_env =
  env_os :: log_os
  env_fmt :: fmt_env
  env_now :: "64 word"
  env_thread :: "64 word"

text \<open>The logger's outside: the disk, the standard output and the standard error.\<close>

record log_outside =
  log_disk :: disk
  log_cout :: "string list"
  log_cerr :: "string list"

text \<open>\<open>sink_it_\<close>: an exception leaves the loop over the sinks.\<close>

fun sinks_log :: "log_os \<Rightarrow> log_msg \<Rightarrow> file_sink list \<Rightarrow> disk \<Rightarrow> log_msg res \<times> file_sink list \<times> disk" where
  "sinks_log os m [] d = (Inr m, ([], d))"
| "sinks_log os m (s # ss) d =
     (if sink_should_log (msg_level m) s then
        (case sink_log os m (s, d) of
           (Inl e, (s, d)) \<Rightarrow> (Inl e, (s # ss, d))
         | (Inr m, (s, d)) \<Rightarrow> (case sinks_log os m ss d of (r, (ss, d)) \<Rightarrow> (r, (s # ss, d))))
      else (case sinks_log os m ss d of (r, (ss, d)) \<Rightarrow> (r, (s # ss, d))))"

text \<open>The text of an exception; a failed assertion or undefined behaviour is none.\<close>

fun exception_text :: "error \<Rightarrow> string option" where
  "exception_text (FormatError s) = Some s"
| "exception_text (SpdlogException s) = Some s"
| "exception_text e = None"

definition default_err_line :: "log_tm \<Rightarrow> string \<Rightarrow> string \<Rightarrow> string" where
  "default_err_line t name msg =
     ''[*** LOG ERROR ***] ['' @ show_int (tm_year t + 1900) @ ''-'' @ pad_zeros 2 (tm_mon t + 1) @ ''-'' @ pad_zeros 2 (tm_mday t) @
     '' '' @ pad_zeros 2 (tm_hour t) @ '':'' @ pad_zeros 2 (tm_min t) @ '':'' @ pad_zeros 2 (tm_sec t) @ ''] ['' @ name @ ''] '' @ msg @ [CHR 0x0A]"

definition call_err_handler :: "log_env \<Rightarrow> string \<Rightarrow> logger \<times> log_outside \<Rightarrow> logger \<times> log_outside" where
  "call_err_handler env msg = (\<lambda>(l, w).
     case lg_err_handler l of
       CoutHandler f \<Rightarrow> (l, w\<lparr>log_cout := log_cout w @ [f msg]\<rparr>)
     | DefaultErrHandler \<Rightarrow>
         let now = secs_of (env_now env)
         in if now - lg_last_err_time l < 60 then (l, w)
            else (l\<lparr>lg_last_err_time := now\<rparr>,
                  w\<lparr>log_cerr := log_cerr w @ [default_err_line (os_localtime (env_os env) now) (lg_name l) msg]\<rparr>))"

text \<open>The part of every \<open>log\<close> inside its \<open>try\<close> once the text is there, and the handlers.\<close>

definition catch_and_handle :: "log_env \<Rightarrow> unit res \<times> logger \<times> log_outside \<Rightarrow> unit res \<times> logger \<times> log_outside" where
  "catch_and_handle env = (\<lambda>(r, lw).
     case r of
       Inr _ \<Rightarrow> (Inr (), lw)
     | Inl e \<Rightarrow> (case exception_text e of None \<Rightarrow> (Inl e, lw) | Some t \<Rightarrow> (Inr (), call_err_handler env t lw)))"

definition log_payload :: "log_env \<Rightarrow> source_loc \<Rightarrow> level \<Rightarrow> string \<Rightarrow> logger \<times> log_outside \<Rightarrow> unit res \<times> logger \<times> log_outside" where
  "log_payload env loc lvl view = (\<lambda>(l, w).
     let m = log_msg_new loc (lg_name l) lvl view (env_now env) (env_thread env)
     in case sinks_log (env_os env) m (lg_sinks l) (log_disk w) of
          (r, (sinks, d)) \<Rightarrow>
            ((case r of Inl e \<Rightarrow> Inl e | Inr _ \<Rightarrow> Inr ()), (l\<lparr>lg_sinks := sinks\<rparr>, w\<lparr>log_disk := d\<rparr>)))"

text \<open>\<open>log\<close> of a text without arguments, and of a format string with arguments.\<close>

definition log_text :: "log_env \<Rightarrow> source_loc \<Rightarrow> level \<Rightarrow> string \<Rightarrow> logger \<times> log_outside \<Rightarrow> unit res \<times> logger \<times> log_outside" where
  "log_text env loc lvl msg lw =
     (if \<not> should_log lvl (fst lw) then (Inr (), lw) else catch_and_handle env (log_payload env loc lvl msg lw))"

definition log_format ::
  "log_env \<Rightarrow> source_loc \<Rightarrow> level \<Rightarrow> string \<Rightarrow> fmt_arg list \<Rightarrow> logger \<times> log_outside \<Rightarrow> unit res \<times> logger \<times> log_outside" where
  "log_format env loc lvl format_str args lw =
     (if \<not> should_log lvl (fst lw) then (Inr (), lw)
      else catch_and_handle env
        (case vformat_to (env_fmt env) [] format_str args of
           Inl e \<Rightarrow> (Inl e, lw)
         | Inr buf \<Rightarrow> log_payload env loc lvl buf lw))"

section \<open>The registry\<close>

record registry =
  reg_objects :: "logger list"
  reg_loggers :: "(string \<times> nat) list"
  reg_formatter :: pattern_formatter
  reg_level :: level
  reg_flush_level :: level
  reg_err_handler :: "err_handler option"
  reg_default :: "nat option"
  automatic_registration :: bool

definition registry_new :: registry where
  "registry_new =
     \<lparr>reg_objects = [logger_new [] []], reg_loggers = [([], 0)], reg_formatter = default_formatter_new local_time default_eol,
      reg_level = default_level, reg_flush_level = off, reg_err_handler = None, reg_default = Some 0,
      automatic_registration = True\<rparr>"

definition object_at :: "nat \<Rightarrow> registry \<Rightarrow> logger" where
  "object_at a r = reg_objects r ! a"

definition on_object :: "nat \<Rightarrow> (logger \<Rightarrow> logger) \<Rightarrow> registry \<Rightarrow> registry" where
  "on_object a f r = r\<lparr>reg_objects := (reg_objects r)[a := f (object_at a r)]\<rparr>"

text \<open>\<open>make_shared<logger>\<close>.\<close>

definition new_object :: "logger \<Rightarrow> registry \<Rightarrow> nat \<times> registry" where
  "new_object l r = (length (reg_objects r), r\<lparr>reg_objects := reg_objects r @ [l]\<rparr>)"

definition throw_if_exists :: "string \<Rightarrow> registry \<Rightarrow> unit res" where
  "throw_if_exists name r =
     (case map_of (reg_loggers r) name of
        Some _ \<Rightarrow> Inl (SpdlogException (''logger with name '' @ [CHR 0x27] @ name @ [CHR 0x27] @ '' already exists''))
      | None \<Rightarrow> Inr ())"

definition register_logger :: "nat \<Rightarrow> registry \<Rightarrow> unit res \<times> registry" where
  "register_logger a r =
     (let name = lg_name (object_at a r)
      in case throw_if_exists name r of
           Inl e \<Rightarrow> (Inl e, r)
         | Inr _ \<Rightarrow> (Inr (), r\<lparr>reg_loggers := (name, a) # reg_loggers r\<rparr>))"

definition initialize_logger :: "nat \<Rightarrow> registry \<Rightarrow> unit res \<times> registry" where
  "initialize_logger a r =
     (let r = on_object a (set_formatter (clone_formatter (reg_formatter r))) r;
          r = (case reg_err_handler r of None \<Rightarrow> r | Some h \<Rightarrow> on_object a (set_error_handler h) r);
          r = on_object a (set_level (reg_level r)) r;
          r = on_object a (flush_on (reg_flush_level r)) r
      in if automatic_registration r then register_logger a r else (Inr (), r))"

definition registry_get :: "string \<Rightarrow> registry \<Rightarrow> nat option" where
  "registry_get name r = map_of (reg_loggers r) name"

text \<open>A loop over the registered loggers.\<close>

definition on_registered :: "(logger \<Rightarrow> logger) \<Rightarrow> registry \<Rightarrow> registry" where
  "on_registered f r = fold (\<lambda>(name, a). on_object a f) (reg_loggers r) r"

definition set_default_logger :: "nat option \<Rightarrow> registry \<Rightarrow> registry" where
  "set_default_logger new_default r =
     (let ls = (case reg_default r of None \<Rightarrow> reg_loggers r | Some a \<Rightarrow> AList.delete (lg_name (object_at a r)) (reg_loggers r));
          ls = (case new_default of None \<Rightarrow> ls | Some a \<Rightarrow> AList.update (lg_name (object_at a r)) a ls)
      in r\<lparr>reg_loggers := ls, reg_default := new_default\<rparr>)"

definition registry_set_formatter :: "pattern_formatter \<Rightarrow> registry \<Rightarrow> registry" where
  "registry_set_formatter f r = on_registered (set_formatter (clone_formatter f)) (r\<lparr>reg_formatter := f\<rparr>)"

definition registry_set_level :: "level \<Rightarrow> registry \<Rightarrow> registry" where
  "registry_set_level lvl r = (on_registered (set_level lvl) r)\<lparr>reg_level := lvl\<rparr>"

definition registry_flush_on :: "level \<Rightarrow> registry \<Rightarrow> registry" where
  "registry_flush_on lvl r = (on_registered (flush_on lvl) r)\<lparr>reg_flush_level := lvl\<rparr>"

definition registry_set_error_handler :: "err_handler \<Rightarrow> registry \<Rightarrow> registry" where
  "registry_set_error_handler h r = (on_registered (set_error_handler h) r)\<lparr>reg_err_handler := Some h\<rparr>"

definition registry_drop :: "string \<Rightarrow> registry \<Rightarrow> registry" where
  "registry_drop name r =
     r\<lparr>reg_loggers := AList.delete name (reg_loggers r),
       reg_default := (case reg_default r of
         None \<Rightarrow> None | Some a \<Rightarrow> if lg_name (object_at a r) = name then None else Some a)\<rparr>"

definition registry_drop_all :: "registry \<Rightarrow> registry" where
  "registry_drop_all r = r\<lparr>reg_loggers := [], reg_default := None\<rparr>"

definition set_automatic_registration :: "bool \<Rightarrow> registry \<Rightarrow> registry" where
  "set_automatic_registration b r = r\<lparr>automatic_registration := b\<rparr>"

text \<open>\<open>synchronous_factory::create\<close> for the rotating sink, which may throw before the logger is there.\<close>

definition rotating_logger_mt :: "string \<Rightarrow> string \<Rightarrow> nat \<Rightarrow> nat \<Rightarrow> registry \<times> disk \<Rightarrow> nat res \<times> registry \<times> disk" where
  "rotating_logger_mt name filename max_size n_files = (\<lambda>(r, d).
     case rotating_file_sink_new filename max_size n_files False d of
       (Inl e, (s, d)) \<Rightarrow> (Inl (SpdlogException e), (r, d))
     | (Inr _, (s, d)) \<Rightarrow>
         (case new_object (logger_new name [file_sink_new s]) r of
            (a, r) \<Rightarrow>
              (case initialize_logger a r of
                 (Inl e, r) \<Rightarrow> (Inl e, (r, d))
               | (Inr _, r) \<Rightarrow> (Inr a, (r, d)))))"

section \<open>The names in the registry\<close>

text \<open>Every name is registered once, and for an object of that name.\<close>

definition registry_ok :: "registry \<Rightarrow> bool" where
  "registry_ok r \<longleftrightarrow>
     distinct (map fst (reg_loggers r)) \<and>
     (\<forall>(name, a) \<in> set (reg_loggers r). a < length (reg_objects r) \<and> lg_name (object_at a r) = name) \<and>
     (\<forall>a. reg_default r = Some a \<longrightarrow> a < length (reg_objects r))"

text \<open>Changes of objects that keep their names.\<close>

definition keeps_name :: "(logger \<Rightarrow> logger) \<Rightarrow> bool" where
  "keeps_name f \<longleftrightarrow> (\<forall>l. lg_name (f l) = lg_name l)"

lemma keeps_names [simp]:
  "keeps_name (set_formatter f)" "keeps_name (set_level lvl)" "keeps_name (flush_on lvl)" "keeps_name (set_error_handler h)"
  by (simp_all add: keeps_name_def set_formatter_def set_level_def flush_on_def set_error_handler_def)

definition same_names :: "registry \<Rightarrow> registry \<Rightarrow> bool" where
  "same_names r r' \<longleftrightarrow>
     map lg_name (reg_objects r') = map lg_name (reg_objects r) \<and> reg_loggers r' = reg_loggers r \<and> reg_default r' = reg_default r"

lemma same_names_refl [simp]: "same_names r r"
  by (simp add: same_names_def)

lemma same_names_trans: "same_names r r' \<Longrightarrow> same_names r' r'' \<Longrightarrow> same_names r r''"
  by (simp add: same_names_def)

lemma same_names_length:
  assumes "same_names r r'"
  shows "length (reg_objects r') = length (reg_objects r)"
proof -
  have "length (map lg_name (reg_objects r')) = length (map lg_name (reg_objects r))" using assms by (simp add: same_names_def)
  then show ?thesis by simp
qed

lemma same_names_ok:
  assumes "same_names r r'" and "registry_ok r"
  shows "registry_ok r'"
proof -
  note l = same_names_length [OF assms(1)]
  have "lg_name (object_at a r') = lg_name (object_at a r)" if "a < length (reg_objects r)" for a
  proof -
    have "map lg_name (reg_objects r') ! a = map lg_name (reg_objects r) ! a" using assms(1) by (simp add: same_names_def)
    with that l show ?thesis by (simp add: object_at_def)
  qed
  moreover have "reg_loggers r' = reg_loggers r" "reg_default r' = reg_default r" using assms(1) by (simp_all add: same_names_def)
  ultimately show ?thesis using assms(2) l unfolding registry_ok_def by (metis (no_types, lifting) case_prodI2 case_prodD)
qed

lemma on_object_same_names: "keeps_name f \<Longrightarrow> same_names r (on_object a f r)"
  by (cases "a < length (reg_objects r)")
    (auto simp: same_names_def on_object_def object_at_def keeps_name_def list_eq_iff_nth_eq nth_list_update)

lemma on_registered_same_names: "keeps_name f \<Longrightarrow> same_names r (on_registered f r)"
proof -
  assume f: "keeps_name f"
  have "same_names r (fold (\<lambda>(name, a). on_object a f) ls r)" for ls
  proof (induction ls arbitrary: r)
    case (Cons l ls)
    obtain n a where "l = (n, a)" by (cases l)
    with Cons.IH [of "on_object a f r"] on_object_same_names [OF f, of r a] show ?case by (auto intro: same_names_trans)
  qed simp
  then show ?thesis by (simp add: on_registered_def)
qed

lemma initialize_logger_cases:
  obtains r1 where "same_names r r1" and "initialize_logger a r = (Inr (), r1) \<or> initialize_logger a r = register_logger a r1"
proof -
  let ?r1 = "on_object a (set_formatter (clone_formatter (reg_formatter r))) r"
  let ?r2 = "case reg_err_handler ?r1 of None \<Rightarrow> ?r1 | Some h \<Rightarrow> on_object a (set_error_handler h) ?r1"
  let ?r3 = "on_object a (set_level (reg_level ?r2)) ?r2"
  let ?r4 = "on_object a (flush_on (reg_flush_level ?r3)) ?r3"
  have "same_names r ?r1" by (rule on_object_same_names) simp
  moreover have "same_names ?r1 ?r2" by (cases "reg_err_handler ?r1") (simp_all add: on_object_same_names)
  moreover have "same_names ?r2 ?r3" "same_names ?r3 ?r4" by (simp_all add: on_object_same_names)
  ultimately have "same_names r ?r4" by (blast intro: same_names_trans)
  then show thesis by (rule that) (simp add: initialize_logger_def Let_def)
qed

lemma register_logger_ok:
  assumes "registry_ok r" and "a < length (reg_objects r)"
  shows "registry_ok (snd (register_logger a r))"
  using assms
  by (auto simp: register_logger_def throw_if_exists_def registry_ok_def object_at_def Let_def map_of_eq_None_iff split: option.splits)

lemma initialize_logger_ok:
  assumes "registry_ok r" and "a < length (reg_objects r)"
  shows "registry_ok (snd (initialize_logger a r))"
proof -
  obtain r1 where r1: "same_names r r1" "initialize_logger a r = (Inr (), r1) \<or> initialize_logger a r = register_logger a r1"
    by (rule initialize_logger_cases)
  have ok: "registry_ok r1" by (rule same_names_ok [OF r1(1) assms(1)])
  have "a < length (reg_objects r1)" using same_names_length [OF r1(1)] assms(2) by simp
  from register_logger_ok [OF ok this] ok r1(2) show ?thesis by auto
qed

lemma delete_subset: "set (AList.delete k ls) \<subseteq> set ls"
  by (auto simp: AList.delete_eq)

lemma set_default_logger_ok:
  assumes "registry_ok r" and "\<forall>a. new_default = Some a \<longrightarrow> a < length (reg_objects r)"
  shows "registry_ok (set_default_logger new_default r)"
proof -
  have del: "registry_ok (r\<lparr>reg_loggers := AList.delete k (reg_loggers r)\<rparr>)" for k
    using assms(1) delete_subset [of k "reg_loggers r"]
    by (fastforce simp: registry_ok_def object_at_def intro: distinct_delete)
  define ls where "ls = (case reg_default r of None \<Rightarrow> reg_loggers r | Some a \<Rightarrow> AList.delete (lg_name (object_at a r)) (reg_loggers r))"
  have ls: "registry_ok (r\<lparr>reg_loggers := ls\<rparr>)" using assms(1) del by (cases "reg_default r") (simp_all add: ls_def)
  show ?thesis
  proof (cases new_default)
    case None
    with ls show ?thesis by (simp add: set_default_logger_def ls_def [symmetric] registry_ok_def object_at_def)
  next
    case (Some a)
    let ?n = "lg_name (object_at a r)"
    have "(n, b) = (?n, a) \<or> (n, b) \<in> set ls" if "(n, b) \<in> set (AList.update ?n a ls)" for n b
      using that by (induction ls) (auto split: if_splits)
    moreover have "distinct (map fst (AList.update ?n a ls))"
      using ls by (intro distinct_update) (simp add: registry_ok_def)
    ultimately show ?thesis
      using ls assms(2) Some by (fastforce simp: set_default_logger_def ls_def [symmetric] registry_ok_def object_at_def)
  qed
qed

text \<open>Everything a program can do to the registry; a \<open>shared_ptr\<close> points to an object that was made.\<close>

inductive registry_reachable :: "registry \<Rightarrow> bool" where
  start: "registry_reachable registry_new"
| made: "registry_reachable r \<Longrightarrow> registry_reachable (snd (new_object l r))"
| registered: "registry_reachable r \<Longrightarrow> a < length (reg_objects r) \<Longrightarrow> registry_reachable (snd (register_logger a r))"
| initialized: "registry_reachable r \<Longrightarrow> a < length (reg_objects r) \<Longrightarrow> registry_reachable (snd (initialize_logger a r))"
| default_set: "registry_reachable r \<Longrightarrow> \<forall>a. d = Some a \<longrightarrow> a < length (reg_objects r) \<Longrightarrow>
    registry_reachable (set_default_logger d r)"
| formatter_set: "registry_reachable r \<Longrightarrow> registry_reachable (registry_set_formatter f r)"
| level_set: "registry_reachable r \<Longrightarrow> registry_reachable (registry_set_level lvl r)"
| flush_set: "registry_reachable r \<Longrightarrow> registry_reachable (registry_flush_on lvl r)"
| handler_set: "registry_reachable r \<Longrightarrow> registry_reachable (registry_set_error_handler h r)"
| dropped: "registry_reachable r \<Longrightarrow> registry_reachable (registry_drop name r)"
| all_dropped: "registry_reachable r \<Longrightarrow> registry_reachable (registry_drop_all r)"
| automatic_set: "registry_reachable r \<Longrightarrow> registry_reachable (set_automatic_registration b r)"
| object_changed: "registry_reachable r \<Longrightarrow> keeps_name f \<Longrightarrow> registry_reachable (on_object a f r)"

lemma registry_reachable_ok: "registry_reachable r \<Longrightarrow> registry_ok r"
proof (induction rule: registry_reachable.induct)
  case start
  show ?case by (simp add: registry_ok_def registry_new_def object_at_def logger_new_def)
next
  case (made r l)
  then show ?case by (fastforce simp: registry_ok_def new_object_def object_at_def nth_append)
next
  case (registered r a)
  then show ?case by (simp add: register_logger_ok)
next
  case (initialized r a)
  then show ?case by (simp add: initialize_logger_ok)
next
  case (default_set r d)
  then show ?case by (simp add: set_default_logger_ok)
next
  case (formatter_set r f)
  have "registry_ok (r\<lparr>reg_formatter := f\<rparr>)" using formatter_set.IH by (simp add: registry_ok_def object_at_def)
  then show ?case unfolding registry_set_formatter_def by (rule same_names_ok [OF on_registered_same_names, rotated]) simp
next
  case (level_set r lvl)
  have "registry_ok (on_registered (set_level lvl) r)" by (rule same_names_ok [OF on_registered_same_names level_set.IH]) simp
  then show ?case by (simp add: registry_set_level_def registry_ok_def object_at_def)
next
  case (flush_set r lvl)
  have "registry_ok (on_registered (flush_on lvl) r)" by (rule same_names_ok [OF on_registered_same_names flush_set.IH]) simp
  then show ?case by (simp add: registry_flush_on_def registry_ok_def object_at_def)
next
  case (handler_set r h)
  have "registry_ok (on_registered (set_error_handler h) r)"
    by (rule same_names_ok [OF on_registered_same_names handler_set.IH]) simp
  then show ?case by (simp add: registry_set_error_handler_def registry_ok_def object_at_def)
next
  case (dropped r name)
  then show ?case using delete_subset [of name "reg_loggers r"]
    by (fastforce simp: registry_ok_def registry_drop_def object_at_def intro: distinct_delete split: option.splits if_splits)
next
  case (all_dropped r)
  then show ?case by (simp add: registry_ok_def registry_drop_all_def)
next
  case (automatic_set r b)
  then show ?case by (simp add: set_automatic_registration_def registry_ok_def object_at_def)
next
  case (object_changed r f a)
  then show ?case by (blast intro: same_names_ok on_object_same_names)
qed

lemma initialize_logger_existing:
  assumes "a < length (reg_objects r)" and "automatic_registration r" and "registry_get (lg_name (object_at a r)) r \<noteq> None"
  shows "\<exists>e r'. initialize_logger a r = (Inl (SpdlogException e), r') \<and> reg_loggers r' = reg_loggers r"
proof -
  define r4 where "r4 = (let r = on_object a (set_formatter (clone_formatter (reg_formatter r))) r;
      r = (case reg_err_handler r of None \<Rightarrow> r | Some h \<Rightarrow> on_object a (set_error_handler h) r);
      r = on_object a (set_level (reg_level r)) r in on_object a (flush_on (reg_flush_level r)) r)"
  have "reg_loggers r4 = reg_loggers r" "automatic_registration r4" "lg_name (object_at a r4) = lg_name (object_at a r)"
    using assms(1,2) by (simp_all add: r4_def on_object_def object_at_def set_formatter_def set_level_def flush_on_def
        set_error_handler_def Let_def split: option.split)
  moreover have "initialize_logger a r = (if automatic_registration r4 then register_logger a r4 else (Inr (), r4))"
    by (simp only: initialize_logger_def r4_def Let_def)
  ultimately show ?thesis using assms(3) by (auto simp: register_logger_def throw_if_exists_def registry_get_def Let_def)
qed

section \<open>Properties\<close>

text \<open>
  C14. However the registry is used, every name is registered at most once and leads to a logger of that
  name. Registering a logger under a name that is taken, with \<open>register_logger\<close> or at the end of
  \<open>initialize_logger\<close>, throws and leaves the names as they are, where the comment at the head of the
  registry says that the attempt is ignored. (\<open>set_default_logger\<close> replaces the logger of a taken name.)
\<close>

theorem logger_names_unique:
  assumes "registry_reachable r"
  shows "distinct (map fst (reg_loggers r)) \<and>
    (\<forall>name a. registry_get name r = Some a \<longrightarrow> a < length (reg_objects r) \<and> lg_name (object_at a r) = name) \<and>
    (\<forall>a < length (reg_objects r). automatic_registration r \<and> registry_get (lg_name (object_at a r)) r \<noteq> None \<longrightarrow>
      (\<exists>e r'. initialize_logger a r = (Inl (SpdlogException e), r') \<and> reg_loggers r' = reg_loggers r)) \<and>
    (\<forall>a. registry_get (lg_name (object_at a r)) r \<noteq> None \<longrightarrow> (\<exists>e. register_logger a r = (Inl (SpdlogException e), r)))"
proof -
  have "registry_ok r" using assms by (rule registry_reachable_ok)
  then have "distinct (map fst (reg_loggers r))"
    "\<forall>name a. registry_get name r = Some a \<longrightarrow> a < length (reg_objects r) \<and> lg_name (object_at a r) = name"
    by (auto simp: registry_ok_def registry_get_def dest!: map_of_SomeD)
  moreover have "\<exists>e. register_logger a r = (Inl (SpdlogException e), r)" if "registry_get (lg_name (object_at a r)) r \<noteq> None" for a
    using that by (auto simp: register_logger_def throw_if_exists_def registry_get_def Let_def)
  ultimately show ?thesis using initialize_logger_existing by blast
qed

theorem logger_names_unique_witness:
  "\<exists>e r'. initialize_logger 2 (snd (new_object (logger_new ''a'' []) (snd (initialize_logger 1 (snd (new_object (logger_new ''a'' []) registry_new)))))) =
     (Inl (SpdlogException e), r') \<and> map fst (reg_loggers r') = [''a'', []]"
proof -
  let ?r1 = "snd (new_object (logger_new ''a'' []) registry_new)"
  let ?r2 = "snd (initialize_logger 1 ?r1)"
  let ?r3 = "snd (new_object (logger_new ''a'' []) ?r2)"
  have r1: "registry_reachable ?r1" by (intro registry_reachable.intros)
  have "1 < length (reg_objects ?r1)" by (simp add: new_object_def registry_new_def)
  then have "registry_reachable ?r3" by (intro registry_reachable.intros r1)
  from logger_names_unique [OF this] have
    "\<forall>a < length (reg_objects ?r3). automatic_registration ?r3 \<and> registry_get (lg_name (object_at a ?r3)) ?r3 \<noteq> None \<longrightarrow>
      (\<exists>e r'. initialize_logger a ?r3 = (Inl (SpdlogException e), r') \<and> reg_loggers r' = reg_loggers ?r3)" by blast
  moreover have "2 < length (reg_objects ?r3)" "automatic_registration ?r3" "registry_get (lg_name (object_at 2 ?r3)) ?r3 \<noteq> None"
    "map fst (reg_loggers ?r3) = [''a'', []]"
    by (simp_all add: new_object_def registry_new_def initialize_logger_def on_object_def object_at_def register_logger_def
        throw_if_exists_def registry_get_def logger_new_def set_formatter_def set_level_def flush_on_def Let_def)
  ultimately show ?thesis by metis
qed

end
