(* ===== verification/Logging.thy ===== *)
theory Logging
  imports SpdLogger
begin

text \<open>
  The program's logger: \<open>src/common/singleton.h\<close> and \<open>src/log/logger.h\<close>, on the loggers, the registry and
  the rotating sink of the logging library. The instance of a singleton is an optional value in the
  state; the logger it holds is an object of the registry. What \<open>SpdlogErrCallback\<close> prints is kept.
  A release build, the default of the build files, compiles the assertion of \<open>Instance\<close> out: a macro
  before \<open>GetInstance\<close> then goes on with a null pointer, where the model stops.
\<close>

section \<open>Singleton\<close>

text \<open>\<open>build\<close> is the constructor call; when it throws the instance stays null.\<close>

definition GetInstance :: "('s \<Rightarrow> ('e + 'a) \<times> 's) \<Rightarrow> 'a option \<times> 's \<Rightarrow> ('e + 'a) \<times> 'a option \<times> 's" where
  "GetInstance build = (\<lambda>(inst, s).
     case inst of
       Some x \<Rightarrow> (Inr x, (inst, s))
     | None \<Rightarrow>
         (case build s of
            (Inl e, s) \<Rightarrow> (Inl e, (None, s))
          | (Inr x, s) \<Rightarrow> (Inr x, (Some x, s))))"

definition Instance :: "'a option \<Rightarrow> 'a res" where
  "Instance inst = (case inst of Some x \<Rightarrow> Inr x | None \<Rightarrow> Inl AssertFailed)"

section \<open>The logger\<close>

definition SpdlogErrCallback :: "string \<Rightarrow> string" where
  "SpdlogErrCallback err_msg = ''SpdlogErrCallback err_msg:'' @ err_msg"

definition log_pattern :: string where "log_pattern = ''[thread-%t]%+''"

text \<open>The sizes are \<open>int\<close> parameters, converted to \<open>size_t\<close> with their sign.\<close>

definition log_size :: "32 word \<Rightarrow> nat" where
  "log_size n = unat (scast n :: 64 word)"

definition MyLogger_new ::
  "string \<Rightarrow> string \<Rightarrow> 32 word \<Rightarrow> 32 word \<Rightarrow> registry \<times> disk \<Rightarrow> nat res \<times> registry \<times> disk" where
  "MyLogger_new name filename max_size n_files rd =
     (case rotating_logger_mt name filename (log_size max_size) (log_size n_files) rd of
        (Inl e, rd) \<Rightarrow> (Inl e, rd)
      | (Inr a, (r, d)) \<Rightarrow>
          (let r = on_object a (set_error_handler (CoutHandler SpdlogErrCallback)) r;
               r = on_object a (set_pattern log_pattern local_time) r;
               r = on_object a (set_level debug) r
           in (Inr a, (r, d))))"

text \<open>One call of the macros \<open>LOG_TRACE\<close> to \<open>LOG_CRITICAL\<close>, and the state they work on.\<close>

record log_call =
  call_env :: log_env
  call_level :: level
  call_format :: string
  call_args :: "fmt_arg list"

record log_world =
  the_logger :: "nat option"
  the_registry :: registry
  the_outside :: log_outside

text \<open>Without arguments the overload for a plain text is the better one.\<close>

definition LOG :: "log_call \<Rightarrow> log_world \<Rightarrow> unit res \<times> log_world" where
  "LOG c w =
     (case Instance (the_logger w) of
        Inl e \<Rightarrow> (Inl e, w)
      | Inr a \<Rightarrow>
          (case (if call_args c = [] then log_text (call_env c) no_source (call_level c) (call_format c)
                 else log_format (call_env c) no_source (call_level c) (call_format c) (call_args c))
                (object_at a (the_registry w), the_outside w) of
             (r, (l, out)) \<Rightarrow> (r, w\<lparr>the_registry := on_object a (\<lambda>_. l) (the_registry w), the_outside := out\<rparr>)))"

fun LOG_all :: "log_call list \<Rightarrow> log_world \<Rightarrow> unit res \<times> log_world" where
  "LOG_all [] w = (Inr (), w)"
| "LOG_all (c # cs) w = (case LOG c w of (Inl e, w) \<Rightarrow> (Inl e, w) | (Inr _, w) \<Rightarrow> LOG_all cs w)"

text \<open>Calls between which other programs work on the disk, each as a change of it.\<close>

fun LOG_events :: "((disk \<Rightarrow> disk) \<times> log_call) list \<Rightarrow> log_world \<Rightarrow> unit res \<times> log_world" where
  "LOG_events [] w = (Inr (), w)"
| "LOG_events ((change, c) # es) w =
     (case LOG c (w\<lparr>the_outside := (the_outside w)\<lparr>log_disk := change (log_disk (the_outside w))\<rparr>\<rparr>) of
        (Inl e, w) \<Rightarrow> (Inl e, w)
      | (Inr _, w) \<Rightarrow> LOG_events es w)"

text \<open>A change of the disk that removes no file. (A file that is removed while it is open goes on existing
  for its writer, which the disk of theory Fstream does not have.)\<close>

definition removes_nothing :: "(disk \<Rightarrow> disk) \<Rightarrow> bool" where
  "removes_nothing change \<longleftrightarrow> (\<forall>d name. files d name \<noteq> None \<longrightarrow> files (change d) name \<noteq> None)"

section \<open>The logger of the program\<close>

text \<open>The object that \<open>MyLogger\<close> makes, on the sink \<open>s\<close>.\<close>

definition my_logger :: "string \<Rightarrow> file_sink \<Rightarrow> logger" where
  "my_logger name s =
     \<lparr>lg_name = name, lg_level = debug, lg_flush_level = off, lg_sinks = [s], lg_err_handler = CoutHandler SpdlogErrCallback,
      lg_last_err_time = 0\<rparr>"

definition new_file_sink :: "rotating_file_sink \<Rightarrow> file_sink" where
  "new_file_sink rs =
     \<lparr>sink_level = trace, sink_formatter = pattern_formatter_new log_pattern local_time default_eol, rotating = rs\<rparr>"

lemma registry_new_get: "name \<noteq> [] \<Longrightarrow> map_of (reg_loggers registry_new) name = None"
  by (simp add: registry_new_def)

lemma MyLogger_new_made:
  assumes "name \<noteq> []" and "rotating_file_sink_new filename (log_size max_size) (log_size n_files) False d = (Inr (), (rs, d'))"
  shows "\<exists>r. MyLogger_new name filename max_size n_files (registry_new, d) = (Inr 1, (r, d')) \<and>
    length (reg_objects r) = 2 \<and> object_at 1 r = my_logger name (new_file_sink rs)"
proof -
  have "\<exists>r. rotating_logger_mt name filename (log_size max_size) (log_size n_files) (registry_new, d) = (Inr 1, (r, d')) \<and>
    length (reg_objects r) = 2 \<and>
    object_at 1 r = (set_level info (set_formatter (clone_formatter (default_formatter_new local_time default_eol))
      (logger_new name [file_sink_new rs])))"
    using assms
    by (simp add: rotating_logger_mt_def new_object_def initialize_logger_def register_logger_def throw_if_exists_def
        on_object_def object_at_def registry_new_def set_level_def flush_on_def set_formatter_def logger_new_def
        default_level_def Let_def)
  then obtain r where r: "rotating_logger_mt name filename (log_size max_size) (log_size n_files) (registry_new, d) = (Inr 1, (r, d'))"
    "length (reg_objects r) = 2"
    "object_at 1 r = (set_level info (set_formatter (clone_formatter (default_formatter_new local_time default_eol))
      (logger_new name [file_sink_new rs])))" by blast
  then show ?thesis
    by (simp add: MyLogger_new_def on_object_def object_at_def Let_def my_logger_def new_file_sink_def set_level_def
        set_pattern_def set_formatter_def set_error_handler_def logger_new_def file_sink_new_def clone_formatter_def
        pattern_formatter_new_def)
qed

lemma MyLogger_new_failed:
  assumes "rotating_file_sink_new filename (log_size max_size) (log_size n_files) False d = (Inl e, (rs, d'))"
  shows "MyLogger_new name filename max_size n_files (r, d) = (Inl (SpdlogException e), (r, d'))"
  using assms by (simp add: MyLogger_new_def rotating_logger_mt_def)

text \<open>The registry has a default logger without a name from the start.\<close>

lemma MyLogger_new_unnamed:
  "\<exists>e rd. MyLogger_new [] filename max_size n_files (registry_new, d) = (Inl (SpdlogException e), rd)"
proof (cases "rotating_file_sink_new filename (log_size max_size) (log_size n_files) False d")
  case (fields res rs d')
  show ?thesis
  proof (cases res)
    case (Inl e)
    with fields show ?thesis using MyLogger_new_failed by blast
  next
    case (Inr u)
    with fields show ?thesis
      by (simp add: MyLogger_new_def rotating_logger_mt_def new_object_def initialize_logger_def register_logger_def throw_if_exists_def
        on_object_def object_at_def registry_new_def set_level_def flush_on_def set_formatter_def logger_new_def Let_def)
  qed
qed

section \<open>Logging never stops the program\<close>

definition thrown :: "'a res \<Rightarrow> bool" where
  "thrown r \<longleftrightarrow> (\<exists>e t. r = Inl e \<and> exception_text e = Some t)"

definition sink_ready :: "file_sink \<times> disk \<Rightarrow> bool" where
  "sink_ready = (\<lambda>(s, d). formatter_ok (sink_formatter s) \<and> writable_or_full (rotating s, d))"

lemma sink_log_ready:
  assumes "os_ok os" and "sink_ready (s, d)"
  shows "\<exists>r s' d'. sink_log os m (s, d) = (r, (s', d')) \<and> sink_ready (s', d') \<and> (thrown r \<or> (\<exists>m'. r = Inr m'))"
proof -
  obtain f' m' x where f: "pattern_format os m [] (sink_formatter s) = Inr (f', m', x)" "formatter_ok f'"
    using pattern_format_total [OF assms(1), of "sink_formatter s" m "[]"] assms(2) by (auto simp: sink_ready_def)
  from sink_it_writable [of "rotating s" d x] assms(2) obtain q rs d' where
    k: "sink_it x (rotating s, d) = Some (q, (rs, d'))" "writable_or_full (rs, d')" by (auto simp: sink_ready_def)
  show ?thesis
    using f k by (cases q) (auto simp: sink_log_def sink_ready_def thrown_def)
qed

definition logger_ready :: "logger \<times> log_outside \<Rightarrow> bool" where
  "logger_ready = (\<lambda>(l, w). \<exists>s. lg_sinks l = [s] \<and> sink_ready (s, log_disk w))"

lemma call_err_handler_ready: "logger_ready lw \<Longrightarrow> logger_ready (call_err_handler env t lw)"
  by (cases lw) (auto simp: call_err_handler_def logger_ready_def Let_def split: err_handler.split)

lemma catch_and_handle_ready:
  assumes "logger_ready lw" and "thrown r \<or> r = Inr ()"
  shows "\<exists>lw'. catch_and_handle env (r, lw) = (Inr (), lw') \<and> logger_ready lw'"
  using assms(2)
proof
  assume "thrown r"
  then obtain e t where "r = Inl e" "exception_text e = Some t" by (auto simp: thrown_def)
  then show ?thesis using call_err_handler_ready [OF assms(1), of env t]
    by (intro exI [of _ "call_err_handler env t lw"]) (simp add: catch_and_handle_def)
qed (use assms(1) in \<open>auto simp: catch_and_handle_def simp del: split_paired_Ex\<close>)

lemma log_payload_ready:
  assumes "os_ok (env_os env)" and "logger_ready (l, w)"
  shows "\<exists>r lw'. log_payload env loc lvl view (l, w) = (r, lw') \<and> logger_ready lw' \<and> (thrown r \<or> r = Inr ())"
proof -
  obtain s where s: "lg_sinks l = [s]" "sink_ready (s, log_disk w)" using assms(2) by (auto simp: logger_ready_def)
  let ?m = "log_msg_new loc (lg_name l) lvl view (env_now env) (env_thread env)"
  from sink_log_ready [OF assms(1) s(2), of ?m] obtain r s' d' where
    r: "sink_log (env_os env) ?m (s, log_disk w) = (r, (s', d'))" "sink_ready (s', d')" "thrown r \<or> (\<exists>m'. r = Inr m')" by blast
  show ?thesis
  proof (cases "sink_should_log lvl s")
    case True
    then show ?thesis using s(1) r
      by (cases r) (auto simp: log_payload_def logger_ready_def thrown_def log_msg_new_def)
  next
    case False
    then show ?thesis using s by (auto simp: log_payload_def logger_ready_def log_msg_new_def)
  qed
qed

lemma log_text_ready:
  assumes "os_ok (env_os env)" and "logger_ready lw"
  shows "\<exists>lw'. log_text env loc lvl msg lw = (Inr (), lw') \<and> logger_ready lw'"
proof -
  obtain l w where lw: "lw = (l, w)" by (cases lw)
  from log_payload_ready [OF assms(1) assms(2) [unfolded lw]] obtain r lw' where
    r: "log_payload env loc lvl msg (l, w) = (r, lw')" "logger_ready lw'" "thrown r \<or> r = Inr ()" by blast
  from catch_and_handle_ready [OF r(2,3), of env] r(1) assms(2) show ?thesis by (auto simp: log_text_def lw)
qed

lemma log_format_ready:
  assumes "os_ok (env_os env)" and "logger_ready lw"
  shows "\<exists>lw'. log_format env loc lvl format_str args lw = (Inr (), lw') \<and> logger_ready lw'"
proof -
  obtain l w where lw: "lw = (l, w)" by (cases lw)
  consider buf where "vformat_to (env_fmt env) [] format_str args = Inr buf"
    | t where "vformat_to (env_fmt env) [] format_str args = Inl (FormatError t)"
    using vformat_ok fmt_ok_cases by blast
  then show ?thesis
  proof cases
    case (1 buf)
    from log_payload_ready [OF assms(1) assms(2) [unfolded lw]] obtain r lw' where
      r: "log_payload env loc lvl buf (l, w) = (r, lw')" "logger_ready lw'" "thrown r \<or> r = Inr ()" by blast
    from catch_and_handle_ready [OF r(2,3), of env] r(1) assms(2) 1 show ?thesis by (auto simp: log_format_def lw)
  next
    case (2 t)
    have "thrown (Inl (FormatError t) :: unit res)" by (simp add: thrown_def)
    from catch_and_handle_ready [OF assms(2), of "Inl (FormatError t)" env] this assms(2) 2 show ?thesis
      by (auto simp: log_format_def simp del: split_paired_Ex)
  qed
qed

definition log_ready :: "log_world \<Rightarrow> bool" where
  "log_ready w \<longleftrightarrow>
     (\<exists>a. the_logger w = Some a \<and> a < length (reg_objects (the_registry w)) \<and>
       logger_ready (object_at a (the_registry w), the_outside w))"

lemma LOG_ready:
  assumes "log_ready w" and "os_ok (env_os (call_env c))"
  shows "\<exists>w'. LOG c w = (Inr (), w') \<and> log_ready w'"
proof -
  obtain a where a: "the_logger w = Some a" "a < length (reg_objects (the_registry w))"
    "logger_ready (object_at a (the_registry w), the_outside w)"
    using assms(1) by (auto simp: log_ready_def)
  let ?lw = "(object_at a (the_registry w), the_outside w)"
  let ?r = "if call_args c = [] then log_text (call_env c) no_source (call_level c) (call_format c) ?lw
    else log_format (call_env c) no_source (call_level c) (call_format c) (call_args c) ?lw"
  have "\<exists>lw'. ?r = (Inr (), lw') \<and> logger_ready lw'"
    using log_text_ready [OF assms(2) a(3)] log_format_ready [OF assms(2) a(3)] by (cases "call_args c = []") simp_all
  then obtain l out where r: "?r = (Inr (), (l, out))" "logger_ready (l, out)" by (metis surj_pair)
  have "LOG c w = (Inr (), w\<lparr>the_registry := on_object a (\<lambda>_. l) (the_registry w), the_outside := out\<rparr>)"
    using r(1) a(1) by (cases "call_args c = []") (simp_all add: LOG_def Instance_def)
  moreover have "log_ready (w\<lparr>the_registry := on_object a (\<lambda>_. l) (the_registry w), the_outside := out\<rparr>)"
    using a(1,2) r(2) by (simp add: log_ready_def on_object_def object_at_def)
  ultimately show ?thesis by blast
qed

lemma log_ready_change:
  assumes "log_ready w" and "removes_nothing change"
  shows "log_ready (w\<lparr>the_outside := (the_outside w)\<lparr>log_disk := change (log_disk (the_outside w))\<rparr>\<rparr>)"
proof -
  have "writable_or_full (s, d) \<Longrightarrow> writable_or_full (s, change d)" for s d
    using assms(2) by (auto simp: writable_or_full_def removes_nothing_def)
  then have "logger_ready (l, out) \<Longrightarrow> logger_ready (l, out\<lparr>log_disk := change (log_disk out)\<rparr>)" for l out
    by (auto simp: logger_ready_def sink_ready_def)
  with assms(1) show ?thesis by (auto simp: log_ready_def)
qed

lemma LOG_events_ready:
  "log_ready w \<Longrightarrow> \<forall>(change, c) \<in> set es. removes_nothing change \<and> os_ok (env_os (call_env c)) \<Longrightarrow>
     \<exists>w'. LOG_events es w = (Inr (), w') \<and> log_ready w'"
proof (induction es arbitrary: w)
  case (Cons e es)
  obtain change c where e: "e = (change, c)" by (cases e)
  let ?w = "w\<lparr>the_outside := (the_outside w)\<lparr>log_disk := change (log_disk (the_outside w))\<rparr>\<rparr>"
  have "log_ready ?w" using log_ready_change Cons.prems by (simp add: e)
  moreover have "os_ok (env_os (call_env c))" using Cons.prems(2) by (simp add: e)
  ultimately obtain w1 where "LOG c ?w = (Inr (), w1)" "log_ready w1" using LOG_ready by blast
  with Cons.IH [of w1] Cons.prems(2) show ?case by (simp add: e)
qed simp

lemma MyLogger_new_ready:
  assumes "MyLogger_new name filename max_size n_files (registry_new, d) = (Inr a, (r, d'))"
  shows "a < length (reg_objects r) \<and> logger_ready (object_at a r, \<lparr>log_disk = d', log_cout = out, log_cerr = err'\<rparr>)"
proof -
  have name: "name \<noteq> []" using assms MyLogger_new_unnamed [of filename max_size n_files d] by fastforce
  obtain q rs d1 where q: "rotating_file_sink_new filename (log_size max_size) (log_size n_files) False d = (q, (rs, d1))"
    by (metis prod_cases3)
  show ?thesis
  proof (cases q)
    case (Inl e)
    with assms q show ?thesis by (simp add: MyLogger_new_failed)
  next
    case (Inr u)
    from MyLogger_new_made [OF name] q Inr assms have
      "a = 1" "d' = d1" "length (reg_objects r) = 2" "object_at 1 r = my_logger name (new_file_sink rs)" by fastforce+
    moreover have "writable_or_full (rs, d1)" by (rule rotating_file_sink_new_writable) (use q Inr in simp)
    ultimately show ?thesis
      by (simp add: logger_ready_def my_logger_def sink_ready_def new_file_sink_def new_formatter_ok)
  qed
qed

section \<open>What the log file holds\<close>

definition call_enabled :: "log_call \<Rightarrow> bool" where
  "call_enabled c \<longleftrightarrow> level_num debug \<le> level_num (call_level c)"

definition call_text :: "log_call \<Rightarrow> string res" where
  "call_text c =
     (if call_args c = [] then Inr (call_format c) else vformat_to (env_fmt (call_env c)) [] (call_format c) (call_args c))"

lemma call_text_ok: "fmt_ok (call_text c)"
  by (simp add: call_text_def vformat_ok)

definition call_msg :: "string \<Rightarrow> log_call \<Rightarrow> string \<Rightarrow> log_msg" where
  "call_msg name c t = log_msg_new no_source name (call_level c) t (env_now (call_env c)) (env_thread (call_env c))"

text \<open>The line of a message: the thread, the time, the logger, the level and the text.\<close>

definition call_line :: "string \<Rightarrow> log_call \<Rightarrow> string \<Rightarrow> string" where
  "call_line name c t =
     ''[thread-'' @ show_nat (unat (env_thread (call_env c))) @ '']'' @
     full_text (call_msg name c t) (os_localtime (env_os (call_env c)) (secs_of (env_now (call_env c)))) @ [CHR 0x0A]"

definition lines_of :: "string \<Rightarrow> log_call \<Rightarrow> string list" where
  "lines_of name c =
     (if call_enabled c then (case call_text c of Inr t \<Rightarrow> [call_line name c t] | Inl e \<Rightarrow> []) else [])"

text \<open>A message that cannot be formatted is reported on the standard output instead.\<close>

definition reports_of :: "log_call \<Rightarrow> string list" where
  "reports_of c =
     (if call_enabled c then (case call_text c of Inr t \<Rightarrow> [] | Inl (FormatError e) \<Rightarrow> [SpdlogErrCallback e] | Inl e \<Rightarrow> []) else [])"

lemma log_pattern_compiled:
  "compile_pattern log_pattern =
     [aggregate_formatter ''[thread-'', t_formatter no_padding, aggregate_formatter '']'', full_formatter no_padding empty_cache]"
  using compile_items [of "[Chars ''[thread-'', Flag pad_left 0 (CHR ''t''), Chars '']'', Flag pad_left 0 (CHR ''+'')]"]
  by (simp add: log_pattern_def compile_pattern_def side_text_def width_text_def is_digit_def handle_flag_def flag_table_def no_padding_def)

lemma log_pattern_text:
  "pattern_text os log_pattern local_time default_eol m =
     ''[thread-'' @ show_nat (unat (msg_thread_id m)) @ '']'' @ full_text m (os_localtime os (secs_of (msg_time m))) @ [CHR 0x0A]"
  by (simp add: pattern_text_def log_pattern_compiled flag_text_simps time_source_def default_eol_def pad_around_def no_padding_def Let_def)

definition sink_holds :: "log_os \<Rightarrow> string \<Rightarrow> nat \<Rightarrow> nat \<Rightarrow> string list \<Rightarrow> file_sink \<times> disk \<Rightarrow> bool" where
  "sink_holds os base limit n segs = (\<lambda>(s, d).
     sink_level s = trace \<and> in_use os log_pattern local_time default_eol (sink_formatter s) \<and> logged segs (rotating s, d) \<and>
     base_filename (rotating s) = base \<and> max_file_size (rotating s) = limit \<and> max_files (rotating s) = n \<and> limit \<le> quota d)"

lemma sink_log_holds:
  assumes "sink_holds os base limit n segs (s, d)" and "secs_of (msg_time m) \<noteq> 0"
    and "tm_ok (os_localtime os (secs_of (msg_time m)))"
    and "length (pattern_text os log_pattern local_time default_eol m) \<le> quota d"
  shows "\<exists>m' s' d'. sink_log os m (s, d) = (Inr m', (s', d')) \<and> quota d' = quota d \<and>
    sink_holds os base limit n (log_spec limit n (pattern_text os log_pattern local_time default_eol m) segs) (s', d')"
proof -
  let ?line = "pattern_text os log_pattern local_time default_eol m"
  have u: "in_use os log_pattern local_time default_eol (sink_formatter s)"
    "tm_ok (time_source os local_time (secs_of (msg_time m)))" using assms(1,3) by (simp_all add: sink_holds_def time_source_def)
  from pattern_format_in_use [OF u(1) assms(2) u(2), of "[]"] obtain f' m' where
    f: "pattern_format os m [] (sink_formatter s) = Inr (f', m', ?line)" "in_use os log_pattern local_time default_eol f'" by auto
  have k: "logged segs (rotating s, d)" "max_file_size (rotating s) \<le> quota d" using assms(1) by (simp_all add: sink_holds_def)
  from sink_it_refines [OF k assms(4)] obtain rs d' where
    r: "sink_it ?line (rotating s, d) = Some (Inr (), (rs, d'))" "same_limits d d'" "max_file_size rs = max_file_size (rotating s)"
      "max_files rs = max_files (rotating s)" "base_filename rs = base_filename (rotating s)"
      "logged (log_spec (max_file_size (rotating s)) (max_files (rotating s)) ?line segs) (rs, d')" by blast
  have "sink_log os m (s, d) = (Inr m', (s\<lparr>sink_formatter := f', rotating := rs\<rparr>, d'))"
    using f(1) r(1) by (simp add: sink_log_def)
  moreover have "quota d' = quota d" using r(2) by (simp add: same_limits_def)
  ultimately show ?thesis using assms(1) f(2) r by (simp add: sink_holds_def)
qed

definition my_log :: "log_os \<Rightarrow> string \<Rightarrow> string \<Rightarrow> nat \<Rightarrow> nat \<Rightarrow> string list \<Rightarrow> log_world \<Rightarrow> bool" where
  "my_log os name base limit n segs w \<longleftrightarrow>
     (\<exists>a s. the_logger w = Some a \<and> a < length (reg_objects (the_registry w)) \<and>
       object_at a (the_registry w) = my_logger name s \<and> sink_holds os base limit n segs (s, log_disk (the_outside w)))"

definition call_ok :: "log_os \<Rightarrow> log_call \<Rightarrow> bool" where
  "call_ok os c \<longleftrightarrow>
     env_os (call_env c) = os \<and> secs_of (env_now (call_env c)) \<noteq> 0 \<and> tm_ok (os_localtime os (secs_of (env_now (call_env c))))"

lemma log_payload_line:
  assumes "sink_holds os base limit n segs (s, log_disk w)" and "call_ok os c" and "length (call_line name c t) \<le> quota (log_disk w)"
  shows "\<exists>s' d'. log_payload (call_env c) no_source (call_level c) t (my_logger name s, w) = (Inr (), (my_logger name s', w\<lparr>log_disk := d'\<rparr>)) \<and>
    quota d' = quota (log_disk w) \<and> sink_holds os base limit n (log_spec limit n (call_line name c t) segs) (s', d')"
proof -
  let ?m = "call_msg name c t"
  have os: "env_os (call_env c) = os" using assms(2) by (simp add: call_ok_def)
  have line: "pattern_text os log_pattern local_time default_eol ?m = call_line name c t"
    by (simp add: log_pattern_text call_line_def call_msg_def log_msg_new_def os)
  have "secs_of (msg_time ?m) \<noteq> 0" "tm_ok (os_localtime os (secs_of (msg_time ?m)))"
    using assms(2) by (simp_all add: call_ok_def call_msg_def log_msg_new_def)
  from sink_log_holds [OF assms(1) this] assms(3) obtain m' s' d' where
    s: "sink_log os ?m (s, log_disk w) = (Inr m', (s', d'))" "quota d' = quota (log_disk w)"
      "sink_holds os base limit n (log_spec limit n (call_line name c t) segs) (s', d')" unfolding line by blast
  have "sink_should_log (msg_level ?m) s"
    using assms(1) by (simp add: sink_holds_def sink_should_log_def level_num_def split: level.split)
  then have "sinks_log os ?m [s] (log_disk w) = (Inr m', ([s'], d'))" using s(1) by simp
  then have "log_payload (call_env c) no_source (call_level c) t (my_logger name s, w) = (Inr (), (my_logger name s', w\<lparr>log_disk := d'\<rparr>))"
    by (simp add: log_payload_def my_logger_def os call_msg_def Let_def)
  with s show ?thesis by blast
qed

lemma LOG_line:
  assumes "my_log os name base limit n segs w" and "call_ok os c"
    and "\<forall>x \<in> set (lines_of name c). length x \<le> quota (log_disk (the_outside w))"
  shows "\<exists>w'. LOG c w = (Inr (), w') \<and> my_log os name base limit n (fold (log_spec limit n) (lines_of name c) segs) w' \<and>
    quota (log_disk (the_outside w')) = quota (log_disk (the_outside w)) \<and>
    log_cout (the_outside w') = log_cout (the_outside w) @ reports_of c"
proof -
  let ?out = "the_outside w" and ?r = "the_registry w"
  obtain a s where a: "the_logger w = Some a" "a < length (reg_objects ?r)" "object_at a ?r = my_logger name s"
    "sink_holds os base limit n segs (s, log_disk ?out)" using assms(1) by (auto simp: my_log_def)
  have enabled: "should_log (call_level c) (my_logger name s) = call_enabled c"
    by (simp add: should_log_def my_logger_def call_enabled_def)
  define action where "action = (if call_args c = [] then log_text (call_env c) no_source (call_level c) (call_format c) (my_logger name s, ?out)
    else log_format (call_env c) no_source (call_level c) (call_format c) (call_args c) (my_logger name s, ?out))"
  have step: "LOG c w = (case action of (q, (l, out)) \<Rightarrow> (q, w\<lparr>the_registry := on_object a (\<lambda>_. l) ?r, the_outside := out\<rparr>))"
    by (simp add: LOG_def Instance_def a(1,3) action_def)
  have world: "my_log os name base limit n segs' (w\<lparr>the_registry := on_object a (\<lambda>_. my_logger name s') ?r, the_outside := out\<rparr>)"
    if "sink_holds os base limit n segs' (s', log_disk out)" for segs' s' out
    using a(1,2) that unfolding my_log_def by (intro exI [of _ a] exI [of _ s']) (simp add: on_object_def object_at_def)
  consider "\<not> call_enabled c" | t where "call_enabled c" "call_text c = Inr t" | e where "call_enabled c" "call_text c = Inl (FormatError e)"
    using call_text_ok fmt_ok_cases by blast
  then show ?thesis
  proof cases
    case 1
    then have "action = (Inr (), (my_logger name s, ?out))" using enabled by (simp add: action_def log_text_def log_format_def)
    with 1 step world [OF a(4)] show ?thesis by (simp add: lines_of_def reports_of_def)
  next
    case (2 t)
    from assms(3) 2 have "length (call_line name c t) \<le> quota (log_disk ?out)" by (simp add: lines_of_def)
    from log_payload_line [OF a(4) assms(2) this] obtain s' d' where
      p: "log_payload (call_env c) no_source (call_level c) t (my_logger name s, ?out) = (Inr (), (my_logger name s', ?out\<lparr>log_disk := d'\<rparr>))"
        "quota d' = quota (log_disk ?out)" "sink_holds os base limit n (log_spec limit n (call_line name c t) segs) (s', d')" by blast
    have "action = (Inr (), (my_logger name s', ?out\<lparr>log_disk := d'\<rparr>))"
      using enabled 2 p(1)
      by (cases "call_args c = []") (simp_all add: action_def log_text_def log_format_def catch_and_handle_def call_text_def)
    with 2 step p(2) world [of "log_spec limit n (call_line name c t) segs" s' "?out\<lparr>log_disk := d'\<rparr>"] p(3) show ?thesis
      by (simp add: lines_of_def reports_of_def)
  next
    case (3 e)
    then have "call_args c \<noteq> []" "vformat_to (env_fmt (call_env c)) [] (call_format c) (call_args c) = Inl (FormatError e)"
      by (auto simp: call_text_def split: if_splits)
    then have "action = (Inr (), (my_logger name s, ?out\<lparr>log_cout := log_cout ?out @ [SpdlogErrCallback e]\<rparr>))"
      using enabled 3 by (simp add: action_def log_format_def catch_and_handle_def call_err_handler_def my_logger_def)
    with 3 step world [of segs s "?out\<lparr>log_cout := log_cout ?out @ [SpdlogErrCallback e]\<rparr>"] a(4) show ?thesis
      by (simp add: lines_of_def reports_of_def)
  qed
qed

lemma LOG_all_lines:
  assumes "my_log os name base limit n segs w" and "\<forall>c \<in> set cs. call_ok os c"
    and "\<forall>c \<in> set cs. \<forall>x \<in> set (lines_of name c). length x \<le> quota (log_disk (the_outside w))"
  shows "\<exists>w'. LOG_all cs w = (Inr (), w') \<and>
    my_log os name base limit n (fold (log_spec limit n) (concat (map (lines_of name) cs)) segs) w' \<and>
    log_cout (the_outside w') = log_cout (the_outside w) @ concat (map reports_of cs)"
  using assms
proof (induction cs arbitrary: w segs)
  case (Cons c cs)
  from LOG_line [OF Cons.prems(1), of c] Cons.prems(2,3) obtain w1 where
    1: "LOG c w = (Inr (), w1)" "my_log os name base limit n (fold (log_spec limit n) (lines_of name c) segs) w1"
      "quota (log_disk (the_outside w1)) = quota (log_disk (the_outside w))"
      "log_cout (the_outside w1) = log_cout (the_outside w) @ reports_of c" by auto
  from Cons.IH [OF 1(2)] Cons.prems(2,3) 1 show ?case by auto
qed simp

lemma MyLogger_new_logs:
  assumes "name \<noteq> []" and "no_logs base (log_size n_files) d" and "log_size max_size \<le> quota d"
  shows "\<exists>r d'. MyLogger_new name base max_size n_files (registry_new, d) = (Inr 1, (r, d')) \<and> quota d' = quota d \<and>
    my_log os name base (log_size max_size) (log_size n_files) [[]]
      \<lparr>the_logger = Some 1, the_registry = r, the_outside = \<lparr>log_disk = d', log_cout = out, log_cerr = err'\<rparr>\<rparr>"
proof -
  from rotating_file_sink_new_ok [OF assms(2), of "log_size max_size" False] obtain s d' where
    s: "rotating_file_sink_new base (log_size max_size) (log_size n_files) False d = (Inr (), (s, d'))" "same_limits d d'"
      "base_filename s = base" "max_files s = log_size n_files" "max_file_size s = log_size max_size" "logged [[]] (s, d')" by blast
  from MyLogger_new_made [OF assms(1) s(1)] obtain r where
    r: "MyLogger_new name base max_size n_files (registry_new, d) = (Inr 1, (r, d'))" "length (reg_objects r) = 2"
      "object_at 1 r = my_logger name (new_file_sink s)" by blast
  have "sink_holds os base (log_size max_size) (log_size n_files) [[]] (new_file_sink s, d')"
    using s assms(3) by (simp add: sink_holds_def new_file_sink_def new_formatter_in_use same_limits_def)
  with r s(2) show ?thesis by (fastforce simp: my_log_def same_limits_def)
qed

section \<open>Properties\<close>


definition demo_env :: "64 word \<Rightarrow> log_env" where
  "demo_env now = \<lparr>env_os = demo_os, env_fmt = no_env, env_now = now, env_thread = 42\<rparr>"

definition demo_call :: "level \<Rightarrow> string \<Rightarrow> fmt_arg list \<Rightarrow> log_call" where
  "demo_call lvl s args = \<lparr>call_env = demo_env 61500000000, call_level = lvl, call_format = s, call_args = args\<rparr>"

lemma demo_os_ok: "os_ok demo_os"
  by (simp add: os_ok_def demo_os_def demo_tm_ok)

lemma demo_logger: "\<exists>r d. MyLogger_new ''recorder'' ''log'' 100 1 (registry_new, demo_disk) = (Inr 1, (r, d))"
proof -
  have "no_logs ''log'' (log_size 1) demo_disk" "log_size 100 \<le> quota demo_disk"
    by (simp_all add: no_logs_def demo_disk_def names_ok_def log_size_def)
  from MyLogger_new_logs [OF _ this, of "''recorder''"] show ?thesis by blast
qed

definition fills_up :: "disk \<Rightarrow> disk" where
  "fills_up d = d\<lparr>creatable := (\<lambda>_. False), quota := 0\<rparr>"


text \<open>
  C4. From the macros to the files: every enabled message that can be formatted becomes one line, with
  its thread, its local time to the millisecond, the logger, the level and the formatted text; a new file
  is begun where a line would not fit any more, and the files that exist, oldest first, are the end of these lines, all of them as long as the files last. A
  message that cannot be formatted is reported on the standard output, and nothing else is.
\<close>

theorem log_files_hold_lines:
  assumes "name \<noteq> []" and "no_logs base (log_size n_files) d" and "log_size max_size \<le> quota d"
    and "\<forall>c \<in> set cs. call_ok os c" and "\<forall>c \<in> set cs. \<forall>x \<in> set (lines_of name c). length x \<le> quota d"
  shows "\<exists>r d1 w segs lost.
    MyLogger_new name base max_size n_files (registry_new, d) = (Inr 1, (r, d1)) \<and>
    LOG_all cs \<lparr>the_logger = Some 1, the_registry = r, the_outside = \<lparr>log_disk = d1, log_cout = out, log_cerr = err'\<rparr>\<rparr> = (Inr (), w) \<and>
    segs = fold (log_spec (log_size max_size) (log_size n_files)) (concat (map (lines_of name) cs)) [[]] \<and>
    length segs \<le> log_size n_files + 1 \<and>
    (\<forall>i \<le> log_size n_files. files (log_disk (the_outside w)) (calc_filename base i) = (if i < length segs then Some (segs ! i) else None)) \<and>
    concat (concat (map (lines_of name) cs)) = lost @ concat (rev segs) \<and> (length segs \<le> log_size n_files \<longrightarrow> lost = []) \<and>
    log_cout (the_outside w) = out @ concat (map reports_of cs)"
proof -
  let ?limit = "log_size max_size" and ?n = "log_size n_files" and ?lines = "concat (map (lines_of name) cs)"
  from MyLogger_new_logs [OF assms(1-3), of os out err'] obtain r d1 where
    l: "MyLogger_new name base max_size n_files (registry_new, d) = (Inr 1, (r, d1))" "quota d1 = quota d"
      "my_log os name base ?limit ?n [[]]
        \<lparr>the_logger = Some 1, the_registry = r, the_outside = \<lparr>log_disk = d1, log_cout = out, log_cerr = err'\<rparr>\<rparr>" by blast
  from LOG_all_lines [OF l(3) assms(4)] assms(5) l(2) obtain w where
    w: "LOG_all cs \<lparr>the_logger = Some 1, the_registry = r, the_outside = \<lparr>log_disk = d1, log_cout = out, log_cerr = err'\<rparr>\<rparr> = (Inr (), w)"
      "my_log os name base ?limit ?n (fold (log_spec ?limit ?n) ?lines [[]]) w"
      "log_cout (the_outside w) = out @ concat (map reports_of cs)" by auto
  have "keeps ?limit ?n [] [[]]" by (simp add: keeps_def)
  from keeps_fold [OF this, of ?lines] obtain lost where
    k: "length (fold (log_spec ?limit ?n) ?lines [[]]) \<le> ?n + 1" "concat ?lines = lost @ concat (rev (fold (log_spec ?limit ?n) ?lines [[]]))"
      "length (fold (log_spec ?limit ?n) ?lines [[]]) \<le> ?n \<longrightarrow> lost = []"
    by (auto simp: keeps_def)
  have "holds base ?n (fold (log_spec ?limit ?n) ?lines [[]]) (log_disk (the_outside w))"
    using w(2) by (auto simp: my_log_def sink_holds_def logged_def stored_def)
  with l(1) w(1,3) k show ?thesis unfolding holds_def by blast
qed

lemma demo_lines:
  "lines_of ''rec'' (demo_call info ''start'' []) = [''[thread-42][2019-04-12 17:01:01.500] [rec] [info] start'' @ [CHR 0x0A]]"
  "lines_of ''rec'' (demo_call warn ''{} {}'' [int_type 5]) = []" "lines_of ''rec'' (demo_call trace ''x'' []) = []"
  "reports_of (demo_call info ''start'' []) = []" "reports_of (demo_call trace ''x'' []) = []"
  "reports_of (demo_call warn ''{} {}'' [int_type 5]) = [''SpdlogErrCallback err_msg:argument index out of range'']"
proof -
  have f: "vformat_to no_env [] ''{} {}'' [int_type 5] = Inl (FormatError ''argument index out of range'')"
    using template_fills [of "fmt_context_new [int_type 5] []" "[]" "[int_type 5]" no_env "[Placeholder, Text '' '', Placeholder]"]
    by (simp add: vformat_to_def fmt_context_new_def escape_def write_integer_def write_decimal_def decimal_text)
  have secs: "secs_of 61500000000 = 61" by (simp add: secs_of_def signed_divide_int_def)
  show "lines_of ''rec'' (demo_call info ''start'' []) = [''[thread-42][2019-04-12 17:01:01.500] [rec] [info] start'' @ [CHR 0x0A]]"
    by (simp add: lines_of_def call_enabled_def demo_call_def demo_env_def level_num_def call_text_def call_line_def call_msg_def
        log_msg_new_def full_text_def clock_text_def fraction_text_def time_fraction_def secs demo_os_def demo_tm_def level_name_def
        level_string_views_def source_empty_def no_source_def pad_zeros_def show_int_def show_nat.simps digit_chars
        signed_divide_int_def)
  show "lines_of ''rec'' (demo_call warn ''{} {}'' [int_type 5]) = []"
    "reports_of (demo_call warn ''{} {}'' [int_type 5]) = [''SpdlogErrCallback err_msg:argument index out of range'']"
    by (simp_all add: lines_of_def reports_of_def call_enabled_def demo_call_def demo_env_def level_num_def call_text_def
        SpdlogErrCallback_def f)
qed (simp_all add: lines_of_def reports_of_def call_enabled_def demo_call_def level_num_def call_text_def)

theorem log_files_hold_lines_witness:
  "\<exists>r d1 w. MyLogger_new ''rec'' ''log'' 100 1 (registry_new, demo_disk) = (Inr 1, (r, d1)) \<and>
    LOG_all [demo_call info ''start'' [], demo_call warn ''{} {}'' [int_type 5], demo_call trace ''x'' []]
      \<lparr>the_logger = Some 1, the_registry = r, the_outside = \<lparr>log_disk = d1, log_cout = [], log_cerr = []\<rparr>\<rparr> = (Inr (), w) \<and>
    files (log_disk (the_outside w)) ''log'' = Some (''[thread-42][2019-04-12 17:01:01.500] [rec] [info] start'' @ [CHR 0x0A]) \<and>
    log_cout (the_outside w) = [''SpdlogErrCallback err_msg:argument index out of range'']"
proof -
  let ?cs = "[demo_call info ''start'' [], demo_call warn ''{} {}'' [int_type 5], demo_call trace ''x'' []]"
  have n: "log_size 1 = 1" "log_size 100 = 100" by (simp_all add: log_size_def)
  have c: "''rec'' \<noteq> []" "no_logs ''log'' (log_size 1) demo_disk" "log_size 100 \<le> quota demo_disk"
    by (simp_all add: no_logs_def demo_disk_def names_ok_def n)
  have ok: "\<forall>c \<in> set ?cs. call_ok demo_os c"
    by (simp add: call_ok_def demo_call_def demo_env_def demo_os_def demo_tm_ok secs_of_def signed_divide_int_def)
  have len: "\<forall>c \<in> set ?cs. \<forall>x \<in> set (lines_of ''rec'' c). length x \<le> quota demo_disk"
    by (simp add: demo_lines demo_disk_def)
  from log_files_hold_lines [OF c ok len, of "[]" "[]"] obtain r d1 w segs where
    l: "MyLogger_new ''rec'' ''log'' 100 1 (registry_new, demo_disk) = (Inr 1, (r, d1))"
      "LOG_all ?cs \<lparr>the_logger = Some 1, the_registry = r, the_outside = \<lparr>log_disk = d1, log_cout = [], log_cerr = []\<rparr>\<rparr> = (Inr (), w)"
      "segs = fold (log_spec (log_size 100) (log_size 1)) (concat (map (lines_of ''rec'') ?cs)) [[]]"
      "\<forall>i \<le> log_size 1. files (log_disk (the_outside w)) (calc_filename ''log'' i) = (if i < length segs then Some (segs ! i) else None)"
      "log_cout (the_outside w) = [] @ concat (map reports_of ?cs)" by blast
  have s: "segs = [''[thread-42][2019-04-12 17:01:01.500] [rec] [info] start'' @ [CHR 0x0A]]"
    by (simp add: l(3) demo_lines n log_spec_def)
  from l(4) have "files (log_disk (the_outside w)) ''log'' = Some (segs ! 0)" by (auto simp: s dest: spec [of _ 0])
  with l(1,2,5) show ?thesis unfolding s by (intro exI [of _ r] exI [of _ d1] exI [of _ w]) (simp add: demo_lines)
qed

text \<open>
  A configuration with an empty logger name ends both programs: the logging library has registered
  its default logger under that name, so the constructor of the logger throws, which nobody catches.
\<close>

theorem empty_logger_name_throws:
  "\<exists>e rd. GetInstance (MyLogger_new [] filename max_size n_files) (None, (registry_new, d)) = (Inl (SpdlogException e), (None, rd))"
proof -
  obtain e rd where "MyLogger_new [] filename max_size n_files (registry_new, d) = (Inl (SpdlogException e), rd)"
    using MyLogger_new_unnamed by blast
  then show ?thesis by (auto simp: GetInstance_def)
qed

end
