(* ===== verification/Programs.thy ===== *)
theory Programs
  imports RecordLimits Subscribing PlayOptions Playback Conf Logging
begin

text \<open>
  The two programs, \<open>main\<close> and \<open>ProgExit\<close> of \<open>src/record/record.cpp\<close> and \<open>src/play/play.cpp\<close>:
  configuration, logger, command line, and the object that does the work. What a program meets
  outside are arguments: the parsed configuration file, the object \<open>conf\<close> no constructor
  initialised, the arguments behind the program's name, the disk and the clocks. The lines that the
  programs log are left out, so the log file only matters when it is opened.
\<close>

datatype 'a program = Ended error "string list" | Terminated error | Runs 'a "string list"

text \<open>\<open>main\<close> of the recorder up to the sleeping loop of \<open>Run\<close>, which the recording thread outlives.\<close>

definition record_main ::
    "toml option \<Rightarrow> conf \<Rightarrow> string list \<Rightarrow> disk \<Rightarrow> (nat \<Rightarrow> timestamp) \<Rightarrow>
     (nat \<Rightarrow> (64 word \<times> 64 word) option) \<Rightarrow> (int \<Rightarrow> tm) \<Rightarrow> recorder program" where
  "record_main parsed c args d now stat lt =
     (case LoadConf parsed c of
        Inl e \<Rightarrow> Ended e []
      | Inr (loaded, c) \<Rightarrow>
          (case GetInstance (MyLogger_new (GetRecorderLoggerName c) (GetRecorderLogFile c)
                  (GetLogfileMaxSize c) (GetMaxLogfileNum c)) (None, (registry_new, d)) of
             (Inl e, _) \<Rightarrow> Terminated e
           | (Inr l, (inst, (r, d))) \<Rightarrow>
               (case parse_command_line args \<lparr>opts = RecorderOptions_default, out = []\<rparr> of
                  (Inl e, p) \<Rightarrow> Ended e (out p)
                | (Inr _, p) \<Rightarrow>
                    (case Run (GetIp c) (GetPort c) (GetBufferSize c) (Recorder_new (opts p) d now stat lt) of
                       (Inl e, s) \<Rightarrow> Ended e (out p)
                     | (Inr _, s) \<Rightarrow> Runs s (out p)))))"

text \<open>The signal handler; the pointer is null before the recorder is constructed.\<close>

definition record_ProgExit :: "recorder option \<Rightarrow> unit res \<times> recorder option" where
  "record_ProgExit ptr =
     (case ptr of
        None \<Rightarrow> (Inr (), None)
      | Some s \<Rightarrow> (let (r, s) = Recorder_Stop s in (r, Some s)))"

definition play_main ::
    "toml option \<Rightarrow> conf \<Rightarrow> string list \<Rightarrow> disk \<Rightarrow> bool \<Rightarrow> timestamp \<Rightarrow> pass list \<Rightarrow> (play_end \<times> player) program" where
  "play_main parsed c args d timerfd_ok now passes =
     (case LoadConf parsed c of
        Inl e \<Rightarrow> Ended e []
      | Inr (loaded, c) \<Rightarrow>
          (case GetInstance (MyLogger_new (GetPlayerLoggerName c) (GetPlayerLogFile c)
                  (GetLogfileMaxSize c) (GetMaxLogfileNum c)) (None, (registry_new, d)) of
             (Inl e, _) \<Rightarrow> Terminated e
           | (Inr l, (inst, (r, d))) \<Rightarrow>
               (case ParseOptions args PlayerOptions_default of
                  (Inl e, p) \<Rightarrow> Ended e (play_out p)
                | (Inr _, p) \<Rightarrow>
                    (case Publish now passes
                        (Player_new (play_opts p) (GetIp c) (GetPort c) (GetBufferSize c) timerfd_ok d) of
                       (Inl e, pl) \<Rightarrow> Ended e (play_out p @ p_out pl)
                     | (Inr r, pl) \<Rightarrow> Runs (r, pl) (play_out p @ p_out pl)))))"

definition play_ProgExit :: "player option \<Rightarrow> player option" where
  "play_ProgExit ptr = map_option Player_Stop ptr"

section \<open>Starting\<close>

text \<open>Opening the log changes no file that exists, and succeeds where files can be created.\<close>

lemma MyLogger_new_disk:
  assumes "\<forall>n. creatable d n" and "name \<noteq> []"
  shows "\<exists>l r d'. MyLogger_new name logfile max_bytes n_files (registry_new, d) = (Inr l, (r, d')) \<and> creatable d' = creatable d \<and>
    quota d' = quota d \<and> (\<forall>n s. files d n = Some s \<longrightarrow> files d' n = Some s)"
proof -
  have "\<exists>s d'. rotating_file_sink_new logfile (log_size max_bytes) (log_size n_files) False d = (Inr (), (s, d')) \<and>
    creatable d' = creatable d \<and> quota d' = quota d \<and> (\<forall>n s. files d n = Some s \<longrightarrow> files d' n = Some s)"
  proof (cases "files d logfile")
    case None
    then show ?thesis using assms
      by (simp add: rotating_file_sink_new_def fh_open_def fh_close_def file_helper_default_def
          open_tries_def numeral_eq_Suc fopen_def on_helper_def fh_size_def)
  next
    case (Some x)
    then show ?thesis using assms
      by (simp add: rotating_file_sink_new_def fh_open_def fh_close_def file_helper_default_def
          open_tries_def numeral_eq_Suc fopen_def on_helper_def fh_size_def)
  qed
  then obtain s d' where s: "rotating_file_sink_new logfile (log_size max_bytes) (log_size n_files) False d = (Inr (), (s, d'))"
    "creatable d' = creatable d" "quota d' = quota d" "\<forall>n s. files d n = Some s \<longrightarrow> files d' n = Some s" by blast
  from MyLogger_new_made [OF assms(2) s(1)] s(2-4) show ?thesis by blast
qed

lemma subscribe_topics_frame:
  "\<exists>subs cur. snd (subscribe_topics hm ts i s) = s\<lparr>subscribers := subs, currently_recording := cur\<rparr>"
proof (induction ts arbitrary: i s)
  case Nil
  show ?case by (intro exI [of _ "subscribers s"] exI [of _ "currently_recording s"]) simp
next
  case (Cons t ts)
  have stay: "\<exists>subs cur. s = s\<lparr>subscribers := subs, currently_recording := cur\<rparr>"
    by (intro exI [of _ "subscribers s"] exI [of _ "currently_recording s"]) simp
  show ?case
  proof (cases "map_of hm t")
    case None
    then show ?thesis using Cons.IH [of i s] by simp
  next
    case (Some h)
    let ?i = "if length (subscribers s) \<le> i then 0 else i"
    let ?s = "s\<lparr>subscribers := (subscribers s)[?i := subscribe t h (subscribers s ! ?i)],
      currently_recording := insert t (currently_recording s)\<rparr>"
    from Cons.IH [of "Suc ?i" ?s] stay Some show ?thesis by (auto simp: Let_def)
  qed
qed

lemma Run_about_to_record:
  assumes "about_to_record (s\<lparr>rec_running := True, record_thread := True\<rparr>)" and "subscribers s = []"
    and "\<not> trigger (options s)" and "\<not> record_all (options s)" and "topics (options s) \<noteq> []"
  shows "\<exists>s'. Run host number bytes s = (Inr (), s') \<and> about_to_record s' \<and> options s' = options s \<and>
    rec_disk s' = rec_disk s"
proof -
  let ?hm = "InitRecorderHandlerMap []" and ?ts = "topics (options s)"
  define s1 where "s1 = (let s = InitSubscribers host number bytes s; (now, s) = tick s;
      s = s\<lparr>last_buffer_warn := now, rec_running := True\<rparr>; (now, s) = tick s
    in s\<lparr>start_time := now, record_thread := True\<rparr>)"
  have run: "Run host number bytes s = DoSubscribe ?hm s1"
    unfolding Run_def s1_def Let_def using assms(3-5) by (simp add: case_prod_beta)
  have f1: "options s1 = options s" "rec_disk s1 = rec_disk s" "subscribers s1 \<noteq> []" "rec_bag s1 = rec_bag s"
    "writing_enabled s1 = writing_enabled s" "statvfs s1 = statvfs s" "split_count s1 = split_count s"
    "current_files s1 = current_files s" "rec_running s1" "record_thread s1"
    using assms(5) by (simp_all add: s1_def InitSubscribers_def tick_def Let_def)
  have a1: "about_to_record s1"
    using assms(1) by (simp add: about_to_record_def unlimited_def disk_fine_def f1)
  obtain s' where s': "subscribe_topics ?hm ?ts 0 s1 = (Inr (), s')"
    using subscribe_topics_turns [OF f1(3), of 0 ?hm ?ts] f1(3) by auto
  obtain subs cur where "s' = s1\<lparr>subscribers := subs, currently_recording := cur\<rparr>"
    using subscribe_topics_frame [of ?hm ?ts 0 s1] s' by auto
  with a1 s' run f1(1,2) show ?thesis
    by (simp add: DoSubscribe_def about_to_record_def unlimited_def disk_fine_def)
qed

section \<open>The name of the file\<close>

text \<open>Without limits and splitting the file keeps its name.\<close>

definition no_limits :: "RecorderOptions \<Rightarrow> bool" where
  "no_limits p \<longleftrightarrow> opt_max_size p = 0 \<and> max_duration p \<le> 0 \<and> \<not> opt_split p"

lemma StartWriting_target:
  assumes "strip_bag (opt_prefix (options s)) \<noteq> []" and "\<not> append_date (options s)" and "\<not> opt_split (options s)"
  shows "target_filename (snd (Recorder_StartWriting s)) = strip_bag (opt_prefix (options s)) @ ''.bag''"
proof -
  have u: "UpdateFilename s = (Inr (), s\<lparr>target_filename := strip_bag (opt_prefix (options s)) @ ''.bag'',
      write_filename := (strip_bag (opt_prefix (options s)) @ ''.bag'') @ ''.active''\<rparr>)"
    if "strip_bag (opt_prefix (options s)) \<noteq> []" "\<not> append_date (options s)" "\<not> opt_split (options s)" for s
    using that by (simp add: UpdateFilename_def filename_parts_def join_parts_def)
  have c: "target_filename (snd (catch_msgbag (on_bag f s) stop_running)) = target_filename s" for f s
    by (auto simp: on_bag_def catch_msgbag_def stop_running_def case_prod_beta split: sum.splits error.splits)
  let ?s = "s\<lparr>rec_bag := SetChunkThreshold (sint (chunk_size (options s)))
    (SetCompression (opt_compression (options s)) (rec_bag s))\<rparr>"
  show ?thesis
    using u [of ?s] assms by (simp add: Recorder_StartWriting_def tick_def c Let_def)
qed

lemma write_if_logging_target:
  "target_filename (snd (write_if_logging m s)) = target_filename s \<and> options (snd (write_if_logging m s)) = options s"
proof -
  have c: "target_filename (snd (catch_msgbag (on_bag f s) stop_running)) = target_filename s \<and>
      options (snd (catch_msgbag (on_bag f s) stop_running)) = options s" for f s
    by (auto simp: on_bag_def catch_msgbag_def stop_running_def case_prod_beta split: sum.splits error.splits)
  have d: "target_filename (snd (CheckDisk s)) = target_filename s \<and> options (snd (CheckDisk s)) = options s" for s
    by (auto simp: CheckDisk_def Let_def split: option.splits)
  then have d': "target_filename (snd (ScheduledCheckDisk s)) = target_filename s \<and> options (snd (ScheduledCheckDisk s)) = options s" for s
    by (simp add: ScheduledCheckDisk_def tick_def)
  have l: "target_filename (snd (CheckLogging s)) = target_filename s \<and> options (snd (CheckLogging s)) = options s" for s
    by (simp add: CheckLogging_def tick_def Let_def)
  show ?thesis using d' [of s] l c by (simp add: write_if_logging_def case_prod_beta)
qed

lemma DoWrite_target:
  assumes "no_limits (options s)" and "DoWrite m s = Some (r, s')"
  shows "target_filename s' = target_filename s \<and> options s' = options s"
  using assms write_if_logging_target [of m s]
  by (auto simp: DoWrite_def no_limits_def CheckSize_def CheckDuration_def set_running_def)

lemma record_for_target:
  "no_limits (options s) \<Longrightarrow> record_for ms s = Some (r, s') \<Longrightarrow>
   target_filename s' = target_filename s \<and> options s' = options s"
proof (induction ms arbitrary: s)
  case (Cons x ms)
  obtain b m where x: "x = (b, m)" by (cases x)
  let ?s = "set_running b s"
  have s: "target_filename ?s = target_filename s" "options ?s = options s" by (simp_all add: set_running_def)
  show ?case
  proof (cases "rec_running ?s")
    case False
    then show ?thesis using Cons.prems s by (auto simp: x)
  next
    case True
    with Cons.prems(2) obtain r1 s1 where d: "DoWrite m ?s = Some (r1, s1)"
      by (cases "DoWrite m ?s") (auto simp: x)
    have t: "target_filename s1 = target_filename s" "options s1 = options s"
      using DoWrite_target [OF _ d] Cons.prems(1) s by simp_all
    show ?thesis
    proof (cases r1)
      case (Inl e)
      then show ?thesis using Cons.prems(2) True d t by (simp add: x)
    next
      case (Inr u)
      then have "record_for ms s1 = Some (r, s')" using Cons.prems(2) True d by (simp add: x)
      with Cons.IH [of s1] Cons.prems(1) t show ?thesis by simp
    qed
  qed
qed simp

lemma record_while_target:
  "no_limits (options s) \<Longrightarrow> record_while takes s = Some (r, s') \<Longrightarrow> target_filename s' = target_filename s"
proof (induction takes arbitrary: s)
  case (Cons x takes)
  obtain b ms where x: "x = (b, ms)" by (cases x)
  let ?s = "set_running b s"
  have s: "target_filename ?s = target_filename s" "options ?s = options s" by (simp_all add: set_running_def)
  show ?case
  proof (cases "rec_running ?s")
    case False
    then show ?thesis using Cons.prems s by (auto simp: x)
  next
    case True
    with Cons.prems(2) obtain r1 s1 where d: "record_for ms ?s = Some (r1, s1)"
      by (cases "record_for ms ?s") (auto simp: x)
    have t: "target_filename s1 = target_filename s" "options s1 = options s"
      using record_for_target [OF _ d] Cons.prems(1) s by simp_all
    show ?thesis
    proof (cases "r1 = Inr ThreadWaiting")
      case True
      then have "record_while takes s1 = Some (r, s')" using Cons.prems(2) \<open>rec_running ?s\<close> d by (simp add: x)
      with Cons.IH [of s1] Cons.prems(1) t show ?thesis by simp
    next
      case False
      then show ?thesis using Cons.prems(2) True d t
        by (cases r1; cases "projr r1") (auto simp: x)
    qed
  qed
qed auto

lemma DoRecordSingleThread_target:
  assumes "no_limits (options s)" and "strip_bag (opt_prefix (options s)) \<noteq> []" and "\<not> append_date (options s)"
    and "DoRecordSingleThread takes s = Some (Inr e, s')"
  shows "target_filename s' = strip_bag (opt_prefix (options s)) @ ''.bag''"
proof -
  obtain r s1 where w: "Recorder_StartWriting s = (r, s1)" by (cases "Recorder_StartWriting s")
  have t1: "target_filename s1 = strip_bag (opt_prefix (options s)) @ ''.bag''"
    using StartWriting_target [of s] assms(1-3) w by (simp add: no_limits_def)
  have "named (options s)" using assms(2) by (simp add: named_def)
  from Recorder_StartWriting_frame [OF this] w have o1: "options s1 = options s" "r = Inr ()"
    by (auto simp: session_frame_def)
  have d: "target_filename (snd (CheckDisk s)) = target_filename s \<and> options (snd (CheckDisk s)) = options s" for s
    by (auto simp: CheckDisk_def Let_def split: option.splits)
  let ?s2 = "snd (CheckDisk (s1\<lparr>clock_calls := clock_calls s1 + 1, warn_next := clock s1 (clock_calls s1)\<rparr>))"
  let ?s3 = "?s2\<lparr>clock_calls := clock_calls ?s2 + 1, check_disk_next := AddTime (clock ?s2 (clock_calls ?s2)) 2\<rparr>"
  have "record_while takes ?s3 = Some (Inr e, s')"
    using assms(4) w o1(2) by (simp add: DoRecordSingleThread_def tick_def Let_def case_prod_beta)
  from record_while_target [OF _ this] show ?thesis using assms(1) d t1 o1(1) by simp
qed

end
