(* ===== verification/RecorderFrame.thy ===== *)
theory RecorderFrame
  imports Recording
begin

text \<open>
  What the operations of the recorder, \<open>src/record/recorder.cpp\<close>, do not see: none of them reads the
  queue or \<open>running_\<close>, and they only ever store false in \<open>running_\<close>. So an operation commutes with
  everything the other threads do to these two members, which \<open>framed\<close> states once for all.
\<close>

section \<open>What the recorder's operations do not see\<close>

text \<open>Another state of the queue, and perhaps false stored in \<open>running_\<close>.\<close>

definition beside :: "OutgoingMessage sync_queue \<Rightarrow> bool \<Rightarrow> recorder \<Rightarrow> recorder" where
  "beside q on s = s\<lparr>outmsg_queue := q, rec_running := rec_running s \<and> on\<rparr>"

definition framed :: "(recorder \<Rightarrow> 'a \<times> recorder) \<Rightarrow> bool" where
  "framed f \<longleftrightarrow> (\<forall>q on s. f (beside q on s) = apsnd (beside q on) (f s))"

definition option_framed :: "(recorder \<Rightarrow> ('a \<times> recorder) option) \<Rightarrow> bool" where
  "option_framed f \<longleftrightarrow> (\<forall>q on s. f (beside q on s) = map_option (apsnd (beside q on)) (f s))"

lemma beside_simps [simp]:
  "options (beside q on s) = options s" "rec_bag (beside q on s) = rec_bag s"
  "target_filename (beside q on s) = target_filename s" "write_filename (beside q on s) = write_filename s"
  "current_files (beside q on s) = current_files s" "split_count (beside q on s) = split_count s"
  "start_time (beside q on s) = start_time s" "writing_enabled (beside q on s) = writing_enabled s"
  "check_disk_next (beside q on s) = check_disk_next s" "warn_next (beside q on s) = warn_next s"
  "rec_running (beside q on s) = (rec_running s \<and> on)" "outmsg_queue (beside q on s) = q"
  "rec_disk (beside q on s) = rec_disk s" "clock (beside q on s) = clock s"
  "clock_calls (beside q on s) = clock_calls s" "statvfs (beside q on s) = statvfs s"
  "statvfs_calls (beside q on s) = statvfs_calls s" "localtime (beside q on s) = localtime s"
  "record_thread (beside q on s) = record_thread s"
  by (simp_all add: beside_def)

lemma beside_updates [simp]:
  "(beside q on s)\<lparr>rec_bag := b\<rparr> = beside q on (s\<lparr>rec_bag := b\<rparr>)"
  "(beside q on s)\<lparr>rec_disk := d\<rparr> = beside q on (s\<lparr>rec_disk := d\<rparr>)"
  "(beside q on s)\<lparr>target_filename := n\<rparr> = beside q on (s\<lparr>target_filename := n\<rparr>)"
  "(beside q on s)\<lparr>write_filename := n\<rparr> = beside q on (s\<lparr>write_filename := n\<rparr>)"
  "(beside q on s)\<lparr>current_files := ns\<rparr> = beside q on (s\<lparr>current_files := ns\<rparr>)"
  "(beside q on s)\<lparr>split_count := c\<rparr> = beside q on (s\<lparr>split_count := c\<rparr>)"
  "(beside q on s)\<lparr>start_time := t\<rparr> = beside q on (s\<lparr>start_time := t\<rparr>)"
  "(beside q on s)\<lparr>writing_enabled := w\<rparr> = beside q on (s\<lparr>writing_enabled := w\<rparr>)"
  "(beside q on s)\<lparr>check_disk_next := t\<rparr> = beside q on (s\<lparr>check_disk_next := t\<rparr>)"
  "(beside q on s)\<lparr>warn_next := t\<rparr> = beside q on (s\<lparr>warn_next := t\<rparr>)"
  "(beside q on s)\<lparr>clock_calls := k\<rparr> = beside q on (s\<lparr>clock_calls := k\<rparr>)"
  "(beside q on s)\<lparr>statvfs_calls := k\<rparr> = beside q on (s\<lparr>statvfs_calls := k\<rparr>)"
  "(beside q on s)\<lparr>rec_running := False\<rparr> = beside q on (s\<lparr>rec_running := False\<rparr>)"
  "(beside q on s)\<lparr>outmsg_queue := q'\<rparr> = beside q' on s"
  by (simp_all add: beside_def)

lemma beside_beside [simp]: "beside q on (beside q' on' s) = beside q (on' \<and> on) s"
  by (simp add: beside_def)

lemma beside_self [simp]: "beside (outmsg_queue s) (rec_running s) s = s"
  by (simp add: beside_def)

lemma framedD: "framed f \<Longrightarrow> f (beside q on s) = apsnd (beside q on) (f s)"
  by (simp add: framed_def)

lemma bind_framed:
  "framed f \<Longrightarrow> (\<And>x. framed (g x)) \<Longrightarrow> framed (\<lambda>s. bind_bag (f s) g)"
  by (auto simp: framed_def bind_bag_def split: prod.splits sum.splits)

lemma tick_framed: "framed tick"
  by (simp add: framed_def tick_def)

lemma on_bag_framed: "framed (on_bag f)"
  by (simp add: framed_def on_bag_def Let_def split: prod.splits)

lemma stop_running_framed: "framed stop_running"
  by (simp add: framed_def stop_running_def)

lemma catch_framed: "framed f \<Longrightarrow> framed h \<Longrightarrow> framed (\<lambda>s. catch_msgbag (f s) h)"
  by (auto simp: framed_def catch_msgbag_def split: prod.splits sum.splits error.splits)

lemma StopWriting_framed: "framed Recorder_StopWriting"
  by (auto simp: framed_def Recorder_StopWriting_def tick_def Let_def bind_bag_def framedD [OF on_bag_framed] split: prod.splits sum.splits)

lemma filename_parts_framed: "framed filename_parts"
  by (auto simp: framed_def filename_parts_def tick_def Let_def split: prod.splits)

lemma UpdateFilename_framed: "framed UpdateFilename"
  by (auto simp: framed_def UpdateFilename_def Let_def framedD [OF filename_parts_framed] split: prod.splits list.splits)

lemma StartWriting_framed: "framed Recorder_StartWriting"
proof -
  have "framed (\<lambda>s. bind_bag (UpdateFilename s) (\<lambda>_ s. let (now, s) = tick s
      in catch_msgbag (on_bag (Bag_Open now (write_filename s) BagMode_Write) s) stop_running))"
    by (rule bind_framed [OF UpdateFilename_framed])
      (auto simp: framed_def tick_def Let_def framedD [OF catch_framed [OF on_bag_framed stop_running_framed]])
  then show ?thesis by (simp add: framed_def Recorder_StartWriting_def Let_def)
qed

lemma CheckNumSplits_beside [simp]: "CheckNumSplits (beside q on s) = beside q on (CheckNumSplits s)"
  by (simp add: CheckNumSplits_def Let_def split: prod.splits)

lemma CheckSize_framed: "framed CheckSize"
proof -
  have "framed (\<lambda>s. bind_bag (Recorder_StartWriting (CheckNumSplits (s\<lparr>split_count := split_count s + 1\<rparr>)))
      (\<lambda>_ s. (Inr False :: bool res, s)))"
    by (auto simp: framed_def bind_bag_def framedD [OF StartWriting_framed] split: prod.splits sum.splits)
  then have "framed (\<lambda>s. bind_bag (Recorder_StopWriting s) (\<lambda>_ s.
      bind_bag (Recorder_StartWriting (CheckNumSplits (s\<lparr>split_count := split_count s + 1\<rparr>)))
        (\<lambda>_ s. (Inr False :: bool res, s))))"
    by (rule bind_framed [OF StopWriting_framed])
  then show ?thesis by (simp add: framed_def CheckSize_def)
qed

lemma duration_step_framed: "framed duration_step"
  unfolding duration_step_def
  by (rule bind_framed [OF StopWriting_framed]) (simp add: framed_def Let_def framedD [OF StartWriting_framed])

text \<open>The loop of \<open>CheckDuration\<close> ends in both states or in neither.\<close>

lemmas duration_loop_ends_induct = duration_loop.raw_induct [rotated, consumes 1, case_names step]

lemma duration_loop_beside:
  "duration_loop time s = Some y \<Longrightarrow> duration_loop time (beside q on s) = Some (apsnd (beside q on) y)"
proof (induction time s y rule: duration_loop_ends_induct)
  case (step loop time s y)
  show ?case
  proof (cases "ts_less (AddTime (start_time s) (max_duration (options s))) time")
    case True
    obtain r s' where d: "duration_step s = (r, s')" by (cases "duration_step s")
    then have d': "duration_step (beside q on s) = (r, beside q on s')"
      by (simp add: framedD [OF duration_step_framed])
    show ?thesis
    proof (cases r)
      case (Inl e)
      with step(2) d d' True show ?thesis by (subst duration_loop.simps) auto
    next
      case (Inr u)
      with step(2) d True have "loop time s' = Some y" by simp
      from step(1) [OF this] Inr d' True show ?thesis by (subst duration_loop.simps) auto
    qed
  next
    case False
    with step(2) show ?thesis by (subst duration_loop.simps) auto
  qed
qed

lemma duration_loop_beside_ends:
  "duration_loop time s' = Some y \<Longrightarrow> s' = beside q on s \<Longrightarrow> duration_loop time s \<noteq> None"
proof (induction time s' y arbitrary: s rule: duration_loop_ends_induct)
  case (step loop time s' y)
  show ?case
  proof (cases "ts_less (AddTime (start_time s) (max_duration (options s))) time")
    case True
    obtain r s1 where d: "duration_step s = (r, s1)" by (cases "duration_step s")
    with step(3) have d': "duration_step s' = (r, beside q on s1)"
      by (simp add: framedD [OF duration_step_framed])
    show ?thesis
    proof (cases r)
      case (Inl e)
      with d True show ?thesis by (subst duration_loop.simps) auto
    next
      case (Inr u)
      with step(2,3) d' True have "loop time (beside q on s1) = Some y" by simp
      from step(1) [OF this refl] Inr d True show ?thesis by (subst duration_loop.simps) auto
    qed
  next
    case False
    then show ?thesis by (subst duration_loop.simps) auto
  qed
qed

lemma duration_loop_framed: "option_framed (duration_loop time)"
  unfolding option_framed_def
proof (intro allI)
  fix q on s
  show "duration_loop time (beside q on s) = map_option (apsnd (beside q on)) (duration_loop time s)"
  proof (cases "duration_loop time s")
    case None
    with duration_loop_beside_ends [OF _ refl] have "duration_loop time (beside q on s) = None"
      by (metis not_None_eq)
    with None show ?thesis by simp
  next
    case (Some y)
    with duration_loop_beside [OF this] show ?thesis by simp
  qed
qed

lemma CheckDuration_framed: "option_framed (CheckDuration time)"
proof -
  have "map_option (\<lambda>m. bind_bag m (\<lambda>_ s. (Inr False, s))) (map_option (apsnd (beside q on)) x) =
    map_option (apsnd (beside q on)) (map_option (\<lambda>m. bind_bag m (\<lambda>_ s. (Inr False :: bool res, s))) x)"
    for q on and x :: "(unit res \<times> recorder) option"
    by (cases x) (auto simp: bind_bag_def split: prod.splits sum.splits)
  with duration_loop_framed [of time] show ?thesis
    by (simp add: option_framed_def CheckDuration_def)
qed

lemma CheckDisk_framed: "framed CheckDisk"
  by (auto simp: framed_def CheckDisk_def Let_def split: option.splits)

lemma ScheduledCheckDisk_framed: "framed ScheduledCheckDisk"
  by (auto simp: framed_def ScheduledCheckDisk_def tick_def Let_def framedD [OF CheckDisk_framed])

lemma CheckLogging_framed: "framed CheckLogging"
  by (auto simp: framed_def CheckLogging_def tick_def Let_def)

lemma set_running_beside [simp]: "set_running hit (beside q on s) = beside q on (set_running hit s)"
  by (simp add: set_running_def)

lemma write_if_logging_framed: "framed (write_if_logging m)"
  by (auto simp: framed_def write_if_logging_def Let_def framedD [OF ScheduledCheckDisk_framed]
      framedD [OF CheckLogging_framed] framedD [OF catch_framed [OF on_bag_framed stop_running_framed]] split: prod.splits)

lemma DoWrite_framed: "option_framed (DoWrite m)"
proof -
  have w: "map_option (\<lambda>r. bind_bag r (\<lambda>hit s. write_if_logging m (set_running hit s))) (map_option (apsnd (beside q on)) x) =
    map_option (apsnd (beside q on)) (map_option (\<lambda>r. bind_bag r (\<lambda>hit s. write_if_logging m (set_running hit s))) x)"
    for q on x
    by (cases x) (auto simp: bind_bag_def framedD [OF write_if_logging_framed] split: prod.splits sum.splits)
  show ?thesis
    unfolding option_framed_def
  proof (intro allI)
    fix q on s
    obtain r s' where c: "CheckSize s = (r, s')" by (cases "CheckSize s")
    show "DoWrite m (beside q on s) = map_option (apsnd (beside q on)) (DoWrite m s)"
    proof (cases r)
      case (Inl e)
      with c show ?thesis by (simp add: DoWrite_def framedD [OF CheckSize_framed])
    next
      case (Inr hit)
      with c CheckDuration_framed [of "om_time m"] show ?thesis
        by (simp add: DoWrite_def framedD [OF CheckSize_framed] option_framed_def w)
    qed
  qed
qed

end
