(* ===== verification/RecorderThreads.thy ===== *)
theory RecorderThreads
  imports RecorderFrame
begin

text \<open>
  The threads of the recorder, \<open>src/record/recorder.h\<close> and \<open>recorder.cpp\<close>: the handlers that the
  message bus calls, the recording thread and \<open>Stop\<close> meet in the queue and in \<open>running_\<close>. A step is
  one step of the queue (theory SyncQueue), one move of the recording thread through the loop of
  \<open>DoRecordSingleThread\<close>, or one statement of \<open>Stop\<close>. The test of \<open>running_\<close> before a message and
  the call of \<open>DoWrite\<close> are two steps, so that \<open>Stop\<close> may fall between them. \<open>DoWrite\<close> is one step: it
  shares only the store of false in \<open>running_\<close> with the other threads, and never reads it. A test of
  \<open>running_\<close> and the entry into \<open>Put\<close> or \<open>Take\<close> are one step, since entering changes nothing that is
  shared: the critical section is a step of its own. The last part
  ties every interleaving to a sequential run of \<open>DoRecordSingleThread\<close>.
\<close>

section \<open>The threads\<close>

text \<open>\<open>DoRecordSingleThread\<close> up to its loop.\<close>

definition record_prologue :: "unit recording" where
  "record_prologue s =
     bind_bag (Recorder_StartWriting s) (\<lambda>_ s.
       let (now, s) = tick s;
           (disk_ok, s) = CheckDisk (s\<lparr>warn_next := now\<rparr>);
           (now, s) = tick s
       in (Inr (), s\<lparr>check_disk_next := AddTime now 2\<rparr>))"

text \<open>Where the recording thread is: before the loop, at the test of the loop, in \<open>Take\<close>, in the
  \<open>for\<close> loop with the messages it has still to write, past the test of \<open>running_\<close> for a message, returned, ended by an exception, or in the loop
  of \<open>CheckDuration\<close> for good.\<close>

datatype thread_pc = Starts | AtTest | InTake | InFor "OutgoingMessage list"
  | InWrite OutgoingMessage "OutgoingMessage list" | ReturnedFrom | Threw error | NeverReturns

text \<open>\<open>stop_at\<close> is the progress of \<open>Stop\<close>: before it; \<open>running_\<close> is false; the three steps of
  \<open>outmsg_queueu_.Stop()\<close>; the thread is joined; \<open>StopWriting\<close> is done. The last fields are history:
  the messages handed to \<open>DoWrite\<close>, and those the thread had taken and dropped.\<close>

record rec_system =
  robj :: recorder
  rq :: "OutgoingMessage sq_system"
  pc :: thread_pc
  stop_at :: nat
  stop_result :: "unit res"
  handled :: "OutgoingMessage list"
  dropped :: "OutgoingMessage list"

definition rec_system_start :: "recorder \<Rightarrow> rec_system" where
  "rec_system_start r =
     \<lparr>robj = r\<lparr>outmsg_queue := obj (sq_init MAX_TASK_COUNT)\<rparr>, rq = sq_init MAX_TASK_COUNT, pc = Starts,
      stop_at = 0, stop_result = Inr (), handled = [], dropped = []\<rparr>"

text \<open>One step of the queue changes the member of the recorder.\<close>

definition queue_now :: "OutgoingMessage sq_system \<Rightarrow> rec_system \<Rightarrow> rec_system" where
  "queue_now q s = s\<lparr>rq := q, robj := (robj s)\<lparr>outmsg_queue := obj q\<rparr>\<rparr>"

text \<open>The handlers: \<open>MsgHandler\<close> tests \<open>running_\<close> and calls \<open>Put\<close>; the moves inside \<open>Put\<close> and \<open>Take\<close>,
  falling asleep and waking up among them, are silent steps of the queue.\<close>

inductive handler_step :: "rec_system \<Rightarrow> rec_system \<Rightarrow> bool" for s where
  handler_puts:
    "rec_running (robj s) \<Longrightarrow> sq_step (rq s) (CallPut p \<lparr>om_time = now, om_topic = t, om_msg = str_msg\<rparr>) q \<Longrightarrow>
     handler_step s (queue_now q s)"
| handler_ignores: "\<not> rec_running (robj s) \<Longrightarrow> handler_step s s"
| queue_moves: "sq_step (rq s) Tau q \<Longrightarrow> handler_step s (queue_now q s)"

text \<open>The recording thread is thread 0 of the queue.\<close>

inductive record_step :: "rec_system \<Rightarrow> rec_system \<Rightarrow> bool" for s where
  thread_starts:
    "pc s = Starts \<Longrightarrow> record_prologue (robj s) = (Inr (), r) \<Longrightarrow>
     record_step s (s\<lparr>robj := r, pc := AtTest\<rparr>)"
| start_throws:
    "pc s = Starts \<Longrightarrow> record_prologue (robj s) = (Inl e, r) \<Longrightarrow>
     record_step s (s\<lparr>robj := r, pc := Threw e\<rparr>)"
| loop_takes:
    "pc s = AtTest \<Longrightarrow> rec_running (robj s) \<Longrightarrow> sq_step (rq s) (CallTake 0) q \<Longrightarrow>
     record_step s (queue_now q (s\<lparr>pc := InTake\<rparr>))"
| loop_ends: "pc s = AtTest \<Longrightarrow> \<not> rec_running (robj s) \<Longrightarrow> record_step s (s\<lparr>pc := ReturnedFrom\<rparr>)"
| take_ends:
    "pc s = InTake \<Longrightarrow> sq_step (rq s) (TakeReturns 0 ms) q \<Longrightarrow>
     record_step s (queue_now q (s\<lparr>pc := InFor ms\<rparr>))"
| for_ends: "pc s = InFor [] \<Longrightarrow> record_step s (s\<lparr>pc := AtTest\<rparr>)"
| for_returns:
    "pc s = InFor (m # ms) \<Longrightarrow> \<not> rec_running (robj s) \<Longrightarrow>
     record_step s (s\<lparr>pc := ReturnedFrom, dropped := m # ms\<rparr>)"
| for_tests:
    "pc s = InFor (m # ms) \<Longrightarrow> rec_running (robj s) \<Longrightarrow> record_step s (s\<lparr>pc := InWrite m ms\<rparr>)"
| writes:
    "pc s = InWrite m ms \<Longrightarrow> DoWrite m (robj s) = Some (Inr u, r) \<Longrightarrow>
     record_step s (s\<lparr>robj := r, pc := InFor ms, handled := handled s @ [m]\<rparr>)"
| write_throws:
    "pc s = InWrite m ms \<Longrightarrow> DoWrite m (robj s) = Some (Inl e, r) \<Longrightarrow>
     record_step s (s\<lparr>robj := r, pc := Threw e, handled := handled s @ [m], dropped := ms\<rparr>)"
| write_loops:
    "pc s = InWrite m ms \<Longrightarrow> DoWrite m (robj s) = None \<Longrightarrow>
     record_step s (s\<lparr>pc := NeverReturns, handled := handled s @ [m], dropped := ms\<rparr>)"

text \<open>\<open>Stop\<close>, one statement after the other; the join waits for the thread's function to return.\<close>

inductive stop_step :: "rec_system \<Rightarrow> rec_system \<Rightarrow> bool" for s where
  clears_running:
    "stop_at s = 0 \<Longrightarrow> stop_step s (s\<lparr>robj := (robj s)\<lparr>rec_running := False\<rparr>, stop_at := 1\<rparr>)"
| stops_queue:
    "stop_at s = Suc k \<Longrightarrow> k < 3 \<Longrightarrow> sq_step (rq s) (StopStep k) q \<Longrightarrow>
     stop_step s (queue_now q (s\<lparr>stop_at := Suc (Suc k)\<rparr>))"
| joins: "stop_at s = 4 \<Longrightarrow> pc s = ReturnedFrom \<Longrightarrow> stop_step s (s\<lparr>stop_at := 5\<rparr>)"
| closes:
    "stop_at s = 5 \<Longrightarrow> Recorder_StopWriting (robj s) = (res, r) \<Longrightarrow>
     stop_step s (s\<lparr>robj := r, stop_at := 6, stop_result := res\<rparr>)"

inductive rec_reachable :: "recorder \<Rightarrow> rec_system \<Rightarrow> bool" for r where
  start: "rec_reachable r (rec_system_start r)"
| handler: "rec_reachable r s \<Longrightarrow> handler_step s s' \<Longrightarrow> rec_reachable r s'"
| recorder: "rec_reachable r s \<Longrightarrow> record_step s s' \<Longrightarrow> rec_reachable r s'"
| stopper: "rec_reachable r s \<Longrightarrow> stop_step s s' \<Longrightarrow> rec_reachable r s'"

inductive_cases handler_stepE: "handler_step s s'"
inductive_cases record_stepE: "record_step s s'"
inductive_cases stop_stepE: "stop_step s s'"

lemma queue_now_simps [simp]:
  "robj (queue_now q s) = (robj s)\<lparr>outmsg_queue := obj q\<rparr>" "rq (queue_now q s) = q" "pc (queue_now q s) = pc s"
  "stop_at (queue_now q s) = stop_at s" "stop_result (queue_now q s) = stop_result s"
  "handled (queue_now q s) = handled s" "dropped (queue_now q s) = dropped s"
  by (simp_all add: queue_now_def)

text \<open>The queue of the recorder goes through states of the queue alone.\<close>

lemma rec_queue_reachable: "rec_reachable r s \<Longrightarrow> sq_reachable MAX_TASK_COUNT (rq s)"
  by (induction rule: rec_reachable.induct)
    (auto simp: rec_system_start_def elim!: handler_stepE record_stepE stop_stepE
      intro: sq_reachable.init sq_reachable.step)

section \<open>Where the messages are\<close>

definition in_hand :: "rec_system \<Rightarrow> OutgoingMessage list" where
  "in_hand s = (case pc s of InFor ms \<Rightarrow> ms | InWrite m ms \<Rightarrow> m # ms | _ \<Rightarrow> [])"

definition hand_inv :: "rec_system \<Rightarrow> bool" where
  "hand_inv s \<longleftrightarrow> concat (map snd (delivered (rq s))) = handled s @ in_hand s @ dropped s \<and>
     (dropped s \<noteq> [] \<longrightarrow> pc s = ReturnedFrom \<or> (\<exists>e. pc s = Threw e) \<or> pc s = NeverReturns)"

lemma hand_inv_reachable: "rec_reachable r s \<Longrightarrow> hand_inv s"
proof (induction rule: rec_reachable.induct)
  case start
  then show ?case by (simp add: hand_inv_def rec_system_start_def in_hand_def sq_init_def)
next
  case (handler s s')
  from handler(2,3) show ?case
    by (auto simp: hand_inv_def in_hand_def elim!: handler_stepE dest!: sq_step_delivered)
next
  case (recorder s s')
  note inv = recorder(3) [unfolded hand_inv_def in_hand_def]
  from recorder(2) show ?case
  proof (cases rule: record_step.cases)
    case (loop_takes q)
    with inv sq_step_delivered [OF loop_takes(4)] show ?thesis by (simp add: hand_inv_def in_hand_def)
  next
    case (take_ends ms q)
    with inv sq_step_delivered [OF take_ends(3)] show ?thesis by (auto simp: hand_inv_def in_hand_def)
  qed (use inv in \<open>simp_all add: hand_inv_def in_hand_def\<close>)
next
  case (stopper s s')
  note inv = stopper(3) [unfolded hand_inv_def in_hand_def]
  from stopper(2) show ?case
  proof (cases rule: stop_step.cases)
    case (stops_queue k q)
    with inv sq_step_delivered [OF stops_queue(4)] show ?thesis by (simp add: hand_inv_def in_hand_def)
  qed (use inv in \<open>simp_all add: hand_inv_def in_hand_def\<close>)
qed

section \<open>The progress of Stop\<close>

definition progress_inv :: "rec_system \<Rightarrow> bool" where
  "progress_inv s \<longleftrightarrow> stop_at s \<le> 6 \<and> stop_pc (rq s) = min (stop_at s - 1) 3 \<and>
     (0 < stop_at s \<longrightarrow> \<not> rec_running (robj s)) \<and> (5 \<le> stop_at s \<longrightarrow> pc s = ReturnedFrom) \<and>
     takers (rq s) = (if pc s = InTake then {#0#} else {#}) \<and> outmsg_queue (robj s) = obj (rq s)"

lemma framed_keeps:
  assumes "framed f" and "f s = (r, s')"
  shows "outmsg_queue s' = outmsg_queue s \<and> (rec_running s' \<longrightarrow> rec_running s)"
  using framedD [OF assms(1), of "outmsg_queue s" "rec_running s" s] assms(2)
  by (auto simp: prod_eq_iff) (metis beside_simps(11,12))+

lemma DoWrite_keeps:
  assumes "DoWrite m s = Some (r, s')"
  shows "outmsg_queue s' = outmsg_queue s \<and> (rec_running s' \<longrightarrow> rec_running s)"
proof -
  from DoWrite_framed [of m] have "DoWrite m (beside (outmsg_queue s) (rec_running s) s) =
      map_option (apsnd (beside (outmsg_queue s) (rec_running s))) (DoWrite m s)"
    unfolding option_framed_def by blast
  with assms have "s' = beside (outmsg_queue s) (rec_running s) s'" by simp
  then show ?thesis by (metis beside_simps(11,12))
qed

lemma record_prologue_framed: "framed record_prologue"
  unfolding record_prologue_def
  by (rule bind_framed [OF StartWriting_framed])
    (auto simp: framed_def Let_def tick_def framedD [OF CheckDisk_framed] split: prod.splits)

lemma sq_step_call_obj: "sq_step s (CallPut p x) s' \<Longrightarrow> obj s' = obj s" "sq_step s (CallTake c) s' \<Longrightarrow> obj s' = obj s"
  by (auto elim: sq_step.cases)

lemma progress_inv_reachable: "rec_reachable r s \<Longrightarrow> progress_inv s"
proof (induction rule: rec_reachable.induct)
  case start
  then show ?case by (simp add: progress_inv_def rec_system_start_def sq_init_def takers_def)
next
  case (handler s s')
  from handler(2,3) show ?case
    by (auto simp: progress_inv_def elim!: handler_stepE dest: sq_step_takers sq_step_stop_pc)
next
  case (recorder s s')
  note inv = recorder(3) [unfolded progress_inv_def]
  from recorder(2) show ?case
  proof (cases rule: record_step.cases)
    case (thread_starts r)
    with inv framed_keeps [OF record_prologue_framed thread_starts(3)] show ?thesis by (auto simp: progress_inv_def)
  next
    case (start_throws e r)
    with inv framed_keeps [OF record_prologue_framed start_throws(3)] show ?thesis by (auto simp: progress_inv_def)
  next
    case (loop_takes q)
    with inv sq_step_takers [OF loop_takes(4)] sq_step_stop_pc [OF loop_takes(4)] show ?thesis
      by (simp add: progress_inv_def)
  next
    case (take_ends ms q)
    with inv sq_step_takers [OF take_ends(3)] sq_step_stop_pc [OF take_ends(3)] show ?thesis
      by (simp add: progress_inv_def)
  next
    case (writes m ms u r)
    with inv DoWrite_keeps [OF writes(3)] show ?thesis by (auto simp: progress_inv_def)
  next
    case (write_throws m ms e r)
    with inv DoWrite_keeps [OF write_throws(3)] show ?thesis by (auto simp: progress_inv_def)
  qed (use inv in \<open>auto simp: progress_inv_def\<close>)
next
  case (stopper s s')
  note inv = stopper(3) [unfolded progress_inv_def]
  from stopper(2) show ?case
  proof (cases rule: stop_step.cases)
    case (stops_queue k q)
    with inv sq_step_takers [OF stops_queue(4)] sq_step_stop_pc [OF stops_queue(4)] show ?thesis
      by (auto simp: progress_inv_def)
  next
    case (closes res r)
    with inv framed_keeps [OF StopWriting_framed closes(3)] show ?thesis by (auto simp: progress_inv_def)
  qed (use inv in \<open>auto simp: progress_inv_def\<close>)
qed

section \<open>Every interleaving is a sequential recording\<close>

text \<open>The run of the recording thread alone on the messages handled so far.\<close>

definition alone :: "recorder \<Rightarrow> OutgoingMessage list \<Rightarrow> (thread_end res \<times> recorder) option" where
  "alone r ms =
     (case record_prologue r of
        (Inl e, t) \<Rightarrow> Some (Inl e, t)
      | (Inr _, t) \<Rightarrow> record_for (map (Pair False) ms) t)"

definition as_robj :: "rec_system \<Rightarrow> recorder \<Rightarrow> bool" where
  "as_robj s t \<longleftrightarrow> robj s = beside (outmsg_queue (robj s)) (rec_running (robj s)) t"

text \<open>The recorder is where the run alone left it, and closed at the end of \<open>Stop\<close>.\<close>

definition settled :: "rec_system \<Rightarrow> recorder \<Rightarrow> bool" where
  "settled s t \<longleftrightarrow>
     (if stop_at s = 6 then \<exists>t'. Recorder_StopWriting t = (stop_result s, t') \<and> as_robj s t' else as_robj s t)"

definition alone_inv :: "recorder \<Rightarrow> rec_system \<Rightarrow> bool" where
  "alone_inv r s \<longleftrightarrow>
     (case pc s of
        Starts \<Rightarrow> handled s = [] \<and> as_robj s r
      | Threw e \<Rightarrow> \<exists>t. alone r (handled s) = Some (Inl e, t) \<and> as_robj s t
      | NeverReturns \<Rightarrow> alone r (handled s) = None
      | InWrite m ms \<Rightarrow> \<exists>t. alone r (handled s) = Some (Inr ThreadWaiting, t) \<and> as_robj s t \<and> rec_running t
      | _ \<Rightarrow> \<exists>t. alone r (handled s) = Some (Inr ThreadWaiting, t) \<and> settled s t)"

lemma record_for_snoc:
  "record_for (xs @ [(False, m)]) s =
     (case record_for xs s of
        Some (Inr ThreadWaiting, t) \<Rightarrow>
          if \<not> rec_running t then Some (Inr ThreadReturned, t)
          else (case DoWrite m t of
                  None \<Rightarrow> None
                | Some (Inl e, t) \<Rightarrow> Some (Inl e, t)
                | Some (Inr _, t) \<Rightarrow> Some (Inr ThreadWaiting, t))
      | x \<Rightarrow> x)"
  by (induction xs s rule: record_for.induct)
    (auto simp: set_running_def Let_def split: option.splits sum.splits prod.splits thread_end.splits)

lemma alone_snoc:
  assumes "alone r ms = Some (Inr ThreadWaiting, t)" and "rec_running t"
  shows "alone r (ms @ [m]) =
    (case DoWrite m t of
       None \<Rightarrow> None
     | Some (Inl e, t) \<Rightarrow> Some (Inl e, t)
     | Some (Inr _, t) \<Rightarrow> Some (Inr ThreadWaiting, t))"
  using assms by (auto simp: alone_def record_for_snoc split: prod.splits sum.splits)

lemma as_robj_running: "as_robj s t \<Longrightarrow> rec_running (robj s) \<Longrightarrow> rec_running t"
  unfolding as_robj_def by (metis beside_simps(11))

lemma as_robj_DoWrite:
  assumes "as_robj s t"
  shows "DoWrite m (robj s) = map_option (apsnd (beside (outmsg_queue (robj s)) (rec_running (robj s)))) (DoWrite m t)"
  using assms DoWrite_framed [of m] unfolding as_robj_def option_framed_def by metis

lemma as_robj_beside: "robj s' = beside q on t \<Longrightarrow> as_robj s' t"
  by (simp add: as_robj_def beside_def)

lemma as_robj_trans:
  assumes "as_robj s t" and "robj s' = beside q on (robj s)"
  shows "as_robj s' t"
proof -
  have "robj s' = beside q (rec_running (robj s) \<and> on) t"
    using assms(1) [unfolded as_robj_def] assms(2) by (metis beside_beside)
  then show ?thesis by (rule as_robj_beside)
qed

lemma beside_queue: "r\<lparr>outmsg_queue := q\<rparr> = beside q True r"
  by (simp add: beside_def)

lemma beside_off: "r\<lparr>rec_running := False\<rparr> = beside (outmsg_queue r) False r"
  by (simp add: beside_def)

lemma alone_inv_queue: "alone_inv r s \<Longrightarrow> alone_inv r (queue_now q s)"
proof -
  have "as_robj (queue_now q s) t" if "as_robj s t" for t
    by (rule as_robj_trans [OF that]) (simp add: beside_queue)
  then show "alone_inv r s \<Longrightarrow> alone_inv r (queue_now q s)"
    by (auto simp: alone_inv_def settled_def split: thread_pc.splits if_splits)
qed

text \<open>A move of the thread that leaves the recorder as it is.\<close>

lemma alone_inv_pc:
  assumes "alone_inv r s" and "pc s \<in> {AtTest, InTake, ReturnedFrom} \<union> range InFor"
    and "pc' \<in> {AtTest, InTake, ReturnedFrom} \<union> range InFor"
  shows "alone_inv r (s\<lparr>pc := pc'\<rparr>)" and "alone_inv r (s\<lparr>pc := pc', dropped := ds\<rparr>)"
proof -
  have "settled (s\<lparr>pc := pc'\<rparr>) = settled s" "settled (s\<lparr>pc := pc', dropped := ds\<rparr>) = settled s"
    by (simp_all add: settled_def as_robj_def fun_eq_iff)
  with assms show "alone_inv r (s\<lparr>pc := pc'\<rparr>)" "alone_inv r (s\<lparr>pc := pc', dropped := ds\<rparr>)"
    by (auto simp: alone_inv_def)
qed

lemma alone_inv_writes:
  assumes "alone_inv r s" and "pc s = InWrite m ms"
  obtains t where "as_robj s t" and "alone r (handled s @ [m]) =
    (case DoWrite m t of
       None \<Rightarrow> None
     | Some (Inl e, t) \<Rightarrow> Some (Inl e, t)
     | Some (Inr _, t) \<Rightarrow> Some (Inr ThreadWaiting, t))"
    and "DoWrite m (robj s) = map_option (apsnd (beside (outmsg_queue (robj s)) (rec_running (robj s)))) (DoWrite m t)"
proof -
  from assms obtain t where t: "alone r (handled s) = Some (Inr ThreadWaiting, t)" "as_robj s t" "rec_running t"
    by (auto simp: alone_inv_def)
  from alone_snoc [OF t(1,3)] as_robj_DoWrite [OF t(2)] t(2) that show ?thesis by blast
qed

lemma alone_inv_record_step:
  assumes "record_step s s'" and "alone_inv r s" and "stop_at s = 6 \<longrightarrow> pc s = ReturnedFrom"
  shows "alone_inv r s'"
  using assms(1)
proof (cases rule: record_step.cases)
  case (thread_starts t)
  with assms(2) have "handled s = []" "as_robj s r" by (simp_all add: alone_inv_def)
  with thread_starts framedD [OF record_prologue_framed, of "outmsg_queue (robj s)" "rec_running (robj s)" r]
  obtain t' where "record_prologue r = (Inr (), t')" "t = beside (outmsg_queue (robj s)) (rec_running (robj s)) t'"
    by (cases "record_prologue r") (auto simp: as_robj_def)
  with thread_starts assms(3) \<open>handled s = []\<close> show ?thesis
    by (auto simp: alone_inv_def settled_def alone_def intro: as_robj_beside)
next
  case (start_throws e t)
  with assms(2) have "handled s = []" "as_robj s r" by (simp_all add: alone_inv_def)
  with start_throws framedD [OF record_prologue_framed, of "outmsg_queue (robj s)" "rec_running (robj s)" r]
  obtain t' where "record_prologue r = (Inl e, t')" "t = beside (outmsg_queue (robj s)) (rec_running (robj s)) t'"
    by (cases "record_prologue r") (auto simp: as_robj_def)
  with start_throws \<open>handled s = []\<close> show ?thesis
    by (auto simp: alone_inv_def settled_def alone_def intro: as_robj_beside)
next
  case (for_tests m ms)
  with assms(2,3) obtain t where t: "alone r (handled s) = Some (Inr ThreadWaiting, t)" "as_robj s t"
    by (auto simp: alone_inv_def settled_def)
  with as_robj_running [OF t(2) for_tests(3)] show ?thesis by (auto simp: for_tests(1) alone_inv_def as_robj_def)
next
  case (writes m ms u t1)
  with assms(3) have n: "stop_at s \<noteq> 6" by auto
  from alone_inv_writes [OF assms(2) writes(2)] obtain t where
    t: "alone r (handled s @ [m]) = (case DoWrite m t of None \<Rightarrow> None
          | Some (Inl e, t) \<Rightarrow> Some (Inl e, t) | Some (Inr _, t) \<Rightarrow> Some (Inr ThreadWaiting, t))"
      "DoWrite m (robj s) = map_option (apsnd (beside (outmsg_queue (robj s)) (rec_running (robj s)))) (DoWrite m t)" by blast
  with writes(3) obtain t2 where "DoWrite m t = Some (Inr u, t2)" "t1 = beside (outmsg_queue (robj s)) (rec_running (robj s)) t2" by auto
  with t(1) writes(1) n show ?thesis by (auto simp: alone_inv_def settled_def intro: as_robj_beside)
next
  case (write_throws m ms e t1)
  from alone_inv_writes [OF assms(2) write_throws(2)] obtain t where
    t: "alone r (handled s @ [m]) = (case DoWrite m t of None \<Rightarrow> None
          | Some (Inl e, t) \<Rightarrow> Some (Inl e, t) | Some (Inr _, t) \<Rightarrow> Some (Inr ThreadWaiting, t))"
      "DoWrite m (robj s) = map_option (apsnd (beside (outmsg_queue (robj s)) (rec_running (robj s)))) (DoWrite m t)" by blast
  with write_throws(3) obtain t2 where "DoWrite m t = Some (Inl e, t2)" "t1 = beside (outmsg_queue (robj s)) (rec_running (robj s)) t2" by auto
  with t(1) write_throws(1) show ?thesis by (auto simp: alone_inv_def settled_def intro: as_robj_beside)
next
  case (write_loops m ms)
  from alone_inv_writes [OF assms(2) write_loops(2)] obtain t where
    t: "alone r (handled s @ [m]) = (case DoWrite m t of None \<Rightarrow> None
          | Some (Inl e, t) \<Rightarrow> Some (Inl e, t) | Some (Inr _, t) \<Rightarrow> Some (Inr ThreadWaiting, t))"
      "DoWrite m (robj s) = map_option (apsnd (beside (outmsg_queue (robj s)) (rec_running (robj s)))) (DoWrite m t)" by blast
  with write_loops show ?thesis by (simp add: alone_inv_def)
qed (use assms(2) in \<open>auto intro!: alone_inv_pc alone_inv_queue\<close>)

lemma alone_inv_stop_step:
  assumes "stop_step s s'" and "alone_inv r s" and "5 \<le> stop_at s \<longrightarrow> pc s = ReturnedFrom"
  shows "alone_inv r s'"
  using assms(1)
proof (cases rule: stop_step.cases)
  case clears_running
  have "as_robj s' t" if "as_robj s t" for t
    by (rule as_robj_trans [OF that]) (simp add: clears_running beside_off)
  with assms(2) clears_running show ?thesis by (auto simp: alone_inv_def settled_def split: thread_pc.splits)
next
  case (stops_queue k q)
  have "alone_inv r (s\<lparr>stop_at := Suc (Suc k)\<rparr>)"
    using assms(2) stops_queue(2,3) by (auto simp: alone_inv_def settled_def as_robj_def split: thread_pc.splits)
  with stops_queue(1) show ?thesis by (simp add: alone_inv_queue)
next
  case joins
  with assms(2) show ?thesis by (auto simp: alone_inv_def settled_def as_robj_def)
next
  case (closes res t1)
  with assms(2,3) obtain t where t: "alone r (handled s) = Some (Inr ThreadWaiting, t)" "as_robj s t"
    by (auto simp: alone_inv_def settled_def)
  with closes(3) framedD [OF StopWriting_framed, of "outmsg_queue (robj s)" "rec_running (robj s)" t]
  obtain t' where "Recorder_StopWriting t = (res, t')" "t1 = beside (outmsg_queue (robj s)) (rec_running (robj s)) t'"
    by (cases "Recorder_StopWriting t") (auto simp: as_robj_def)
  with t(1) closes assms(3) show ?thesis by (auto simp: alone_inv_def settled_def intro: as_robj_beside)
qed

lemma alone_inv_reachable: "rec_reachable r s \<Longrightarrow> alone_inv r s"
proof (induction rule: rec_reachable.induct)
  case start
  then show ?case by (simp add: alone_inv_def rec_system_start_def as_robj_def beside_def)
next
  case (handler s s')
  from handler(2,3) show ?case by (auto elim!: handler_stepE intro: alone_inv_queue)
next
  case (recorder s s')
  from progress_inv_reachable [OF recorder(1)] have "stop_at s = 6 \<longrightarrow> pc s = ReturnedFrom" by (simp add: progress_inv_def)
  from alone_inv_record_step [OF recorder(2,3) this] show ?case .
next
  case (stopper s s')
  from progress_inv_reachable [OF stopper(1)] have "5 \<le> stop_at s \<longrightarrow> pc s = ReturnedFrom" by (simp add: progress_inv_def)
  from alone_inv_stop_step [OF stopper(2,3) this] show ?case .
qed

lemma DoRecordSingleThread_prologue:
  "DoRecordSingleThread taken s =
     (case record_prologue s of (Inl e, t) \<Rightarrow> Some (Inl e, t) | (Inr _, t) \<Rightarrow> record_while taken t)"
  by (auto simp: DoRecordSingleThread_def record_prologue_def bind_bag_def Let_def tick_def split: prod.splits sum.splits)

lemma alone_sequential:
  assumes "alone r ms = Some (Inr ThreadWaiting, t)"
  shows "\<exists>e. DoRecordSingleThread (batches [ms]) r = Some (Inr e, t)"
proof -
  from assms obtain t0 where p: "record_prologue r = (Inr (), t0)" "record_for (map (Pair False) ms) t0 = Some (Inr ThreadWaiting, t)"
    by (auto simp: alone_def split: prod.splits sum.splits)
  show ?thesis
  proof (cases "rec_running t0")
    case True
    with p show ?thesis by (simp add: DoRecordSingleThread_prologue batches_def set_running_def)
  next
    case False
    with p(2) have "t = t0" by (cases ms) (simp_all add: set_running_def)
    with p False show ?thesis by (simp add: DoRecordSingleThread_prologue batches_def set_running_def)
  qed
qed

lemma Recorder_Stop_alone:
  assumes "Recorder_Stop t = (Inr (), t2)" and "Recorder_StopWriting t = (res, t')"
  shows "res = Inr () \<and> rec_disk t2 = rec_disk t' \<and> target_filename t' = target_filename t"
proof -
  have "t\<lparr>rec_running := False, outmsg_queue := sq_set_stop (outmsg_queue t)\<rparr> = beside (sq_set_stop (outmsg_queue t)) False t"
    by (simp add: beside_def)
  with assms framedD [OF StopWriting_framed, of "sq_set_stop (outmsg_queue t)" False t]
  have "res = Inr () \<and> rec_disk t2 = rec_disk t'"
    by (auto simp: Recorder_Stop_def Let_def split: if_splits)
  moreover have "target_filename t' = target_filename t"
    using assms(2) by (auto simp: Recorder_StopWriting_def tick_def on_bag_def bind_bag_def Let_def split: prod.splits sum.splits)
  ultimately show ?thesis by blast
qed

section \<open>A run\<close>

text \<open>
  One of the runs: a message is queued, taken and written, a second one is queued, and \<open>Stop\<close>
  follows. The states of the queue are those of a schedule of theory SyncQueue.
\<close>

definition run_events :: "OutgoingMessage \<Rightarrow> OutgoingMessage \<Rightarrow> OutgoingMessage sq_event list" where
  "run_events m m' = [EvPut 1 m, EvRunPut, EvTake 0, EvRunTake, EvPut 2 m', EvRunPut, EvStop, EvStop, EvStop]"

definition run_queue :: "OutgoingMessage \<Rightarrow> OutgoingMessage \<Rightarrow> nat \<Rightarrow> OutgoingMessage sq_system" where
  "run_queue m m' n = sq_replay (take n (run_events m m')) (sq_init MAX_TASK_COUNT)"

definition at_point :: "OutgoingMessage sq_system \<Rightarrow> bool \<Rightarrow> recorder \<Rightarrow> thread_pc \<Rightarrow> nat \<Rightarrow> OutgoingMessage list \<Rightarrow> rec_system" where
  "at_point q on t p k h = \<lparr>robj = beside (obj q) on t, rq = q, pc = p, stop_at = k, stop_result = Inr (), handled = h, dropped = []\<rparr>"

lemma at_point_simps [simp]:
  "robj (at_point q on t p k h) = beside (obj q) on t" "rq (at_point q on t p k h) = q" "pc (at_point q on t p k h) = p"
  "stop_at (at_point q on t p k h) = k" "handled (at_point q on t p k h) = h"
  "(at_point q on t p k h)\<lparr>pc := p'\<rparr> = at_point q on t p' k h"
  "(at_point q on t p k h)\<lparr>stop_at := k'\<rparr> = at_point q on t p k' h"
  "(at_point q on t p k h)\<lparr>robj := beside (obj q) on t', pc := p'\<rparr> = at_point q on t' p' k h"
  "(at_point q on t p k h)\<lparr>robj := beside (obj q) on t', pc := p', handled := h'\<rparr> = at_point q on t' p' k h'"
  "(at_point q on t p k h)\<lparr>handled := h'\<rparr> = at_point q on t p k h'"
  "queue_now q' (at_point q on t p k h) = at_point q' on t p k h"
  by (simp_all add: at_point_def queue_now_def beside_def)

lemma run_queue_steps:
  "run_queue m m' 0 = sq_init MAX_TASK_COUNT"
  "sq_step (run_queue m m' 0) (CallPut 1 m) (run_queue m m' 1)"
  "sq_step (run_queue m m' 1) Tau (run_queue m m' 2)"
  "sq_step (run_queue m m' 2) (CallTake 0) (run_queue m m' 3)"
  "sq_step (run_queue m m' 3) (TakeReturns 0 [m]) (run_queue m m' 4)"
  "sq_step (run_queue m m' 4) (CallPut 2 m') (run_queue m m' 5)"
  "sq_step (run_queue m m' 5) Tau (run_queue m m' 6)"
  "sq_step (run_queue m m' 6) (StopStep 0) (run_queue m m' 7)"
  "sq_step (run_queue m m' 7) (StopStep 1) (run_queue m m' 8)"
  "sq_step (run_queue m m' 8) (StopStep 2) (run_queue m m' 9)"
proof -
  have q: "run_queue m m' (Suc n) = sq_play (run_events m m' ! n) (run_queue m m' n)" if "n < 9" for n
  proof -
    have "length (run_events m m') = 9" by (simp add: run_events_def)
    with that show ?thesis by (simp add: run_queue_def sq_replay_def take_Suc_conv_app_nth)
  qed
  show "run_queue m m' 0 = sq_init MAX_TASK_COUNT" by (simp add: run_queue_def sq_replay_def)
  have "put_awake (run_queue m m' 1) \<noteq> []" "put_awake (run_queue m m' 5) \<noteq> []" "take_awake (run_queue m m' 3) = [0]"
    "fst (Take (obj (run_queue m m' 3))) = Leaves [m] True"
    "stop_pc (run_queue m m' 6) = 0" "stop_pc (run_queue m m' 7) = 1" "stop_pc (run_queue m m' 8) = 2"
    by (simp_all add: run_queue_def run_events_def MAX_TASK_COUNT_def sq_run_defs)
  note f = this
  show "sq_step (run_queue m m' 0) (CallPut 1 m) (run_queue m m' 1)"
    using sq_step.call_put [of "run_queue m m' 0" 1 m] q [of 0] by (simp add: run_events_def)
  show "sq_step (run_queue m m' 1) Tau (run_queue m m' 2)"
    using play_run_put [OF f(1)] q [of 1] by (simp add: run_events_def numeral_2_eq_2)
  show "sq_step (run_queue m m' 2) (CallTake 0) (run_queue m m' 3)"
    using sq_step.call_take [of "run_queue m m' 2" 0] q [of 2] by (simp add: run_events_def numeral_3_eq_3 numeral_2_eq_2)
  show "sq_step (run_queue m m' 3) (TakeReturns 0 [m]) (run_queue m m' 4)"
    using play_run_take [OF f(3)] f(4) q [of 3] by (simp add: run_events_def)
  show "sq_step (run_queue m m' 4) (CallPut 2 m') (run_queue m m' 5)"
    using sq_step.call_put [of "run_queue m m' 4" 2 m'] q [of 4] by (simp add: run_events_def)
  show "sq_step (run_queue m m' 5) Tau (run_queue m m' 6)"
    using play_run_put [OF f(2)] q [of 5] by (simp add: run_events_def)
  show "sq_step (run_queue m m' 6) (StopStep 0) (run_queue m m' 7)"
    using play_stop [of "run_queue m m' 6"] f(5) q [of 6] by (simp add: run_events_def)
  show "sq_step (run_queue m m' 7) (StopStep 1) (run_queue m m' 8)"
    using play_stop [of "run_queue m m' 7"] f(6) q [of 7] by (simp add: run_events_def)
  show "sq_step (run_queue m m' 8) (StopStep 2) (run_queue m m' 9)"
    using play_stop [of "run_queue m m' 8"] f(7) q [of 8] by (simp add: run_events_def)
qed

lemma point_thread_steps:
  "record_prologue r = (Inr (), t) \<Longrightarrow> record_step (at_point q True r Starts k h) (at_point q True t AtTest k h)"
  "rec_running t \<Longrightarrow> sq_step q (CallTake 0) q' \<Longrightarrow> record_step (at_point q True t AtTest k h) (at_point q' True t InTake k h)"
  "sq_step q (TakeReturns 0 ms) q' \<Longrightarrow> record_step (at_point q on t InTake k h) (at_point q' on t (InFor ms) k h)"
  "DoWrite m t = Some (Inr u, t') \<Longrightarrow>
     record_step (at_point q True t (InWrite m ms) k h) (at_point q True t' (InFor ms) k (h @ [m]))"
  "record_step (at_point q on t (InFor []) k h) (at_point q on t AtTest k h)"
  "record_step (at_point q False t AtTest k h) (at_point q False t ReturnedFrom k h)"
  "rec_running t \<Longrightarrow> record_step (at_point q True t (InFor (m # ms)) k h) (at_point q True t (InWrite m ms) k h)"
proof -
  show "record_step (at_point q True r Starts k h) (at_point q True t AtTest k h)" if "record_prologue r = (Inr (), t)"
    using record_step.thread_starts [of "at_point q True r Starts k h" "beside (obj q) True t"] that
    by (simp add: framedD [OF record_prologue_framed])
  show "record_step (at_point q True t AtTest k h) (at_point q' True t InTake k h)"
    if "rec_running t" "sq_step q (CallTake 0) q'"
    using record_step.loop_takes [of "at_point q True t AtTest k h" q'] that by simp
  show "record_step (at_point q on t InTake k h) (at_point q' on t (InFor ms) k h)" if "sq_step q (TakeReturns 0 ms) q'"
    using record_step.take_ends [of "at_point q on t InTake k h" ms q'] that by simp
  show "record_step (at_point q True t (InFor (m # ms)) k h) (at_point q True t (InWrite m ms) k h)" if "rec_running t"
    using record_step.for_tests [of "at_point q True t (InFor (m # ms)) k h" m ms] that by simp
  show "record_step (at_point q True t (InWrite m ms) k h) (at_point q True t' (InFor ms) k (h @ [m]))"
    if "DoWrite m t = Some (Inr u, t')"
  proof -
    have "DoWrite m (beside (obj q) True t) = Some (Inr u, beside (obj q) True t')"
      using DoWrite_framed [of m] that by (simp add: option_framed_def)
    with record_step.writes [of "at_point q True t (InWrite m ms) k h" m ms u "beside (obj q) True t'"]
    show ?thesis by simp
  qed
  show "record_step (at_point q on t (InFor []) k h) (at_point q on t AtTest k h)"
    using record_step.for_ends [of "at_point q on t (InFor []) k h"] by simp
  show "record_step (at_point q False t AtTest k h) (at_point q False t ReturnedFrom k h)"
    using record_step.loop_ends [of "at_point q False t AtTest k h"] by simp
qed

lemma point_other_steps:
  "rec_running t \<Longrightarrow> sq_step q (CallPut i x) q' \<Longrightarrow> handler_step (at_point q True t p k h) (at_point q' True t p k h)"
  "sq_step q Tau q' \<Longrightarrow> handler_step (at_point q on t p k h) (at_point q' on t p k h)"
  "stop_step (at_point q on t p 0 h) (at_point q False t p 1 h)"
  "sq_step q (StopStep 0) q' \<Longrightarrow> stop_step (at_point q on t p 1 h) (at_point q' on t p 2 h)"
  "sq_step q (StopStep 1) q' \<Longrightarrow> stop_step (at_point q on t p 2 h) (at_point q' on t p 3 h)"
  "sq_step q (StopStep 2) q' \<Longrightarrow> stop_step (at_point q on t p 3 h) (at_point q' on t p 4 h)"
  "stop_step (at_point q on t ReturnedFrom 4 h) (at_point q on t ReturnedFrom 5 h)"
proof -
  have put: "\<lparr>om_time = om_time x, om_topic = om_topic x, om_msg = om_msg x\<rparr> = x" by simp
  show "handler_step (at_point q True t p k h) (at_point q' True t p k h)" if "rec_running t" "sq_step q (CallPut i x) q'"
    using handler_step.handler_puts [of "at_point q True t p k h" i "om_time x" "om_topic x" "om_msg x" q'] that
    by (simp only: put) simp
  show "handler_step (at_point q on t p k h) (at_point q' on t p k h)" if "sq_step q Tau q'"
    using handler_step.queue_moves [of "at_point q on t p k h" q'] that by simp
  show "stop_step (at_point q on t p 0 h) (at_point q False t p 1 h)"
    using stop_step.clears_running [of "at_point q on t p 0 h"]
    by (simp add: at_point_def beside_def del: at_point_simps beside_updates)
  show "stop_step (at_point q on t p 1 h) (at_point q' on t p 2 h)" if "sq_step q (StopStep 0) q'"
    using stop_step.stops_queue [of "at_point q on t p 1 h" 0 q'] that by (simp add: numeral_2_eq_2)
  show "stop_step (at_point q on t p 2 h) (at_point q' on t p 3 h)" if "sq_step q (StopStep 1) q'"
    using stop_step.stops_queue [of "at_point q on t p 2 h" 1 q'] that by (simp add: numeral_3_eq_3)
  show "stop_step (at_point q on t p 3 h) (at_point q' on t p 4 h)" if "sq_step q (StopStep 2) q'"
    using stop_step.stops_queue [of "at_point q on t p 3 h" 2 q'] that by simp
  show "stop_step (at_point q on t ReturnedFrom 4 h) (at_point q on t ReturnedFrom 5 h)"
    using stop_step.joins [of "at_point q on t ReturnedFrom 4 h"] by simp
qed

lemma run_loses_message:
  assumes "record_prologue r = (Inr (), t)" and "DoWrite m t = Some (Inr u, t')" and "rec_running r" and "rec_running t" and "rec_running t'"
  shows "rec_reachable r (at_point (run_queue m m' 6) False t' AtTest 1 [m])"
    and "\<exists>s. rec_reachable r s \<and> stop_at s = 6 \<and> handled s = [m] \<and> dropped s = [] \<and> rq s = run_queue m m' 9"
proof -
  note q = run_queue_steps [of m m'] and th = point_thread_steps and ot = point_other_steps
  have "rec_system_start r = at_point (run_queue m m' 0) True r Starts 0 []"
    by (simp add: rec_system_start_def at_point_def q(1) beside_queue)
  then have "rec_reachable r (at_point (run_queue m m' 0) True r Starts 0 [])" by (metis rec_reachable.start)
  from rec_reachable.handler [OF rec_reachable.handler [OF this ot(1) [OF assms(3) q(2)]] ot(2) [OF q(3)]]
  have "rec_reachable r (at_point (run_queue m m' 2) True r Starts 0 [])" .
  from rec_reachable.recorder [OF rec_reachable.recorder [OF this th(1) [OF assms(1)]] th(2) [OF assms(4) q(4)]]
  have "rec_reachable r (at_point (run_queue m m' 3) True t InTake 0 [])" .
  from rec_reachable.recorder [OF rec_reachable.recorder [OF rec_reachable.recorder [OF this th(3) [OF q(5)]] th(7) [OF assms(4)]] th(4) [OF assms(2)]]
  have "rec_reachable r (at_point (run_queue m m' 4) True t' (InFor []) 0 [m])" by simp
  from rec_reachable.recorder [OF this th(5)]
  have "rec_reachable r (at_point (run_queue m m' 4) True t' AtTest 0 [m])" .
  from rec_reachable.handler [OF rec_reachable.handler [OF this ot(1) [OF assms(5) q(6)]] ot(2) [OF q(7)]]
  have "rec_reachable r (at_point (run_queue m m' 6) True t' AtTest 0 [m])" .
  from rec_reachable.stopper [OF this ot(3)]
  show stopping: "rec_reachable r (at_point (run_queue m m' 6) False t' AtTest 1 [m])" .
  from rec_reachable.stopper [OF rec_reachable.stopper [OF rec_reachable.stopper [OF stopping ot(4) [OF q(8)]] ot(5) [OF q(9)]] ot(6) [OF q(10)]]
  have "rec_reachable r (at_point (run_queue m m' 9) False t' AtTest 4 [m])" .
  from rec_reachable.stopper [OF rec_reachable.recorder [OF this th(6)] ot(7)]
  have five: "rec_reachable r (at_point (run_queue m m' 9) False t' ReturnedFrom 5 [m])" .
  obtain res t2 where "Recorder_StopWriting (robj (at_point (run_queue m m' 9) False t' ReturnedFrom 5 [m])) = (res, t2)"
    by (cases "Recorder_StopWriting (robj (at_point (run_queue m m' 9) False t' ReturnedFrom 5 [m]))")
  from rec_reachable.stopper [OF five stop_step.closes [OF _ this]]
  have six: "rec_reachable r ((at_point (run_queue m m' 9) False t' ReturnedFrom 5 [m])\<lparr>robj := t2, stop_at := 6, stop_result := res\<rparr>)"
    by simp
  show "\<exists>s. rec_reachable r s \<and> stop_at s = 6 \<and> handled s = [m] \<and> dropped s = [] \<and> rq s = run_queue m m' 9"
    by (rule exI, intro conjI, rule six) (simp_all add: at_point_def)
qed

definition late_message :: OutgoingMessage where
  "late_message = \<lparr>om_time = Timestamp 10, om_topic = ''/t'', om_msg = ''last''\<rparr>"

lemma demo_quota: "1041 + length (om_bytes [demo_message]) \<le> quota (rec_disk demo_recorder)"
  by (simp add: om_bytes_def record_bytes_def om_record_def demo_message_def demo_recorder_def Recorder_new_def)

lemma demo_one_file: "\<not> opt_split (options demo_recorder)"
  by (simp add: demo_recorder_def demo_options_def Recorder_new_def RecorderOptions_default_def)

lemma demo_thread:
  obtains t t' u where "record_prologue demo_recorder = (Inr (), t)" and "DoWrite demo_message t = Some (Inr u, t')"
    and "rec_running demo_recorder" and "rec_running t" and "rec_running t'"
proof -
  have "1041 + length (om_bytes (concat [[demo_message]])) \<le> quota (rec_disk demo_recorder)" using demo_quota by simp
  from recorded_file [OF demo_about_to_record demo_one_file this] obtain s1 where
    "DoRecordSingleThread (batches [[demo_message]]) demo_recorder = Some (Inr ThreadWaiting, s1)" by blast
  then obtain t where t: "record_prologue demo_recorder = (Inr (), t)" "rec_running t"
      "record_while (batches [[demo_message]]) t = Some (Inr ThreadWaiting, s1)"
    by (auto simp: DoRecordSingleThread_prologue batches_def set_running_def split: prod.splits sum.splits if_splits)
  then obtain t' u where "DoWrite demo_message t = Some (Inr u, t')" "rec_running t'"
    by (auto simp: batches_def set_running_def split: option.splits prod.splits sum.splits if_splits)
  moreover have "rec_running demo_recorder" using demo_about_to_record by (simp add: about_to_record_def)
  ultimately show ?thesis using t that by blast
qed

lemma run_accepted:
  "accepted (run_queue m m' 9) = [m, m']"
  by (simp add: run_queue_def run_events_def MAX_TASK_COUNT_def sq_run_defs)

section \<open>Properties\<close>

text \<open>
  C3. Whatever the handlers, the recording thread and \<open>Stop\<close> do in between: when \<open>Stop\<close> has
  returned, the file is finished and holds exactly the messages the thread handled, each once and in
  the order in which the queue accepted them. The accepted messages that came after them, dropped
  from the list taken or still queued, are not in the file.
\<close>

theorem interleaved_recording:
  assumes "about_to_record r" and "\<not> opt_split (options r)" and "rec_reachable r s" and "stop_at s = 6"
    and "1041 + length (om_bytes (handled s)) \<le> quota (rec_disk r)"
  shows "stop_result s = Inr () \<and> finished_file (rec_disk (robj s)) (target_filename (robj s)) (handled s) \<and>
    accepted (rq s) = handled s @ dropped s @ queue (obj (rq s))"
proof -
  from progress_inv_reachable [OF assms(3)] assms(4) have pc: "pc s = ReturnedFrom" by (simp add: progress_inv_def)
  with alone_inv_reachable [OF assms(3)] assms(4) obtain t t' where
    t: "alone r (handled s) = Some (Inr ThreadWaiting, t)" "Recorder_StopWriting t = (stop_result s, t')" "as_robj s t'"
    by (auto simp: alone_inv_def settled_def)
  have q: "1041 + length (om_bytes (concat [handled s])) \<le> quota (rec_disk r)" using assms(5) by simp
  from recorded_file [OF assms(1,2) q] alone_sequential [OF t(1)] obtain t2 where
    t2: "Recorder_Stop t = (Inr (), t2)" "finished_file (rec_disk t2) (target_filename t) (handled s)" by auto
  have "rec_disk (robj s) = rec_disk t'" "target_filename (robj s) = target_filename t'"
    using t(3) unfolding as_robj_def by (metis beside_simps(13), metis beside_simps(3))
  with Recorder_Stop_alone [OF t2(1) t(2)] t2(2)
  have "stop_result s = Inr ()" "finished_file (rec_disk (robj s)) (target_filename (robj s)) (handled s)" by simp_all
  moreover have "accepted (rq s) = handled s @ dropped s @ queue (obj (rq s))"
    using sync_queue_fifo_inv [OF rec_queue_reachable [OF assms(3)]] hand_inv_reachable [OF assms(3)] pc
    by (simp add: hand_inv_def in_hand_def)
  ultimately show ?thesis by blast
qed

text \<open>A message is written, a second one is accepted, and \<open>Stop\<close> finishes the file without it.\<close>

theorem interleaved_recording_witness:
  "\<exists>s. rec_reachable demo_recorder s \<and> stop_at s = 6 \<and> accepted (rq s) = [demo_message, late_message] \<and>
     finished_file (rec_disk (robj s)) (target_filename (robj s)) [demo_message] \<and> queue (obj (rq s)) = [late_message]"
proof -
  from demo_thread obtain t t' u where d: "record_prologue demo_recorder = (Inr (), t)" "DoWrite demo_message t = Some (Inr u, t')"
    "rec_running demo_recorder" "rec_running t" "rec_running t'" .
  from run_loses_message(2) [OF d, of late_message] obtain s where
    s: "rec_reachable demo_recorder s" "stop_at s = 6" "handled s = [demo_message]" "dropped s = []"
      "rq s = run_queue demo_message late_message 9" by blast
  have "1041 + length (om_bytes (handled s)) \<le> quota (rec_disk demo_recorder)" using s(3) demo_quota by simp
  from interleaved_recording [OF demo_about_to_record demo_one_file s(1,2) this] s show ?thesis
    by (auto simp: run_accepted)
qed

definition being_written :: "rec_system \<Rightarrow> OutgoingMessage list" where
  "being_written s = (case pc s of InWrite m ms \<Rightarrow> [m] | _ \<Rightarrow> [])"

definition rec_move :: "rec_system \<Rightarrow> rec_system \<Rightarrow> bool" where
  "rec_move s s' \<longleftrightarrow> handler_step s s' \<or> record_step s s' \<or> stop_step s s'"

lemma rec_move_reachable: "rec_reachable r s \<Longrightarrow> rec_move s s' \<Longrightarrow> rec_reachable r s'"
  by (auto simp: rec_move_def intro: rec_reachable.intros)

lemma stopped_move:
  assumes "rec_reachable r s" and "0 < stop_at s" and "rec_move s s'"
  shows "handled s' @ being_written s' = handled s @ being_written s" and "stop_at s \<le> stop_at s'"
    and "2 \<le> stop_at s \<Longrightarrow> queue (obj (rq s')) = queue (obj (rq s))"
proof -
  from progress_inv_reachable [OF assms(1)] assms(2)
  have p: "\<not> rec_running (robj s)" "stop_pc (rq s) = min (stop_at s - 1) 3" by (simp_all add: progress_inv_def)
  from reachable_inv [OF rec_queue_reachable [OF assms(1)]] p(2)
  have n: "2 \<le> stop_at s \<longrightarrow> need_stop (obj (rq s))" by (auto simp: stop_inv_def)
  have q: "need_stop (obj q) \<Longrightarrow> sq_step q l q' \<Longrightarrow> queue (obj q') = queue (obj q)" for q l and q' :: "OutgoingMessage sq_system"
    by (erule sq_step.cases) (auto simp: Put_cases Take_cases sq_set_stop_def)
  have "handled s' @ being_written s' = handled s @ being_written s \<and> stop_at s \<le> stop_at s' \<and>
      (2 \<le> stop_at s \<longrightarrow> queue (obj (rq s')) = queue (obj (rq s)))"
    using assms(3) unfolding rec_move_def
  proof (elim disjE)
    assume "handler_step s s'"
    then show ?thesis using n q by (auto simp: being_written_def elim!: handler_stepE)
  next
    assume "record_step s s'"
    then show ?thesis using n q p(1) by (cases rule: record_step.cases) (auto simp: being_written_def)
  next
    assume "stop_step s s'"
    then show ?thesis using n q by (cases rule: stop_step.cases) (auto simp: being_written_def)
  qed
  then show "handled s' @ being_written s' = handled s @ being_written s" "stop_at s \<le> stop_at s'"
    "2 \<le> stop_at s \<Longrightarrow> queue (obj (rq s')) = queue (obj (rq s))" by blast+
qed

text \<open>
  C20. \<open>Stop\<close> cuts the recording off: of all messages, after \<open>Stop\<close> has stored false in \<open>running_\<close> at most
  the one for which the thread had already passed its test is still written, whatever the threads do from
  then on, and once \<open>Stop\<close> has stopped the queue the messages in the queue stay there for good.
\<close>

theorem stop_discards_the_rest:
  assumes "rec_reachable r s" and "0 < stop_at s" and "rtranclp rec_move s s'"
  shows "handled s' @ being_written s' = handled s @ being_written s \<and> length (being_written s) \<le> 1 \<and>
    (2 \<le> stop_at s \<longrightarrow> queue (obj (rq s')) = queue (obj (rq s)))"
proof -
  from assms(3) have "rec_reachable r s' \<and> stop_at s \<le> stop_at s' \<and> handled s' @ being_written s' = handled s @ being_written s \<and>
      (2 \<le> stop_at s \<longrightarrow> queue (obj (rq s')) = queue (obj (rq s)))"
  proof (induction rule: rtranclp_induct)
    case base
    show ?case using assms(1) by simp
  next
    case (step s1 s2)
    then have r: "rec_reachable r s1" "0 < stop_at s1" "stop_at s \<le> stop_at s1" using assms(2) by auto
    from stopped_move [OF r(1,2) step(2)] rec_move_reachable [OF r(1) step(2)] step(3) r(3) show ?case by auto
  qed
  moreover have "length (being_written s) \<le> 1" by (simp add: being_written_def split: thread_pc.split)
  ultimately show ?thesis by blast
qed

theorem stop_discards_the_rest_witness:
  "\<exists>s s'. rec_reachable demo_recorder s \<and> stop_at s = 1 \<and> rec_move s s' \<and>
     accepted (rq s) = [demo_message, late_message] \<and> handled s' @ being_written s' = [demo_message]"
proof -
  from demo_thread obtain t t' u where d: "record_prologue demo_recorder = (Inr (), t)" "DoWrite demo_message t = Some (Inr u, t')"
    "rec_running demo_recorder" "rec_running t" "rec_running t'" .
  note s = run_loses_message(1) [OF d, of late_message]
  have step: "rec_move (at_point (run_queue demo_message late_message 6) False t' AtTest 1 [demo_message])
      (at_point (run_queue demo_message late_message 6) False t' ReturnedFrom 1 [demo_message])"
    using point_thread_steps(6) by (simp add: rec_move_def)
  from stop_discards_the_rest [OF s _ r_into_rtranclp [of rec_move, OF step]]
  have "handled (at_point (run_queue demo_message late_message 6) False t' ReturnedFrom 1 [demo_message]) @
      being_written (at_point (run_queue demo_message late_message 6) False t' ReturnedFrom 1 [demo_message]) = [demo_message]"
    by (simp add: being_written_def)
  moreover have "accepted (rq (at_point (run_queue demo_message late_message 6) False t' AtTest 1 [demo_message])) = [demo_message, late_message]"
    by (simp add: run_queue_def run_events_def MAX_TASK_COUNT_def sq_run_defs)
  ultimately show ?thesis using s step at_point_simps(4) by blast
qed

definition thread_moves_left :: "thread_pc \<Rightarrow> nat" where
  "thread_moves_left p =
     (case p of Starts \<Rightarrow> 2 | AtTest \<Rightarrow> 1 | InTake \<Rightarrow> 3 | InFor _ \<Rightarrow> 2 | InWrite _ _ \<Rightarrow> 3 | _ \<Rightarrow> 0)"

definition stop_rank :: "rec_system \<Rightarrow> nat" where
  "stop_rank s = thread_moves_left (pc s) + (6 - stop_at s)"

text \<open>
  C21. \<open>Stop\<close> returns: once it has begun, every move of the recording thread and of \<open>Stop\<close> itself
  brings the two closer to the end, at most eight moves are left, the handlers cannot lengthen that,
  and until \<open>Stop\<close> has returned one of the two can always move, unless the thread threw or is in the
  loop of \<open>CheckDuration\<close> for good.
\<close>

theorem recorder_stop_returns:
  assumes "rec_reachable r s" and "0 < stop_at s"
  shows "(\<forall>s'. record_step s s' \<or> stop_step s s' \<longrightarrow> stop_rank s' < stop_rank s) \<and>
    (\<forall>s'. handler_step s s' \<longrightarrow> stop_rank s' = stop_rank s) \<and> stop_rank s \<le> 8 \<and>
    (stop_at s = 6 \<or> (\<exists>e. pc s = Threw e) \<or> pc s = NeverReturns \<or> (\<exists>s'. record_step s s' \<or> stop_step s s'))"
proof (intro conjI allI impI)
  note inv = progress_inv_reachable [OF assms(1), unfolded progress_inv_def]
  have p: "\<not> rec_running (robj s)" "stop_at s \<le> 6" "stop_pc (rq s) = min (stop_at s - 1) 3" using inv assms(2) by simp_all
  note q = reachable_inv [OF rec_queue_reachable [OF assms(1)]]
  show "stop_rank s' < stop_rank s" if "record_step s s' \<or> stop_step s s'" for s'
    using that
  proof
    assume "record_step s s'"
    then show ?thesis using p(1)
      by (cases rule: record_step.cases) (simp_all add: stop_rank_def thread_moves_left_def)
  next
    assume "stop_step s s'"
    then show ?thesis using assms(2)
      by (cases rule: stop_step.cases) (auto simp: stop_rank_def)
  qed
  show "stop_rank s' = stop_rank s" if "handler_step s s'" for s'
    using that by (cases rule: handler_step.cases) (simp_all add: stop_rank_def)
  show "stop_rank s \<le> 8"
    using assms(2) by (cases "pc s") (simp_all add: stop_rank_def thread_moves_left_def)
  consider "stop_at s < 4" | "stop_at s = 4" | "stop_at s = 5" | "stop_at s = 6" using p(2) by linarith
  then show "stop_at s = 6 \<or> (\<exists>e. pc s = Threw e) \<or> pc s = NeverReturns \<or> (\<exists>s'. record_step s s' \<or> stop_step s s')"
  proof cases
    case 1
    with assms(2) obtain k where k: "stop_at s = Suc k" "k < 3" by (cases "stop_at s") auto
    with p(3) have "stop_pc (rq s) = k" by simp
    with k(2) play_stop [of "rq s"] have "sq_step (rq s) (StopStep k) (sq_play EvStop (rq s))" by simp
    with k show ?thesis by (blast intro: stop_step.stops_queue)
  next
    case 2
    with q p(3) have stopped: "take_asleep (rq s) = []" "need_stop (obj (rq s))" by (auto simp: stop_inv_def)
    show ?thesis
    proof (cases "pc s")
      case Starts
      show ?thesis by (cases "record_prologue (robj s)", cases "fst (record_prologue (robj s))")
        (use Starts in \<open>auto intro: record_step.intros\<close>)
    next
      case InTake
      with inv stopped have "0 \<in> set (take_awake (rq s))" by (auto simp: takers_def)
      from stopped_take [OF this stopped(2)] InTake show ?thesis by (blast intro: record_step.take_ends)
    next
      case (InFor ms)
      with p(1) show ?thesis by (cases ms) (blast intro: record_step.intros)+
    next
      case (InWrite m ms)
      consider "DoWrite m (robj s) = None" | u r where "DoWrite m (robj s) = Some (Inr u, r)"
        | e r where "DoWrite m (robj s) = Some (Inl e, r)" by (metis option.exhaust surj_pair sum.exhaust)
      then show ?thesis
        by cases (use record_step.writes [OF InWrite] record_step.write_throws [OF InWrite] record_step.write_loops [OF InWrite] in blast)+
    next
      case ReturnedFrom
      with 2 show ?thesis by (blast intro: stop_step.joins)
    qed (use p(1) in \<open>blast intro: record_step.intros\<close>)+
  next
    case 3
    then show ?thesis by (cases "Recorder_StopWriting (robj s)") (blast intro: stop_step.closes)
  qed simp
qed

theorem recorder_stop_returns_witness:
  "\<exists>s. rec_reachable demo_recorder s \<and> stop_at s = 1 \<and> stop_rank s \<le> 8 \<and> (\<exists>s'. record_step s s' \<or> stop_step s s')"
proof -
  from demo_thread obtain t t' u where d: "record_prologue demo_recorder = (Inr (), t)" "DoWrite demo_message t = Some (Inr u, t')"
    "rec_running demo_recorder" "rec_running t" "rec_running t'" .
  note s = run_loses_message(1) [OF d, of late_message]
  from recorder_stop_returns [OF s] have "stop_rank (at_point (run_queue demo_message late_message 6) False t' AtTest 1 [demo_message]) \<le> 8"
    "\<exists>s'. record_step (at_point (run_queue demo_message late_message 6) False t' AtTest 1 [demo_message]) s' \<or>
      stop_step (at_point (run_queue demo_message late_message 6) False t' AtTest 1 [demo_message]) s'" by simp_all
  with s at_point_simps(4) show ?thesis by blast
qed

end
