(* ===== verification/TimeBak.thy ===== *)
theory TimeBak
  imports Timestamps
begin

text \<open>
  \<open>src/common/timebak.h\<close>, the older class \<open>Time\<close> with seconds and nanoseconds apart. The members
  and \<open>ToNano\<close> are 64-bit; a duration is a \<open>double\<close>, so every sum with one is computed in
  \<open>double\<close> and the overload of \<open>Time\<close> and \<open>SetTime\<close> for \<open>double\<close>, which takes seconds, is
  chosen. \<open>Now\<close> reads the clock; \<open>localtime\<close> is a parameter.
\<close>

record time_bak =
  sec :: "64 word"
  nsec :: "64 word"

definition BILLION :: int where
  "BILLION = 1000000000"

definition Time_default :: time_bak where
  "Time_default = \<lparr>sec = 0, nsec = 0\<rparr>"

definition Time_parts :: "64 word \<Rightarrow> 64 word \<Rightarrow> time_bak" where
  "Time_parts s n = \<lparr>sec = s, nsec = n\<rparr>"

text \<open>The constructor from a count of nanoseconds, and \<open>SetTime(long long)\<close>.\<close>

definition Time_nano :: "64 word \<Rightarrow> time_bak" where
  "Time_nano nano =
     \<lparr>sec = word_of_int (sint nano sdiv BILLION), nsec = word_of_int (sint nano smod BILLION)\<rparr>"

text \<open>\<open>SetTime(double)\<close>, and the constructor from a \<open>double\<close>.\<close>

definition Time_double :: "double \<Rightarrow> time_bak" where
  "Time_double s =
     \<lparr>sec = int64_of_double (double_div (double_mult s (of_int BILLION)) (of_int BILLION)),
      nsec = word_of_int (sint (int64_of_double (double_mult s (of_int BILLION))) smod BILLION)\<rparr>"

definition ToNano :: "time_bak \<Rightarrow> 64 word" where
  "ToNano t = sec t * word_of_int BILLION + nsec t"

definition ToSecond :: "time_bak \<Rightarrow> double" where
  "ToSecond t =
     to_double (double_of_int (sint (sec t)) + double_div (double_of_int (sint (nsec t))) (of_int BILLION))"

definition time_less :: "time_bak \<Rightarrow> time_bak \<Rightarrow> bool" where
  "time_less a b \<longleftrightarrow> sint (ToNano a) < sint (ToNano b)"

definition time_minus :: "time_bak \<Rightarrow> time_bak \<Rightarrow> double" where
  "time_minus a b = double_of_int (sint (ToNano a - ToNano b))"

definition time_plus :: "time_bak \<Rightarrow> double \<Rightarrow> time_bak" where
  "time_plus t duration =
     Time_double (to_double (double_of_int (sint (ToNano t)) + double_mult duration (of_int BILLION)))"

definition AddDuration :: "time_bak \<Rightarrow> double \<Rightarrow> time_bak" where
  "AddDuration t duration =
     Time_double (to_double (to_double (double_of_int (sint (ToNano t)) + duration) + of_int BILLION))"

text \<open>
  \<open>strftime\<close> with \<open>"%Y-%m-%d-%H-%M-%S"\<close> or \<open>"%Y-%m-%d %H:%M:%S"\<close> into 20 characters; when
  the text and its terminator do not fit the contents of the buffer are unspecified (none).
\<close>

definition strftime20 :: "char \<Rightarrow> char \<Rightarrow> tm \<Rightarrow> string option" where
  "strftime20 gap colon x =
     (let s = show_int (tm_year x + 1900) @ ''-'' @ pad_zeros 2 (tm_mon x + 1) @ ''-'' @ pad_zeros 2 (tm_mday x) @
           [gap] @ pad_zeros 2 (tm_hour x) @ [colon] @ pad_zeros 2 (tm_min x) @ [colon] @ pad_zeros 2 (tm_sec x)
      in if length s < 20 then Some s else None)"

definition ToStr :: "(int \<Rightarrow> tm) \<Rightarrow> time_bak \<Rightarrow> string option" where
  "ToStr localtime t = strftime20 (CHR ''-'') (CHR ''-'') (localtime (sint (sec t)))"

definition ToTimeStr :: "(int \<Rightarrow> tm) \<Rightarrow> time_bak \<Rightarrow> string option" where
  "ToTimeStr localtime t =
     map_option (\<lambda>s. s @ ''.'' @ show_int (sint (nsec t)))
       (strftime20 (CHR '' '') (CHR '':'') (localtime (sint (sec t))))"

text \<open>The constants: \<open>std::numeric_limits<uint32_t>::max()\<close> seconds.\<close>

definition bak_TIME_MAX :: time_bak where
  "bak_TIME_MAX = Time_parts (2 ^ 32 - 1) 999999999"

definition bak_TIME_MIN :: time_bak where
  "bak_TIME_MIN = Time_parts 0 1"

section \<open>Nanoseconds and back\<close>

lemma BILLION_pos: "0 < BILLION"
  by (simp add: BILLION_def)

lemma ToNano_Time_nano: "ToNano (Time_nano n) = n"
proof -
  have "sint n = sint n sdiv BILLION * BILLION + sint n smod BILLION" by (simp add: sdiv_mult_smod_eq)
  then have "(word_of_int (sint n) :: 64 word) =
      word_of_int (sint n sdiv BILLION) * word_of_int BILLION + word_of_int (sint n smod BILLION)"
    by (metis wi_hom_add wi_hom_mult)
  then show ?thesis by (simp add: ToNano_def Time_nano_def)
qed

text \<open>A conversion that overflows gives the smallest integer.\<close>

lemma int64_of_double_overflow: "2 ^ 63 \<le> x \<Longrightarrow> int64_of_double x = word_of_int (- (2 ^ 63))"
proof -
  assume "2 ^ 63 \<le> x"
  then have "(2 :: int) ^ 63 \<le> \<lfloor>x\<rfloor>" by (simp add: le_floor_iff)
  with \<open>2 ^ 63 \<le> x\<close> show ?thesis by (simp add: int64_of_double_def truncate_rat_def)
qed

lemma to_double_ge: "0 \<le> x \<Longrightarrow> x * (1 - 1 / 2 ^ 53) \<le> to_double x"
  using to_double_error [of x] by (simp add: right_diff_distrib abs_if split: if_splits)

lemma Time_double_overflow:
  assumes "2 ^ 63 \<le> double_mult s (of_int BILLION)"
  shows "sint (nsec (Time_double s)) = - 854775808"
proof -
  have m: "(- 9223372036854775808 :: int) smod BILLION = - 854775808" by (simp add: BILLION_def)
  have "sint (word_of_int (- (2 ^ 63)) :: 64 word) = - 9223372036854775808" by (simp add: sint_word_of_int_small)
  with m show ?thesis
    by (simp add: Time_double_def int64_of_double_overflow [OF assms] sint_word_of_int_small)
qed

text \<open>
  The older \<open>Time\<close> is right as a count of nanoseconds, \<open>ToNano(Time(n)) = n\<close> for every
  64-bit \<open>n\<close>, but its sum with a duration takes the nanoseconds for seconds: for every time of
  ten seconds or more and every duration that is not negative the conversion in \<open>operator+\<close>
  overflows and leaves -854775808 in the nanoseconds.
\<close>

theorem time_plus_overflows:
  assumes "10 * BILLION \<le> sint (ToNano t)" and "0 \<le> duration"
  shows "ToNano (Time_nano n) = n \<and> sint (nsec (time_plus t duration)) = - 854775808"
proof -
  have nonneg: "0 \<le> double_mult duration (of_int BILLION)"
    using assms(2) to_double_ge [of "duration * 1000000000"] by (simp add: double_mult_def BILLION_def)
  let ?a = "double_of_int (sint (ToNano t))" and ?c = "1 - 1 / 2 ^ 53 :: rat"
  have "of_int (10 * BILLION) \<le> (of_int (sint (ToNano t)) :: rat)" using assms(1) by (simp only: of_int_le_iff)
  then have n: "10000000000 \<le> (of_int (sint (ToNano t)) :: rat)" by (simp add: BILLION_def)
  have a: "9900000000 \<le> ?a"
    using to_double_ge [of "of_int (sint (ToNano t))"] n by (simp add: double_of_int_def)
  then have b: "9800000000 \<le> to_double (?a + double_mult duration (of_int BILLION))"
    using to_double_ge [of "?a + double_mult duration (of_int BILLION)"] nonneg by simp
  then have "2 ^ 63 \<le> double_mult (to_double (?a + double_mult duration (of_int BILLION))) (of_int BILLION)"
    using to_double_ge [of "to_double (?a + double_mult duration (of_int BILLION)) * 1000000000"]
    by (simp add: double_mult_def BILLION_def)
  then show ?thesis by (simp add: ToNano_Time_nano time_plus_def Time_double_overflow)
qed

theorem time_plus_overflows_witness:
  "sint (nsec (time_plus (Time_parts 1555062142 0) 1)) = - 854775808"
proof -
  have "10 * BILLION \<le> sint (ToNano (Time_parts 1555062142 0))" by code_simp
  from time_plus_overflows [OF this, of 1 0] show ?thesis by simp
qed

end
