(* ===== verification/PubSub.thy ===== *)
theory PubSub
  imports Prelude
begin

text \<open>
  \<open>src/common/pub_sub.h\<close> and \<open>pub_sub.cpp\<close>: the wrapper around the message bus with a buffer of
  fixed size. The bus (\<open>PublishSubscribe\<close>) is third-party code: what it is given is recorded.
  A message is its serialised bytes, so \<open>ByteSizeLong\<close> is their number. Each operation holds its
  mutex from beginning to end.
\<close>

definition BUFFER_LENGTH :: nat where
  "BUFFER_LENGTH = 10240"

record pub_sub =
  ps_ip :: string
  ps_port :: int
  ps_buffer_size :: "32 word"
  msg_id :: "32 word"
  ps_buffer :: string
  ps_subscribed :: "string list"
  ps_published :: "(string \<times> string \<times> 32 word) list"
  ps_errors :: "nat list"

definition PubSub_new :: "string \<Rightarrow> int \<Rightarrow> 32 word \<Rightarrow> pub_sub" where
  "PubSub_new ip port buffer_size =
     \<lparr>ps_ip = ip, ps_port = port, ps_buffer_size = buffer_size, msg_id = 0,
      ps_buffer = replicate BUFFER_LENGTH (CHR 0x00), ps_subscribed = [], ps_published = [], ps_errors = []\<rparr>"

definition ps_Subscribe :: "string \<Rightarrow> pub_sub \<Rightarrow> pub_sub" where
  "ps_Subscribe topic s = s\<lparr>ps_subscribed := ps_subscribed s @ [topic]\<rparr>"

definition ps_Publish :: "string \<Rightarrow> string \<Rightarrow> pub_sub \<Rightarrow> pub_sub" where
  "ps_Publish topic msg s =
     (if BUFFER_LENGTH < length msg then s\<lparr>ps_errors := ps_errors s @ [length msg]\<rparr>
      else
        (let s = s\<lparr>ps_buffer := msg @ drop (length msg) (ps_buffer s)\<rparr>
         in s\<lparr>ps_published := ps_published s @ [(topic, take (length msg) (ps_buffer s), msg_id s)],
              msg_id := msg_id s + 1\<rparr>))"

definition fits :: "string \<times> string \<Rightarrow> bool" where
  "fits p \<longleftrightarrow> length (snd p) \<le> BUFFER_LENGTH"

definition publish_all :: "(string \<times> string) list \<Rightarrow> pub_sub \<Rightarrow> pub_sub" where
  "publish_all ps s = fold (\<lambda>(topic, msg). ps_Publish topic msg) ps s"

lemma publish_all_simps [simp]:
  "publish_all [] s = s"
  "publish_all (p # ps) s = publish_all ps (ps_Publish (fst p) (snd p) s)"
  by (simp_all add: publish_all_def case_prod_beta)

lemma publish_all_from:
  "length (ps_buffer s) = BUFFER_LENGTH \<Longrightarrow>
   ps_published (publish_all ps s) =
     ps_published s @ map (\<lambda>(i, topic, msg). (topic, msg, msg_id s + word_of_nat i)) (enumerate 0 (filter fits ps)) \<and>
   ps_errors (publish_all ps s) = ps_errors s @ map (length \<circ> snd) (filter (\<lambda>p. \<not> fits p) ps) \<and>
   length (ps_buffer (publish_all ps s)) = BUFFER_LENGTH"
proof (induction ps arbitrary: s)
  case (Cons p ps)
  show ?case
  proof (cases "fits p")
    case True
    let ?s = "ps_Publish (fst p) (snd p) s"
    have s: "length (ps_buffer ?s) = BUFFER_LENGTH" "msg_id ?s = msg_id s + 1" "ps_errors ?s = ps_errors s"
      "ps_published ?s = ps_published s @ [(fst p, snd p, msg_id s)]"
      using True Cons.prems by (simp_all add: ps_Publish_def fits_def)
    show ?thesis
      using Cons.IH [OF s(1)] True
      by (simp add: s enumerate_Suc_eq [of 0] case_prod_beta comp_def add.assoc)
  next
    case False
    then have "ps_Publish (fst p) (snd p) s = s\<lparr>ps_errors := ps_errors s @ [length (snd p)]\<rparr>"
      by (simp add: ps_Publish_def fits_def)
    with Cons.IH [of "s\<lparr>ps_errors := ps_errors s @ [length (snd p)]\<rparr>"] Cons.prems False show ?thesis by simp
  qed
qed simp

text \<open>
  Whatever is published through a fresh object, the bus gets exactly the messages of at most
  10240 bytes, unchanged and in order, numbered from 0 modulo \<open>2^32\<close>; for every longer one its
  size is reported and nothing else changes, so it uses up no number.
\<close>

theorem pub_sub_publishes_what_fits:
  "ps_published (publish_all ps (PubSub_new ip port n)) =
     map (\<lambda>(i, topic, msg). (topic, msg, word_of_nat i)) (enumerate 0 (filter fits ps)) \<and>
   ps_errors (publish_all ps (PubSub_new ip port n)) = map (length \<circ> snd) (filter (\<lambda>p. \<not> fits p) ps)"
  using publish_all_from [of "PubSub_new ip port n" ps] by (simp add: PubSub_new_def)

end
