(* ===== verification/CircularQueue.thy ===== *)
theory CircularQueue
  imports Prelude
begin

text \<open>
  The message queue of the logging library the repository carries:
  \<open>spdlog/details/circular_q.h\<close>, a ring in a vector with one slot more than it holds, and
  \<open>spdlog/details/mpmc_blocking_q.h\<close>, the same behind a mutex. A call of the second is its
  critical section; a wait whose condition is false is the result \<open>Blocked\<close> (\<open>enqueue\<close>) or
  \<open>TimedOut\<close> (\<open>dequeue_for\<close>), and leaves the queue as it is. The number of slots is a \<open>size_t\<close>: with
  the largest one asked for it is 0, and a call that divides by it or writes to the empty vector is
  the result \<open>Crashed\<close>. Memory is assumed to suffice.
\<close>

section \<open>circular_q\<close>

record 'a circular_q =
  max_items :: nat
  q_head :: nat
  q_tail :: nat
  q_v :: "'a list"
  overrun_counter :: "64 word"

definition circular_q_new :: "'a \<Rightarrow> nat \<Rightarrow> 'a circular_q" where
  "circular_q_new d n =
     \<lparr>max_items = (n + 1) mod 2 ^ 64, q_head = 0, q_tail = 0, q_v = replicate ((n + 1) mod 2 ^ 64) d, overrun_counter = 0\<rparr>"

text \<open>The functions that divide are defined for a queue with slots; their callers see to that.\<close>

definition push_back :: "'a \<Rightarrow> 'a circular_q \<Rightarrow> 'a circular_q" where
  "push_back item s =
     (let s = s\<lparr>q_v := (q_v s)[q_tail s := item], q_tail := (q_tail s + 1) mod max_items s\<rparr>
      in if q_tail s = q_head s
         then s\<lparr>q_head := (q_head s + 1) mod max_items s, overrun_counter := overrun_counter s + 1\<rparr>
         else s)"

definition pop_front :: "'a circular_q \<Rightarrow> 'a \<times> 'a circular_q" where
  "pop_front s = (q_v s ! q_head s, s\<lparr>q_head := (q_head s + 1) mod max_items s\<rparr>)"

definition cq_empty :: "'a circular_q \<Rightarrow> bool" where
  "cq_empty s \<longleftrightarrow> q_tail s = q_head s"

definition cq_full :: "'a circular_q \<Rightarrow> bool" where
  "cq_full s \<longleftrightarrow> (q_tail s + 1) mod max_items s = q_head s"

section \<open>mpmc_blocking_queue\<close>

datatype 'a queue_call = Enqueue 'a | EnqueueNowait 'a | DequeueFor

datatype 'a queue_answer = Enqueued | Blocked | Popped 'a | TimedOut | Crashed

definition enqueue :: "'a \<Rightarrow> 'a circular_q \<Rightarrow> 'a queue_answer \<times> 'a circular_q" where
  "enqueue item s =
     (if max_items s = 0 then (Crashed, s)
      else if \<not> cq_full s then (Enqueued, push_back item s) else (Blocked, s))"

definition enqueue_nowait :: "'a \<Rightarrow> 'a circular_q \<Rightarrow> 'a queue_answer \<times> 'a circular_q" where
  "enqueue_nowait item s = (if max_items s = 0 then (Crashed, s) else (Enqueued, push_back item s))"

definition dequeue_for :: "'a circular_q \<Rightarrow> 'a queue_answer \<times> 'a circular_q" where
  "dequeue_for s = (if \<not> cq_empty s then (let (x, s) = pop_front s in (Popped x, s)) else (TimedOut, s))"

fun mpmc_call :: "'a queue_call \<Rightarrow> 'a circular_q \<Rightarrow> 'a queue_answer \<times> 'a circular_q" where
  "mpmc_call (Enqueue x) s = enqueue x s"
| "mpmc_call (EnqueueNowait x) s = enqueue_nowait x s"
| "mpmc_call DequeueFor s = dequeue_for s"

section \<open>The queue as a list\<close>

text \<open>A bounded first-in first-out list that may drop its oldest element; the second component counts.\<close>

fun spec_call :: "nat \<Rightarrow> 'a queue_call \<Rightarrow> 'a list \<times> nat \<Rightarrow> 'a queue_answer \<times> 'a list \<times> nat" where
  "spec_call n (Enqueue x) (xs, k) =
     (if length xs < n then (Enqueued, xs @ [x], k) else (Blocked, xs, k))"
| "spec_call n (EnqueueNowait x) (xs, k) =
     (if length xs < n then (Enqueued, xs @ [x], k) else (Enqueued, drop 1 (xs @ [x]), k + 1))"
| "spec_call n DequeueFor (xs, k) =
     (case xs of [] \<Rightarrow> (TimedOut, xs, k) | x # xs \<Rightarrow> (Popped x, xs, k))"

fun run_calls :: "('c \<Rightarrow> 's \<Rightarrow> 'r \<times> 's) \<Rightarrow> 'c list \<Rightarrow> 's \<Rightarrow> 'r list \<times> 's" where
  "run_calls f [] s = ([], s)"
| "run_calls f (c # cs) s = (let (r, s) = f c s; (rs, s) = run_calls f cs s in (r # rs, s))"

text \<open>The elements from head to tail.\<close>

definition cq_length :: "'a circular_q \<Rightarrow> nat" where
  "cq_length s = (if q_head s \<le> q_tail s then q_tail s - q_head s else max_items s - q_head s + q_tail s)"

definition cq_list :: "'a circular_q \<Rightarrow> 'a list" where
  "cq_list s = map (\<lambda>i. q_v s ! ((q_head s + i) mod max_items s)) [0..<cq_length s]"

definition cq_ok :: "nat \<Rightarrow> 'a circular_q \<Rightarrow> bool" where
  "cq_ok n s \<longleftrightarrow> max_items s = n + 1 \<and> length (q_v s) = n + 1 \<and> q_head s \<le> n \<and> q_tail s \<le> n"

text \<open>What a queue relies on in its container: the laws of a ring with room for \<open>n\<close> elements.\<close>

locale ring =
  fixes n :: nat
    and ok :: "'s \<Rightarrow> bool"
    and elems :: "'s \<Rightarrow> 'a list"
    and dropped :: "'s \<Rightarrow> 64 word"
    and push :: "'a \<Rightarrow> 's \<Rightarrow> 's"
    and pop :: "'s \<Rightarrow> 'a \<times> 's"
    and is_empty :: "'s \<Rightarrow> bool"
    and is_full :: "'s \<Rightarrow> bool"
  assumes empty_iff: "ok s \<Longrightarrow> is_empty s \<longleftrightarrow> elems s = []"
    and full_iff: "ok s \<Longrightarrow> is_full s \<longleftrightarrow> \<not> length (elems s) < n"
    and push_ok: "ok s \<Longrightarrow> ok (push x s)"
    and push_room: "ok s \<Longrightarrow> length (elems s) < n \<Longrightarrow>
      elems (push x s) = elems s @ [x] \<and> dropped (push x s) = dropped s"
    and push_full: "ok s \<Longrightarrow> \<not> length (elems s) < n \<Longrightarrow>
      elems (push x s) = drop 1 (elems s @ [x]) \<and> dropped (push x s) = dropped s + 1"
    and pop_ok: "ok s \<Longrightarrow> elems s \<noteq> [] \<Longrightarrow>
      ok (snd (pop s)) \<and> fst (pop s) # elems (snd (pop s)) = elems s \<and> dropped (snd (pop s)) = dropped s"
begin

fun call :: "'a queue_call \<Rightarrow> 's \<Rightarrow> 'a queue_answer \<times> 's" where
  "call (Enqueue x) s = (if \<not> is_full s then (Enqueued, push x s) else (Blocked, s))"
| "call (EnqueueNowait x) s = (Enqueued, push x s)"
| "call DequeueFor s = (if \<not> is_empty s then (let (x, s) = pop s in (Popped x, s)) else (TimedOut, s))"

definition shows_as :: "'s \<Rightarrow> 'a list \<times> nat \<Rightarrow> bool" where
  "shows_as s a \<longleftrightarrow> ok s \<and> elems s = fst a \<and> dropped s = word_of_nat (snd a)"

lemma call_refines:
  assumes "shows_as s a"
  shows "fst (call c s) = fst (spec_call n c a) \<and> shows_as (snd (call c s)) (snd (spec_call n c a))"
proof -
  obtain xs k where a: "a = (xs, k)" by (cases a)
  have s: "ok s" "elems s = xs" "dropped s = word_of_nat k" using assms by (simp_all add: shows_as_def a)
  show ?thesis
  proof (cases c)
    case (Enqueue x)
    then show ?thesis using s push_ok [of s x] push_room [of s x] by (simp add: a full_iff shows_as_def)
  next
    case (EnqueueNowait x)
    then show ?thesis
      using s push_ok [of s x] push_room [of s x] push_full [of s x] by (simp add: a shows_as_def add.commute)
  next
    case DequeueFor
    then show ?thesis
      using s pop_ok [of s] by (cases xs) (auto simp: a empty_iff shows_as_def split: prod.splits)
  qed
qed

lemma run_refines:
  assumes "shows_as s a"
  shows "fst (run_calls call cs s) = fst (run_calls (spec_call n) cs a) \<and>
    shows_as (snd (run_calls call cs s)) (snd (run_calls (spec_call n) cs a))"
  using assms
proof (induction cs arbitrary: s a)
  case (Cons c cs)
  obtain r s' where c: "call c s = (r, s')" by (cases "call c s")
  obtain r2 a' where d: "spec_call n c a = (r2, a')" by (cases "spec_call n c a")
  have "r = r2" "shows_as s' a'" using call_refines [OF Cons.prems, of c] by (simp_all add: c d)
  with Cons.IH [of s' a'] show ?case by (simp add: c d case_prod_beta)
qed simp

end

section \<open>The ring is correct\<close>

lemma mod_wrap: "j < 2 * m \<Longrightarrow> j mod m = (if j < m then j else j - m)" for j m :: nat
  by (auto simp: mod_if)

lemma cq_length_le: "cq_ok n s \<Longrightarrow> cq_length s \<le> n"
  by (auto simp: cq_ok_def cq_length_def)

lemma length_cq_list [simp]: "length (cq_list s) = cq_length s"
  by (simp add: cq_list_def)

text \<open>The index of the element \<open>i\<close> behind the head.\<close>

definition slot :: "nat \<Rightarrow> nat \<Rightarrow> nat \<Rightarrow> nat" where
  "slot n h i = (if h + i < n + 1 then h + i else h + i - (n + 1))"

lemma nth_cq_list:
  assumes "cq_ok n s" and "i < cq_length s"
  shows "cq_list s ! i = q_v s ! slot n (q_head s) i"
proof -
  have "i \<le> n" using cq_length_le [OF assms(1)] assms(2) by simp
  with assms show ?thesis by (simp add: cq_list_def cq_ok_def mod_wrap slot_def)
qed

lemma push_back_cases:
  assumes "cq_ok n s"
  shows "cq_ok n (push_back x s)"
    and "cq_length s < n \<Longrightarrow>
      cq_length (push_back x s) = cq_length s + 1 \<and> q_head (push_back x s) = q_head s \<and>
      overrun_counter (push_back x s) = overrun_counter s"
    and "\<not> cq_length s < n \<Longrightarrow>
      cq_length (push_back x s) = n \<and> q_head (push_back x s) = (q_head s + 1) mod (n + 1) \<and>
      overrun_counter (push_back x s) = overrun_counter s + 1"
    and "q_v (push_back x s) = (q_v s)[q_tail s := x]"
  using assms by (auto simp: push_back_def cq_ok_def cq_length_def Let_def mod_wrap split: if_splits)

lemma cq_list_eqI:
  "cq_ok n s \<Longrightarrow> length xs = cq_length s \<Longrightarrow>
   (\<And>i. i < cq_length s \<Longrightarrow> q_v s ! slot n (q_head s) i = xs ! i) \<Longrightarrow> cq_list s = xs"
  by (rule nth_equalityI) (simp_all add: nth_cq_list)

lemma slot_of_tail: "cq_ok n s \<Longrightarrow> slot n (q_head s) (cq_length s) = q_tail s"
  by (auto simp: slot_def cq_ok_def cq_length_def)

lemma slot_not_tail: "cq_ok n s \<Longrightarrow> i < cq_length s \<Longrightarrow> slot n (q_head s) i \<noteq> q_tail s"
  by (auto simp: slot_def cq_ok_def cq_length_def split: if_splits)

lemma slot_Suc: "h < n + 1 \<Longrightarrow> i \<le> n \<Longrightarrow> slot n ((h + 1) mod (n + 1)) i = slot n h (i + 1)"
  by (auto simp: slot_def mod_wrap)

text \<open>The elements after the new one is stored at the tail, seen from the old head.\<close>

lemma stored_elements:
  assumes "cq_ok n s" and "i \<le> cq_length s"
  shows "(q_v s)[q_tail s := x] ! slot n (q_head s) i = (cq_list s @ [x]) ! i"
proof (cases "i < cq_length s")
  case True
  then show ?thesis
    using slot_not_tail [OF assms(1) True] nth_cq_list [OF assms(1) True] by (simp add: nth_append)
next
  case False
  have "q_tail s < length (q_v s)" using assms(1) by (simp add: cq_ok_def)
  moreover have "i = cq_length s" using assms(2) False by simp
  ultimately show ?thesis using slot_of_tail [OF assms(1)] by (simp add: nth_append)
qed

lemma push_back_room:
  assumes "cq_ok n s" and "cq_length s < n"
  shows "cq_list (push_back x s) = cq_list s @ [x]"
proof (rule cq_list_eqI [OF push_back_cases(1) [OF assms(1)]])
  note p = push_back_cases(2) [OF assms, of x] push_back_cases(4) [OF assms(1), of x]
  show "length (cq_list s @ [x]) = cq_length (push_back x s)" using p by simp
  show "q_v (push_back x s) ! slot n (q_head (push_back x s)) i = (cq_list s @ [x]) ! i"
    if "i < cq_length (push_back x s)" for i
    using that p stored_elements [OF assms(1), of i x] by simp
qed

lemma push_back_overrun:
  assumes "cq_ok n s" and "\<not> cq_length s < n"
  shows "cq_list (push_back x s) = drop 1 (cq_list s @ [x])"
proof (rule cq_list_eqI [OF push_back_cases(1) [OF assms(1)]])
  note p = push_back_cases(3) [OF assms, of x] push_back_cases(4) [OF assms(1), of x]
  have l: "cq_length s = n" using assms(2) cq_length_le [OF assms(1)] by simp
  have h: "q_head s < n + 1" using assms(1) by (simp add: cq_ok_def)
  show "length (drop 1 (cq_list s @ [x])) = cq_length (push_back x s)" using p l by simp
  show "q_v (push_back x s) ! slot n (q_head (push_back x s)) i = drop 1 (cq_list s @ [x]) ! i"
    if i: "i < cq_length (push_back x s)" for i
  proof -
    have "q_v (push_back x s) ! slot n (q_head (push_back x s)) i = (cq_list s @ [x]) ! (i + 1)"
      using i p l slot_Suc [OF h, of i] stored_elements [OF assms(1), of "i + 1" x] by simp
    also have "\<dots> = drop 1 (cq_list s @ [x]) ! i" using i p l by (subst nth_drop) simp_all
    finally show ?thesis .
  qed
qed

lemma pop_front_list:
  assumes "cq_ok n s" and "cq_list s \<noteq> []"
  shows "cq_ok n (snd (pop_front s))" and "cq_list s = fst (pop_front s) # cq_list (snd (pop_front s))"
proof -
  let ?s = "snd (pop_front s)"
  show ok: "cq_ok n ?s" using assms(1) by (simp add: cq_ok_def pop_front_def)
  have pos: "0 < cq_length s" using assms(2) by (metis length_cq_list length_greater_0_conv)
  have len: "cq_length s = cq_length ?s + 1"
    using assms(1) pos by (auto simp: cq_ok_def pop_front_def cq_length_def mod_wrap split: if_splits)
  have h: "q_head s < n + 1" using assms(1) by (simp add: cq_ok_def)
  show "cq_list s = fst (pop_front s) # cq_list ?s"
  proof (rule nth_equalityI)
    show "length (cq_list s) = length (fst (pop_front s) # cq_list ?s)" by (simp add: len)
    fix i assume i: "i < length (cq_list s)"
    show "cq_list s ! i = (fst (pop_front s) # cq_list ?s) ! i"
    proof (cases i)
      case 0
      then show ?thesis using nth_cq_list [OF assms(1), of 0] pos h by (simp add: pop_front_def slot_def)
    next
      case (Suc j)
      have j: "j < cq_length ?s" using i Suc len by simp
      have "q_head ?s = (q_head s + 1) mod (n + 1)" "q_v ?s = q_v s"
        using assms(1) by (simp_all add: pop_front_def cq_ok_def)
      moreover have "j \<le> n" using j cq_length_le [OF ok] by simp
      ultimately show ?thesis
        using Suc i slot_Suc [OF h] nth_cq_list [OF ok j] nth_cq_list [OF assms(1), of i] by simp
    qed
  qed
qed

interpretation cq: ring n "cq_ok n" cq_list overrun_counter push_back pop_front cq_empty cq_full for n
proof
  fix s :: "'b circular_q" and x :: 'b
  assume ok: "cq_ok n s"
  show "cq_empty s \<longleftrightarrow> cq_list s = []"
    using ok by (auto simp: cq_empty_def cq_ok_def cq_length_def cq_list_def split: if_splits)
  show "cq_full s \<longleftrightarrow> \<not> length (cq_list s) < n"
    using ok by (auto simp: cq_full_def cq_ok_def cq_length_def mod_wrap split: if_splits)
  show "cq_ok n (push_back x s)" using ok by (rule push_back_cases)
  show "length (cq_list s) < n \<Longrightarrow>
      cq_list (push_back x s) = cq_list s @ [x] \<and> overrun_counter (push_back x s) = overrun_counter s"
    using push_back_room [OF ok] push_back_cases(2) [OF ok] by simp
  show "\<not> length (cq_list s) < n \<Longrightarrow>
      cq_list (push_back x s) = drop 1 (cq_list s @ [x]) \<and>
      overrun_counter (push_back x s) = overrun_counter s + 1"
    using push_back_overrun [OF ok] push_back_cases(3) [OF ok] by simp
  show "cq_list s \<noteq> [] \<Longrightarrow>
      cq_ok n (snd (pop_front s)) \<and> fst (pop_front s) # cq_list (snd (pop_front s)) = cq_list s \<and>
      overrun_counter (snd (pop_front s)) = overrun_counter s"
    using pop_front_list [OF ok] by (simp add: pop_front_def)
qed

lemma mpmc_call_ring: "cq_ok n s \<Longrightarrow> mpmc_call c s = cq.call c s"
  by (cases c) (simp_all add: cq_ok_def enqueue_def enqueue_nowait_def dequeue_for_def)

lemma run_mpmc_calls: "cq.shows_as n s a \<Longrightarrow> run_calls mpmc_call cs s = run_calls cq.call cs s"
proof (induction cs arbitrary: s a)
  case (Cons c cs)
  from Cons.prems have "mpmc_call c s = cq.call c s" by (intro mpmc_call_ring [where n = n]) (simp add: cq.shows_as_def)
  moreover from cq.call_refines [OF Cons.prems, of c] have "run_calls mpmc_call cs (snd (cq.call c s)) = run_calls cq.call cs (snd (cq.call c s))"
    by (intro Cons.IH) blast
  ultimately show ?case by (simp add: case_prod_beta)
qed simp

lemma circular_q_new_ok: "n + 1 < 2 ^ 64 \<Longrightarrow> cq_ok n (circular_q_new d n)"
  by (simp add: circular_q_new_def cq_ok_def)

text \<open>
  C24. The ring behind the mutex is a bounded first-in first-out queue: whatever calls are made on
  a new queue for \<open>n\<close> messages, in any order, every call answers what a list of at most \<open>n\<close>
  elements answers, the elements between head and tail are that list, and the overrun counter
  counts the messages the calls of \<open>enqueue_nowait\<close> dropped, modulo \<open>2^64\<close>: without room it drops the
  oldest message, where the comment at the top of the header has it return false. A queue for the
  largest number of messages has no slot, and enqueuing on it crashes.
\<close>

theorem mpmc_queue_refines_list:
  "(n + 1 < 2 ^ 64 \<longrightarrow>
     (case run_calls (spec_call n) cs ([], 0) of (answers, xs, k) \<Rightarrow>
        fst (run_calls mpmc_call cs (circular_q_new d n)) = answers \<and>
        cq_list (snd (run_calls mpmc_call cs (circular_q_new d n))) = xs \<and>
        overrun_counter (snd (run_calls mpmc_call cs (circular_q_new d n))) = word_of_nat k)) \<and>
   (n + 1 = 2 ^ 64 \<longrightarrow> fst (mpmc_call (Enqueue x) (circular_q_new d n)) = Crashed \<and>
     fst (mpmc_call (EnqueueNowait x) (circular_q_new d n)) = Crashed)"
proof (intro conjI impI)
  assume "n + 1 < 2 ^ 64"
  then have "cq.shows_as n (circular_q_new d n) ([], 0)"
    by (simp add: cq.shows_as_def circular_q_new_ok) (simp add: circular_q_new_def cq_list_def cq_length_def)
  from cq.run_refines [OF this, of cs] run_mpmc_calls [OF this, of cs]
  show "case run_calls (spec_call n) cs ([], 0) of (answers, xs, k) \<Rightarrow>
        fst (run_calls mpmc_call cs (circular_q_new d n)) = answers \<and>
        cq_list (snd (run_calls mpmc_call cs (circular_q_new d n))) = xs \<and>
        overrun_counter (snd (run_calls mpmc_call cs (circular_q_new d n))) = word_of_nat k"
    by (simp add: cq.shows_as_def case_prod_beta)
qed (simp_all add: circular_q_new_def enqueue_def enqueue_nowait_def)

theorem mpmc_queue_refines_list_witness:
  "fst (run_calls mpmc_call [EnqueueNowait (1 :: nat), EnqueueNowait 2, Enqueue 3, DequeueFor, DequeueFor] (circular_q_new 0 1)) =
     [Enqueued, Enqueued, Blocked, Popped 2, TimedOut] \<and>
   fst (mpmc_call (Enqueue 1) (circular_q_new (0 :: nat) (2 ^ 64 - 1))) = Crashed"
  using mpmc_queue_refines_list [of 1 "[EnqueueNowait (1 :: nat), EnqueueNowait 2, Enqueue 3, DequeueFor, DequeueFor]" 0 1]
    mpmc_queue_refines_list [of "2 ^ 64 - 1" "[]" "0 :: nat" 1] by simp

end
