(* ===== verification/AsyncLogger.thy ===== *)
theory AsyncLogger
  imports Logging CircularQueue "HOL-Library.Sublist" "HOL-Library.Multiset"
begin

text \<open>
  Asynchronous logging: \<open>spdlog/details/thread_pool.h\<close>, \<open>spdlog/async_logger.h\<close> and
  \<open>spdlog/details/async_logger_impl.h\<close>, over the ring of theory CircularQueue and the loggers of theory
  SpdLogger; the example at the end uses the logger of theory Logging. Callers, workers and the
  destructor of the pool are a step relation whose steps are the critical sections of the queue and the
  calls of single sinks, which hold the mutex of the sink. A caller that waits for room is a caller that
  has not made its step yet: it has locked the pool, so the destructor cannot begin meanwhile. The
  workers wait with a timeout. Between the sinks of a logger, and before the handler of an exception,
  other threads may make their steps. The sinks of different loggers work on files of their own.
  Nobody changes levels or formatters while the pool runs. The loggers are a list, and a
  \<open>shared_ptr\<close> to one is its index.
\<close>

section \<open>Messages\<close>

datatype async_msg_type = log_type | flush_type | terminate_type

datatype async_overflow_policy = block | overrun_oldest

record async_msg =
  async_type :: async_msg_type
  async_level :: level
  async_time :: "64 word"
  async_thread :: "64 word"
  async_raw :: string
  async_msg_id :: "64 word"
  async_source :: source_loc
  worker_ptr :: "nat option"

definition async_of_log :: "nat \<Rightarrow> log_msg \<Rightarrow> async_msg" where
  "async_of_log worker m =
     \<lparr>async_type = log_type, async_level = msg_level m, async_time = msg_time m, async_thread = msg_thread_id m,
      async_raw = payload m, async_msg_id = msg_id m, async_source = msg_source m, worker_ptr = Some worker\<rparr>"

definition async_of_type :: "nat option \<Rightarrow> async_msg_type \<Rightarrow> async_msg" where
  "async_of_type worker the_type =
     \<lparr>async_type = the_type, async_level = off, async_time = 0, async_thread = 0, async_raw = [], async_msg_id = 0,
      async_source = no_source, worker_ptr = worker\<rparr>"

definition to_log_msg :: "string \<Rightarrow> async_msg \<Rightarrow> log_msg" where
  "to_log_msg name am =
     \<lparr>msg_logger_name = name, msg_level = async_level am, msg_time = async_time am, msg_thread_id = async_thread am,
      msg_id = async_msg_id am, color_range_start = 0, color_range_end = 0, msg_source = async_source am, payload = async_raw am\<rparr>"

section \<open>Loggers and the pool\<close>

record async_logger =
  base_logger :: logger
  overflow_policy :: async_overflow_policy

text \<open>The loop of \<open>backend_log_\<close> for the sink \<open>i\<close>; after the loop, \<open>backend_flush_\<close> has no effect on a disk that
  is written through.\<close>

definition backend_log_sink :: "log_os \<Rightarrow> log_msg \<Rightarrow> nat \<Rightarrow> logger \<times> log_outside \<Rightarrow> log_msg res \<times> logger \<times> log_outside" where
  "backend_log_sink os m i = (\<lambda>(l, w).
     if sink_should_log (msg_level m) (lg_sinks l ! i) then
       (case sink_log os m (lg_sinks l ! i, log_disk w) of
          (r, (s, d)) \<Rightarrow> (r, (l\<lparr>lg_sinks := (lg_sinks l)[i := s]\<rparr>, w\<lparr>log_disk := d\<rparr>)))
     else (Inr m, (l, w)))"

definition backend_flush :: "logger \<times> log_outside \<Rightarrow> unit res \<times> logger \<times> log_outside" where
  "backend_flush lw = (Inr (), lw)"

text \<open>\<open>logger::log\<close> with the \<open>sink_it_\<close> of the asynchronous logger: the message to post, if there is one,
  or what the error handler does. \<open>alive\<close> tells whether the pool can be locked.\<close>

record async_call =
  ac_env :: log_env
  ac_logger :: nat
  ac_source :: source_loc
  ac_level :: level
  ac_format :: string
  ac_args :: "fmt_arg list"

definition call_view :: "async_call \<Rightarrow> string res" where
  "call_view c = (if ac_args c = [] then Inr (ac_format c) else vformat_to (env_fmt (ac_env c)) [] (ac_format c) (ac_args c))"

definition async_log :: "bool \<Rightarrow> async_call \<Rightarrow> logger \<times> log_outside \<Rightarrow> log_msg option \<times> unit res \<times> logger \<times> log_outside" where
  "async_log alive c lw =
     (if \<not> should_log (ac_level c) (fst lw) then (None, (Inr (), lw))
      else
        (case call_view c of
           Inl e \<Rightarrow> (None, catch_and_handle (ac_env c) (Inl e, lw))
         | Inr view \<Rightarrow>
             if \<not> alive
             then (None, catch_and_handle (ac_env c)
               (Inl (SpdlogException (''async log: thread pool doesn'' @ [CHR 0x27] @ ''t exist anymore'')), lw))
             else (Some (log_msg_new (ac_source c) (lg_name (fst lw)) (ac_level c) view (env_now (ac_env c)) (env_thread (ac_env c))),
               (Inr (), lw))))"

text \<open>\<open>logger::flush\<close> with the \<open>flush_\<close> of the asynchronous logger.\<close>

definition async_flush :: "bool \<Rightarrow> nat \<Rightarrow> log_env \<Rightarrow> logger \<times> log_outside \<Rightarrow> async_msg option \<times> unit res \<times> logger \<times> log_outside" where
  "async_flush alive a env lw =
     (if alive then (Some (async_of_type (Some a) flush_type), (Inr (), lw))
      else (None, catch_and_handle env
        (Inl (SpdlogException (''async flush: thread pool doesn'' @ [CHR 0x27] @ ''t exist anymore'')), lw)))"

definition post_async_msg :: "async_overflow_policy \<Rightarrow> async_msg \<Rightarrow> async_msg circular_q \<Rightarrow> async_msg queue_answer \<times> async_msg circular_q" where
  "post_async_msg policy am q = (case policy of block \<Rightarrow> enqueue am q | overrun_oldest \<Rightarrow> enqueue_nowait am q)"

text \<open>A worker: in \<open>dequeue_for\<close>, with a message in hand, in the loop over the sinks of a logger before the
  sink with the index given last, with an exception caught there, ended by a terminate message, or
  stopped by an error that is no exception, which ends the program: steps after it mean nothing.\<close>

datatype worker_pc =
  Waiting | InHand async_msg | InSinks async_msg nat log_msg nat | Caught nat error | Ended | Aborted error

definition in_hand :: "worker_pc \<Rightarrow> async_msg list" where
  "in_hand p = (case p of InHand am \<Rightarrow> [am] | InSinks am a m i \<Rightarrow> [am] | _ \<Rightarrow> [])"

text \<open>The pool with its surroundings. \<open>terminating\<close> is the number of terminate messages that the destructor
  has posted, once it has begun, and \<open>joined\<close> that it has returned. The rest is history: the calls that
  posted a message, everything posted, taken from the queue and handled (when the last of its sinks has
  been called), and what was overrun.\<close>

record async_system =
  tp_queue :: "async_msg circular_q"
  tp_workers :: "worker_pc list"
  tp_loggers :: "async_logger list"
  tp_outside :: log_outside
  terminating :: "nat option"
  joined :: bool
  logged_calls :: "async_call list"
  posted :: "async_msg list"
  taken :: "async_msg list"
  done_msgs :: "async_msg list"
  overrun :: "async_msg list"

definition thread_pool_new :: "async_msg \<Rightarrow> nat \<Rightarrow> nat \<Rightarrow> async_logger list \<Rightarrow> log_outside \<Rightarrow> async_system res" where
  "thread_pool_new d q_max_items threads_n ls w =
     (if threads_n = 0 \<or> 1000 < threads_n
      then Inl (SpdlogException ''spdlog::thread_pool(): invalid threads_n param (valid range is 1-1000)'')
      else Inr \<lparr>tp_queue = circular_q_new d q_max_items, tp_workers = replicate threads_n Waiting, tp_loggers = ls,
        tp_outside = w, terminating = None, joined = False, logged_calls = [], posted = [], taken = [], done_msgs = [], overrun = []\<rparr>)"

definition on_logger :: "nat \<Rightarrow> logger \<times> log_outside \<Rightarrow> async_system \<Rightarrow> async_system" where
  "on_logger a lw s =
     s\<lparr>tp_loggers := (tp_loggers s)[a := (tp_loggers s ! a)\<lparr>base_logger := fst lw\<rparr>], tp_outside := snd lw\<rparr>"

definition logger_of :: "nat \<Rightarrow> async_system \<Rightarrow> logger \<times> log_outside" where
  "logger_of a s = (base_logger (tp_loggers s ! a), tp_outside s)"

text \<open>What a message that is posted pushes out of the queue.\<close>

definition pushed_out :: "async_msg \<Rightarrow> async_msg circular_q \<Rightarrow> async_msg list" where
  "pushed_out am q = (if cq_full q then [hd (cq_list q @ [am])] else [])"

definition record_post :: "async_msg \<Rightarrow> async_msg circular_q \<Rightarrow> async_system \<Rightarrow> async_system" where
  "record_post am q s =
     s\<lparr>tp_queue := q, posted := posted s @ [am], overrun := overrun s @ pushed_out am (tp_queue s)\<rparr>"

text \<open>\<open>process_next_msg_\<close> after the message has been taken.\<close>

definition begin_msg :: "async_msg \<Rightarrow> async_system \<Rightarrow> worker_pc \<times> async_system" where
  "begin_msg am s =
     (case async_type am of
        log_type \<Rightarrow>
          (case worker_ptr am of
             None \<Rightarrow> (Aborted UndefinedBehaviour, s)
           | Some a \<Rightarrow>
               (let l = fst (logger_of a s)
                in if lg_sinks l = [] then (Waiting, s) else (InSinks am a (to_log_msg (lg_name l) am) 0, s)))
      | flush_type \<Rightarrow>
          (case worker_ptr am of
             None \<Rightarrow> (Aborted UndefinedBehaviour, s)
           | Some a \<Rightarrow> (case backend_flush (logger_of a s) of (r, lw) \<Rightarrow> (Waiting, on_logger a lw s)))
      | terminate_type \<Rightarrow> (Ended, s))"

definition next_sink :: "log_os \<Rightarrow> async_msg \<Rightarrow> nat \<Rightarrow> log_msg \<Rightarrow> nat \<Rightarrow> async_system \<Rightarrow> worker_pc \<times> async_system" where
  "next_sink os am a m i s =
     (case backend_log_sink os m i (logger_of a s) of
        (Inl e, lw) \<Rightarrow> (Caught a e, on_logger a lw s)
      | (Inr m, lw) \<Rightarrow> (if Suc i < length (lg_sinks (fst lw)) then InSinks am a m (Suc i) else Waiting, on_logger a lw s))"

definition handle_caught :: "log_env \<Rightarrow> nat \<Rightarrow> error \<Rightarrow> async_system \<Rightarrow> worker_pc \<times> async_system" where
  "handle_caught env a e s =
     (case catch_and_handle env (Inl e, logger_of a s) of
        (Inl e, lw) \<Rightarrow> (Aborted e, on_logger a lw s)
      | (Inr _, lw) \<Rightarrow> (Waiting, on_logger a lw s))"

definition process_step :: "log_env \<Rightarrow> worker_pc \<Rightarrow> async_system \<Rightarrow> worker_pc \<times> async_system" where
  "process_step env p s =
     (case p of
        InHand am \<Rightarrow> begin_msg am s
      | InSinks am a m i \<Rightarrow> next_sink (env_os env) am a m i s
      | Caught a e \<Rightarrow> handle_caught env a e s
      | _ \<Rightarrow> (p, s))"

definition at_work :: "worker_pc \<Rightarrow> bool" where
  "at_work p \<longleftrightarrow> (case p of InHand am \<Rightarrow> True | InSinks am a m i \<Rightarrow> True | Caught a e \<Rightarrow> True | _ \<Rightarrow> False)"

text \<open>The message whose handling is over when a worker goes from one place to the next.\<close>

definition finished :: "worker_pc \<Rightarrow> worker_pc \<Rightarrow> async_msg list" where
  "finished p p' = (if in_hand p' = [] then in_hand p else [])"

inductive async_step :: "log_os \<Rightarrow> async_system \<Rightarrow> async_system \<Rightarrow> bool" for os s where
  call_returns:
    "env_os (ac_env c) = os \<Longrightarrow> ac_logger c < length (tp_loggers s) \<Longrightarrow>
     async_log (terminating s = None) c (logger_of (ac_logger c) s) = (None, (r, lw)) \<Longrightarrow>
     async_step os s (on_logger (ac_logger c) lw s)"
| call_posts:
    "env_os (ac_env c) = os \<Longrightarrow> ac_logger c < length (tp_loggers s) \<Longrightarrow>
     async_log (terminating s = None) c (logger_of (ac_logger c) s) = (Some m, (r, lw)) \<Longrightarrow>
     post_async_msg (overflow_policy (tp_loggers s ! ac_logger c)) (async_of_log (ac_logger c) m) (tp_queue s) = (Enqueued, q) \<Longrightarrow>
     async_step os s ((record_post (async_of_log (ac_logger c) m) q s)\<lparr>logged_calls := logged_calls s @ [c]\<rparr>)"
| flush_returns:
    "a < length (tp_loggers s) \<Longrightarrow> async_flush (terminating s = None) a env (logger_of a s) = (None, (r, lw)) \<Longrightarrow>
     async_step os s (on_logger a lw s)"
| flush_posts:
    "a < length (tp_loggers s) \<Longrightarrow> async_flush (terminating s = None) a env (logger_of a s) = (Some am, (r, lw)) \<Longrightarrow>
     post_async_msg (overflow_policy (tp_loggers s ! a)) am (tp_queue s) = (Enqueued, q) \<Longrightarrow>
     async_step os s (record_post am q s)"
| worker_takes:
    "i < length (tp_workers s) \<Longrightarrow> tp_workers s ! i = Waiting \<Longrightarrow> dequeue_for (tp_queue s) = (Popped am, q) \<Longrightarrow>
     async_step os s (s\<lparr>tp_queue := q, taken := taken s @ [am], tp_workers := (tp_workers s)[i := InHand am]\<rparr>)"
| worker_times_out:
    "i < length (tp_workers s) \<Longrightarrow> tp_workers s ! i = Waiting \<Longrightarrow> dequeue_for (tp_queue s) = (TimedOut, q) \<Longrightarrow>
     async_step os s (s\<lparr>tp_queue := q\<rparr>)"
| worker_works:
    "i < length (tp_workers s) \<Longrightarrow> tp_workers s ! i = p \<Longrightarrow> at_work p \<Longrightarrow> env_os env = os \<Longrightarrow> process_step env p s = (p', s') \<Longrightarrow>
     async_step os s (s'\<lparr>done_msgs := done_msgs s @ finished p p', tp_workers := (tp_workers s)[i := p']\<rparr>)"
| destructor_begins: "terminating s = None \<Longrightarrow> async_step os s (s\<lparr>terminating := Some 0\<rparr>)"
| destructor_posts:
    "terminating s = Some k \<Longrightarrow> k < length (tp_workers s) \<Longrightarrow>
     post_async_msg block (async_of_type None terminate_type) (tp_queue s) = (Enqueued, q) \<Longrightarrow>
     async_step os s ((record_post (async_of_type None terminate_type) q s)\<lparr>terminating := Some (Suc k)\<rparr>)"
| destructor_joins:
    "terminating s = Some (length (tp_workers s)) \<Longrightarrow> \<forall>p \<in> set (tp_workers s). p = Ended \<Longrightarrow> \<not> joined s \<Longrightarrow>
     async_step os s (s\<lparr>joined := True\<rparr>)"

inductive async_reachable :: "log_os \<Rightarrow> async_system \<Rightarrow> async_system \<Rightarrow> bool" for os s0 where
  start: "async_reachable os s0 s0"
| step: "async_reachable os s0 s \<Longrightarrow> async_step os s s' \<Longrightarrow> async_reachable os s0 s'"

inductive_cases async_stepE: "async_step os s s'"

section \<open>What the steps keep\<close>

definition sinks_state :: "async_logger list \<times> log_outside \<Rightarrow> file_sink list list \<times> disk" where
  "sinks_state = (\<lambda>(ls, w). (map (\<lambda>l. lg_sinks (base_logger l)) ls, log_disk w))"

abbreviation sinks_of :: "async_system \<Rightarrow> file_sink list list \<times> disk" where
  "sinks_of s \<equiv> sinks_state (tp_loggers s, tp_outside s)"

definition settings :: "async_logger list \<Rightarrow> (string \<times> level \<times> async_overflow_policy) list" where
  "settings = map (\<lambda>l. (lg_name (base_logger l), lg_level (base_logger l), overflow_policy l))"

definition sink_counts :: "async_logger list \<Rightarrow> nat list" where
  "sink_counts = map (\<lambda>l. length (lg_sinks (base_logger l)))"

text \<open>What the loop from the sink \<open>i\<close> on does to the sinks.\<close>

definition sinks_rest :: "log_os \<Rightarrow> nat \<Rightarrow> nat \<times> log_msg \<Rightarrow> file_sink list list \<times> disk \<Rightarrow> file_sink list list \<times> disk" where
  "sinks_rest os i = (\<lambda>(a, m) (sss, d). case sinks_log os m (drop i (sss ! a)) d of
     (r, (ss, d)) \<Rightarrow> (sss[a := take i (sss ! a) @ ss], d))"

definition sinks_step :: "log_os \<Rightarrow> nat \<times> log_msg \<Rightarrow> file_sink list list \<times> disk \<Rightarrow> file_sink list list \<times> disk" where
  "sinks_step os = (\<lambda>(a, m) (sss, d). case sinks_log os m (sss ! a) d of (r, (ss, d)) \<Rightarrow> (sss[a := ss], d))"

text \<open>The error handler leaves the sinks, the disk and the settings alone.\<close>

lemma call_err_handler_keeps:
  "lg_sinks (fst (call_err_handler env t lw)) = lg_sinks (fst lw)" "lg_name (fst (call_err_handler env t lw)) = lg_name (fst lw)"
  "lg_level (fst (call_err_handler env t lw)) = lg_level (fst lw)" "log_disk (snd (call_err_handler env t lw)) = log_disk (snd lw)"
  by (cases lw; auto simp: call_err_handler_def Let_def split: err_handler.split)+

lemma catch_and_handle_keeps:
  "catch_and_handle env (r, lw) = (r', lw') \<Longrightarrow>
     lg_sinks (fst lw') = lg_sinks (fst lw) \<and> lg_name (fst lw') = lg_name (fst lw) \<and> lg_level (fst lw') = lg_level (fst lw) \<and>
     log_disk (snd lw') = log_disk (snd lw)"
  by (auto simp: catch_and_handle_def call_err_handler_keeps split: sum.splits option.splits)

lemma map_update_same: "(map f xs)[a := f (xs ! a)] = map f xs"
  using map_update [of f xs a "xs ! a"] by simp

lemma settings_on_logger:
  assumes "lg_name (fst lw) = lg_name (fst (logger_of a s))" and "lg_level (fst lw) = lg_level (fst (logger_of a s))"
  shows "settings (tp_loggers (on_logger a lw s)) = settings (tp_loggers s)"
  using assms map_update_same [of "\<lambda>l. (lg_name (base_logger l), lg_level (base_logger l), overflow_policy l)" "tp_loggers s" a]
  by (simp add: settings_def on_logger_def logger_of_def map_update)

lemma sinks_on_logger:
  "sinks_of (on_logger a lw s) = ((fst (sinks_of s))[a := lg_sinks (fst lw)], log_disk (snd lw))"
  by (simp add: sinks_state_def on_logger_def map_update)

lemma sinks_on_logger_same:
  assumes "lg_sinks (fst lw) = lg_sinks (fst (logger_of a s))" and "log_disk (snd lw) = log_disk (tp_outside s)"
  shows "sinks_of (on_logger a lw s) = sinks_of s"
  using assms map_update_same [of "\<lambda>l. lg_sinks (base_logger l)" "tp_loggers s" a]
  by (simp only: sinks_on_logger) (simp add: sinks_state_def logger_of_def)

lemma async_log_none:
  assumes "async_log alive c lw = (None, (r, lw'))"
  shows "lg_sinks (fst lw') = lg_sinks (fst lw) \<and> lg_name (fst lw') = lg_name (fst lw) \<and> lg_level (fst lw') = lg_level (fst lw) \<and>
    log_disk (snd lw') = log_disk (snd lw)"
  using assms by (auto simp: async_log_def split: if_splits sum.splits dest: catch_and_handle_keeps)

lemma async_log_some:
  assumes "async_log alive c lw = (Some m, (r, lw'))"
  shows "alive \<and> lw' = lw \<and> should_log (ac_level c) (fst lw) \<and> (\<exists>view. call_view c = Inr view \<and>
    m = log_msg_new (ac_source c) (lg_name (fst lw)) (ac_level c) view (env_now (ac_env c)) (env_thread (ac_env c)))"
  using assms by (auto simp: async_log_def split: if_splits sum.splits)

lemma async_flush_none:
  assumes "async_flush alive a env lw = (None, (r, lw'))"
  shows "lg_sinks (fst lw') = lg_sinks (fst lw) \<and> lg_name (fst lw') = lg_name (fst lw) \<and> lg_level (fst lw') = lg_level (fst lw) \<and>
    log_disk (snd lw') = log_disk (snd lw)"
  using assms by (auto simp: async_flush_def split: if_splits dest: catch_and_handle_keeps)

lemma async_flush_some:
  "async_flush alive a env lw = (Some am, (r, lw')) \<Longrightarrow> alive \<and> lw' = lw \<and> am = async_of_type (Some a) flush_type"
  by (auto simp: async_flush_def split: if_splits)

text \<open>What one message does to the sinks, the name of its logger being known.\<close>

definition handle_sinks :: "log_os \<Rightarrow> string list \<Rightarrow> async_msg \<Rightarrow> file_sink list list \<times> disk \<Rightarrow> file_sink list list \<times> disk" where
  "handle_sinks os names am sd =
     (case (async_type am, worker_ptr am) of
        (log_type, Some a) \<Rightarrow> sinks_step os (a, to_log_msg (names ! a) am) sd
      | _ \<Rightarrow> sd)"

definition names_of :: "async_logger list \<Rightarrow> string list" where
  "names_of ls = map fst (settings ls)"

lemma sinks_of_logger:
  assumes "a < length (tp_loggers s)"
  shows "sinks_of s = (fst (sinks_of s), log_disk (snd (logger_of a s)))" and "fst (sinks_of s) ! a = lg_sinks (fst (logger_of a s))"
    and "a < length (fst (sinks_of s))"
  using assms by (simp_all add: sinks_state_def logger_of_def)

lemma take_Suc_update: "i < length xs \<Longrightarrow> take (Suc i) (xs[i := x]) = take i xs @ [x]"
  by (simp add: upd_conv_take_nth_drop)

text \<open>The call of one sink.\<close>

lemma backend_log_sink_keeps:
  assumes "backend_log_sink os m i (logger_of a s) = (r, lw)" and "a < length (tp_loggers s)" and "i < length (lg_sinks (fst (logger_of a s)))"
  shows "lg_name (fst lw) = lg_name (fst (logger_of a s))" and "lg_level (fst lw) = lg_level (fst (logger_of a s))"
    and "length (lg_sinks (fst lw)) = length (lg_sinks (fst (logger_of a s)))"
    and "sinks_rest os i (a, m) (sinks_of s) =
      (case r of Inl e \<Rightarrow> sinks_of (on_logger a lw s) | Inr m' \<Rightarrow> sinks_rest os (Suc i) (a, m') (sinks_of (on_logger a lw s)))"
proof -
  obtain l w where lw: "logger_of a s = (l, w)" by (cases "logger_of a s")
  let ?ss = "lg_sinks l"
  obtain sss where sss: "sinks_of s = (sss, log_disk w)" "sss ! a = ?ss" "a < length sss"
    using sinks_of_logger [OF assms(2)] lw by (metis fst_conv snd_conv)
  have i: "i < length ?ss" "drop i ?ss = ?ss ! i # drop (Suc i) ?ss" using assms(3) lw by (simp_all add: Cons_nth_drop_Suc)
  obtain x d where r: "lg_sinks (fst lw) = ?ss[i := x]" "log_disk (snd lw) = d"
    "(if sink_should_log (msg_level m) (?ss ! i) then sink_log os m (?ss ! i, log_disk w) else (Inr m, (?ss ! i, log_disk w))) = (r, (x, d))"
    "lg_name (fst lw) = lg_name l" "lg_level (fst lw) = lg_level l"
  proof (cases "sink_should_log (msg_level m) (?ss ! i)")
    case True
    obtain q x d where "sink_log os m (?ss ! i, log_disk w) = (q, (x, d))" by (metis prod_cases3)
    with True assms(1) lw that [of x d] show ?thesis by (auto simp: backend_log_sink_def)
  next
    case False
    with assms(1) lw have "lw = (l, w)" "r = Inr m" by (simp_all add: backend_log_sink_def)
    with False that [of "?ss ! i" "log_disk w"] show ?thesis by simp
  qed
  from r lw show "lg_name (fst lw) = lg_name (fst (logger_of a s))" "lg_level (fst lw) = lg_level (fst (logger_of a s))"
    "length (lg_sinks (fst lw)) = length (lg_sinks (fst (logger_of a s)))" by simp_all
  have after: "sinks_of (on_logger a lw s) = (sss[a := ?ss[i := x]], d)"
    by (simp only: sinks_on_logger sss(1) fst_conv r(1,2))
  obtain q ss2 d2 where rest: "(case r of Inl e \<Rightarrow> (Inl e, (drop (Suc i) ?ss, d)) | Inr m' \<Rightarrow> sinks_log os m' (drop (Suc i) ?ss) d) = (q, (ss2, d2))"
    by (metis prod_cases3)
  have "sinks_log os m (drop i ?ss) (log_disk w) = (q, (x # ss2, d2))"
    using r(3) rest i(2) by (cases r) (auto split: if_splits)
  then have before: "sinks_rest os i (a, m) (sinks_of s) = (sss[a := take i ?ss @ x # ss2], d2)"
    by (simp add: sinks_rest_def sss)
  have upd: "?ss[i := x] = take i ?ss @ x # drop (Suc i) ?ss" using i(1) by (rule upd_conv_take_nth_drop)
  show "sinks_rest os i (a, m) (sinks_of s) =
      (case r of Inl e \<Rightarrow> sinks_of (on_logger a lw s) | Inr m' \<Rightarrow> sinks_rest os (Suc i) (a, m') (sinks_of (on_logger a lw s)))"
  proof (cases r)
    case (Inl e)
    with rest have "ss2 = drop (Suc i) ?ss" "d2 = d" by simp_all
    then show ?thesis unfolding before after by (simp add: upd Inl)
  next
    case (Inr m')
    with rest i(1) sss(3) have "sinks_rest os (Suc i) (a, m') (sss[a := ?ss[i := x]], d) = (sss[a := take i ?ss @ x # ss2], d2)"
      by (simp add: sinks_rest_def take_Suc_update)
    then show ?thesis unfolding before after by (simp add: Inr)
  qed
qed

lemma sinks_rest_end: "length (sss ! a) \<le> i \<Longrightarrow> sinks_rest os i (a, m) (sss, d) = (sss, d)"
  by (simp add: sinks_rest_def)

lemma sinks_rest_start: "sinks_rest os 0 (a, m) sd = sinks_step os (a, m) sd"
  by (cases sd) (simp add: sinks_rest_def sinks_step_def)

lemma sink_counts_on_logger:
  assumes "length (lg_sinks (fst lw)) = length (lg_sinks (fst (logger_of a s)))"
  shows "sink_counts (tp_loggers (on_logger a lw s)) = sink_counts (tp_loggers s)"
  using assms map_update_same [of "\<lambda>l. length (lg_sinks (base_logger l))" "tp_loggers s" a]
  by (simp add: sink_counts_def on_logger_def logger_of_def map_update)

lemma names_nth: "a < length (tp_loggers s) \<Longrightarrow> names_of (tp_loggers s) ! a = lg_name (fst (logger_of a s))"
  by (simp add: names_of_def settings_def logger_of_def)

lemma sink_counts_nth:
  "a < length (tp_loggers s) \<Longrightarrow> sink_counts (tp_loggers s) ! a = length (lg_sinks (fst (logger_of a s)))"
  "length (sink_counts (tp_loggers s)) = length (tp_loggers s)"
  by (simp_all add: sink_counts_def logger_of_def)

section \<open>The way through the queue\<close>

lemma post_flow:
  assumes "cq_ok n q" and "post_async_msg p am q = (Enqueued, q')"
  shows "cq_ok n q'" and "cq_list q @ [am] = pushed_out am q @ cq_list q'"
    and "overrun_counter q' = overrun_counter q + word_of_nat (length (pushed_out am q))"
    and "p = block \<Longrightarrow> pushed_out am q = []"
proof -
  have q': "q' = push_back am q" "p = block \<Longrightarrow> \<not> cq_full q"
    using assms(2) by (auto simp: post_async_msg_def enqueue_def enqueue_nowait_def split: async_overflow_policy.splits if_splits)
  show "cq_ok n q'" using cq.push_ok [OF assms(1)] q'(1) by simp
  show "p = block \<Longrightarrow> pushed_out am q = []" using q'(2) by (simp add: pushed_out_def)
  show "cq_list q @ [am] = pushed_out am q @ cq_list q'"
    and "overrun_counter q' = overrun_counter q + word_of_nat (length (pushed_out am q))"
    using cq.push_room [OF assms(1), of am] cq.push_full [OF assms(1), of am] cq.full_iff [OF assms(1)] q'(1)
    by (cases "cq_full q"; cases "cq_list q @ [am]"; auto simp: pushed_out_def)+
qed

lemma take_flow:
  assumes "cq_ok n q" and "dequeue_for q = (Popped am, q')"
  shows "cq_ok n q'" and "cq_list q = am # cq_list q'" and "overrun_counter q' = overrun_counter q"
  using assms cq.pop_ok [OF assms(1)] cq.empty_iff [OF assms(1)] by (auto simp: dequeue_for_def split: if_splits prod.splits)

lemma dequeue_for_times_out: "dequeue_for q = (TimedOut, q') \<Longrightarrow> q' = q \<and> cq_empty q"
  by (auto simp: dequeue_for_def split: if_splits prod.splits)

definition flow :: "async_system \<Rightarrow> async_msg list" where
  "flow s = taken s @ cq_list (tp_queue s)"

definition all_block :: "async_logger list \<Rightarrow> bool" where
  "all_block ls \<longleftrightarrow> (\<forall>x \<in> set (settings ls). snd (snd x) = block)"

lemma all_block_policy: "all_block ls \<Longrightarrow> a < length ls \<Longrightarrow> overflow_policy (ls ! a) = block"
  by (force simp: all_block_def settings_def set_conv_nth)

definition flow_inv :: "nat \<Rightarrow> async_system \<Rightarrow> bool" where
  "flow_inv n s \<longleftrightarrow>
     cq_ok n (tp_queue s) \<and> subseq (flow s) (posted s) \<and> mset (posted s) = mset (flow s) + mset (overrun s) \<and>
     overrun_counter (tp_queue s) = word_of_nat (length (overrun s)) \<and> (all_block (tp_loggers s) \<longrightarrow> overrun s = [])"

lemma subseq_drop_middle: "subseq (xs @ zs) us \<Longrightarrow> zs = ys @ vs \<Longrightarrow> subseq (xs @ vs) us"
  by (metis subseq_append' subseq_order.order_trans list_emb_append2 subseq_order.order_refl)

lemma record_post_flow:
  assumes "flow_inv n s" and "post_async_msg p am (tp_queue s) = (Enqueued, q)" and "all_block (tp_loggers s) \<longrightarrow> p = block"
  shows "flow_inv n (record_post am q s)"
proof -
  note i = assms(1) [unfolded flow_inv_def flow_def]
  note f = post_flow [OF conjunct1 [OF i] assms(2)]
  let ?o = "pushed_out am (tp_queue s)"
  have "subseq (taken s @ cq_list (tp_queue s) @ [am]) (posted s @ [am])"
    using i by (metis append.assoc subseq_append' list_emb_append_mono subseq_order.order_refl)
  from subseq_drop_middle [OF this f(2)] have "subseq (taken s @ cq_list q) (posted s @ [am])" .
  moreover have "mset (cq_list (tp_queue s)) + {#am#} = mset ?o + mset (cq_list q)"
    using arg_cong [OF f(2), of mset] by simp
  then have "mset (posted s @ [am]) = mset (taken s @ cq_list q) + mset (overrun s @ ?o)"
    using i by (simp add: ac_simps)
  ultimately show ?thesis
    using i f(1,3,4) assms(3) by (auto simp: flow_inv_def flow_def record_post_def)
qed

section \<open>Invariants\<close>

lemma in_hand_simps [simp]:
  "in_hand Waiting = []" "in_hand (InHand am) = [am]" "in_hand (InSinks am a m i) = [am]" "in_hand (Caught a e) = []" "in_hand Ended = []" "in_hand (Aborted e) = []"
  by (simp_all add: in_hand_def)

definition hands :: "worker_pc list \<Rightarrow> async_msg list" where
  "hands ws = concat (map in_hand ws)"

lemma hands_update:
  "i < length ws \<Longrightarrow> mset (hands (ws[i := p])) + mset (in_hand (ws ! i)) = mset (hands ws) + mset (in_hand p)"
proof (induction ws arbitrary: i)
  case (Cons w ws)
  then show ?case by (cases i) (simp_all add: hands_def ac_simps)
qed simp

definition hand_inv :: "nat \<Rightarrow> async_system \<Rightarrow> bool" where
  "hand_inv k s \<longleftrightarrow>
     length (tp_workers s) = k \<and> mset (taken s) = mset (done_msgs s) + mset (hands (tp_workers s)) \<and>
     (k = 1 \<longrightarrow> taken s = done_msgs s @ hands (tp_workers s))"

definition ends :: "async_msg \<Rightarrow> bool" where
  "ends am \<longleftrightarrow> async_type am = terminate_type"

definition ended :: "worker_pc list \<Rightarrow> nat" where
  "ended ws = length (filter (\<lambda>p. p = Ended) ws)"

lemma ended_update:
  "i < length ws \<Longrightarrow> ended (ws[i := p]) + (if ws ! i = Ended then 1 else 0) = ended ws + (if p = Ended then 1 else 0)"
proof (induction ws arbitrary: i)
  case (Cons w ws)
  show ?case
  proof (cases i)
    case (Suc j)
    then show ?thesis using Cons.IH [of j] Cons.prems by (cases "p = Ended") (simp_all add: ended_def split: if_splits)
  qed (auto simp: ended_def)
qed simp

definition end_inv :: "async_system \<Rightarrow> bool" where
  "end_inv s \<longleftrightarrow>
     (\<exists>ls. flow s = ls @ replicate (case terminating s of None \<Rightarrow> 0 | Some k \<Rightarrow> k) (async_of_type None terminate_type) \<and>
       (\<forall>am \<in> set ls. \<not> ends am)) \<and>
     ended (tp_workers s) = length (filter ends (done_msgs s)) \<and>
     (\<forall>k. terminating s = Some k \<longrightarrow> k \<le> length (tp_workers s)) \<and>
     (joined s \<longrightarrow> terminating s = Some (length (tp_workers s)) \<and> (\<forall>p \<in> set (tp_workers s). p = Ended))"

definition msg_ok :: "nat \<Rightarrow> async_msg \<Rightarrow> bool" where
  "msg_ok k am \<longleftrightarrow> (if ends am then worker_ptr am = None else \<exists>a < k. worker_ptr am = Some a)"

lemma msg_ok_simps [simp]:
  "msg_ok k (async_of_log a m) \<longleftrightarrow> a < k" "msg_ok k (async_of_type (Some a) flush_type) \<longleftrightarrow> a < k"
  "msg_ok k (async_of_type None terminate_type)"
  "ends (async_of_type x terminate_type)" "\<not> ends (async_of_log a m)" "\<not> ends (async_of_type x flush_type)"
  by (simp_all add: msg_ok_def ends_def async_of_log_def async_of_type_def)

text \<open>The message of a call, the names of the loggers being known.\<close>

definition posted_msg :: "string list \<Rightarrow> async_call \<Rightarrow> async_msg" where
  "posted_msg names c =
     async_of_log (ac_logger c)
       (log_msg_new (ac_source c) (names ! ac_logger c) (ac_level c) (projr (call_view c)) (env_now (ac_env c)) (env_thread (ac_env c)))"

definition logs :: "async_msg list \<Rightarrow> async_msg list" where
  "logs = filter (\<lambda>am. async_type am = log_type)"

definition posts_ok :: "log_os \<Rightarrow> (string \<times> level \<times> async_overflow_policy) list \<Rightarrow> async_call \<Rightarrow> bool" where
  "posts_ok os st c \<longleftrightarrow>
     env_os (ac_env c) = os \<and> ac_logger c < length st \<and> level_num (fst (snd (st ! ac_logger c))) \<le> level_num (ac_level c) \<and>
     (\<exists>view. call_view c = Inr view)"

text \<open>A worker in the loop over the sinks, and what the sinks become when it has finished its message.\<close>

definition pc_ok :: "string list \<Rightarrow> nat list \<Rightarrow> worker_pc \<Rightarrow> bool" where
  "pc_ok names counts p \<longleftrightarrow>
     (case p of
        InHand am \<Rightarrow> msg_ok (length counts) am
      | InSinks am a m i \<Rightarrow> async_type am = log_type \<and> worker_ptr am = Some a \<and> a < length counts \<and> i < counts ! a \<and>
          (i = 0 \<longrightarrow> m = to_log_msg (names ! a) am)
      | _ \<Rightarrow> True)"

definition finish :: "log_os \<Rightarrow> string list \<Rightarrow> worker_pc \<Rightarrow> file_sink list list \<times> disk \<Rightarrow> file_sink list list \<times> disk" where
  "finish os names p sd =
     (case p of InHand am \<Rightarrow> handle_sinks os names am sd | InSinks am a m i \<Rightarrow> sinks_rest os i (a, m) sd | _ \<Rightarrow> sd)"

definition one_sink_each :: "nat list \<Rightarrow> bool" where
  "one_sink_each counts \<longleftrightarrow> (\<forall>k \<in> set counts. k \<le> 1)"

text \<open>The steps a worker has still to make with its message, when no logger has more than \<open>S\<close> sinks.\<close>

definition pc_rank :: "nat \<Rightarrow> worker_pc \<Rightarrow> nat" where
  "pc_rank S p = (case p of InHand am \<Rightarrow> S + 3 | InSinks am a m i \<Rightarrow> 2 + (S - i) | Caught a e \<Rightarrow> 1 | _ \<Rightarrow> 0)"

text \<open>What a step of a worker at work keeps.\<close>

definition step_keeps :: "log_os \<Rightarrow> worker_pc \<Rightarrow> async_system \<Rightarrow> worker_pc \<Rightarrow> async_system \<Rightarrow> bool" where
  "step_keeps os p s p' s' \<longleftrightarrow>
     (let names = names_of (tp_loggers s); counts = sink_counts (tp_loggers s)
      in settings (tp_loggers s') = settings (tp_loggers s) \<and> sink_counts (tp_loggers s') = counts \<and>
         (\<exists>ls w. s' = s\<lparr>tp_loggers := ls, tp_outside := w\<rparr>) \<and> pc_ok names counts p' \<and>
         (in_hand p' = [] \<or> in_hand p' = in_hand p) \<and> finish os names p' (sinks_of s') = finish os names p (sinks_of s) \<and>
         length (filter ends (finished p p')) = (if p' = Ended then 1 else 0) \<and>
         (one_sink_each counts \<longrightarrow> sinks_of s' = fold (handle_sinks os names) (finished p p') (sinks_of s)) \<and>
         pc_rank (sum_list counts) p' < pc_rank (sum_list counts) p)"

lemma keeps_on_logger:
  assumes "lg_sinks (fst lw) = lg_sinks (fst (logger_of a s))" and "log_disk (snd lw) = log_disk (tp_outside s)"
    and "lg_name (fst lw) = lg_name (fst (logger_of a s))" and "lg_level (fst lw) = lg_level (fst (logger_of a s))"
  shows "settings (tp_loggers (on_logger a lw s)) = settings (tp_loggers s) \<and>
    sink_counts (tp_loggers (on_logger a lw s)) = sink_counts (tp_loggers s) \<and>
    (\<exists>ls w. on_logger a lw s = s\<lparr>tp_loggers := ls, tp_outside := w\<rparr>) \<and> sinks_of (on_logger a lw s) = sinks_of s"
  using settings_on_logger [OF assms(3,4)] sink_counts_on_logger [of lw a s] sinks_on_logger_same [OF assms(1,2)] assms(1)
  by (auto simp: on_logger_def)

lemma begin_msg_keeps:
  assumes "begin_msg am s = (p', s')" and "msg_ok (length (tp_loggers s)) am"
  shows "step_keeps os (InHand am) s p' s'"
proof (cases "async_type am")
  case log_type
  then obtain a where a: "worker_ptr am = Some a" "a < length (tp_loggers s)"
    using assms(2) by (auto simp: msg_ok_def ends_def split: if_splits)
  have same: "\<exists>ls w. s = s\<lparr>tp_loggers := ls, tp_outside := w\<rparr>" by (cases s) auto
  let ?m = "to_log_msg (lg_name (fst (logger_of a s))) am"
  have h: "handle_sinks os (names_of (tp_loggers s)) am sd = sinks_rest os 0 (a, ?m) sd" for sd
    using log_type a by (simp add: handle_sinks_def sinks_rest_start names_nth)
  show ?thesis
  proof (cases "lg_sinks (fst (logger_of a s)) = []")
    case True
    with assms(1) log_type a(1) have s': "p' = Waiting" "s' = s" by (simp_all add: begin_msg_def)
    have "sinks_rest os 0 (a, ?m) (sinks_of s) = sinks_of s"
      using sinks_of_logger [OF a(2)] True sinks_rest_end [of "fst (sinks_of s)" a 0 os ?m] by (metis le0 list.size(3) order_refl)
    with log_type same show ?thesis
      by (simp add: step_keeps_def Let_def s' pc_ok_def finish_def h finished_def pc_rank_def ends_def)
  next
    case False
    with assms(1) log_type a(1) have s': "p' = InSinks am a ?m 0" "s' = s" by (auto simp: begin_msg_def Let_def)
    from False log_type a same show ?thesis
      by (simp add: step_keeps_def Let_def s' pc_ok_def finish_def h finished_def pc_rank_def names_nth sink_counts_nth)
  qed
next
  case flush_type
  then obtain a where a: "worker_ptr am = Some a" using assms(2) by (auto simp: msg_ok_def ends_def split: if_splits)
  with assms(1) flush_type have s': "p' = Waiting" "s' = on_logger a (logger_of a s) s"
    by (simp_all add: begin_msg_def backend_flush_def)
  from keeps_on_logger [of "logger_of a s" a s] flush_type show ?thesis
    by (simp add: step_keeps_def Let_def s' pc_ok_def finish_def handle_sinks_def finished_def pc_rank_def ends_def logger_of_def)
next
  case terminate_type
  have same: "\<exists>ls w. s = s\<lparr>tp_loggers := ls, tp_outside := w\<rparr>" by (cases s) auto
  from assms(1) terminate_type have s': "p' = Ended" "s' = s" by (simp_all add: begin_msg_def)
  from terminate_type same show ?thesis
    by (simp add: step_keeps_def Let_def s' pc_ok_def finish_def handle_sinks_def finished_def pc_rank_def ends_def)
qed

lemma next_sink_keeps:
  assumes "next_sink os am a m i s = (p', s')" and "pc_ok (names_of (tp_loggers s)) (sink_counts (tp_loggers s)) (InSinks am a m i)"
  shows "step_keeps os (InSinks am a m i) s p' s'"
proof -
  from assms(2) have am: "async_type am = log_type" "worker_ptr am = Some a" "\<not> ends am" and a: "a < length (tp_loggers s)"
    by (simp_all add: pc_ok_def sink_counts_nth ends_def)
  with assms(2) have i: "i < length (lg_sinks (fst (logger_of a s)))" by (simp add: pc_ok_def sink_counts_nth)
  obtain r lw where b: "backend_log_sink os m i (logger_of a s) = (r, lw)" by (cases "backend_log_sink os m i (logger_of a s)")
  note k = backend_log_sink_keeps [OF b a i]
  let ?s = "on_logger a lw s"
  have s': "s' = ?s" and p': "p' = (case r of Inl e \<Rightarrow> Caught a e
      | Inr m \<Rightarrow> if Suc i < length (lg_sinks (fst lw)) then InSinks am a m (Suc i) else Waiting)"
    using assms(1) b by (auto simp: next_sink_def split: sum.splits)
  have st: "settings (tp_loggers ?s) = settings (tp_loggers s)" "sink_counts (tp_loggers ?s) = sink_counts (tp_loggers s)"
    "\<exists>ls w. ?s = s\<lparr>tp_loggers := ls, tp_outside := w\<rparr>"
    using k by (simp_all add: settings_on_logger sink_counts_on_logger) (auto simp: on_logger_def)
  have last: "sinks_rest os (Suc i) (a, m') (sinks_of ?s) = sinks_of ?s" if "\<not> Suc i < length (lg_sinks (fst lw))" for m'
  proof -
    have "fst (sinks_of ?s) ! a = lg_sinks (fst lw)" using a by (simp add: sinks_state_def on_logger_def)
    with that sinks_rest_end [of "fst (sinks_of ?s)" a "Suc i" os m' "snd (sinks_of ?s)"] show ?thesis
      by (simp add: not_less)
  qed
  have fin: "finish os names p' (sinks_of ?s) = sinks_rest os i (a, m) (sinks_of s)" for names
    unfolding k(4) p' by (cases r) (simp_all add: finish_def last)
  have one: "sinks_of ?s = handle_sinks os (names_of (tp_loggers s)) am (sinks_of s) \<and> in_hand p' = []"
    if "one_sink_each (sink_counts (tp_loggers s))"
  proof -
    have "length (lg_sinks (fst (logger_of a s))) \<le> 1"
      using that a by (metis nth_mem one_sink_each_def sink_counts_nth)
    with i k(3) have l: "i = 0" "\<not> Suc i < length (lg_sinks (fst lw))" by simp_all
    with assms(2) have m: "m = to_log_msg (names_of (tp_loggers s) ! a) am" by (simp add: pc_ok_def)
    from l(2) have "sinks_of ?s = finish os [] p' (sinks_of ?s)" "in_hand p' = []" by (cases r; simp add: p' finish_def)+
    with fin am m l(1) show ?thesis by (simp add: handle_sinks_def sinks_rest_start)
  qed
  have "pc_ok (names_of (tp_loggers s)) (sink_counts (tp_loggers s)) p'"
    using am a k(3) by (cases r) (simp_all add: p' pc_ok_def sink_counts_nth)
  moreover have "in_hand p' = [] \<or> in_hand p' = [am]" "p' \<noteq> Ended"
    by (cases r; simp add: p')+
  moreover have "pc_rank (sum_list (sink_counts (tp_loggers s))) p' < pc_rank (sum_list (sink_counts (tp_loggers s))) (InSinks am a m i)"
  proof -
    have "i < sum_list (sink_counts (tp_loggers s))"
      using i a elem_le_sum_list [of a "sink_counts (tp_loggers s)"] by (simp add: sink_counts_nth)
    then show ?thesis by (cases r) (auto simp: p' pc_rank_def)
  qed
  moreover have "finish os (names_of (tp_loggers s)) (InSinks am a m i) (sinks_of s) = sinks_rest os i (a, m) (sinks_of s)"
    by (simp add: finish_def)
  ultimately show ?thesis using st fin one am(3) by (auto simp: step_keeps_def Let_def s' finished_def)
qed

lemma handle_caught_keeps:
  assumes "handle_caught env a e s = (p', s')"
  shows "step_keeps os (Caught a e) s p' s'"
proof -
  obtain r lw where c: "catch_and_handle env (Inl e, logger_of a s) = (r, lw)" by (cases "catch_and_handle env (Inl e, logger_of a s)")
  with assms have s': "s' = on_logger a lw s" "p' = (case r of Inl e \<Rightarrow> Aborted e | Inr _ \<Rightarrow> Waiting)"
    by (auto simp: handle_caught_def split: sum.splits)
  from catch_and_handle_keeps [OF c] have "settings (tp_loggers s') = settings (tp_loggers s) \<and>
    sink_counts (tp_loggers s') = sink_counts (tp_loggers s) \<and> (\<exists>ls w. s' = s\<lparr>tp_loggers := ls, tp_outside := w\<rparr>) \<and> sinks_of s' = sinks_of s"
    unfolding s'(1) by (intro keeps_on_logger) (simp_all add: logger_of_def)
  then show ?thesis
    by (cases r) (simp_all add: step_keeps_def Let_def s'(2) pc_ok_def finish_def finished_def pc_rank_def)
qed

lemma process_step_keeps:
  assumes "process_step env p s = (p', s')" and "at_work p" and "pc_ok (names_of (tp_loggers s)) (sink_counts (tp_loggers s)) p"
  shows "step_keeps (env_os env) p s p' s'"
proof (cases p)
  case (InHand am)
  with assms show ?thesis by (simp add: process_step_def pc_ok_def sink_counts_nth begin_msg_keeps)
next
  case (InSinks am a m i)
  with assms show ?thesis by (simp add: process_step_def next_sink_keeps)
next
  case (Caught a e)
  with assms show ?thesis by (simp add: process_step_def handle_caught_keeps)
qed (use assms(2) in \<open>simp_all add: at_work_def\<close>)

text \<open>The sinks and the disk: with one worker they are what the messages taken from the queue give, once
  the one in its hand is finished; when no logger has more than one sink, what the messages handled give.\<close>

definition sinks_inv :: "log_os \<Rightarrow> nat \<Rightarrow> async_system \<Rightarrow> async_system \<Rightarrow> bool" where
  "sinks_inv os k s0 s \<longleftrightarrow>
     (let names = names_of (tp_loggers s0)
      in (k = 1 \<longrightarrow> (\<forall>p \<in> set (tp_workers s). finish os names p (sinks_of s) = fold (handle_sinks os names) (taken s) (sinks_of s0))) \<and>
         (one_sink_each (sink_counts (tp_loggers s0)) \<longrightarrow>
           sinks_of s = fold (handle_sinks os names) (done_msgs s) (sinks_of s0)))"

text \<open>Everything together, for a system that started as \<open>s0\<close>.\<close>

definition async_inv :: "log_os \<Rightarrow> nat \<Rightarrow> nat \<Rightarrow> async_system \<Rightarrow> async_system \<Rightarrow> bool" where
  "async_inv os n k s0 s \<longleftrightarrow>
     flow_inv n s \<and> hand_inv k s \<and> end_inv s \<and> (\<forall>am \<in> set (posted s). msg_ok (length (tp_loggers s0)) am) \<and>
     settings (tp_loggers s) = settings (tp_loggers s0) \<and>
     sink_counts (tp_loggers s) = sink_counts (tp_loggers s0) \<and> sinks_inv os k s0 s \<and>
     (\<forall>p \<in> set (tp_workers s). pc_ok (names_of (tp_loggers s0)) (sink_counts (tp_loggers s0)) p) \<and>
     logs (posted s) = map (posted_msg (names_of (tp_loggers s0))) (logged_calls s) \<and>
     (\<forall>c \<in> set (logged_calls s). posts_ok os (settings (tp_loggers s0)) c)"

lemma settings_length: "settings ls = settings ls' \<Longrightarrow> length ls = length ls'"
  by (metis length_map settings_def)

lemma settings_all_block: "settings ls = settings ls' \<Longrightarrow> all_block ls \<longleftrightarrow> all_block ls'"
  by (simp add: all_block_def)

lemma settings_names: "settings ls = settings ls' \<Longrightarrow> names_of ls = names_of ls'"
  by (simp add: names_of_def)

lemma settings_nth:
  "a < length ls \<Longrightarrow> settings ls ! a = (lg_name (base_logger (ls ! a)), lg_level (base_logger (ls ! a)), overflow_policy (ls ! a))"
  by (simp add: settings_def)

lemma record_post_simps [simp]:
  "tp_queue (record_post am q s) = q" "tp_workers (record_post am q s) = tp_workers s"
  "tp_loggers (record_post am q s) = tp_loggers s" "tp_outside (record_post am q s) = tp_outside s"
  "terminating (record_post am q s) = terminating s" "joined (record_post am q s) = joined s"
  "logged_calls (record_post am q s) = logged_calls s" "posted (record_post am q s) = posted s @ [am]"
  "taken (record_post am q s) = taken s" "done_msgs (record_post am q s) = done_msgs s"
  by (simp_all add: record_post_def)

text \<open>Posting a message that does not end a worker, before the destructor has begun.\<close>

lemma posts_end_inv:
  assumes "end_inv s" and "flow_inv n s" and "post_async_msg p am (tp_queue s) = (Enqueued, q)" and "terminating s = None" and "\<not> ends am"
  shows "end_inv (record_post am q s)"
proof -
  from assms(2) have ok: "cq_ok n (tp_queue s)" by (simp add: flow_inv_def)
  from assms(1,4) have f: "\<forall>x \<in> set (flow s). \<not> ends x" by (simp add: end_inv_def)
  have "set (cq_list q) \<subseteq> set (cq_list (tp_queue s) @ [am])" by (subst post_flow(2) [OF ok assms(3)]) auto
  with f assms(5) have "\<forall>x \<in> set (flow (record_post am q s)). \<not> ends x" by (auto simp: flow_def)
  with assms(1,4) show ?thesis by (simp add: end_inv_def)
qed

lemma destructor_end_inv:
  assumes "end_inv s" and "flow_inv n s" and "terminating s = Some k" and "k < length (tp_workers s)"
    and "post_async_msg block (async_of_type None terminate_type) (tp_queue s) = (Enqueued, q)"
  shows "end_inv ((record_post (async_of_type None terminate_type) q s)\<lparr>terminating := Some (Suc k)\<rparr>)"
proof -
  from assms(2) have ok: "cq_ok n (tp_queue s)" by (simp add: flow_inv_def)
  have "cq_list q = cq_list (tp_queue s) @ [async_of_type None terminate_type]"
    using post_flow(2) [OF ok assms(5)] post_flow(4) [OF ok assms(5) refl] by simp
  then have "flow (record_post (async_of_type None terminate_type) q s) = flow s @ [async_of_type None terminate_type]"
    by (simp add: flow_def)
  moreover obtain ls where "flow s = ls @ replicate k (async_of_type None terminate_type)" "\<forall>am \<in> set ls. \<not> ends am"
    using assms(1,3) by (auto simp: end_inv_def)
  moreover have "\<not> joined s" using assms(1,3,4) by (auto simp: end_inv_def)
  ultimately have "\<exists>ls. flow (record_post (async_of_type None terminate_type) q s) =
      ls @ replicate (Suc k) (async_of_type None terminate_type) \<and> (\<forall>am \<in> set ls. \<not> ends am)" and "\<not> joined s"
    by (auto simp: replicate_append_same)
  moreover have "flow ((record_post (async_of_type None terminate_type) q s)\<lparr>terminating := Some (Suc k)\<rparr>) =
      flow (record_post (async_of_type None terminate_type) q s)"
    by (simp add: flow_def)
  ultimately show ?thesis using assms(1,4) by (simp add: end_inv_def)
qed

lemma length_counts: "length (sink_counts ls) = length ls"
  by (simp add: sink_counts_def)

text \<open>A worker takes a message.\<close>

lemma takes_inv:
  assumes "async_inv os n k s0 s" and "i < length (tp_workers s)" and "tp_workers s ! i = Waiting"
    and "dequeue_for (tp_queue s) = (Popped am, q)"
  shows "async_inv os n k s0 (s\<lparr>tp_queue := q, taken := taken s @ [am], tp_workers := (tp_workers s)[i := InHand am]\<rparr>)"
proof -
  let ?s = "s\<lparr>tp_queue := q, taken := taken s @ [am], tp_workers := (tp_workers s)[i := InHand am]\<rparr>"
  note i = assms(1) [unfolded async_inv_def]
  from i have ok: "cq_ok n (tp_queue s)" by (simp add: flow_inv_def)
  note t = take_flow [OF ok assms(4)]
  have f: "flow ?s = flow s" using t(2) by (simp add: flow_def)
  then have "flow_inv n ?s" using i t by (simp add: flow_inv_def)
  moreover have "end_inv ?s"
  proof -
    have "\<not> joined s" using i assms(2,3) unfolding end_inv_def by (metis nth_mem worker_pc.distinct(7))
    moreover have "ended ((tp_workers s)[i := InHand am]) = ended (tp_workers s)"
      using ended_update [OF assms(2), of "InHand am"] assms(3) by simp
    ultimately show ?thesis using i f by (auto simp: end_inv_def)
  qed
  moreover have "hand_inv k ?s"
  proof -
    have "mset (hands ((tp_workers s)[i := InHand am])) = mset (hands (tp_workers s)) + {#am#}"
      using hands_update [OF assms(2), of "InHand am"] assms(3) by simp
    moreover have "hands ((tp_workers s)[i := InHand am]) = hands (tp_workers s) @ [am]" if "k = 1"
    proof -
      from i that have "length (tp_workers s) = 1" by (simp add: hand_inv_def)
      with assms(2,3) show ?thesis by (cases "tp_workers s") (auto simp: hands_def)
    qed
    ultimately show ?thesis using i by (auto simp: hand_inv_def)
  qed
  moreover have "finish os (names_of (tp_loggers s0)) p (sinks_of s) =
      fold (handle_sinks os (names_of (tp_loggers s0))) (taken s @ [am]) (sinks_of s0)"
    if "k = 1" "p \<in> set ((tp_workers s)[i := InHand am])" for p
  proof -
    from i that(1) have "length (tp_workers s) = 1" by (simp add: hand_inv_def)
    with assms(2) that(2) have "p = InHand am" by (cases "tp_workers s") auto
    moreover have "Waiting \<in> set (tp_workers s)" using nth_mem [OF assms(2)] assms(3) by simp
    ultimately show ?thesis using i that(1) by (auto simp: sinks_inv_def Let_def finish_def)
  qed
  then have "sinks_inv os k s0 ?s" using i by (simp add: sinks_inv_def Let_def)
  moreover have "pc_ok (names_of (tp_loggers s0)) (sink_counts (tp_loggers s0)) (InHand am)"
  proof -
    have "am \<in># mset (posted s)" using i t(2) by (simp add: flow_inv_def flow_def)
    with i show ?thesis by (simp add: pc_ok_def length_counts)
  qed
  then have "\<forall>p \<in> set ((tp_workers s)[i := InHand am]). pc_ok (names_of (tp_loggers s0)) (sink_counts (tp_loggers s0)) p"
    using i set_update_subset_insert [of "tp_workers s" i "InHand am"] by blast
  ultimately show ?thesis using i by (simp add: async_inv_def)
qed

text \<open>A worker at work makes a step.\<close>

lemma works_inv:
  assumes "async_inv os n k s0 s" and "i < length (tp_workers s)" and "tp_workers s ! i = p" and "at_work p"
    and "env_os env = os" and "process_step env p s = (p', s')"
  shows "async_inv os n k s0 (s'\<lparr>done_msgs := done_msgs s @ finished p p', tp_workers := (tp_workers s)[i := p']\<rparr>)"
proof -
  let ?s = "s'\<lparr>done_msgs := done_msgs s @ finished p p', tp_workers := (tp_workers s)[i := p']\<rparr>"
  note inv = assms(1) [unfolded async_inv_def]
  from inv have st0: "settings (tp_loggers s) = settings (tp_loggers s0)" "sink_counts (tp_loggers s) = sink_counts (tp_loggers s0)"
    by simp_all
  note names = settings_names [OF st0(1)]
  have "p \<in> set (tp_workers s)" using nth_mem [OF assms(2)] assms(3) by simp
  with inv have ok: "pc_ok (names_of (tp_loggers s)) (sink_counts (tp_loggers s)) p" unfolding names st0(2) by blast
  note pr = process_step_keeps [OF assms(6,4) ok, unfolded assms(5) step_keeps_def Let_def names st0(2)]
  obtain ls w where s': "s' = s\<lparr>tp_loggers := ls, tp_outside := w\<rparr>" using pr by blast
  have st: "settings ls = settings (tp_loggers s)" using pr by (simp add: s')
  have p: "p \<noteq> Ended" using assms(4) by (auto simp: at_work_def)
  have hp: "mset (in_hand p) = mset (in_hand p') + mset (finished p p')" using pr by (auto simp: finished_def)
  have "\<not> joined s" using inv assms(2,3) p unfolding end_inv_def by (metis nth_mem)
  moreover have "ended ((tp_workers s)[i := p']) = ended (tp_workers s) + length (filter ends (finished p p'))"
    using ended_update [OF assms(2), of p'] assms(3) p pr by simp
  ultimately have "end_inv ?s" using inv by (auto simp: s' end_inv_def flow_def)
  moreover have "flow_inv n ?s" using inv settings_all_block [OF st] by (simp add: s' flow_inv_def flow_def)
  moreover have "hand_inv k ?s"
  proof -
    have "mset (hands ((tp_workers s)[i := p'])) + mset (finished p p') = mset (hands (tp_workers s))"
      using hands_update [OF assms(2), of p'] assms(3) hp by simp
    moreover have "hands (tp_workers s) = finished p p' @ hands ((tp_workers s)[i := p'])" if "k = 1"
    proof -
      from inv that have "length (tp_workers s) = 1" by (simp add: hand_inv_def)
      with assms(2,3) pr show ?thesis by (cases "tp_workers s") (auto simp: hands_def finished_def)
    qed
    ultimately show ?thesis using inv by (auto simp: s' hand_inv_def ac_simps)
  qed
  moreover have "sinks_inv os k s0 ?s"
  proof -
    have "finish os (names_of (tp_loggers s0)) q (sinks_of s') = fold (handle_sinks os (names_of (tp_loggers s0))) (taken s) (sinks_of s0)"
      if "k = 1" "q \<in> set ((tp_workers s)[i := p'])" for q
    proof -
      from inv that(1) have "length (tp_workers s) = 1" by (simp add: hand_inv_def)
      with assms(2) that(2) have "q = p'" by (cases "tp_workers s") auto
      moreover have "finish os (names_of (tp_loggers s0)) p (sinks_of s) = fold (handle_sinks os (names_of (tp_loggers s0))) (taken s) (sinks_of s0)"
        using inv that(1) \<open>p \<in> set (tp_workers s)\<close> by (simp add: sinks_inv_def Let_def)
      ultimately show ?thesis using pr by simp
    qed
    moreover have "sinks_of s' = fold (handle_sinks os (names_of (tp_loggers s0))) (done_msgs s @ finished p p') (sinks_of s0)"
      if "one_sink_each (sink_counts (tp_loggers s0))"
      using inv pr that by (simp add: sinks_inv_def Let_def)
    ultimately show ?thesis by (simp add: sinks_inv_def Let_def) (simp add: s')
  qed
  moreover have "\<forall>q \<in> set ((tp_workers s)[i := p']). pc_ok (names_of (tp_loggers s0)) (sink_counts (tp_loggers s0)) q"
    using inv pr set_update_subset_insert [of "tp_workers s" i p'] by blast
  ultimately show ?thesis using inv pr st by (simp add: s' async_inv_def)
qed

lemma length_settings: "length (settings ls) = length ls"
  by (simp add: settings_def)

lemma sinks_inv_same:
  assumes "sinks_inv os k s0 s" and "tp_workers s' = tp_workers s" and "sinks_of s' = sinks_of s" and "taken s' = taken s"
    and "done_msgs s' = done_msgs s"
  shows "sinks_inv os k s0 s'"
  using assms(1) unfolding sinks_inv_def assms(2-) .

text \<open>A caller or the destructor posts a message.\<close>

lemma posts_inv:
  assumes "async_inv os n k s0 s" and "post_async_msg p am (tp_queue s) = (Enqueued, q)"
    and "all_block (tp_loggers s) \<longrightarrow> p = block" and "msg_ok (length (tp_loggers s)) am"
    and "s' = (record_post am q s)\<lparr>terminating := t, logged_calls := cs\<rparr>" and "end_inv s'"
    and "logs (posted s @ [am]) = map (posted_msg (names_of (tp_loggers s))) cs"
    and "\<forall>c \<in> set cs. posts_ok os (settings (tp_loggers s)) c"
  shows "async_inv os n k s0 s'"
proof -
  from assms(1) have st: "settings (tp_loggers s) = settings (tp_loggers s0)" by (simp add: async_inv_def)
  have "flow_inv n (record_post am q s)"
    using record_post_flow [OF _ assms(2,3)] assms(1) by (simp add: async_inv_def)
  then have "flow_inv n s'" by (simp add: assms(5) flow_inv_def flow_def record_post_def)
  moreover have "sinks_inv os k s0 s'" using assms(1) by (intro sinks_inv_same [of os k s0 s s']) (simp_all add: async_inv_def assms(5))
  ultimately show ?thesis using assms(1,4,6,7,8) st settings_length [OF st] settings_names [OF st]
    by (simp add: async_inv_def assms(5) hand_inv_def)
qed

lemma logs_simps [simp]:
  "logs (xs @ [async_of_log a m]) = logs xs @ [async_of_log a m]"
  "logs (xs @ [async_of_type x flush_type]) = logs xs" "logs (xs @ [async_of_type x terminate_type]) = logs xs"
  by (simp_all add: logs_def async_of_log_def async_of_type_def)

lemma same_record_post:
  "record_post am q s = (record_post am q s)\<lparr>terminating := terminating s, logged_calls := logged_calls s\<rparr>"
  by (simp add: record_post_def)

lemma on_logger_inv:
  assumes "async_inv os n k s0 s" and "settings (tp_loggers (on_logger a lw s)) = settings (tp_loggers s)"
    and "sinks_of (on_logger a lw s) = sinks_of s" and "sink_counts (tp_loggers (on_logger a lw s)) = sink_counts (tp_loggers s)"
  shows "async_inv os n k s0 (on_logger a lw s)"
proof -
  have *: "tp_queue (on_logger a lw s) = tp_queue s" "tp_workers (on_logger a lw s) = tp_workers s"
    "terminating (on_logger a lw s) = terminating s" "joined (on_logger a lw s) = joined s"
    "logged_calls (on_logger a lw s) = logged_calls s" "posted (on_logger a lw s) = posted s" "taken (on_logger a lw s) = taken s"
    "done_msgs (on_logger a lw s) = done_msgs s" "overrun (on_logger a lw s) = overrun s"
    by (simp_all add: on_logger_def)
  show ?thesis
    using assms(1)
    unfolding async_inv_def assms(2,3,4) * sinks_inv_def flow_inv_def flow_def hand_inv_def end_inv_def settings_all_block [OF assms(2)] .
qed

lemma async_inv_step:
  assumes inv: "async_inv os n k s0 s" and "async_step os s s'"
  shows "async_inv os n k s0 s'"
  using assms(2)
proof cases
  case (call_returns c r lw)
  note k = async_log_none [OF call_returns(4)]
  show ?thesis unfolding call_returns(1)
    by (rule on_logger_inv [OF inv]) (use k in \<open>simp_all add: settings_on_logger sinks_on_logger_same sink_counts_on_logger logger_of_def\<close>)
next
  case (call_posts c m r lw q)
  let ?a = "ac_logger c"
  note l = async_log_some [OF call_posts(4)]
  have name: "names_of (tp_loggers s) ! ?a = lg_name (fst (logger_of ?a s))"
    and lev: "fst (snd (settings (tp_loggers s) ! ?a)) = lg_level (fst (logger_of ?a s))"
    using call_posts(3) settings_nth [OF call_posts(3)] length_settings [of "tp_loggers s"]
    by (simp_all add: names_of_def logger_of_def)
  from l obtain view where v: "call_view c = Inr view"
    "m = log_msg_new (ac_source c) (lg_name (fst (logger_of ?a s))) (ac_level c) view (env_now (ac_env c)) (env_thread (ac_env c))"
    by blast
  have msg: "async_of_log ?a m = posted_msg (names_of (tp_loggers s)) c" by (simp add: posted_msg_def name v)
  from length_settings [of "tp_loggers s"] call_posts(2,3) l lev v(1) have ok: "posts_ok os (settings (tp_loggers s)) c" by (simp add: posts_ok_def should_log_def)
  from inv have st: "settings (tp_loggers s) = settings (tp_loggers s0)" by (simp add: async_inv_def)
  have e: "end_inv ((record_post (async_of_log ?a m) q s)\<lparr>logged_calls := logged_calls s @ [c]\<rparr>)"
  proof -
    have "end_inv (record_post (async_of_log ?a m) q s)"
      by (rule posts_end_inv [where n = n, OF _ _ call_posts(5)]) (use inv l in \<open>simp_all add: async_inv_def\<close>)
    then show ?thesis by (simp add: end_inv_def flow_def)
  qed
  show ?thesis
  proof (rule posts_inv [OF inv call_posts(5), where t = "terminating s" and cs = "logged_calls s @ [c]"])
    show "s' = (record_post (async_of_log ?a m) q s)\<lparr>terminating := terminating s, logged_calls := logged_calls s @ [c]\<rparr>"
      by (simp add: call_posts(1) record_post_def)
    show "logs (posted s @ [async_of_log ?a m]) = map (posted_msg (names_of (tp_loggers s))) (logged_calls s @ [c])"
    proof -
      have "logs (posted s @ [async_of_log ?a m]) = logs (posted s) @ [posted_msg (names_of (tp_loggers s)) c]"
        by (simp add: msg [symmetric])
      with inv settings_names [OF st] show ?thesis by (simp add: async_inv_def del: logs_simps)
    qed
    show "\<forall>x \<in> set (logged_calls s @ [c]). posts_ok os (settings (tp_loggers s)) x"
      using inv st ok by (simp add: async_inv_def)
    show "all_block (tp_loggers s) \<longrightarrow> overflow_policy (tp_loggers s ! ?a) = block"
      using call_posts(3) all_block_policy by blast
    show "end_inv s'" using e by (simp add: call_posts(1))
  qed (use call_posts(3) in simp)
next
  case (flush_returns a env r lw)
  note k = async_flush_none [OF flush_returns(3)]
  show ?thesis unfolding flush_returns(1)
    by (rule on_logger_inv [OF inv]) (use k in \<open>simp_all add: settings_on_logger sinks_on_logger_same sink_counts_on_logger logger_of_def\<close>)
next
  case (flush_posts a env am r lw q)
  note f = async_flush_some [OF flush_posts(3)]
  from inv have st: "settings (tp_loggers s) = settings (tp_loggers s0)" by (simp add: async_inv_def)
  show ?thesis
  proof (rule posts_inv [OF inv flush_posts(4), where t = "terminating s" and cs = "logged_calls s"])
    show "s' = (record_post am q s)\<lparr>terminating := terminating s, logged_calls := logged_calls s\<rparr>"
      by (simp add: flush_posts(1) record_post_def)
    show "end_inv s'" unfolding flush_posts(1)
      by (rule posts_end_inv [where n = n, OF _ _ flush_posts(4)]) (use inv f in \<open>simp_all add: async_inv_def\<close>)
    show "all_block (tp_loggers s) \<longrightarrow> overflow_policy (tp_loggers s ! a) = block"
      using flush_posts(2) all_block_policy by blast
  qed (use inv st f flush_posts(2) settings_names [OF st] in \<open>simp_all add: async_inv_def\<close>)
next
  case (worker_takes i am q)
  show ?thesis unfolding worker_takes(1) by (rule takes_inv [OF inv worker_takes(2,3,4)])
next
  case (worker_times_out i q)
  have "q = tp_queue s" using dequeue_for_times_out [OF worker_times_out(4)] by simp
  then have "s' = s" by (simp add: worker_times_out(1))
  then show ?thesis using inv by simp
next
  case (worker_works i p env p' s1)
  show ?thesis unfolding worker_works(1) by (rule works_inv [OF inv worker_works(2-6)])
next
  case destructor_begins
  have "sinks_inv os k s0 s'" using inv destructor_begins by (intro sinks_inv_same [of os k s0 s s']) (simp_all add: async_inv_def)
  with inv destructor_begins show ?thesis
    by (simp add: async_inv_def flow_inv_def flow_def hand_inv_def end_inv_def)
next
  case (destructor_posts j q)
  from inv have st: "settings (tp_loggers s) = settings (tp_loggers s0)" by (simp add: async_inv_def)
  show ?thesis
  proof (rule posts_inv [OF inv destructor_posts(4), where t = "Some (Suc j)" and cs = "logged_calls s"])
    show "s' = (record_post (async_of_type None terminate_type) q s)\<lparr>terminating := Some (Suc j), logged_calls := logged_calls s\<rparr>"
      by (simp add: destructor_posts(1) record_post_def)
    show "end_inv s'" unfolding destructor_posts(1)
      by (rule destructor_end_inv [where n = n, OF _ _ destructor_posts(2-4)]) (use inv in \<open>simp_all add: async_inv_def\<close>)
  qed (use inv st settings_names [OF st] in \<open>simp_all add: async_inv_def\<close>)
next
  case destructor_joins
  have "sinks_inv os k s0 s'" using inv destructor_joins by (intro sinks_inv_same [of os k s0 s s']) (simp_all add: async_inv_def)
  with inv destructor_joins show ?thesis
    by (auto simp: async_inv_def flow_inv_def flow_def hand_inv_def end_inv_def)
qed

text \<open>The slots of the ring.\<close>

definition slots :: "nat \<Rightarrow> nat" where
  "slots n = (n + 1) mod 2 ^ 64"

lemma pool_start:
  assumes "thread_pool_new d n k ls w = Inr s0"
  shows "tp_loggers s0 = ls" and "tp_outside s0 = w" and "0 < k" and "tp_queue s0 = circular_q_new d n"
    and "tp_workers s0 = replicate k Waiting" and "terminating s0 = None" and "\<not> joined s0"
  using assms by (auto simp: thread_pool_new_def split: if_splits)

lemma async_inv_start:
  assumes "thread_pool_new d n k ls w = Inr s0" and "slots n = Suc N"
  shows "async_inv os N k s0 s0"
proof -
  have q: "cq_ok N (circular_q_new d n)" "cq_list (circular_q_new d n) = []" "overrun_counter (circular_q_new d n) = 0"
    using assms(2) by (simp_all add: slots_def circular_q_new_def cq_ok_def cq_list_def cq_length_def)
  have "posted s0 = []" "taken s0 = []" "done_msgs s0 = []" "overrun s0 = []" "logged_calls s0 = []"
    using assms(1) by (auto simp: thread_pool_new_def split: if_splits)
  with pool_start [OF assms(1)] q show ?thesis
    by (simp add: async_inv_def flow_inv_def flow_def hand_inv_def end_inv_def hands_def ended_def sinks_inv_def finish_def
        pc_ok_def logs_def Let_def)
qed

text \<open>Without a slot nothing gets into the queue, so that the destructor does not return.\<close>

definition no_slot :: "async_system \<Rightarrow> bool" where
  "no_slot s \<longleftrightarrow>
     max_items (tp_queue s) = 0 \<and> cq_empty (tp_queue s) \<and> tp_workers s \<noteq> [] \<and> (\<forall>p \<in> set (tp_workers s). p = Waiting) \<and>
     (terminating s = None \<or> terminating s = Some 0) \<and> \<not> joined s"

lemma no_slot_posts: "no_slot s \<Longrightarrow> post_async_msg p am (tp_queue s) \<noteq> (Enqueued, q)"
  by (simp add: no_slot_def post_async_msg_def enqueue_def enqueue_nowait_def split: async_overflow_policy.split)

lemma no_slot_step:
  assumes "async_step os s s'" and "no_slot s"
  shows "no_slot s'"
  using assms(1)
proof cases
  case (worker_takes i am q)
  with assms(2) show ?thesis by (simp add: no_slot_def dequeue_for_def)
next
  case (worker_times_out i q)
  with assms(2) show ?thesis by (simp add: no_slot_def dequeue_for_def)
next
  case (worker_works i p env p' s1)
  with assms(2) have "p = Waiting" by (auto simp: no_slot_def)
  with worker_works show ?thesis by (simp add: at_work_def)
next
  case destructor_joins
  with assms(2) have "tp_workers s \<noteq> []" "terminating s = Some 0" by (auto simp: no_slot_def)
  with destructor_joins show ?thesis by simp
qed (use assms(2) no_slot_posts [OF assms(2)] in \<open>auto simp: no_slot_def on_logger_def\<close>)

lemma joined_has_slots:
  assumes "thread_pool_new d n k ls w = Inr s0" and "async_reachable os s0 s" and "joined s"
  obtains N where "slots n = Suc N"
proof (cases "slots n")
  case 0
  have "no_slot s"
    using assms(2)
  proof (induction rule: async_reachable.induct)
    case start
    show ?case using pool_start [OF assms(1)] 0
      by (simp add: no_slot_def circular_q_new_def cq_empty_def slots_def)
  qed (rule no_slot_step)
  with assms(3) show ?thesis by (simp add: no_slot_def)
qed (use that in blast)

lemma async_inv_reachable:
  assumes "async_reachable os s0 s" and "thread_pool_new d n k ls w = Inr s0" and "slots n = Suc N"
  shows "async_inv os N k s0 s"
  using assms(1)
  by (induction rule: async_reachable.induct) (use async_inv_start [OF assms(2,3)] async_inv_step in blast)+

section \<open>The destructor returns\<close>

definition pool_rank :: "async_system \<Rightarrow> nat" where
  "pool_rank s =
     (let S = sum_list (sink_counts (tp_loggers s))
      in (S + 5) * (length (tp_workers s) - the (terminating s)) + (S + 4) * length (cq_list (tp_queue s)) +
         sum_list (map (pc_rank S) (tp_workers s)) + (if joined s then 0 else 1))"

lemma sum_list_map_update: "i < length xs \<Longrightarrow> sum_list (map f (xs[i := x])) + f (xs ! i) = sum_list (map f xs) + f x" for f :: "'a \<Rightarrow> nat"
proof (induction xs arbitrary: i)
  case (Cons y ys)
  show ?case
  proof (cases i)
    case (Suc j)
    with Cons.IH [of j] Cons.prems show ?thesis by simp
  qed simp
qed simp

lemma pc_ok_reached:
  assumes "async_inv os n k s0 s" and "p \<in> set (tp_workers s)"
  shows "pc_ok (names_of (tp_loggers s)) (sink_counts (tp_loggers s)) p"
proof -
  from assms(1) have st: "settings (tp_loggers s) = settings (tp_loggers s0)" "sink_counts (tp_loggers s) = sink_counts (tp_loggers s0)"
    by (simp_all add: async_inv_def)
  from assms show ?thesis unfolding settings_names [OF st(1)] st(2) by (simp add: async_inv_def)
qed

lemma pool_rank_step:
  assumes inv: "async_inv os n k s0 s" and t: "terminating s = Some j" and "async_step os s s'"
  shows "pool_rank s' < pool_rank s \<or>
    tp_queue s' = tp_queue s \<and> tp_workers s' = tp_workers s \<and> terminating s' = terminating s \<and> joined s' = joined s"
  using assms(3)
proof cases
  case (call_posts c m r lw q)
  with t show ?thesis using async_log_some [OF call_posts(4)] by simp
next
  case (flush_posts a env am r lw q)
  with t show ?thesis using async_flush_some [OF flush_posts(3)] by simp
next
  case (worker_takes i am q)
  let ?S = "sum_list (sink_counts (tp_loggers s))"
  from inv have "cq_ok n (tp_queue s)" by (simp add: async_inv_def flow_inv_def)
  from take_flow(2) [OF this worker_takes(4)] have "length (cq_list (tp_queue s)) = Suc (length (cq_list q))" by simp
  moreover have "sum_list (map (pc_rank ?S) ((tp_workers s)[i := InHand am])) = sum_list (map (pc_rank ?S) (tp_workers s)) + (?S + 3)"
    using sum_list_map_update [OF worker_takes(2), of "pc_rank ?S" "InHand am"] worker_takes(3) by (simp add: pc_rank_def)
  ultimately show ?thesis by (simp add: worker_takes(1) pool_rank_def Let_def)
next
  case (worker_times_out i q)
  then show ?thesis using dequeue_for_times_out [OF worker_times_out(4)] by simp
next
  case (worker_works i p env p' s1)
  let ?S = "sum_list (sink_counts (tp_loggers s))"
  have "p \<in> set (tp_workers s)" using nth_mem [OF worker_works(2)] worker_works(3) by simp
  note this = pc_ok_reached [OF inv this]
  note pr = process_step_keeps [OF worker_works(6,4) this, unfolded step_keeps_def Let_def]
  then have lt: "pc_rank ?S p' < pc_rank ?S p" by blast
  have "sum_list (map (pc_rank ?S) ((tp_workers s)[i := p'])) + pc_rank ?S p = sum_list (map (pc_rank ?S) (tp_workers s)) + pc_rank ?S p'"
    using sum_list_map_update [OF worker_works(2), of "pc_rank ?S" p'] worker_works(3) by simp
  with lt have less: "sum_list (map (pc_rank ?S) ((tp_workers s)[i := p'])) < sum_list (map (pc_rank ?S) (tp_workers s))" by simp
  have counts: "sink_counts (tp_loggers s1) = sink_counts (tp_loggers s)" using pr by blast
  from pr obtain ls v where "s1 = s\<lparr>tp_loggers := ls, tp_outside := v\<rparr>" by blast
  then have "tp_queue s1 = tp_queue s" "terminating s1 = terminating s" "joined s1 = joined s" by simp_all
  with less counts show ?thesis
    by (simp add: worker_works(1) pool_rank_def Let_def)
next
  case (destructor_posts k q)
  from inv have ok: "cq_ok n (tp_queue s)" by (simp add: async_inv_def flow_inv_def)
  have "length (cq_list q) = Suc (length (cq_list (tp_queue s)))"
    using arg_cong [OF post_flow(2) [OF ok destructor_posts(4)], of length] post_flow(4) [OF ok destructor_posts(4) refl] by simp
  moreover obtain d where "length (tp_workers s) = k + Suc d" using destructor_posts(3) less_imp_Suc_add [of k] by auto
  ultimately show ?thesis using destructor_posts(2) by (simp add: destructor_posts(1) pool_rank_def Let_def algebra_simps)
qed (use t in \<open>simp_all add: on_logger_def pool_rank_def Let_def\<close>)

text \<open>A worker that has not ended can move as long as there is a message to take or in its hand.\<close>

lemma worker_moves:
  assumes inv: "async_inv os n k s0 s" and t: "terminating s = Some j" and "i < length (tp_workers s)"
    and "tp_workers s ! i \<noteq> Ended" and "\<forall>e. tp_workers s ! i \<noteq> Aborted e"
    and "cq_list (tp_queue s) \<noteq> [] \<or> tp_workers s ! i \<noteq> Waiting"
  shows "\<exists>s'. async_step os s s' \<and> pool_rank s' < pool_rank s"
proof -
  from inv have ok: "cq_ok n (tp_queue s)" by (simp add: async_inv_def flow_inv_def)
  have moves: "\<exists>s'. async_step os s s' \<and> pool_rank s' < pool_rank s"
    if "async_step os s s'" "tp_workers s' \<noteq> tp_workers s" for s'
    using pool_rank_step [OF inv t that(1)] that by blast
  show ?thesis
  proof (cases "tp_workers s ! i = Waiting")
    case Waiting: True
    then have "\<not> cq_empty (tp_queue s)" using assms(6) cq.empty_iff [OF ok] by simp
    then obtain am q where q: "dequeue_for (tp_queue s) = (Popped am, q)"
      by (cases "pop_front (tp_queue s)") (simp add: dequeue_for_def)
    have "(tp_workers s)[i := InHand am] \<noteq> tp_workers s"
      using assms(3) Waiting by (simp add: list_update_same_conv)
    then show ?thesis by (intro moves [OF async_step.worker_takes [OF assms(3) Waiting q]]) simp
  next
    case False
    with assms(4,5) have w: "at_work (tp_workers s ! i)" by (simp add: at_work_def split: worker_pc.split)
    let ?env = "\<lparr>env_os = os, env_fmt = no_env, env_now = 0, env_thread = 0\<rparr>"
    have e: "env_os ?env = os" by simp
    obtain p' s1 where p: "process_step ?env (tp_workers s ! i) s = (p', s1)" by (cases "process_step ?env (tp_workers s ! i) s")
    from process_step_keeps [OF p w pc_ok_reached [OF inv nth_mem [OF assms(3)]]]
    have "pc_rank (sum_list (sink_counts (tp_loggers s))) p' < pc_rank (sum_list (sink_counts (tp_loggers s))) (tp_workers s ! i)"
      unfolding step_keeps_def Let_def by (elim conjE)
    then have "p' \<noteq> tp_workers s ! i" by auto
    then have "(tp_workers s)[i := p'] \<noteq> tp_workers s" using assms(3) by (simp add: list_update_same_conv)
    then show ?thesis by (intro moves [OF async_step.worker_works [OF assms(3) refl w e p]]) simp
  qed
qed

lemma filter_all_length: "length (filter P xs) = length xs \<Longrightarrow> x \<in> set xs \<Longrightarrow> P x"
  by (metis length_filter_less less_irrefl)

lemma pool_moves:
  assumes inv: "async_inv os n k s0 s" and t: "terminating s = Some j" and "0 < n" and "\<not> joined s"
    and na: "\<forall>e. Aborted e \<notin> set (tp_workers s)"
  shows "\<exists>s'. async_step os s s' \<and> pool_rank s' < pool_rank s"
proof -
  from inv have ok: "cq_ok n (tp_queue s)" and j: "j \<le> length (tp_workers s)"
    by (simp_all add: async_inv_def flow_inv_def end_inv_def t)
  have moves: ?thesis if "async_step os s s'" "joined s' \<noteq> joined s \<or> terminating s' \<noteq> terminating s" for s'
    using pool_rank_step [OF inv t that(1)] that by blast
  have worker: ?thesis
    if "i < length (tp_workers s)" "tp_workers s ! i \<noteq> Ended" "cq_list (tp_queue s) \<noteq> [] \<or> tp_workers s ! i \<noteq> Waiting" for i
    by (rule worker_moves [OF inv t that(1,2) _ that(3)]) (use na nth_mem [OF that(1)] in metis)
  obtain ls where f: "flow s = ls @ replicate j (async_of_type None terminate_type)" "\<forall>am \<in> set ls. \<not> ends am"
    using inv by (auto simp: async_inv_def end_inv_def t)
  have "filter ends ls = []" using f(2) by simp
  then have fj: "length (filter ends (flow s)) = j" unfolding f(1) by simp
  have "mset (filter ends (taken s)) = mset (filter ends (done_msgs s)) + mset (filter ends (hands (tp_workers s)))"
    using inv by (simp add: async_inv_def hand_inv_def)
  then have "length (filter ends (taken s)) = length (filter ends (done_msgs s)) + length (filter ends (hands (tp_workers s)))"
    by (metis size_mset size_union)
  moreover have "length (filter ends (done_msgs s)) = ended (tp_workers s)" using inv by (simp add: async_inv_def end_inv_def)
  ultimately have count: "j = ended (tp_workers s) + length (filter ends (hands (tp_workers s))) + length (filter ends (cq_list (tp_queue s)))"
    using fj by (simp add: flow_def)
  have somebody: "\<exists>i < length (tp_workers s). tp_workers s ! i \<noteq> Ended" if "ended (tp_workers s) < length (tp_workers s)"
  proof (rule ccontr)
    assume "\<not> ?thesis"
    then have "\<forall>p \<in> set (tp_workers s). p = Ended" by (auto simp: in_set_conv_nth)
    then have "ended (tp_workers s) = length (tp_workers s)" by (simp add: ended_def)
    with that show False by simp
  qed
  show ?thesis
  proof (cases "j < length (tp_workers s)")
    case True
    show ?thesis
    proof (cases "cq_full (tp_queue s)")
      case True
      then have "cq_list (tp_queue s) \<noteq> []" using cq.full_iff [OF ok] assms(3) by (metis list.size(3))
      moreover obtain i where "i < length (tp_workers s)" "tp_workers s ! i \<noteq> Ended"
        using somebody count \<open>j < length (tp_workers s)\<close> by auto
      ultimately show ?thesis using worker by blast
    next
      case False
      then have post: "post_async_msg block (async_of_type None terminate_type) (tp_queue s) =
          (Enqueued, push_back (async_of_type None terminate_type) (tp_queue s))"
        using ok by (simp add: post_async_msg_def enqueue_def cq_ok_def)
      show ?thesis
        by (rule moves [OF async_step.destructor_posts [OF t \<open>j < length (tp_workers s)\<close> post]]) (simp add: t)
    qed
  next
    case False
    with j have j: "j = length (tp_workers s)" by simp
    show ?thesis
    proof (cases "ended (tp_workers s) = length (tp_workers s)")
      case True
      then have all: "\<forall>p \<in> set (tp_workers s). p = Ended"
        using filter_all_length [of "\<lambda>p. p = Ended" "tp_workers s"] unfolding ended_def by blast
      show ?thesis
        by (rule moves [OF async_step.destructor_joins [OF t [unfolded j] all assms(4)]]) (simp add: assms(4))
    next
      case ne: False
      have "ended (tp_workers s) \<le> length (tp_workers s)" by (simp add: ended_def)
      with ne have lt: "ended (tp_workers s) < length (tp_workers s)" by simp
      show ?thesis
      proof (cases "hands (tp_workers s) = []")
        case True
        with count j lt have "cq_list (tp_queue s) \<noteq> []" by auto
        with somebody [OF lt] worker show ?thesis by blast
      next
        case False
        then obtain p where p: "p \<in> set (tp_workers s)" "in_hand p \<noteq> []" by (auto simp: hands_def)
        from p(2) have "p \<noteq> Ended" "p \<noteq> Waiting" by auto
        moreover from p(1) obtain i where "i < length (tp_workers s)" "tp_workers s ! i = p" by (metis in_set_conv_nth)
        ultimately show ?thesis using worker [of i] by simp
      qed
    qed
  qed
qed

section \<open>A run\<close>

lemma to_log_msg_async:
  "to_log_msg name (async_of_log a (log_msg_new loc name lvl view now thread)) = log_msg_new loc name lvl view now thread"
  by (simp add: to_log_msg_def async_of_log_def log_msg_new_def)

text \<open>A single worker handles the message of a logger whose sink is ready.\<close>

lemma backend_log_sink_ready:
  assumes "os_ok os" and "logger_ready (l, w)"
  shows "\<exists>r lw'. backend_log_sink os m 0 (l, w) = (r, lw') \<and> length (lg_sinks (fst lw')) = 1 \<and> (thrown r \<or> (\<exists>m'. r = Inr m'))"
proof -
  obtain f where f: "lg_sinks l = [f]" "sink_ready (f, log_disk w)" using assms(2) by (auto simp: logger_ready_def)
  from sink_log_ready [OF assms(1) f(2), of m] obtain r f' d where
    "sink_log os m (f, log_disk w) = (r, (f', d))" "thrown r \<or> (\<exists>m'. r = Inr m')" by blast
  with f(1) show ?thesis by (cases "sink_should_log (msg_level m) f") (simp_all add: backend_log_sink_def)
qed

lemma handles_log:
  assumes "async_reachable os s0 s" and "tp_workers s = [InHand am]" and "async_type am = log_type" and "worker_ptr am = Some 0"
    and "logger_ready (logger_of 0 s)" and "os_ok os" and "tp_loggers s \<noteq> []"
  shows "\<exists>ls w. async_reachable os s0 (s\<lparr>tp_loggers := ls, tp_outside := w, done_msgs := done_msgs s @ [am], tp_workers := [Waiting]\<rparr>)"
proof -
  let ?env = "\<lparr>env_os = os, env_fmt = no_env, env_now = 0, env_thread = 0\<rparr>"
  have e: "env_os ?env = os" by simp
  obtain l w where lw: "logger_of 0 s = (l, w)" by (cases "logger_of 0 s")
  let ?m = "to_log_msg (lg_name l) am"
  let ?p1 = "InSinks am 0 ?m 0"
  have "lg_sinks l \<noteq> []" using assms(5) lw by (auto simp: logger_ready_def)
  then have p1: "process_step ?env (InHand am) s = (?p1, s)"
    using assms(3,4) lw by (simp add: process_step_def begin_msg_def Let_def)
  let ?s1 = "s\<lparr>tp_workers := [?p1]\<rparr>"
  have "async_step os s (s\<lparr>done_msgs := done_msgs s @ finished (InHand am) ?p1, tp_workers := (tp_workers s)[0 := ?p1]\<rparr>)"
    by (rule async_step.worker_works [OF _ _ _ e p1]) (simp_all add: assms(2) at_work_def)
  then have "async_step os s ?s1" by (simp add: assms(2) finished_def)
  then have r1: "async_reachable os s0 ?s1" by (rule async_reachable.step [OF assms(1)])
  have "logger_of 0 ?s1 = (l, w)" using lw by (simp add: logger_of_def)
  with backend_log_sink_ready [OF assms(6), of l w ?m] assms(5) lw obtain r lw1 where
    b: "backend_log_sink os ?m 0 (logger_of 0 ?s1) = (r, lw1)" "length (lg_sinks (fst lw1)) = 1" "thrown r \<or> (\<exists>m'. r = Inr m')" by auto
  let ?p2 = "case r of Inl x \<Rightarrow> Caught 0 x | Inr m' \<Rightarrow> Waiting"
  have p2: "process_step ?env ?p1 ?s1 = (?p2, on_logger 0 lw1 ?s1)"
    using b by (cases r) (simp_all add: process_step_def next_sink_def)
  have h: "in_hand ?p2 = []" by (cases r) simp_all
  let ?s2 = "(on_logger 0 lw1 ?s1)\<lparr>done_msgs := done_msgs s @ [am], tp_workers := [?p2]\<rparr>"
  have "async_step os ?s1 ((on_logger 0 lw1 ?s1)\<lparr>done_msgs := done_msgs ?s1 @ finished ?p1 ?p2, tp_workers := (tp_workers ?s1)[0 := ?p2]\<rparr>)"
    by (rule async_step.worker_works [OF _ _ _ e p2]) (simp_all add: at_work_def)
  then have "async_step os ?s1 ?s2" by (simp add: finished_def h)
  then have r2: "async_reachable os s0 ?s2" by (rule async_reachable.step [OF r1])
  show ?thesis
  proof (cases r)
    case (Inr m')
    with r2 show ?thesis by (auto simp: on_logger_def)
  next
    case (Inl x)
    with b(3) obtain tx where tx: "exception_text x = Some tx" by (auto simp: thrown_def)
    let ?lw = "call_err_handler ?env tx (logger_of 0 ?s2)"
    let ?s3 = "(on_logger 0 ?lw ?s2)\<lparr>done_msgs := done_msgs ?s2 @ finished (Caught 0 x) Waiting, tp_workers := (tp_workers ?s2)[0 := Waiting]\<rparr>"
    have p3: "process_step ?env (Caught 0 x) ?s2 = (Waiting, on_logger 0 ?lw ?s2)"
      using tx by (simp add: process_step_def handle_caught_def catch_and_handle_def)
    have "async_step os ?s2 ?s3"
      by (rule async_step.worker_works [OF _ _ _ e p3]) (simp_all add: at_work_def Inl)
    then have "async_reachable os s0 ?s3" by (rule async_reachable.step [OF r2])
    moreover have "?s3 = s\<lparr>tp_loggers := tp_loggers ?s3, tp_outside := tp_outside ?s3, done_msgs := done_msgs s @ [am], tp_workers := [Waiting]\<rparr>"
      by (rule async_system.equality) (simp_all add: on_logger_def finished_def)
    ultimately show ?thesis by metis
  qed
qed

text \<open>One call, one message, one worker, from the start to the end of the destructor.\<close>

lemma one_call_run:
  assumes "thread_pool_new d 2 1 [\<lparr>base_logger = l, overflow_policy = block\<rparr>] w = Inr s0" and "logger_ready (l, w)"
    and "os_ok os" and "env_os (ac_env c) = os" and "ac_logger c = 0" and "should_log (ac_level c) l" and "call_view c = Inr view"
  shows "\<exists>s. async_reachable os s0 s \<and> joined s \<and> logged_calls s = [c]"
proof -
  let ?m = "log_msg_new (ac_source c) (lg_name l) (ac_level c) view (env_now (ac_env c)) (env_thread (ac_env c))"
  let ?am = "async_of_log 0 ?m" and ?t = "async_of_type None terminate_type" and ?q0 = "circular_q_new d 2"
  let ?q1 = "push_back ?am ?q0"
  let ?q2 = "snd (pop_front ?q1)"
  let ?q3 = "push_back ?t ?q2"
  let ?q4 = "snd (pop_front ?q3)"
  have s0: "s0 = \<lparr>tp_queue = ?q0, tp_workers = [Waiting], tp_loggers = [\<lparr>base_logger = l, overflow_policy = block\<rparr>],
      tp_outside = w, terminating = None, joined = False, logged_calls = [], posted = [], taken = [], done_msgs = [], overrun = []\<rparr>"
    using assms(1) by (simp add: thread_pool_new_def)
  note q_simps = circular_q_new_def push_back_def pop_front_def cq_full_def cq_empty_def Let_def
  have p1: "post_async_msg block ?am ?q0 = (Enqueued, ?q1)" by (simp add: post_async_msg_def enqueue_def) (simp add: q_simps)
  have p2: "dequeue_for ?q1 = (Popped ?am, ?q2)" by (simp add: dequeue_for_def case_prod_beta) (simp add: q_simps)
  have p3: "post_async_msg block ?t ?q2 = (Enqueued, ?q3)" by (simp add: post_async_msg_def enqueue_def) (simp add: q_simps)
  have p4: "dequeue_for ?q3 = (Popped ?t, ?q4)" by (simp add: dequeue_for_def case_prod_beta) (simp add: q_simps)
  let ?s1 = "(record_post ?am ?q1 s0)\<lparr>logged_calls := logged_calls s0 @ [c]\<rparr>"
  let ?s2 = "?s1\<lparr>tp_queue := ?q2, taken := taken ?s1 @ [?am], tp_workers := (tp_workers ?s1)[0 := InHand ?am]\<rparr>"
  have "async_step os s0 ?s1"
    using async_step.call_posts [of c os s0 ?m "Inr ()" "(l, w)" ?q1] assms(3-7) p1
    by (simp add: s0 async_log_def logger_of_def)
  then have r1: "async_reachable os s0 ?s1" by (rule async_reachable.step [OF async_reachable.start])
  have r2: "async_reachable os s0 ?s2"
    by (rule async_reachable.step [OF r1], rule async_step.worker_takes) (use p2 in \<open>simp_all add: s0\<close>)
  have l2: "logger_of 0 ?s2 = (l, w)" by (simp add: s0 logger_of_def)
  have "async_type ?am = log_type" "worker_ptr ?am = Some 0" by (simp_all add: async_of_log_def)
  from handles_log [OF r2 _ this] assms(2,3) obtain ls v where
    r3: "async_reachable os s0 (?s2\<lparr>tp_loggers := ls, tp_outside := v, done_msgs := done_msgs ?s2 @ [?am], tp_workers := [Waiting]\<rparr>)"
    by (auto simp: s0 logger_of_def)
  let ?s3 = "?s2\<lparr>tp_loggers := ls, tp_outside := v, done_msgs := done_msgs ?s2 @ [?am], tp_workers := [Waiting]\<rparr>"
  let ?s4 = "?s3\<lparr>terminating := Some 0\<rparr>"
  have r4: "async_reachable os s0 ?s4"
    by (rule async_reachable.step [OF r3], rule async_step.destructor_begins) (simp add: s0 on_logger_def)
  let ?s5 = "(record_post ?t ?q3 ?s4)\<lparr>terminating := Some (Suc 0)\<rparr>"
  have r5: "async_reachable os s0 ?s5"
    by (rule async_reachable.step [OF r4], rule async_step.destructor_posts) (use p3 in \<open>simp_all add: s0 on_logger_def\<close>)
  let ?s6 = "?s5\<lparr>tp_queue := ?q4, taken := taken ?s5 @ [?t], tp_workers := (tp_workers ?s5)[0 := InHand ?t]\<rparr>"
  have r6: "async_reachable os s0 ?s6"
    by (rule async_reachable.step [OF r5], rule async_step.worker_takes) (use p4 in \<open>simp_all add: s0 on_logger_def\<close>)
  have pt: "process_step (ac_env c) (InHand ?t) ?s6 = (Ended, ?s6)" by (simp add: process_step_def begin_msg_def async_of_type_def)
  let ?s7 = "?s6\<lparr>done_msgs := done_msgs ?s6 @ finished (InHand ?t) Ended, tp_workers := (tp_workers ?s6)[0 := Ended]\<rparr>"
  have r7: "async_reachable os s0 ?s7"
    by (rule async_reachable.step [OF r6], rule async_step.worker_works [OF _ _ _ assms(4) pt]) (simp_all add: s0 on_logger_def at_work_def)
  have r8: "async_reachable os s0 (?s7\<lparr>joined := True\<rparr>)"
    by (rule async_reachable.step [OF r7], rule async_step.destructor_joins) (simp_all add: s0 on_logger_def)
  show ?thesis
    by (intro exI [of _ "?s7\<lparr>joined := True\<rparr>"] conjI, rule r8) (simp_all add: s0 on_logger_def)
qed

definition demo_async_call :: async_call where
  "demo_async_call =
     \<lparr>ac_env = demo_env 61500000000, ac_logger = 0, ac_source = no_source, ac_level = info, ac_format = ''start'', ac_args = []\<rparr>"

lemma demo_ready_logger: "\<exists>l w. logger_ready (l, w) \<and> lg_level l = debug"
proof -
  have n: "log_size 1 = 1" "log_size 100 = 100" by (simp_all add: log_size_def)
  have c: "''rec'' \<noteq> []" "no_logs ''log'' (log_size 1) demo_disk" "log_size 100 \<le> quota demo_disk"
    by (simp_all add: no_logs_def demo_disk_def names_ok_def n)
  from MyLogger_new_logs [OF c] obtain r d1 where
    m: "MyLogger_new ''rec'' ''log'' 100 1 (registry_new, demo_disk) = (Inr 1, (r, d1))" by blast
  obtain q rs d where q: "rotating_file_sink_new ''log'' (log_size 100) (log_size 1) False demo_disk = (q, (rs, d))"
    by (metis prod_cases3)
  have "q = Inr ()" using MyLogger_new_failed [of "''log''" 100 1 demo_disk _ rs d "''rec''" registry_new] q m by (cases q) auto
  with MyLogger_new_made [OF c(1)] q m have "object_at 1 r = my_logger ''rec'' (new_file_sink rs)" by fastforce
  then have "lg_level (object_at 1 r) = debug" by (simp add: my_logger_def)
  with MyLogger_new_ready [OF m] show ?thesis by blast
qed

lemma demo_async_run:
  "\<exists>l w s0 s. thread_pool_new (async_of_type None flush_type) 2 1 [\<lparr>base_logger = l, overflow_policy = block\<rparr>] w = Inr s0 \<and>
     async_reachable demo_os s0 s \<and> joined s \<and> logged_calls s = [demo_async_call]"
proof -
  obtain l w where l: "logger_ready (l, w)" "lg_level l = debug" using demo_ready_logger by blast
  obtain s0 where s0: "thread_pool_new (async_of_type None flush_type) 2 1 [\<lparr>base_logger = l, overflow_policy = block\<rparr>] w = Inr s0"
    by (simp add: thread_pool_new_def)
  have c: "os_ok demo_os" "env_os (ac_env demo_async_call) = demo_os" "ac_logger demo_async_call = 0"
    "should_log (ac_level demo_async_call) l" "call_view demo_async_call = Inr ''start''"
    using l(2) by (simp_all add: demo_async_call_def demo_env_def call_view_def should_log_def level_num_def os_ok_def demo_os_def demo_tm_ok)
  from one_call_run [OF s0 l(1) c] s0 show ?thesis by blast
qed

section \<open>When the pool is gone\<close>

lemma joined_empty:
  assumes "async_inv os n k s0 s" and "joined s" and "0 < k"
  shows "cq_list (tp_queue s) = []" and "hands (tp_workers s) = []"
proof -
  from assms(1,2) have e: "terminating s = Some k" "\<forall>p \<in> set (tp_workers s). p = Ended" "length (tp_workers s) = k"
    by (auto simp: async_inv_def end_inv_def hand_inv_def)
  show h: "hands (tp_workers s) = []" using e(2) by (auto simp: hands_def)
  have "ended (tp_workers s) = k" using e(2,3) by (simp add: ended_def)
  then have d: "size (filter_mset ends (mset (done_msgs s))) = k"
    using assms(1) by (simp add: async_inv_def end_inv_def flip: mset_filter)
  have "mset (taken s) = mset (done_msgs s)" using assms(1) h by (simp add: async_inv_def hand_inv_def)
  with d have t: "length (filter ends (taken s)) = k" by (metis mset_filter size_mset)
  obtain ls where ls: "flow s = ls @ replicate k (async_of_type None terminate_type)" "\<forall>am \<in> set ls. \<not> ends am"
    using assms(1) e(1) by (auto simp: async_inv_def end_inv_def)
  have "filter ends ls = []" using ls(2) by simp
  then have "length (filter ends (flow s)) = k" unfolding ls(1) by simp
  with t have q: "filter ends (cq_list (tp_queue s)) = []" by (simp add: flow_def)
  show "cq_list (tp_queue s) = []"
  proof (rule ccontr)
    assume ne: "cq_list (tp_queue s) \<noteq> []"
    have "last (flow s) = async_of_type None terminate_type" using assms(3) by (simp add: ls(1))
    with ne have "last (cq_list (tp_queue s)) = async_of_type None terminate_type" by (simp add: flow_def)
    with ne have "async_of_type None terminate_type \<in> set (cq_list (tp_queue s))" by (metis last_in_set)
    with q show False by (metis filter_empty_conv msg_ok_simps(4))
  qed
qed

text \<open>The same calls on synchronous loggers.\<close>

definition sync_call :: "async_call \<Rightarrow> logger list \<times> log_outside \<Rightarrow> logger list \<times> log_outside" where
  "sync_call c = (\<lambda>(ls, w).
     case (if ac_args c = [] then log_text (ac_env c) (ac_source c) (ac_level c) (ac_format c)
           else log_format (ac_env c) (ac_source c) (ac_level c) (ac_format c) (ac_args c)) (ls ! ac_logger c, w) of
       (r, (l, w)) \<Rightarrow> (ls[ac_logger c := l], w))"

definition base_sinks :: "logger list \<times> log_outside \<Rightarrow> file_sink list list \<times> disk" where
  "base_sinks = (\<lambda>(ls, w). (map lg_sinks ls, log_disk w))"

definition base_settings :: "logger list \<Rightarrow> (string \<times> level) list" where
  "base_settings = map (\<lambda>l. (lg_name l, lg_level l))"

lemma sync_call_sinks:
  assumes "env_os (ac_env c) = os" and "ac_logger c < length ls" and "should_log (ac_level c) (ls ! ac_logger c)"
    and "call_view c = Inr view" and "sync_call c (ls, w) = (ls', w')"
  shows "base_sinks (ls', w') = handle_sinks os (map fst (base_settings ls)) (posted_msg (map fst (base_settings ls)) c) (base_sinks (ls, w))"
    and "base_settings ls' = base_settings ls"
proof -
  let ?a = "ac_logger c" and ?l = "ls ! ac_logger c"
  let ?m = "log_msg_new (ac_source c) (lg_name ?l) (ac_level c) view (env_now (ac_env c)) (env_thread (ac_env c))"
  obtain r l1 w1 where p: "catch_and_handle (ac_env c) (log_payload (ac_env c) (ac_source c) (ac_level c) view (?l, w)) = (r, (l1, w1))"
    by (metis prod_cases3)
  have s: "ls' = ls[?a := l1]" "w' = w1"
    using assms(3,4,5) p by (auto simp: sync_call_def log_text_def log_format_def call_view_def split: if_splits sum.splits)
  obtain q ss d where k: "sinks_log os ?m (lg_sinks ?l) (log_disk w) = (q, (ss, d))" by (metis prod_cases3)
  have pay: "log_payload (ac_env c) (ac_source c) (ac_level c) view (?l, w) =
      ((case q of Inl e \<Rightarrow> Inl e | Inr _ \<Rightarrow> Inr ()), (?l\<lparr>lg_sinks := ss\<rparr>, w\<lparr>log_disk := d\<rparr>))"
    using k assms(1) by (simp add: log_payload_def Let_def)
  from catch_and_handle_keeps [OF p [unfolded pay]]
  have l1: "lg_sinks l1 = ss" "lg_name l1 = lg_name ?l" "lg_level l1 = lg_level ?l" "log_disk w1 = d" by simp_all
  have name: "map fst (base_settings ls) ! ?a = lg_name ?l" using assms(2) by (simp add: base_settings_def)
  have msg: "posted_msg (map fst (base_settings ls)) c = async_of_log ?a ?m" by (simp add: posted_msg_def name assms(4))
  have "handle_sinks os (map fst (base_settings ls)) (async_of_log ?a ?m) (base_sinks (ls, w)) = sinks_step os (?a, ?m) (base_sinks (ls, w))"
    using name to_log_msg_async by (simp add: handle_sinks_def) (simp add: async_of_log_def)
  also have "\<dots> = ((map lg_sinks ls)[?a := ss], d)" using assms(2) k by (simp add: sinks_step_def base_sinks_def)
  finally show "base_sinks (ls', w') = handle_sinks os (map fst (base_settings ls)) (posted_msg (map fst (base_settings ls)) c) (base_sinks (ls, w))"
    using l1 by (simp add: s msg base_sinks_def map_update)
  show "base_settings ls' = base_settings ls"
    using l1 map_update_same [of "\<lambda>l. (lg_name l, lg_level l)" ls ?a] by (simp add: s base_settings_def map_update)
qed

lemma sync_calls_sinks:
  assumes "\<forall>c \<in> set cs. env_os (ac_env c) = os \<and> ac_logger c < length st \<and>
      level_num (snd (st ! ac_logger c)) \<le> level_num (ac_level c) \<and> (\<exists>view. call_view c = Inr view)"
    and "base_settings ls = st"
  shows "base_sinks (fold sync_call cs (ls, w)) = fold (handle_sinks os (map fst st)) (map (posted_msg (map fst st)) cs) (base_sinks (ls, w))"
  using assms
proof (induction cs arbitrary: ls w)
  case (Cons c cs)
  obtain ls' w' where c: "sync_call c (ls, w) = (ls', w')" by (metis surj_pair)
  obtain view where v: "call_view c = Inr view" using Cons.prems(1) by auto
  have len: "length st = length ls" using Cons.prems(2) by (auto simp: base_settings_def)
  have a: "env_os (ac_env c) = os" "ac_logger c < length ls" using Cons.prems(1) len by simp_all
  moreover have "should_log (ac_level c) (ls ! ac_logger c)"
    using Cons.prems a(2) by (auto simp: should_log_def base_settings_def)
  note k = sync_call_sinks [OF a this v c]
  from Cons.IH [of ls' w'] Cons.prems k(2) have
    "base_sinks (fold sync_call cs (ls', w')) = fold (handle_sinks os (map fst st)) (map (posted_msg (map fst st)) cs) (base_sinks (ls', w'))"
    by simp
  then show ?case using k(1) Cons.prems(2) by (simp add: c)
qed simp

lemma fold_handle_logs:
  "fold (handle_sinks os names) ams sd = fold (handle_sinks os names) (logs ams) sd"
proof (induction ams arbitrary: sd)
  case (Cons am ams)
  show ?case
  proof (cases "async_type am = log_type")
    case False
    then have "handle_sinks os names am sd = sd" by (simp add: handle_sinks_def split: async_msg_type.splits)
    with False Cons.IH show ?thesis by (simp add: logs_def)
  qed (use Cons.IH in \<open>simp add: logs_def\<close>)
qed (simp add: logs_def)

lemma gone_pool:
  assumes "thread_pool_new d n k ls w = Inr s0" and "async_reachable os s0 s" and "joined s" and "slots n = Suc N"
  shows "cq_list (tp_queue s) = []" and "mset (posted s) = mset (done_msgs s) + mset (overrun s)"
    and "overrun_counter (tp_queue s) = word_of_nat (length (overrun s))" and "all_block ls \<Longrightarrow> overrun s = []"
    and "k = 1 \<or> one_sink_each (sink_counts ls) \<Longrightarrow>
      sinks_of s = fold (handle_sinks os (names_of ls)) (done_msgs s) (sinks_state (ls, w))"
    and "k = 1 \<Longrightarrow> taken s = done_msgs s"
proof -
  note i = async_inv_reachable [OF assms(2,1,4)] and st = pool_start(1-3) [OF assms(1)]
  note e = joined_empty [OF i assms(3) st(3)]
  from i have set: "settings (tp_loggers s) = settings ls" by (simp add: async_inv_def st)
  show "cq_list (tp_queue s) = []" by (rule e(1))
  show "mset (posted s) = mset (done_msgs s) + mset (overrun s)" "overrun_counter (tp_queue s) = word_of_nat (length (overrun s))"
    "all_block ls \<Longrightarrow> overrun s = []"
    using i e settings_all_block [OF set] by (simp_all add: async_inv_def st flow_inv_def flow_def hand_inv_def)
  show one: "k = 1 \<Longrightarrow> taken s = done_msgs s" using i e by (simp add: async_inv_def hand_inv_def)
  have ended: "\<forall>p \<in> set (tp_workers s). p = Ended" "length (tp_workers s) = k"
    using i assms(3) by (auto simp: async_inv_def end_inv_def hand_inv_def)
  show "sinks_of s = fold (handle_sinks os (names_of ls)) (done_msgs s) (sinks_state (ls, w))"
    if "k = 1 \<or> one_sink_each (sink_counts ls)"
  proof (cases "k = 1")
    case True
    with ended have "Ended \<in> set (tp_workers s)" by (cases "tp_workers s") auto
    moreover have "\<forall>p \<in> set (tp_workers s). finish os (names_of ls) p (sinks_of s) =
        fold (handle_sinks os (names_of ls)) (taken s) (sinks_state (ls, w))"
      using i True by (simp add: async_inv_def sinks_inv_def Let_def st)
    ultimately show ?thesis using one [OF True] by (force simp: finish_def)
  next
    case False
    with that i show ?thesis by (simp add: async_inv_def sinks_inv_def Let_def st)
  qed
qed

section \<open>Properties\<close>

text \<open>
  C18. The pool loses nothing but what it counts: when its destructor has returned, with any number of
  workers and whatever was logged and flushed before and meanwhile, the queue is empty and the messages
  posted are those handled together with those overrun, which the counter of the queue counts, and with
  the policy \<open>block\<close> there are none of these. With one worker, or when no logger has more than one
  sink, the sinks and the disk are as if the messages handled had been given to the sinks one after
  the other. (With more workers, two of them may be among the sinks of one logger at the same time.)
\<close>

theorem async_pool_delivers:
  assumes "thread_pool_new d n k ls w = Inr s0" and "async_reachable os s0 s" and "joined s"
  shows "cq_list (tp_queue s) = [] \<and> mset (posted s) = mset (done_msgs s) + mset (overrun s) \<and>
    overrun_counter (tp_queue s) = word_of_nat (length (overrun s)) \<and>
    (all_block ls \<longrightarrow> overrun s = []) \<and>
    (k = 1 \<or> (\<forall>l \<in> set ls. length (lg_sinks (base_logger l)) \<le> 1) \<longrightarrow>
      sinks_of s = fold (handle_sinks os (names_of ls)) (done_msgs s) (sinks_state (ls, w)))"
proof -
  obtain N where N: "slots n = Suc N" using joined_has_slots [OF assms] by blast
  note g = gone_pool [OF assms N]
  have "one_sink_each (sink_counts ls) \<longleftrightarrow> (\<forall>l \<in> set ls. length (lg_sinks (base_logger l)) \<le> 1)"
    by (simp add: one_sink_each_def sink_counts_def)
  with g(5) g(1-4) show ?thesis by simp
qed

theorem async_pool_delivers_witness:
  "\<exists>d ls w s0 s. thread_pool_new d 2 1 ls w = Inr s0 \<and> async_reachable demo_os s0 s \<and> joined s \<and>
     logged_calls s = [demo_async_call] \<and> mset (posted s) = mset (done_msgs s) + mset (overrun s)"
proof -
  from demo_async_run obtain l w s0 s where
    s: "thread_pool_new (async_of_type None flush_type) 2 1 [\<lparr>base_logger = l, overflow_policy = block\<rparr>] w = Inr s0"
      "async_reachable demo_os s0 s" "joined s" "logged_calls s = [demo_async_call]" by blast
  from async_pool_delivers [OF s(1-3)] s show ?thesis by blast
qed

text \<open>
  C5. Asynchronous logging through one worker and a queue that blocks is synchronous logging: when the
  destructor of the pool has returned, every sink and the disk are what the same calls, made one after
  the other in the order in which they posted their messages, give with synchronous loggers.
\<close>

theorem async_is_sync:
  assumes "thread_pool_new d n 1 ls w = Inr s0" and "async_reachable os s0 s" and "joined s" and "all_block ls"
  shows "sinks_of s = base_sinks (fold sync_call (logged_calls s) (map base_logger ls, w))"
proof -
  obtain N where N: "slots n = Suc N" using joined_has_slots [OF assms(1-3)] by blast
  note i = async_inv_reachable [OF assms(2,1) N] and st = pool_start(1-3) [OF assms(1)]
  note e = joined_empty [OF i assms(3) st(3)] and a = gone_pool(1-4) [OF assms(1-3) N] gone_pool(5,6) [OF assms(1-3) N, simplified]
  have d: "taken s = done_msgs s" by (rule a(6))
  have "subseq (taken s) (posted s)" using i e(1) by (simp add: async_inv_def flow_inv_def flow_def)
  moreover have "mset (taken s) = mset (posted s)" using a d assms(4) by simp
  ultimately have t: "done_msgs s = posted s" using subseq_same_length mset_eq_length d by metis
  let ?st = "settings ls"
  have b: "base_settings (map base_logger ls) = map (\<lambda>x. (fst x, fst (snd x))) ?st"
    by (simp add: base_settings_def settings_def)
  have names: "map fst (base_settings (map base_logger ls)) = names_of ls" by (simp add: b names_of_def)
  have c: "\<forall>c \<in> set (logged_calls s). posts_ok os ?st c" and l: "logs (posted s) = map (posted_msg (names_of ls)) (logged_calls s)"
    using i by (simp_all add: async_inv_def st)
  have ok: "\<forall>c \<in> set (logged_calls s). env_os (ac_env c) = os \<and> ac_logger c < length (base_settings (map base_logger ls)) \<and>
      level_num (snd (base_settings (map base_logger ls) ! ac_logger c)) \<le> level_num (ac_level c) \<and> (\<exists>view. call_view c = Inr view)"
    using c by (auto simp: b posts_ok_def)
  have "sinks_of s = fold (handle_sinks os (names_of ls)) (done_msgs s) (sinks_state (ls, w))" using a by simp
  also have "\<dots> = fold (handle_sinks os (names_of ls)) (map (posted_msg (names_of ls)) (logged_calls s)) (sinks_state (ls, w))"
    unfolding t by (subst fold_handle_logs) (simp only: l)
  also have "sinks_state (ls, w) = base_sinks (map base_logger ls, w)" by (simp add: sinks_state_def base_sinks_def comp_def)
  also have "fold (handle_sinks os (names_of ls)) (map (posted_msg (names_of ls)) (logged_calls s)) (base_sinks (map base_logger ls, w)) =
      base_sinks (fold sync_call (logged_calls s) (map base_logger ls, w))"
    by (rule sync_calls_sinks [OF ok refl, unfolded names, symmetric])
  finally show ?thesis .
qed

theorem async_is_sync_witness:
  "\<exists>d l w s0 s. thread_pool_new d 2 1 [\<lparr>base_logger = l, overflow_policy = block\<rparr>] w = Inr s0 \<and> async_reachable demo_os s0 s \<and>
     joined s \<and> sinks_of s = base_sinks (sync_call demo_async_call ([l], w))"
proof -
  from demo_async_run obtain l w s0 s where
    s: "thread_pool_new (async_of_type None flush_type) 2 1 [\<lparr>base_logger = l, overflow_policy = block\<rparr>] w = Inr s0"
      "async_reachable demo_os s0 s" "joined s" "logged_calls s = [demo_async_call]" by blast
  have "all_block [\<lparr>base_logger = l, overflow_policy = block\<rparr>]" by (simp add: all_block_def settings_def)
  from async_is_sync [OF s(1-3) this] s show ?thesis by (intro exI conjI) simp_all
qed

text \<open>
  C19. The destructor of a pool whose queue has room for a message returns: once it has begun, every step
  of it, of a worker or of a caller brings the pool closer to its end or leaves the queue, the workers
  and the destructor as they are, as a worker that times out does, and until it has returned one of the
  steps that bring it closer is possible, unless a worker was stopped by an error that is no exception.
  (A queue of size 0 lets no message in, and the destructor waits for ever; the largest size wraps to a
  ring without slots.)
\<close>

theorem async_pool_stops:
  assumes "thread_pool_new d n k ls w = Inr s0" and "async_reachable os s0 s" and "terminating s \<noteq> None" and "0 < n" and "n + 1 < 2 ^ 64"
  shows "(\<forall>s'. async_step os s s' \<longrightarrow> pool_rank s' < pool_rank s \<or>
      tp_queue s' = tp_queue s \<and> tp_workers s' = tp_workers s \<and> terminating s' = terminating s \<and> joined s' = joined s) \<and>
    (joined s \<or> (\<exists>e. Aborted e \<in> set (tp_workers s)) \<or> (\<exists>s'. async_step os s s' \<and> pool_rank s' < pool_rank s))"
proof -
  have "slots n = Suc n" using assms(5) by (simp add: slots_def)
  note inv = async_inv_reachable [OF assms(2,1) this]
  obtain j where t: "terminating s = Some j" using assms(3) by auto
  have "\<exists>s'. async_step os s s' \<and> pool_rank s' < pool_rank s"
    if "\<not> joined s" and na: "\<forall>e. Aborted e \<notin> set (tp_workers s)"
    by (rule pool_moves [OF inv t assms(4) that])
  with pool_rank_step [OF inv t] show ?thesis by blast
qed

theorem async_pool_stops_witness:
  "\<exists>s0 s'. thread_pool_new (async_of_type None flush_type) 2 3 [] \<lparr>log_disk = demo_disk, log_cout = [], log_cerr = []\<rparr> = Inr s0 \<and>
     async_step demo_os (s0\<lparr>terminating := Some 0\<rparr>) s' \<and> pool_rank s' < pool_rank (s0\<lparr>terminating := Some 0\<rparr>)"
proof -
  obtain s0 where s0: "thread_pool_new (async_of_type None flush_type) 2 3 [] \<lparr>log_disk = demo_disk, log_cout = [], log_cerr = []\<rparr> = Inr s0"
    by (simp add: thread_pool_new_def)
  then have t: "terminating s0 = None" "joined s0 = False" "tp_workers s0 = [Waiting, Waiting, Waiting]"
    by (auto simp: thread_pool_new_def eval_nat_numeral)
  have r: "async_reachable demo_os s0 (s0\<lparr>terminating := Some 0\<rparr>)"
    by (rule async_reachable.step [OF async_reachable.start async_step.destructor_begins [OF t(1)]])
  from async_pool_stops [OF s0 r] t s0 show ?thesis by auto
qed

end
