(* ===== verification/DailySink.thy ===== *)
theory DailySink
  imports SpdLogger
begin

text \<open>
  The daily log file of the logging library, \<open>spdlog/sinks/daily_file_sink.h\<close>: one file for each day,
  changed at a time of day. The disk and the file helper are those of theory RotatingSink. The clock is
  its successive answers, \<open>mktime\<close> a parameter like \<open>localtime\<close>; \<open>mktime\<close> may also correct the fields
  it is given, which nobody looks at. Time points count nanoseconds in a signed word of 64 bits.
\<close>

section \<open>File names\<close>

definition daily_format :: string where "daily_format = ''{}_{:04d}-{:02d}-{:02d}{}''"

definition daily_calc_filename :: "string \<Rightarrow> log_tm \<Rightarrow> string res" where
  "daily_calc_filename filename now_tm =
     (let (basename, ext) = split_by_extension filename
      in vformat_to no_env [] daily_format
        [string_type basename, int_type (word_of_int (tm_year now_tm + 1900)), int_type (word_of_int (tm_mon now_tm + 1)),
         int_type (word_of_int (tm_mday now_tm)), string_type ext])"

section \<open>The sink\<close>

text \<open>What the system gives, and the successive answers of the clock.\<close>

record daily_os =
  daily_log_os :: log_os
  os_mktime :: "log_tm \<Rightarrow> int"

type_synonym log_clock = "nat \<Rightarrow> 64 word"

definition clock_now :: "log_clock \<Rightarrow> 64 word \<times> log_clock" where
  "clock_now c = (c 0, \<lambda>i. c (Suc i))"

record daily_file_sink =
  daily_base :: string
  rotation_h :: int
  rotation_m :: int
  rotation_tp :: "64 word"
  daily_helper :: file_helper
  daily_truncate :: bool

type_synonym daily_state = "daily_file_sink \<times> disk \<times> log_clock"

definition daily_now_tm :: "daily_os \<Rightarrow> 64 word \<Rightarrow> log_tm" where
  "daily_now_tm os tp = os_localtime (daily_log_os os) (secs_of tp)"

definition one_day :: "64 word" where "one_day = 86400000000000"

definition from_time_t :: "int \<Rightarrow> 64 word" where
  "from_time_t t = word_of_int (t * 1000000000)"

definition next_rotation_tp :: "daily_os \<Rightarrow> daily_file_sink \<Rightarrow> log_clock \<Rightarrow> 64 word \<times> log_clock" where
  "next_rotation_tp os s c =
     (let (now, c) = clock_now c;
          date = (daily_now_tm os now)\<lparr>tm_hour := rotation_h s, tm_min := rotation_m s, tm_sec := 0\<rparr>;
          rotation_time = from_time_t (os_mktime os date)
      in (if sint now < sint rotation_time then rotation_time else rotation_time + one_day, c))"

text \<open>Opening the file of the day of \<open>tp\<close>; then the next rotation, if the file could be opened.\<close>

definition daily_open :: "daily_os \<Rightarrow> 64 word \<Rightarrow> daily_state \<Rightarrow> unit res \<times> daily_state" where
  "daily_open os tp = (\<lambda>(s, d, c).
     case daily_calc_filename (daily_base s) (daily_now_tm os tp) of
       Inl e \<Rightarrow> (Inl e, (s, d, c))
     | Inr name \<Rightarrow>
         (case fh_open name (daily_truncate s) (daily_helper s, d) of
            (Inl t, (h, d)) \<Rightarrow> (Inl (SpdlogException t), (s\<lparr>daily_helper := h\<rparr>, d, c))
          | (Inr _, (h, d)) \<Rightarrow>
              let s = s\<lparr>daily_helper := h\<rparr>; (tp, c) = next_rotation_tp os s c
              in (Inr (), (s\<lparr>rotation_tp := tp\<rparr>, d, c))))"

definition daily_file_sink_new ::
  "daily_os \<Rightarrow> string \<Rightarrow> int \<Rightarrow> int \<Rightarrow> bool \<Rightarrow> disk \<times> log_clock \<Rightarrow> unit res \<times> daily_state" where
  "daily_file_sink_new os base rotation_hour rotation_minute trunc = (\<lambda>(d, c).
     let s = \<lparr>daily_base = base, rotation_h = rotation_hour, rotation_m = rotation_minute, rotation_tp = 0,
              daily_helper = file_helper_default, daily_truncate = trunc\<rparr>
     in if rotation_hour < 0 \<or> 23 < rotation_hour \<or> rotation_minute < 0 \<or> 59 < rotation_minute
        then (Inl (SpdlogException ''daily_file_sink: Invalid rotation time in ctor''), (s, d, c))
        else (let (now, c) = clock_now c in daily_open os now (s, d, c)))"

definition daily_rotate :: "daily_os \<Rightarrow> log_msg \<Rightarrow> daily_state \<Rightarrow> unit res \<times> daily_state" where
  "daily_rotate os m = (\<lambda>(s, d, c).
     if sint (rotation_tp s) \<le> sint (msg_time m) then daily_open os (msg_time m) (s, d, c) else (Inr (), (s, d, c)))"

text \<open>\<open>file_helper::write\<close> with its exception.\<close>

definition write_or_throw :: "string \<Rightarrow> fh_disk \<Rightarrow> unit res \<times> fh_disk" where
  "write_or_throw text st =
     (case fh_write text st of
        None \<Rightarrow> (Inl UndefinedBehaviour, st)
      | Some (Inl t, st) \<Rightarrow> (Inl (SpdlogException t), st)
      | Some (Inr _, st) \<Rightarrow> (Inr (), st))"

definition daily_sink_it ::
  "daily_os \<Rightarrow> log_msg \<Rightarrow> pattern_formatter \<times> daily_state \<Rightarrow> log_msg res \<times> pattern_formatter \<times> daily_state" where
  "daily_sink_it os m = (\<lambda>(f, st).
     case daily_rotate os m st of
       (Inl e, st) \<Rightarrow> (Inl e, (f, st))
     | (Inr _, (s, d, c)) \<Rightarrow>
         (case pattern_format (daily_log_os os) m [] f of
            Inl e \<Rightarrow> (Inl e, (f, (s, d, c)))
          | Inr (f, m, formatted) \<Rightarrow>
              (case write_or_throw formatted (daily_helper s, d) of
                 (r, (h, d)) \<Rightarrow> (bind_res r (\<lambda>_. Inr m), (f, (s\<lparr>daily_helper := h\<rparr>, d, c))))))"

text \<open>One message after the other, until one throws.\<close>

fun daily_log_all ::
  "daily_os \<Rightarrow> log_msg list \<Rightarrow> pattern_formatter \<times> daily_state \<Rightarrow> unit res \<times> pattern_formatter \<times> daily_state" where
  "daily_log_all os [] fs = (Inr (), fs)"
| "daily_log_all os (m # ms) fs =
     (case daily_sink_it os m fs of
        (Inl e, fs) \<Rightarrow> (Inl e, fs)
      | (Inr _, fs) \<Rightarrow> daily_log_all os ms fs)"

section \<open>Names of days\<close>

text \<open>A field \<open>{:0w}\<close> or \<open>{:0wd}\<close>.\<close>

lemma zero_specs_parsed:
  "parse_format_specs (int_type v) (''04d}'' @ s) (format_specs_new, ctx) =
     Inr ((format_specs_new\<lparr>spec_align := ALIGN_NUMERIC, spec_fill := CHR ''0'', spec_width := 4, spec_type := CHR ''d''\<rparr>, ctx), ''}'' @ s)"
  "parse_format_specs (int_type v) (''02d}'' @ s) (format_specs_new, ctx) =
     Inr ((format_specs_new\<lparr>spec_align := ALIGN_NUMERIC, spec_fill := CHR ''0'', spec_width := 2, spec_type := CHR ''d''\<rparr>, ctx), ''}'' @ s)"
  by (simp_all add: parse_format_specs_def parse_align_def alignment_of_def parse_sign_def parse_hash_def parse_zero_def on_zero_def
      require_numeric_def is_arithmetic_def parse_width_def in_digits_def parse_nonnegative_int_def max_int_def parse_type_def
      less_eq_char_def)

lemma zero_padded_int:
  assumes "int_range n"
  shows "visit_arg env (int_type (word_of_int n))
    (Some (format_specs_new\<lparr>spec_align := ALIGN_NUMERIC, spec_fill := CHR ''0'', spec_width := w, spec_type := CHR ''d''\<rparr>)) =
    Inr (pad_zeros w n)"
proof -
  let ?v = "int32_value (word_of_int n)"
  let ?spec = "format_specs_new\<lparr>spec_align := ALIGN_NUMERIC, spec_fill := CHR ''0'', spec_width := w, spec_type := CHR ''d''\<rparr>"
  have r: "- (2 ^ 31) \<le> n" "n < 2 ^ 31" using assms by (simp_all add: int_range_def)
  have a: "abs_value ?v = nat \<bar>n\<bar>" "is_negative ?v = (n < 0)"
  proof (atomize (full), cases "n < 0")
    case True
    then show "abs_value ?v = nat \<bar>n\<bar> \<and> is_negative ?v = (n < 0)" using int32_magnitude [OF r(1)] by simp
  next
    case False
    then have "unat (word_of_int n :: 32 word) = nat n"
      using r by (simp add: unat_eq_nat_uint uint_word_of_int_eq take_bit_int_eq_self)
    with False int32_sint [OF r] show "abs_value ?v = nat \<bar>n\<bar> \<and> is_negative ?v = (n < 0)"
      by (simp add: int32_value_def)
  qed
  have "write_int sep ?v ?spec = Inr (write_int_digits (length (show_nat (nat \<bar>n\<bar>))) (if n < 0 then ''-'' else []) ?spec (show_nat (nat \<bar>n\<bar>)))" for sep
    using a by (simp add: write_int_def format_specs_new_def Let_def on_dec_text sign_prefix_def has_flag_def)
  moreover have "write_int_digits (length (show_nat (nat \<bar>n\<bar>))) (if n < 0 then ''-'' else []) ?spec (show_nat (nat \<bar>n\<bar>)) = pad_zeros w n"
    by (auto simp: write_int_digits_def write_padded_def pad_zeros_def format_specs_new_def Let_def)
  ultimately show ?thesis by (simp add: write_integer_def)
qed

definition daily_name :: "string \<Rightarrow> log_tm \<Rightarrow> string" where
  "daily_name base t =
     fst (split_by_extension base) @ ''_'' @ pad_zeros 4 (tm_year t + 1900) @ ''-'' @ pad_zeros 2 (tm_mon t + 1) @ ''-'' @
     pad_zeros 2 (tm_mday t) @ snd (split_by_extension base)"

lemma daily_format_prints:
  assumes "\<And>spec. spec = format_specs_new\<lparr>spec_align := ALIGN_NUMERIC, spec_fill := CHR ''0'', spec_width := 4, spec_type := CHR ''d''\<rparr> \<Longrightarrow>
      visit_arg no_env (int_type y) (Some spec) = Inr ys"
    and "\<And>v spec. spec = format_specs_new\<lparr>spec_align := ALIGN_NUMERIC, spec_fill := CHR ''0'', spec_width := 2, spec_type := CHR ''d''\<rparr> \<Longrightarrow>
      v = m \<or> v = d \<Longrightarrow> visit_arg no_env (int_type v) (Some spec) = Inr (if v = m then ms else ds)"
  shows "vformat_to no_env [] daily_format [string_type b, int_type y, int_type m, int_type d, string_type e] =
    Inr (b @ ''_'' @ ys @ ''-'' @ ms @ ''-'' @ (if d = m then ms else ds) @ e)"
proof -
  note specs = zero_specs_parsed [simplified append_Cons append_Nil] and ints = assms(1) [OF refl] assms(2) [OF refl]
  show ?thesis
    unfolding daily_format_def
    by (simp add: vformat_to_def parse_format_string_step [of _ "CHR ''{'' # _"] parse_format_string_step [of _ "CHR ''_'' # _"]
        parse_format_string_step [of _ "CHR ''-'' # _"] parse_field_def parse_arg_id_def get_arg_def take_next_arg_id_def
        do_get_arg_def fmt_context_new_def on_format_specs_def on_replacement_field_def specs ints format_string_def
        parse_format_string.simps [of _ "[]"] on_text_def write_text.simps [of "[_]"] write_text.simps [of "[]"]
        del: visit_arg.simps(2))
qed

lemma daily_calc_filename_name:
  assumes "tm_ok t"
  shows "daily_calc_filename base t = Inr (daily_name base t)"
proof -
  have r: "int_range (tm_year t + 1900)" "int_range (tm_mon t + 1)" "int_range (tm_mday t)"
    using assms by (simp_all add: tm_ok_def int_range_def)
  note ints = r [THEN zero_padded_int]
  obtain b e where s: "split_by_extension base = (b, e)" by (metis surj_pair)
  let ?m = "word_of_int (tm_mon t + 1) :: 32 word" and ?d = "word_of_int (tm_mday t) :: 32 word"
  have same: "?d = ?m \<Longrightarrow> pad_zeros 2 (tm_mday t) = pad_zeros 2 (tm_mon t + 1)"
    using ints(2) [of no_env 2] ints(3) [of no_env 2] by (metis sum.inject(2))
  show ?thesis
    unfolding daily_calc_filename_def s prod.case Let_def
    by (subst daily_format_prints [where ys = "pad_zeros 4 (tm_year t + 1900)" and ms = "pad_zeros 2 (tm_mon t + 1)" and
          ds = "pad_zeros 2 (tm_mday t)"])
      (use ints same in \<open>auto simp: daily_name_def s simp del: visit_arg.simps(2) of_int_add\<close>)
qed

text \<open>Different days have different files.\<close>

lemma digits_value_zeros: "digits_value 0 (replicate k (CHR ''0'') @ s) = digits_value 0 s"
  by (induction k) (simp_all add: digit_val_def)

lemma pad_zeros_inject:
  assumes "0 \<le> m" "0 \<le> n" and "pad_zeros w m = pad_zeros w n"
  shows "m = n"
proof -
  have "digits_value 0 (pad_zeros w i) = nat i" if "0 \<le> i" for i
    using that nat_of_digits_show_nat [of "nat i"] digits_value_zeros [of "w - length (show_nat (nat i))" "show_nat (nat i)"]
    by (simp add: pad_zeros_def Let_def digits_value_def nat_of_digits_def)
  with assms show ?thesis by (metis eq_nat_nat_iff)
qed

lemma length_pad_zeros_two: "0 \<le> n \<Longrightarrow> n < 100 \<Longrightarrow> length (pad_zeros 2 n) = 2"
  using length_show_nat_le [of "nat n" 2] by (simp add: pad_zeros_def Let_def nat_less_iff)

lemma daily_name_inject:
  assumes "tm_ok t" "tm_ok t'" "- 1900 \<le> tm_year t" "- 1900 \<le> tm_year t'" and "daily_name base t = daily_name base t'"
  shows "tm_year t = tm_year t' \<and> tm_mon t = tm_mon t' \<and> tm_mday t = tm_mday t'"
proof -
  have r: "0 \<le> tm_mon x + 1" "tm_mon x + 1 < 100" "0 \<le> tm_mday x" "tm_mday x < 100" if "tm_ok x" for x
    using that by (simp_all add: tm_ok_def)
  note len = length_pad_zeros_two
  from assms(5) have e: "(pad_zeros 4 (tm_year t + 1900) @ ''-'') @ (pad_zeros 2 (tm_mon t + 1) @ ''-'') @ pad_zeros 2 (tm_mday t) =
      (pad_zeros 4 (tm_year t' + 1900) @ ''-'') @ (pad_zeros 2 (tm_mon t' + 1) @ ''-'') @ pad_zeros 2 (tm_mday t')"
    by (simp add: daily_name_def)
  then have "pad_zeros 4 (tm_year t + 1900) = pad_zeros 4 (tm_year t' + 1900)"
    "pad_zeros 2 (tm_mon t + 1) = pad_zeros 2 (tm_mon t' + 1)" "pad_zeros 2 (tm_mday t) = pad_zeros 2 (tm_mday t')"
    using r [OF assms(1)] r [OF assms(2)] by (auto simp: append_eq_append_conv len)
  then have "tm_year t + 1900 = tm_year t' + 1900" "tm_mon t + 1 = tm_mon t' + 1" "tm_mday t = tm_mday t'"
    using r [OF assms(1)] r [OF assms(2)] assms(3,4) pad_zeros_inject [of "tm_year t + 1900" "tm_year t' + 1900" 4]
      pad_zeros_inject [of "tm_mon t + 1" "tm_mon t' + 1" 2] pad_zeros_inject [of "tm_mday t" "tm_mday t'" 2] by auto
  then show ?thesis by simp
qed

section \<open>Changing files\<close>

definition content :: "disk \<Rightarrow> string \<Rightarrow> string" where
  "content d n = (case files d n of None \<Rightarrow> [] | Some s \<Rightarrow> s)"

definition helper_open :: "file_helper \<times> disk \<Rightarrow> bool" where
  "helper_open = (\<lambda>(h, d). fd h \<and> files d (fh_filename h) \<noteq> None)"

lemma fh_open_content:
  assumes "creatable d name"
  shows "\<exists>d'. fh_open name trunc (h, d) = (Inr (), (h\<lparr>fd := True, fh_filename := name\<rparr>, d')) \<and>
    content d' = (if trunc then (content d)(name := []) else content d) \<and> files d' name \<noteq> None \<and> same_limits d d'"
proof (cases "\<not> trunc \<and> files d name \<noteq> None")
  case True
  then show ?thesis
    by (auto simp: fh_open_def open_tries_def eval_nat_numeral fopen_def fh_close_def same_limits_def)
next
  case False
  then have "fopen name trunc d = Some (d\<lparr>files := (files d)(name \<mapsto> [])\<rparr>)"
    using assms by (auto simp: fopen_def split: option.split)
  moreover have "content (d\<lparr>files := (files d)(name \<mapsto> [])\<rparr>) = (if trunc then (content d)(name := []) else content d)"
    using False by (auto simp: content_def)
  ultimately show ?thesis
    by (auto simp: fh_open_def open_tries_def eval_nat_numeral fh_close_def same_limits_def)
qed

lemma write_or_throw_content:
  assumes "helper_open (h, d)" and "length (content d (fh_filename h)) + length text \<le> quota d"
  shows "\<exists>d'. write_or_throw text (h, d) = (Inr (), (h, d')) \<and> helper_open (h, d') \<and> same_limits d d' \<and>
    content d' = (content d)(fh_filename h := content d (fh_filename h) @ text)"
  using assms by (auto simp: helper_open_def write_or_throw_def fh_write_def content_def same_limits_def split: option.splits)

lemma daily_open_content:
  assumes "os_ok (daily_log_os os)" and "\<forall>n. creatable d n"
  shows "\<exists>h d'. daily_open os tp (s, d, c) =
      (Inr (), (s\<lparr>daily_helper := h, rotation_tp := fst (next_rotation_tp os s c)\<rparr>, d', snd (clock_now c))) \<and>
    helper_open (h, d') \<and> fh_filename h = daily_name (daily_base s) (daily_now_tm os tp) \<and>
    content d' = (if daily_truncate s then (content d)(fh_filename h := []) else content d) \<and> same_limits d d'"
proof -
  let ?name = "daily_name (daily_base s) (daily_now_tm os tp)"
  have n: "daily_calc_filename (daily_base s) (daily_now_tm os tp) = Inr ?name"
    using assms(1) by (intro daily_calc_filename_name) (simp add: os_ok_def daily_now_tm_def)
  obtain d' where o: "fh_open ?name (daily_truncate s) (daily_helper s, d) =
      (Inr (), ((daily_helper s)\<lparr>fd := True, fh_filename := ?name\<rparr>, d'))"
    "content d' = (if daily_truncate s then (content d)(?name := []) else content d)" "files d' ?name \<noteq> None" "same_limits d d'"
    using fh_open_content [of d ?name "daily_truncate s" "daily_helper s"] assms(2) by blast
  have r: "next_rotation_tp os (s\<lparr>daily_helper := h\<rparr>) c = (fst (next_rotation_tp os s c), snd (clock_now c))" for h
    by (simp add: next_rotation_tp_def Let_def case_prod_beta)
  have "daily_open os tp (s, d, c) = (Inr (), (s\<lparr>daily_helper := (daily_helper s)\<lparr>fd := True, fh_filename := ?name\<rparr>,
      rotation_tp := fst (next_rotation_tp os s c)\<rparr>, d', snd (clock_now c)))"
    by (simp add: daily_open_def n o(1) Let_def r)
  with o(2-4) show ?thesis
    by (intro exI [of _ "(daily_helper s)\<lparr>fd := True, fh_filename := ?name\<rparr>"] exI [of _ d']) (simp add: helper_open_def)
qed

text \<open>The first time of day \<open>hour:minute\<close> after \<open>now\<close>, a day having 24 hours.\<close>

definition change_after :: "daily_os \<Rightarrow> int \<Rightarrow> int \<Rightarrow> 64 word \<Rightarrow> 64 word" where
  "change_after os hour minute now =
     (let t = from_time_t (os_mktime os ((daily_now_tm os now)\<lparr>tm_hour := hour, tm_min := minute, tm_sec := 0\<rparr>))
      in if sint now < sint t then t else t + one_day)"

lemma next_rotation_change: "next_rotation_tp os s c = (change_after os (rotation_h s) (rotation_m s) (c 0), \<lambda>i. c (Suc i))"
  by (simp add: next_rotation_tp_def change_after_def clock_now_def Let_def)

text \<open>The files that the messages go to, one after the other: \<open>cur\<close> is the file in use, \<open>next\<close> the time from
  which on a message changes it for the file of its own day. The next change is reckoned from the clock.\<close>

fun day_files :: "daily_os \<Rightarrow> string \<Rightarrow> int \<Rightarrow> int \<Rightarrow> log_msg list \<Rightarrow> string \<Rightarrow> 64 word \<Rightarrow> log_clock \<Rightarrow> string list" where
  "day_files os base hour minute [] cur next c = []"
| "day_files os base hour minute (m # ms) cur next c =
     (if sint next \<le> sint (msg_time m) then
        (let cur = daily_name base (daily_now_tm os (msg_time m))
         in cur # day_files os base hour minute ms cur (change_after os hour minute (c 0)) (\<lambda>i. c (Suc i)))
      else cur # day_files os base hour minute ms cur next c)"

text \<open>The file that takes a message, and the sink after it.\<close>

definition daily_target :: "daily_os \<Rightarrow> daily_file_sink \<Rightarrow> log_msg \<Rightarrow> string" where
  "daily_target os s m =
     (if sint (rotation_tp s) \<le> sint (msg_time m) then daily_name (daily_base s) (daily_now_tm os (msg_time m))
      else fh_filename (daily_helper s))"

lemma daily_sink_it_content:
  assumes os: "os_ok (daily_log_os os)" and all: "\<forall>n. creatable d n"
    and f: "in_use (daily_log_os os) pat tt end_of_line f" and t: "secs_of (msg_time m) \<noteq> 0"
    and h: "helper_open (daily_helper s, d)"
    and room: "\<forall>n. length (content d n) + length (pattern_text (daily_log_os os) pat tt end_of_line m) \<le> quota d"
  shows "\<exists>m' f' s' d' c'. daily_sink_it os m (f, (s, d, c)) = (Inr m', (f', (s', d', c'))) \<and>
    in_use (daily_log_os os) pat tt end_of_line f' \<and> helper_open (daily_helper s', d') \<and>
    daily_base s' = daily_base s \<and> daily_truncate s' = daily_truncate s \<and> fh_filename (daily_helper s') = daily_target os s m \<and>
    content d' = (content d)(daily_target os s m :=
      (if daily_truncate s \<and> sint (rotation_tp s) \<le> sint (msg_time m) then [] else content d (daily_target os s m)) @
        pattern_text (daily_log_os os) pat tt end_of_line m) \<and> same_limits d d' \<and>
    (if sint (rotation_tp s) \<le> sint (msg_time m)
     then rotation_tp s' = change_after os (rotation_h s) (rotation_m s) (c 0) \<and> c' = (\<lambda>i. c (Suc i))
     else rotation_tp s' = rotation_tp s \<and> c' = c) \<and>
    rotation_h s' = rotation_h s \<and> rotation_m s' = rotation_m s"
proof -
  let ?text = "pattern_text (daily_log_os os) pat tt end_of_line m"
  let ?rot = "sint (rotation_tp s) \<le> sint (msg_time m)"
  have "tm_ok (time_source (daily_log_os os) tt (secs_of (msg_time m)))"
    using os by (simp add: os_ok_def time_source_def split: pattern_time_type.split)
  from pattern_format_in_use [OF f t this, of "[]"] obtain f' m' where
    p: "pattern_format (daily_log_os os) m [] f = Inr (f', m', ?text)" "in_use (daily_log_os os) pat tt end_of_line f'" by auto
  have "\<exists>s1 d1 c1. daily_rotate os m (s, d, c) = (Inr (), (s1, d1, c1)) \<and> helper_open (daily_helper s1, d1) \<and>
      fh_filename (daily_helper s1) = daily_target os s m \<and> daily_base s1 = daily_base s \<and> daily_truncate s1 = daily_truncate s \<and>
      content d1 = (if daily_truncate s \<and> ?rot then (content d)(daily_target os s m := []) else content d) \<and> same_limits d d1 \<and>
      (if ?rot then rotation_tp s1 = change_after os (rotation_h s) (rotation_m s) (c 0) \<and> c1 = (\<lambda>i. c (Suc i))
       else rotation_tp s1 = rotation_tp s \<and> c1 = c) \<and> rotation_h s1 = rotation_h s \<and> rotation_m s1 = rotation_m s"
  proof (cases ?rot)
    case True
    with daily_open_content [OF os all, of "msg_time m" s c] show ?thesis
      by (auto simp: daily_rotate_def daily_target_def next_rotation_change clock_now_def)
  next
    case False
    with h show ?thesis by (auto simp: daily_rotate_def daily_target_def same_limits_def)
  qed
  then obtain s1 d1 c1 where r: "daily_rotate os m (s, d, c) = (Inr (), (s1, d1, c1))" "helper_open (daily_helper s1, d1)"
    "fh_filename (daily_helper s1) = daily_target os s m" "daily_base s1 = daily_base s" "daily_truncate s1 = daily_truncate s"
    "content d1 = (if daily_truncate s \<and> ?rot then (content d)(daily_target os s m := []) else content d)" "same_limits d d1"
    "if ?rot then rotation_tp s1 = change_after os (rotation_h s) (rotation_m s) (c 0) \<and> c1 = (\<lambda>i. c (Suc i))
     else rotation_tp s1 = rotation_tp s \<and> c1 = c" "rotation_h s1 = rotation_h s" "rotation_m s1 = rotation_m s" by blast
  have "length (content d1 (fh_filename (daily_helper s1))) + length ?text \<le> quota d1"
    using room [rule_format, of "fh_filename (daily_helper s1)"] r(6,7) by (auto simp: same_limits_def)
  from write_or_throw_content [OF r(2) this] obtain d2 where
    w: "write_or_throw ?text (daily_helper s1, d1) = (Inr (), (daily_helper s1, d2))" "helper_open (daily_helper s1, d2)"
      "same_limits d1 d2" "content d2 = (content d1)(fh_filename (daily_helper s1) := content d1 (fh_filename (daily_helper s1)) @ ?text)"
    by blast
  have "daily_sink_it os m (f, (s, d, c)) = (Inr m', (f', (s1, d2, c1)))"
    by (simp add: daily_sink_it_def r(1) p(1) w(1))
  moreover have "same_limits d d2" using r(7) w(3) by (simp add: same_limits_def)
  moreover have "content d2 = (content d)(daily_target os s m :=
      (if daily_truncate s \<and> ?rot then [] else content d (daily_target os s m)) @ ?text)"
    using r(3,6) w(4) by auto
  moreover have "helper_open (daily_helper (s1\<lparr>daily_helper := daily_helper s1\<rparr>), d2)" using w(2) by simp
  ultimately show ?thesis using p(2) r(3,4,5,8,9,10) w(2) by (intro exI [of _ m'] exI [of _ f'] exI [of _ s1] exI [of _ d2] exI [of _ c1]) simp
qed

text \<open>Many messages: \<open>ks\<close> are the files they go to.\<close>

definition lines_for :: "string \<Rightarrow> string list \<Rightarrow> string list \<Rightarrow> string" where
  "lines_for n ks texts = concat (map snd (filter (\<lambda>(k, t). k = n) (zip ks texts)))"

lemma lines_for_simps [simp]:
  "lines_for n [] [] = []" "lines_for n (k # ks) (t # ts) = (if k = n then t @ lines_for n ks ts else lines_for n ks ts)"
  by (simp_all add: lines_for_def)

lemma daily_log_all_content:
  assumes "os_ok (daily_log_os os)" and "\<forall>n. creatable d n"
    and "in_use (daily_log_os os) pat tt end_of_line f" and "\<forall>m \<in> set ms. secs_of (msg_time m) \<noteq> 0"
    and "helper_open (daily_helper s, d)" and "\<not> daily_truncate s"
    and "\<forall>n. length (content d n) + length (concat (map (pattern_text (daily_log_os os) pat tt end_of_line) ms)) \<le> quota d"
  shows "\<exists>f' s' d' c'. daily_log_all os ms (f, (s, d, c)) = (Inr (), (f', (s', d', c'))) \<and>
    (\<forall>n. content d' n = content d n @
      lines_for n (day_files os (daily_base s) (rotation_h s) (rotation_m s) ms (fh_filename (daily_helper s)) (rotation_tp s) c)
        (map (pattern_text (daily_log_os os) pat tt end_of_line) ms))"
  using assms(2-)
proof (induction ms arbitrary: f s d c)
  case Nil
  show ?case by (intro exI [of _ f] exI [of _ s] exI [of _ d] exI [of _ c]) simp
next
  case (Cons m ms)
  let ?text = "pattern_text (daily_log_os os) pat tt end_of_line"
  let ?k = "daily_target os s m"
  have room: "length (content d n) + length (?text m) \<le> quota d" for n using Cons.prems(6) [rule_format, of n] by simp
  have "secs_of (msg_time m) \<noteq> 0" using Cons.prems(3) by simp
  from daily_sink_it_content [OF assms(1) Cons.prems(1,2) this Cons.prems(4) allI [OF room], of c] Cons.prems(5) obtain m' f1 s1 d1 c1 where
    s: "daily_sink_it os m (f, (s, d, c)) = (Inr m', (f1, (s1, d1, c1)))" "in_use (daily_log_os os) pat tt end_of_line f1"
      "helper_open (daily_helper s1, d1)" "daily_base s1 = daily_base s" "\<not> daily_truncate s1" "fh_filename (daily_helper s1) = ?k"
      "content d1 = (content d)(?k := content d ?k @ ?text m)" "same_limits d d1"
      "if sint (rotation_tp s) \<le> sint (msg_time m)
       then rotation_tp s1 = change_after os (rotation_h s) (rotation_m s) (c 0) \<and> c1 = (\<lambda>i. c (Suc i))
       else rotation_tp s1 = rotation_tp s \<and> c1 = c" "rotation_h s1 = rotation_h s" "rotation_m s1 = rotation_m s" by auto
  have c1: "\<forall>n. creatable d1 n" using Cons.prems(1) s(8) by (simp add: same_limits_def)
  have "\<forall>n. length (content d1 n) + length (concat (map ?text ms)) \<le> quota d1"
  proof
    fix n
    show "length (content d1 n) + length (concat (map ?text ms)) \<le> quota d1"
      using Cons.prems(6) [rule_format, of n] Cons.prems(6) [rule_format, of ?k] s(8) by (simp add: s(7) same_limits_def)
  qed
  let ?ks = "day_files os (daily_base s1) (rotation_h s1) (rotation_m s1) ms (fh_filename (daily_helper s1)) (rotation_tp s1) c1"
  from Cons.IH [OF c1 s(2) _ s(3,5) \<open>\<forall>n. length (content d1 n) + length (concat (map ?text ms)) \<le> quota d1\<close>, of c1] Cons.prems(3)
  obtain f' s' d' c' where
    r: "daily_log_all os ms (f1, (s1, d1, c1)) = (Inr (), (f', (s', d', c')))"
      "\<forall>n. content d' n = content d1 n @ lines_for n ?ks (map ?text ms)"
    by auto
  have ks: "day_files os (daily_base s) (rotation_h s) (rotation_m s) (m # ms) (fh_filename (daily_helper s)) (rotation_tp s) c = ?k # ?ks"
    using s(9) by (auto simp: s(4,6,10,11) daily_target_def Let_def)
  have "\<forall>n. content d' n = content d n @ lines_for n (?k # ?ks) (map ?text (m # ms))"
    using r(2) by (simp add: s(7))
  then show ?case unfolding ks using s(1) r(1)
    by (intro exI [of _ f'] exI [of _ s'] exI [of _ d'] exI [of _ c']) simp
qed

lemma daily_new_content:
  assumes "daily_file_sink_new os base hour minute trunc (d, c) = (Inr (), (s, d1, c1))"
    and "os_ok (daily_log_os os)" and "\<forall>n. creatable d n"
  shows "helper_open (daily_helper s, d1)" and "daily_base s = base" and "daily_truncate s = trunc" and "same_limits d d1"
    and "fh_filename (daily_helper s) = daily_name base (daily_now_tm os (c 0))"
    and "content d1 = (if trunc then (content d)(fh_filename (daily_helper s) := []) else content d)"
    and "rotation_tp s = change_after os hour minute (c 1)" and "rotation_h s = hour" and "rotation_m s = minute"
    and "c1 = (\<lambda>i. c (i + 2))"
proof -
  let ?s = "\<lparr>daily_base = base, rotation_h = hour, rotation_m = minute, rotation_tp = 0, daily_helper = file_helper_default,
    daily_truncate = trunc\<rparr>"
  have o: "daily_open os (c 0) (?s, d, \<lambda>i. c (Suc i)) = (Inr (), (s, d1, c1))"
    using assms(1) by (auto simp: daily_file_sink_new_def clock_now_def Let_def split: if_splits)
  from daily_open_content [OF assms(2,3), of "c 0" ?s "\<lambda>i. c (Suc i)"] obtain h where
    h: "s = ?s\<lparr>daily_helper := h, rotation_tp := fst (next_rotation_tp os ?s (\<lambda>i. c (Suc i)))\<rparr>" "helper_open (h, d1)"
      "fh_filename h = daily_name base (daily_now_tm os (c 0))"
      "content d1 = (if trunc then (content d)(fh_filename h := []) else content d)" "same_limits d d1"
      "c1 = snd (clock_now (\<lambda>i. c (Suc i)))"
    unfolding o by auto
  then show "helper_open (daily_helper s, d1)" "daily_base s = base" "daily_truncate s = trunc" "same_limits d d1"
    "fh_filename (daily_helper s) = daily_name base (daily_now_tm os (c 0))"
    "content d1 = (if trunc then (content d)(fh_filename (daily_helper s) := []) else content d)"
    "rotation_tp s = change_after os hour minute (c 1)" "rotation_h s = hour" "rotation_m s = minute" "c1 = (\<lambda>i. c (i + 2))"
    by (simp_all add: next_rotation_change clock_now_def)
qed

section \<open>A sink to try\<close>

text \<open>A day, as its seconds: the first day of the epoch shown as a day of 2019.\<close>

definition demo_day_tm :: "int \<Rightarrow> log_tm" where
  "demo_day_tm s = \<lparr>tm_year = 119, tm_mon = 3, tm_mday = 12, tm_hour = s div 3600 mod 24, tm_min = s div 60 mod 60,
     tm_sec = s mod 60, tm_wday = 5, tm_gmtoff = 28800\<rparr>"

definition demo_daily_os :: daily_os where
  "demo_daily_os =
     \<lparr>daily_log_os = \<lparr>os_localtime = demo_day_tm, os_gmtime = demo_day_tm, os_pid = 7\<rparr>,
      os_mktime = (\<lambda>t. 3600 * tm_hour t + 60 * tm_min t + tm_sec t)\<rparr>"

definition demo_daily_sink :: "bool \<Rightarrow> unit res \<times> daily_state" where
  "demo_daily_sink trunc = daily_file_sink_new demo_daily_os ''log.txt'' 2 30 trunc (demo_disk, \<lambda>i. 3600000000000)"

lemma demo_daily_os_ok: "os_ok (daily_log_os demo_daily_os)"
proof -
  have "tm_ok (demo_day_tm s)" for s
  proof -
    have "0 \<le> s mod 60" "s mod 60 < 60" "0 \<le> s div 60 mod 60" "s div 60 mod 60 < 60" "0 \<le> s div 3600 mod 24" "s div 3600 mod 24 < 24" by simp_all
    then have "s mod 60 \<le> 60" "s div 60 mod 60 \<le> 59" "s div 3600 mod 24 \<le> 23" by linarith+
    then show ?thesis by (simp add: tm_ok_def demo_day_tm_def)
  qed
  then show ?thesis by (simp add: os_ok_def demo_daily_os_def)
qed

lemma demo_daily_name: "daily_name ''log.txt'' (daily_now_tm demo_daily_os t) = ''log_2019-04-12.txt''"
  by (simp add: daily_name_def split_by_extension_def daily_now_tm_def demo_daily_os_def demo_day_tm_def pad_zeros_def Let_def
      show_nat.simps digit_chars)

lemma demo_daily_rotation: "fst (next_rotation_tp demo_daily_os s (\<lambda>i. 3600000000000)) =
   from_time_t (3600 * rotation_h s + 60 * rotation_m s) \<or> sint (from_time_t (3600 * rotation_h s + 60 * rotation_m s)) \<le> 3600000000000"
  by (simp add: next_rotation_tp_def clock_now_def Let_def demo_daily_os_def)

lemma demo_daily_made:
  "\<exists>s d c. demo_daily_sink trunc = (Inr (), (s, d, c)) \<and> rotation_tp s = 9000000000000"
proof -
  let ?s = "\<lparr>daily_base = ''log.txt'', rotation_h = 2, rotation_m = 30, rotation_tp = 0, daily_helper = file_helper_default,
    daily_truncate = trunc\<rparr>"
  have c: "\<forall>n. creatable demo_disk n" by (simp add: demo_disk_def)
  obtain h d' where h: "daily_open demo_daily_os 3600000000000 (?s, demo_disk, \<lambda>i. 3600000000000) =
      (Inr (), (?s\<lparr>daily_helper := h, rotation_tp := fst (next_rotation_tp demo_daily_os ?s (\<lambda>i. 3600000000000))\<rparr>, d',
        snd (clock_now (\<lambda>i. 3600000000000))))"
    using daily_open_content [OF demo_daily_os_ok c, of 3600000000000 ?s "\<lambda>i. 3600000000000"] by blast
  have "fst (next_rotation_tp demo_daily_os ?s (\<lambda>i. 3600000000000)) = 9000000000000"
    using demo_daily_rotation [of ?s] by (simp add: from_time_t_def)
  with h show ?thesis by (simp add: demo_daily_sink_def daily_file_sink_new_def clock_now_def)
qed

lemma demo_texts:
  "pattern_text os ''%v'' local_time [] (demo_msg t s) = s"
proof -
  have c: "compile_pattern ''%v'' = [v_formatter no_padding]"
    using compile_items [of "[Flag pad_left 0 (CHR ''v'')]"]
    by (simp add: side_text_def width_text_def is_digit_def compile_pattern_def handle_flag_def flag_table_def no_padding_def)
  show ?thesis
    by (simp add: pattern_text_def c flag_text_simps demo_msg_def log_msg_new_def pad_around_def no_padding_def)
qed

lemma demo_secs: "secs_of (msg_time (demo_msg 5000000000000 s)) = 5000" "secs_of (msg_time (demo_msg 10000000000000 s)) = 10000"
  "secs_of (msg_time (demo_msg 90000000000000 s)) = 90000"
  by (simp_all add: demo_msg_def log_msg_new_def secs_of_def signed_divide_int_def)

text \<open>Two days, the second after 86400 seconds.\<close>

definition demo_two_days_os :: daily_os where
  "demo_two_days_os = (let tm = (\<lambda>s. (demo_day_tm s)\<lparr>tm_mday := (if s < 86400 then 12 else 13)\<rparr>) in
     \<lparr>daily_log_os = \<lparr>os_localtime = tm, os_gmtime = tm, os_pid = 7\<rparr>,
      os_mktime = (\<lambda>t. 86400 * (tm_mday t - 12) + 3600 * tm_hour t + 60 * tm_min t + tm_sec t)\<rparr>)"

lemma demo_two_days_os_ok: "os_ok (daily_log_os demo_two_days_os)"
  using demo_daily_os_ok by (simp add: os_ok_def demo_daily_os_def demo_two_days_os_def tm_ok_def Let_def)

lemma demo_two_days_name:
  "daily_name ''log.txt'' (daily_now_tm demo_two_days_os 3600000000000) = ''log_2019-04-12.txt''"
  "daily_name ''log.txt'' (daily_now_tm demo_two_days_os 90000000000000) = ''log_2019-04-13.txt''"
  by (simp_all add: daily_name_def split_by_extension_def daily_now_tm_def demo_two_days_os_def demo_day_tm_def pad_zeros_def Let_def
      show_nat.simps digit_chars secs_of_def signed_divide_int_def)

lemma demo_two_days_change: "change_after demo_two_days_os 2 30 3600000000000 = 9000000000000"
  by (simp add: change_after_def demo_two_days_os_def demo_day_tm_def daily_now_tm_def from_time_t_def secs_of_def signed_divide_int_def Let_def)

lemma daily_file_sink_made:
  assumes "os_ok (daily_log_os os)" and "\<forall>n. creatable d n" and "0 \<le> hour \<and> hour \<le> 23 \<and> 0 \<le> minute \<and> minute \<le> 59"
  shows "\<exists>s d1 c1. daily_file_sink_new os base hour minute trunc (d, c) = (Inr (), (s, d1, c1))"
  using assms(3) daily_open_content [OF assms(1,2)]
  by (fastforce simp: daily_file_sink_new_def clock_now_def Let_def)

lemma demo_msg_time: "msg_time (demo_msg t s) = t"
  by (simp add: demo_msg_def log_msg_new_def)

section \<open>Properties\<close>

text \<open>
  C33. A daily sink that does not truncate puts every line where it belongs and loses none: as long as
  files can be created and the disk has room, every message is appended, whole and in order, to the file
  in use, which is that of the day on which the sink was made until a message comes whose time has
  reached the time of change; then it is the file of that message's day, and the next change is the
  first rotation time after the clock. (The name has an underscore before the date, where the comment
  of the source has a dot.)
\<close>

theorem daily_files_keep_lines:
  assumes "daily_file_sink_new os base hour minute False (d, c) = (Inr (), (s, d1, c1))"
    and "os_ok (daily_log_os os)" and "\<forall>n. creatable d n" and "\<forall>m \<in> set ms. secs_of (msg_time m) \<noteq> 0"
    and "\<forall>n. length (content d n) + length (concat (map (pattern_text (daily_log_os os) pat tt end_of_line) ms)) \<le> quota d"
  shows "\<exists>f' s' d' c'.
    daily_log_all os ms (pattern_formatter_new pat tt end_of_line, (s, d1, c1)) = (Inr (), (f', (s', d', c'))) \<and>
    (\<forall>n. content d' n = content d n @
      lines_for n (day_files os base hour minute ms (daily_name base (daily_now_tm os (c 0))) (change_after os hour minute (c 1)) (\<lambda>i. c (i + 2)))
        (map (pattern_text (daily_log_os os) pat tt end_of_line) ms))"
proof -
  note n = daily_new_content [OF assms(1-3)]
  from assms(3,5) n have "\<forall>n. creatable d1 n"
    "\<forall>n. length (content d1 n) + length (concat (map (pattern_text (daily_log_os os) pat tt end_of_line) ms)) \<le> quota d1"
    by (simp_all add: same_limits_def)
  from daily_log_all_content [OF assms(2) this(1) new_formatter_in_use assms(4) n(1) _ this(2), of c1]
  show ?thesis unfolding n(10) [symmetric] by (simp add: n(2,3,5-9))
qed

theorem daily_files_keep_lines_witness:
  "\<exists>s d1 c1 f' s' d' c'.
     daily_file_sink_new demo_two_days_os ''log.txt'' 2 30 False (demo_disk, \<lambda>i. 3600000000000) = (Inr (), (s, d1, c1)) \<and>
     daily_log_all demo_two_days_os [demo_msg 5000000000000 ''a'', demo_msg 90000000000000 ''b'']
       (pattern_formatter_new ''%v'' local_time [], (s, d1, c1)) = (Inr (), (f', (s', d', c'))) \<and>
     content d' ''log_2019-04-12.txt'' = ''a'' \<and> content d' ''log_2019-04-13.txt'' = ''b''"
proof -
  let ?ms = "[demo_msg 5000000000000 ''a'', demo_msg 90000000000000 ''b'']"
  let ?text = "pattern_text (daily_log_os demo_two_days_os) ''%v'' local_time []"
  have c: "\<forall>n. creatable demo_disk n" by (simp add: demo_disk_def)
  obtain s d1 c1 where s: "daily_file_sink_new demo_two_days_os ''log.txt'' 2 30 False (demo_disk, \<lambda>i. 3600000000000) = (Inr (), (s, d1, c1))"
    using daily_file_sink_made [OF demo_two_days_os_ok c, of 2 30 "''log.txt''" False "\<lambda>i. 3600000000000"] by auto
  have room: "\<forall>n. length (content demo_disk n) + length (concat (map ?text ?ms)) \<le> quota demo_disk"
    by (simp add: demo_texts content_def demo_disk_def)
  have "\<forall>m \<in> set ?ms. secs_of (msg_time m) \<noteq> 0" by (simp add: demo_secs)
  from daily_files_keep_lines [OF s demo_two_days_os_ok c this room] obtain f' s' d' c' where
    r: "daily_log_all demo_two_days_os ?ms (pattern_formatter_new ''%v'' local_time [], (s, d1, c1)) = (Inr (), (f', (s', d', c')))"
      "\<forall>n. content d' n = content demo_disk n @
        lines_for n (day_files demo_two_days_os ''log.txt'' 2 30 ?ms (daily_name ''log.txt'' (daily_now_tm demo_two_days_os 3600000000000))
          (change_after demo_two_days_os 2 30 3600000000000) (\<lambda>i. 3600000000000)) (map ?text ?ms)"
    by auto
  have "lines_for n (day_files demo_two_days_os ''log.txt'' 2 30 ?ms (daily_name ''log.txt'' (daily_now_tm demo_two_days_os 3600000000000))
      (change_after demo_two_days_os 2 30 3600000000000) (\<lambda>i. 3600000000000)) (map ?text ?ms) =
    lines_for n [''log_2019-04-12.txt'', ''log_2019-04-13.txt''] [''a'', ''b'']" for n
    unfolding demo_two_days_change by (simp add: demo_two_days_name demo_texts demo_msg_time Let_def)
  with r(2) have "content d' ''log_2019-04-12.txt'' = ''a'' \<and> content d' ''log_2019-04-13.txt'' = ''b''"
    by (simp add: content_def demo_disk_def)
  with s r(1) show ?thesis by blast
qed

text \<open>
  C38. A daily sink that truncates and does not change files at midnight loses what it wrote before the
  time of change on the day it was made: that message opens the same file again, empties it, and only its
  own line is left.
\<close>

theorem daily_truncate_loses_lines:
  assumes "daily_file_sink_new os base hour minute True (d, c) = (Inr (), (s, d1, c1))"
    and "os_ok (daily_log_os os)" and "\<forall>n. creatable d n" and "secs_of (msg_time m) \<noteq> 0" and "secs_of (msg_time m') \<noteq> 0"
    and "\<forall>n. length (content d n) + length (concat (map (pattern_text (daily_log_os os) pat tt end_of_line) [m, m'])) \<le> quota d"
    and "sint (msg_time m) < sint (rotation_tp s)" and "sint (rotation_tp s) \<le> sint (msg_time m')"
    and "daily_name base (daily_now_tm os (msg_time m')) = daily_name base (daily_now_tm os (c 0))"
  shows "\<exists>f' s' d' c'. daily_log_all os [m, m'] (pattern_formatter_new pat tt end_of_line, (s, d1, c1)) = (Inr (), (f', (s', d', c'))) \<and>
    content d' (daily_name base (daily_now_tm os (c 0))) = pattern_text (daily_log_os os) pat tt end_of_line m'"
proof -
  let ?text = "pattern_text (daily_log_os os) pat tt end_of_line"
  note n = daily_new_content [OF assms(1-3)]
  have c1: "\<forall>n. creatable d1 n" using assms(3) n(4) by (simp add: same_limits_def)
  let ?k = "daily_name base (daily_now_tm os (c 0))"
  have room: "length (content d1 n) + length (?text m) + length (?text m') \<le> quota d1" for n
    using assms(6) [rule_format, of n] n(4,6) by (simp add: same_limits_def)
  then have "\<forall>n. length (content d1 n) + length (?text m) \<le> quota d1" by (meson add_leD1)
  from daily_sink_it_content [OF assms(2) c1 new_formatter_in_use assms(4) n(1) this, of c1] assms(7)
  obtain m1 f1 s1 d2 c2 where
    s: "daily_sink_it os m (pattern_formatter_new pat tt end_of_line, (s, d1, c1)) = (Inr m1, (f1, (s1, d2, c2)))"
      "in_use (daily_log_os os) pat tt end_of_line f1" "helper_open (daily_helper s1, d2)" "same_limits d1 d2"
      "daily_base s1 = base" "daily_truncate s1" "rotation_tp s1 = rotation_tp s"
      "content d2 = (content d1)(?k := content d1 ?k @ ?text m)"
    by (auto simp: n(2,3,5) daily_target_def)
  have c2: "\<forall>n. creatable d2 n" using c1 s(4) by (simp add: same_limits_def)
  have "\<forall>n. length (content d2 n) + length (?text m') \<le> quota d2"
  proof
    fix n
    show "length (content d2 n) + length (?text m') \<le> quota d2"
      using room [of n] room [of ?k] s(4) by (simp add: s(8) same_limits_def)
  qed
  from daily_sink_it_content [OF assms(2) c2 s(2) assms(5) s(3) this, of c2] assms(8)
  obtain m2 f2 s2 d3 c3 where
    "daily_sink_it os m' (f1, (s1, d2, c2)) = (Inr m2, (f2, (s2, d3, c3)))" "content d3 = (content d2)(?k := ?text m')"
    by (auto simp: s(5-7) daily_target_def assms(9))
  with s(1) show ?thesis by auto
qed

theorem daily_truncate_loses_lines_witness:
  "\<exists>s d1 c1 f' s' d' c'. demo_daily_sink True = (Inr (), (s, d1, c1)) \<and>
     daily_log_all demo_daily_os [demo_msg 5000000000000 ''a'', demo_msg 10000000000000 ''b'']
       (pattern_formatter_new ''%v'' local_time [], (s, d1, c1)) = (Inr (), (f', (s', d', c'))) \<and>
     content d' ''log_2019-04-12.txt'' = ''b''"
proof -
  let ?m = "demo_msg 5000000000000 ''a''" and ?m' = "demo_msg 10000000000000 ''b''"
  let ?text = "pattern_text (daily_log_os demo_daily_os) ''%v'' local_time []"
  obtain s d1 c1 where s: "demo_daily_sink True = (Inr (), (s, d1, c1))" "rotation_tp s = 9000000000000"
    using demo_daily_made [of True] by blast
  have room: "\<forall>n. length (content demo_disk n) + length (concat (map ?text [?m, ?m'])) \<le> quota demo_disk"
    by (simp add: demo_texts content_def demo_disk_def)
  have "\<forall>n. creatable demo_disk n" "secs_of (msg_time ?m) \<noteq> 0" "secs_of (msg_time ?m') \<noteq> 0"
    by (simp_all add: demo_disk_def demo_secs)
  moreover have "sint (msg_time ?m) < sint (rotation_tp s)" "sint (rotation_tp s) \<le> sint (msg_time ?m')"
    by (simp_all add: s(2) demo_msg_def log_msg_new_def)
  ultimately have "\<exists>f' s' d' c'. daily_log_all demo_daily_os [?m, ?m'] (pattern_formatter_new ''%v'' local_time [], (s, d1, c1)) =
      (Inr (), (f', (s', d', c'))) \<and> content d' ''log_2019-04-12.txt'' = ?text ?m'"
    using daily_truncate_loses_lines [OF s(1) [unfolded demo_daily_sink_def] demo_daily_os_ok _ _ _ room] by (simp add: demo_daily_name)
  with s(1) show ?thesis by (simp add: demo_texts)
qed

text \<open>
  The next rotation is ahead of the clock exactly when the time of rotation of the current day is
  less than 24 hours ago. On a day of 25 hours it can be more: then every message changes files again.
\<close>

theorem daily_rotation_ahead:
  assumes "date = (daily_now_tm os (c 0))\<lparr>tm_hour := rotation_h s, tm_min := rotation_m s, tm_sec := 0\<rparr>"
    and "- (2 ^ 63) \<le> os_mktime os date * 1000000000" and "os_mktime os date * 1000000000 < 2 ^ 63 - 86400000000000"
  shows "sint (c 0) < sint (fst (next_rotation_tp os s c)) \<longleftrightarrow> sint (c 0) < os_mktime os date * 1000000000 + 86400000000000"
proof -
  let ?r = "os_mktime os date * 1000000000"
  have small: "sint (word_of_int x :: 64 word) = x" if "- (2 ^ 63) \<le> x" "x < 2 ^ 63" for x
    using that by (simp add: signed_of_int signed_take_bit_int_eq_self)
  have "sint (from_time_t (os_mktime os date)) = ?r" using assms(2,3) small [of ?r] by (simp add: from_time_t_def del: of_int_mult)
  moreover have "from_time_t (os_mktime os date) + one_day = word_of_int (?r + 86400000000000)"
    by (simp add: from_time_t_def one_day_def)
  then have "sint (from_time_t (os_mktime os date) + one_day) = ?r + 86400000000000"
    using assms(2,3) small [of "?r + 86400000000000"] by (simp del: of_int_add of_int_mult)
  ultimately show ?thesis using assms(1) by (simp add: next_rotation_tp_def clock_now_def Let_def)
qed

definition demo_midnight_sink :: daily_file_sink where
  "demo_midnight_sink =
     \<lparr>daily_base = ''log.txt'', rotation_h = 0, rotation_m = 0, rotation_tp = 0, daily_helper = file_helper_default, daily_truncate = False\<rparr>"

theorem daily_rotation_ahead_witness:
  "\<not> sint (90000000000000 :: 64 word) < sint (fst (next_rotation_tp demo_daily_os demo_midnight_sink (\<lambda>i. 90000000000000)))"
  using daily_rotation_ahead [OF refl, where os = demo_daily_os and s = demo_midnight_sink and c = "\<lambda>i. 90000000000000"]
  by (simp add: demo_daily_os_def demo_midnight_sink_def)

end
