(* ===== verification/Sinks.thy ===== *)
theory Sinks
  imports DailySink
begin

text \<open>
  The other sinks of the logging library: \<open>spdlog/sinks/stdout_sinks.h\<close>, \<open>ansicolor_sink.h\<close>,
  \<open>ostream_sink.h\<close>, \<open>basic_file_sink.h\<close>, \<open>null_sink.h\<close> and \<open>dist_sink.h\<close>, with the consoles of
  \<open>spdlog/details/console_globals.h\<close>. Sinks are shared: a \<open>shared_ptr\<close> to a sink is an index into the
  list of all sinks, so that a distributing sink may hold a sink twice, or itself. What a sink does with
  the text of a message is its \<open>emit\<close>; the locale states what the plain ones have in common. Consoles
  and streams take every text, and flushing has no effect, as on the disk. Mutexes guard single calls,
  but for a distributing sink inside itself, which locks a mutex it holds or recurses without end.
\<close>

section \<open>Writing a formatted message\<close>

text \<open>The body of every \<open>sink_it_\<close>: format into an empty buffer, then write.\<close>

definition formatted_log ::
  "log_os \<Rightarrow> (log_msg \<Rightarrow> string \<Rightarrow> 's \<Rightarrow> unit res \<times> 's) \<Rightarrow> log_msg \<Rightarrow> pattern_formatter \<times> 's \<Rightarrow> log_msg res \<times> pattern_formatter \<times> 's" where
  "formatted_log os emit m = (\<lambda>(f, s).
     case pattern_format os m [] f of
       Inl e \<Rightarrow> (Inl e, (f, s))
     | Inr (f, m, formatted) \<Rightarrow> (case emit m formatted s of (r, s) \<Rightarrow> (bind_res r (\<lambda>_. Inr m), (f, s))))"

fun formatted_log_all ::
  "log_os \<Rightarrow> (log_msg \<Rightarrow> string \<Rightarrow> 's \<Rightarrow> unit res \<times> 's) \<Rightarrow> log_msg list \<Rightarrow> pattern_formatter \<times> 's \<Rightarrow> unit res \<times> pattern_formatter \<times> 's" where
  "formatted_log_all os emit [] fs = (Inr (), fs)"
| "formatted_log_all os emit (m # ms) fs =
     (case formatted_log os emit m fs of
        (Inl e, fs) \<Rightarrow> (Inl e, fs)
      | (Inr _, fs) \<Rightarrow> formatted_log_all os emit ms fs)"

text \<open>A plain sink appends what it is given, as long as it fits.\<close>

locale text_sink =
  fixes emit :: "log_msg \<Rightarrow> string \<Rightarrow> 's \<Rightarrow> unit res \<times> 's"
    and written :: "'s \<Rightarrow> string"
    and fits :: "nat \<Rightarrow> 's \<Rightarrow> bool"
  assumes emit_appends:
    "fits (length text + n) s \<Longrightarrow> \<exists>s'. emit m text s = (Inr (), s') \<and> written s' = written s @ text \<and> fits n s'"
begin

lemma lines_written:
  assumes "in_use os pat tt end_of_line f"
    and "\<forall>m \<in> set ms. secs_of (msg_time m) \<noteq> 0 \<and> tm_ok (time_source os tt (secs_of (msg_time m)))"
    and "fits (length (concat (map (pattern_text os pat tt end_of_line) ms))) s"
  shows "\<exists>f' s'. formatted_log_all os emit ms (f, s) = (Inr (), (f', s')) \<and>
    written s' = written s @ concat (map (pattern_text os pat tt end_of_line) ms)"
  using assms
proof (induction ms arbitrary: f s)
  case (Cons m ms)
  let ?text = "pattern_text os pat tt end_of_line"
  obtain f' m' where f: "pattern_format os m [] f = Inr (f', m', ?text m)" "in_use os pat tt end_of_line f'"
    using pattern_format_in_use [OF Cons.prems(1), of m "[]"] Cons.prems(2) by auto
  have "fits (length (?text m) + length (concat (map ?text ms))) s" using Cons.prems(3) by simp
  from emit_appends [OF this, of m'] obtain s' where
    s: "emit m' (?text m) s = (Inr (), s')" "written s' = written s @ ?text m" "fits (length (concat (map ?text ms))) s'" by blast
  from Cons.IH [OF f(2) _ s(3)] Cons.prems(2) s(2) show ?case by (simp add: formatted_log_def f(1) s(1))
qed simp

end

section \<open>Consoles and streams\<close>

datatype console = console_stdout | console_stderr

record consoles =
  con_stdout :: string
  con_stderr :: string

definition console_text :: "console \<Rightarrow> consoles \<Rightarrow> string" where
  "console_text c w = (case c of console_stdout \<Rightarrow> con_stdout w | console_stderr \<Rightarrow> con_stderr w)"

definition console_write :: "console \<Rightarrow> string \<Rightarrow> consoles \<Rightarrow> consoles" where
  "console_write c text w =
     (case c of
        console_stdout \<Rightarrow> w\<lparr>con_stdout := con_stdout w @ text\<rparr>
      | console_stderr \<Rightarrow> w\<lparr>con_stderr := con_stderr w @ text\<rparr>)"

definition stdout_emit :: "console \<Rightarrow> log_msg \<Rightarrow> string \<Rightarrow> consoles \<Rightarrow> unit res \<times> consoles" where
  "stdout_emit c m text w = (Inr (), console_write c text w)"

text \<open>A stream of \<open>ostream_sink\<close> is an index into the texts of the streams.\<close>

definition ostream_emit :: "nat \<Rightarrow> log_msg \<Rightarrow> string \<Rightarrow> string list \<Rightarrow> unit res \<times> string list" where
  "ostream_emit i m text streams = (Inr (), streams[i := streams ! i @ text])"

definition basic_file_emit :: "log_msg \<Rightarrow> string \<Rightarrow> fh_disk \<Rightarrow> unit res \<times> fh_disk" where
  "basic_file_emit m text st = write_or_throw text st"

definition basic_file_sink_new :: "string \<Rightarrow> bool \<Rightarrow> disk \<Rightarrow> unit res \<times> fh_disk" where
  "basic_file_sink_new filename trunc d =
     (case fh_open filename trunc (file_helper_default, d) of
        (Inl t, st) \<Rightarrow> (Inl (SpdlogException t), st)
      | (Inr _, st) \<Rightarrow> (Inr (), st))"

definition rotating_emit :: "log_msg \<Rightarrow> string \<Rightarrow> sink_disk \<Rightarrow> unit res \<times> sink_disk" where
  "rotating_emit m text st =
     (case sink_it text st of
        None \<Rightarrow> (Inl UndefinedBehaviour, st)
      | Some (Inl t, st) \<Rightarrow> (Inl (SpdlogException t), st)
      | Some (Inr _, st) \<Rightarrow> (Inr (), st))"

interpretation stdout_text: text_sink "stdout_emit c" "console_text c" "\<lambda>n w. True"
  by unfold_locales (simp add: stdout_emit_def console_write_def console_text_def split: console.split)

interpretation ostream_text: text_sink "ostream_emit i" "\<lambda>streams. streams ! i" "\<lambda>n streams. i < length streams"
  by unfold_locales (simp add: ostream_emit_def)

definition file_fits :: "nat \<Rightarrow> fh_disk \<Rightarrow> bool" where
  "file_fits n = (\<lambda>(h, d). helper_open (h, d) \<and> length (content d (fh_filename h)) + n \<le> quota d)"

definition file_text :: "fh_disk \<Rightarrow> string" where
  "file_text = (\<lambda>(h, d). content d (fh_filename h))"

interpretation basic_file_text: text_sink basic_file_emit file_text file_fits
proof unfold_locales
  fix t :: string and n st m
  assume "file_fits (length t + n) st"
  moreover obtain h d where s: "st = (h, d)" by (metis surj_pair)
  ultimately have "helper_open (h, d)" "length (content d (fh_filename h)) + length t \<le> quota d"
    "length (content d (fh_filename h)) + (length t + n) \<le> quota d" by (simp_all add: file_fits_def)
  with write_or_throw_content [of h d t] show "\<exists>s'. basic_file_emit m t st = (Inr (), s') \<and> file_text s' = file_text st @ t \<and> file_fits n s'"
    by (auto simp: s basic_file_emit_def file_text_def file_fits_def same_limits_def)
qed

section \<open>Colours\<close>

definition ansi_code :: "string \<Rightarrow> string" where "ansi_code s = [CHR 0x1B] @ s"

definition ansi_reset :: string where "ansi_reset = ansi_code ''[m''"
definition ansi_bold :: string where "ansi_bold = ansi_code ''[1m''"
definition ansi_dark :: string where "ansi_dark = ansi_code ''[2m''"
definition ansi_underline :: string where "ansi_underline = ansi_code ''[4m''"
definition ansi_blink :: string where "ansi_blink = ansi_code ''[5m''"
definition ansi_reverse :: string where "ansi_reverse = ansi_code ''[7m''"
definition ansi_concealed :: string where "ansi_concealed = ansi_code ''[8m''"
definition ansi_clear_line :: string where "ansi_clear_line = ansi_code ''[K''"
definition ansi_black :: string where "ansi_black = ansi_code ''[30m''"
definition ansi_red :: string where "ansi_red = ansi_code ''[31m''"
definition ansi_green :: string where "ansi_green = ansi_code ''[32m''"
definition ansi_yellow :: string where "ansi_yellow = ansi_code ''[33m''"
definition ansi_blue :: string where "ansi_blue = ansi_code ''[34m''"
definition ansi_magenta :: string where "ansi_magenta = ansi_code ''[35m''"
definition ansi_cyan :: string where "ansi_cyan = ansi_code ''[36m''"
definition ansi_white :: string where "ansi_white = ansi_code ''[37m''"
definition ansi_on_black :: string where "ansi_on_black = ansi_code ''[40m''"
definition ansi_on_red :: string where "ansi_on_red = ansi_code ''[41m''"
definition ansi_on_green :: string where "ansi_on_green = ansi_code ''[42m''"
definition ansi_on_yellow :: string where "ansi_on_yellow = ansi_code ''[43m''"
definition ansi_on_blue :: string where "ansi_on_blue = ansi_code ''[44m''"
definition ansi_on_magenta :: string where "ansi_on_magenta = ansi_code ''[45m''"
definition ansi_on_cyan :: string where "ansi_on_cyan = ansi_code ''[46m''"
definition ansi_on_white :: string where "ansi_on_white = ansi_code ''[47m''"

definition ansi_colors :: "level \<Rightarrow> string" where
  "ansi_colors lvl =
     (case lvl of
        trace \<Rightarrow> ansi_white
      | debug \<Rightarrow> ansi_cyan
      | info \<Rightarrow> ansi_green
      | warn \<Rightarrow> ansi_yellow @ ansi_bold
      | err \<Rightarrow> ansi_red @ ansi_bold
      | critical \<Rightarrow> ansi_bold @ ansi_on_red
      | off \<Rightarrow> ansi_reset)"

text \<open>\<open>print_range_\<close> reads the buffer at its indices, whatever its size is.\<close>

definition print_range :: "string \<Rightarrow> nat \<Rightarrow> nat \<Rightarrow> string res" where
  "print_range formatted start end' =
     (if start \<le> end' \<and> end' \<le> length formatted then Inr (take (end' - start) (drop start formatted)) else Inl UndefinedBehaviour)"

definition ansi_text :: "bool \<Rightarrow> (level \<Rightarrow> string) \<Rightarrow> log_msg \<Rightarrow> string \<Rightarrow> string res" where
  "ansi_text should_do_colors colors m formatted =
     (if should_do_colors \<and> color_range_start m < color_range_end m then
        bind_res (print_range formatted 0 (color_range_start m)) (\<lambda>before.
        bind_res (print_range formatted (color_range_start m) (color_range_end m)) (\<lambda>range.
        bind_res (print_range formatted (color_range_end m) (length formatted)) (\<lambda>after.
          Inr (before @ colors (msg_level m) @ range @ ansi_reset @ after))))
      else print_range formatted 0 (length formatted))"

definition ansi_emit :: "console \<Rightarrow> bool \<Rightarrow> (level \<Rightarrow> string) \<Rightarrow> log_msg \<Rightarrow> string \<Rightarrow> consoles \<Rightarrow> unit res \<times> consoles" where
  "ansi_emit c should_do_colors colors m text w =
     (case ansi_text should_do_colors colors m text of
        Inl e \<Rightarrow> (Inl e, w)
      | Inr t \<Rightarrow> (Inr (), console_write c t w))"

section \<open>Sinks and their messages\<close>

datatype sink_kind =
    null_sink
  | stdout_sink console
  | ansicolor_sink console bool "level \<Rightarrow> string"
  | ostream_sink nat
  | basic_file_sink file_helper
  | rotating_sink rotating_file_sink
  | daily_sink daily_file_sink
  | dist_sink "nat list"

record any_sink =
  any_level :: level
  any_formatter :: pattern_formatter
  any_kind :: sink_kind

record sink_world =
  all_sinks :: "any_sink list"
  sw_disk :: disk
  sw_clock :: log_clock
  sw_consoles :: consoles
  sw_streams :: "string list"

definition sink_new :: "sink_kind \<Rightarrow> any_sink" where
  "sink_new k = \<lparr>any_level = trace, any_formatter = default_formatter_new local_time default_eol, any_kind = k\<rparr>"

text \<open>The constructor of the colour console: colours when the target is a terminal that has them.\<close>

definition ansicolor_sink_new :: "console \<Rightarrow> bool \<Rightarrow> bool \<Rightarrow> any_sink" where
  "ansicolor_sink_new c in_terminal is_color_terminal = sink_new (ansicolor_sink c (in_terminal \<and> is_color_terminal) ansi_colors)"

definition set_color :: "level \<Rightarrow> string \<Rightarrow> any_sink \<Rightarrow> any_sink" where
  "set_color color_level color s =
     (case any_kind s of
        ansicolor_sink c col colors \<Rightarrow> s\<lparr>any_kind := ansicolor_sink c col (colors(color_level := color))\<rparr>
      | _ \<Rightarrow> s)"

definition sink_set_level :: "level \<Rightarrow> any_sink \<Rightarrow> any_sink" where
  "sink_set_level lvl s = s\<lparr>any_level := lvl\<rparr>"

text \<open>\<open>log\<close> of a sink that is not distributing.\<close>

definition leaf_log ::
  "daily_os \<Rightarrow> log_msg \<Rightarrow> pattern_formatter \<Rightarrow> sink_kind \<Rightarrow> sink_world \<Rightarrow> log_msg res \<times> pattern_formatter \<times> sink_kind \<times> sink_world" where
  "leaf_log os m f k w =
     (let log_os = daily_log_os os in
      case k of
        null_sink \<Rightarrow> (Inr m, f, k, w)
      | stdout_sink c \<Rightarrow>
          (case formatted_log log_os (stdout_emit c) m (f, sw_consoles w) of (r, f, cs) \<Rightarrow> (r, f, k, w\<lparr>sw_consoles := cs\<rparr>))
      | ansicolor_sink c col colors \<Rightarrow>
          (case formatted_log log_os (ansi_emit c col colors) m (f, sw_consoles w) of (r, f, cs) \<Rightarrow> (r, f, k, w\<lparr>sw_consoles := cs\<rparr>))
      | ostream_sink i \<Rightarrow>
          (case formatted_log log_os (ostream_emit i) m (f, sw_streams w) of (r, f, ss) \<Rightarrow> (r, f, k, w\<lparr>sw_streams := ss\<rparr>))
      | basic_file_sink h \<Rightarrow>
          (case formatted_log log_os basic_file_emit m (f, (h, sw_disk w)) of
             (r, f, h, d) \<Rightarrow> (r, f, basic_file_sink h, w\<lparr>sw_disk := d\<rparr>))
      | rotating_sink s \<Rightarrow>
          (case formatted_log log_os rotating_emit m (f, (s, sw_disk w)) of
             (r, f, s, d) \<Rightarrow> (r, f, rotating_sink s, w\<lparr>sw_disk := d\<rparr>))
      | daily_sink s \<Rightarrow>
          (case daily_sink_it os m (f, (s, sw_disk w, sw_clock w)) of
             (r, f, s, d, c) \<Rightarrow> (r, f, daily_sink s, w\<lparr>sw_disk := d, sw_clock := c\<rparr>))
      | dist_sink ss \<Rightarrow> (Inl UndefinedBehaviour, f, k, w))"

definition log_at :: "daily_os \<Rightarrow> nat \<Rightarrow> log_msg \<Rightarrow> sink_world \<Rightarrow> log_msg res \<times> sink_world" where
  "log_at os a m w =
     (let s = all_sinks w ! a
      in case leaf_log os m (any_formatter s) (any_kind s) w of
           (r, f, k, w) \<Rightarrow> (r, w\<lparr>all_sinks := (all_sinks w)[a := s\<lparr>any_formatter := f, any_kind := k\<rparr>]\<rparr>))"

definition dist_sinks :: "sink_kind \<Rightarrow> nat list option" where
  "dist_sinks k = (case k of dist_sink ss \<Rightarrow> Some ss | _ \<Rightarrow> None)"

definition accepts :: "nat \<Rightarrow> log_msg \<Rightarrow> sink_world \<Rightarrow> bool" where
  "accepts a m w \<longleftrightarrow> level_num (any_level (all_sinks w ! a)) \<le> level_num (msg_level m)"

text \<open>The loop over the sinks of a logger or a distributing sink; it does not return (none) when a
  distributing sink comes to log to itself.\<close>

partial_function (option) log_to :: "daily_os \<Rightarrow> nat list \<Rightarrow> log_msg \<Rightarrow> sink_world \<Rightarrow> (log_msg res \<times> sink_world) option" where
  "log_to os as m w =
     (case as of
        [] \<Rightarrow> Some (Inr m, w)
      | a # as \<Rightarrow>
          if \<not> accepts a m w then log_to os as m w
          else
            (case dist_sinks (any_kind (all_sinks w ! a)) of
               Some ss \<Rightarrow>
                 Option.bind (log_to os ss m w) (\<lambda>(r, w).
                   case r of Inl e \<Rightarrow> Some (Inl e, w) | Inr m \<Rightarrow> log_to os as m w)
             | None \<Rightarrow>
                 (case log_at os a m w of
                    (Inl e, w) \<Rightarrow> Some (Inl e, w)
                  | (Inr m, w) \<Rightarrow> log_to os as m w)))"

text \<open>\<open>set_formatter\<close>: a distributing sink gives a clone to each of its sinks.\<close>

partial_function (option) give_formatter :: "nat list \<Rightarrow> pattern_formatter \<Rightarrow> sink_world \<Rightarrow> sink_world option" where
  "give_formatter as f w =
     (case as of
        [] \<Rightarrow> Some w
      | a # as \<Rightarrow>
          (let w = w\<lparr>all_sinks := (all_sinks w)[a := (all_sinks w ! a)\<lparr>any_formatter := f\<rparr>]\<rparr>
           in case dist_sinks (any_kind (all_sinks w ! a)) of
                Some ss \<Rightarrow> Option.bind (give_formatter ss (clone_formatter f) w) (\<lambda>w. give_formatter as f w)
              | None \<Rightarrow> give_formatter as f w))"

definition sink_set_pattern :: "nat \<Rightarrow> string \<Rightarrow> sink_world \<Rightarrow> sink_world option" where
  "sink_set_pattern a pat w = give_formatter [a] (pattern_formatter_new pat local_time default_eol) w"

definition on_dist :: "nat \<Rightarrow> (nat list \<Rightarrow> nat list) \<Rightarrow> sink_world \<Rightarrow> sink_world" where
  "on_dist a g w =
     (case dist_sinks (any_kind (all_sinks w ! a)) of
        None \<Rightarrow> w
      | Some ss \<Rightarrow> w\<lparr>all_sinks := (all_sinks w)[a := (all_sinks w ! a)\<lparr>any_kind := dist_sink (g ss)\<rparr>]\<rparr>)"

definition add_sink :: "nat \<Rightarrow> nat \<Rightarrow> sink_world \<Rightarrow> sink_world" where
  "add_sink a s = on_dist a (\<lambda>ss. ss @ [s])"

definition remove_sink :: "nat \<Rightarrow> nat \<Rightarrow> sink_world \<Rightarrow> sink_world" where
  "remove_sink a s = on_dist a (removeAll s)"

definition set_sinks :: "nat \<Rightarrow> nat list \<Rightarrow> sink_world \<Rightarrow> sink_world" where
  "set_sinks a ss = on_dist a (\<lambda>_. ss)"

section \<open>Distributing\<close>

text \<open>What logging and formatting keep: which sink holds which.\<close>

definition holds_sinks :: "sink_world \<Rightarrow> nat list option list" where
  "holds_sinks w = map (\<lambda>s. dist_sinks (any_kind s)) (all_sinks w)"

lemma leaf_log_keeps:
  assumes "leaf_log os m f k w = (r, f', k', w')" and "dist_sinks k = None"
  shows "dist_sinks k' = None" and "all_sinks w' = all_sinks w"
  using assms by (auto simp: leaf_log_def dist_sinks_def Let_def split: sink_kind.splits prod.splits)

lemma log_at_keeps:
  assumes "log_at os a m w = (r, w')" and "dist_sinks (any_kind (all_sinks w ! a)) = None"
  shows "holds_sinks w' = holds_sinks w"
proof -
  let ?s = "all_sinks w ! a"
  obtain f k w1 where l: "leaf_log os m (any_formatter ?s) (any_kind ?s) w = (r, f, k, w1)"
    "w' = w1\<lparr>all_sinks := (all_sinks w1)[a := ?s\<lparr>any_formatter := f, any_kind := k\<rparr>]\<rparr>"
    using assms(1) by (auto simp: log_at_def Let_def split: prod.splits)
  note k = leaf_log_keeps [OF l(1) assms(2)]
  have "(map (\<lambda>s. dist_sinks (any_kind s)) (all_sinks w))[a := dist_sinks k] = map (\<lambda>s. dist_sinks (any_kind s)) (all_sinks w)"
    using k(1) assms(2) list_update_id [of "map (\<lambda>s. dist_sinks (any_kind s)) (all_sinks w)" a]
    by (cases "a < length (all_sinks w)") (simp_all add: list_update_beyond)
  then show ?thesis by (simp add: holds_sinks_def l(2) k(2) map_update)
qed

lemma log_to_Nil [simp]: "log_to os [] m w = Some (Inr m, w)"
  by (simp add: log_to.simps)

lemma log_to_skip: "\<not> accepts a m w \<Longrightarrow> log_to os (a # as) m w = log_to os as m w"
  by (subst log_to.simps) simp

lemma log_to_leaf:
  assumes "accepts a m w" and "dist_sinks (any_kind (all_sinks w ! a)) = None"
  shows "log_to os (a # as) m w = (case log_at os a m w of (Inl e, w) \<Rightarrow> Some (Inl e, w) | (Inr m, w) \<Rightarrow> log_to os as m w)"
  using assms by (subst log_to.simps) simp

definition then_log :: "(log_msg \<Rightarrow> sink_world \<Rightarrow> (log_msg res \<times> sink_world) option) \<Rightarrow> log_msg res \<times> sink_world \<Rightarrow> (log_msg res \<times> sink_world) option" where
  "then_log g = (\<lambda>(r, w). case r of Inl e \<Rightarrow> Some (Inl e, w) | Inr m \<Rightarrow> g m w)"

lemma log_to_dist:
  assumes "accepts a m w" and "dist_sinks (any_kind (all_sinks w ! a)) = Some ss"
  shows "log_to os (a # as) m w = Option.bind (log_to os ss m w) (then_log (log_to os as))"
  using assms by (subst log_to.simps) (simp add: then_log_def)

lemma log_to_append:
  "log_to os (as @ bs) m w = Option.bind (log_to os as m w) (then_log (log_to os bs))"
proof (induction as arbitrary: m w)
  case Nil
  show ?case by (simp add: then_log_def)
next
  case (Cons a as)
  show ?case
  proof (cases "accepts a m w")
    case False
    with Cons.IH show ?thesis by (simp add: log_to_skip)
  next
    case acc: True
    show ?thesis
    proof (cases "dist_sinks (any_kind (all_sinks w ! a))")
      case None
      show ?thesis
        by (simp add: log_to_leaf [OF acc None] Cons.IH then_log_def split: prod.split sum.split)
    next
      case (Some ss)
      have "then_log (log_to os (as @ bs)) rw = Option.bind (then_log (log_to os as) rw) (then_log (log_to os bs))" for rw
        by (cases rw) (simp add: then_log_def Cons.IH split: sum.split)
      then have "then_log (log_to os (as @ bs)) = (\<lambda>rw. Option.bind (then_log (log_to os as) rw) (then_log (log_to os bs)))" by blast
      then show ?thesis by (simp add: log_to_dist [OF acc Some])
    qed
  qed
qed

text \<open>A distributing sink in a list stands for its sinks.\<close>

lemma log_to_spliced:
  assumes "accepts a m w" and "dist_sinks (any_kind (all_sinks w ! a)) = Some ss"
  shows "log_to os (a # as) m w = log_to os (ss @ as) m w"
  by (simp add: log_to_dist [OF assms] log_to_append)

text \<open>Sinks below sinks: \<open>rank\<close> shows that no sink comes to itself.\<close>

definition ranked :: "(nat \<Rightarrow> nat) \<Rightarrow> nat list option list \<Rightarrow> bool" where
  "ranked rank hs \<longleftrightarrow> (\<forall>a < length hs. \<forall>ss. hs ! a = Some ss \<longrightarrow> (\<forall>b \<in> set ss. b < length hs \<and> rank b < rank a))"

lemma log_to_returns:
  assumes "ranked rank (holds_sinks w)" and "\<forall>a \<in> set as. a < length (holds_sinks w) \<and> rank a < n"
  shows "\<exists>r w'. log_to os as m w = Some (r, w') \<and> holds_sinks w' = holds_sinks w"
  using assms
proof (induction n arbitrary: as m w)
  case 0
  then have "as = []" by (cases as) auto
  then show ?case by simp
next
  case (Suc n)
  from Suc.prems show ?case
  proof (induction as arbitrary: m w)
    case (Cons a as)
    have a: "a < length (all_sinks w)" "rank a < Suc n" and as: "\<forall>a \<in> set as. a < length (holds_sinks w) \<and> rank a < Suc n"
      using Cons.prems(2) by (simp_all add: holds_sinks_def)
    show ?case
    proof (cases "accepts a m w")
      case False
      with Cons.IH [OF Cons.prems(1) as] show ?thesis by (simp add: log_to_skip)
    next
      case acc: True
      show ?thesis
      proof (cases "dist_sinks (any_kind (all_sinks w ! a))")
        case None
        obtain r w1 where l: "log_at os a m w = (r, w1)" by (metis surj_pair)
        note k = log_at_keeps [OF l None]
        from Cons.IH [of w1] Cons.prems(1) as k show ?thesis
          by (cases r) (auto simp: log_to_leaf [OF acc None] l)
      next
        case (Some ss)
        have "\<forall>b \<in> set ss. b < length (holds_sinks w) \<and> rank b < n"
          using Cons.prems(1) a Some by (fastforce simp: ranked_def holds_sinks_def)
        from Suc.IH [OF Cons.prems(1) this] obtain r w1 where
          l: "log_to os ss m w = Some (r, w1)" "holds_sinks w1 = holds_sinks w" by blast
        from Cons.IH [of w1] Cons.prems(1) as l show ?thesis
          by (cases r) (auto simp: log_to_dist [OF acc Some] then_log_def)
      qed
    qed
  qed simp
qed

lemma log_to_itself:
  assumes "log_to os bs m' v = Some y" and "bs = a # as" and "accepts a m' v"
    and "dist_sinks (any_kind (all_sinks v ! a)) = Some (a # ss)"
  shows False
proof -
  have "\<forall>as. bs = a # as \<longrightarrow> accepts a m' v \<longrightarrow> dist_sinks (any_kind (all_sinks v ! a)) = Some (a # ss) \<longrightarrow> False"
  proof (rule log_to.raw_induct [OF _ assms(1)], goal_cases)
    case (1 log_to' os bs m v y)
    then show ?case by (auto split: if_splits bind_splits)
  qed
  with assms(2-4) show False by blast
qed

section \<open>Formatters for all\<close>

inductive reaches :: "nat list option list \<Rightarrow> nat \<Rightarrow> nat \<Rightarrow> bool" for hs where
  here: "reaches hs a a"
| below: "hs ! a = Some ss \<Longrightarrow> b \<in> set ss \<Longrightarrow> reaches hs b c \<Longrightarrow> reaches hs a c"

lemma reaches_leaf: "hs ! a = None \<Longrightarrow> reaches hs a b \<longleftrightarrow> b = a"
  by (auto intro: reaches.here elim: reaches.cases)

lemma reaches_dist: "hs ! a = Some ss \<Longrightarrow> reaches hs a b \<longleftrightarrow> b = a \<or> (\<exists>c \<in> set ss. reaches hs c b)"
  by (auto intro: reaches.intros elim: reaches.cases)

definition gives :: "pattern_formatter \<Rightarrow> nat list \<Rightarrow> sink_world \<Rightarrow> sink_world \<Rightarrow> bool" where
  "gives f as w w' \<longleftrightarrow> holds_sinks w' = holds_sinks w \<and>
     (\<forall>b. any_formatter (all_sinks w' ! b) =
       (if \<exists>a \<in> set as. reaches (holds_sinks w) a b then f else any_formatter (all_sinks w ! b)))"

lemma give_formatter_gives:
  assumes "clone_formatter f = f"
    and "ranked rank (holds_sinks w)" and "\<forall>a \<in> set as. a < length (holds_sinks w) \<and> rank a < n"
  shows "\<exists>w'. give_formatter as f w = Some w' \<and> gives f as w w'"
  using assms(2,3)
proof (induction n arbitrary: as w)
  case 0
  then have "as = []" by (cases as) auto
  then show ?case by (subst give_formatter.simps) (simp add: gives_def)
next
  case (Suc n)
  from Suc.prems show ?case
  proof (induction as arbitrary: w)
    case Nil
    show ?case by (subst give_formatter.simps) (simp add: gives_def)
  next
    case (Cons a as)
    let ?w = "w\<lparr>all_sinks := (all_sinks w)[a := (all_sinks w ! a)\<lparr>any_formatter := f\<rparr>]\<rparr>"
    have a: "a < length (all_sinks w)" "rank a < Suc n" and as: "\<forall>a \<in> set as. a < length (holds_sinks w) \<and> rank a < Suc n"
      using Cons.prems(2) by (simp_all add: holds_sinks_def)
    have h: "holds_sinks ?w = holds_sinks w"
      using list_update_id [of "map (\<lambda>s. dist_sinks (any_kind s)) (all_sinks w)" a] a(1) by (simp add: holds_sinks_def map_update)
    have self: "any_formatter (all_sinks ?w ! b) = (if b = a then f else any_formatter (all_sinks w ! b))" for b
      using a(1) by (simp add: nth_list_update)
    have kind: "dist_sinks (any_kind (all_sinks ?w ! a)) = holds_sinks w ! a" using a(1) by (simp add: holds_sinks_def)
    show ?case
    proof (cases "holds_sinks w ! a")
      case None
      from Cons.IH [of ?w] Cons.prems(1) as h obtain w' where
        w': "give_formatter as f ?w = Some w'" "gives f as ?w w'" by auto
      have "gives f (a # as) w w'"
        using w'(2) self by (auto simp: gives_def h reaches_leaf [OF None] simp del: sink_world.simps)
      with w'(1) kind None show ?thesis by (subst give_formatter.simps) (simp add: Let_def)
    next
      case (Some ss)
      have "\<forall>b \<in> set ss. b < length (holds_sinks w) \<and> rank b < n"
        using Cons.prems(1) a Some by (fastforce simp: ranked_def holds_sinks_def)
      with Suc.IH [of ?w ss] Cons.prems(1) h obtain w1 where
        w1: "give_formatter ss f ?w = Some w1" "gives f ss ?w w1" by auto
      then have h1: "holds_sinks w1 = holds_sinks w" by (simp add: gives_def h)
      from Cons.IH [of w1] Cons.prems(1) as h1 obtain w' where
        w': "give_formatter as f w1 = Some w'" "gives f as w1 w'" by auto
      have "gives f (a # as) w w'"
        using w1(2) w'(2) self by (auto simp: gives_def h h1 reaches_dist [OF Some] simp del: sink_world.simps)
      with w1(1) w'(1) kind Some show ?thesis by (subst give_formatter.simps) (simp add: Let_def assms(1))
    qed
  qed
qed

section \<open>The coloured range\<close>

definition plain_flag :: "flag_formatter \<Rightarrow> bool" where
  "plain_flag f \<longleftrightarrow> (case f of full_formatter p c \<Rightarrow> False | color_start_formatter p \<Rightarrow> False | color_stop_formatter p \<Rightarrow> False | _ \<Rightarrow> True)"

lemma full_not_plain [simp]: "\<not> plain_flag (full_formatter p c)"
  by (simp add: plain_flag_def)

lemma format_plain_flag:
  assumes "plain_flag f" and "format_flag pid f m t dest = Inr (f', m', dest')"
  shows "m' = m" and "f' = f"
  using assms by (cases f; simp add: plain_flag_def format_flag_simps only_text_def bind_res_def split: sum.splits)+

lemma run_formatters_append:
  "run_formatters pid (fs @ gs) m t dest =
     bind_res (run_formatters pid fs m t dest) (\<lambda>(fs, m, dest).
     bind_res (run_formatters pid gs m t dest) (\<lambda>(gs, m, dest). Inr (fs @ gs, m, dest)))"
  by (induction fs arbitrary: m dest) (auto simp: bind_res_def split: sum.splits prod.splits)

lemma run_plain_flags:
  assumes "\<forall>f \<in> set fs. plain_flag f \<and> flag_padding_ok f" and "tm_ok t"
  shows "run_formatters pid fs m t dest = Inr (fs, m, dest @ concat (map (flag_text pid m t) fs))"
  using assms(1)
proof (induction fs arbitrary: dest)
  case (Cons f fs)
  have v: "valid_flag (\<lambda>_. t) f" using Cons.prems by (cases f) (auto simp: valid_flag_def plain_flag_def)
  have "\<exists>f' m'. format_flag pid f m t dest = Inr (f', m', dest @ flag_text pid m t f)"
    using format_flag_text [OF _ v, where m = m and pid = pid and dest = dest] assms(2) Cons.prems by auto
  then obtain f' m' where f: "format_flag pid f m t dest = Inr (f', m', dest @ flag_text pid m t f)" by blast
  with format_plain_flag [OF _ this] Cons.prems have "f' = f" "m' = m" by auto
  with f Cons show ?case by simp
qed simp

lemma reset_plain:
  assumes "map reset_flag fs = gs" and "\<forall>g \<in> set gs. \<forall>p c. g \<noteq> full_formatter p c"
  shows "fs = gs"
proof -
  have "reset_flag f = f" if "f \<in> set fs" for f
  proof -
    have "\<forall>p c. reset_flag f \<noteq> full_formatter p c" using assms that by auto
    then show ?thesis by (cases f) (simp_all add: reset_flag_def)
  qed
  then have "map reset_flag fs = fs" by (simp add: map_idI)
  with assms(1) show ?thesis by simp
qed

text \<open>The texts of some flags of a pattern for a message.\<close>

definition flags_text :: "log_os \<Rightarrow> pattern_time_type \<Rightarrow> log_msg \<Rightarrow> flag_formatter list \<Rightarrow> string" where
  "flags_text os tt m fs = concat (map (flag_text (os_pid os) m (time_source os tt (secs_of (msg_time m)))) fs)"

lemma pattern_format_message:
  assumes "in_use os pat tt end_of_line f" and "secs_of (msg_time m) \<noteq> 0" and "tm_ok (time_source os tt (secs_of (msg_time m)))"
    and "\<forall>g \<in> set (compile_pattern pat). \<forall>p c. g \<noteq> full_formatter p c"
    and "run_formatters (os_pid os) (compile_pattern pat) m (time_source os tt (secs_of (msg_time m))) [] = Inr (fs, m', dest)"
  shows "\<exists>f'. pattern_format os m [] f = Inr (f', m', pattern_text os pat tt end_of_line m) \<and> in_use os pat tt end_of_line f'"
proof -
  from pattern_format_in_use [OF assms(1-3), of "[]"] obtain f' m1 where
    p: "pattern_format os m [] f = Inr (f', m1, pattern_text os pat tt end_of_line m)" "in_use os pat tt end_of_line f'" by auto
  have "map reset_flag (formatters f) = compile_pattern pat" using assms(1) by (simp add: in_use_def)
  then have fs: "formatters f = compile_pattern pat" using assms(4) by (rule reset_plain)
  define g where "g = (if secs_of (msg_time m) \<noteq> last_log_secs f
    then f\<lparr>cached_tm := get_time os f m, last_log_secs := secs_of (msg_time m)\<rparr> else f)"
  have g: "cached_tm g = time_source os tt (secs_of (msg_time m))" "formatters g = compile_pattern pat"
    using assms(1,2) fs
    by (auto simp: g_def in_use_def get_time_def time_source_def split: pattern_time_type.splits)
  have "m1 = m'"
    using p(1) assms(5) by (simp add: pattern_format_def Let_def g flip: g_def)
  with p show ?thesis by blast
qed

lemma pattern_format_plain:
  assumes "in_use os pat tt end_of_line f" and "secs_of (msg_time m) \<noteq> 0" and "tm_ok (time_source os tt (secs_of (msg_time m)))"
    and "\<forall>g \<in> set (compile_pattern pat). plain_flag g"
  shows "\<exists>f'. pattern_format os m [] f = Inr (f', m, pattern_text os pat tt end_of_line m) \<and> in_use os pat tt end_of_line f'"
proof (rule pattern_format_message [OF assms(1-3)])
  show "\<forall>g \<in> set (compile_pattern pat). \<forall>p c. g \<noteq> full_formatter p c" using assms(4) by (auto simp: plain_flag_def)
  have "\<forall>g \<in> set (compile_pattern pat). plain_flag g \<and> flag_padding_ok g"
    using assms(4) compile_pattern_ok [of pat "\<lambda>_. zero_tm"] by blast
  from run_plain_flags [OF this assms(3)]
  show "run_formatters (os_pid os) (compile_pattern pat) m (time_source os tt (secs_of (msg_time m))) [] =
    Inr (compile_pattern pat, m, flags_text os tt m (compile_pattern pat))" by (simp add: flags_text_def)
qed

lemma pattern_format_coloured:
  assumes "in_use os pat tt end_of_line f" and "secs_of (msg_time m) \<noteq> 0" and "tm_ok (time_source os tt (secs_of (msg_time m)))"
    and pat: "compile_pattern pat = as @ [color_start_formatter p] @ bs @ [color_stop_formatter q] @ cs"
    and plain: "\<forall>g \<in> set (as @ bs @ cs). plain_flag g"
  defines "m' \<equiv> m\<lparr>color_range_start := length (flags_text os tt m as), color_range_end := length (flags_text os tt m as @ flags_text os tt m bs)\<rparr>"
  shows "\<exists>f'. pattern_format os m [] f =
      Inr (f', m', flags_text os tt m as @ flags_text os tt m bs @ flags_text os tt m cs @ end_of_line) \<and> in_use os pat tt end_of_line f'"
proof -
  let ?t = "time_source os tt (secs_of (msg_time m))"
  have ok: "\<forall>g \<in> set as. plain_flag g \<and> flag_padding_ok g" "\<forall>g \<in> set bs. plain_flag g \<and> flag_padding_ok g"
    "\<forall>g \<in> set cs. plain_flag g \<and> flag_padding_ok g"
    using plain compile_pattern_ok [of pat "\<lambda>_. zero_tm"] by (auto simp: pat)
  note run = ok [THEN run_plain_flags, OF assms(3)]
  have same: "flag_text pid (m\<lparr>color_range_start := i\<rparr>) ?t = flag_text pid m ?t"
    "flag_text pid (m\<lparr>color_range_start := i, color_range_end := j\<rparr>) ?t = flag_text pid m ?t" for pid i j
  proof -
    have "with_colors m (m\<lparr>color_range_start := i, color_range_end := color_range_end m\<rparr>)"
      "with_colors m (m\<lparr>color_range_start := i, color_range_end := j\<rparr>)" unfolding with_colors_def by blast+
    moreover have "m\<lparr>color_range_start := i, color_range_end := color_range_end m\<rparr> = m\<lparr>color_range_start := i\<rparr>" by simp
    ultimately show "flag_text pid (m\<lparr>color_range_start := i\<rparr>) ?t = flag_text pid m ?t"
      "flag_text pid (m\<lparr>color_range_start := i, color_range_end := j\<rparr>) ?t = flag_text pid m ?t"
      by (auto intro: with_colors_text)
  qed
  have "run_formatters (os_pid os) (compile_pattern pat) m ?t [] =
      Inr (compile_pattern pat, m', flags_text os tt m as @ flags_text os tt m bs @ flags_text os tt m cs)"
    by (simp add: pat run_formatters_append run format_flag_def color_start_format_def color_stop_format_def same flags_text_def m'_def)
  moreover have "\<forall>g \<in> set (compile_pattern pat). \<forall>p c. g \<noteq> full_formatter p c"
  proof (intro ballI allI)
    fix g p' c'
    assume "g \<in> set (compile_pattern pat)"
    then have "plain_flag g \<or> g = color_start_formatter p \<or> g = color_stop_formatter q" using plain by (auto simp: pat)
    then show "g \<noteq> full_formatter p' c'" by auto
  qed
  ultimately have "\<exists>f'. pattern_format os m [] f = Inr (f', m', pattern_text os pat tt end_of_line m) \<and> in_use os pat tt end_of_line f'"
    by (intro pattern_format_message [OF assms(1-3)])
  moreover have "pattern_text os pat tt end_of_line m = flags_text os tt m as @ flags_text os tt m bs @ flags_text os tt m cs @ end_of_line"
    by (simp add: pattern_text_def pat flags_text_def flag_text_simps)
  ultimately show ?thesis by simp
qed

lemma ansi_emit_coloured:
  fixes m :: log_msg
  assumes "color_range_start m = length a" and "color_range_end m = length (a @ b)"
  shows "ansi_emit c True colors m (a @ b @ r) w =
    (Inr (), console_write c (if b = [] then a @ r else a @ colors (msg_level m) @ b @ ansi_reset @ r) w)"
  using assms by (simp add: ansi_emit_def ansi_text_def print_range_def)

lemma ansi_emit_past_end:
  fixes m :: log_msg
  assumes "color_range_start m < color_range_end m" and "length s < color_range_end m"
  shows "ansi_emit c True colors m s w = (Inl UndefinedBehaviour, w)"
  using assms by (simp add: ansi_emit_def ansi_text_def print_range_def bind_res_def)

section \<open>Sinks to try\<close>

definition demo_sinks :: "sink_kind list \<Rightarrow> sink_world" where
  "demo_sinks ks =
     \<lparr>all_sinks = map sink_new ks, sw_disk = demo_disk, sw_clock = (\<lambda>_. 0), sw_consoles = \<lparr>con_stdout = [], con_stderr = []\<rparr>,
      sw_streams = []\<rparr>"

lemma demo_sinks_simps [simp]:
  "holds_sinks (demo_sinks ks) = map dist_sinks ks" "length (all_sinks (demo_sinks ks)) = length ks"
  "i < length ks \<Longrightarrow> accepts i (demo_msg t s) (demo_sinks ks)" "i < length ks \<Longrightarrow> any_kind (all_sinks (demo_sinks ks) ! i) = ks ! i"
  by (simp_all add: demo_sinks_def holds_sinks_def sink_new_def accepts_def demo_msg_def log_msg_new_def level_num_def)

lemma dist_sinks_simps [simp]: "dist_sinks (dist_sink ss) = Some ss" "dist_sinks null_sink = None"
  by (simp_all add: dist_sinks_def)

lemma demo_tree: "ranked (\<lambda>a. if a = 0 then 1 else 0) (holds_sinks (demo_sinks [dist_sink [1, 2], null_sink, null_sink]))"
  by (auto simp: ranked_def less_Suc_eq nth_Cons')

lemma demo_patterns:
  "compile_pattern ''%v'' = [v_formatter no_padding]" "compile_pattern ''%L'' = [short_level_formatter no_padding]"
  "compile_pattern ''%^%v%$!'' = [] @ [color_start_formatter no_padding] @ [v_formatter no_padding] @ [color_stop_formatter no_padding] @ [aggregate_formatter ''!'']"
  using compile_items [of "[Flag pad_left 0 (CHR ''v'')]"] compile_items [of "[Flag pad_left 0 (CHR ''L'')]"]
    compile_items [of "[Flag pad_left 0 (CHR ''^''), Flag pad_left 0 (CHR ''v''), Flag pad_left 0 (CHR ''$''), Chars ''!'']"]
  by (simp_all add: side_text_def width_text_def is_digit_def compile_pattern_def handle_flag_def flag_table_def no_padding_def)

lemma demo_plain: "plain_flag (v_formatter p)" "plain_flag (short_level_formatter p)" "plain_flag (aggregate_formatter s)"
  by (simp_all add: plain_flag_def)

lemma demo_flags: "flags_text demo_os tt (demo_msg t s) [v_formatter no_padding] = s"
  "flags_text demo_os tt (demo_msg t s) [aggregate_formatter u] = u" "flags_text demo_os tt (demo_msg t s) [] = []"
  "pattern_text demo_os ''%L'' tt [] (demo_msg t s) = ''I''" "pattern_text demo_os ''%v'' tt e (demo_msg t s) = s @ e"
  by (simp_all add: flags_text_def pattern_text_def demo_patterns flag_text_simps demo_msg_def log_msg_new_def pad_around_def
      no_padding_def short_level_name_def short_level_names_def level_num_def)

lemma demo_secs_os: "secs_of (msg_time (demo_msg 61000000000 s)) = 61" "tm_ok (time_source demo_os tt n)"
  by (simp_all add: demo_msg_def log_msg_new_def secs_of_def signed_divide_int_def time_source_def demo_os_def demo_tm_ok
      split: pattern_time_type.split)

section \<open>Properties\<close>

text \<open>
  A console, a stream and a file sink hold exactly what was written to them: for any sequence of
  messages each appends the line that its pattern prints for the message, in order, and nothing fails
  while the stream exists and the disk has room.
\<close>

theorem plain_sinks_hold_lines:
  assumes "\<forall>m \<in> set ms. secs_of (msg_time m) \<noteq> 0 \<and> tm_ok (time_source os tt (secs_of (msg_time m)))"
    and "i < length streams" and "file_fits (length (concat (map (pattern_text os pat tt end_of_line) ms))) st"
  shows "(\<exists>f w'. formatted_log_all os (stdout_emit c) ms (pattern_formatter_new pat tt end_of_line, w) = (Inr (), (f, w')) \<and>
      console_text c w' = console_text c w @ concat (map (pattern_text os pat tt end_of_line) ms)) \<and>
    (\<exists>f ss. formatted_log_all os (ostream_emit i) ms (pattern_formatter_new pat tt end_of_line, streams) = (Inr (), (f, ss)) \<and>
      ss ! i = streams ! i @ concat (map (pattern_text os pat tt end_of_line) ms)) \<and>
    (\<exists>f st'. formatted_log_all os basic_file_emit ms (pattern_formatter_new pat tt end_of_line, st) = (Inr (), (f, st')) \<and>
      file_text st' = file_text st @ concat (map (pattern_text os pat tt end_of_line) ms))"
  using stdout_text.lines_written [OF new_formatter_in_use assms(1)] ostream_text.lines_written [OF new_formatter_in_use assms(1,2)]
    basic_file_text.lines_written [OF new_formatter_in_use assms(1) assms(3)] by blast

theorem plain_sinks_hold_lines_witness:
  "\<exists>f ss. formatted_log_all demo_os (ostream_emit 0) [demo_msg 61000000000 ''a'', demo_msg 61000000000 ''b'']
     (pattern_formatter_new ''%v'' local_time ''.'', [''x'']) = (Inr (), (f, ss)) \<and> ss ! 0 = ''xa.b.''"
proof -
  let ?ms = "[demo_msg 61000000000 ''a'', demo_msg 61000000000 ''b'']"
  let ?st = "(\<lparr>fd = True, fh_filename = ''f''\<rparr>, demo_disk\<lparr>files := [''f'' \<mapsto> []]\<rparr>)"
  have "\<forall>m \<in> set ?ms. secs_of (msg_time m) \<noteq> 0 \<and> tm_ok (time_source demo_os local_time (secs_of (msg_time m)))"
    by (simp add: demo_secs_os)
  moreover have "file_fits (length (concat (map (pattern_text demo_os ''%v'' local_time ''.'') ?ms))) ?st"
    by (simp add: demo_flags file_fits_def helper_open_def content_def demo_disk_def)
  ultimately show ?thesis
    using plain_sinks_hold_lines [of ?ms demo_os local_time 0 "[''x'']" "''%v''" "''.''" ?st console_stdout] by (simp add: demo_flags)
qed

text \<open>
  On a colour console the text between the flags \<open>%^\<close> and \<open>%$\<close> of the pattern, and no other, stands
  between the colour of the level and the reset code; a text that is empty is not coloured.
\<close>

theorem ansi_sink_colours_range:
  assumes "in_use os pat tt end_of_line f" and "secs_of (msg_time m) \<noteq> 0" and "tm_ok (time_source os tt (secs_of (msg_time m)))"
    and "compile_pattern pat = as @ [color_start_formatter p] @ bs @ [color_stop_formatter q] @ cs"
    and "\<forall>g \<in> set (as @ bs @ cs). plain_flag g"
  shows "\<exists>f' m'. formatted_log os (ansi_emit c True colors) m (f, w) =
    (Inr m', (f', console_write c
      (flags_text os tt m as @
       (if flags_text os tt m bs = [] then [] else colors (msg_level m) @ flags_text os tt m bs @ ansi_reset) @
       flags_text os tt m cs @ end_of_line) w))"
proof -
  let ?m = "m\<lparr>color_range_start := length (flags_text os tt m as), color_range_end := length (flags_text os tt m as @ flags_text os tt m bs)\<rparr>"
  obtain f' where f: "pattern_format os m [] f = Inr (f', ?m, flags_text os tt m as @ flags_text os tt m bs @ flags_text os tt m cs @ end_of_line)"
    using pattern_format_coloured [OF assms] by blast
  have "ansi_emit c True colors ?m (flags_text os tt m as @ flags_text os tt m bs @ (flags_text os tt m cs @ end_of_line)) w =
      (Inr (), console_write c (if flags_text os tt m bs = [] then flags_text os tt m as @ (flags_text os tt m cs @ end_of_line)
        else flags_text os tt m as @ colors (msg_level ?m) @ flags_text os tt m bs @ ansi_reset @ (flags_text os tt m cs @ end_of_line)) w)"
    by (rule ansi_emit_coloured) simp_all
  then show ?thesis by (simp add: formatted_log_def f)
qed

theorem ansi_sink_colours_range_witness:
  "\<exists>f' m'. formatted_log demo_os (ansi_emit console_stdout True ansi_colors) (demo_msg 61000000000 ''on'')
     (pattern_formatter_new ''%^%v%$!'' local_time [], \<lparr>con_stdout = [], con_stderr = []\<rparr>) =
     (Inr m', (f', \<lparr>con_stdout = ansi_green @ ''on'' @ ansi_reset @ ''!'', con_stderr = []\<rparr>))"
proof -
  have "msg_level (demo_msg t s) = info" for t s by (simp add: demo_msg_def log_msg_new_def)
  with ansi_sink_colours_range [OF new_formatter_in_use _ _ demo_patterns(3), where m = "demo_msg 61000000000 ''on''" and os = demo_os and tt = local_time
      and end_of_line = "[]" and c = console_stdout and colors = ansi_colors and w = "\<lparr>con_stdout = [], con_stderr = []\<rparr>"] show ?thesis
    by (simp add: demo_secs_os demo_plain demo_flags console_write_def ansi_colors_def)
qed

text \<open>
  C37. The range is left in the message for the sinks that follow: when a sink has coloured a range, a colour
  console whose pattern has no colour flags and whose line ends before that range reads past its buffer.
\<close>

theorem stale_color_range:
  assumes "all_sinks w = [s, s']" and "any_kind s = stdout_sink c" and "any_kind s' = ansicolor_sink c' True colors"
    and "level_num (any_level s) \<le> level_num (msg_level m)" and "level_num (any_level s') \<le> level_num (msg_level m)"
    and "in_use (daily_log_os os) pat tt e (any_formatter s)" and "in_use (daily_log_os os) pat' tt' e' (any_formatter s')"
    and "secs_of (msg_time m) \<noteq> 0" and "os_ok (daily_log_os os)"
    and "compile_pattern pat = as @ [color_start_formatter p] @ bs @ [color_stop_formatter q] @ cs"
    and "\<forall>g \<in> set (as @ bs @ cs). plain_flag g" and "\<forall>g \<in> set (compile_pattern pat'). plain_flag g"
    and "flags_text (daily_log_os os) tt m bs \<noteq> []"
    and "length (pattern_text (daily_log_os os) pat' tt' e' m) <
      length (flags_text (daily_log_os os) tt m as @ flags_text (daily_log_os os) tt m bs)"
  shows "\<exists>w'. log_to os [0, 1] m w = Some (Inl UndefinedBehaviour, w')"
proof -
  let ?os = "daily_log_os os"
  let ?m = "m\<lparr>color_range_start := length (flags_text ?os tt m as), color_range_end := length (flags_text ?os tt m as @ flags_text ?os tt m bs)\<rparr>"
  have tm: "tm_ok (time_source ?os x (secs_of (msg_time m)))" for x
    using assms(9) by (simp add: os_ok_def time_source_def split: pattern_time_type.split)
  obtain f t where f: "pattern_format ?os m [] (any_formatter s) = Inr (f, ?m, t)"
    using pattern_format_coloured [OF assms(6,8) tm assms(10,11)] by blast
  have "with_colors m ?m" unfolding with_colors_def by blast
  then have "flag_text pid ?m = flag_text pid m" for pid by (intro ext) (rule with_colors_text)
  then have same: "pattern_text ?os pat' tt' e' ?m = pattern_text ?os pat' tt' e' m" by (simp add: pattern_text_def)
  obtain f' where f': "pattern_format ?os ?m [] (any_formatter s') = Inr (f', ?m, pattern_text ?os pat' tt' e' m)"
    using pattern_format_plain [OF assms(7), of ?m] assms(8,12) tm same by auto
  have past: "ansi_emit c' True colors ?m (pattern_text ?os pat' tt' e' m) x = (Inl UndefinedBehaviour, x)" for x
    by (rule ansi_emit_past_end) (use assms(13,14) in simp_all)
  have two: "formatted_log ?os (ansi_emit c' True colors) ?m (any_formatter s', x) = (Inl UndefinedBehaviour, (f', x))" for x
    by (simp only: formatted_log_def prod.case f' sum.case past bind_res_simps)
  have one: "log_at os 0 m w = (Inr ?m, w\<lparr>all_sinks := [s\<lparr>any_formatter := f\<rparr>, s'], sw_consoles := console_write c t (sw_consoles w)\<rparr>)"
    using assms(1,2) by (simp add: log_at_def leaf_log_def formatted_log_def f stdout_emit_def Let_def)
  let ?w = "w\<lparr>all_sinks := [s\<lparr>any_formatter := f\<rparr>, s'], sw_consoles := console_write c t (sw_consoles w)\<rparr>"
  have "all_sinks ?w ! 1 = s'" by simp
  then obtain w' where three: "log_at os 1 ?m ?w = (Inl UndefinedBehaviour, w')"
    unfolding log_at_def leaf_log_def Let_def by (simp only: assms(3) sink_kind.case two prod.case)
  have "log_to os [0, 1] m w = log_to os [1] ?m ?w"
    using assms(1,2,4) by (subst log_to_leaf) (simp_all add: accepts_def dist_sinks_def one)
  also have "\<dots> = Some (Inl UndefinedBehaviour, w')"
    using assms(3,5) by (subst log_to_leaf) (simp_all add: accepts_def dist_sinks_def three [simplified])
  finally show ?thesis by blast
qed

theorem stale_color_range_witness:
  "\<exists>w'. log_to \<lparr>daily_log_os = demo_os, os_mktime = (\<lambda>_. 0)\<rparr> [0, 1] (demo_msg 61000000000 ''hello'')
     ((demo_sinks [])\<lparr>all_sinks :=
       [\<lparr>any_level = trace, any_formatter = pattern_formatter_new ''%^%v%$!'' local_time [], any_kind = stdout_sink console_stdout\<rparr>,
        \<lparr>any_level = trace, any_formatter = pattern_formatter_new ''%L'' local_time [], any_kind = ansicolor_sink console_stderr True ansi_colors\<rparr>]\<rparr>) =
     Some (Inl UndefinedBehaviour, w')"
proof -
  let ?s = "\<lparr>any_level = trace, any_formatter = pattern_formatter_new ''%^%v%$!'' local_time [], any_kind = stdout_sink console_stdout\<rparr>"
  let ?s' = "\<lparr>any_level = trace, any_formatter = pattern_formatter_new ''%L'' local_time [], any_kind = ansicolor_sink console_stderr True ansi_colors\<rparr>"
  have os: "os_ok demo_os" by (simp add: os_ok_def demo_os_def demo_tm_ok)
  show ?thesis
    by (rule stale_color_range [OF _ _ _ _ _ _ _ _ _ demo_patterns(3), where s = ?s and s' = ?s' and pat' = "''%L''" and tt = local_time
          and tt' = local_time and e = "[]" and e' = "[]" and c = console_stdout and c' = console_stderr and colors = ansi_colors])
      (simp_all add: new_formatter_in_use demo_secs_os demo_plain demo_flags demo_patterns(2) os level_num_def split: level.split)
qed

text \<open>
  Logging through distributing sinks returns when no sink comes to itself, and does not when a
  distributing sink is its own first sink.
\<close>

theorem dist_logging_returns:
  "(ranked rank (holds_sinks w) \<and> (\<forall>a \<in> set as. a < length (all_sinks w)) \<longrightarrow> (\<exists>r w'. log_to os as m w = Some (r, w'))) \<and>
   (accepts a m w \<and> dist_sinks (any_kind (all_sinks w ! a)) = Some (a # ss) \<longrightarrow> log_to os (a # bs) m w = None)"
proof (intro conjI impI)
  assume "ranked rank (holds_sinks w) \<and> (\<forall>a \<in> set as. a < length (all_sinks w))"
  then have "ranked rank (holds_sinks w)" "\<forall>a \<in> set as. a < length (holds_sinks w) \<and> rank a < Suc (Max (rank ` set as))"
    by (simp_all add: holds_sinks_def less_Suc_eq_le)
  from log_to_returns [OF this] show "\<exists>r w'. log_to os as m w = Some (r, w')" by blast
next
  assume "accepts a m w \<and> dist_sinks (any_kind (all_sinks w ! a)) = Some (a # ss)"
  then show "log_to os (a # bs) m w = None" using log_to_itself [OF _ refl] by (metis option.exhaust)
qed

theorem dist_logging_returns_witness:
  "(\<exists>r w'. log_to demo_daily_os [0] (demo_msg 1 ''a'') (demo_sinks [dist_sink [1, 2], null_sink, null_sink]) = Some (r, w')) \<and>
   log_to demo_daily_os [0] (demo_msg 1 ''a'') (demo_sinks [dist_sink [0]]) = None"
  using dist_logging_returns [of "\<lambda>a. if a = 0 then 1 else 0" "demo_sinks [dist_sink [1, 2], null_sink, null_sink]" "[0]"]
    dist_logging_returns [of _ "demo_sinks [dist_sink [0]]" _ _ "demo_msg 1 ''a''" 0 "[]" "[]"] demo_tree by simp

text \<open>A distributing sink that accepts a message stands for its sinks, in their order, wherever it is in a list of sinks.\<close>

theorem dist_sink_is_its_sinks:
  assumes "log_to os as m w = Some (Inr m', w')" and "accepts a m' w'" and "dist_sinks (any_kind (all_sinks w' ! a)) = Some ss"
  shows "log_to os (as @ a # bs) m w = log_to os (as @ ss @ bs) m w"
  using log_to_spliced [OF assms(2,3)] by (simp add: log_to_append [of os as] assms(1) then_log_def)

theorem dist_sink_is_its_sinks_witness:
  "log_to demo_daily_os ([] @ 0 # [2]) (demo_msg 1 ''a'') (demo_sinks [dist_sink [1, 2], null_sink, null_sink]) =
   log_to demo_daily_os ([] @ [1, 2] @ [2]) (demo_msg 1 ''a'') (demo_sinks [dist_sink [1, 2], null_sink, null_sink])"
  by (rule dist_sink_is_its_sinks [where m' = "demo_msg 1 ''a''" and w' = "demo_sinks [dist_sink [1, 2], null_sink, null_sink]"]) simp_all

text \<open>
  C39. Setting the pattern of a distributing sink sets it for every sink below it, at any depth, each with a
  formatter of its own, and for no other sink.
\<close>

theorem pattern_reaches_all_sinks:
  assumes "ranked rank (holds_sinks w)" and "a < length (all_sinks w)"
  shows "\<exists>w'. sink_set_pattern a pat w = Some w' \<and> holds_sinks w' = holds_sinks w \<and>
    (\<forall>b. any_formatter (all_sinks w' ! b) =
      (if reaches (holds_sinks w) a b then pattern_formatter_new pat local_time default_eol else any_formatter (all_sinks w ! b)))"
proof -
  have c: "clone_formatter (pattern_formatter_new pat local_time default_eol) = pattern_formatter_new pat local_time default_eol"
    by (simp add: clone_formatter_def pattern_formatter_new_def)
  have "\<forall>b \<in> set [a]. b < length (holds_sinks w) \<and> rank b < Suc (rank a)" using assms(2) by (simp add: holds_sinks_def)
  from give_formatter_gives [OF c assms(1) this] show ?thesis by (auto simp: sink_set_pattern_def gives_def)
qed

theorem pattern_reaches_all_sinks_witness:
  "\<exists>w'. sink_set_pattern 0 ''%v'' (demo_sinks [dist_sink [1, 2], null_sink, null_sink]) = Some w' \<and>
     any_formatter (all_sinks w' ! 2) = pattern_formatter_new ''%v'' local_time default_eol"
proof -
  have "reaches (holds_sinks (demo_sinks [dist_sink [1, 2], null_sink, null_sink])) 0 2"
    by (rule reaches.below [of _ _ "[1, 2]" 2]) (simp_all add: reaches.here)
  with pattern_reaches_all_sinks [OF demo_tree, of 0 "''%v''"] show ?thesis by auto
qed

end
