(* ===== verification/Spec2Isabelle.thy ===== *)
theory Spec2Isabelle
  imports Programs RecorderThreads TimeBak PubSub AsyncLogger Sinks
begin

text \<open>
  msgbag records the messages of a publish/subscribe bus into bag files and is meant to play them back. This
  development models the C++ program under \<open>src/src\<close> and the parts of the logging library under
  \<open>src/spdlog\<close> that its log messages go through, from the macros to the bytes of the log files, and
  proves what they promise. Paths below are relative to \<open>src/src\<close> unless they begin with \<open>spdlog\<close>.

  \<^bold>\<open>The program and its theories.\<close> Definitions carry the names of the source, with a prefix or
  suffix where a name is taken.

    \<^item> Prelude, Containers, Doubles, Fstream, GetOpt: the vocabulary (results with an \<open>error\<close>,
      little-endian bytes, decimal text) and what the program uses of its libraries: \<open>std::map\<close> and
      \<open>std::multimap\<close> as lists ordered by key, doubles rounded to 53 bits, file streams over a disk
      with a quota, \<open>getopt_long\<close>.
    \<^item> Buffer: \<open>common/buffer.h\<close>, \<open>buffer.cpp\<close>. The vector with its two indices refines a queue of
      bytes (locale in the theory, interpreted on the model), for every sequence of calls.
    \<^item> Header, Timestamps, TimeBak: the records of \<open>common/util.cpp\<close>, \<open>timestamp.h\<close> and
      \<open>timestamp.cpp\<close>, \<open>timebak.h\<close>.
    \<^item> Bag, BagFormat: \<open>storage/bag.h\<close>, \<open>bag.cpp\<close>. Bag has the class and its operations; BagFormat
      describes the files as byte images and proves what a session writes and what a reader gets,
      for whole files, files cut short and files appended to.
    \<^item> View: \<open>storage/query.h\<close>, \<open>query.cpp\<close>, \<open>view.h\<close>, \<open>view.cpp\<close>.
    \<^item> SyncQueue, ThreadPool: \<open>common/sync_queue.h\<close>, \<open>thread_pool.h\<close>, \<open>thread_pool.cpp\<close>. Critical
      sections are functions; threads that sleep, are woken and enter are a step relation, with
      invariants proved by rule induction over the reachable states and a measure for termination.
    \<^item> Timers: \<open>common/timer.h\<close>, \<open>timer_queue.h\<close>, \<open>event_loop.h\<close> and their sources.
    \<^item> HandlerMaps: the two tables of \<open>common/util.cpp\<close> from topics to message handlers.
    \<^item> RecordOptions, Recorder, Recording, RecordLimits, Subscribing: \<open>record/record.cpp\<close>,
      \<open>recorder.h\<close>, \<open>recorder.cpp\<close>. Recording has the invariant that ties the recorder's state to the
      files on the disk; RecordLimits treats the size, duration and disk limits, Subscribing the start.
    \<^item> RecorderFrame, RecorderThreads: the recorder with its threads. RecorderFrame shows that no
      operation of the recording thread reads the queue or tests \<open>running_\<close> beyond its loop;
      RecorderThreads has the handlers, the recording thread and \<open>Stop\<close> as step relations over the
      queue with its sleepers, and ties every interleaving to a sequential run.
    \<^item> PlayOptions, Player, Playback: \<open>play/play.cpp\<close>, \<open>player.h\<close>, \<open>player.cpp\<close>.
    \<^item> Conf, PubSub: \<open>conf/msgbag_conf.cpp\<close>, \<open>common/pub_sub.h\<close>.
    \<^item> FmtInt, FmtWriter, FmtParse: \<open>spdlog/fmt/bundled/format.h\<close>, \<open>format-inl.h\<close>, \<open>core.h\<close>. FmtInt
      has the digit counts and the integer printers in their buffers, FmtWriter the writers of an
      argument under a specification, FmtParse the parser of format strings and \<open>vformat_to\<close>. Every
      format string gives a text or a \<open>format_error\<close>.
    \<^item> PatternFormatter, PatternText: \<open>spdlog/details/pattern_formatter.h\<close>, \<open>fmt_helper.h\<close>,
      \<open>log_msg.h\<close> and the levels of \<open>spdlog/common.h\<close>. PatternText describes what each flag prints
      and proves that the formatter, with its caches, prints that.
    \<^item> SpdLogger, Logging: \<open>spdlog/details/logger_impl.h\<close>, \<open>registry.h\<close>, \<open>spdlog/sinks/base_sink.h\<close>,
      and the program's own \<open>log/logger.h\<close> with \<open>common/singleton.h\<close>, down to the log files.
    \<^item> RotatingSink, CircularQueue: \<open>spdlog/details/file_helper.h\<close>,
      \<open>spdlog/sinks/rotating_file_sink.h\<close>, \<open>spdlog/details/circular_q.h\<close>, \<open>mpmc_blocking_q.h\<close>.
    \<^item> AsyncLogger: \<open>spdlog/details/thread_pool.h\<close>, \<open>spdlog/async_logger.h\<close>,
      \<open>async_logger_impl.h\<close>. The posting loggers, the workers and the destructor of the pool are a step
      relation over the ring of CircularQueue; with one worker and a queue that blocks it comes to
      what the loggers of SpdLogger do.
    \<^item> DailySink, Sinks: \<open>spdlog/sinks/daily_file_sink.h\<close>, \<open>stdout_sinks.h\<close>, \<open>ansicolor_sink.h\<close>,
      \<open>ostream_sink.h\<close>, \<open>basic_file_sink.h\<close>, \<open>null_sink.h\<close>, \<open>dist_sink.h\<close>. Plain sinks share a locale,
      interpreted on the console, the stream and the file; distributing sinks share their sinks.
    \<^item> Programs, and this theory: the two \<open>main\<close> functions, and the way of the messages from the
      command line of the recorder through the disk to the command line of the player.

  \<^bold>\<open>State and effects.\<close> A class is a record of its members, extended by what its operations meet
  outside (the disk, the successive answers of the clock and of \<open>statvfs\<close>). An operation maps the
  state to a result and the new state; a failed assertion, an exception, undefined behaviour and
  \<open>exit\<close> are the constructors of \<open>error\<close>. Assertions are those of the source text; a release build
  compiles them out and goes on where the model stops with \<open>AssertFailed\<close>. Machine integers are
  words where they wrap or are read with a sign, or numbers with the modulus written out, as the sizes
  and indices of Buffer and of the ring in CircularQueue. The log files take every write at once:
  the buffers of \<open>FILE\<close> are not modelled.

  \<^bold>\<open>Concurrency.\<close> The queue and the pool are modelled with all interleavings of their critical
  sections. In Recorder and Recording the recording thread takes an explicit list of what it meets:
  the lists that its calls of \<open>Take\<close> return and whether \<open>running_\<close> was cleared in between;
  RecorderThreads shows that the threads together give such runs. The event loop takes the clock
  readings of its wake-ups. AsyncLogger has every interleaving of callers and workers, each call of one
  sink, which locks, being a step of its own. Synchronous loggers are used by one thread at a time in the
  model: their mutexes guard single operations.

  \<^bold>\<open>Bounds and fuel.\<close> No definition has fuel. The one loop of the program that may not end,
  in \<open>CheckDuration\<close>, is a \<open>partial_function\<close> whose result is none when it runs forever; that it
  ends is part of each theorem about it. The loops that wait (\<open>Run\<close>, \<open>EventLoop\<close>, the passes of
  \<open>--loop\<close>) go over a list of the events they are given. Files are below \<open>2^63\<close> bytes where a
  theorem says so, since the code keeps offsets in signed 64-bit words.

  \<^bold>\<open>What is shown.\<close> Each property is a theorem that follows a text block with its number. The
  first ones are the contract of the whole: what is recorded is in the files, and what is in the
  files is handed to \<open>DoPublish\<close>, in time order and once; \<open>DoPublish\<close> itself only prints. Some theorems state what the code does where it is not
  what was meant: the last record of every bag is lost on reading, an appended bag cannot be read,
  a view of no records crashes the player, a second pass of \<open>--loop\<close> calls \<open>DoPublish\<close> for nothing, \<open>Stop\<close>
  discards what is still queued, an empty logger name ends the programs, and, in the logging library, a
  colour range goes stale and a daily file empties itself.

  \<^bold>\<open>Not modelled.\<close> The message bus, the TOML parser and the generated message types are third-party
  code: parameters, or histories of what they were given. Of the fmt library floating-point, named and
  user-defined arguments, wide characters, \<open>printf\<close>, dates and colours are left out, of spdlog the
  factories, the sinks of other systems (Android, Windows, syslog, systemd), \<open>clone\<close> and periodic
  flushing: the programs reach none of them, except that the recorder prints one floating-point
  duration. Debug output, the terminal set-up (never called) and the test programs are left out too, and
  so are the log lines in the models of the program's own classes: Logging treats any sequence of such
  lines.
\<close>

section \<open>From the recorder to the player\<close>

lemma open_finished_file:
  assumes "finished_file d name (ms @ [m])" and "\<forall>x \<in> set (ms @ [m]). topic_ok (om_record x)"
    and "1041 + length (om_bytes (ms @ [m])) < 2 ^ 63"
  shows "\<exists>b. Bag_Open now name BagMode_Read (Bag_new, d) = (Inr (), (b, d)) \<and> readable_bag b \<and>
    records b = sort_key fst (map entry (map om_record ms))"
proof -
  from assms(1) obtain start stop where
    f: "files d name = Some (finished_bag start stop (word_of_nat (length (ms @ [m]))) (om_bytes (ms @ [m])))"
    by (auto simp: finished_file_def)
  let ?h = "final_header start stop (word_of_nat (length (ms @ [m])))"
  let ?r = "om_record m"
  define data where "data = version_line @ header_image ?h @ concat (map record_bytes (map om_record ms)) @ record_bytes ?r"
  have fd: "files d name = Some data" using f by (simp add: data_def finished_bag_def om_bytes_def comp_def)
  have len: "length data < 2 ^ 63" using assms(3) by (simp add: data_def om_bytes_def comp_def)
  have closed: "\<not> is_open (filestream Bag_new)" by (simp add: Bag_new_def Bag_Init_def fstream_default_def)
  have "topic_ok ?r" and n: "length (serialized_msg ?r) + 17 < 2 ^ 63"
    using assms(2) len by (simp_all add: data_def record_bytes_def)
  then have dead: "dead_tail (record_bytes ?r)" "record_bytes ?r \<noteq> []"
    using dead_record_bytes by (auto simp: record_bytes_def)
  have ok: "\<forall>r \<in> set (map om_record ms). topic_ok r" using assms(2) by simp
  from Bag_Open_read [OF closed fd len data_def final_header_ok ok dead read_only_Read, of now] obtain b where
    "Bag_Open now name BagMode_Read (Bag_new, d) = (Inr (), (b, d))" "mode b = BagMode_Read"
    "records b = mm_insert_all (map entry (map om_record ms)) (records Bag_new)" by blast
  moreover have "mm_insert_all (map entry (map om_record ms)) (records Bag_new) = sort_key fst (map entry (map om_record ms))"
    by (simp add: Bag_new_def Bag_Init_def mm_insert_all_sort_key)
  ultimately show ?thesis by (auto simp: readable_bag_def)
qed

text \<open>A fresh player for one bag, without options.\<close>

definition plays_file :: "string \<Rightarrow> disk \<Rightarrow> player \<Rightarrow> bool" where
  "plays_file name d p \<longleftrightarrow> p_bags (p_options p) = [name] \<and> p_topics (p_options p) = [] \<and>
     \<not> p_has_duration (p_options p) \<and> \<not> p_loop (p_options p) \<and> p_open_bags p = [] \<and>
     p_timer_queue p = TimerQueue_new True \<and> p_disk p = d"

lemma Publish_one_bag:
  assumes "plays_file name d p" and "Bag_Open now name BagMode_Read (Bag_new, d) = (Inr (), (b, d))"
    and "readable_bag b" and "sorted (map fst (records b))"
  shows "records b = [] \<Longrightarrow> fst (Publish now passes p) = Inl UndefinedBehaviour"
    and "records b \<noteq> [] \<Longrightarrow> \<exists>v. GetRecords v = records b \<and>
      Publish now passes p = play_passes passes v (p\<lparr>p_open_bags := [b]\<rparr>)"
proof -
  let ?p = "p\<lparr>p_open_bags := [b]\<rparr>"
  have o: "PlayerOptions_Check (p_options p) = (Inr (), [])" using assms(1) by (simp add: plays_file_def PlayerOptions_Check_def)
  have same: "p\<lparr>p_out := p_out p\<rparr> = p" by simp
  have pb: "p_bags (p_options p) = [name]" using assms(1) by (simp add: plays_file_def)
  have ob: "open_bags now [name] p = (Inr (), ?p)"
    using assms(1,2) by (cases p) (simp add: plays_file_def)
  have srt: "sort_key fst (records b) = records b" using assms(4) by (rule sort_key_id_if_sorted)
  have all: "\<exists>v. add_all [b] t0 t1 View_new = Inr v \<and> GetRecords v = records b" for t0 t1
    using add_all_records [of "[b]" t0 t1] assms(3) srt by simp
  obtain v0 where v0: "add_all [b] TIME_MIN TIME_MAX View_new = Inr v0" "GetRecords v0 = records b"
    using all by blast
  have pub: "Publish now passes p = (case GetBeginTime v0 of Inl e \<Rightarrow> (Inl e, ?p)
      | Inr t \<Rightarrow> (case play_view ?p t of Inl e \<Rightarrow> (Inl e, ?p)
         | Inr v \<Rightarrow> if View_Size v = 0 then (Inr NoMessages, p_print ''No messages to play on specified topics.  Exiting.'' ?p)
             else play_passes passes v ?p))"
    using pb ob v0(1) by (simp add: Publish_def o same del: open_bags.simps add_all.simps)
  show "fst (Publish now passes p) = Inl UndefinedBehaviour" if "records b = []"
    using v0(2) that by (simp add: pub GetBeginTime_def GetRecords_def)
  show "\<exists>v. GetRecords v = records b \<and> Publish now passes p = play_passes passes v ?p" if ne: "records b \<noteq> []"
  proof -
    obtain t where t: "GetBeginTime v0 = Inr t" using v0(2) ne
      by (cases "records b") (auto simp: GetBeginTime_def GetRecords_def)
    obtain v where v: "play_view ?p t = Inr v" "GetRecords v = records b"
      using assms(1) all by (auto simp: play_view_def plays_file_def Let_def)
    with ne have "View_Size v \<noteq> 0" by (simp add: View_Size_def GetRecords_def)
    with pub t v show ?thesis by (intro exI [of _ v]) simp
  qed
qed

lemma finished_file_plays_back:
  assumes "finished_file d name (ms @ [m])" and "ms \<noteq> []"
    and "1041 + length (om_bytes (ms @ [m])) < 2 ^ 63"
    and "\<forall>x \<in> set (ms @ [m]). topic_ok (om_record x)"
    and "rs = sort_key fst (map entry (map om_record ms))"
    and "diff = TimeDifference (pass_now x) (fst (hd rs))" and "times_ok diff rs"
    and "addresses_ok (pass_addr x) (length rs)"
    and "prompt (map due (sort_key due (play_jobs (pass_addr x) diff rs))) (pass_wakes x)"
    and p: "plays_file name d p"
  shows "\<exists>p'. Publish now (x # xs) p = (Inr PlayDone, p') \<and> mset (fired_of p') = mset (map om_record ms) \<and>
    sorted (map timestamp_ns (fired_of p'))"
proof -
  from open_finished_file [OF assms(1,4,3), of now] obtain b where
    b: "Bag_Open now name BagMode_Read (Bag_new, d) = (Inr (), (b, d))" "readable_bag b" "records b = rs"
    unfolding assms(5) by blast
  have srt: "sorted (map fst (records b))" by (simp add: b(3) assms(5))
  have ne: "rs \<noteq> []" using assms(2,5) by (metis length_0_conv length_map length_sort)
  have same: "mset (map snd rs) = mset (map om_record ms)"
    unfolding assms(5) mset_map mset_sort by (simp add: image_mset.compositionality comp_def entry_def)
  obtain v where v: "GetRecords v = rs" "Publish now (x # xs) p = play_passes (x # xs) v (p\<lparr>p_open_bags := [b]\<rparr>)"
    using Publish_one_bag(2) [OF p b(1,2) srt] ne b(3) by metis
  have t: "p_timer_queue (p\<lparr>p_open_bags := [b]\<rparr>) = TimerQueue_new True" "\<not> p_loop (p_options (p\<lparr>p_open_bags := [b]\<rparr>))"
    using p by (simp_all add: plays_file_def)
  from play_pass_serves [OF v(1) ne t(1) assms(6-9)] obtain qu where
    pass: "play_pass x v (p\<lparr>p_open_bags := [b]\<rparr>) = (Inr Returned, p\<lparr>p_open_bags := [b], p_timer_queue := qu\<rparr>)"
      "fired qu = map (\<lambda>(a, r, t). r) (sort_key due (play_jobs (pass_addr x) diff rs))" by auto
  have "Publish now (x # xs) p = (Inr PlayDone, p_print ''Done.'' (p\<lparr>p_open_bags := [b], p_timer_queue := qu\<rparr>))"
    using v(2) pass(1) t(2) by simp
  moreover have "mset (fired qu) = mset (map om_record ms)" unfolding pass(2) same [symmetric] by (rule jobs_mset)
  moreover have "sorted (map timestamp_ns (fired qu))" unfolding pass(2) by (rule jobs_sorted [OF assms(7)])
  ultimately show ?thesis by (auto simp: fired_of_def p_print_def)
qed

section \<open>From command line to command line\<close>

text \<open>\<open>record -O name topic ...\<close> starts a recorder that is about to record to \<open>name.bag\<close>.\<close>

lemma record_command_line:
  assumes "list_all plain_arg ts"
  shows "\<exists>p. parse_command_line (''-O'' # name # ts) \<lparr>opts = RecorderOptions_default, out = []\<rparr> = (Inr (), p) \<and>
    opts p = RecorderOptions_default\<lparr>opt_prefix := name, append_date := False, topics := ts\<rparr>"
proof -
  have k: "letter_kind option_letters (CHR ''O'') = Some True"
    by (simp add: option_letters_def head_opt_def)
  have g: "getopt_long long_opts option_letters (-1) (''-O'' # name # ts) =
      ([\<lparr>opt_c = CHR ''O'', opt_l = -1, optarg = name, next_arg = head_opt ts\<rparr>], ts)"
    using getopt_plain [OF assms] by (simp del: getopt_long.simps add: getopt_letter k)
  have h: "handle_option \<lparr>opt_c = CHR ''O'', opt_l = -1, optarg = name, next_arg = head_opt ts\<rparr> =
      set_opts (\<lambda>p. p\<lparr>opt_prefix := name, append_date := False\<rparr>)"
    by (rule ext) (simp add: handle_option_def)
  show ?thesis
    by (simp add: parse_command_line_def g h ParseOption_def next_then_def set_opts_def RecorderOptions_default_def
        del: getopt_long.simps)
qed

definition roomy :: "(nat \<Rightarrow> (64 word \<times> 64 word) option) \<Rightarrow> bool" where
  "roomy stat \<longleftrightarrow> (\<forall>n a b. stat n = Some (a, b) \<longrightarrow> 1073741824 \<le> a * b)"

lemma record_main_starts:
  assumes "LoadConf parsed c0 = Inr (loaded, c)" and "disk_usable d" and "strip_bag name \<noteq> []"
    and "list_all plain_arg ts" and "ts \<noteq> []" and "roomy stat"
    and "GetRecorderLoggerName c \<noteq> []"
  shows "\<exists>s lines. record_main parsed c0 (''-O'' # name # ts) d clk stat lt = Runs s lines \<and> about_to_record s \<and>
    options s = RecorderOptions_default\<lparr>opt_prefix := name, append_date := False, topics := ts\<rparr> \<and>
    quota (rec_disk s) = quota d"
proof -
  let ?o = "RecorderOptions_default\<lparr>opt_prefix := name, append_date := False, topics := ts\<rparr>"
  obtain p where p: "parse_command_line (''-O'' # name # ts) \<lparr>opts = RecorderOptions_default, out = []\<rparr> = (Inr (), p)"
    "opts p = ?o" using record_command_line [OF assms(4)] by blast
  have cr: "\<forall>n. creatable d n" using assms(2) by (simp add: disk_usable_def)
  obtain l r d1 where l: "MyLogger_new (GetRecorderLoggerName c) (GetRecorderLogFile c) (GetLogfileMaxSize c)
      (GetMaxLogfileNum c) (registry_new, d) = (Inr l, (r, d1))" "creatable d1 = creatable d" "quota d1 = quota d"
    using MyLogger_new_disk [OF cr assms(7)] by blast
  let ?s = "Recorder_new ?o d1 clk stat lt"
  have "about_to_record (?s\<lparr>rec_running := True, record_thread := True\<rparr>)"
    using assms(2,3,6) l(2,3)
    by (simp add: about_to_record_def Recorder_new_def unlimited_def disk_fine_def named_def disk_usable_def
        RecorderOptions_default_def roomy_def)
  moreover have "subscribers ?s = []" "\<not> trigger (options ?s)" "\<not> record_all (options ?s)" "topics (options ?s) \<noteq> []"
    using assms(5) by (simp_all add: Recorder_new_def RecorderOptions_default_def)
  ultimately obtain s' where s': "Run (GetIp c) (GetPort c) (GetBufferSize c) ?s = (Inr (), s')" "about_to_record s'"
      "options s' = options ?s" "rec_disk s' = rec_disk ?s"
    using Run_about_to_record by blast
  have "record_main parsed c0 (''-O'' # name # ts) d clk stat lt = Runs s' (out p)"
    by (simp add: record_main_def assms(1) GetInstance_def l(1) p s'(1))
  with s' l(3) show ?thesis by (simp add: Recorder_new_def)
qed

text \<open>\<open>play file\<close> gives a player for that file on the same disk, apart from the log file.\<close>

lemma play_main_plays:
  assumes "LoadConf parsed c0 = Inr (loaded, c)" and "\<forall>n. creatable d n" and "plain_arg name"
    and "finished_file d name ms" and "GetPlayerLoggerName c \<noteq> []"
  shows "\<exists>p d'. plays_file name d' p \<and> finished_file d' name ms \<and>
    (\<forall>now passes r p'. Publish now passes p = (Inr r, p') \<longrightarrow>
      play_main parsed c0 [name] d True now passes = Runs (r, p') (p_out p'))"
proof -
  obtain l r d1 where l: "MyLogger_new (GetPlayerLoggerName c) (GetPlayerLogFile c) (GetLogfileMaxSize c)
      (GetMaxLogfileNum c) (registry_new, d) = (Inr l, (r, d1))" "\<forall>n s. files d n = Some s \<longrightarrow> files d1 n = Some s"
    using MyLogger_new_disk [OF assms(2,5)] by blast
  let ?p = "Player_new (PlayerOptions_default\<lparr>p_bags := [name]\<rparr>) (GetIp c) (GetPort c) (GetBufferSize c) True d1"
  have g: "getopt_long play_long_opts play_letters (-1) [name] = ([], [name])"
    using getopt_plain [of "[name]"] assms(3) by simp
  have a: "ParseOptions [name] PlayerOptions_default =
      (Inr (), \<lparr>play_opts = PlayerOptions_default\<lparr>p_bags := [name]\<rparr>, play_out = []\<rparr>)"
    by (simp add: ParseOptions_def g PlayerOptions_default_def del: getopt_long.simps)
  have "plays_file name d1 ?p" by (simp add: plays_file_def Player_new_def PlayerOptions_default_def)
  moreover have "finished_file d1 name ms" using assms(4) l(2) by (auto simp: finished_file_def)
  moreover have "play_main parsed c0 [name] d True now passes = Runs (r, p') (p_out p')"
    if "Publish now passes ?p = (Inr r, p')" for now passes r p'
    using that by (simp add: play_main_def assms(1) GetInstance_def l(1) a)
  ultimately show ?thesis by blast
qed

section \<open>Properties\<close>

text \<open>
  C1. From command line to command line: \<open>record -O name topics\<close>, with a configuration that loads
  and names both loggers, and a disk with room, starts a recorder; when its thread has taken the messages \<open>ms\<close> and \<open>m\<close>, in
  any batches, and the program is interrupted, \<open>play name.bag\<close> runs to its end and its timers call
  \<open>DoPublish\<close> for every message of \<open>ms\<close> exactly once, in the order of their times. Only the last message
  is lost. (\<open>DoPublish\<close> prints the topic; its call of the bus is commented out, so no message gets there.)
\<close>

theorem record_then_play:
  assumes "LoadConf parsed c0 = Inr (loaded, c)" and "disk_usable d" and "roomy stat"
    and "strip_bag name \<noteq> []" and "plain_arg (strip_bag name @ ''.bag'')" and "list_all plain_arg ts" and "ts \<noteq> []"
    and "concat mss = ms @ [m]" and "ms \<noteq> []" and "1041 + length (om_bytes (ms @ [m])) \<le> quota d"
    and "\<forall>x \<in> set (ms @ [m]). topic_ok (om_record x)"
    and "rs = sort_key fst (map entry (map om_record ms))"
    and "diff = TimeDifference (pass_now x) (fst (hd rs))" and "times_ok diff rs"
    and "addresses_ok (pass_addr x) (length rs)"
    and "prompt (map due (sort_key due (play_jobs (pass_addr x) diff rs))) (pass_wakes x)"
    and "GetRecorderLoggerName c \<noteq> []" and "GetPlayerLoggerName c \<noteq> []"
  shows "\<exists>s lines s1 s2 p lines'.
    record_main parsed c0 (''-O'' # name # ts) d clk stat lt = Runs s lines \<and>
    DoRecordSingleThread (batches mss) s = Some (Inr ThreadWaiting, s1) \<and>
    record_ProgExit (Some s1) = (Inr (), Some s2) \<and>
    play_main parsed c0 [strip_bag name @ ''.bag''] (rec_disk s2) True now (x # xs) = Runs (PlayDone, p) lines' \<and>
    mset (fired_of p) = mset (map om_record ms) \<and> sorted (map timestamp_ns (fired_of p))"
proof -
  obtain s lines where s: "record_main parsed c0 (''-O'' # name # ts) d clk stat lt = Runs s lines"
    "about_to_record s" "options s = RecorderOptions_default\<lparr>opt_prefix := name, append_date := False, topics := ts\<rparr>"
    "quota (rec_disk s) = quota d"
    using record_main_starts [OF assms(1,2,4,6,7,3,17)] by blast
  have o: "no_limits (options s)" "strip_bag (opt_prefix (options s)) \<noteq> []" "\<not> append_date (options s)"
      "opt_prefix (options s) = name" "\<not> opt_split (options s)"
    using assms(4) by (simp_all add: s(3) no_limits_def RecorderOptions_default_def)
  have q: "1041 + length (om_bytes (concat mss)) \<le> quota (rec_disk s)" using assms(8,10) s(4) by simp
  from recorded_file [OF s(2) o(5) q] obtain s1 s2 where
    r: "DoRecordSingleThread (batches mss) s = Some (Inr ThreadWaiting, s1)" "Recorder_Stop s1 = (Inr (), s2)"
      "finished_file (rec_disk s2) (target_filename s1) (ms @ [m])" "disk_usable (rec_disk s2)"
    unfolding assms(8) by blast
  have name: "target_filename s1 = strip_bag name @ ''.bag''"
    using DoRecordSingleThread_target [OF o(1-3) r(1)] o(4) by simp
  have cr: "\<forall>n. creatable (rec_disk s2) n" using r(4) by (simp add: disk_usable_def)
  from play_main_plays [OF assms(1) cr assms(5) r(3) [unfolded name] assms(18)] obtain p d' where
    p: "plays_file (strip_bag name @ ''.bag'') d' p" "finished_file d' (strip_bag name @ ''.bag'') (ms @ [m])"
      "\<forall>now passes r p'. Publish now passes p = (Inr r, p') \<longrightarrow>
        play_main parsed c0 [strip_bag name @ ''.bag''] (rec_disk s2) True now passes = Runs (r, p') (p_out p')"
    by blast
  have len: "1041 + length (om_bytes (ms @ [m])) < 2 ^ 63"
    using assms(2,10) by (simp add: disk_usable_def)
  from finished_file_plays_back [OF p(2) assms(9) len assms(11-16) p(1), of now xs] obtain p' where
    "Publish now (x # xs) p = (Inr PlayDone, p')" "mset (fired_of p') = mset (map om_record ms)"
    "sorted (map timestamp_ns (fired_of p'))" by blast
  moreover have "record_ProgExit (Some s1) = (Inr (), Some s2)" by (simp add: record_ProgExit_def r(2))
  ultimately show ?thesis using s(1) r(1) p(3) by blast
qed

definition replay_pass :: pass where
  "replay_pass = \<lparr>pass_now = Timestamp 8000, pass_addr = (\<lambda>i. 16 * (i + 1)), loop_now = Timestamp 8010,
     loop_arm = Timestamp 8011, pass_wakes = [\<lparr>handle_now = Timestamp 8200, arm_now = Timestamp 8201\<rparr>]\<rparr>"

lemma replay_diff: "sint (delta_of (TimeDifference (Timestamp 8000) (Timestamp 9))) = 7991"
  by code_simp

definition demo_world :: disk where
  "demo_world = \<lparr>files = Map.empty, creatable = (\<lambda>_. True), quota = 5000\<rparr>"

definition demo_conf :: conf where
  "demo_conf = \<lparr>ip = [], port = 0, conf_buffer_size = 0, r_logger_name = [], r_log_file = [], p_logger_name = [],
     p_log_file = [], logfile_max_size = 0, max_logfile_num = 0\<rparr>"

definition demo_localtime :: "int \<Rightarrow> tm" where
  "demo_localtime _ = \<lparr>tm_year = 119, tm_mon = 3, tm_mday = 12, tm_hour = 17, tm_min = 42, tm_sec = 21\<rparr>"

theorem record_then_play_witness:
  "\<exists>s lines s1 s2 p lines'.
    record_main (Some Map.empty) demo_conf [''-O'', ''x.bag'', ''/t''] demo_world (\<lambda>_. Timestamp 7) (\<lambda>_. None) demo_localtime = Runs s lines \<and>
    DoRecordSingleThread (batches [[demo_message], [demo_message]]) s = Some (Inr ThreadWaiting, s1) \<and>
    record_ProgExit (Some s1) = (Inr (), Some s2) \<and>
    play_main (Some Map.empty) demo_conf [''x.bag''] (rec_disk s2) True (Timestamp 1) [replay_pass] = Runs (PlayDone, p) lines' \<and>
    mset (fired_of p) = {#om_record demo_message#}"
proof -
  let ?rs = "sort_key fst (map entry (map om_record [demo_message]))"
  let ?diff = "TimeDifference (pass_now replay_pass) (fst (hd ?rs))"
  have rs: "?rs = [(Timestamp 9, om_record demo_message)]" by (simp add: entry_def om_record_def demo_message_def)
  obtain loaded c where c: "LoadConf (Some Map.empty) demo_conf = Inr (loaded, c)"
      and names: "GetRecorderLoggerName c \<noteq> []" "GetPlayerLoggerName c \<noteq> []"
    by (simp add: LoadConf_def Strings_def Integer_def GetRecorderLoggerName_def GetPlayerLoggerName_def)
  have d: "disk_usable demo_world" "roomy (\<lambda>_. None)" by (simp_all add: disk_usable_def demo_world_def roomy_def)
  have n: "strip_bag ''x.bag'' \<noteq> []" "plain_arg (strip_bag ''x.bag'' @ ''.bag'')" "list_all plain_arg [''/t'']" "[''/t''] \<noteq> []"
    by (simp_all add: strip_demo plain_arg_def)
  have h: "concat [[demo_message], [demo_message]] = [demo_message] @ [demo_message]" "[demo_message] \<noteq> []"
    "1041 + length (om_bytes ([demo_message] @ [demo_message])) \<le> quota demo_world"
    "\<forall>x \<in> set ([demo_message] @ [demo_message]). topic_ok (om_record x)"
    by (simp_all add: om_bytes_def record_bytes_def om_record_def demo_message_def demo_world_def topic_ok_def)
  have t: "times_ok ?diff ?rs"
    unfolding rs by (simp add: replay_pass_def times_ok_def replay_diff om_record_def demo_message_def)
  have a: "addresses_ok (pass_addr replay_pass) (length ?rs)" by (simp add: rs addresses_ok_def replay_pass_def inj_on_def)
  have pr: "prompt (map due (sort_key due (play_jobs (pass_addr replay_pass) ?diff ?rs))) (pass_wakes replay_pass)"
    unfolding rs by code_simp
  have x: "strip_bag ''x.bag'' @ ''.bag'' = ''x.bag''" by (simp add: strip_demo)
  from record_then_play [OF c d n h refl refl t a pr names, of "\<lambda>_. Timestamp 7" demo_localtime "Timestamp 1" "[]"]
  show ?thesis unfolding x by fastforce
qed

text \<open>
  C36. A recording of a single message cannot be played: the reader loses that message, the view of
  the whole bag is empty, and \<open>GetBeginTime\<close> dereferences the end of an empty multimap.
\<close>

theorem single_message_recording_crashes_player:
  assumes "about_to_record s" and "\<not> opt_split (options s)" and "concat mss = [m]"
    and "1041 + length (om_bytes [m]) \<le> quota (rec_disk s)" and "topic_ok (om_record m)"
  shows "\<exists>s1 s2. DoRecordSingleThread (batches mss) s = Some (Inr ThreadWaiting, s1) \<and>
    Recorder_Stop s1 = (Inr (), s2) \<and>
    (\<forall>p. plays_file (target_filename s1) (rec_disk s2) p \<longrightarrow>
      fst (Publish now passes p) = Inl UndefinedBehaviour)"
proof -
  have q: "1041 + length (om_bytes (concat mss)) \<le> quota (rec_disk s)" using assms(3,4) by simp
  from recorded_file [OF assms(1,2) q] obtain s1 s2 where
    r: "DoRecordSingleThread (batches mss) s = Some (Inr ThreadWaiting, s1)" "Recorder_Stop s1 = (Inr (), s2)"
      "finished_file (rec_disk s2) (target_filename s1) ([] @ [m])"
    unfolding assms(3) by auto
  have "1041 + length (om_bytes ([] @ [m])) < 2 ^ 63"
    using assms(1,4) by (simp add: about_to_record_def disk_usable_def)
  moreover have "\<forall>x \<in> set ([] @ [m]). topic_ok (om_record x)" using assms(5) by simp
  ultimately obtain b where
    b: "Bag_Open now (target_filename s1) BagMode_Read (Bag_new, rec_disk s2) = (Inr (), (b, rec_disk s2))"
      "readable_bag b" "records b = []" using open_finished_file [OF r(3), of now] by auto
  have "fst (Publish now passes p) = Inl UndefinedBehaviour"
    if "plays_file (target_filename s1) (rec_disk s2) p" for p
    using Publish_one_bag(1) [OF that b(1,2)] b(3) by simp
  with r(1,2) show ?thesis by blast
qed

theorem single_message_recording_crashes_player_witness:
  "\<exists>s1 s2. DoRecordSingleThread (batches [[demo_message]]) demo_recorder = Some (Inr ThreadWaiting, s1) \<and>
     Recorder_Stop s1 = (Inr (), s2) \<and>
     fst (Publish (Timestamp 1) [] (Player_new (PlayerOptions_default\<lparr>p_bags := [target_filename s1]\<rparr>)
       ''127.0.0.1'' 10086 10240 True (rec_disk s2))) = Inl UndefinedBehaviour"
proof -
  have o: "\<not> opt_split (options demo_recorder)"
    by (simp add: demo_recorder_def demo_options_def Recorder_new_def RecorderOptions_default_def)
  have h: "concat [[demo_message]] = [demo_message]" "1041 + length (om_bytes [demo_message]) \<le> quota (rec_disk demo_recorder)"
    "topic_ok (om_record demo_message)"
    by (simp_all add: om_bytes_def record_bytes_def om_record_def demo_message_def demo_recorder_def Recorder_new_def topic_ok_def)
  have p: "plays_file name d (Player_new (PlayerOptions_default\<lparr>p_bags := [name]\<rparr>) ''127.0.0.1'' 10086 10240 True d)"
    for name d by (simp add: plays_file_def Player_new_def PlayerOptions_default_def)
  from single_message_recording_crashes_player [OF demo_about_to_record o h, of "Timestamp 1" "[]"] p
  show ?thesis by blast
qed

end
